(* ===== verification/Prelude_B1.thy ===== *)
theory Prelude_B1
  imports Main "HOL-Library.Word"
begin

text \<open>
  What every component of the development shares: names for the machine integers of the C code,
  rounding up to a power-of-two alignment, decimal printing and parsing of naturals (the
  \<^verbatim>\<open>%d\<close> and \<^verbatim>\<open>strtol\<close> of the C library), and little-endian byte strings.
\<close>

unbundle bit_operations_syntax

named_theorems align_simps \<open>rounding up to a power of two\<close>

type_synonym u8 = "8 word"
type_synonym u16 = "16 word"
type_synonym u32 = "32 word"
type_synonym u64 = "64 word"

subsection \<open>Rounding up to an alignment\<close>

definition align_up :: "u64 \<Rightarrow> u64 \<Rightarrow> u64" where
  "align_up value alignment = (value + alignment - 1) AND NOT (alignment - 1)"

definition round_up :: "nat \<Rightarrow> nat \<Rightarrow> nat" where
  "round_up n a = (n + a - 1) div a * a"

lemma unat_exp: "k < LENGTH('a) \<Longrightarrow> unat (2 ^ k :: 'a::len word) = 2 ^ k"
proof -
  assume "k < LENGTH('a)"
  then have "unat (of_nat (2 ^ k) :: 'a word) = 2 ^ k"
    by (simp only: unat_of_nat) simp
  then show ?thesis by simp
qed

lemma and_not_mask: "(x :: 'a::len word) AND NOT (mask k) = x - take_bit k x"
proof -
  have "x AND NOT (mask k) = push_bit k (drop_bit k x)"
    by (rule bit_eqI) (auto simp: bit_simps)
  then show ?thesis by (simp add: eq_diff_eq) (simp add: bits_ident)
qed

lemma unat_and_not_mask: "unat ((x :: 'a::len word) AND NOT (mask k)) = unat x div 2 ^ k * 2 ^ k"
proof -
  have t: "unat (take_bit k x) = unat x mod 2 ^ k"
    by (simp only: unsigned_take_bit_eq take_bit_nat_def)
  then have "take_bit k x \<le> x" by (simp add: word_le_nat_alt)
  then show ?thesis by (simp add: and_not_mask unat_sub t minus_mod_eq_div_mult)
qed

lemma unat_align_up [align_simps]:
  assumes al: "al = 2 ^ k" and k: "k < 64" and no_wrap: "unat v + unat al \<le> 2 ^ 64"
  shows "unat (align_up v al) = round_up (unat v) (2 ^ k)"
proof -
  have pow: "unat (2 ^ k :: u64) = 2 ^ k" using k by (simp add: unat_exp)
  have m: "(2 :: u64) ^ k - 1 = mask k" by (simp add: mask_eq_exp_minus_1)
  have "unat (v + (al - 1)) = unat v + (2 ^ k - 1)"
  proof -
    have u: "unat (al - 1) = 2 ^ k - 1"
      by (subst unat_minus_one) (use pow al k in auto)
    have "unat v + unat (al - 1) < 2 ^ 64"
    proof -
      have "unat v + (2 ^ k - 1) < unat v + 2 ^ k" by simp
      with no_wrap pow al u show ?thesis by simp
    qed
    then show ?thesis using u by (simp add: unat_word_ariths)
  qed
  moreover have "align_up v al = (v + (al - 1)) AND NOT (mask k)"
    unfolding align_up_def al m add_diff_eq [symmetric] ..
  ultimately show ?thesis
    by (simp add: unat_and_not_mask round_up_def)
qed

lemma round_up_ge [align_simps]: "0 < a \<Longrightarrow> n \<le> round_up n a"
proof -
  assume "0 < a"
  then have "n + a - 1 = (n + a - 1) div a * a + (n + a - 1) mod a" "(n + a - 1) mod a < a" by simp_all
  then show ?thesis unfolding round_up_def by linarith
qed

lemma round_up_less [align_simps]: "0 < a \<Longrightarrow> round_up n a < n + a"
proof -
  assume "0 < a"
  moreover have "(n + a - 1) div a * a \<le> n + a - 1" by simp
  ultimately show ?thesis unfolding round_up_def by linarith
qed

lemma round_up_dvd [align_simps]: "a dvd round_up n a"
  by (simp add: round_up_def)

lemma round_up_id [align_simps]: "0 < a \<Longrightarrow> a dvd n \<Longrightarrow> round_up n a = n"
  by (metis dvd_def round_up_dvd round_up_ge round_up_less add.commute add_less_cancel_left
      antisym_conv2 less_add_eq_less mult.commute nat_dvd_not_less dvd_diff_nat
      le_add_diff_inverse not_less zero_less_diff)

definition pow2 :: "u64 \<Rightarrow> bool" where
  "pow2 w \<longleftrightarrow> list_ex (\<lambda>k. w = 2 ^ k) [0..<64]"

lemma pow2_exp [intro]: "k < 64 \<Longrightarrow> pow2 (2 ^ k)"
  by (auto simp: pow2_def list_ex_iff)

lemma pow2_small [simp]: "pow2 1" "pow2 8" "pow2 16" "pow2 0x1000"
  using pow2_exp [of 0] pow2_exp [of 3] pow2_exp [of 4] pow2_exp [of 12] by simp_all

lemma align_up_facts:
  assumes "pow2 al" "unat v + unat al < 2 ^ 64"
  shows "unat v \<le> unat (align_up v al)" "unat al dvd unat (align_up v al)"
    "unat (align_up v al) < unat v + unat al"
proof -
  from assms(1) obtain k where k: "al = 2 ^ k" "k < 64" by (auto simp: pow2_def list_ex_iff)
  then have u: "unat al = 2 ^ k" by (simp add: unat_exp)
  have e: "unat (align_up v al) = round_up (unat v) (2 ^ k)"
    using unat_align_up [OF k] assms(2) by simp
  show "unat v \<le> unat (align_up v al)" "unat al dvd unat (align_up v al)"
    "unat (align_up v al) < unat v + unat al"
    unfolding e u by (auto intro: round_up_ge round_up_dvd round_up_less)
qed

subsection \<open>Decimal numerals\<close>

definition digit_char :: "nat \<Rightarrow> char" where
  "digit_char d = char_of (48 + d)"

function dec_of_nat :: "nat \<Rightarrow> string" where
  "dec_of_nat n = (if n < 10 then [digit_char n] else dec_of_nat (n div 10) @ [digit_char (n mod 10)])"
  by pat_completeness auto
termination by (relation "measure id") auto

declare dec_of_nat.simps [simp del]

definition is_dec_digit :: "char \<Rightarrow> bool" where
  "is_dec_digit c \<longleftrightarrow> 48 \<le> (of_char c :: nat) \<and> (of_char c :: nat) \<le> 57"

definition digit_val :: "char \<Rightarrow> nat" where
  "digit_val c = of_char c - 48"

definition nat_of_dec :: "string \<Rightarrow> nat" where
  "nat_of_dec s = foldl (\<lambda>n c. n * 10 + digit_val c) 0 s"

lemma digit_char_digit [simp]: "d < 10 \<Longrightarrow> is_dec_digit (digit_char d)"
  by (simp add: is_dec_digit_def digit_char_def)

lemma digit_val_char [simp]: "d < 10 \<Longrightarrow> digit_val (digit_char d) = d"
  by (simp add: digit_val_def digit_char_def)

lemma nat_of_dec_of_nat [simp]: "nat_of_dec (dec_of_nat n) = n"
proof (induction n rule: dec_of_nat.induct)
  case (1 n)
  then show ?case by (subst dec_of_nat.simps) (auto simp: nat_of_dec_def)
qed

lemma dec_of_nat_digits: "c \<in> set (dec_of_nat n) \<Longrightarrow> is_dec_digit c"
proof (induction n rule: dec_of_nat.induct)
  case (1 n)
  then show ?case by (subst (asm) dec_of_nat.simps) (auto split: if_splits)
qed

lemma dec_of_nat_nonempty [simp]: "dec_of_nat n \<noteq> []"
  by (subst dec_of_nat.simps) simp

lemma dec_of_nat_inject [simp]: "dec_of_nat m = dec_of_nat n \<longleftrightarrow> m = n"
  by (metis nat_of_dec_of_nat)

definition dec_of_int :: "int \<Rightarrow> string" where
  "dec_of_int i = (if i < 0 then CHR ''-'' # dec_of_nat (nat (- i)) else dec_of_nat (nat i))"

subsection \<open>Operations that can fail\<close>

text \<open>Sequencing of fallible steps: the value \<^term>\<open>Inl e\<close> ends the run, as an early return does.\<close>

definition bnd :: "'e + 'a \<Rightarrow> ('a \<Rightarrow> 'e + 'b) \<Rightarrow> 'e + 'b" where
  "bnd m f = (case m of Inl e \<Rightarrow> Inl e | Inr x \<Rightarrow> f x)"

lemma bnd_simps [simp]: "bnd (Inl e) f = Inl e" "bnd (Inr x) f = f x"
  by (simp_all add: bnd_def)

lemma bnd_Inr_iff: "bnd m f = Inr y \<longleftrightarrow> (\<exists>x. m = Inr x \<and> f x = Inr y)"
  by (cases m) auto

lemma bnd_InrE [elim!]:
  assumes "bnd m f = Inr y"
  obtains x where "m = Inr x" "f x = Inr y"
  using assms by (auto simp: bnd_Inr_iff)

lemma bnd_cong [fundef_cong]: "m = m' \<Longrightarrow> (\<And>x. m' = Inr x \<Longrightarrow> f x = f' x) \<Longrightarrow> bnd m f = bnd m' f'"
  by (cases m') auto

fun traverse :: "('a \<Rightarrow> 'e + 'b) \<Rightarrow> 'a list \<Rightarrow> 'e + 'b list" where
  "traverse f [] = Inr []"
| "traverse f (x # xs) = bnd (f x) (\<lambda>y. bnd (traverse f xs) (\<lambda>ys. Inr (y # ys)))"

lemma traverse_length: "traverse f xs = Inr ys \<Longrightarrow> length ys = length xs"
  by (induction xs arbitrary: ys) auto

lemma traverse_all2: "traverse f xs = Inr ys \<Longrightarrow> list_all2 (\<lambda>x y. f x = Inr y) xs ys"
  by (induction xs arbitrary: ys) auto

lemma traverse_nth: "traverse f xs = Inr ys \<Longrightarrow> i < length xs \<Longrightarrow> f (xs ! i) = Inr (ys ! i)"
  using traverse_all2 list_all2_nthD by fastforce

fun fold_err :: "('a \<Rightarrow> 's \<Rightarrow> 'e + 's) \<Rightarrow> 'a list \<Rightarrow> 's \<Rightarrow> 'e + 's" where
  "fold_err f [] s = Inr s"
| "fold_err f (x # xs) s = bnd (f x s) (fold_err f xs)"

lemma fold_err_invariant:
  "fold_err f xs s = Inr s' \<Longrightarrow> I s \<Longrightarrow> (\<And>x s s'. x \<in> set xs \<Longrightarrow> I s \<Longrightarrow> f x s = Inr s' \<Longrightarrow> I s') \<Longrightarrow> I s'"
proof (induction xs arbitrary: s)
  case (Cons x xs)
  from Cons.prems(1) obtain t where t: "f x s = Inr t" "fold_err f xs t = Inr s'" by auto
  show ?case
    by (rule Cons.IH [OF t(2) Cons.prems(3) [OF _ Cons.prems(2) t(1)] Cons.prems(3)]) auto
qed simp

lemma fold_err_append: "fold_err f (xs @ ys) s = bnd (fold_err f xs s) (fold_err f ys)"
proof (induction xs arbitrary: s)
  case (Cons x xs)
  show ?case by (cases "f x s") (simp_all add: Cons.IH)
qed simp

text \<open>A loop that rewrites the elements of an array while it updates a running state.\<close>

fun thread :: "('a \<Rightarrow> 's \<Rightarrow> 'b \<times> 's) \<Rightarrow> 'a list \<Rightarrow> 's \<Rightarrow> 'b list \<times> 's" where
  "thread f [] s = ([], s)"
| "thread f (x # xs) s = (let (y, s1) = f x s; (ys, s2) = thread f xs s1 in (y # ys, s2))"

lemma length_thread [simp]: "length (fst (thread f xs s)) = length xs"
  by (induction xs arbitrary: s) (auto simp: case_prod_beta Let_def)

lemma thread_ConsE:
  assumes "thread f (x # xs) s = (zs, s')"
  obtains y t ys where "f x s = (y, t)" "thread f xs t = (ys, s')" "zs = y # ys"
proof -
  obtain y t where "f x s = (y, t)" by fastforce
  moreover obtain ys u where "thread f xs t = (ys, u)" by fastforce
  ultimately show ?thesis using assms that by simp
qed

lemma thread_all2:
  "(\<And>x s y t. x \<in> set xs \<Longrightarrow> f x s = (y, t) \<Longrightarrow> R x y) \<Longrightarrow> thread f xs s = (ys, s') \<Longrightarrow> list_all2 R xs ys"
  by (induction xs arbitrary: s ys) (auto elim!: thread_ConsE simp del: thread.simps(2))

lemma all2_trans:
  "list_all2 R xs ys \<Longrightarrow> list_all2 R ys zs \<Longrightarrow> (\<And>a b c. R a b \<Longrightarrow> R b c \<Longrightarrow> R a c) \<Longrightarrow> list_all2 R xs zs"
  unfolding list_all2_conv_all_nth by metis

lemma concat_zip_snd: "length xs = length ys \<Longrightarrow> concat (map (\<lambda>p. g (snd p)) (zip xs ys)) = concat (map g ys)"
  by (induction xs ys rule: list_induct2) auto

subsection \<open>The C library's \<^verbatim>\<open>strtol\<close> at base ten\<close>

definition is_space :: "char \<Rightarrow> bool" where
  "is_space c \<longleftrightarrow> c = CHR '' '' \<or> (9 \<le> (of_char c :: nat) \<and> (of_char c :: nat) \<le> 13)"

definition clamp_long :: "int \<Rightarrow> int" where
  "clamp_long i = max (- (2 ^ 63)) (min (2 ^ 63 - 1) i)"

definition strtol10 :: "string \<Rightarrow> int" where
  "strtol10 s =
     (let t = dropWhile is_space s;
          (neg, u) = (case t of [] \<Rightarrow> (False, []) | c # cs \<Rightarrow>
             if c = CHR ''-'' then (True, cs) else if c = CHR ''+'' then (False, cs) else (False, t));
          n = int (nat_of_dec (takeWhile is_dec_digit u))
      in clamp_long (if neg then - n else n))"

end
