(* ===== verification/Table_Spec.thy ===== *)
theory Table_Spec
  imports Prelude_B1
begin

text \<open>
  The interface of a string-keyed table as its clients use it: a lookup, an insertion and a
  removal that can each fault, the invariant they keep, and the finite map they implement.
\<close>

fun insert_all :: "('m \<Rightarrow> string \<Rightarrow> 'v \<Rightarrow> 'e + 'm) \<Rightarrow> 'm \<Rightarrow> (string \<times> 'v) list \<Rightarrow> 'e + 'm" where
  "insert_all ins m [] = Inr m"
| "insert_all ins m ((k, v) # kvs) =
     (case ins m k v of Inl e \<Rightarrow> Inl e | Inr m' \<Rightarrow> insert_all ins m' kvs)"

datatype 'v table_op = Insert string 'v | Remove string

fun run_ops :: "('m \<Rightarrow> string \<Rightarrow> 'v \<Rightarrow> 'e + 'm) \<Rightarrow> ('m \<Rightarrow> string \<Rightarrow> 'e + 'm) \<Rightarrow> 'm \<Rightarrow> 'v table_op list \<Rightarrow> 'e + 'm" where
  "run_ops ins rm m [] = Inr m"
| "run_ops ins rm m (Insert k v # ops) =
     (case ins m k v of Inl e \<Rightarrow> Inl e | Inr m' \<Rightarrow> run_ops ins rm m' ops)"
| "run_ops ins rm m (Remove k # ops) =
     (case rm m k of Inl e \<Rightarrow> Inl e | Inr m' \<Rightarrow> run_ops ins rm m' ops)"

fun spec_ops :: "(string \<Rightarrow> 'v option) \<Rightarrow> 'v table_op list \<Rightarrow> string \<Rightarrow> 'v option" where
  "spec_ops f [] = f"
| "spec_ops f (Insert k v # ops) = spec_ops (f(k \<mapsto> v)) ops"
| "spec_ops f (Remove k # ops) = spec_ops (f(k := None)) ops"

locale string_table =
  fixes ok :: "'m \<Rightarrow> bool"
    and contents :: "'m \<Rightarrow> string \<Rightarrow> 'v option"
    and lookup :: "'m \<Rightarrow> string \<Rightarrow> 'e + 'v option"
    and ins :: "'m \<Rightarrow> string \<Rightarrow> 'v \<Rightarrow> 'e + 'm"
    and rm :: "'m \<Rightarrow> string \<Rightarrow> 'e + 'm"
  assumes lookup_contents: "ok m \<Longrightarrow> lookup m k = Inr (contents m k)"
    and ins_contents: "ok m \<Longrightarrow> \<exists>m'. ins m k v = Inr m' \<and> ok m' \<and> contents m' = (contents m)(k \<mapsto> v)"
    and rm_contents: "ok m \<Longrightarrow> \<exists>m'. rm m k = Inr m' \<and> ok m' \<and> contents m' = (contents m)(k := None)"
begin

lemma insert_all_contents:
  "ok m \<Longrightarrow> \<exists>m'. insert_all ins m kvs = Inr m' \<and> ok m' \<and> contents m' = contents m ++ map_of (rev kvs)"
proof (induction kvs arbitrary: m)
  case (Cons kv kvs)
  obtain k v where kv: "kv = (k, v)" by (cases kv)
  from ins_contents [OF Cons.prems, of k v] obtain m' where
    m': "ins m k v = Inr m'" "ok m'" "contents m' = (contents m)(k \<mapsto> v)" by blast
  have "(contents m)(k \<mapsto> v) ++ map_of (rev kvs) = contents m ++ map_of (rev (kv # kvs))"
    unfolding kv by (simp add: map_add_assoc)
  with Cons.IH [OF m'(2)] m'(1) m'(3) [symmetric] kv show ?case by auto
qed simp

lemma run_ops_contents:
  "ok m \<Longrightarrow> \<exists>m'. run_ops ins rm m ops = Inr m' \<and> ok m' \<and> contents m' = spec_ops (contents m) ops"
proof (induction ops arbitrary: m)
  case (Cons a ops)
  show ?case
  proof (cases a)
    case (Insert k v)
    with ins_contents [OF Cons.prems, of k v] Cons.IH show ?thesis by fastforce
  next
    case (Remove k)
    with rm_contents [OF Cons.prems, of k] Cons.IH show ?thesis by fastforce
  qed
qed simp

end

end
