(* ===== verification/Hash_Map.thy ===== *)
theory Hash_Map
  imports Table_Spec
begin

text \<open>
  The open-addressing hash map of \<^verbatim>\<open>src/src/common.c\<close>: linear probing over an array of
  slots, deletion by tombstones, growth by rehashing when more than three quarters of the slots
  are occupied.  A slot's key is NULL (\<^term>\<open>Free\<close>), the sentinel \<^verbatim>\<open>TOMBSTONE\<close>, or a string;
  a key pointer is modelled by the string it points to, since \<^verbatim>\<open>strcmp\<close> decides equality.
  Remainders by a zero bucket count, a NULL slot array and an exhausted recursion budget are
  faults (\<^verbatim>\<open>hm_fault\<close>), which the invariant \<^verbatim>\<open>hm_ok\<close> excludes.  Indices are natural numbers:
  the bucket count is a positive C \<^verbatim>\<open>int\<close>, so the unsigned sum of two indices does not wrap.

  The lemmas prove that probing finds exactly the live entries (\<^verbatim>\<open>get_loop_spec\<close>), that
  insertion, overwriting, deletion and rehashing keep the probe paths intact, and so that the map
  implements the interface of \<^verbatim>\<open>Table_Spec\<close>.
\<close>

unbundle bit_operations_syntax

datatype hm_fault = Div_Zero | Null_Deref | Out_Of_Fuel

datatype 'v slot = Free | Tombstone | Entry (slot_key: string) (slot_ptr: 'v) (slot_int: int)

record 'v hash_map =
  hm_entries :: "'v slot list option"
  hm_bucket_count :: nat
  hm_size :: int

definition hash_key :: "string \<Rightarrow> 32 word" where
  "hash_key s = foldl (\<lambda>h c. (h XOR of_nat (of_char c)) * 16777619) 2166136261 s"

definition hashmap_init :: "nat \<Rightarrow> 'v hash_map" where
  "hashmap_init n = \<lparr>hm_entries = Some (replicate n Free), hm_bucket_count = n, hm_size = 0\<rparr>"

definition hashmap_free :: "'v hash_map \<Rightarrow> 'v hash_map" where
  "hashmap_free m = (case hm_entries m of None \<Rightarrow> m
     | Some _ \<Rightarrow> \<lparr>hm_entries = None, hm_bucket_count = 0, hm_size = 0\<rparr>)"

definition probe_start :: "string \<Rightarrow> nat \<Rightarrow> nat" where
  "probe_start k n = unat (hash_key k) mod n"

function get_loop :: "'v slot list \<Rightarrow> nat \<Rightarrow> nat \<Rightarrow> string \<Rightarrow> nat \<Rightarrow> nat option" where
  "get_loop es n h k i =
     (if i < n then
        let idx = (h + i) mod n in
        (case es ! idx of
           Free \<Rightarrow> None
         | Tombstone \<Rightarrow> get_loop es n h k (Suc i)
         | Entry k' _ _ \<Rightarrow> if k' = k then Some idx else get_loop es n h k (Suc i))
      else None)"
  by pat_completeness auto
termination by (relation "measure (\<lambda>(es, n, h, k, i). n - i)") auto

declare get_loop.simps [simp del]

function put_loop :: "'v slot list \<Rightarrow> int \<Rightarrow> nat \<Rightarrow> nat \<Rightarrow> string \<Rightarrow> 'v \<Rightarrow> int \<Rightarrow> nat \<Rightarrow> nat option
    \<Rightarrow> 'v slot list \<times> int" where
  "put_loop es sz n h k p v i tomb =
     (if i < n then
        let idx = (h + i) mod n in
        (case es ! idx of
           Free \<Rightarrow> (es[(case tomb of Some d \<Rightarrow> d | None \<Rightarrow> idx) := Entry k p v], sz + 1)
         | Tombstone \<Rightarrow> put_loop es sz n h k p v (Suc i) (case tomb of Some d \<Rightarrow> Some d | None \<Rightarrow> Some idx)
         | Entry k' _ _ \<Rightarrow> if k' = k then (es[idx := Entry k' p v], sz)
                         else put_loop es sz n h k p v (Suc i) tomb)
      else (case tomb of Some d \<Rightarrow> (es[d := Entry k p v], sz + 1) | None \<Rightarrow> (es, sz)))"
  by pat_completeness auto
termination by (relation "measure (\<lambda>(es, sz, n, h, k, p, v, i, tomb). n - i)") auto

declare put_loop.simps [simp del]

definition hashmap_get :: "'v hash_map \<Rightarrow> string \<Rightarrow> hm_fault + ('v \<times> int) option" where
  "hashmap_get m k = (case hm_entries m of None \<Rightarrow> Inr None
     | Some es \<Rightarrow> if hm_bucket_count m = 0 then Inl Div_Zero
       else Inr (map_option (\<lambda>j. (slot_ptr (es ! j), slot_int (es ! j)))
              (get_loop es (hm_bucket_count m) (probe_start k (hm_bucket_count m)) k 0)))"

definition hashmap_has :: "'v hash_map \<Rightarrow> string \<Rightarrow> hm_fault + bool" where
  "hashmap_has m k = map_sum id (\<lambda>r. r \<noteq> None) (hashmap_get m k)"

definition hashmap_remove :: "'v hash_map \<Rightarrow> string \<Rightarrow> hm_fault + 'v hash_map" where
  "hashmap_remove m k = (case hm_entries m of None \<Rightarrow> Inr m
     | Some es \<Rightarrow> if hm_bucket_count m = 0 then Inl Div_Zero
       else (case get_loop es (hm_bucket_count m) (probe_start k (hm_bucket_count m)) k 0 of
               None \<Rightarrow> Inr m
             | Some j \<Rightarrow> Inr (m\<lparr>hm_entries := Some (es[j := Tombstone]), hm_size := hm_size m - 1\<rparr>)))"

definition put_at :: "'v hash_map \<Rightarrow> string \<Rightarrow> 'v \<Rightarrow> int \<Rightarrow> hm_fault + 'v hash_map" where
  "put_at m k p v =
     (if hm_bucket_count m = 0 then Inl Div_Zero
      else (case hm_entries m of None \<Rightarrow> Inl Null_Deref
        | Some es \<Rightarrow>
          (let (es', sz') = put_loop es (hm_size m) (hm_bucket_count m)
                              (probe_start k (hm_bucket_count m)) k p v 0 None
           in Inr (m\<lparr>hm_entries := Some es', hm_size := sz'\<rparr>))))"

function put_fuel :: "nat \<Rightarrow> 'v hash_map \<Rightarrow> string \<Rightarrow> 'v \<Rightarrow> int \<Rightarrow> hm_fault + 'v hash_map"
  and rehash :: "nat \<Rightarrow> 'v hash_map \<Rightarrow> 'v slot list \<Rightarrow> hm_fault + 'v hash_map" where
  "put_fuel fuel m k p v =
     (if 4 * hm_size m > 3 * int (hm_bucket_count m) then
        (case fuel of 0 \<Rightarrow> Inl Out_Of_Fuel
         | Suc f \<Rightarrow>
           (case hm_entries m of None \<Rightarrow> Inl Null_Deref
            | Some old \<Rightarrow>
              (case rehash f (hashmap_init (hm_bucket_count m * 2)) (take (hm_bucket_count m) old) of
                 Inl e \<Rightarrow> Inl e
               | Inr m' \<Rightarrow> put_at m' k p v)))
      else put_at m k p v)"
| "rehash f m [] = Inr m"
| "rehash f m (s # ss) =
     (case s of Entry k p v \<Rightarrow>
        (case put_fuel f m k p v of Inl e \<Rightarrow> Inl e | Inr m' \<Rightarrow> rehash f m' ss)
      | _ \<Rightarrow> rehash f m ss)"
  by pat_completeness auto
termination
  by (relation "measures [case_sum (\<lambda>(f, _). 2 * f) (\<lambda>(f, _, _). Suc (2 * f)),
        case_sum (\<lambda>_. 0) (\<lambda>(_, _, ss). length ss)]") auto

declare put_fuel.simps [simp del]

definition hashmap_put :: "'v hash_map \<Rightarrow> string \<Rightarrow> 'v \<Rightarrow> int \<Rightarrow> hm_fault + 'v hash_map" where
  "hashmap_put m k p v = put_fuel 1 m k p v"

subsection \<open>Abstraction and invariant\<close>

definition live :: "'v slot list \<Rightarrow> (string \<times> 'v \<times> int) list" where
  "live es = concat (map (\<lambda>s. case s of Entry k p v \<Rightarrow> [(k, p, v)] | _ \<Rightarrow> []) es)"

definition is_live :: "'v slot \<Rightarrow> bool" where
  "is_live s \<longleftrightarrow> (case s of Entry _ _ _ \<Rightarrow> True | _ \<Rightarrow> False)"

definition probed :: "'v slot list \<Rightarrow> nat \<Rightarrow> nat \<Rightarrow> bool" where
  "probed es h d \<longleftrightarrow> (\<forall>i<d. es ! ((h + i) mod length es) \<noteq> Free)"

definition slots_ok :: "'v slot list \<Rightarrow> bool" where
  "slots_ok es \<longleftrightarrow>
     (\<forall>j<length es. \<forall>k p v. es ! j = Entry k p v \<longrightarrow>
        (\<exists>d<length es. (probe_start k (length es) + d) mod length es = j
            \<and> probed es (probe_start k (length es)) d)) \<and>
     (\<forall>i<length es. \<forall>j<length es. is_live (es ! i) \<and> is_live (es ! j)
        \<and> slot_key (es ! i) = slot_key (es ! j) \<longrightarrow> i = j)"

definition slot_map :: "'v slot list \<Rightarrow> string \<Rightarrow> ('v \<times> int) option" where
  "slot_map es k = map_of (live es) k"

definition hm_ok :: "'v hash_map \<Rightarrow> bool" where
  "hm_ok m \<longleftrightarrow> (case hm_entries m of None \<Rightarrow> False
     | Some es \<Rightarrow> es \<noteq> [] \<and> hm_bucket_count m = length es \<and> slots_ok es
         \<and> hm_size m = int (length (live es)))"

definition hm_contents :: "'v hash_map \<Rightarrow> string \<Rightarrow> ('v \<times> int) option" where
  "hm_contents m = (case hm_entries m of None \<Rightarrow> Map.empty | Some es \<Rightarrow> slot_map es)"

lemma live_simps [simp]:
  "live [] = []"
  "live (Free # es) = live es" "live (Tombstone # es) = live es"
  "live (Entry k p v # es) = (k, p, v) # live es"
  by (simp_all add: live_def)

lemma is_live_simps [simp]: "\<not> is_live Free" "\<not> is_live Tombstone" "is_live (Entry k p v)"
  by (simp_all add: is_live_def)

lemma live_append [simp]: "live (xs @ ys) = live xs @ live ys"
  by (simp add: live_def)

lemma set_live: "(k, p, v) \<in> set (live es) \<longleftrightarrow> (\<exists>j<length es. es ! j = Entry k p v)"
proof -
  have "(k, p, v) \<in> set (live es) \<longleftrightarrow> Entry k p v \<in> set es"
    by (auto simp: live_def split: slot.splits)
  then show ?thesis by (auto simp: in_set_conv_nth)
qed

lemma distinct_live:
  assumes "\<forall>i<length es. \<forall>j<length es. is_live (es ! i) \<and> is_live (es ! j)
        \<and> slot_key (es ! i) = slot_key (es ! j) \<longrightarrow> i = j"
  shows "distinct (map fst (live es))"
  using assms
proof (induction es)
  case (Cons s es)
  have tail: "\<forall>i<length es. \<forall>j<length es. is_live (es ! i) \<and> is_live (es ! j)
        \<and> slot_key (es ! i) = slot_key (es ! j) \<longrightarrow> i = j"
    using Cons.prems by (metis Suc_inject Suc_less_eq length_Cons nth_Cons_Suc)
  have "k \<notin> fst ` set (live es)" if "s = Entry k p v" for k p v
  proof
    assume "k \<in> fst ` set (live es)"
    then obtain p' v' where "(k, p', v') \<in> set (live es)" by auto
    then obtain j where "j < length es" "es ! j = Entry k p' v'" by (auto simp: set_live)
    with that Cons.prems [rule_format, of 0 "Suc j"] show False by auto
  qed
  with Cons.IH [OF tail] show ?case by (cases s) auto
qed simp

lemma slot_map_Some:
  assumes "slots_ok es"
  shows "slot_map es k = Some (p, v) \<longleftrightarrow> (\<exists>j<length es. es ! j = Entry k p v)"
proof -
  have "distinct (map fst (live es))"
    using assms by (intro distinct_live) (auto simp: slots_ok_def)
  then show ?thesis by (simp add: slot_map_def map_of_eq_Some_iff set_live)
qed

lemma slot_map_None: "slot_map es k = None \<longleftrightarrow> (\<forall>j<length es. \<forall>p v. es ! j \<noteq> Entry k p v)"
  by (auto simp: slot_map_def map_of_eq_None_iff image_iff) (metis fst_conv set_live)+

lemma mod_cover:
  assumes "j < (n::nat)"
  shows "\<exists>i<n. (h + i) mod n = j"
proof -
  have n: "0 < n" using assms by simp
  let ?i = "(n - h mod n + j) mod n"
  have "(h + ?i) mod n = (h + (n - h mod n + j)) mod n" by (rule mod_add_right_eq)
  also have "\<dots> = (h mod n + (n - h mod n + j)) mod n" by (rule mod_add_left_eq [symmetric])
  also have "h mod n + (n - h mod n + j) = n + j" using mod_less_divisor [OF n, of h] by linarith
  also have "(n + j) mod n = j mod n" by simp
  also have "\<dots> = j" using assms by simp
  finally show ?thesis using n by (intro exI [of _ ?i]) simp
qed

lemma probed_mono:
  assumes "probed es h d" "length es' = length es"
    and "\<And>j. j < length es \<Longrightarrow> es ! j \<noteq> Free \<Longrightarrow> es' ! j \<noteq> Free" and "es \<noteq> []"
  shows "probed es' h d"
  using assms by (simp add: probed_def)

lemma probed_Suc: "probed es h (Suc i) \<longleftrightarrow> probed es h i \<and> es ! ((h + i) mod length es) \<noteq> Free"
  by (auto simp: probed_def less_Suc_eq)

lemma slots_okD:
  assumes "slots_ok es" "j < length es" "es ! j = Entry k p v"
  obtains d where "d < length es" "(probe_start k (length es) + d) mod length es = j"
    "probed es (probe_start k (length es)) d"
  using assms unfolding slots_ok_def by blast

lemma slots_ok_inj:
  assumes "slots_ok es" "i < length es" "j < length es"
    "es ! i = Entry k p v" "es ! j = Entry k p' v'"
  shows "i = j"
  using assms unfolding slots_ok_def by (metis is_live_simps(3) slot.sel(1))

lemma slot_map_eqI:
  assumes "slots_ok es"
    and "\<And>k p v. (\<exists>j<length es. es ! j = Entry k p v) \<longleftrightarrow> f k = Some (p, v)"
  shows "slot_map es = f"
proof
  fix k
  show "slot_map es k = f k"
  proof (cases "f k")
    case None
    then have "\<forall>j<length es. \<forall>p v. es ! j \<noteq> Entry k p v" using assms(2) [of k] by auto
    with None show ?thesis by (simp add: slot_map_None)
  next
    case (Some pv)
    then obtain p v where "f k = Some (p, v)" by (cases pv) auto
    with assms show ?thesis by (metis slot_map_Some)
  qed
qed

lemma length_live: "length (live es) = length (filter is_live es)"
  by (induction es) (auto simp: live_def is_live_def split: slot.splits)

lemma length_live_update:
  assumes "j < length es"
  shows "length (live (es[j := s])) + of_bool (is_live (es ! j)) = length (live es) + of_bool (is_live s)"
  using assms
proof (induction es arbitrary: j)
  case (Cons a es)
  then show ?case by (cases j) (auto simp: length_live)
qed simp

lemma full_all_live: "length (live es) = length es \<Longrightarrow> j < length es \<Longrightarrow> is_live (es ! j)"
  by (metis length_live filter_id_conv length_filter_less nth_mem order_less_irrefl)

lemma exists_room:
  assumes "length (live es) < length es"
  shows "\<exists>j<length es. \<not> is_live (es ! j)"
proof (rule ccontr)
  assume "\<not> ?thesis"
  then have "filter is_live es = es" by (auto simp: filter_id_conv in_set_conv_nth)
  with assms show False by (simp add: length_live)
qed

lemma slots_ok_insert:
  assumes ok: "slots_ok es" and j: "j < length es" and dead: "\<not> is_live (es ! j)"
    and fresh: "slot_map es k = None"
    and d: "d < length es" "(probe_start k (length es) + d) mod length es = j"
      "probed es (probe_start k (length es)) d"
  shows "slots_ok (es[j := Entry k p v])"
    and "slot_map (es[j := Entry k p v]) = (slot_map es)(k \<mapsto> (p, v))"
    and "length (live (es[j := Entry k p v])) = Suc (length (live es))"
proof -
  let ?es = "es[j := Entry k p v]"
  have fresh': "\<And>i p v. i < length es \<Longrightarrow> es ! i \<noteq> Entry k p v"
    using fresh by (simp add: slot_map_None)
  have pm: "probed es h e \<Longrightarrow> probed ?es h e" for h e
    by (rule probed_mono) (use j in \<open>auto simp: nth_list_update\<close>)
  have A: "\<exists>d<length es. (probe_start k' (length es) + d) mod length es = i
            \<and> probed ?es (probe_start k' (length es)) d"
    if i: "i < length es" "?es ! i = Entry k' p' v'" for i k' p' v'
  proof (cases "i = j")
    case True
    with i j have "k' = k" by simp
    with True d pm show ?thesis by blast
  next
    case False
    with i have "es ! i = Entry k' p' v'" by simp
    with ok i(1) obtain d where "d < length es" "(probe_start k' (length es) + d) mod length es = i"
      "probed es (probe_start k' (length es)) d" by (rule slots_okD)
    with pm show ?thesis by blast
  qed
  have B: "a = b" if ab: "a < length es" "b < length es" "is_live (?es ! a)" "is_live (?es ! b)"
    "slot_key (?es ! a) = slot_key (?es ! b)" for a b
  proof -
    obtain ka pa va kb pb vb where e: "?es ! a = Entry ka pa va" "?es ! b = Entry kb pb vb"
      using ab(3,4) by (cases "?es ! a"; cases "?es ! b") auto
    with ab(5) have "ka = kb" by simp
    then show ?thesis
      using e ab(1,2) j fresh' slots_ok_inj [OF ok ab(1,2)] by (auto simp: nth_list_update split: if_splits)
  qed
  from A B show okk: "slots_ok ?es" by (auto simp: slots_ok_def)
  show "slot_map ?es = (slot_map es)(k \<mapsto> (p, v))"
  proof (rule slot_map_eqI [OF okk])
    fix k' p' v'
    show "(\<exists>i<length ?es. ?es ! i = Entry k' p' v') \<longleftrightarrow> ((slot_map es)(k \<mapsto> (p, v))) k' = Some (p', v')"
    proof (cases "k' = k")
      case True
      then show ?thesis using j fresh' by (auto simp: nth_list_update)
    next
      case False
      have "?es ! i = Entry k' p' v' \<longleftrightarrow> es ! i = Entry k' p' v'" if "i < length es" for i
        using that False dead by (cases "i = j") auto
      then have "(\<exists>i<length ?es. ?es ! i = Entry k' p' v') \<longleftrightarrow> (\<exists>i<length es. es ! i = Entry k' p' v')"
        by auto
      with False show ?thesis by (simp add: slot_map_Some [OF ok])
    qed
  qed
  show "length (live ?es) = Suc (length (live es))"
    using length_live_update [OF j, of "Entry k p v"] dead by simp
qed


lemma slots_ok_overwrite:
  assumes ok: "slots_ok es" and j: "j < length es" and e: "es ! j = Entry k p0 v0"
  shows "slots_ok (es[j := Entry k p v])"
    and "slot_map (es[j := Entry k p v]) = (slot_map es)(k \<mapsto> (p, v))"
    and "length (live (es[j := Entry k p v])) = length (live es)"
proof -
  let ?es = "es[j := Entry k p v]"
  have live_iff: "is_live (?es ! i) \<longleftrightarrow> is_live (es ! i)" "is_live (es ! i) \<Longrightarrow> slot_key (?es ! i) = slot_key (es ! i)"
    "?es ! i = Free \<longleftrightarrow> es ! i = Free" if "i < length es" for i
    using that j e by (auto simp: nth_list_update)
  have pm: "probed es h d \<Longrightarrow> probed ?es h d" for h d
    by (rule probed_mono) (use j e in \<open>auto simp: nth_list_update\<close>)
  have A: "\<exists>d<length es. (probe_start k' (length es) + d) mod length es = i
            \<and> probed ?es (probe_start k' (length es)) d"
    if i: "i < length es" "?es ! i = Entry k' p' v'" for i k' p' v'
  proof -
    obtain p'' v'' where "es ! i = Entry k' p'' v''"
      using i j e by (auto simp: nth_list_update split: if_splits)
    with ok i(1) pm show ?thesis by (meson slots_okD)
  qed
  have "a = b" if ab: "a < length es" "b < length es" "is_live (?es ! a)" "is_live (?es ! b)"
    "slot_key (?es ! a) = slot_key (?es ! b)" for a b
    using ok ab live_iff by (simp add: slots_ok_def)
  with A show okk: "slots_ok ?es" by (auto simp: slots_ok_def)
  show "slot_map ?es = (slot_map es)(k \<mapsto> (p, v))"
  proof (rule slot_map_eqI [OF okk])
    fix k' p' v'
    have uniq: "es ! i = Entry k a b \<Longrightarrow> i < length es \<Longrightarrow> i = j" for i a b
      using slots_ok_inj [OF ok _ j _ e] by blast
    show "(\<exists>i<length ?es. ?es ! i = Entry k' p' v') \<longleftrightarrow> ((slot_map es)(k \<mapsto> (p, v))) k' = Some (p', v')"
    proof (cases "k' = k")
      case True
      then show ?thesis using j uniq by (auto simp: nth_list_update)
    next
      case False
      have "?es ! i = Entry k' p' v' \<longleftrightarrow> es ! i = Entry k' p' v'" if "i < length es" for i
        using that False e by (cases "i = j") auto
      then have "(\<exists>i<length ?es. ?es ! i = Entry k' p' v') \<longleftrightarrow> (\<exists>i<length es. es ! i = Entry k' p' v')"
        by auto
      with False show ?thesis by (simp add: slot_map_Some [OF ok])
    qed
  qed
  show "length (live ?es) = length (live es)"
    using length_live_update [OF j, of "Entry k p v"] e by simp
qed

lemma slots_ok_delete:
  assumes ok: "slots_ok es" and j: "j < length es" and e: "es ! j = Entry k p0 v0"
  shows "slots_ok (es[j := Tombstone])"
    and "slot_map (es[j := Tombstone]) = (slot_map es)(k := None)"
    and "Suc (length (live (es[j := Tombstone]))) = length (live es)"
proof -
  let ?es = "es[j := Tombstone :: 'a slot]"
  have keep: "?es ! i = Entry k' p' v' \<longleftrightarrow> i \<noteq> j \<and> es ! i = Entry k' p' v'" if "i < length es" for i k' p' v'
    using that j by (auto simp: nth_list_update)
  have pm: "probed es h d \<Longrightarrow> probed ?es h d" for h d
    by (rule probed_mono) (use j in \<open>auto simp: nth_list_update\<close>)
  have A: "\<exists>d<length es. (probe_start k' (length es) + d) mod length es = i
            \<and> probed ?es (probe_start k' (length es)) d"
    if i: "i < length es" "?es ! i = Entry k' p' v'" for i k' p' v'
    proof -
    from i keep have "es ! i = Entry k' p' v'" by blast
    with ok i(1) obtain d where "d < length es" "(probe_start k' (length es) + d) mod length es = i"
      "probed es (probe_start k' (length es)) d" by (rule slots_okD)
    with pm show ?thesis by blast
  qed
  have "a = b" if ab: "a < length es" "b < length es" "is_live (?es ! a)" "is_live (?es ! b)"
    "slot_key (?es ! a) = slot_key (?es ! b)" for a b
  proof -
    from ab j have "a \<noteq> j" "b \<noteq> j" by auto
    with ab ok show ?thesis by (simp add: slots_ok_def)
  qed
  with A show okk: "slots_ok ?es" by (auto simp: slots_ok_def)
  show "slot_map ?es = (slot_map es)(k := None)"
  proof (rule slot_map_eqI [OF okk])
    fix k' p' v'
    have uniq: "es ! i = Entry k a b \<Longrightarrow> i < length es \<Longrightarrow> i = j" for i a b
      using slots_ok_inj [OF ok _ j _ e] by blast
    show "(\<exists>i<length ?es. ?es ! i = Entry k' p' v') \<longleftrightarrow> ((slot_map es)(k := None)) k' = Some (p', v')"
    proof (cases "k' = k")
      case True
      have "?es ! i \<noteq> Entry k p' v'" if "i < length es" for i
        using keep [OF that] uniq [OF _ that] by blast
      with True show ?thesis by auto
    next
      case False
      have "?es ! i = Entry k' p' v' \<longleftrightarrow> es ! i = Entry k' p' v'" if "i < length es" for i
        using that False e by (cases "i = j") auto
      then have "(\<exists>i<length ?es. ?es ! i = Entry k' p' v') \<longleftrightarrow> (\<exists>i<length es. es ! i = Entry k' p' v')"
        by auto
      with False show ?thesis by (simp add: slot_map_Some [OF ok])
    qed
  qed
  show "Suc (length (live ?es)) = length (live es)"
    using length_live_update [OF j, of Tombstone] e by simp
qed

lemma not_found_covers:
  assumes ok: "slots_ok es" and stop: "i < length es \<Longrightarrow> es ! ((probe_start k (length es) + i) mod length es) = Free"
    and unseen: "\<forall>i'<i. \<forall>p v. es ! ((probe_start k (length es) + i') mod length es) \<noteq> Entry k p v"
  shows "slot_map es k = None"
  unfolding slot_map_None
proof (intro allI impI notI)
  fix j p v assume j: "j < length es" and e: "es ! j = Entry k p v"
  from ok j e obtain d where d: "d < length es" "(probe_start k (length es) + d) mod length es = j"
    "probed es (probe_start k (length es)) d" by (rule slots_okD)
  show False
  proof (cases "d < i")
    case True
    with unseen d e show False by blast
  next
    case False
    with d have il: "i < length es" by simp
    with False stop [OF il] d e show False by (cases "d = i") (auto simp: probed_def)
  qed
qed

lemma get_loop_spec:
  assumes ok: "slots_ok es" and ne: "es \<noteq> []"
    and "\<forall>i'<i. \<forall>p v. es ! ((probe_start k (length es) + i') mod length es) \<noteq> Entry k p v"
  shows "case get_loop es (length es) (probe_start k (length es)) k i of
           None \<Rightarrow> slot_map es k = None
         | Some j \<Rightarrow> j < length es \<and> (\<exists>p v. es ! j = Entry k p v)"
  using assms(3)
proof (induction "length es - i" arbitrary: i rule: less_induct)
  case less
  let ?j = "(probe_start k (length es) + i) mod length es"
  show ?case
  proof (cases "i < length es")
    case False
    then have "slot_map es k = None" using not_found_covers [OF ok _ less.prems] by simp
    with False show ?thesis by (subst get_loop.simps) simp
  next
    case True
    have step: "case get_loop es (length es) (probe_start k (length es)) k (Suc i) of
           None \<Rightarrow> slot_map es k = None
         | Some j \<Rightarrow> j < length es \<and> (\<exists>p v. es ! j = Entry k p v)"
      if "\<forall>p v. es ! ?j \<noteq> Entry k p v"
      using True less.prems that by (intro less.hyps) (auto simp: less_Suc_eq)
    show ?thesis
    proof (cases "es ! ?j")
      case Free
      then have "slot_map es k = None" by (intro not_found_covers [OF ok _ less.prems]) simp
      with True Free show ?thesis by (subst get_loop.simps) simp
    next
      case Tombstone
      with True step show ?thesis by (subst get_loop.simps) (simp add: Let_def)
    next
      case (Entry k' p' v')
      with True step ne show ?thesis by (subst get_loop.simps) (auto simp: Let_def)
    qed
  qed
qed


lemma put_loop_spec:
  assumes ok: "slots_ok es" and ne: "es \<noteq> []"
    and room: "\<exists>j<length es. \<not> is_live (es ! j)"
    and h: "h = probe_start k (length es)"
    and "i \<le> length es"
    and "\<forall>i'<i. \<forall>p v. es ! ((h + i') mod length es) \<noteq> Entry k p v"
    and "probed es h i"
    and "case tomb of
           None \<Rightarrow> \<forall>i'<i. is_live (es ! ((h + i') mod length es))
         | Some t \<Rightarrow> t < length es \<and> es ! t = Tombstone \<and>
             (\<exists>d<length es. (h + d) mod length es = t \<and> probed es h d)"
    and "put_loop es sz (length es) h k p v i tomb = (es', sz')"
  shows "length es' = length es \<and> slots_ok es' \<and> slot_map es' = (slot_map es)(k \<mapsto> (p, v))
      \<and> sz' - int (length (live es')) = sz - int (length (live es)) \<and> sz' \<le> sz + 1"
  using assms(5-)
proof (induction "length es - i" arbitrary: i tomb rule: less_induct)
  case less
  let ?j = "(h + i) mod length es"
  note unseen = less.prems(2) note pr = less.prems(3) note tb = less.prems(4) note eq = less.prems(5)
  have ins: ?case
    if none: "slot_map es k = None" and t: "t < length es" "\<not> is_live (es ! t)"
      "\<exists>d<length es. (h + d) mod length es = t \<and> probed es h d"
      and r: "(es', sz') = (es[t := Entry k p v], sz + 1)" for t
  proof -
    from t(3) h obtain d where "d < length es" "(probe_start k (length es) + d) mod length es = t"
      "probed es (probe_start k (length es)) d" by blast
    note I = slots_ok_insert [OF ok t(1,2) none this, of p v]
    from I r show ?thesis by auto
  qed
  show ?case
  proof (cases "i < length es")
    case False
    have none: "slot_map es k = None" using not_found_covers [OF ok, of i k] False unseen h by simp
    show ?thesis
    proof (cases tomb)
      case None
      from room obtain j where j: "j < length es" "\<not> is_live (es ! j)" by blast
      from mod_cover [OF j(1), of h] obtain i' where "i' < length es" "(h + i') mod length es = j" by blast
      with None tb j(2) False show ?thesis by auto
    next
      case (Some t)
      with eq False have "(es', sz') = (es[t := Entry k p v], sz + 1)"
        by (simp add: put_loop.simps [of es sz "length es" h k p v i])
      with none Some tb show ?thesis by (intro ins [of t]) auto
    qed
  next
    case True
    have rec: ?thesis if "\<forall>p v. es ! ?j \<noteq> Entry k p v" "es ! ?j \<noteq> Free"
      "case tomb' of
           None \<Rightarrow> \<forall>i'<Suc i. is_live (es ! ((h + i') mod length es))
         | Some t \<Rightarrow> t < length es \<and> es ! t = Tombstone \<and>
             (\<exists>d<length es. (h + d) mod length es = t \<and> probed es h d)"
      "put_loop es sz (length es) h k p v (Suc i) tomb' = (es', sz')" for tomb'
      using True unseen pr that by (intro less.hyps [of "Suc i" tomb']) (auto simp: less_Suc_eq probed_Suc)
    show ?thesis
    proof (cases "es ! ?j")
      case Free
      have none: "slot_map es k = None"
        using not_found_covers [OF ok, of i k] Free unseen h by simp
      have r: "(es', sz') = (es[(case tomb of Some d \<Rightarrow> d | None \<Rightarrow> ?j) := Entry k p v], sz + 1)"
        using eq True Free by (simp add: put_loop.simps [of es sz "length es" h k p v i])
      show ?thesis
      proof (cases tomb)
        case None
        with r True pr ne Free show ?thesis by (intro ins [OF none, of ?j]) auto
      next
        case (Some t)
        with r tb show ?thesis by (intro ins [OF none, of t]) auto
      qed
    next
      case Tombstone
      with eq True have e': "put_loop es sz (length es) h k p v (Suc i)
          (case tomb of Some d \<Rightarrow> Some d | None \<Rightarrow> Some ?j) = (es', sz')"
        by (simp add: put_loop.simps [of es sz "length es" h k p v i])
      show ?thesis
        by (rule rec [OF _ _ _ e']) (use Tombstone tb True pr ne in \<open>auto split: option.splits\<close>)
    next
      case (Entry k' p' v')
      show ?thesis
      proof (cases "k' = k")
        case True
        with eq Entry \<open>i < length es\<close> have r: "(es', sz') = (es[?j := Entry k p v], sz)"
          by (simp add: put_loop.simps [of es sz "length es" h k p v i])
        have j: "?j < length es" using ne by simp
        from slots_ok_overwrite [OF ok j, of k p' v' p v] Entry True r show ?thesis by auto
      next
        case False
        with eq Entry \<open>i < length es\<close> have e': "put_loop es sz (length es) h k p v (Suc i) tomb = (es', sz')"
          by (simp add: put_loop.simps [of es sz "length es" h k p v i])
        show ?thesis
          by (rule rec [OF _ _ _ e']) (use Entry False tb in \<open>auto split: option.splits simp: less_Suc_eq\<close>)
      qed
    qed
  qed
qed


lemma hm_okE:
  assumes "hm_ok m"
  obtains es where "hm_entries m = Some es" "es \<noteq> []" "hm_bucket_count m = length es"
    "slots_ok es" "hm_size m = int (length (live es))" "hm_contents m = slot_map es"
  using assms by (auto simp: hm_ok_def hm_contents_def split: option.splits)

lemma live_replicate [simp]: "live (replicate n Free) = []"
  by (induction n) auto

lemma slots_ok_replicate: "slots_ok (replicate n Free)"
  by (simp add: slots_ok_def)

lemma hashmap_init_ok: "0 < n \<Longrightarrow> hm_ok (hashmap_init n)"
  by (simp add: hm_ok_def hashmap_init_def slots_ok_replicate)

lemma hashmap_init_contents: "hm_contents (hashmap_init n) = Map.empty"
  by (simp add: hm_contents_def hashmap_init_def slot_map_def fun_eq_iff)

lemma hashmap_get_contents: "hm_ok m \<Longrightarrow> hashmap_get m k = Inr (hm_contents m k)"
proof (erule hm_okE)
  fix es assume e: "hm_entries m = Some es" "es \<noteq> []" "hm_bucket_count m = length es"
    "slots_ok es" "hm_contents m = slot_map es"
  have g: "case get_loop es (length es) (probe_start k (length es)) k 0 of
           None \<Rightarrow> slot_map es k = None
         | Some j \<Rightarrow> j < length es \<and> (\<exists>p v. es ! j = Entry k p v)"
    using get_loop_spec [OF e(4,2), of 0 k] by simp
  show "hashmap_get m k = Inr (hm_contents m k)"
  proof (cases "get_loop es (length es) (probe_start k (length es)) k 0")
    case None
    with g e show ?thesis by (simp add: hashmap_get_def)
  next
    case (Some j)
    with g obtain p v where j: "j < length es" "es ! j = Entry k p v" by auto
    then have "slot_map es k = Some (p, v)" using slot_map_Some [OF e(4)] by blast
    with Some j e show ?thesis by (simp add: hashmap_get_def)
  qed
qed

lemma hashmap_remove_contents:
  assumes "hm_ok m"
  shows "\<exists>m'. hashmap_remove m k = Inr m' \<and> hm_ok m' \<and> hm_contents m' = (hm_contents m)(k := None)"
  using assms
proof (rule hm_okE)
  fix es assume e: "hm_entries m = Some es" "es \<noteq> []" "hm_bucket_count m = length es"
    "slots_ok es" "hm_size m = int (length (live es))" "hm_contents m = slot_map es"
  have g: "case get_loop es (length es) (probe_start k (length es)) k 0 of
           None \<Rightarrow> slot_map es k = None
         | Some j \<Rightarrow> j < length es \<and> (\<exists>p v. es ! j = Entry k p v)"
    using get_loop_spec [OF e(4,2), of 0 k] by simp
  show ?thesis
  proof (cases "get_loop es (length es) (probe_start k (length es)) k 0")
    case None
    with g e assms show ?thesis by (auto simp: hashmap_remove_def fun_upd_idem)
  next
    case (Some j)
    with g obtain p v where j: "j < length es" "es ! j = Entry k p v" by auto
    from slots_ok_delete [OF e(4) j] Some e show ?thesis
      by (auto simp: hashmap_remove_def hm_ok_def hm_contents_def)
  qed
qed

lemma put_at_contents:
  assumes "hm_ok m" and load: "4 * hm_size m \<le> 3 * int (hm_bucket_count m)"
  shows "\<exists>m'. put_at m k p v = Inr m' \<and> hm_ok m' \<and> hm_contents m' = (hm_contents m)(k \<mapsto> (p, v))
     \<and> hm_bucket_count m' = hm_bucket_count m \<and> hm_size m' \<le> hm_size m + 1"
  using assms(1)
proof (rule hm_okE)
  fix es assume e: "hm_entries m = Some es" "es \<noteq> []" "hm_bucket_count m = length es"
    "slots_ok es" "hm_size m = int (length (live es))" "hm_contents m = slot_map es"
  have "length (live es) < length es" using load e by (cases es) auto
  note room = exists_room [OF this]
  obtain es' sz' where r: "put_loop es (hm_size m) (length es) (probe_start k (length es)) k p v 0 None = (es', sz')"
    by fastforce
  note P = put_loop_spec [OF e(4,2) room refl, of 0 k None "hm_size m" p v es' sz', simplified, OF _ r]
  have P: "length es' = length es" "slots_ok es'" "slot_map es' = (slot_map es)(k \<mapsto> (p, v))"
      "sz' - int (length (live es')) = hm_size m - int (length (live es))" "sz' \<le> hm_size m + 1"
    using P by (auto simp: probed_def)
  with r P e show ?thesis
    by (auto simp: put_at_def hm_ok_def hm_contents_def)
qed


lemma rehash_contents:
  assumes "hm_ok m" and "distinct (map fst (live ss))"
    and "4 * (hm_size m + int (length (live ss))) \<le> 3 * int (hm_bucket_count m)"
  shows "\<exists>m'. rehash f m ss = Inr m' \<and> hm_ok m' \<and> hm_contents m' = hm_contents m ++ map_of (live ss)
      \<and> hm_bucket_count m' = hm_bucket_count m \<and> hm_size m' \<le> hm_size m + int (length (live ss))"
  using assms
proof (induction ss arbitrary: m)
  case (Cons s ss)
  show ?case
  proof (cases s)
    case (Entry k p v)
    from Cons.prems Entry have load: "4 * hm_size m \<le> 3 * int (hm_bucket_count m)" by simp
    from put_at_contents [OF Cons.prems(1) load, of k p v] obtain m1 where
      m1: "put_at m k p v = Inr m1" "hm_ok m1" "hm_contents m1 = (hm_contents m)(k \<mapsto> (p, v))"
        "hm_bucket_count m1 = hm_bucket_count m" "hm_size m1 \<le> hm_size m + 1" by blast
    from load m1(1) have put: "put_fuel f m k p v = Inr m1" by (simp add: put_fuel.simps)
    from Cons.prems(2) Entry have k: "k \<notin> fst ` set (live ss)" by simp
    from Cons.IH [OF m1(2)] Cons.prems(2,3) m1(4,5) Entry obtain m' where
      "rehash f m1 ss = Inr m'" "hm_ok m'" "hm_contents m' = hm_contents m1 ++ map_of (live ss)"
      "hm_bucket_count m' = hm_bucket_count m1" "hm_size m' \<le> hm_size m1 + int (length (live ss))" by auto
    moreover have "hm_contents m ++ map_of (live (s # ss)) = hm_contents m1 ++ map_of (live ss)"
      using k unfolding Entry m1(3) by (simp add: map_add_upd_left dom_map_of_conv_image_fst)
    ultimately have R: "rehash f m1 ss = Inr m'" "hm_ok m'" "hm_contents m' = hm_contents m ++ map_of (live (s # ss))"
      "hm_bucket_count m' = hm_bucket_count m" "hm_size m' \<le> hm_size m + int (length (live (s # ss)))"
      using m1(4,5) Entry by (simp_all del: map_of.simps)
    moreover have "rehash f m (s # ss) = Inr m'" using put Entry R(1) by simp
    ultimately show ?thesis by blast
  qed (use Cons in auto)
qed auto

lemma hashmap_put_contents:
  assumes "hm_ok m"
  shows "\<exists>m'. hashmap_put m k p v = Inr m' \<and> hm_ok m' \<and> hm_contents m' = (hm_contents m)(k \<mapsto> (p, v))"
proof (cases "4 * hm_size m > 3 * int (hm_bucket_count m)")
  case False
  then have "4 * hm_size m \<le> 3 * int (hm_bucket_count m)" by simp
  from put_at_contents [OF assms this, of k p v] False show ?thesis
    by (auto simp: hashmap_put_def put_fuel.simps)
next
  case True
  from assms obtain es where e: "hm_entries m = Some es" "es \<noteq> []" "hm_bucket_count m = length es"
    "slots_ok es" "hm_size m = int (length (live es))" "hm_contents m = slot_map es" by (rule hm_okE)
  let ?m0 = "hashmap_init (length es * 2) :: 'a hash_map"
  have ll: "length (live es) \<le> length es" by (simp add: length_live)
  have d: "distinct (map fst (live es))" using e(4) by (intro distinct_live) (auto simp: slots_ok_def)
  have "hm_ok ?m0" using e(2) by (intro hashmap_init_ok) simp
  moreover have "4 * (hm_size ?m0 + int (length (live es))) \<le> 3 * int (hm_bucket_count ?m0)"
    using ll by (simp add: hashmap_init_def)
  ultimately obtain m1 where m1: "rehash 0 ?m0 es = Inr m1" "hm_ok m1"
      "hm_contents m1 = hm_contents ?m0 ++ map_of (live es)"
      "hm_bucket_count m1 = hm_bucket_count ?m0" "hm_size m1 \<le> hm_size ?m0 + int (length (live es))"
    using rehash_contents [of ?m0 es 0] d by blast
  have c: "hm_contents m1 = hm_contents m"
    using m1(3) e(6) by (simp add: hashmap_init_contents slot_map_def [abs_def])
  have "4 * hm_size m1 \<le> 3 * int (hm_bucket_count m1)"
    using m1(4,5) ll by (simp add: hashmap_init_def)
  from put_at_contents [OF m1(2) this, of k p v] c True e m1(1) show ?thesis
    by (auto simp: hashmap_put_def put_fuel.simps)
qed

interpretation hm: string_table hm_ok hm_contents hashmap_get "\<lambda>m k (p, v). hashmap_put m k p v" hashmap_remove
  by unfold_locales (auto simp: hashmap_get_contents hashmap_put_contents hashmap_remove_contents)


subsection \<open>Copying the driver's macro table\<close>

fun copy_entries :: "'v hash_map \<Rightarrow> 'v slot list \<Rightarrow> hm_fault + 'v hash_map" where
  "copy_entries m [] = Inr m"
| "copy_entries m (s # ss) =
     (case s of Entry k p v \<Rightarrow>
        (case hashmap_put m k p v of Inl e \<Rightarrow> Inl e | Inr m' \<Rightarrow> copy_entries m' ss)
      | _ \<Rightarrow> copy_entries m ss)"

definition copy_driver_macros :: "'v hash_map \<Rightarrow> hm_fault + 'v hash_map" where
  "copy_driver_macros driver =
     copy_entries (hashmap_init 64)
       (case hm_entries driver of None \<Rightarrow> [] | Some es \<Rightarrow> take (hm_bucket_count driver) es)"

lemma copy_entries_insert_all:
  "copy_entries m ss = insert_all (\<lambda>m k (p, v). hashmap_put m k p v) m (live ss)"
  by (induction m ss rule: copy_entries.induct) (auto split: slot.splits sum.splits)

lemma slot_map_rev_live: "slots_ok es \<Longrightarrow> map_of (rev (live es)) = slot_map es"
  using distinct_live [of es]
  by (subst map_of_inject_set [of "rev (live es)" "live es", THEN iffD2])
    (auto simp: slots_ok_def slot_map_def [abs_def] rev_map [symmetric])

text \<open>
  C18: The hash map refines a finite map.  Started from any positive number of buckets, every
  sequence of insertions (with the growth they trigger) and removals runs without a fault, and
  afterwards a lookup of any key returns what the same sequence leaves in an abstract map.
\<close>

theorem hashmap_refines_map:
  assumes "0 < n"
  shows "\<exists>m. run_ops (\<lambda>m k (p, v). hashmap_put m k p v) hashmap_remove (hashmap_init n) ops = Inr m
     \<and> (\<forall>k. hashmap_get m k = Inr (spec_ops Map.empty ops k))"
  using hm.run_ops_contents [OF hashmap_init_ok [OF assms], of ops] hm.lookup_contents
  by (fastforce simp: hashmap_init_contents)

theorem hashmap_refines_map_witness:
  "\<exists>m. run_ops (\<lambda>m k (p, v). hashmap_put m k p v) hashmap_remove (hashmap_init 1)
         [Insert ''a'' (7::nat, 1), Insert ''b'' (8, 2), Remove ''a'', Insert ''c'' (9, 3)] = Inr m
     \<and> hashmap_get m ''a'' = Inr None \<and> hashmap_get m ''b'' = Inr (Some (8, 2))"
proof -
  have "0 < (1::nat)" by simp
  from hashmap_refines_map [OF this, of "[Insert ''a'' (7::nat, 1), Insert ''b'' (8, 2), Remove ''a'', Insert ''c'' (9, 3)]"]
  show ?thesis by fastforce
qed

text \<open>
  The table of macros the preprocessor starts from is a faithful copy of the driver's: the
  copy succeeds and answers every lookup as the driver's table does, whatever its bucket count
  and however many tombstones it holds.
\<close>

lemma copy_driver_macros_same:
  assumes "hm_ok driver"
  shows "\<exists>m. copy_driver_macros driver = Inr m \<and> (\<forall>k. hashmap_get m k = hashmap_get driver k)"
  using assms
proof (rule hm_okE)
  fix es assume e: "hm_entries driver = Some es" "hm_bucket_count driver = length es" "slots_ok es"
    "hm_contents driver = slot_map es"
  have "hm_ok (hashmap_init 64 :: 'a hash_map)" by (rule hashmap_init_ok) simp
  from hm.insert_all_contents [OF this, of "live es"] e assms show ?thesis
    by (auto simp: copy_driver_macros_def copy_entries_insert_all hashmap_init_contents
        slot_map_rev_live hashmap_get_contents)
qed

lemma copy_driver_macros_same_witness:
  "\<exists>m. copy_driver_macros (hashmap_init 3 :: nat hash_map) = Inr m
     \<and> (\<forall>k. hashmap_get m k = hashmap_get (hashmap_init 3 :: nat hash_map) k)"
  by (rule copy_driver_macros_same) (simp add: hashmap_init_ok)

end
