(* ===== verification/Buffer_Spec.thy ===== *)
theory Buffer_Spec
  imports Prelude_B1
begin

text \<open>
  The interface of an append-only growable buffer: an invariant, the sequence of items written so
  far, and an operation that appends a chunk.  The dynamic arrays, the string builder and the
  byte buffers of the object writers all provide it, and whoever writes a file through one
  relies only on the law that the chunks come out in order.
\<close>

fun append_all :: "('b \<Rightarrow> 'c \<Rightarrow> 'b) \<Rightarrow> 'b \<Rightarrow> 'c list \<Rightarrow> 'b" where
  "append_all app b [] = b"
| "append_all app b (c # cs) = append_all app (app b c) cs"

locale append_buffer =
  fixes ok :: "'b \<Rightarrow> bool"
    and items :: "'b \<Rightarrow> 'a list"
    and app :: "'b \<Rightarrow> 'c \<Rightarrow> 'b"
    and chunk :: "'c \<Rightarrow> 'a list"
  assumes app_ok: "ok b \<Longrightarrow> ok (app b c)"
    and app_items: "ok b \<Longrightarrow> items (app b c) = items b @ chunk c"
begin

lemma append_all_items:
  "ok b \<Longrightarrow> ok (append_all app b cs) \<and> items (append_all app b cs) = items b @ concat (map chunk cs)"
  by (induction cs arbitrary: b) (auto simp: app_ok app_items)

lemma append_all_append: "append_all app b (cs @ ds) = append_all app (append_all app b cs) ds"
  by (induction cs arbitrary: b) auto

end

text \<open>Writing a chunk over allocated storage: \<^verbatim>\<open>memcpy\<close> into a buffer at an offset.\<close>

definition blit :: "'a option list \<Rightarrow> nat \<Rightarrow> 'a list \<Rightarrow> 'a option list" where
  "blit buf off xs = take off buf @ map Some xs @ drop (off + length xs) buf"

definition grow_to :: "'a option list \<Rightarrow> nat \<Rightarrow> 'a option list" where
  "grow_to buf n = take n buf @ replicate (n - length buf) None"

lemma length_blit: "off + length xs \<le> length buf \<Longrightarrow> length (blit buf off xs) = length buf"
  by (simp add: blit_def)

lemma take_blit: "off + length xs \<le> length buf \<Longrightarrow> take (off + length xs) (blit buf off xs) = take off buf @ map Some xs"
  by (simp add: blit_def)

lemma length_grow_to [simp]: "length (grow_to buf n) = n"
  by (simp add: grow_to_def)

lemma take_grow_to: "m \<le> length buf \<Longrightarrow> m \<le> n \<Longrightarrow> take m (grow_to buf n) = take m buf"
  by (simp add: grow_to_def min_def)

end
