(* ===== verification/Dyn_Array.thy ===== *)
theory Dyn_Array
  imports Buffer_Spec
begin

text \<open>
  The growable arrays of \<^verbatim>\<open>src/src/common.c\<close>, \<^verbatim>\<open>src/src/ast.c\<close>, \<^verbatim>\<open>src/src/preprocessor.c\<close> and
  \<^verbatim>\<open>src/src/ir.c\<close>.  They are one C idiom at several element types: a push onto a full array
  reallocates to twice the capacity plus eight.  The storage is a list of cells, where
  \<^term>\<open>None\<close> is a cell \<^verbatim>\<open>realloc\<close> has left uninitialised.  Counts and capacities are C
  \<^verbatim>\<open>int\<close>s bounded by the memory of the host; \<^verbatim>\<open>realloc\<close> is taken not to fail, as the code does.

  The lemmas show that a push never writes outside the storage, that it appends, and that the
  capacity stays within twice the count.
\<close>

record 'a dyn_array =
  arr_data :: "'a option list"
  arr_count :: nat
  arr_capacity :: nat

definition string_array_init :: "string dyn_array" where
  "string_array_init = \<lparr>arr_data = [], arr_count = 0, arr_capacity = 0\<rparr>"

definition array_grow :: "'a dyn_array \<Rightarrow> 'a dyn_array" where
  "array_grow arr =
     (if arr_count arr \<ge> arr_capacity arr then
        (let cap = arr_capacity arr * 2 + 8
         in arr\<lparr>arr_capacity := cap, arr_data := grow_to (arr_data arr) cap\<rparr>)
      else arr)"

definition array_push :: "'a dyn_array \<Rightarrow> 'a \<Rightarrow> 'a dyn_array" where
  "array_push arr val =
     (let arr' = array_grow arr
      in arr'\<lparr>arr_data := (arr_data arr')[arr_count arr' := Some val], arr_count := arr_count arr' + 1\<rparr>)"

definition string_array_push :: "string dyn_array \<Rightarrow> string \<Rightarrow> string dyn_array" where
  "string_array_push = array_push"

definition string_array_free :: "string dyn_array \<Rightarrow> string dyn_array" where
  "string_array_free arr = arr\<lparr>arr_data := [], arr_count := 0, arr_capacity := 0\<rparr>"

definition int_array_init :: "int dyn_array" where
  "int_array_init = \<lparr>arr_data = [], arr_count = 0, arr_capacity = 0\<rparr>"

definition int_array_push :: "int dyn_array \<Rightarrow> int \<Rightarrow> int dyn_array" where
  "int_array_push = array_push"

definition int_array_free :: "int dyn_array \<Rightarrow> int dyn_array" where
  "int_array_free arr = arr\<lparr>arr_data := [], arr_count := 0, arr_capacity := 0\<rparr>"

definition long_array_init :: "int dyn_array" where
  "long_array_init = \<lparr>arr_data = [], arr_count = 0, arr_capacity = 0\<rparr>"

definition long_array_push :: "int dyn_array \<Rightarrow> int \<Rightarrow> int dyn_array" where
  "long_array_push = array_push"

definition long_array_free :: "int dyn_array \<Rightarrow> int dyn_array" where
  "long_array_free arr = arr\<lparr>arr_data := [], arr_count := 0, arr_capacity := 0\<rparr>"

subsection \<open>Contents and invariant\<close>

definition array_items :: "'a dyn_array \<Rightarrow> 'a list" where
  "array_items arr = map the (take (arr_count arr) (arr_data arr))"

definition array_ok :: "'a dyn_array \<Rightarrow> bool" where
  "array_ok arr \<longleftrightarrow> length (arr_data arr) = arr_capacity arr \<and> arr_count arr \<le> arr_capacity arr
     \<and> list_all (\<lambda>c. c \<noteq> None) (take (arr_count arr) (arr_data arr))
     \<and> (arr_capacity arr = 0 \<or> arr_capacity arr \<le> 2 * arr_count arr + 6)"

lemma array_init_ok:
  "array_ok \<lparr>arr_data = [], arr_count = 0, arr_capacity = 0\<rparr>"
  "array_items \<lparr>arr_data = [], arr_count = 0, arr_capacity = 0\<rparr> = []"
  by (simp_all add: array_ok_def array_items_def)

lemma array_grow_ok:
  assumes "array_ok arr"
  shows "length (arr_data (array_grow arr)) = arr_capacity (array_grow arr)"
    and "arr_count (array_grow arr) < arr_capacity (array_grow arr)"
    and "take (arr_count arr) (arr_data (array_grow arr)) = take (arr_count arr) (arr_data arr)"
    and "arr_count (array_grow arr) = arr_count arr"
    and "arr_capacity (array_grow arr) \<le> 2 * Suc (arr_count arr) + 6"
  using assms by (auto simp: array_grow_def array_ok_def Let_def take_grow_to)

lemma array_push_ok: "array_ok arr \<Longrightarrow> array_ok (array_push arr v)"
  using array_grow_ok [of arr]
  by (auto simp: array_push_def Let_def array_ok_def take_Suc_conv_app_nth take_update_cancel)

lemma array_push_items: "array_ok arr \<Longrightarrow> array_items (array_push arr v) = array_items arr @ [v]"
  using array_grow_ok [of arr]
  by (auto simp: array_push_def Let_def array_items_def take_Suc_conv_app_nth take_update_cancel)

lemma array_ok_count: "array_ok arr \<Longrightarrow> arr_count arr = length (array_items arr)"
  by (simp add: array_ok_def array_items_def)

interpretation arr: append_buffer array_ok array_items array_push "\<lambda>v. [v]"
  by unfold_locales (simp_all add: array_push_ok array_push_items)

text \<open>
  A growable array is the list of the values pushed onto it: after any pushes onto a fresh
  array the stored items are exactly those values in order, no write fell outside the storage, and
  the storage holds at most twice the number of items plus six cells.
\<close>

lemma array_pushes:
  "let arr = append_all array_push string_array_init vals
   in array_items arr = vals \<and> arr_count arr = length vals
      \<and> length (arr_data arr) = arr_capacity arr \<and> arr_capacity arr \<le> 2 * length vals + 6"
proof -
  let ?arr = "append_all array_push string_array_init vals"
  have ok: "array_ok ?arr" and it: "array_items ?arr = vals"
    using arr.append_all_items [of string_array_init vals]
    by (auto simp: string_array_init_def array_init_ok)
  from ok it have "arr_count ?arr = length vals" by (simp add: array_ok_count)
  with ok it show ?thesis by (auto simp: array_ok_def Let_def)
qed

end
