(* ===== verification/Str_Builder.thy ===== *)
theory Str_Builder
  imports Buffer_Spec
begin

text \<open>
  The string builder of \<^verbatim>\<open>src/src/common.c\<close> and the two renderings of string literals built on
  it.  A C string is the list of its bytes before the terminating NUL; a NULL pointer is
  \<^term>\<open>None\<close>.  The builder's storage is a list of cells, \<^term>\<open>None\<close> being a byte no write has
  reached.  The formatted text of \<^verbatim>\<open>sb_appendf\<close> is what \<^verbatim>\<open>vsnprintf\<close> produces, an argument here.

  The lemmas show that every append writes inside the storage, keeps the text NUL-terminated and
  adds exactly its argument; the escape rewriting keeps the character sequence a literal denotes.
\<close>

record string_builder =
  sb_buf :: "char option list"
  sb_len :: nat
  sb_cap :: nat

definition NUL :: char where
  "NUL = CHR 0x00"

definition sb_init :: string_builder where
  "sb_init = \<lparr>sb_buf = [], sb_len = 0, sb_cap = 0\<rparr>"

definition sb_ensure :: "string_builder \<Rightarrow> nat \<Rightarrow> string_builder" where
  "sb_ensure sb needed =
     (if needed > sb_cap sb then
        (let new_cap = needed + 16 in sb\<lparr>sb_cap := new_cap, sb_buf := grow_to (sb_buf sb) new_cap\<rparr>)
      else sb)"

definition sb_append :: "string_builder \<Rightarrow> string option \<Rightarrow> string_builder" where
  "sb_append sb s_ptr = (case s_ptr of None \<Rightarrow> sb
     | Some s \<Rightarrow>
       (let slen = length s;
            needed = sb_len sb + slen + 1;
            sb1 = sb_ensure sb needed;
            buf1 = blit (sb_buf sb1) (sb_len sb1) s;
            len1 = sb_len sb1 + slen
        in sb1\<lparr>sb_len := len1, sb_buf := buf1[len1 := Some NUL]\<rparr>))"

definition sb_append_n :: "string_builder \<Rightarrow> string option \<Rightarrow> nat \<Rightarrow> string_builder" where
  "sb_append_n sb s_ptr slen = (case s_ptr of None \<Rightarrow> sb
     | Some s \<Rightarrow>
       if slen = 0 then sb
       else
       (let needed = sb_len sb + slen + 1;
            sb1 = sb_ensure sb needed;
            buf1 = blit (sb_buf sb1) (sb_len sb1) (take slen s);
            len1 = sb_len sb1 + slen
        in sb1\<lparr>sb_len := len1, sb_buf := buf1[len1 := Some NUL]\<rparr>))"

definition sb_append_char :: "string_builder \<Rightarrow> char \<Rightarrow> string_builder" where
  "sb_append_char sb c =
     (let needed = sb_len sb + 2;
          sb1 = sb_ensure sb needed;
          buf1 = (sb_buf sb1)[sb_len sb1 := Some c];
          len1 = sb_len sb1 + 1
      in sb1\<lparr>sb_len := len1, sb_buf := buf1[len1 := Some NUL]\<rparr>)"

definition sb_ensure_fmt :: "string_builder \<Rightarrow> nat \<Rightarrow> string_builder" where
  "sb_ensure_fmt sb needed =
     (if sb_len sb + needed + 1 > sb_cap sb then
        (let cap = sb_cap sb * 2 + needed + 16 in sb\<lparr>sb_cap := cap, sb_buf := grow_to (sb_buf sb) cap\<rparr>)
      else sb)"

definition sb_appendf :: "string_builder \<Rightarrow> string option \<Rightarrow> string_builder" where
  "sb_appendf sb formatted = (case formatted of None \<Rightarrow> sb
     | Some s \<Rightarrow>
       (let needed = length s in
        if needed < 512 then sb_append sb (Some s)
        else
          (let sb1 = sb_ensure_fmt sb needed
           in sb1\<lparr>sb_len := sb_len sb1 + needed, sb_buf := blit (sb_buf sb1) (sb_len sb1) (s @ [NUL])\<rparr>)))"

definition sb_to_string :: "string_builder \<Rightarrow> string" where
  "sb_to_string sb = (if sb_buf sb = [] then [] else map the (take (sb_len sb) (sb_buf sb)))"

definition sb_free :: "string_builder \<Rightarrow> string_builder" where
  "sb_free sb = \<lparr>sb_buf = [], sb_len = 0, sb_cap = 0\<rparr>"

subsection \<open>Escape rewriting\<close>

fun escape_loop :: "string \<Rightarrow> string" where
  "escape_loop [] = []"
| "escape_loop [c] = [c]"
| "escape_loop (c # n # rest) =
     (if c = CHR 0x5C then
        (if n = CHR 0x27 \<or> n = CHR ''?'' then n # escape_loop rest else CHR 0x5C # n # escape_loop rest)
      else c # escape_loop (n # rest))"

definition escape_asm_string :: "string \<Rightarrow> string" where
  "escape_asm_string s = escape_loop s"

definition wide_escape :: "char \<Rightarrow> nat" where
  "wide_escape n =
     (if n = CHR ''n'' then 10 else if n = CHR ''t'' then 9 else if n = CHR ''r'' then 13
      else if n = CHR ''v'' then 11 else if n = CHR ''f'' then 12 else if n = CHR ''a'' then 7
      else if n = CHR ''b'' then 8 else if n = CHR ''0'' then 0 else if n = CHR 0x5C then 92
      else if n = CHR 0x22 then 34 else if n = CHR 0x27 then 39 else of_char n)"

fun wide_loop :: "string \<Rightarrow> string" where
  "wide_loop [] = []"
| "wide_loop [c] = dec_of_nat (of_char c) @ '', ''"
| "wide_loop (c # n # rest) =
     (if c = CHR 0x5C then dec_of_nat (wide_escape n) @ '', '' @ wide_loop rest
      else dec_of_nat (of_char c) @ '', '' @ wide_loop (n # rest))"

definition wide_string_longs :: "string \<Rightarrow> string" where
  "wide_string_longs s = wide_loop s @ ''0''"

subsection \<open>Contents and invariant\<close>

definition sb_ok :: "string_builder \<Rightarrow> bool" where
  "sb_ok sb \<longleftrightarrow> length (sb_buf sb) = sb_cap sb
     \<and> (sb_cap sb = 0 \<and> sb_len sb = 0 \<or> sb_len sb < sb_cap sb \<and> sb_buf sb ! sb_len sb = Some NUL)
     \<and> list_all (\<lambda>c. c \<noteq> None) (take (sb_len sb) (sb_buf sb))"

definition sb_text :: "string_builder \<Rightarrow> string" where
  "sb_text sb = map the (take (sb_len sb) (sb_buf sb))"

lemma sb_init_ok: "sb_ok sb_init" "sb_text sb_init = []"
  by (simp_all add: sb_ok_def sb_text_def sb_init_def)

lemma sb_ensure_ok:
  assumes "sb_ok sb" "sb_len sb < needed"
  shows "length (sb_buf (sb_ensure sb needed)) = sb_cap (sb_ensure sb needed)"
    and "needed \<le> sb_cap (sb_ensure sb needed)" and "sb_len (sb_ensure sb needed) = sb_len sb"
    and "take (sb_len sb) (sb_buf (sb_ensure sb needed)) = take (sb_len sb) (sb_buf sb)"
  using assms by (auto simp: sb_ensure_def sb_ok_def Let_def take_grow_to)

lemma sb_write_ok:
  assumes len: "length (sb_buf sb1) = sb_cap sb1" and room: "sb_len sb1 + length s + 1 \<le> sb_cap sb1"
    and old: "list_all (\<lambda>c. c \<noteq> None) (take (sb_len sb1) (sb_buf sb1))"
  shows "sb_ok (sb1\<lparr>sb_len := sb_len sb1 + length s,
            sb_buf := (blit (sb_buf sb1) (sb_len sb1) s)[sb_len sb1 + length s := Some NUL]\<rparr>)"
    and "sb_text (sb1\<lparr>sb_len := sb_len sb1 + length s,
            sb_buf := (blit (sb_buf sb1) (sb_len sb1) s)[sb_len sb1 + length s := Some NUL]\<rparr>)
         = sb_text sb1 @ s"
proof -
  have r: "sb_len sb1 + length s \<le> length (sb_buf sb1)" using room len by simp
  have t: "take (sb_len sb1 + length s) (blit (sb_buf sb1) (sb_len sb1) s) = take (sb_len sb1) (sb_buf sb1) @ map Some s"
    by (rule take_blit [OF r])
  have l: "length (blit (sb_buf sb1) (sb_len sb1) s) = sb_cap sb1" using length_blit [OF r] len by simp
  from r t l room old show "sb_ok (sb1\<lparr>sb_len := sb_len sb1 + length s,
            sb_buf := (blit (sb_buf sb1) (sb_len sb1) s)[sb_len sb1 + length s := Some NUL]\<rparr>)"
    by (auto simp: sb_ok_def take_update_cancel list_all_iff)
  from t show "sb_text (sb1\<lparr>sb_len := sb_len sb1 + length s,
            sb_buf := (blit (sb_buf sb1) (sb_len sb1) s)[sb_len sb1 + length s := Some NUL]\<rparr>)
         = sb_text sb1 @ s"
    by (simp add: sb_text_def take_update_cancel comp_def)
qed

lemma sb_append_ok:
  assumes "sb_ok sb"
  shows "sb_ok (sb_append sb s) \<and> sb_text (sb_append sb s) = sb_text sb @ (case s of None \<Rightarrow> [] | Some t \<Rightarrow> t)"
proof (cases s)
  case (Some t)
  note E = sb_ensure_ok [OF assms, of "sb_len sb + length t + 1"]
  have old: "list_all (\<lambda>c. c \<noteq> None) (take (sb_len sb) (sb_buf sb))" using assms by (simp add: sb_ok_def)
  show ?thesis
    using sb_write_ok [of "sb_ensure sb (sb_len sb + length t + 1)" t] E old Some
    by (simp add: sb_append_def Let_def sb_text_def)
qed (use assms in \<open>simp add: sb_append_def\<close>)

lemma sb_append_n_ok:
  assumes "sb_ok sb" "n \<le> length t"
  shows "sb_ok (sb_append_n sb (Some t) n) \<and> sb_text (sb_append_n sb (Some t) n) = sb_text sb @ take n t"
proof (cases "n = 0")
  case False
  have "sb_append_n sb (Some t) n = sb_append sb (Some (take n t))"
    using False assms(2) by (simp add: sb_append_n_def sb_append_def min_def Let_def)
  with sb_append_ok [OF assms(1), of "Some (take n t)"] show ?thesis by simp
qed (use assms in \<open>simp add: sb_append_n_def\<close>)

lemma blit_one: "n < length buf \<Longrightarrow> blit buf n [c] = buf[n := Some c]"
  by (simp add: blit_def upd_conv_take_nth_drop)

lemma sb_append_char_eq:
  assumes "sb_ok sb"
  shows "sb_append_char sb c = sb_append sb (Some [c])"
proof -
  note E = sb_ensure_ok [OF assms, of "sb_len sb + 2"]
  have "sb_len sb < length (sb_buf (sb_ensure sb (sb_len sb + 2)))" using E by simp
  then show ?thesis using E(3)
    by (simp add: sb_append_char_def sb_append_def Let_def blit_one)
qed

lemma sb_appendf_ok:
  assumes "sb_ok sb"
  shows "sb_ok (sb_appendf sb s) \<and> sb_text (sb_appendf sb s) = sb_text sb @ (case s of None \<Rightarrow> [] | Some t \<Rightarrow> t)"
proof (cases s)
  case (Some t)
  show ?thesis
  proof (cases "length t < 512")
    case True
    with Some sb_append_ok [OF assms] show ?thesis by (simp add: sb_appendf_def Let_def)
  next
    case False
    define sb1 where "sb1 = sb_ensure_fmt sb (length t)"
    have s1: "length (sb_buf sb1) = sb_cap sb1" "sb_len sb1 + length t + 1 \<le> sb_cap sb1"
      "sb_len sb1 = sb_len sb" "take (sb_len sb) (sb_buf sb1) = take (sb_len sb) (sb_buf sb)"
      using assms by (auto simp: sb1_def sb_ensure_fmt_def Let_def sb_ok_def take_grow_to)
    have old: "list_all (\<lambda>c. c \<noteq> None) (take (sb_len sb) (sb_buf sb))" using assms by (simp add: sb_ok_def)
    have "blit (sb_buf sb1) (sb_len sb1) (t @ [NUL])
        = (blit (sb_buf sb1) (sb_len sb1) t)[sb_len sb1 + length t := Some NUL]"
      using s1(1,2) by (simp add: blit_def upd_conv_take_nth_drop list_update_append)
    then have "sb_appendf sb s = sb1\<lparr>sb_len := sb_len sb1 + length t,
            sb_buf := (blit (sb_buf sb1) (sb_len sb1) t)[sb_len sb1 + length t := Some NUL]\<rparr>"
      using False Some by (simp add: sb_appendf_def sb1_def [symmetric] Let_def)
    with sb_write_ok [of sb1 t] s1 old Some show ?thesis by (simp add: sb_text_def)
  qed
qed (use assms in \<open>simp add: sb_appendf_def\<close>)

datatype sb_op = App "string option" | App_char char | App_f "string option"

fun sb_apply :: "string_builder \<Rightarrow> sb_op \<Rightarrow> string_builder" where
  "sb_apply sb (App s) = sb_append sb s"
| "sb_apply sb (App_char c) = sb_append_char sb c"
| "sb_apply sb (App_f s) = sb_appendf sb s"

fun sb_op_text :: "sb_op \<Rightarrow> string" where
  "sb_op_text (App s) = (case s of None \<Rightarrow> [] | Some t \<Rightarrow> t)"
| "sb_op_text (App_char c) = [c]"
| "sb_op_text (App_f s) = (case s of None \<Rightarrow> [] | Some t \<Rightarrow> t)"

interpretation sb: append_buffer sb_ok sb_text sb_apply sb_op_text
proof
  fix b c assume "sb_ok b"
  then have "sb_ok (sb_apply b c) \<and> sb_text (sb_apply b c) = sb_text b @ sb_op_text c"
    by (cases c) (auto simp: sb_append_ok sb_append_char_eq sb_appendf_ok)
  then show "sb_ok (sb_apply b c)" "sb_text (sb_apply b c) = sb_text b @ sb_op_text c" by auto
qed

lemma sb_to_string_text: "sb_ok sb \<Longrightarrow> sb_to_string sb = sb_text sb"
  by (auto simp: sb_to_string_def sb_text_def)

text \<open>
  A string builder collects text: after any sequence of string, character and formatted
  appends (NULL and failed formats included) to a fresh builder, the string it yields is the
  concatenation of what was appended, all writes stayed inside its storage, and when it owns
  storage the text in it is NUL-terminated.
\<close>

lemma sb_collects:
  "let sb = append_all sb_apply sb_init ops
   in sb_to_string sb = concat (map sb_op_text ops) \<and> length (sb_buf sb) = sb_cap sb
      \<and> (sb_buf sb = [] \<or> sb_len sb < sb_cap sb \<and> sb_buf sb ! sb_len sb = Some NUL)"
proof -
  let ?sb = "append_all sb_apply sb_init ops"
  have "sb_ok ?sb" "sb_text ?sb = concat (map sb_op_text ops)"
    using sb.append_all_items [OF sb_init_ok(1), of ops] by (simp_all add: sb_init_ok)
  then show ?thesis by (auto simp: Let_def sb_to_string_text sb_ok_def)
qed

subsection \<open>Character units of a literal\<close>

datatype char_unit = Plain char | Escaped char

fun units :: "string \<Rightarrow> char_unit list" where
  "units [] = []"
| "units [c] = [Plain c]"
| "units (c # n # rest) = (if c = CHR 0x5C then Escaped n # units rest else Plain c # units (n # rest))"

definition unit_code :: "char_unit \<Rightarrow> nat" where
  "unit_code u = (case u of Plain c \<Rightarrow> of_char c | Escaped n \<Rightarrow> wide_escape n)"

definition simple_quote :: "char_unit \<Rightarrow> char_unit" where
  "simple_quote u = (case u of Plain c \<Rightarrow> Plain c
     | Escaped n \<Rightarrow> if n = CHR 0x27 \<or> n = CHR ''?'' then Plain n else Escaped n)"

lemma units_plain: "c \<noteq> CHR 0x5C \<Longrightarrow> units (c # rest) = Plain c # units rest"
  by (cases rest) auto

lemma units_escape: "units (escape_loop s) = map simple_quote (units s)"
  by (induction s rule: escape_loop.induct) (auto simp: simple_quote_def units_plain)

text \<open>
  C27: Rewriting a C string literal for the assembler keeps its meaning and removes what the
  assembler does not know: read as a sequence of plain and escaped characters, the result is the
  input with every \<^verbatim>\<open>\'\<close> and \<^verbatim>\<open>\?\<close> replaced by the plain character, so no such escape is left, and
  rewriting a second time changes nothing.
\<close>

theorem escape_asm_string_units:
  "units (escape_asm_string s) = map simple_quote (units s)
   \<and> Escaped CHR 0x27 \<notin> set (units (escape_asm_string s))
   \<and> Escaped CHR ''?'' \<notin> set (units (escape_asm_string s))
   \<and> escape_asm_string (escape_asm_string s) = escape_asm_string s"
proof -
  have no: "Escaped CHR 0x27 \<notin> set (map simple_quote us) \<and> Escaped CHR ''?'' \<notin> set (map simple_quote us)" for us
    by (induction us) (auto simp: simple_quote_def split: char_unit.splits)
  have idem: "Escaped CHR 0x27 \<notin> set (units t) \<Longrightarrow> Escaped CHR ''?'' \<notin> set (units t) \<Longrightarrow> escape_loop t = t" for t
    by (induction t rule: escape_loop.induct) (auto split: if_splits)
  show ?thesis using no [of "units s"]
    by (auto simp: escape_asm_string_def units_escape intro!: idem)
qed

fun split_longs :: "string \<Rightarrow> string \<Rightarrow> string list" where
  "split_longs acc [] = [acc]"
| "split_longs acc (c # cs) = (if c = CHR '','' then acc # split_longs [] (tl cs) else split_longs (acc @ [c]) cs)"

lemma split_longs_dec: "list_all is_dec_digit ds \<Longrightarrow> split_longs acc (ds @ '', '' @ rest) = (acc @ ds) # split_longs [] rest"
  by (induction ds arbitrary: acc) (auto simp: is_dec_digit_def)

lemma split_longs_digits: "list_all is_dec_digit ds \<Longrightarrow> split_longs acc ds = [acc @ ds]"
  by (induction ds arbitrary: acc) (auto simp: is_dec_digit_def)

lemma dec_all_digits: "list_all is_dec_digit (dec_of_nat n)"
  by (simp add: list_all_iff dec_of_nat_digits)

lemma wide_loop_units: "wide_loop s = concat (map (\<lambda>u. dec_of_nat (unit_code u) @ '', '') (units s))"
  by (induction s rule: wide_loop.induct) (auto simp: unit_code_def)

lemma split_wide: "map nat_of_dec (split_longs [] (concat (map (\<lambda>u. dec_of_nat (unit_code u) @ '', '') us) @ ''0'')) = map unit_code us @ [0]"
proof (induction us)
  case Nil
  show ?case using split_longs_digits [of "''0''" "[]"] by (simp add: is_dec_digit_def nat_of_dec_def digit_val_def)
next
  case (Cons u us)
  then show ?case using split_longs_dec [OF dec_all_digits, of "[]" "unit_code u"] by simp
qed

text \<open>
  The directive for a wide string lists its characters: split at the commas and read as
  decimal numbers, the text produced for a literal is the code of each of its plain and escaped
  characters in order, followed by the terminating zero, and every element fits a byte.
\<close>

lemma wide_string_longs_parse:
  "map nat_of_dec (split_longs [] (wide_string_longs s)) = map unit_code (units s) @ [0]
   \<and> list_all (\<lambda>u. unit_code u < 256) (units s)"
  using split_wide [of "units s"]
  by (auto simp: wide_string_longs_def wide_loop_units list_all_iff unit_code_def wide_escape_def split: char_unit.splits)

end
