(* ===== verification/Arena.thy ===== *)
theory Arena
  imports Prelude_B1
begin

text \<open>
  The arena allocator of \<^verbatim>\<open>src/src/common.c\<close>: a list of chunks, newest first, bump allocation
  in the head chunk.  A chunk's bytes come from \<^verbatim>\<open>malloc\<close>, which is modelled by the fresh
  number it gives the chunk; an address is a chunk number and an offset.  Offsets and capacities
  are 64-bit words, with the wrap-around of \<^verbatim>\<open>size_t\<close>.  The alignment \<^verbatim>\<open>alignof(max_align_t)\<close>
  is a property of the host, an argument \<open>al\<close> of the model that the lemmas take to be a power of two.

  The lemmas show that the blocks of any sequence of requests lie inside their chunks, start
  aligned, and never overlap.
\<close>

record arena_chunk =
  ch_id :: nat
  ch_offset :: u64
  ch_capacity :: u64

record arena =
  ar_chunks :: "arena_chunk list"
  ar_fresh :: nat

type_synonym address = "nat \<times> u64"

definition ARENA_CHUNK_DEFAULT_CAPACITY :: u64 where
  "ARENA_CHUNK_DEFAULT_CAPACITY = 64 * 1024"

definition arena_init :: "arena \<Rightarrow> arena" where
  "arena_init a = a\<lparr>ar_chunks := []\<rparr>"

definition arena_new_chunk :: "arena \<Rightarrow> u64 \<Rightarrow> arena" where
  "arena_new_chunk a sz =
     (let cap = (if sz > ARENA_CHUNK_DEFAULT_CAPACITY then sz else ARENA_CHUNK_DEFAULT_CAPACITY)
      in \<lparr>ar_chunks = \<lparr>ch_id = ar_fresh a, ch_offset = 0, ch_capacity = cap\<rparr> # ar_chunks a,
          ar_fresh = Suc (ar_fresh a)\<rparr>)"

definition arena_alloc :: "u64 \<Rightarrow> arena \<Rightarrow> u64 \<Rightarrow> arena \<times> address" where
  "arena_alloc al a req =
     (let sz = align_up req al;
          a1 = (case ar_chunks a of
                  [] \<Rightarrow> arena_new_chunk a sz
                | h # _ \<Rightarrow> if ch_offset h + sz > ch_capacity h then arena_new_chunk a sz else a);
          h = hd (ar_chunks a1)
      in (a1\<lparr>ar_chunks := h\<lparr>ch_offset := ch_offset h + sz\<rparr> # tl (ar_chunks a1)\<rparr>,
          (ch_id h, ch_offset h)))"

definition arena_free :: "arena \<Rightarrow> arena" where
  "arena_free a = a\<lparr>ar_chunks := []\<rparr>"

fun arena_allocs :: "u64 \<Rightarrow> arena \<Rightarrow> u64 list \<Rightarrow> arena \<times> (address \<times> u64) list" where
  "arena_allocs al a [] = (a, [])"
| "arena_allocs al a (n # ns) =
     (let (a1, p) = arena_alloc al a n; (a2, ps) = arena_allocs al a1 ns in (a2, (p, n) # ps))"

subsection \<open>Invariant\<close>

definition size_ok :: "u64 \<Rightarrow> bool" where
  "size_ok n \<longleftrightarrow> unat n \<le> 2 ^ 61"

definition chunk_ok :: "nat \<Rightarrow> arena_chunk \<Rightarrow> bool" where
  "chunk_ok k c \<longleftrightarrow> unat (ch_offset c) \<le> unat (ch_capacity c) \<and> unat (ch_capacity c) \<le> 2 ^ 62
     \<and> 2 ^ k dvd unat (ch_offset c)"

definition arena_ok :: "nat \<Rightarrow> arena \<Rightarrow> bool" where
  "arena_ok k a \<longleftrightarrow> list_all (chunk_ok k) (ar_chunks a)
     \<and> list_all (\<lambda>c. ch_id c < ar_fresh a) (ar_chunks a) \<and> distinct (map ch_id (ar_chunks a))"

text \<open>The bytes an address range covers, and whether a chunk has already handed a byte out.\<close>

definition block_bytes :: "address \<times> u64 \<Rightarrow> (nat \<times> nat) set" where
  "block_bytes b = {fst (fst b)} \<times> {unat (snd (fst b)) ..< unat (snd (fst b)) + unat (snd b)}"

definition used_bytes :: "arena \<Rightarrow> (nat \<times> nat) set" where
  "used_bytes a = (\<Union>c \<in> set (ar_chunks a). {ch_id c} \<times> {..< unat (ch_offset c)})"

definition block_in :: "arena \<Rightarrow> address \<times> u64 \<Rightarrow> bool" where
  "block_in a b \<longleftrightarrow> (\<exists>c \<in> set (ar_chunks a). ch_id c = fst (fst b)
     \<and> unat (snd (fst b)) + unat (snd b) \<le> unat (ch_capacity c))"

fun pairwise_disjoint :: "(address \<times> u64) list \<Rightarrow> bool" where
  "pairwise_disjoint [] = True"
| "pairwise_disjoint (b # bs) = (list_all (\<lambda>c. block_bytes b \<inter> block_bytes c = {}) bs \<and> pairwise_disjoint bs)"

lemma align_size:
  assumes "size_ok n" "k \<le> 12"
  shows "unat (align_up n (2 ^ k)) = round_up (unat n) (2 ^ k)"
    and "unat n \<le> unat (align_up n (2 ^ k))" and "unat (align_up n (2 ^ k)) \<le> 2 ^ 62"
    and "2 ^ k dvd unat (align_up n (2 ^ k))"
proof -
  have p: "(2::nat) ^ k \<le> 2 ^ 12" using assms(2) by (rule power_increasing) simp
  have u: "unat (2 ^ k :: u64) = 2 ^ k" using assms(2) by (simp add: unat_exp)
  show e: "unat (align_up n (2 ^ k)) = round_up (unat n) (2 ^ k)"
    by (rule unat_align_up [OF refl]) (use assms p u in \<open>auto simp: size_ok_def\<close>)
  show "unat n \<le> unat (align_up n (2 ^ k))" "2 ^ k dvd unat (align_up n (2 ^ k))"
    unfolding e by (simp_all add: round_up_ge round_up_dvd)
  have "round_up (unat n) (2 ^ k) < unat n + 2 ^ k" by (simp add: round_up_less)
  with p assms show "unat (align_up n (2 ^ k)) \<le> 2 ^ 62" unfolding e size_ok_def by simp
qed

lemma arena_new_chunk_ok:
  assumes "arena_ok k a" "unat sz \<le> 2 ^ 62"
  obtains h cs where "ar_chunks (arena_new_chunk a sz) = h # cs" "arena_ok k (arena_new_chunk a sz)"
    "unat (ch_offset h) + unat sz \<le> unat (ch_capacity h)" "cs = ar_chunks a" "ch_offset h = 0"
    "used_bytes (arena_new_chunk a sz) = used_bytes a"
proof
  let ?cap = "if sz > ARENA_CHUNK_DEFAULT_CAPACITY then sz else ARENA_CHUNK_DEFAULT_CAPACITY"
  let ?h = "\<lparr>ch_id = ar_fresh a, ch_offset = 0, ch_capacity = ?cap\<rparr>"
  show "ar_chunks (arena_new_chunk a sz) = ?h # ar_chunks a"
    by (simp add: arena_new_chunk_def Let_def)
  have cap: "unat sz \<le> unat ?cap" "unat ?cap \<le> 2 ^ 62"
    using assms(2) by (auto simp: ARENA_CHUNK_DEFAULT_CAPACITY_def word_less_nat_alt)
  show "arena_ok k (arena_new_chunk a sz)"
    using assms(1) cap by (auto simp: arena_ok_def arena_new_chunk_def Let_def chunk_ok_def list_all_iff)
  show "unat (ch_offset ?h) + unat sz \<le> unat (ch_capacity ?h)" using cap by simp
  show "used_bytes (arena_new_chunk a sz) = used_bytes a"
    by (simp add: used_bytes_def arena_new_chunk_def Let_def)
qed simp_all

text \<open>One allocation: the block is new, inside its chunk, aligned, and only its chunk grows.\<close>

lemma arena_alloc_ok:
  assumes ok: "arena_ok k a" and n: "size_ok n" and k: "k \<le> 12"
    and r: "arena_alloc (2 ^ k) a n = (a', p)"
  shows "arena_ok k a'" and "2 ^ k dvd unat (snd p)" and "block_in a' (p, n)"
    and "block_bytes (p, n) \<inter> used_bytes a = {}"
    and "block_bytes (p, n) \<subseteq> used_bytes a'" and "used_bytes a \<subseteq> used_bytes a'"
    and "\<And>b. block_in a b \<Longrightarrow> block_in a' b"
proof -
  let ?size = "align_up n (2 ^ k)"
  note S = align_size [OF n k]
  define a1 where "a1 = (case ar_chunks a of [] \<Rightarrow> arena_new_chunk a ?size
                | h # _ \<Rightarrow> if ch_offset h + ?size > ch_capacity h then arena_new_chunk a ?size else a)"
  obtain h cs where a1: "ar_chunks a1 = h # cs" "arena_ok k a1"
    "unat (ch_offset h) + unat ?size \<le> unat (ch_capacity h)" "used_bytes a1 = used_bytes a"
    "set (ar_chunks a) \<subseteq> set (ar_chunks a1)"
  proof (cases "a1 = arena_new_chunk a ?size")
    case True
    with arena_new_chunk_ok [OF ok S(3)] that show ?thesis by (metis set_subset_Cons)
  next
    case False
    then obtain h cs where h: "ar_chunks a = h # cs" "\<not> ch_offset h + ?size > ch_capacity h" "a1 = a"
      by (auto simp: a1_def split: list.splits if_splits)
    have "chunk_ok k h" using ok h(1) by (simp add: arena_ok_def)
    then have "unat (ch_offset h + ?size) = unat (ch_offset h) + unat ?size"
      using S(3) by (subst unat_word_ariths) (auto simp: chunk_ok_def)
    with h ok that show ?thesis by (simp add: word_less_nat_alt not_less)
  qed
  let ?h' = "h\<lparr>ch_offset := ch_offset h + ?size\<rparr>"
  have hok: "chunk_ok k h" using a1(1,2) by (simp add: arena_ok_def)
  have add: "unat (ch_offset h + ?size) = unat (ch_offset h) + unat ?size"
    using a1(3) hok by (subst unat_word_ariths) (auto simp: chunk_ok_def)
  from r a1(1) have a': "a' = a1\<lparr>ar_chunks := ?h' # cs\<rparr>" and p: "p = (ch_id h, ch_offset h)"
    by (auto simp: arena_alloc_def Let_def a1_def [symmetric])
  show "arena_ok k a'" using a1 hok add S(4) by (auto simp: a' arena_ok_def chunk_ok_def)
  show "2 ^ k dvd unat (snd p)" using hok by (simp add: p chunk_ok_def)
  show "block_in a' (p, n)" using a1(3) S(2) by (simp add: block_in_def a' p)
  have used: "used_bytes a = {ch_id h} \<times> {..< unat (ch_offset h)} \<union> (\<Union>c \<in> set cs. {ch_id c} \<times> {..< unat (ch_offset c)})"
    unfolding a1(4) [symmetric] by (simp add: used_bytes_def a1(1))
  have "ch_id c \<noteq> ch_id h" if "c \<in> set cs" for c
    using a1(1,2) imageI [OF that, of ch_id] by (auto simp: arena_ok_def)
  then show "block_bytes (p, n) \<inter> used_bytes a = {}"
    unfolding used block_bytes_def p by force
  show "block_bytes (p, n) \<subseteq> used_bytes a'"
    using S(2) add by (auto simp: block_bytes_def p used_bytes_def a')
  show "used_bytes a \<subseteq> used_bytes a'"
    unfolding used using add by (auto simp: used_bytes_def a')
  show "block_in a' b" if "block_in a b" for b
    using that a1(1,5) by (auto simp: block_in_def a')
qed

lemma arena_allocs_ok:
  assumes "arena_ok k a" "list_all size_ok ns" "k \<le> 12" "arena_allocs (2 ^ k) a ns = (a', bs)"
  shows "arena_ok k a' \<and> map snd bs = ns \<and> list_all (\<lambda>b. 2 ^ k dvd unat (snd (fst b))) bs
     \<and> list_all (block_in a') bs \<and> pairwise_disjoint bs
     \<and> list_all (\<lambda>b. block_bytes b \<inter> used_bytes a = {}) bs \<and> (\<forall>b. block_in a b \<longrightarrow> block_in a' b)"
  using assms
proof (induction ns arbitrary: a bs)
  case (Cons n ns)
  obtain a1 p where p: "arena_alloc (2 ^ k) a n = (a1, p)" by (cases "arena_alloc (2 ^ k) a n")
  obtain ps where ps: "arena_allocs (2 ^ k) a1 ns = (a', ps)" "bs = (p, n) # ps"
    using Cons.prems(4) p by (auto split: prod.splits)
  have n: "size_ok n" using Cons.prems(2) by simp
  note A = arena_alloc_ok [OF Cons.prems(1) n Cons.prems(3) p]
  note IH = Cons.IH [OF A(1) _ Cons.prems(3) ps(1)]
  have IH: "arena_ok k a'" "map snd ps = ns" "list_all (\<lambda>b. 2 ^ k dvd unat (snd (fst b))) ps"
    "list_all (block_in a') ps" "pairwise_disjoint ps"
    "list_all (\<lambda>b. block_bytes b \<inter> used_bytes a1 = {}) ps" "\<And>b. block_in a1 b \<Longrightarrow> block_in a' b"
    using IH Cons.prems(2) by auto
  have "list_all (\<lambda>b. block_bytes (p, n) \<inter> block_bytes b = {}) ps"
    "list_all (\<lambda>b. block_bytes b \<inter> used_bytes a = {}) ps"
    using IH(6) A(5,6) by (fastforce simp: list_all_iff)+
  with IH A ps(2) show ?case by auto
qed auto

lemma arena_init_ok: "arena_ok k (arena_init a)"
  by (simp add: arena_ok_def arena_init_def)

text \<open>
  C22: Arena blocks never overlap: for any sequence of requests to a fresh arena (each at most
  \<open>2^61\<close> bytes), the blocks handed out are pairwise disjoint, each lies inside the storage of one
  chunk with room for the bytes requested, and each starts at a multiple of the alignment.
\<close>

theorem arena_blocks_disjoint:
  assumes "al = 2 ^ k" "k \<le> 12" "list_all size_ok ns" "arena_allocs al (arena_init a) ns = (a', bs)"
  shows "map snd bs = ns \<and> pairwise_disjoint bs \<and> list_all (block_in a') bs
     \<and> list_all (\<lambda>b. 2 ^ k dvd unat (snd (fst b))) bs"
  using arena_allocs_ok [OF arena_init_ok assms(3,2)] assms(1,4) by blast

theorem arena_blocks_disjoint_witness:
  "pairwise_disjoint [((0, 0), 100), ((0, 112), 8), ((1, 0), 70000)]"
proof -
  let ?r = "arena_allocs 16 (arena_init \<lparr>ar_chunks = [], ar_fresh = 0\<rparr>) [100, 8, 70000]"
  have r: "?r = (fst ?r, [((0, 0), 100), ((0, 112), 8), ((1, 0), 70000)])"
    by (simp add: arena_init_def arena_alloc_def arena_new_chunk_def align_up_def
        ARENA_CHUNK_DEFAULT_CAPACITY_def)
  have "(16 :: u64) = 2 ^ 4" "(4::nat) \<le> 12" "list_all size_ok [100, 8, 70000]"
    by (simp_all add: size_ok_def)
  from arena_blocks_disjoint [OF this r] show ?thesis by blast
qed

end
