(* ===== verification/Intern.thy ===== *)
theory Intern
  imports Arena Hash_Map
begin

text \<open>
  String interning, \<^verbatim>\<open>intern_string_n\<close> of \<^verbatim>\<open>src/src/common.c\<close>: the process-wide table of interned
  strings, created on first use, maps the text of a string to the arena block that holds its only
  copy.  The state is that table, the arena it allocates from and the C strings stored in arena
  blocks.  The rest of the compiler compares interned names by address first, which is sound
  because of the properties below.
\<close>

record intern_state =
  in_ready :: bool
  in_table :: "address hash_map"
  in_arena :: arena
  in_memory :: "address \<Rightarrow> string option"

definition intern_start :: "intern_state \<Rightarrow> intern_state" where
  "intern_start st = (if in_ready st then st
     else st\<lparr>in_ready := True, in_table := hashmap_init 4096\<rparr>)"

definition intern_string_n ::
  "u64 \<Rightarrow> intern_state \<Rightarrow> string option \<Rightarrow> nat \<Rightarrow> hm_fault + (intern_state \<times> address option)" where
  "intern_string_n al st s_ptr len = (case s_ptr of None \<Rightarrow> Inr (st, None)
     | Some s \<Rightarrow>
       (let st1 = intern_start st; tmp = take len s
        in case hashmap_get (in_table st1) tmp of
             Inl e \<Rightarrow> Inl e
           | Inr (Some (p, _)) \<Rightarrow> Inr (st1, Some p)
           | Inr None \<Rightarrow>
             (let (a', p) = arena_alloc al (in_arena st1) (of_nat (len + 1))
              in case hashmap_put (in_table st1) tmp p 0 of
                   Inl e \<Rightarrow> Inl e
                 | Inr t' \<Rightarrow> Inr (st1\<lparr>in_table := t', in_arena := a',
                                in_memory := (in_memory st1)(p := Some tmp)\<rparr>, Some p))))"

definition intern_string ::
  "u64 \<Rightarrow> intern_state \<Rightarrow> string option \<Rightarrow> hm_fault + (intern_state \<times> address option)" where
  "intern_string al st s_ptr = (case s_ptr of None \<Rightarrow> Inr (st, None)
     | Some s \<Rightarrow> intern_string_n al st (Some s) (length s))"

text \<open>A run of the compiler: interning interleaved with any other allocations from the arena.\<close>

datatype arena_use = Use_intern string | Use_alloc u64

fun intern_run ::
  "u64 \<Rightarrow> intern_state \<Rightarrow> arena_use list \<Rightarrow> hm_fault + (intern_state \<times> (string \<times> address) list)" where
  "intern_run al st [] = Inr (st, [])"
| "intern_run al st (Use_alloc n # us) =
     intern_run al (st\<lparr>in_arena := fst (arena_alloc al (in_arena st) n)\<rparr>) us"
| "intern_run al st (Use_intern s # us) =
     (case intern_string al st (Some s) of
        Inl e \<Rightarrow> Inl e
      | Inr (st1, p) \<Rightarrow>
          (case intern_run al st1 us of
             Inl e \<Rightarrow> Inl e
           | Inr (st2, ps) \<Rightarrow> Inr (st2, (s, the p) # ps)))"

definition use_ok :: "arena_use \<Rightarrow> bool" where
  "use_ok u = (case u of Use_intern s \<Rightarrow> length s < 2 ^ 60 | Use_alloc n \<Rightarrow> size_ok n)"

subsection \<open>Invariant\<close>

definition intern_ok :: "nat \<Rightarrow> intern_state \<Rightarrow> bool" where
  "intern_ok k st \<longleftrightarrow> arena_ok k (in_arena st) \<and> (in_ready st \<longrightarrow> hm_ok (in_table st)) \<and>
     (\<forall>s p i. in_ready st \<and> hm_contents (in_table st) s = Some (p, i) \<longrightarrow>
        in_memory st p = Some s \<and> (fst p, unat (snd p)) \<in> used_bytes (in_arena st))"

definition interned :: "intern_state \<Rightarrow> string \<times> address \<Rightarrow> bool" where
  "interned st sp \<longleftrightarrow> in_ready st \<and> (\<exists>i. hm_contents (in_table st) (fst sp) = Some (snd sp, i))"

lemma intern_okD:
  assumes "intern_ok k st" "in_ready st" "hm_contents (in_table st) s = Some (p, i)"
  shows "in_memory st p = Some s" and "(fst p, unat (snd p)) \<in> used_bytes (in_arena st)"
  using assms unfolding intern_ok_def by blast+

lemma intern_start_ok:
  "intern_ok k st \<Longrightarrow> intern_ok k (intern_start st)"
  "interned st sp \<Longrightarrow> interned (intern_start st) sp"
  "in_ready (intern_start st)" "in_arena (intern_start st) = in_arena st"
  by (auto simp: intern_ok_def intern_start_def interned_def hashmap_init_ok hashmap_init_contents)

lemma intern_string_ok:
  assumes ok: "intern_ok k st" and k: "k \<le> 12" and len: "length s < 2 ^ 60"
  shows "\<exists>st' p. intern_string (2 ^ k) st (Some s) = Inr (st', Some p) \<and> intern_ok k st'
     \<and> interned st' (s, p) \<and> (\<forall>sp. interned st sp \<longrightarrow> interned st' sp)"
proof -
  define st1 where "st1 = intern_start st"
  have st1: "intern_ok k st1" "in_ready st1" and keep: "\<And>sp. interned st sp \<Longrightarrow> interned st1 sp"
    using intern_start_ok ok by (auto simp: st1_def)
  have hm: "hm_ok (in_table st1)" using st1 by (simp add: intern_ok_def)
  show ?thesis
  proof (cases "hm_contents (in_table st1) s")
    case (Some pi)
    obtain p i where pi: "pi = (p, i)" by (cases pi)
    have "intern_string (2 ^ k) st (Some s) = Inr (st1, Some p)"
      using Some pi hashmap_get_contents [OF hm, of s]
      by (simp add: intern_string_def intern_string_n_def Let_def st1_def [symmetric])
    moreover have "interned st1 (s, p)" using Some pi st1(2) by (simp add: interned_def)
    ultimately show ?thesis using st1(1) keep by blast
  next
    case None
    let ?n = "of_nat (length s + 1) :: u64"
    have sz: "size_ok ?n" "0 < unat ?n"
      using len by (simp_all add: size_ok_def unat_of_nat del: of_nat_Suc of_nat_add)
    obtain a' p where al: "arena_alloc (2 ^ k) (in_arena st1) ?n = (a', p)"
      by (cases "arena_alloc (2 ^ k) (in_arena st1) ?n")
    have aok: "arena_ok k (in_arena st1)" using st1(1) by (simp add: intern_ok_def)
    note A = arena_alloc_ok [OF aok sz(1) k al]
    have first: "(fst p, unat (snd p)) \<in> block_bytes (p, ?n)" using sz(2) by (simp add: block_bytes_def)
    then have new: "(fst p, unat (snd p)) \<notin> used_bytes (in_arena st1)"
      and used: "(fst p, unat (snd p)) \<in> used_bytes a'" using A(4,5) by blast+
    obtain t' where t': "hashmap_put (in_table st1) s p 0 = Inr t'" "hm_ok t'"
      "hm_contents t' = (hm_contents (in_table st1))(s \<mapsto> (p, 0))"
      using hashmap_put_contents [OF hm, of s p 0] by blast
    let ?st' = "st1\<lparr>in_table := t', in_arena := a', in_memory := (in_memory st1)(p := Some s)\<rparr>"
    have "intern_string (2 ^ k) st (Some s) = Inr (?st', Some p)"
      using None hashmap_get_contents [OF hm, of s] al t'(1)
      by (simp add: intern_string_def intern_string_n_def Let_def st1_def [symmetric])
    moreover have "intern_ok k ?st'"
    proof -
      have "in_memory ?st' q = Some u \<and> (fst q, unat (snd q)) \<in> used_bytes a'"
        if "hm_contents t' u = Some (q, i)" for u q i
      proof (cases "u = s")
        case True
        with that t'(3) used show ?thesis by simp
      next
        case False
        with that t'(3) have old: "hm_contents (in_table st1) u = Some (q, i)" by simp
        with intern_okD [OF st1] have m: "in_memory st1 q = Some u" "(fst q, unat (snd q)) \<in> used_bytes (in_arena st1)"
          by blast+
        with new have "q \<noteq> p" by auto
        with m A(6) show ?thesis by auto
      qed
      with A(1) t'(2) show ?thesis by (auto simp: intern_ok_def)
    qed
    moreover have "interned ?st' (s, p)" using t'(3) st1(2) by (simp add: interned_def)
    moreover have "interned ?st' sp" if "interned st sp" for sp
      using keep [OF that] None t'(3) by (auto simp: interned_def)
    ultimately show ?thesis by blast
  qed
qed

lemma intern_other_alloc:
  assumes "intern_ok k st" "size_ok n" "k \<le> 12"
  shows "intern_ok k (st\<lparr>in_arena := fst (arena_alloc (2 ^ k) (in_arena st) n)\<rparr>)"
proof -
  obtain a' p where al: "arena_alloc (2 ^ k) (in_arena st) n = (a', p)"
    by (cases "arena_alloc (2 ^ k) (in_arena st) n")
  have "arena_ok k (in_arena st)" using assms(1) by (simp add: intern_ok_def)
  note A = arena_alloc_ok [OF this assms(2,3) al]
  from assms(1) al A(1,6) show ?thesis by (fastforce simp: intern_ok_def)
qed

lemma intern_run_ok:
  assumes "intern_ok k st" "k \<le> 12" "list_all use_ok us"
  shows "\<exists>st' ps. intern_run (2 ^ k) st us = Inr (st', ps) \<and> intern_ok k st'
     \<and> list_all (interned st') ps \<and> map fst ps = [s. Use_intern s \<leftarrow> us] \<and> (\<forall>sp. interned st sp \<longrightarrow> interned st' sp)"
  using assms
proof (induction us arbitrary: st)
  case (Cons u us)
  show ?case
  proof (cases u)
    case (Use_alloc n)
    with Cons.prems intern_other_alloc [OF Cons.prems(1)]
    have "intern_ok k (st\<lparr>in_arena := fst (arena_alloc (2 ^ k) (in_arena st) n)\<rparr>)"
      by (simp add: use_ok_def)
    from Cons.IH [OF this Cons.prems(2)] Cons.prems(3) Use_alloc show ?thesis
      by (auto simp: interned_def)
  next
    case (Use_intern s)
    with Cons.prems have "length s < 2 ^ 60" by (simp add: use_ok_def)
    from intern_string_ok [OF Cons.prems(1,2) this] obtain st1 p where
      p: "intern_string (2 ^ k) st (Some s) = Inr (st1, Some p)" "intern_ok k st1" "interned st1 (s, p)"
        "\<forall>sp. interned st sp \<longrightarrow> interned st1 sp" by blast
    from Cons.IH [OF p(2) Cons.prems(2)] Cons.prems(3) p Use_intern show ?thesis by fastforce
  qed
qed auto

text \<open>
  C19: Interning gives every text one address and every address one text: in a run that interns
  strings of less than \<open>2^60\<close> bytes between any other allocations, no operation faults, two interned
  strings have the same address exactly when their texts are equal, and at the end each
  address still holds its text.
\<close>

theorem intern_unique:
  assumes "al = 2 ^ k" "k \<le> 12" "list_all use_ok us" "\<not> in_ready st" "ar_chunks (in_arena st) = []"
  shows "\<exists>st' ps. intern_run al st us = Inr (st', ps) \<and> map fst ps = [s. Use_intern s \<leftarrow> us]
     \<and> (\<forall>s p. (s, p) \<in> set ps \<longrightarrow> in_memory st' p = Some s)
     \<and> (\<forall>s p t q. (s, p) \<in> set ps \<and> (t, q) \<in> set ps \<longrightarrow> (p = q \<longleftrightarrow> s = t))"
proof -
  have "intern_ok k st" using assms(4,5) by (simp add: intern_ok_def arena_ok_def)
  from intern_run_ok [OF this assms(2,3)] obtain st' ps where
    r: "intern_run al st us = Inr (st', ps)" "intern_ok k st'" "list_all (interned st') ps"
      "map fst ps = [s. Use_intern s \<leftarrow> us]" using assms(1) by blast
  have mem: "in_memory st' p = Some s" if "(s, p) \<in> set ps" for s p
  proof -
    from r(3) that have "interned st' (s, p)" by (simp add: list_all_iff)
    then show ?thesis using intern_okD(1) [OF r(2)] by (metis interned_def fst_conv snd_conv)
  qed
  have fn: "p = q" if "(s, p) \<in> set ps" "(s, q) \<in> set ps" for s p q
  proof -
    from r(3) that have "interned st' (s, p)" "interned st' (s, q)" by (simp_all add: list_all_iff)
    then show ?thesis by (auto simp: interned_def)
  qed
  have inj: "s = t" if "(s, p) \<in> set ps" "(t, p) \<in> set ps" for s t p
    using mem [OF that(1)] mem [OF that(2)] by simp
  show ?thesis
    by (intro exI [of _ st'] exI [of _ ps] conjI r(1,4) allI impI) (use mem fn inj in blast)+
qed

theorem intern_unique_witness:
  "\<exists>st' ps. intern_run 16 \<lparr>in_ready = False, in_table = hashmap_init 0,
        in_arena = \<lparr>ar_chunks = [], ar_fresh = 0\<rparr>, in_memory = (\<lambda>_. None)\<rparr>
      [Use_intern ''x'', Use_alloc 40, Use_intern ''y'', Use_intern ''x''] = Inr (st', ps)
     \<and> map fst ps = [''x'', ''y'', ''x'']"
proof -
  let ?st = "\<lparr>in_ready = False, in_table = hashmap_init 0,
        in_arena = \<lparr>ar_chunks = [], ar_fresh = 0\<rparr>, in_memory = (\<lambda>_. None)\<rparr>"
  let ?us = "[Use_intern ''x'', Use_alloc 40, Use_intern ''y'', Use_intern ''x'']"
  have "(16 :: u64) = 2 ^ 4" "(4::nat) \<le> 12" "list_all use_ok ?us" "\<not> in_ready ?st" "ar_chunks (in_arena ?st) = []"
    by (simp_all add: use_ok_def size_ok_def)
  from intern_unique [OF this] obtain st' ps where
    "intern_run 16 ?st ?us = Inr (st', ps)" "map fst ps = [s. Use_intern s \<leftarrow> ?us]" by blast
  then show ?thesis by (intro exI [of _ st'] exI [of _ ps]) simp
qed

end
