(* ===== verification/Le_Bytes.thy ===== *)
theory Le_Bytes
  imports Prelude_B1
begin

text \<open>
  Little-endian byte strings: how a machine word is stored in a file image and read back.  The
  object writers, the linker's readers and the long double encoder all store integers this way.
\<close>

definition le_bytes :: "nat \<Rightarrow> 'a::len word \<Rightarrow> u8 list" where
  "le_bytes n w = map (\<lambda>i. ucast (drop_bit (8 * i) w)) [0..<n]"

fun le_nat :: "u8 list \<Rightarrow> nat" where
  "le_nat [] = 0"
| "le_nat (b # bs) = unat b + 256 * le_nat bs"

lemma length_le_bytes [simp]: "length (le_bytes n w) = n"
  by (simp add: le_bytes_def)

lemma le_bytes_0 [simp]: "le_bytes 0 w = []"
  by (simp add: le_bytes_def)

lemma le_bytes_Suc: "le_bytes (Suc n) w = ucast w # le_bytes n (drop_bit 8 w)"
  by (simp add: le_bytes_def upt_conv_Cons drop_bit_drop_bit add.commute
      del: upt_Suc flip: map_Suc_upt map_map [unfolded comp_def])

lemma unat_drop8: "unat (drop_bit 8 (w :: 'a::len word)) = unat w div 256"
  by (simp only: unat_drop_bit_eq drop_bit_nat_def) simp

lemma unat_byte: "unat (ucast (w :: 'a::len word) :: u8) = unat w mod 256"
  by (simp only: unsigned_ucast_eq take_bit_nat_def) simp

lemma le_nat_le_bytes [simp]: "le_nat (le_bytes n w) = unat w mod 256 ^ n"
proof (induction n arbitrary: w)
  case (Suc n)
  have "unat w mod 256 + 256 * (unat w div 256 mod 256 ^ n) = unat w mod 256 ^ Suc n"
    by (simp add: mod_mult2_eq)
  with Suc show ?case by (simp add: le_bytes_Suc unat_byte unat_drop8)
qed simp

lemma le_nat_append: "le_nat (xs @ ys) = le_nat xs + 256 ^ length xs * le_nat ys"
  by (induction xs) (auto simp: algebra_simps)

lemma le_nat_bound: "le_nat bs < 256 ^ length bs"
proof (induction bs)
  case (Cons b bs)
  have "unat b < 2 ^ LENGTH(8)" by (rule unsigned_less)
  then have "unat b < 256" by simp
  with Cons show ?case by simp
qed simp

definition le_word :: "u8 list \<Rightarrow> 'a::len word" where
  "le_word bs = of_nat (le_nat bs)"

lemma le_word_le_bytes:
  "256 ^ n = (2::nat) ^ LENGTH('a) \<Longrightarrow> le_word (le_bytes n (w :: 'a::len word)) = w"
proof -
  assume n: "256 ^ n = (2::nat) ^ LENGTH('a)"
  have "unat w < 2 ^ LENGTH('a)" by (rule unsigned_less)
  with n show ?thesis by (simp add: le_word_def)
qed

lemma le_word_roundtrip [simp]:
  "le_word (le_bytes 1 (a :: u8)) = a" "le_word (le_bytes 2 (b :: u16)) = b"
  "le_word (le_bytes 4 (c :: u32)) = c" "le_word (le_bytes 8 (d :: u64)) = d"
  by (rule le_word_le_bytes, simp)+

end
