(* ===== verification/X87.thy ===== *)
theory X87
  imports Complex_Main Le_Bytes
begin

text \<open>
  \<^verbatim>\<open>f64_to_x87_extended\<close> of \<^verbatim>\<open>src/src/common.c\<close>: the ten bytes of the x87 extended-precision
  number equal to a double, on the bit patterns.  The loop that normalises a subnormal
  significand is a partial function, so that its termination is proved and not assumed.
\<close>

partial_function (option) normalize_loop :: "u64 \<Rightarrow> nat \<Rightarrow> (u64 \<times> nat) option" where
  "normalize_loop m shift =
     (if m AND push_bit 52 1 = 0 then normalize_loop (push_bit 1 m) (shift + 1) else Some (m, shift))"

declare normalize_loop.simps [code]

definition x87_fields :: "u64 \<Rightarrow> u64 \<Rightarrow> (u64 \<times> u16) option" where
  "x87_fields dexp dmant =
     (if dexp = 0 then
        (if dmant = 0 then Some (0, 0)
         else (case normalize_loop dmant 0 of None \<Rightarrow> None
           | Some (m, shift) \<Rightarrow>
             (let m' = m AND NOT (push_bit 52 1);
                  E = 1 - 1023 - int shift
              in Some (push_bit 63 1 OR push_bit 11 m', word_of_int (E + 16383)))))
      else if dexp = 0x7ff then Some (push_bit 63 1 OR push_bit 11 dmant, 0x7fff)
      else (let E = uint dexp - 1023
            in Some (push_bit 63 1 OR push_bit 11 dmant, word_of_int (E + 16383))))"

definition f64_to_x87_extended :: "u64 \<Rightarrow> u8 list option" where
  "f64_to_x87_extended db =
     (let sign = drop_bit 63 db AND 1;
          dexp = drop_bit 52 db AND 0x7ff;
          dmant = db AND 0xfffffffffffff
      in map_option (\<lambda>(mant64, eexp).
           (let se = (ucast (push_bit 15 sign OR ucast eexp) :: u16)
            in le_bytes 8 mant64 @ [ucast (se AND 0xff), ucast (drop_bit 8 se)]))
         (x87_fields dexp dmant))"

subsection \<open>What the bit patterns denote\<close>

definition f64_sign :: "u64 \<Rightarrow> nat" where "f64_sign db = unat db div 2 ^ 63"
definition f64_exp :: "u64 \<Rightarrow> nat" where "f64_exp db = unat db div 2 ^ 52 mod 2 ^ 11"
definition f64_frac :: "u64 \<Rightarrow> nat" where "f64_frac db = unat db mod 2 ^ 52"

definition f64_value :: "u64 \<Rightarrow> real" where
  "f64_value db = (- 1) ^ f64_sign db *
     (if f64_exp db = 0 then real (f64_frac db) * 2 powi (- 1074)
      else real (2 ^ 52 + f64_frac db) * 2 powi (int (f64_exp db) - 1075))"

definition x87_mant :: "u8 list \<Rightarrow> nat" where "x87_mant out = le_nat (take 8 out)"
definition x87_se :: "u8 list \<Rightarrow> nat" where "x87_se out = le_nat (drop 8 out)"

definition x87_value :: "u8 list \<Rightarrow> real" where
  "x87_value out = (- 1) ^ (x87_se out div 2 ^ 15) * real (x87_mant out)
     * 2 powi (int (x87_se out mod 2 ^ 15) - 16383 - 63)"

lemma bit52: "unat (m :: u64) < 2 ^ 53 \<Longrightarrow> m AND push_bit 52 1 = 0 \<longleftrightarrow> unat m < 2 ^ 52"
proof -
  assume m: "unat m < 2 ^ 53"
  have "m AND push_bit 52 1 = 0 \<longleftrightarrow> \<not> bit m 52"
    by (simp only: push_bit_of_1 and_exp_eq_0_iff_not_bit)
  also have "bit m 52 \<longleftrightarrow> bit (unat m) 52"
    by (simp add: bit_unsigned_iff)
  also have "(\<not> bit (unat m) 52) \<longleftrightarrow> even (unat m div 2 ^ 52)"
    by (simp add: bit_iff_odd)
  also have "\<dots> \<longleftrightarrow> unat m < 2 ^ 52"
  proof -
    have "unat m div 2 ^ 52 < 2" using m by (simp add: div_less_iff_less_mult)
    then have "even (unat m div 2 ^ 52) \<longleftrightarrow> unat m div 2 ^ 52 = 0" by (auto simp: less_2_cases_iff)
    then show ?thesis by (simp add: div_eq_0_iff)
  qed
  finally show ?thesis .
qed

lemma unat_shift: "unat (w :: u64) * 2 ^ n < 2 ^ 64 \<Longrightarrow> unat (push_bit n w) = unat w * 2 ^ n"
  by (simp only: unsigned_push_bit_eq push_bit_nat_def take_bit_nat_def) simp

lemma normalize_loop_spec:
  assumes "unat m < 2 ^ 53" "m \<noteq> 0"
  shows "\<exists>m' d. normalize_loop m s = Some (m', s + d) \<and> unat m' = unat m * 2 ^ d
     \<and> 2 ^ 52 \<le> unat m' \<and> unat m' < 2 ^ 53"
  using assms
proof (induction "2 ^ 53 - unat m" arbitrary: m s rule: less_induct)
  case less
  show ?case
  proof (cases "unat m < 2 ^ 52")
    case False
    with less.prems bit52 [of m] show ?thesis
      by (subst normalize_loop.simps) (auto intro!: exI [of _ 0])
  next
    case True
    have d: "unat (push_bit 1 m) = 2 * unat m"
      using True unat_shift [of m 1] by (simp add: mult.commute)
    have pos: "0 < unat m" using less.prems(2) by (simp add: unat_gt_0)
    have ne: "push_bit 1 m \<noteq> 0" using d pos by (metis unat_0 mult_eq_0_iff less_irrefl zero_neq_numeral)
    have lt: "2 ^ 53 - unat (push_bit 1 m) < 2 ^ 53 - unat m" using d True pos by simp
    have ub: "unat (push_bit 1 m) < 2 ^ 53" using d True by simp
    from less.hyps [OF lt ub ne, of "s + 1"] obtain m' e where
      "normalize_loop (push_bit 1 m) (s + 1) = Some (m', s + 1 + e)"
      "unat m' = unat (push_bit 1 m) * 2 ^ e" "2 ^ 52 \<le> unat m'" "unat m' < 2 ^ 53" by blast
    moreover have "normalize_loop m s = normalize_loop (push_bit 1 m) (s + 1)"
      using True less.prems(1) bit52 [of m] by (subst normalize_loop.simps) simp
    ultimately show ?thesis using d by (intro exI [of _ m'] exI [of _ "Suc e"]) simp
  qed
qed


lemma bit_top: "bit (push_bit k (1 :: u64)) n \<longleftrightarrow> n = k \<and> n < 64"
  by (auto simp: bit_simps)

lemma unat_or_top:
  assumes "unat f < 2 ^ 52"
  shows "unat (push_bit 63 1 OR push_bit 11 f :: u64) = 2 ^ 63 + unat f * 2 ^ 11"
proof -
  have "\<not> bit (unat f) 52" using assms by (simp add: bit_iff_odd)
  then have "\<not> bit f 52" by (simp add: bit_unsigned_iff)
  then have "push_bit 63 1 AND push_bit 11 f = 0"
  proof (intro bit_eqI)
    fix n
    have "bit (push_bit 11 f) 63 \<longleftrightarrow> bit f 52" by (simp only: bit_push_bit_iff) simp
    with \<open>\<not> bit f 52\<close> show "bit (push_bit 63 1 AND push_bit 11 f) n = bit 0 n"
      by (auto simp only: bit_and_iff bit_top bit_0_eq bot_fun_def bot_bool_def)
  qed
  then have or: "push_bit 63 1 OR push_bit 11 f = push_bit 63 1 + push_bit 11 f"
    by (simp only: disjunctive_add_eq_or)
  have a: "unat (push_bit 63 1 :: u64) = 2 ^ 63" using unat_shift [of 1 63] by simp
  have b: "unat (push_bit 11 f) = unat f * 2 ^ 11" using assms by (intro unat_shift) simp
  have "unat (push_bit 63 1 :: u64) + unat (push_bit 11 f) < 2 ^ LENGTH(64)"
    using a b assms by simp
  then show ?thesis unfolding or a [symmetric] b [symmetric] by (rule unat_add_lem [THEN iffD1])
qed

lemma unat_clear_top:
  assumes "2 ^ 52 \<le> unat m" "unat (m :: u64) < 2 ^ 53"
  shows "unat (m AND NOT (push_bit 52 1)) = unat m - 2 ^ 52"
proof -
  let ?p = "push_bit 52 1 :: u64"
  have p: "unat ?p = 2 ^ 52" using unat_shift [of 1 52] by simp
  have "bit m 52"
    using bit52 [OF assms(2)] assms(1) by (simp only: push_bit_of_1 and_exp_eq_0_iff_not_bit) simp
  then have mp: "m AND ?p = ?p" by (intro bit_eqI) (auto simp only: bit_and_iff bit_top)
  have "(m AND NOT ?p) AND (m AND ?p) = 0" "(m AND NOT ?p) OR (m AND ?p) = m"
    by (intro bit_eqI; auto simp: bit_simps)+
  then have "(m AND NOT ?p) + (m AND ?p) = m" by (metis disjunctive_add_eq_or)
  then have "m AND NOT ?p = m - ?p" using mp by (metis add_diff_cancel_right')
  moreover have "?p \<le> m" using p assms(1) by (simp add: word_le_nat_alt)
  ultimately show ?thesis using p by (simp add: unat_sub)
qed

lemma unat_exponent: "0 \<le> i \<Longrightarrow> i < 2 ^ 16 \<Longrightarrow> unat (word_of_int i :: u16) = nat i"
  by (simp add: unat_eq_nat_uint uint_word_of_int)

definition scaled :: "nat \<Rightarrow> int \<Rightarrow> real" where "scaled m e = real m * 2 powi e"

lemma scaled_shift: "scaled (m * 2 ^ k) e = scaled m (e + int k)"
  by (simp add: scaled_def power_int_add)

lemma x87_fields_finite:
  assumes "unat dexp < 2047" "unat dmant < 2 ^ 52"
  shows "\<exists>mant e. x87_fields dexp dmant = Some (mant, e) \<and> unat e < 2 ^ 15
    \<and> scaled (unat mant) (int (unat e) - 16446) =
        (if dexp = 0 then scaled (unat dmant) (- 1074)
         else scaled (2 ^ 52 + unat dmant) (int (unat dexp) - 1075))"
proof (cases "dexp = 0")
  case False
  let ?E = "uint dexp - 1023 + 16383"
  have u: "uint dexp = int (unat dexp)" by simp
  have e: "unat (word_of_int ?E :: u16) = unat dexp + 15360"
  proof -
    have "0 \<le> ?E" "?E < 2 ^ 16" "nat ?E = unat dexp + 15360"
      using assms(1) unfolding u by (simp_all del: uint_nat nat_uint_eq of_nat_unat)
    then show ?thesis by (simp only: unat_exponent)
  qed
  have "scaled (2 ^ 63 + unat dmant * 2 ^ 11) (int (unat dexp + 15360) - 16446)
      = scaled ((2 ^ 52 + unat dmant) * 2 ^ 11) (int (unat dexp) - 1086)" by (simp add: algebra_simps)
  also have "\<dots> = scaled (2 ^ 52 + unat dmant) (int (unat dexp) - 1075)" by (simp only: scaled_shift) simp
  finally have v: "scaled (unat (push_bit 63 1 OR push_bit 11 dmant)) (int (unat (word_of_int ?E :: u16)) - 16446)
      = scaled (2 ^ 52 + unat dmant) (int (unat dexp) - 1075)"
    unfolding e unat_or_top [OF assms(2)] .
  have x: "x87_fields dexp dmant = Some (push_bit 63 1 OR push_bit 11 dmant, word_of_int ?E)"
    using False assms(1) by (auto simp: x87_fields_def Let_def)
  have "unat (word_of_int ?E :: u16) < 2 ^ 15" unfolding e using assms(1) by simp
  with v x show ?thesis unfolding if_not_P [OF False] by blast
next
  case z: True
  show ?thesis
  proof (cases "dmant = 0")
    case True
    with z show ?thesis by (simp add: x87_fields_def scaled_def)
  next
    case False
    from normalize_loop_spec [OF _ False, of 0] assms(2) obtain m d where
      n: "normalize_loop dmant 0 = Some (m, d)" "unat m = unat dmant * 2 ^ d" "2 ^ 52 \<le> unat m" "unat m < 2 ^ 53"
      by auto
    have "0 < unat dmant" using False by (simp add: unat_gt_0)
    then have "2 ^ d \<le> unat m" using n(2) by simp
    then have "(2::nat) ^ d < 2 ^ 53" using n(4) by simp
    then have d: "d < 53" by (rule power_less_imp_less_exp [rotated]) simp
    have e: "unat (word_of_int (1 - 1023 - int d + 16383) :: u16) = 15361 - d"
      using d by (subst unat_exponent) auto
    let ?m = "m AND NOT (push_bit 52 1)"
    have c: "unat ?m = unat m - 2 ^ 52" using unat_clear_top n by simp
    then have "unat ?m < 2 ^ 52" using n by simp
    then have t: "unat (push_bit 63 1 OR push_bit 11 ?m) = unat m * 2 ^ 11"
      using unat_or_top [of ?m] c n(3) by (simp add: diff_mult_distrib)
    have "scaled (unat m * 2 ^ 11) (int (15361 - d) - 16446) = scaled (unat dmant) (- 1074)"
      using d unfolding n(2) by (simp only: scaled_shift) (simp add: of_nat_diff)
    then have "scaled (unat (push_bit 63 1 OR push_bit 11 ?m))
        (int (unat (word_of_int (1 - 1023 - int d + 16383) :: u16)) - 16446) = scaled (unat dmant) (- 1074)"
      unfolding e t .
    moreover have "x87_fields dexp dmant =
        Some (push_bit 63 1 OR push_bit 11 ?m, word_of_int (1 - 1023 - int d + 16383))"
      using z False n(1) by (simp add: x87_fields_def Let_def)
    moreover have "unat (word_of_int (1 - 1023 - int d + 16383) :: u16) < 2 ^ 15" unfolding e by simp
    ultimately show ?thesis unfolding if_P [OF z] by blast
  qed
qed

lemma x87_bytes:
  assumes "unat e < 2 ^ 15" "s = of_nat n" "n < 2"
  defines "se \<equiv> ucast (push_bit 15 (s :: u64) OR ucast (e :: u16)) :: u16"
  shows "le_nat [ucast (se AND 0xff), ucast (drop_bit 8 se)] = n * 2 ^ 15 + unat e"
proof -
  have s: "unat s = n" using assms(2,3) by (simp add: unat_of_nat)
  have p: "unat (push_bit 15 s) = n * 2 ^ 15" using unat_shift [of s 15] s assms(3) by simp
  have ue: "unat (ucast e :: u64) = unat e"
    using assms(1) by (simp add: unsigned_ucast_eq take_bit_nat_def)
  have "push_bit 15 s AND ucast e = 0"
  proof (rule bit_eqI)
    fix i
    have "bit (ucast e :: u64) i \<Longrightarrow> i < 15"
    proof -
      assume "bit (ucast e :: u64) i"
      then have "bit (unat e) i" by (simp add: bit_simps)
      then have "2 ^ i \<le> unat e" unfolding bit_iff_odd by (metis div_less even_zero not_le)
      with assms(1) have "(2::nat) ^ i < 2 ^ 15" by linarith
      then show "i < 15" by (rule power_less_imp_less_exp [rotated]) simp
    qed
    then show "bit (push_bit 15 s AND ucast e) i = bit 0 i" by (auto simp: bit_simps)
  qed
  then have or: "push_bit 15 s OR ucast e = push_bit 15 s + ucast e" by (simp only: disjunctive_add_eq_or)
  have "unat (push_bit 15 s) + unat (ucast e :: u64) < 2 ^ LENGTH(64)" unfolding p ue using assms by simp
  then have "unat (push_bit 15 s OR ucast e :: u64) = n * 2 ^ 15 + unat e"
    unfolding or using p ue by (metis unat_add_lem)
  then have use: "unat se = n * 2 ^ 15 + unat e"
    using assms(1,3) by (simp add: se_def unsigned_ucast_eq take_bit_nat_def)
  have "[ucast (se AND 0xff), ucast (drop_bit 8 se)] = le_bytes 2 se"
  proof -
    have m: "(0xff :: u16) = mask 8" by (simp add: mask_eq_exp_minus_1)
    have "ucast (se AND 0xff) = (ucast se :: u8)"
      unfolding m by (rule bit_eqI) (auto simp: bit_simps simp del: mask_numeral)
    then show ?thesis by (simp add: le_bytes_def upt_rec)
  qed
  then have "le_nat [ucast (se AND 0xff), ucast (drop_bit 8 se)] = unat se mod 256 ^ 2" by (metis le_nat_le_bytes)
  with use assms(1,3) show ?thesis by simp
qed


lemma word_nat_inverse: "of_nat (unat w) = (w :: 'a::len word)"
  by simp

lemma f64_parts:
  "unat (drop_bit 63 db AND 1 :: u64) = f64_sign db"
  "unat (drop_bit 52 db AND 0x7ff :: u64) = f64_exp db"
  "unat (db AND 0xfffffffffffff :: u64) = f64_frac db"
proof -
  have m: "unat (w AND mask k :: u64) = unat w mod 2 ^ k" for w k
    by (simp only: take_bit_eq_mask [symmetric] unsigned_take_bit_eq take_bit_nat_def)
  have d: "unat (drop_bit k w :: u64) = unat w div 2 ^ k" for w k
    by (simp only: unat_drop_bit_eq drop_bit_nat_def)
  have "unat db < 2 ^ LENGTH(64)" by (rule unsigned_less)
  then have "unat db div 2 ^ 63 mod 2 ^ 1 = unat db div 2 ^ 63" by simp
  moreover have "unat (drop_bit 63 db AND mask 1 :: u64) = unat db div 2 ^ 63 mod 2 ^ 1" by (simp only: m d)
  moreover have "(mask 1 :: u64) = 1" by (simp add: mask_eq_exp_minus_1)
  ultimately show "unat (drop_bit 63 db AND 1 :: u64) = f64_sign db" by (simp only: f64_sign_def)
  have "unat (drop_bit 52 db AND mask 11 :: u64) = unat db div 2 ^ 52 mod 2 ^ 11" by (simp only: m d)
  moreover have "(mask 11 :: u64) = 0x7ff" by (simp add: mask_eq_exp_minus_1)
  ultimately show "unat (drop_bit 52 db AND 0x7ff :: u64) = f64_exp db" by (simp only: f64_exp_def)
  have "unat (db AND mask 52 :: u64) = unat db mod 2 ^ 52" by (simp only: m)
  moreover have "(mask 52 :: u64) = 0xfffffffffffff" by (simp add: mask_eq_exp_minus_1)
  ultimately show "unat (db AND 0xfffffffffffff :: u64) = f64_frac db" by (simp only: f64_frac_def)
qed

lemma x87_assemble:
  assumes "x87_fields (drop_bit 52 db AND 0x7ff) (db AND 0xfffffffffffff) = Some (mant, e)" "unat e < 2 ^ 15"
  shows "\<exists>out. f64_to_x87_extended db = Some out \<and> length out = 10 \<and> x87_mant out = unat mant
     \<and> x87_se out = f64_sign db * 2 ^ 15 + unat e"
proof -
  have "unat db < 2 ^ LENGTH(64)" by (rule unsigned_less)
  then have "f64_sign db < 2" unfolding f64_sign_def by simp
  moreover have "drop_bit 63 db AND 1 = of_nat (f64_sign db)"
    by (metis f64_parts(1) word_nat_inverse)
  moreover have "unat mant < 2 ^ LENGTH(64)" by (rule unsigned_less)
  then have "unat mant mod 256 ^ 8 = unat mant" by simp
  ultimately show ?thesis
    using x87_bytes [OF assms(2), of "drop_bit 63 db AND 1" "f64_sign db"] assms(1)
    by (simp add: f64_to_x87_extended_def Let_def x87_mant_def x87_se_def)
qed

text \<open>
  C21: Every finite double has its exact value in the emitted bytes: for a bit pattern whose
  exponent field is not all ones (zeros and subnormals included) the encoder returns, with ten
  bytes, and the extended-precision number they denote is the double's value, sign included.
\<close>

theorem x87_extended_exact:
  assumes "f64_exp db \<noteq> 2047"
  shows "\<exists>out. f64_to_x87_extended db = Some out \<and> length out = 10 \<and> x87_value out = f64_value db
     \<and> x87_se out div 2 ^ 15 = f64_sign db"
proof -
  let ?e = "drop_bit 52 db AND 0x7ff" and ?m = "db AND 0xfffffffffffff"
  have "f64_exp db < 2 ^ 11" "f64_frac db < 2 ^ 52" by (simp_all add: f64_exp_def f64_frac_def)
  then have "unat ?e < 2047" "unat ?m < 2 ^ 52" using assms unfolding f64_parts by auto
  from x87_fields_finite [OF this] obtain mant e where f: "x87_fields ?e ?m = Some (mant, e)" "unat e < 2 ^ 15"
    and v: "scaled (unat mant) (int (unat e) - 16446) =
        (if ?e = 0 then scaled (unat ?m) (- 1074) else scaled (2 ^ 52 + unat ?m) (int (unat ?e) - 1075))"
    by blast
  have z: "?e = 0 \<longleftrightarrow> f64_exp db = 0" by (metis f64_parts(2) unat_eq_0)
  from x87_assemble [OF f] obtain out where out: "f64_to_x87_extended db = Some out" "length out = 10"
    "x87_mant out = unat mant" "x87_se out = f64_sign db * 2 ^ 15 + unat e" by blast
  have s: "x87_se out div 2 ^ 15 = f64_sign db" "x87_se out mod 2 ^ 15 = unat e" unfolding out(4) using f(2) by simp_all
  have "x87_value out = (- 1) ^ f64_sign db * scaled (unat mant) (int (unat e) - 16446)"
    unfolding x87_value_def s out(3) scaled_def by (simp add: mult.assoc)
  also have "\<dots> = (- 1) ^ f64_sign db * (if f64_exp db = 0 then scaled (f64_frac db) (- 1074)
      else scaled (2 ^ 52 + f64_frac db) (int (f64_exp db) - 1075))"
    unfolding v z f64_parts ..
  also have "\<dots> = f64_value db" unfolding f64_value_def scaled_def ..
  finally show ?thesis using out s by blast
qed

theorem x87_extended_exact_witness:
  "\<exists>out. f64_to_x87_extended 0x3ff8000000000000 = Some out \<and> length out = 10
     \<and> x87_value out = f64_value 0x3ff8000000000000
     \<and> x87_se out div 2 ^ 15 = f64_sign 0x3ff8000000000000"
  by (rule x87_extended_exact) (simp add: f64_exp_def)

text \<open>
  Infinities and NaNs stay what they are: a bit pattern whose exponent field is all ones is
  emitted with the extended exponent all ones, the explicit integer bit set and the fraction's
  bits kept, so a NaN never becomes an infinity, and the sign is preserved.
\<close>

lemma x87_extended_special:
  assumes "f64_exp db = 2047"
  shows "\<exists>out. f64_to_x87_extended db = Some out \<and> length out = 10
     \<and> x87_se out = f64_sign db * 2 ^ 15 + 0x7fff
     \<and> x87_mant out = 2 ^ 63 + f64_frac db * 2 ^ 11"
proof -
  let ?m = "db AND 0xfffffffffffff"
  have e: "drop_bit 52 db AND 0x7ff = (2047 :: u64)"
    using f64_parts(2) [of db] assms by (metis word_nat_inverse of_nat_numeral)
  have f: "unat ?m < 2 ^ 52" unfolding f64_parts by (simp add: f64_frac_def)
  have "x87_fields (drop_bit 52 db AND 0x7ff) ?m = Some (push_bit 63 1 OR push_bit 11 ?m, 0x7fff)"
    unfolding e by (simp add: x87_fields_def)
  from x87_assemble [OF this] show ?thesis unfolding unat_or_top [OF f] f64_parts by auto
qed

lemma x87_extended_special_witness:
  "\<exists>out. f64_to_x87_extended 0xfff0000000000001 = Some out \<and> length out = 10
     \<and> x87_se out = f64_sign 0xfff0000000000001 * 2 ^ 15 + 0x7fff
     \<and> x87_mant out = 2 ^ 63 + f64_frac 0xfff0000000000001 * 2 ^ 11"
  by (rule x87_extended_special) (simp add: f64_exp_def)

end
