(* ===== verification/Elf_Object.thy ===== *)
theory Elf_Object
  imports Le_Bytes
begin

text \<open>
  Relocatable objects as the internal linker reads them, \<^verbatim>\<open>parse_object\<close> of
  \<^verbatim>\<open>src/src/linker.c\<close>: sections with a private copy of their data, symbols and the relocations
  attached to the section they patch.

  A file image is the list of its bytes.  A read outside the image is undefined behaviour in C
  and the value \<open>Bad_Read\<close> here; a name is read where its pointer is formed, so an object
  with a name that is not a terminated string inside the image is a \<open>Bad_Read\<close> as well.
  Allocation is taken not to fail, as the code does.
\<close>

datatype link_error = Fatal string | Bad_Read | Bad_Write | Bad_Index | Undefined_Symbol string
  | Unsupported_Reloc u32 | Entry_Not_Found string

definition SHT_PROGBITS :: u32 where "SHT_PROGBITS = 1"
definition SHT_SYMTAB :: u32 where "SHT_SYMTAB = 2"
definition SHT_RELA :: u32 where "SHT_RELA = 4"
definition SHT_NOBITS :: u32 where "SHT_NOBITS = 8"
definition SHF_WRITE :: u64 where "SHF_WRITE = 1"
definition SHF_ALLOC :: u64 where "SHF_ALLOC = 2"
definition SHF_EXECINSTR :: u64 where "SHF_EXECINSTR = 4"
definition STB_LOCAL :: u8 where "STB_LOCAL = 0"
definition STB_GLOBAL :: u8 where "STB_GLOBAL = 1"
definition STB_WEAK :: u8 where "STB_WEAK = 2"
definition STT_OBJECT :: u8 where "STT_OBJECT = 1"
definition STT_FUNC :: u8 where "STT_FUNC = 2"
definition STT_SECTION :: u8 where "STT_SECTION = 3"
definition STT_FILE :: u8 where "STT_FILE = 4"
definition SHN_UNDEF :: u16 where "SHN_UNDEF = 0"
definition SHN_ABS :: u16 where "SHN_ABS = 0xfff1"
definition SHN_COMMON :: u16 where "SHN_COMMON = 0xfff2"

lemmas elf_consts = SHT_PROGBITS_def SHT_SYMTAB_def SHT_RELA_def SHT_NOBITS_def SHF_WRITE_def
  SHF_ALLOC_def SHF_EXECINSTR_def STB_LOCAL_def STB_GLOBAL_def STB_WEAK_def STT_OBJECT_def
  STT_FUNC_def STT_SECTION_def STT_FILE_def SHN_UNDEF_def SHN_ABS_def SHN_COMMON_def

subsection \<open>Readers\<close>

definition rd_bytes :: "u8 list \<Rightarrow> nat \<Rightarrow> nat \<Rightarrow> link_error + u8 list" where
  "rd_bytes img off n = (if off + n \<le> length img then Inr (take n (drop off img)) else Inl Bad_Read)"

definition rd16 :: "u8 list \<Rightarrow> nat \<Rightarrow> link_error + u16" where
  "rd16 img off = bnd (rd_bytes img off 2) (\<lambda>bs. Inr (le_word bs))"

definition rd32 :: "u8 list \<Rightarrow> nat \<Rightarrow> link_error + u32" where
  "rd32 img off = bnd (rd_bytes img off 4) (\<lambda>bs. Inr (le_word bs))"

definition rd64 :: "u8 list \<Rightarrow> nat \<Rightarrow> link_error + u64" where
  "rd64 img off = bnd (rd_bytes img off 8) (\<lambda>bs. Inr (le_word bs))"

definition chr8 :: "u8 \<Rightarrow> char" where "chr8 b = char_of (unat b)"

definition cstr :: "u8 list \<Rightarrow> nat \<Rightarrow> link_error + string" where
  "cstr img off =
     (if 0 \<in> set (drop off img) then Inr (map chr8 (takeWhile (\<lambda>b. b \<noteq> 0) (drop off img))) else Inl Bad_Read)"

definition c_int :: "u64 \<Rightarrow> int" where "c_int w = sint (ucast w :: u32)"

subsection \<open>C strings inside an image\<close>

text \<open>The bytes of a C string, terminator included, and reading them back.\<close>

definition c_string :: "string \<Rightarrow> u8 list" where
  "c_string s = map (\<lambda>c. of_nat (of_char c)) s @ [0]"

definition c_text :: "string \<Rightarrow> bool" where
  "c_text s \<longleftrightarrow> CHR 0x00 \<notin> set s"

lemma chr8_of_char [simp]: "chr8 (of_nat (of_char c)) = c"
proof -
  have "(of_char c :: nat) < 256" by simp
  then show ?thesis by (simp add: chr8_def unat_of_nat)
qed

lemma byte_of_char_0: "(of_nat (of_char c) :: u8) = 0 \<longleftrightarrow> c = CHR 0x00"
proof
  assume "(of_nat (of_char c) :: u8) = 0"
  then have "chr8 (of_nat (of_char c)) = chr8 0" by (rule arg_cong)
  then show "c = CHR 0x00" unfolding chr8_of_char by (simp add: chr8_def char_of_def)
qed simp

lemma cstr_c_string:
  assumes "drop off img = c_string s @ rest" "c_text s"
  shows "cstr img off = Inr s"
proof -
  have "\<forall>b\<in>set (map (\<lambda>c. of_nat (of_char c) :: u8) s). b \<noteq> 0"
    using assms(2) by (auto simp: c_text_def byte_of_char_0)
  then have "takeWhile (\<lambda>b. b \<noteq> 0) (c_string s @ rest) = map (\<lambda>c. of_nat (of_char c)) s"
    by (induction s) (auto simp: c_string_def)
  then show ?thesis using assms(1) by (simp add: cstr_def c_string_def comp_def)
qed

subsection \<open>The model of an object\<close>

record rela =
  rel_off :: u64
  rel_sym :: u32
  rel_type :: u32
  rel_add :: u64

datatype out_slot = OUT_TEXT | OUT_RODATA | OUT_DATA | OUT_INIT_ARRAY | OUT_BSS | OUT_DISCARD

record sec =
  sec_name :: string
  sec_type :: u32
  sec_flags :: u64
  sec_size :: u64
  sec_align :: u64
  sec_data :: "u8 list option"
  sec_rel :: "rela list"
  sec_out :: out_slot
  sec_va :: u64

record sym =
  sym_name :: string
  sym_value :: u64
  sym_size :: u64
  sym_shndx :: u16
  sym_bind :: u8
  sym_type :: u8

record obj =
  o_name :: string
  o_secs :: "sec list"
  o_syms :: "sym list"

definition strncmp_eq :: "string \<Rightarrow> string \<Rightarrow> bool" where
  "strncmp_eq s prefix \<longleftrightarrow> take (length prefix) s = prefix"

definition classify_section :: "string \<Rightarrow> u32 \<Rightarrow> u64 \<Rightarrow> out_slot" where
  "classify_section name ty flags =
     (if flags AND SHF_ALLOC = 0 then OUT_DISCARD
      else if ty = SHT_NOBITS then OUT_BSS
      else if strncmp_eq name ''.init_array'' \<or> strncmp_eq name ''.preinit_array''
           \<or> strncmp_eq name ''.fini_array'' then OUT_INIT_ARRAY
      else if flags AND SHF_EXECINSTR \<noteq> 0 then OUT_TEXT
      else if flags AND SHF_WRITE \<noteq> 0 then OUT_DATA
      else OUT_RODATA)"

subsection \<open>Parsing\<close>

definition parse_section :: "u8 list \<Rightarrow> nat \<Rightarrow> nat \<Rightarrow> link_error + sec" where
  "parse_section img shstrtab shp =
     bnd (rd32 img shp) (\<lambda>nm.
     bnd (cstr img (shstrtab + unat nm)) (\<lambda>name.
     bnd (rd32 img (shp + 4)) (\<lambda>ty.
     bnd (rd64 img (shp + 8)) (\<lambda>flags.
     bnd (rd64 img (shp + 24)) (\<lambda>offset.
     bnd (rd64 img (shp + 32)) (\<lambda>sz.
     bnd (rd64 img (shp + 48)) (\<lambda>al.
     bnd (if ty = SHT_NOBITS then Inr None
          else if sz \<noteq> 0 then bnd (rd_bytes img (unat offset) (unat sz)) (\<lambda>d. Inr (Some d))
          else Inr None) (\<lambda>data.
     Inr \<lparr>sec_name = name, sec_type = ty, sec_flags = flags, sec_size = sz,
          sec_align = (if al = 0 then 1 else al), sec_data = data, sec_rel = [],
          sec_out = classify_section name ty flags, sec_va = 0\<rparr>))))))))"

definition symtab_index :: "sec list \<Rightarrow> nat option" where
  "symtab_index secs =
     (case filter (\<lambda>i. sec_type (secs ! i) = SHT_SYMTAB) (rev [0..<length secs]) of
        [] \<Rightarrow> None | i # _ \<Rightarrow> Some i)"

definition entry_count :: "u64 \<Rightarrow> u64 \<Rightarrow> nat" where
  "entry_count sz entsize = nat (c_int (sz div entsize))"

definition parse_symbol :: "u8 list \<Rightarrow> nat \<Rightarrow> nat \<Rightarrow> link_error + sym" where
  "parse_symbol img strtab sp =
     bnd (rd32 img sp) (\<lambda>nm.
     bnd (cstr img (strtab + unat nm)) (\<lambda>name.
     bnd (rd_bytes img (sp + 4) 1) (\<lambda>info.
     bnd (rd16 img (sp + 6)) (\<lambda>shndx.
     bnd (rd64 img (sp + 8)) (\<lambda>value.
     bnd (rd64 img (sp + 16)) (\<lambda>sz.
     Inr \<lparr>sym_name = name, sym_value = value, sym_size = sz, sym_shndx = shndx,
          sym_bind = drop_bit 4 (hd info), sym_type = hd info AND 0xf\<rparr>))))))"

definition parse_symtab :: "u8 list \<Rightarrow> nat \<Rightarrow> nat \<Rightarrow> nat \<Rightarrow> link_error + sym list" where
  "parse_symtab img sh shentsize symtab_idx =
     (let shp = sh + symtab_idx * shentsize in
      bnd (rd64 img (shp + 24)) (\<lambda>off.
      bnd (rd64 img (shp + 32)) (\<lambda>sz.
      bnd (rd64 img (shp + 56)) (\<lambda>es.
      let entsize = (if es = 0 then 24 else es) in
      bnd (rd32 img (shp + 40)) (\<lambda>link.
      bnd (rd64 img (sh + unat link * shentsize + 24)) (\<lambda>strtab.
      traverse (\<lambda>i. parse_symbol img (unat strtab) (unat off + i * unat entsize))
        [0..<entry_count sz entsize]))))))"

definition parse_rela :: "u8 list \<Rightarrow> nat \<Rightarrow> link_error + rela" where
  "parse_rela img rp =
     bnd (rd64 img (rp + 8)) (\<lambda>rinfo.
     bnd (rd64 img rp) (\<lambda>off.
     bnd (rd64 img (rp + 16)) (\<lambda>add.
     Inr \<lparr>rel_off = off, rel_sym = ucast (drop_bit 32 rinfo), rel_type = ucast (rinfo AND 0xffffffff),
          rel_add = add\<rparr>)))"

definition attach_relas :: "u8 list \<Rightarrow> nat \<Rightarrow> nat \<Rightarrow> nat \<Rightarrow> sec list \<Rightarrow> link_error + sec list" where
  "attach_relas img sh shentsize i secs =
     (let shp = sh + i * shentsize in
      bnd (rd32 img (shp + 4)) (\<lambda>ty.
      if ty \<noteq> SHT_RELA then Inr secs
      else
        bnd (rd32 img (shp + 44)) (\<lambda>info.
        if unat info \<ge> length secs then Inr secs
        else
          bnd (rd64 img (shp + 24)) (\<lambda>off.
          bnd (rd64 img (shp + 32)) (\<lambda>sz.
          bnd (rd64 img (shp + 56)) (\<lambda>es.
          let entsize = (if es = 0 then 24 else es) in
          bnd (traverse (\<lambda>r. parse_rela img (unat off + r * unat entsize)) [0..<entry_count sz entsize]) (\<lambda>rel.
          Inr (secs[unat info := (secs ! unat info)\<lparr>sec_rel := rel\<rparr>]))))))))"

definition elf_magic :: "u8 list" where "elf_magic = [0x7f, 0x45, 0x4c, 0x46]"

definition parse_object :: "string \<Rightarrow> u8 list \<Rightarrow> int \<Rightarrow> link_error + obj" where
  "parse_object name img imgsz =
     (if imgsz < 64 then Inl (Fatal ''linker: not an ELF64 object'')
      else
      bnd (rd_bytes img 0 5) (\<lambda>ident.
      if take 4 ident \<noteq> elf_magic \<or> ident ! 4 \<noteq> 2 then Inl (Fatal ''linker: not an ELF64 object'')
      else
      bnd (rd64 img 40) (\<lambda>e_shoff.
      bnd (rd16 img 58) (\<lambda>e_shentsize.
      bnd (rd16 img 60) (\<lambda>e_shnum.
      bnd (rd16 img 62) (\<lambda>e_shstrndx.
      let sh = unat e_shoff; es = unat e_shentsize in
      bnd (rd64 img (sh + unat e_shstrndx * es + 24)) (\<lambda>shstrtab.
      bnd (traverse (\<lambda>i. parse_section img (unat shstrtab) (sh + i * es)) [0..<unat e_shnum]) (\<lambda>secs.
      bnd (case symtab_index secs of None \<Rightarrow> Inr [] | Some i \<Rightarrow> parse_symtab img sh es i) (\<lambda>syms.
      bnd (fold_err (attach_relas img sh es) [0..<unat e_shnum] secs) (\<lambda>secs'.
      Inr \<lparr>o_name = name, o_secs = secs', o_syms = syms\<rparr>))))))))))"

subsection \<open>What a parsed object satisfies\<close>

text \<open>A section has data exactly when it occupies bytes of the file, as many as its size says, and
  its output slot is the one its name, type and flags call for.\<close>

definition sec_ok :: "sec \<Rightarrow> bool" where
  "sec_ok s \<longleftrightarrow> sec_out s = classify_section (sec_name s) (sec_type s) (sec_flags s)
     \<and> (case sec_data s of
          None \<Rightarrow> sec_type s = SHT_NOBITS \<or> sec_size s = 0
        | Some d \<Rightarrow> sec_type s \<noteq> SHT_NOBITS \<and> sec_size s \<noteq> 0 \<and> length d = unat (sec_size s))"

definition obj_ok :: "obj \<Rightarrow> bool" where
  "obj_ok ob \<longleftrightarrow> list_all sec_ok (o_secs ob)"

lemma rd_bytes_length: "rd_bytes img off n = Inr bs \<Longrightarrow> length bs = n"
  by (auto simp: rd_bytes_def split: if_splits)

lemma parse_section_ok: "parse_section img shstrtab shp = Inr s \<Longrightarrow> sec_ok s"
  by (auto simp: parse_section_def sec_ok_def rd_bytes_length split: if_splits)

lemma sec_ok_rel: "sec_ok (s\<lparr>sec_rel := rel\<rparr>) = sec_ok s"
  by (cases "sec_data s") (simp_all add: sec_ok_def)

lemma attach_relas_ok:
  assumes "attach_relas img sh es i secs = Inr secs'" "list_all sec_ok secs"
  shows "list_all sec_ok secs'"
proof -
  have "list_all sec_ok (secs[j := (secs ! j)\<lparr>sec_rel := rel\<rparr>])" if "j < length secs" for j rel
    using assms(2) that sec_ok_rel by (auto simp: list_all_length nth_list_update)
  then show ?thesis using assms by (auto simp: attach_relas_def Let_def split: if_splits)
qed

lemma parse_object_ok: "parse_object name img imgsz = Inr ob \<Longrightarrow> obj_ok ob"
proof -
  assume "parse_object name img imgsz = Inr ob"
  then obtain n shstrtab sh es secs secs' where
    secs: "traverse (\<lambda>i. parse_section img shstrtab (sh + i * es)) [0..<n] = Inr secs"
    and rel: "fold_err (attach_relas img sh es) [0..<n] secs = Inr secs'" and ob: "o_secs ob = secs'"
    by (auto simp: parse_object_def Let_def split: if_splits)
  have "list_all sec_ok secs"
    using traverse_all2 [OF secs] parse_section_ok by (auto simp: list_all_length list_all2_conv_all_nth)
  then have "list_all sec_ok secs'"
    by (rule fold_err_invariant [OF rel]) (rule attach_relas_ok)
  then show ?thesis by (simp add: obj_ok_def ob)
qed

end
