(* ===== verification/Link_Resolve.thy ===== *)
theory Link_Resolve
  imports Elf_Object
begin

text \<open>
  Symbol resolution in the internal linker (\<^verbatim>\<open>src/src/linker.c\<close>): the table of global
  definitions kept by \<^verbatim>\<open>include_object\<close>, archives with their symbol index
  (\<^verbatim>\<open>archive_load\<close>, \<^verbatim>\<open>archive_member_at\<close>) and the passes that pull in archive members
  until no undefined symbol can be satisfied (\<^verbatim>\<open>resolve_pass\<close>).

  An object is identified by its position in the list of included objects, a \<open>GlobalDef\<close> is
  that position and a symbol index.  Every parsed object is included once, at the place where the
  code sets its \<^verbatim>\<open>included\<close> flag, so an archive's cache maps a member offset to the position of
  the object it became.  The string tables (\<^verbatim>\<open>globals\<close>, \<^verbatim>\<open>symmap\<close>, \<^verbatim>\<open>parsed\<close>) are finite maps,
  which is what the hash map component proves about their implementation.
\<close>

type_synonym global_def = "nat \<times> nat"

record linker =
  lk_objs :: "obj list"
  lk_globals :: "string \<Rightarrow> global_def option"
  lk_init_start :: u64
  lk_init_end :: u64

definition linker_init :: linker where
  "linker_init = \<lparr>lk_objs = [], lk_globals = Map.empty, lk_init_start = 0, lk_init_end = 0\<rparr>"

definition sym_at :: "obj list \<Rightarrow> global_def \<Rightarrow> sym" where
  "sym_at objs d = o_syms (objs ! fst d) ! snd d"

definition defines_global :: "sym \<Rightarrow> bool" where
  "defines_global y \<longleftrightarrow> sym_bind y \<noteq> STB_LOCAL \<and> sym_shndx y \<noteq> SHN_UNDEF \<and> sym_name y \<noteq> []"

definition register_symbol ::
  "obj list \<Rightarrow> global_def \<Rightarrow> (string \<Rightarrow> global_def option) \<Rightarrow> string \<Rightarrow> global_def option" where
  "register_symbol objs d globals =
     (let y = sym_at objs d in
      if \<not> defines_global y then globals
      else (case globals (sym_name y) of
              Some gd \<Rightarrow>
                if sym_bind y = STB_GLOBAL \<and> sym_bind (sym_at objs gd) = STB_WEAK
                then globals(sym_name y \<mapsto> d) else globals
            | None \<Rightarrow> globals(sym_name y \<mapsto> d)))"

definition object_symbols :: "nat \<Rightarrow> obj \<Rightarrow> global_def list" where
  "object_symbols oi obj = map (Pair oi) [0..<length (o_syms obj)]"

definition include_object :: "linker \<Rightarrow> obj \<Rightarrow> linker" where
  "include_object lk obj =
     (let objs = lk_objs lk @ [obj]
      in lk\<lparr>lk_objs := objs,
           lk_globals := fold (register_symbol objs) (object_symbols (length (lk_objs lk)) obj) (lk_globals lk)\<rparr>)"

subsection \<open>Archives\<close>

record archive =
  ar_img :: "u8 list"
  ar_symmap :: "string \<Rightarrow> int option"
  ar_parsed :: "int \<Rightarrow> nat option"
  ar_longnames :: "nat option"

definition rd32be :: "u8 list \<Rightarrow> nat \<Rightarrow> link_error + nat" where
  "rd32be img off = bnd (rd_bytes img off 4) (\<lambda>bs. Inr (le_nat (rev bs)))"

fun load_symbols :: "u8 list \<Rightarrow> nat \<Rightarrow> nat \<Rightarrow> nat \<Rightarrow> (string \<Rightarrow> int option) \<Rightarrow> link_error + (string \<Rightarrow> int option)" where
  "load_symbols img offs np 0 m = Inr m"
| "load_symbols img offs np (Suc n) m =
     bnd (rd32be img offs) (\<lambda>moff.
     bnd (cstr img np) (\<lambda>name.
     load_symbols img (offs + 4) (np + length name + 1) n
       (case m name of None \<Rightarrow> m(name \<mapsto> int moff + 1) | Some _ \<Rightarrow> m)))"

definition member_size :: "u8 list \<Rightarrow> nat \<Rightarrow> link_error + int" where
  "member_size img h = bnd (rd_bytes img (h + 48) 10) (\<lambda>sz. Inr (strtol10 (map chr8 (takeWhile (\<lambda>b. b \<noteq> 0) sz))))"

definition load_member :: "nat \<Rightarrow> archive \<Rightarrow> link_error + archive" where
  "load_member p ar =
     (let img = ar_img ar; data_off = p + 60 in
      bnd (rd_bytes img p 16) (\<lambda>nm.
      if take 2 nm = [0x2f, 0x20] then
        bnd (rd32be img data_off) (\<lambda>cnt.
        bnd (load_symbols img (data_off + 4) (data_off + 4 + cnt * 4) cnt (ar_symmap ar)) (\<lambda>m.
        Inr (ar\<lparr>ar_symmap := m\<rparr>)))
      else if take 2 nm = [0x2f, 0x2f] then Inr (ar\<lparr>ar_longnames := Some data_off\<rparr>)
      else Inr ar))"

partial_function (option) archive_loop :: "int \<Rightarrow> int \<Rightarrow> archive \<Rightarrow> (link_error + archive) option" where
  "archive_loop imgsz p ar =
     (if p + 60 > imgsz then Some (Inr ar)
      else if p < 0 then Some (Inl Bad_Read)
      else (case member_size (ar_img ar) (nat p) of
          Inl e \<Rightarrow> Some (Inl e)
        | Inr msize \<Rightarrow>
          (case load_member (nat p) ar of
             Inl e \<Rightarrow> Some (Inl e)
           | Inr ar' \<Rightarrow>
             (let q = p + 60 + msize
              in archive_loop imgsz (if q mod 2 = 1 then q + 1 else q) ar'))))"

declare archive_loop.simps [code]

definition ar_magic :: "u8 list" where
  "ar_magic = [0x21, 0x3c, 0x61, 0x72, 0x63, 0x68, 0x3e, 0x0a]"

definition archive_load :: "u8 list \<Rightarrow> (link_error + archive) option" where
  "archive_load img =
     (if length img < 8 \<or> take 8 img \<noteq> ar_magic then Some (Inl (Fatal ''linker: bad archive magic''))
      else archive_loop (int (length img)) 8
             \<lparr>ar_img = img, ar_symmap = Map.empty, ar_parsed = Map.empty, ar_longnames = None\<rparr>)"

datatype member = Loaded nat | Fresh obj

definition archive_member_at :: "archive \<Rightarrow> int \<Rightarrow> link_error + member" where
  "archive_member_at ar hdr_off =
     (case ar_parsed ar hdr_off of
        Some i \<Rightarrow> Inr (Loaded i)
      | None \<Rightarrow>
        (if hdr_off < 0 then Inl Bad_Read
         else
           let img = ar_img ar; h = nat hdr_off in
           bnd (member_size img h) (\<lambda>msize.
           bnd (rd_bytes img h 16) (\<lambda>nm.
           bnd (case ar_longnames ar of
                  Some ln \<Rightarrow>
                    (if nm ! 0 = 0x2f \<and> is_dec_digit (chr8 (nm ! 1))
                     then cstr img (nat (int ln + strtol10 (map chr8 (takeWhile (\<lambda>b. b \<noteq> 0) (tl nm)))))
                     else Inr ''archive-member'')
                | None \<Rightarrow> Inr ''archive-member'') (\<lambda>mname.
           bnd (parse_object mname (drop (h + 60) img) msize) (\<lambda>obj. Inr (Fresh obj)))))))"

subsection \<open>Resolution\<close>

definition undefined_symbol :: "sym \<Rightarrow> bool" where
  "undefined_symbol y \<longleftrightarrow> sym_shndx y = SHN_UNDEF \<and> sym_bind y \<noteq> STB_LOCAL \<and> sym_name y \<noteq> []"

fun find_archive :: "archive list \<Rightarrow> string \<Rightarrow> nat \<Rightarrow> (nat \<times> int) option" where
  "find_archive [] name a = None"
| "find_archive (ar # ars) name a =
     (case ar_symmap ar name of
        Some v \<Rightarrow> if v = 0 then find_archive ars name (Suc a) else Some (a, v - 1)
      | None \<Rightarrow> find_archive ars name (Suc a))"

record resolver =
  rs_lk :: linker
  rs_archives :: "archive list"
  rs_progress :: bool

definition resolve_symbol :: "sym \<Rightarrow> resolver \<Rightarrow> link_error + resolver" where
  "resolve_symbol y rs =
     (if \<not> undefined_symbol y then Inr rs
      else if lk_globals (rs_lk rs) (sym_name y) \<noteq> None then Inr rs
      else (case find_archive (rs_archives rs) (sym_name y) 0 of
          None \<Rightarrow> Inr rs
        | Some (a, off) \<Rightarrow>
          bnd (archive_member_at (rs_archives rs ! a) off) (\<lambda>m.
          case m of
            Loaded _ \<Rightarrow> Inr rs
          | Fresh obj \<Rightarrow>
            (let ar = rs_archives rs ! a;
                 ar' = ar\<lparr>ar_parsed := (ar_parsed ar)(off \<mapsto> length (lk_objs (rs_lk rs)))\<rparr>
             in Inr (rs\<lparr>rs_lk := include_object (rs_lk rs) obj,
                        rs_archives := (rs_archives rs)[a := ar'],
                        rs_progress := True\<rparr>)))))"

partial_function (option) resolve_objects :: "nat \<Rightarrow> resolver \<Rightarrow> (link_error + resolver) option" where
  "resolve_objects oi rs =
     (if oi < length (lk_objs (rs_lk rs)) then
        (case fold_err resolve_symbol (o_syms (lk_objs (rs_lk rs) ! oi)) rs of
           Inl e \<Rightarrow> Some (Inl e)
         | Inr rs' \<Rightarrow> resolve_objects (Suc oi) rs')
      else Some (Inr rs))"

declare resolve_objects.simps [code]

definition resolve_pass :: "resolver \<Rightarrow> (link_error + resolver) option" where
  "resolve_pass rs = resolve_objects 0 (rs\<lparr>rs_progress := False\<rparr>)"

partial_function (option) resolve_all :: "resolver \<Rightarrow> (link_error + resolver) option" where
  "resolve_all rs =
     (case resolve_pass rs of
        None \<Rightarrow> None
      | Some (Inl e) \<Rightarrow> Some (Inl e)
      | Some (Inr rs') \<Rightarrow> if rs_progress rs' then resolve_all rs' else Some (Inr rs'))"

declare resolve_all.simps [code]

definition sym_addr :: "linker \<Rightarrow> nat \<Rightarrow> nat \<Rightarrow> link_error + u64 option" where
  "sym_addr lk oi symidx =
     (if symidx \<ge> length (o_syms (lk_objs lk ! oi)) then Inl Bad_Index
      else
        let obj = lk_objs lk ! oi; y = o_syms obj ! symidx;
            in_section = (\<lambda>ob d. if unat (sym_shndx d) < length (o_secs ob)
                                then Some (sec_va (o_secs ob ! unat (sym_shndx d)) + sym_value d) else None)
        in Inr (if sym_bind y = STB_LOCAL \<or> sym_type y = STT_SECTION then
                  (if sym_shndx y = SHN_ABS then Some (sym_value y) else in_section obj y)
                else if sym_name y = ''__init_array_start'' then Some (lk_init_start lk)
                else if sym_name y = ''__init_array_end'' then Some (lk_init_end lk)
                else (case lk_globals lk (sym_name y) of
                        Some gd \<Rightarrow>
                          (let d = sym_at (lk_objs lk) gd
                           in if sym_shndx d = SHN_ABS then Some (sym_value d)
                              else in_section (lk_objs lk ! fst gd) d)
                      | None \<Rightarrow> if sym_shndx y \<noteq> SHN_UNDEF then in_section obj y else None)))"

subsection \<open>Which definition a name resolves to\<close>

definition all_symbols :: "obj list \<Rightarrow> global_def list" where
  "all_symbols objs = concat (map (\<lambda>oi. object_symbols oi (objs ! oi)) [0..<length objs])"

definition definitions_of :: "obj list \<Rightarrow> string \<Rightarrow> global_def list" where
  "definitions_of objs name =
     filter (\<lambda>d. defines_global (sym_at objs d) \<and> sym_name (sym_at objs d) = name) (all_symbols objs)"

definition is_strong :: "obj list \<Rightarrow> global_def \<Rightarrow> bool" where
  "is_strong objs d \<longleftrightarrow> sym_bind (sym_at objs d) = STB_GLOBAL"

definition preferred :: "(global_def \<Rightarrow> bool) \<Rightarrow> global_def list \<Rightarrow> global_def option" where
  "preferred strong ds = (case filter strong ds of d # _ \<Rightarrow> Some d | [] \<Rightarrow> (case ds of d # _ \<Rightarrow> Some d | [] \<Rightarrow> None))"

definition binds_ok :: "obj \<Rightarrow> bool" where
  "binds_ok ob \<longleftrightarrow> list_all (\<lambda>y. sym_bind y \<in> {STB_LOCAL, STB_GLOBAL, STB_WEAK}) (o_syms ob)"

lemma all_symbols_snoc: "all_symbols (objs @ [ob]) = all_symbols objs @ object_symbols (length objs) ob"
proof -
  have "map (\<lambda>oi. object_symbols oi ((objs @ [ob]) ! oi)) [0..<length objs]
      = map (\<lambda>oi. object_symbols oi (objs ! oi)) [0..<length objs]"
    by (rule map_cong) (simp_all add: nth_append)
  then show ?thesis by (simp add: all_symbols_def del: map_eq_conv)
qed

lemma all_symbols_valid: "d \<in> set (all_symbols objs) \<Longrightarrow> fst d < length objs \<and> snd d < length (o_syms (objs ! fst d))"
  by (auto simp: all_symbols_def object_symbols_def)

lemma sym_at_append: "fst d < length objs \<Longrightarrow> sym_at (objs @ rest) d = sym_at objs d"
  by (simp add: sym_at_def nth_append)

lemma register_range:
  "ran (fold (register_symbol objs) ds g) \<subseteq> ran g \<union> set ds"
proof (induction ds arbitrary: g)
  case (Cons d ds)
  have "ran (register_symbol objs d g) \<subseteq> ran g \<union> {d}"
    by (auto simp: register_symbol_def Let_def ran_def split: option.splits if_splits)
  with Cons.IH [of "register_symbol objs d g"] show ?case by auto
qed simp

lemma register_cong:
  "(\<And>d. d \<in> ran g \<union> set ds \<Longrightarrow> sym_at objs' d = sym_at objs d) \<Longrightarrow>
     fold (register_symbol objs') ds g = fold (register_symbol objs) ds g"
proof (induction ds arbitrary: g)
  case (Cons d ds)
  have "register_symbol objs' d g = register_symbol objs d g"
    using Cons.prems [of d] Cons.prems [OF UnI1, OF ranI]
    by (auto simp: register_symbol_def Let_def split: option.splits)
  moreover have "fold (register_symbol objs') ds (register_symbol objs d g) = fold (register_symbol objs) ds (register_symbol objs d g)"
    by (rule Cons.IH) (use Cons.prems register_range [of objs "[d]" g] in auto)
  ultimately show ?case by simp
qed simp

lemma included_globals:
  "lk_objs (foldl include_object linker_init objs) = objs
   \<and> lk_globals (foldl include_object linker_init objs) = fold (register_symbol objs) (all_symbols objs) Map.empty"
proof (induction objs rule: rev_induct)
  case (snoc ob objs)
  let ?g = "fold (register_symbol objs) (all_symbols objs) Map.empty"
  have same: "sym_at (objs @ [ob]) d = sym_at objs d" if "d \<in> set (all_symbols objs)" for d
    using all_symbols_valid [OF that] by (simp add: sym_at_append)
  then have "fold (register_symbol (objs @ [ob])) (all_symbols objs) Map.empty = ?g"
    by (intro register_cong) auto
  then show ?case using snoc by (simp add: include_object_def [where ?obj = ob] Let_def all_symbols_snoc)
qed (simp add: linker_init_def all_symbols_def)

lemma filter_hd: "filter P xs = e # es \<Longrightarrow> P e"
  by (auto dest: filter_eq_ConsD)

lemma preferred_snoc:
  "preferred strong (ds @ [d]) = (case preferred strong ds of None \<Rightarrow> Some d
     | Some e \<Rightarrow> if strong d \<and> \<not> strong e then Some d else Some e)"
proof (cases "filter strong ds")
  case Nil
  then have "\<forall>e \<in> set ds. \<not> strong e" by (simp add: filter_empty_conv)
  with Nil show ?thesis by (cases ds) (auto simp: preferred_def)
next
  case (Cons e es)
  then show ?thesis using filter_hd [OF Cons] by (simp add: preferred_def)
qed

lemma preferred_in: "preferred strong ds = Some d \<Longrightarrow> d \<in> set ds"
proof (cases "filter strong ds")
  case (Cons e es)
  then have "e \<in> set ds" by (metis filter_is_subset list.set_intros(1) subsetD)
  with Cons show "preferred strong ds = Some d \<Longrightarrow> d \<in> set ds" by (simp add: preferred_def)
qed (auto simp: preferred_def split: list.splits)

lemma register_preferred:
  assumes "\<forall>d \<in> set ds. sym_bind (sym_at objs d) \<in> {STB_LOCAL, STB_GLOBAL, STB_WEAK}"
  shows "fold (register_symbol objs) ds Map.empty name =
     preferred (is_strong objs) (filter (\<lambda>d. defines_global (sym_at objs d) \<and> sym_name (sym_at objs d) = name) ds)"
  using assms
proof (induction ds arbitrary: name rule: rev_induct)
  case (snoc d ds)
  let ?P = "\<lambda>n d. defines_global (sym_at objs d) \<and> sym_name (sym_at objs d) = n"
  let ?g = "fold (register_symbol objs) ds Map.empty" and ?y = "sym_at objs d"
  have IH: "?g n = preferred (is_strong objs) (filter (?P n) ds)" for n using snoc by simp
  have step: "fold (register_symbol objs) (ds @ [d]) Map.empty = register_symbol objs d ?g" by simp
  show ?case
  proof (cases "?P name d")
    case False
    then have "register_symbol objs d ?g name = ?g name"
      by (auto simp: register_symbol_def Let_def split: option.splits)
    moreover have "filter (?P name) (ds @ [d]) = filter (?P name) ds" using False by auto
    ultimately show ?thesis unfolding step using IH by simp
  next
    case True
    show ?thesis
    proof (cases "?g name")
      case None
      then have "register_symbol objs d ?g name = Some d" using True by (auto simp: register_symbol_def Let_def)
      with True None show ?thesis unfolding step IH by (simp add: preferred_snoc)
    next
      case (Some e)
      have "e \<in> set (filter (?P name) ds)" using Some IH preferred_in by metis
      then have "e \<in> set ds" "sym_bind (sym_at objs e) \<noteq> STB_LOCAL" by (auto simp: defines_global_def)
      then have weak: "sym_bind (sym_at objs e) = STB_WEAK \<longleftrightarrow> \<not> is_strong objs e"
        using snoc.prems by (auto simp: is_strong_def elf_consts)
      have "register_symbol objs d ?g name = (if is_strong objs d \<and> \<not> is_strong objs e then Some d else Some e)"
        using True Some weak by (auto simp: register_symbol_def Let_def is_strong_def)
      with True Some show ?thesis unfolding step IH by (simp add: preferred_snoc)
    qed
  qed
qed (simp add: preferred_def)

subsection \<open>Resolution ends, and at a closed set of objects\<close>

definition open_members :: "archive \<Rightarrow> int set" where
  "open_members ar = {off. ar_parsed ar off = None \<and> Some (off + 1) \<in> range (ar_symmap ar)}"

definition pending :: "archive list \<Rightarrow> nat" where
  "pending ars = sum_list (map (\<lambda>ar. card (open_members ar)) ars)"

definition archive_ok :: "nat \<Rightarrow> archive \<Rightarrow> bool" where
  "archive_ok n ar \<longleftrightarrow> finite (dom (ar_symmap ar)) \<and> (\<forall>i \<in> ran (ar_parsed ar). i < n)"

definition resolver_ok :: "resolver \<Rightarrow> bool" where
  "resolver_ok rs \<longleftrightarrow> list_all (archive_ok (length (lk_objs (rs_lk rs)))) (rs_archives rs)"

text \<open>What a step may do: nothing, or include one more object for an archive member less.\<close>

definition res_step :: "resolver \<Rightarrow> resolver \<Rightarrow> bool" where
  "res_step rs rs' \<longleftrightarrow> rs' = rs \<or>
     rs_progress rs' \<and> pending (rs_archives rs') < pending (rs_archives rs)
     \<and> pending (rs_archives rs') + length (lk_objs (rs_lk rs')) = pending (rs_archives rs) + length (lk_objs (rs_lk rs))
     \<and> (\<exists>new. list_all obj_ok new \<and> rs_lk rs' = foldl include_object (rs_lk rs) new)"

definition res_inv :: "resolver \<Rightarrow> resolver \<Rightarrow> bool" where
  "res_inv rs rs' \<longleftrightarrow> resolver_ok rs' \<and> res_step rs rs'"

lemma res_inv_refl: "resolver_ok rs \<Longrightarrow> res_inv rs rs"
  by (simp add: res_inv_def res_step_def)

lemma res_inv_trans: "res_inv a b \<Longrightarrow> res_inv b c \<Longrightarrow> res_inv a c"
proof -
  have "\<exists>c. list_all obj_ok c \<and> foldl include_object (foldl include_object lk as) bs = foldl include_object lk c"
    if "list_all obj_ok as" "list_all obj_ok bs" for lk as bs
    using that by (intro exI [of _ "as @ bs"]) simp
  then show "res_inv a b \<Longrightarrow> res_inv b c \<Longrightarrow> res_inv a c" unfolding res_inv_def res_step_def by fastforce
qed

lemma find_archive_found:
  "find_archive ars name k = Some (a, off) \<Longrightarrow>
     k \<le> a \<and> a - k < length ars \<and> ar_symmap (ars ! (a - k)) name = Some (off + 1)"
proof (induction ars name k rule: find_archive.induct)
  case (2 ar ars name k)
  show ?case
  proof (cases "ar_symmap ar name = None \<or> ar_symmap ar name = Some 0")
    case True
    then have "find_archive ars name (Suc k) = Some (a, off)" using 2(3) by auto
    then have "Suc k \<le> a \<and> a - Suc k < length ars \<and> ar_symmap (ars ! (a - Suc k)) name = Some (off + 1)"
      using True 2(1,2) by auto
    then show ?thesis by (auto simp: nth_Cons' Suc_diff_Suc)
  next
    case False
    then show ?thesis using 2(3) by auto
  qed
qed simp

lemma finite_open_members: "finite (dom (ar_symmap ar)) \<Longrightarrow> finite (open_members ar)"
proof -
  assume "finite (dom (ar_symmap ar))"
  then have "finite (ran (ar_symmap ar))" by (rule finite_ran)
  then have "finite ((\<lambda>v. v - 1) ` ran (ar_symmap ar))" by simp
  moreover have "open_members ar \<subseteq> (\<lambda>v. v - 1) ` ran (ar_symmap ar)"
  proof
    fix off assume "off \<in> open_members ar"
    then obtain n where "ar_symmap ar n = Some (off + 1)" by (auto simp: open_members_def)
    then have "off + 1 \<in> ran (ar_symmap ar)" by (rule ranI)
    then show "off \<in> (\<lambda>v. v - 1) ` ran (ar_symmap ar)" by force
  qed
  ultimately show ?thesis by (rule finite_subset [rotated])
qed

lemma pending_update:
  assumes "a < length ars" "off \<in> open_members (ars ! a)" "finite (open_members (ars ! a))"
  shows "pending (ars[a := (ars ! a)\<lparr>ar_parsed := (ar_parsed (ars ! a))(off \<mapsto> i)\<rparr>]) + 1 = pending ars"
proof -
  let ?ar = "(ars ! a)\<lparr>ar_parsed := (ar_parsed (ars ! a))(off \<mapsto> i)\<rparr>"
  have "open_members ?ar = open_members (ars ! a) - {off}" by (auto simp: open_members_def)
  then have c: "card (open_members ?ar) + 1 = card (open_members (ars ! a))"
    using assms(2,3) by (metis card_Suc_Diff1 Suc_eq_plus1)
  have s: "ars = take a ars @ ars ! a # drop (Suc a) ars" using assms(1) by (rule id_take_nth_drop)
  have "pending (ars[a := ?ar]) = pending (take a ars) + card (open_members ?ar) + pending (drop (Suc a) ars)"
    using assms(1) by (simp add: pending_def upd_conv_take_nth_drop)
  moreover have "pending ars = pending (take a ars) + card (open_members (ars ! a)) + pending (drop (Suc a) ars)"
    by (subst s) (simp add: pending_def)
  ultimately show ?thesis using c by simp
qed

lemma include_object_objs: "lk_objs (include_object lk ob) = lk_objs lk @ [ob]"
  by (simp add: include_object_def Let_def)

lemma archive_ok_mono: "archive_ok n ar \<Longrightarrow> n \<le> m \<Longrightarrow> archive_ok m ar"
  by (auto simp: archive_ok_def)

lemma resolve_symbol_step:
  assumes "resolver_ok rs" "resolve_symbol y rs = Inr rs'"
  shows "res_inv rs rs'"
proof (cases "rs' = rs")
  case False
  let ?n = "length (lk_objs (rs_lk rs))"
  from False assms(2) obtain a off ob where f: "find_archive (rs_archives rs) (sym_name y) 0 = Some (a, off)"
    "archive_member_at (rs_archives rs ! a) off = Inr (Fresh ob)"
    and rs': "rs' = rs\<lparr>rs_lk := include_object (rs_lk rs) ob,
        rs_archives := (rs_archives rs)[a := (rs_archives rs ! a)\<lparr>ar_parsed := (ar_parsed (rs_archives rs ! a))(off \<mapsto> ?n)\<rparr>],
        rs_progress := True\<rparr>"
    by (auto simp: resolve_symbol_def Let_def split: if_splits option.splits member.splits)
  from find_archive_found [OF f(1)] have a: "a < length (rs_archives rs)"
    "ar_symmap (rs_archives rs ! a) (sym_name y) = Some (off + 1)" by simp_all
  have "ar_parsed (rs_archives rs ! a) off = None"
    using f(2) by (auto simp: archive_member_at_def split: option.splits)
  with a(2) have off: "off \<in> open_members (rs_archives rs ! a)"
    by (simp add: open_members_def) (metis rangeI)
  have ok: "archive_ok ?n (rs_archives rs ! a)" using assms(1) a(1) by (simp add: resolver_ok_def list_all_length)
  then have "finite (open_members (rs_archives rs ! a))" by (simp add: archive_ok_def finite_open_members)
  note p = pending_update [OF a(1) off this, of ?n]
  let ?ar = "(rs_archives rs ! a)\<lparr>ar_parsed := (ar_parsed (rs_archives rs ! a))(off \<mapsto> ?n)\<rparr>"
  have ar: "archive_ok (Suc ?n) ?ar" using ok by (auto simp: archive_ok_def ran_def less_Suc_eq)
  have "archive_ok (Suc ?n) ((rs_archives rs)[a := ?ar] ! j)" if "j < length (rs_archives rs)" for j
    using that ar assms(1) archive_ok_mono [of ?n _ "Suc ?n"]
    by (cases "j = a") (simp_all add: resolver_ok_def list_all_length)
  then have "resolver_ok rs'"
    by (simp add: resolver_ok_def rs' include_object_objs list_all_length)
  moreover have "obj_ok ob" using f(2) by (auto simp: archive_member_at_def Let_def parse_object_ok split: option.splits if_splits)
  then have "\<exists>new. list_all obj_ok new \<and> include_object (rs_lk rs) ob = foldl include_object (rs_lk rs) new"
    by (intro exI [of _ "[ob]"]) simp
  ultimately show ?thesis using p by (simp add: res_inv_def res_step_def rs' include_object_objs)
qed (use assms(1) in \<open>simp add: res_inv_refl\<close>)

definition symbol_done :: "resolver \<Rightarrow> sym \<Rightarrow> bool" where
  "symbol_done rs y \<longleftrightarrow> (undefined_symbol y \<longrightarrow> lk_globals (rs_lk rs) (sym_name y) \<noteq> None \<or>
     (case find_archive (rs_archives rs) (sym_name y) 0 of
        None \<Rightarrow> True
      | Some (a, off) \<Rightarrow> ar_parsed (rs_archives rs ! a) off \<noteq> None))"

lemma resolve_symbol_done: "resolve_symbol y rs = Inr rs \<Longrightarrow> symbol_done rs y"
proof -
  assume r: "resolve_symbol y rs = Inr rs"
  have no: "include_object lk ob \<noteq> lk" for lk ob
    by (metis include_object_objs append_self_conv list.discI)
  have "rs\<lparr>rs_lk := include_object (rs_lk rs) ob, rs_archives := ars, rs_progress := True\<rparr> \<noteq> rs" for ob ars
  proof
    assume "rs\<lparr>rs_lk := include_object (rs_lk rs) ob, rs_archives := ars, rs_progress := True\<rparr> = rs"
    then have "include_object (rs_lk rs) ob = rs_lk rs" by (metis resolver.select_convs(1) resolver.surjective resolver.update_convs(1,2,3))
    then show False using no by simp
  qed
  with r show ?thesis
    by (auto simp: symbol_done_def resolve_symbol_def archive_member_at_def Let_def split: if_splits option.splits member.splits)
qed

lemma res_inv_progress: "res_inv rs rs' \<Longrightarrow> rs_progress rs \<Longrightarrow> rs_progress rs'"
  by (auto simp: res_inv_def res_step_def)

lemma resolve_symbols_step: "fold_err resolve_symbol ys rs = Inr rs' \<Longrightarrow> resolver_ok rs \<Longrightarrow> res_inv rs rs'"
proof (erule fold_err_invariant [where I = "res_inv rs"])
  fix y s s' assume "res_inv rs s" "resolve_symbol y s = Inr s'"
  then show "res_inv rs s'" using resolve_symbol_step res_inv_trans res_inv_def by metis
qed (rule res_inv_refl)

lemma resolve_symbols_done:
  "fold_err resolve_symbol ys rs = Inr rs' \<Longrightarrow> resolver_ok rs \<Longrightarrow> \<not> rs_progress rs' \<Longrightarrow>
     rs' = rs \<and> list_all (symbol_done rs) ys"
proof (induction ys arbitrary: rs)
  case (Cons y ys)
  from Cons.prems(1) obtain r1 where r1: "resolve_symbol y rs = Inr r1" "fold_err resolve_symbol ys r1 = Inr rs'" by auto
  have inv: "res_inv rs r1" using resolve_symbol_step Cons.prems(2) r1(1) by blast
  then have ok: "resolver_ok r1" by (simp add: res_inv_def)
  have "\<not> rs_progress r1" using res_inv_progress resolve_symbols_step [OF r1(2) ok] Cons.prems(3) by blast
  then have "r1 = rs" using inv by (auto simp: res_inv_def res_step_def)
  with Cons.IH [OF r1(2) ok Cons.prems(3)] r1(1) resolve_symbol_done show ?case by auto
qed simp

definition objects_left :: "nat \<Rightarrow> resolver \<Rightarrow> nat" where
  "objects_left oi rs = pending (rs_archives rs) + length (lk_objs (rs_lk rs)) - oi"

lemma resolve_objects_total:
  "resolver_ok rs \<Longrightarrow> \<exists>r. resolve_objects oi rs = Some r \<and> (\<forall>rs'. r = Inr rs' \<longrightarrow> res_inv rs rs' \<and>
     (\<not> rs_progress rs' \<longrightarrow> rs' = rs \<and> list_all (\<lambda>ob. list_all (symbol_done rs) (o_syms ob)) (drop oi (lk_objs (rs_lk rs)))))"
proof (induction "objects_left oi rs" arbitrary: oi rs rule: less_induct)
  case less
  show ?case
  proof (cases "oi < length (lk_objs (rs_lk rs))")
    case False
    then show ?thesis using res_inv_refl less.prems by (subst resolve_objects.simps) simp
  next
    case True
    let ?ys = "o_syms (lk_objs (rs_lk rs) ! oi)"
    show ?thesis
    proof (cases "fold_err resolve_symbol ?ys rs")
      case (Inl e)
      with True show ?thesis by (subst resolve_objects.simps) simp
    next
      case (Inr r1)
      have inv: "res_inv rs r1" using resolve_symbols_step [OF Inr less.prems] .
      then have ok: "resolver_ok r1" by (simp add: res_inv_def)
      have "pending (rs_archives r1) + length (lk_objs (rs_lk r1)) = pending (rs_archives rs) + length (lk_objs (rs_lk rs))"
        using inv by (auto simp: res_inv_def res_step_def)
      then have "objects_left (Suc oi) r1 < objects_left oi rs" using True by (simp add: objects_left_def)
      from less.hyps [OF this ok] obtain r where r: "resolve_objects (Suc oi) r1 = Some r"
        "\<And>rs'. r = Inr rs' \<Longrightarrow> res_inv r1 rs' \<and> (\<not> rs_progress rs' \<longrightarrow> rs' = r1 \<and>
           list_all (\<lambda>ob. list_all (symbol_done r1) (o_syms ob)) (drop (Suc oi) (lk_objs (rs_lk r1))))" by blast
      have eq: "resolve_objects oi rs = Some r" using True Inr r(1) by (subst resolve_objects.simps) simp
      have "res_inv rs rs' \<and> (\<not> rs_progress rs' \<longrightarrow> rs' = rs \<and>
          list_all (\<lambda>ob. list_all (symbol_done rs) (o_syms ob)) (drop oi (lk_objs (rs_lk rs))))" if rs': "r = Inr rs'" for rs'
      proof (intro conjI impI)
        from r(2) [OF rs'] inv res_inv_trans show "res_inv rs rs'" by blast
        assume np: "\<not> rs_progress rs'"
        with r(2) [OF rs'] have r1: "rs' = r1"
          "list_all (\<lambda>ob. list_all (symbol_done r1) (o_syms ob)) (drop (Suc oi) (lk_objs (rs_lk r1)))" by simp_all
        from resolve_symbols_done [OF Inr less.prems] np r1(1) have "r1 = rs" "list_all (symbol_done rs) ?ys" by simp_all
        with r1 True show "rs' = rs" "list_all (\<lambda>ob. list_all (symbol_done rs) (o_syms ob)) (drop oi (lk_objs (rs_lk rs)))"
          by (simp_all add: Cons_nth_drop_Suc [symmetric])
      qed
      with eq show ?thesis by blast
    qed
  qed
qed

lemma resolve_pass_total:
  assumes "resolver_ok rs"
  shows "\<exists>r. resolve_pass rs = Some r \<and> (\<forall>rs'. r = Inr rs' \<longrightarrow> resolver_ok rs'
     \<and> (\<exists>new. list_all obj_ok new \<and> rs_lk rs' = foldl include_object (rs_lk rs) new)
     \<and> (rs_progress rs' \<longrightarrow> pending (rs_archives rs') < pending (rs_archives rs))
     \<and> (\<not> rs_progress rs' \<longrightarrow> list_all (\<lambda>ob. list_all (symbol_done rs') (o_syms ob)) (lk_objs (rs_lk rs'))))"
proof -
  let ?rs = "rs\<lparr>rs_progress := False\<rparr>"
  have "resolver_ok ?rs" using assms by (simp add: resolver_ok_def)
  from resolve_objects_total [OF this, of 0] obtain r where r: "resolve_objects 0 ?rs = Some r"
    "\<And>rs'. r = Inr rs' \<Longrightarrow> res_inv ?rs rs' \<and> (\<not> rs_progress rs' \<longrightarrow> rs' = ?rs
       \<and> list_all (\<lambda>ob. list_all (symbol_done ?rs) (o_syms ob)) (drop 0 (lk_objs (rs_lk ?rs))))" by blast
  have "resolver_ok rs' \<and> (\<exists>new. list_all obj_ok new \<and> rs_lk rs' = foldl include_object (rs_lk rs) new)
     \<and> (rs_progress rs' \<longrightarrow> pending (rs_archives rs') < pending (rs_archives rs))
     \<and> (\<not> rs_progress rs' \<longrightarrow> list_all (\<lambda>ob. list_all (symbol_done rs') (o_syms ob)) (lk_objs (rs_lk rs')))"
    if rs': "r = Inr rs'" for rs'
  proof (cases "rs_progress rs'")
    case True
    with r(2) [OF rs'] have "rs' \<noteq> ?rs" "res_inv ?rs rs'" by auto
    then show ?thesis using True by (auto simp: res_inv_def res_step_def)
  next
    case False
    with r(2) [OF rs'] have "rs' = ?rs" "list_all (\<lambda>ob. list_all (symbol_done ?rs) (o_syms ob)) (lk_objs (rs_lk ?rs))"
      by simp_all
    moreover have "resolver_ok rs'" using r(2) [OF rs'] unfolding res_inv_def by blast
    moreover have "list_all obj_ok [] \<and> rs_lk ?rs = foldl include_object (rs_lk rs) []" by simp
    ultimately show ?thesis using False by metis
  qed
  with r(1) show ?thesis unfolding resolve_pass_def by blast
qed

lemma resolve_all_total:
  "resolver_ok rs \<Longrightarrow> \<exists>r. resolve_all rs = Some r \<and> (\<forall>rs'. r = Inr rs' \<longrightarrow>
     (\<exists>new. list_all obj_ok new \<and> rs_lk rs' = foldl include_object (rs_lk rs) new)
     \<and> list_all (\<lambda>ob. list_all (symbol_done rs') (o_syms ob)) (lk_objs (rs_lk rs')))"
proof (induction "pending (rs_archives rs)" arbitrary: rs rule: less_induct)
  case less
  from resolve_pass_total [OF less.prems] obtain r where r: "resolve_pass rs = Some r"
    "\<And>rs'. r = Inr rs' \<Longrightarrow> resolver_ok rs'
     \<and> (\<exists>new. list_all obj_ok new \<and> rs_lk rs' = foldl include_object (rs_lk rs) new)
     \<and> (rs_progress rs' \<longrightarrow> pending (rs_archives rs') < pending (rs_archives rs))
     \<and> (\<not> rs_progress rs' \<longrightarrow> list_all (\<lambda>ob. list_all (symbol_done rs') (o_syms ob)) (lk_objs (rs_lk rs')))" by blast
  show ?case
  proof (cases r)
    case (Inl e)
    with r(1) show ?thesis by (subst resolve_all.simps) simp
  next
    case (Inr r1)
    note r1 = r(2) [OF Inr]
    show ?thesis
    proof (cases "rs_progress r1")
      case False
      with r1 r(1) Inr show ?thesis by (subst resolve_all.simps) simp
    next
      case True
      with r1 have "pending (rs_archives r1) < pending (rs_archives rs)" by simp
      from less.hyps [OF this] r1 obtain q where q: "resolve_all r1 = Some q"
        "\<And>rs'. q = Inr rs' \<Longrightarrow> (\<exists>new. list_all obj_ok new \<and> rs_lk rs' = foldl include_object (rs_lk r1) new)
          \<and> list_all (\<lambda>ob. list_all (symbol_done rs') (o_syms ob)) (lk_objs (rs_lk rs'))" by blast
      have "resolve_all rs = Some q" using True r(1) Inr q(1) by (subst resolve_all.simps) simp
      moreover have "\<exists>new. list_all obj_ok new \<and> rs_lk rs' = foldl include_object (rs_lk rs) new" if "q = Inr rs'" for rs'
        using q(2) [OF that] r1 by (metis foldl_append list_all_append)
      ultimately show ?thesis using q(2) by blast
    qed
  qed
qed

subsection \<open>Reading an archive ends\<close>

lemma load_symbols_finite: "load_symbols img offs np n m = Inr m' \<Longrightarrow> finite (dom m) \<Longrightarrow> finite (dom m')"
  by (induction img offs np n m rule: load_symbols.induct) (auto split: option.splits)

lemma load_member_keeps:
  "load_member p ar = Inr ar' \<Longrightarrow> finite (dom (ar_symmap ar)) \<Longrightarrow>
     finite (dom (ar_symmap ar')) \<and> ar_parsed ar' = ar_parsed ar \<and> ar_img ar' = ar_img ar"
  by (auto simp: load_member_def Let_def split: if_splits) (erule (1) load_symbols_finite)

definition member_sizes_ok :: "u8 list \<Rightarrow> bool" where
  "member_sizes_ok img \<longleftrightarrow>
     list_all (\<lambda>p. case member_size img p of Inl _ \<Rightarrow> True | Inr n \<Rightarrow> 0 \<le> n) [0..<length img]"

lemma archive_loop_total:
  assumes "finite (dom (ar_symmap ar))" "member_sizes_ok (ar_img ar)" "0 \<le> p" "imgsz = int (length (ar_img ar))"
  shows "\<exists>r. archive_loop imgsz p ar = Some r"
  using assms
proof (induction "nat (imgsz - p)" arbitrary: p ar rule: less_induct)
  case less
  show ?case
  proof (cases "p + 60 > imgsz")
    case True
    then show ?thesis using less.prems by (subst archive_loop.simps) simp
  next
    case False
    then have p: "nat p < length (ar_img ar)" using less.prems by simp
    show ?thesis
    proof (cases "member_size (ar_img ar) (nat p)")
      case (Inl e)
      with False less.prems show ?thesis by (subst archive_loop.simps) simp
    next
      case (Inr msize)
      then have ms: "0 \<le> msize" using less.prems(2) p
        by (force simp: member_sizes_ok_def list_all_iff split: sum.splits)
      show ?thesis
      proof (cases "load_member (nat p) ar")
        case (Inl e)
        with False less.prems Inr show ?thesis by (subst archive_loop.simps) simp
      next
        case L: (Inr ar1)
        let ?q = "if (p + 60 + msize) mod 2 = 1 then p + 60 + msize + 1 else p + 60 + msize"
        note k = load_member_keeps [OF L less.prems(1)]
        have "nat (imgsz - ?q) < nat (imgsz - p)" "0 \<le> ?q" using False ms less.prems(3) by auto
        with less.hyps [of ?q ar1] k less.prems obtain r where r: "archive_loop imgsz ?q ar1 = Some r" by auto
        have "archive_loop imgsz p ar = Some r"
          using False less.prems Inr L r by (subst archive_loop.simps) (simp add: Let_def)
        then show ?thesis by blast
      qed
    qed
  qed
qed

lemma archive_loop_keeps:
  "archive_loop imgsz p ar = Some r \<Longrightarrow>
     finite (dom (ar_symmap ar)) \<longrightarrow> (\<forall>ar'. r = Inr ar' \<longrightarrow> finite (dom (ar_symmap ar')) \<and> ar_parsed ar' = ar_parsed ar)"
proof (rule archive_loop.raw_induct [where P = "\<lambda>imgsz p ar r. finite (dom (ar_symmap ar)) \<longrightarrow>
    (\<forall>ar'. r = Inr ar' \<longrightarrow> finite (dom (ar_symmap ar')) \<and> ar_parsed ar' = ar_parsed ar)", rotated])
  fix loop imgsz p ar r
  assume IH: "\<And>imgsz p ar r. loop imgsz p ar = Some r \<Longrightarrow> finite (dom (ar_symmap ar)) \<longrightarrow>
      (\<forall>ar'. r = Inr ar' \<longrightarrow> finite (dom (ar_symmap ar')) \<and> ar_parsed ar' = ar_parsed ar)"
    and step: "(if p + 60 > imgsz then Some (Inr ar)
      else if p < 0 then Some (Inl Bad_Read)
      else (case member_size (ar_img ar) (nat p) of
          Inl e \<Rightarrow> Some (Inl e)
        | Inr msize \<Rightarrow>
          (case load_member (nat p) ar of
             Inl e \<Rightarrow> Some (Inl e)
           | Inr ar' \<Rightarrow>
             (let q = p + 60 + msize
              in loop imgsz (if q mod 2 = 1 then q + 1 else q) ar')))) = Some r"
  show "finite (dom (ar_symmap ar)) \<longrightarrow>
      (\<forall>ar'. r = Inr ar' \<longrightarrow> finite (dom (ar_symmap ar')) \<and> ar_parsed ar' = ar_parsed ar)"
  proof
    assume fin: "finite (dom (ar_symmap ar))"
    from step show "\<forall>ar'. r = Inr ar' \<longrightarrow> finite (dom (ar_symmap ar')) \<and> ar_parsed ar' = ar_parsed ar"
      using fin load_member_keeps [OF _ fin]
      by (auto simp: Let_def split: if_splits sum.splits dest!: IH)
  qed
qed

lemma archive_load_keeps: "archive_load img = Some (Inr ar) \<Longrightarrow> archive_ok n ar"
  using archive_loop_keeps [of "int (length img)" 8 "\<lparr>ar_img = img, ar_symmap = Map.empty, ar_parsed = Map.empty, ar_longnames = None\<rparr>"]
  by (auto simp: archive_load_def archive_ok_def split: if_splits)

lemma archive_load_total: "member_sizes_ok img \<Longrightarrow> \<exists>r. archive_load img = Some r"
  using archive_loop_total [of "\<lparr>ar_img = img, ar_symmap = Map.empty, ar_parsed = Map.empty, ar_longnames = None\<rparr>" 8 "int (length img)"]
  by (auto simp: archive_load_def)

text \<open>
  C30: A name resolves to its first strong definition, and to its first weak one only when no
  included object defines it strongly: whatever the order of the objects, the linker's table maps
  a name to the first global definition in link order if there is one, else to the first weak
  definition, else to nothing.
\<close>

theorem resolution_precedence:
  assumes "list_all binds_ok objs"
  shows "lk_globals (foldl include_object linker_init objs) name
    = preferred (is_strong objs) (definitions_of objs name)"
proof -
  have "\<forall>d \<in> set (all_symbols objs). sym_bind (sym_at objs d) \<in> {STB_LOCAL, STB_GLOBAL, STB_WEAK}"
  proof
    fix d assume "d \<in> set (all_symbols objs)"
    from all_symbols_valid [OF this] show "sym_bind (sym_at objs d) \<in> {STB_LOCAL, STB_GLOBAL, STB_WEAK}"
      using assms nth_mem unfolding sym_at_def binds_ok_def list_all_iff by metis
  qed
  from register_preferred [OF this] show ?thesis by (simp add: included_globals definitions_of_def)
qed

theorem resolution_precedence_witness:
  "let y = \<lparr>sym_name = ''f'', sym_value = 0, sym_size = 0, sym_shndx = 1, sym_bind = STB_WEAK, sym_type = 2\<rparr>;
       objs = [\<lparr>o_name = ''a'', o_secs = [], o_syms = [y]\<rparr>, \<lparr>o_name = ''b'', o_secs = [], o_syms = [y\<lparr>sym_bind := STB_GLOBAL\<rparr>]\<rparr>]
   in lk_globals (foldl include_object linker_init objs) ''f'' = Some (1, 0)"
proof -
  let ?y = "\<lparr>sym_name = ''f'', sym_value = 0, sym_size = 0, sym_shndx = 1, sym_bind = STB_WEAK, sym_type = 2\<rparr>"
  let ?objs = "[\<lparr>o_name = ''a'', o_secs = [], o_syms = [?y]\<rparr>, \<lparr>o_name = ''b'', o_secs = [], o_syms = [?y\<lparr>sym_bind := STB_GLOBAL\<rparr>]\<rparr>]"
  have "list_all binds_ok ?objs" by (simp add: binds_ok_def)
  from resolution_precedence [OF this, of "''f''"]
  have "lk_globals (foldl include_object linker_init ?objs) ''f'' = Some (1, 0)"
    by (simp only:) (simp add: definitions_of_def all_symbols_def object_symbols_def sym_at_def defines_global_def
        is_strong_def preferred_def elf_consts)
  then show ?thesis by (simp only: Let_def)
qed

text \<open>
  C31: Resolving symbols ends and leaves nothing to resolve: with any finite archive indexes the
  passes stop, either with an error from reading a member or with the included objects extended
  in link order by well-formed ones so that every undefined global symbol of every included object is defined by an
  included object, or is in no archive index, or is indexed to a member that is already included.
\<close>

theorem resolution_closes:
  assumes "list_all (\<lambda>ar. finite (dom (ar_symmap ar)) \<and> ar_parsed ar = Map.empty) (rs_archives rs)"
  shows "\<exists>r. resolve_all rs = Some r \<and> (case r of Inl _ \<Rightarrow> True | Inr rs' \<Rightarrow>
      (\<exists>new. list_all obj_ok new \<and> rs_lk rs' = foldl include_object (rs_lk rs) new)
      \<and> list_all (\<lambda>ob. list_all (symbol_done rs') (o_syms ob)) (lk_objs (rs_lk rs')))"
proof -
  have "resolver_ok rs" using assms by (simp add: resolver_ok_def archive_ok_def list_all_iff)
  from resolve_all_total [OF this] show ?thesis by (force split: sum.split)
qed

theorem resolution_closes_witness:
  "let y = \<lparr>sym_name = ''f'', sym_value = 0, sym_size = 0, sym_shndx = SHN_UNDEF, sym_bind = STB_GLOBAL, sym_type = 0\<rparr>;
       rs = \<lparr>rs_lk = include_object linker_init \<lparr>o_name = ''a'', o_secs = [], o_syms = [y]\<rparr>,
             rs_archives = [\<lparr>ar_img = [], ar_symmap = [''f'' \<mapsto> 9], ar_parsed = Map.empty, ar_longnames = None\<rparr>],
             rs_progress = False\<rparr>
   in \<exists>r. resolve_all rs = Some r \<and> (case r of Inl _ \<Rightarrow> True | Inr rs' \<Rightarrow>
      (\<exists>new. list_all obj_ok new \<and> rs_lk rs' = foldl include_object (rs_lk rs) new)
      \<and> list_all (\<lambda>ob. list_all (symbol_done rs') (o_syms ob)) (lk_objs (rs_lk rs')))"
  unfolding Let_def by (rule resolution_closes) simp

text \<open>An archive whose only member declares the size \<open>-60\<close>.\<close>

definition looping_archive :: "u8 list" where
  "looping_archive = ar_magic @ replicate 48 0x78 @ [0x2d, 0x36, 0x30, 0x20, 0x20, 0x20, 0x20, 0x20, 0x20, 0x20, 0x60, 0x0a]"

text \<open>
  C34: A member header with a negative size sends the archive reader round the same header for
  ever: reading the 68-byte archive above does not return.
\<close>

theorem archive_negative_size_hangs: "archive_load looping_archive = None"
proof -
  let ?P = "\<lambda>imgsz p ar (r :: link_error + archive). \<not> (imgsz = 68 \<and> p = 8 \<and> ar_img ar = looping_archive)"
  have "?P imgsz p ar r" if "archive_loop imgsz p ar = Some r" for imgsz p ar r
    using that
  proof (rule archive_loop.raw_induct [where P = ?P, rotated])
    fix loop imgsz p ar r
    assume IH: "\<And>imgsz p ar r. loop imgsz p ar = Some r \<Longrightarrow> ?P imgsz p ar r"
      and step: "(if p + 60 > imgsz then Some (Inr ar)
      else if p < 0 then Some (Inl Bad_Read)
      else (case member_size (ar_img ar) (nat p) of
          Inl e \<Rightarrow> Some (Inl e)
        | Inr msize \<Rightarrow>
          (case load_member (nat p) ar of
             Inl e \<Rightarrow> Some (Inl e)
           | Inr ar' \<Rightarrow>
             (let q = p + 60 + msize
              in loop imgsz (if q mod 2 = 1 then q + 1 else q) ar')))) = Some r"
    show "?P imgsz p ar r"
    proof
      assume a: "imgsz = 68 \<and> p = 8 \<and> ar_img ar = looping_archive"
      have m: "member_size looping_archive 8 = Inr (- 60)" by code_simp
      have "rd_bytes looping_archive 8 16 = Inr (replicate 16 0x78)" by code_simp
      moreover have "take 2 (replicate 16 (0x78 :: u8)) = [0x78, 0x78]" by code_simp
      moreover have "[0x78, 0x78] \<noteq> [0x2f, 0x20 :: u8]" "[0x78, 0x78] \<noteq> [0x2f, 0x2f :: u8]" by code_simp+
      ultimately have "load_member 8 ar = Inr ar" using a by (simp only: load_member_def Let_def bnd_simps if_False)
      with m have "loop 68 8 ar = Some r" using step a by simp
      from IH [OF this] a show False by simp
    qed
  qed
  then have "archive_loop 68 8 \<lparr>ar_img = looping_archive, ar_symmap = Map.empty, ar_parsed = Map.empty, ar_longnames = None\<rparr> = None"
    by (metis archive.select_convs(1) not_None_eq)
  moreover have "length looping_archive = 68" "take 8 looping_archive = ar_magic" by code_simp+
  ultimately show ?thesis by (simp add: archive_load_def)
qed

end
