(* ===== verification/Link_Layout.thy ===== *)
theory Link_Layout
  imports Link_Resolve
begin

text \<open>
  Placing sections and COMMON symbols at virtual addresses, step 3 of \<^verbatim>\<open>elf_link_static\<close> and
  step 2 of \<^verbatim>\<open>elf_link\<close> in \<^verbatim>\<open>src/src/linker.c\<close>.  Addresses are 64-bit words and wrap as they
  do in the code; the lemmas state what the placement guarantees when the whole program fits
  below \<open>2^64\<close>.
\<close>

definition out_slots :: "out_slot list" where
  "out_slots = [OUT_TEXT, OUT_RODATA, OUT_DATA, OUT_INIT_ARRAY, OUT_BSS]"

definition out_align :: "out_slot \<Rightarrow> u64" where
  "out_align slot = (if slot = OUT_INIT_ARRAY then 8 else 0x1000)"

definition in_slot :: "out_slot \<Rightarrow> sec \<Rightarrow> bool" where
  "in_slot slot s \<longleftrightarrow> sec_out s = slot \<and> sec_flags s AND SHF_ALLOC \<noteq> 0"

definition at_least_1 :: "u64 \<Rightarrow> u64" where
  "at_least_1 w = (if w = 0 then 1 else w)"

definition place_section :: "out_slot \<Rightarrow> sec \<Rightarrow> u64 \<Rightarrow> sec \<times> u64" where
  "place_section slot s va =
     (if \<not> in_slot slot s then (s, va)
      else let va' = align_up va (at_least_1 (sec_align s))
           in (s\<lparr>sec_va := va'\<rparr>, va' + sec_size s))"

definition place_object :: "out_slot \<Rightarrow> obj \<Rightarrow> u64 \<Rightarrow> obj \<times> u64" where
  "place_object slot ob va =
     (let (secs, va') = thread (place_section slot) (o_secs ob) va in (ob\<lparr>o_secs := secs\<rparr>, va'))"

definition place_common :: "sym \<Rightarrow> u64 \<Rightarrow> sym \<times> u64" where
  "place_common y va =
     (if sym_shndx y \<noteq> SHN_COMMON then (y, va)
      else let va' = align_up va (at_least_1 (sym_value y))
           in (y\<lparr>sym_value := va', sym_shndx := SHN_ABS\<rparr>, va' + sym_size y))"

definition place_commons :: "obj \<Rightarrow> u64 \<Rightarrow> obj \<times> u64" where
  "place_commons ob va =
     (let (syms, va') = thread place_common (o_syms ob) va in (ob\<lparr>o_syms := syms\<rparr>, va'))"

record layout =
  ly_objs :: "obj list"
  ly_va :: u64
  ly_out_va :: "out_slot \<Rightarrow> u64"
  ly_out_size :: "out_slot \<Rightarrow> u64"

definition layout_slot :: "out_slot \<Rightarrow> layout \<Rightarrow> layout" where
  "layout_slot slot ly =
     (let va = align_up (ly_va ly) (out_align slot);
          (objs1, va1) = thread (place_object slot) (ly_objs ly) va;
          (objs2, va2) = (if slot = OUT_BSS then thread place_commons objs1 va1 else (objs1, va1))
      in \<lparr>ly_objs = objs2, ly_va = va2, ly_out_va = (ly_out_va ly)(slot := va),
          ly_out_size = (ly_out_size ly)(slot := va2 - va)\<rparr>)"

definition layout_objects :: "obj list \<Rightarrow> u64 \<Rightarrow> layout" where
  "layout_objects objs base =
     fold layout_slot out_slots \<lparr>ly_objs = objs, ly_va = base, ly_out_va = (\<lambda>_. 0), ly_out_size = (\<lambda>_. 0)\<rparr>"

definition layout_linker :: "linker \<Rightarrow> u64 \<Rightarrow> linker \<times> layout" where
  "layout_linker lk base =
     (let ly = layout_objects (lk_objs lk) base; iv = ly_out_va ly OUT_INIT_ARRAY
      in (lk\<lparr>lk_objs := ly_objs ly, lk_init_start := iv,
            lk_init_end := iv + ly_out_size ly OUT_INIT_ARRAY\<rparr>, ly))"

subsection \<open>What the placement guarantees\<close>

text \<open>A block is an address, an alignment and a number of bytes; \<open>ascending lo bs hi\<close> says the
  blocks lie in order between \<open>lo\<close> and \<open>hi\<close>, aligned and without overlap.\<close>

type_synonym block = "nat \<times> nat \<times> nat"

fun ascending :: "nat \<Rightarrow> block list \<Rightarrow> nat \<Rightarrow> bool" where
  "ascending lo [] hi \<longleftrightarrow> lo \<le> hi"
| "ascending lo ((a, al, n) # bs) hi \<longleftrightarrow> lo \<le> a \<and> al dvd a \<and> ascending (a + n) bs hi"

lemma ascending_le: "ascending lo bs hi \<Longrightarrow> lo \<le> hi"
proof (induction bs arbitrary: lo)
  case (Cons b bs)
  then show ?case by (cases b) force
qed simp

lemma ascending_append: "ascending lo xs m \<Longrightarrow> ascending m ys hi \<Longrightarrow> ascending lo (xs @ ys) hi"
proof (induction xs arbitrary: lo)
  case Nil
  then show ?case
  proof (cases ys)
    case (Cons b bs)
    with Nil show ?thesis by (cases b) simp
  qed simp
next
  case (Cons x xs)
  then show ?case by (cases x) simp
qed

definition sec_block :: "sec \<Rightarrow> block" where
  "sec_block s = (unat (sec_va s), unat (at_least_1 (sec_align s)), unat (sec_size s))"

definition slot_blocks :: "out_slot \<Rightarrow> obj list \<Rightarrow> block list" where
  "slot_blocks slot objs = map sec_block (filter (in_slot slot) (concat (map o_secs objs)))"

definition common_block :: "sym \<times> sym \<Rightarrow> block" where
  "common_block p = (unat (sym_value (snd p)), unat (at_least_1 (sym_value (fst p))), unat (sym_size (fst p)))"

definition common_pairs :: "sym list \<Rightarrow> sym list \<Rightarrow> (sym \<times> sym) list" where
  "common_pairs ys ys' = filter (\<lambda>p. sym_shndx (fst p) = SHN_COMMON) (zip ys ys')"

definition common_blocks :: "obj list \<Rightarrow> obj list \<Rightarrow> block list" where
  "common_blocks objs objs' =
     map common_block (common_pairs (concat (map o_syms objs)) (concat (map o_syms objs')))"

definition sec_room :: "sec \<Rightarrow> nat" where
  "sec_room s = unat (sec_size s) + unat (at_least_1 (sec_align s))"

definition sym_room :: "sym \<Rightarrow> nat" where
  "sym_room y = (if sym_shndx y = SHN_COMMON then unat (sym_size y) + unat (at_least_1 (sym_value y)) else 0)"

definition obj_room :: "obj \<Rightarrow> nat" where
  "obj_room ob = sum_list (map sec_room (o_secs ob)) + sum_list (map sym_room (o_syms ob))"

definition aligns_ok :: "obj \<Rightarrow> bool" where
  "aligns_ok ob \<longleftrightarrow> list_all (\<lambda>s. pow2 (at_least_1 (sec_align s))) (o_secs ob)
     \<and> list_all (\<lambda>y. sym_shndx y = SHN_COMMON \<longrightarrow> pow2 (at_least_1 (sym_value y))) (o_syms ob)"

text \<open>A bound on the address space a layout needs: the rooms of all objects for each of the five
  passes over the sections and the pass over the COMMON symbols, and an alignment for each of the
  five output sections.\<close>

definition total_room :: "obj list \<Rightarrow> nat" where
  "total_room objs = sum_list (map obj_room objs)"

definition layout_room :: "obj list \<Rightarrow> nat" where
  "layout_room objs = 6 * total_room objs + 5 * 0x1000"

lemma unat_plus_no_wrap: "unat (a :: u64) + unat b < 2 ^ 64 \<Longrightarrow> unat (a + b) = unat a + unat b"
  by (simp add: unat_word_ariths)

lemma place_section_step:
  assumes "pow2 (at_least_1 (sec_align s))" "unat va + sec_room s < 2 ^ 64" "place_section slot s va = (s', va')"
  shows "unat va' \<le> unat va + sec_room s"
    "in_slot slot s \<Longrightarrow> ascending (unat va) [sec_block s'] (unat va')"
    "\<not> in_slot slot s \<Longrightarrow> s' = s \<and> va' = va"
    "s' = s\<lparr>sec_va := sec_va s'\<rparr>"
proof -
  let ?al = "at_least_1 (sec_align s)" let ?a = "align_up va ?al"
  have room: "unat va + unat ?al < 2 ^ 64" using assms(2) by (simp add: sec_room_def)
  note al = align_up_facts [OF assms(1) room]
  have sum: "unat (?a + sec_size s) = unat ?a + unat (sec_size s)"
    using al(3) assms(2) by (intro unat_plus_no_wrap) (simp add: sec_room_def)
  show "unat va' \<le> unat va + sec_room s"
    using assms(3) al(3) sum by (auto simp: place_section_def Let_def sec_room_def split: if_splits)
  show "in_slot slot s \<Longrightarrow> ascending (unat va) [sec_block s'] (unat va')"
    using assms(3) al sum by (auto simp: place_section_def Let_def sec_block_def)
  show "\<not> in_slot slot s \<Longrightarrow> s' = s \<and> va' = va" "s' = s\<lparr>sec_va := sec_va s'\<rparr>"
    using assms(3) by (auto simp: place_section_def Let_def split: if_splits)
qed

lemma in_slot_va [simp]: "in_slot slot (s\<lparr>sec_va := v\<rparr>) = in_slot slot s"
  by (simp add: in_slot_def)

text \<open>The loop that places a list of things: if each fits its room, the blocks ascend.\<close>

lemma thread_ascending:
  assumes "\<And>x va y va'. x \<in> set xs \<Longrightarrow> unat va + room x < 2 ^ 64 \<Longrightarrow> f x va = (y, va') \<Longrightarrow>
      unat va' \<le> unat va + room x \<and> ascending (unat va) (blk (x, y)) (unat va')"
    "unat va + sum_list (map room xs) < 2 ^ 64" "thread f xs va = (ys, va' :: u64)"
  shows "unat va' \<le> unat va + sum_list (map room xs)
    \<and> ascending (unat va) (concat (map blk (zip xs ys))) (unat va')"
  using assms
proof (induction xs arbitrary: va ys)
  case (Cons x xs)
  from Cons.prems(3) obtain y t zs where t: "f x va = (y, t)" "thread f xs t = (zs, va')" "ys = y # zs"
    by (rule thread_ConsE)
  have x: "unat t \<le> unat va + room x" "ascending (unat va) (blk (x, y)) (unat t)"
    using Cons.prems(1) [OF _ _ t(1)] Cons.prems(2) by simp_all
  have "unat t + sum_list (map room xs) < 2 ^ 64" using x(1) Cons.prems(2) by simp
  from Cons.IH [OF _ this t(2)] Cons.prems(1)
  have "unat va' \<le> unat t + sum_list (map room xs)"
    "ascending (unat t) (concat (map blk (zip xs zs))) (unat va')" by (meson list.set_intros(2))+
  then show ?case using x t(3) by (auto intro: ascending_append)
qed simp

definition sec_moved :: "sec \<Rightarrow> sec \<Rightarrow> bool" where
  "sec_moved s s' \<longleftrightarrow> (\<exists>v. s' = s\<lparr>sec_va := v\<rparr>)"

lemma sec_moved_intros [simp, intro]: "sec_moved s s" "sec_moved s (s\<lparr>sec_va := v\<rparr>)"
proof -
  have "s = s\<lparr>sec_va := sec_va s\<rparr>" by simp
  then show "sec_moved s s" unfolding sec_moved_def by blast
qed (auto simp: sec_moved_def)

lemma sec_moved_in_slot: "sec_moved s s' \<Longrightarrow> in_slot slot s' = in_slot slot s"
  by (auto simp: sec_moved_def)

definition sec_blocks :: "out_slot \<Rightarrow> sec list \<Rightarrow> block list" where
  "sec_blocks slot ss = concat (map (\<lambda>s. if in_slot slot s then [sec_block s] else []) ss)"

lemma sec_blocks_eq: "sec_blocks slot ss = map sec_block (filter (in_slot slot) ss)"
  by (induction ss) (auto simp: sec_blocks_def)

lemma place_object_step:
  assumes "aligns_ok ob" "unat va + obj_room ob < 2 ^ 64" "place_object slot ob va = (ob', va')"
  shows "unat va' \<le> unat va + obj_room ob \<and> ascending (unat va) (sec_blocks slot (o_secs ob')) (unat va')"
proof -
  let ?blk = "\<lambda>p. if in_slot slot (snd p) then [sec_block (snd p)] else []"
  from assms(3) obtain ss where ss: "thread (place_section slot) (o_secs ob) va = (ss, va')" "ob' = ob\<lparr>o_secs := ss\<rparr>"
    by (auto simp: place_object_def split: prod.splits)
  have len: "length (o_secs ob) = length ss" using ss(1) by (metis fst_conv length_thread)
  have "unat va' \<le> unat va + sum_list (map sec_room (o_secs ob))
      \<and> ascending (unat va) (concat (map ?blk (zip (o_secs ob) ss))) (unat va')"
  proof (rule thread_ascending [OF _ _ ss(1)])
    fix s v s' v'
    assume s: "s \<in> set (o_secs ob)" and step: "unat v + sec_room s < 2 ^ 64" "place_section slot s v = (s', v')"
    have "pow2 (at_least_1 (sec_align s))" using s assms(1) by (simp add: aligns_ok_def list_all_iff)
    note st = place_section_step [OF this step]
    have "sec_moved s s'" unfolding sec_moved_def using st(4) by blast
    with st show "unat v' \<le> unat v + sec_room s \<and> ascending (unat v) (?blk (s, s')) (unat v')"
      by (auto simp: sec_moved_in_slot)
  qed (use assms(2) in \<open>simp add: obj_room_def\<close>)
  then show ?thesis using ss(2) by (simp add: obj_room_def sec_blocks_def concat_zip_snd [OF len, of "\<lambda>s. if in_slot slot s then [sec_block s] else []"])
qed

lemma place_common_step:
  assumes "sym_shndx y = SHN_COMMON \<longrightarrow> pow2 (at_least_1 (sym_value y))" "unat va + sym_room y < 2 ^ 64"
    "place_common y va = (y', va')"
  shows "unat va' \<le> unat va + sym_room y
    \<and> ascending (unat va) (if sym_shndx y = SHN_COMMON then [common_block (y, y')] else []) (unat va')"
proof (cases "sym_shndx y = SHN_COMMON")
  case True
  let ?al = "at_least_1 (sym_value y)" let ?a = "align_up va ?al"
  have room: "unat va + unat ?al < 2 ^ 64" using assms(2) True by (simp add: sym_room_def)
  have p: "pow2 ?al" using assms(1) True by simp
  note al = align_up_facts [OF p room]
  have "unat (?a + sym_size y) = unat ?a + unat (sym_size y)"
    using al(3) assms(2) True by (intro unat_plus_no_wrap) (simp add: sym_room_def)
  then show ?thesis
    using assms(3) True al by (auto simp: place_common_def Let_def sym_room_def common_block_def)
qed (use assms(3) in \<open>auto simp: place_common_def sym_room_def\<close>)

lemma place_commons_step:
  assumes "aligns_ok ob" "unat va + obj_room ob < 2 ^ 64" "place_commons ob va = (ob', va')"
  shows "unat va' \<le> unat va + obj_room ob
    \<and> ascending (unat va) (map common_block (common_pairs (o_syms ob) (o_syms ob'))) (unat va')"
proof -
  let ?blk = "\<lambda>p. if sym_shndx (fst p) = SHN_COMMON then [common_block p] else []"
  from assms(3) obtain ys where ys: "thread place_common (o_syms ob) va = (ys, va')" "ob' = ob\<lparr>o_syms := ys\<rparr>"
    by (auto simp: place_commons_def split: prod.splits)
  have "unat va' \<le> unat va + sum_list (map sym_room (o_syms ob))
      \<and> ascending (unat va) (concat (map ?blk (zip (o_syms ob) ys))) (unat va')"
  proof (rule thread_ascending [OF _ _ ys(1)])
    fix y v y' v'
    assume y: "y \<in> set (o_syms ob)" and step: "unat v + sym_room y < 2 ^ 64" "place_common y v = (y', v')"
    have "sym_shndx y = SHN_COMMON \<longrightarrow> pow2 (at_least_1 (sym_value y))"
      using y assms(1) by (simp add: aligns_ok_def list_all_iff)
    from place_common_step [OF this step]
    show "unat v' \<le> unat v + sym_room y \<and> ascending (unat v) (?blk (y, y')) (unat v')" by simp
  qed (use assms(2) in \<open>simp add: obj_room_def\<close>)
  moreover have "concat (map ?blk ps) = map common_block (filter (\<lambda>p. sym_shndx (fst p) = SHN_COMMON) ps)" for ps
    by (induction ps) auto
  ultimately show ?thesis using ys(2) by (simp add: obj_room_def common_pairs_def)
qed

text \<open>What a pass over one output section changes.\<close>

definition sec_step :: "out_slot \<Rightarrow> sec \<Rightarrow> sec \<Rightarrow> bool" where
  "sec_step slot s s' \<longleftrightarrow> sec_moved s s' \<and> (in_slot slot s \<or> s' = s)"

definition obj_step :: "out_slot \<Rightarrow> obj \<Rightarrow> obj \<Rightarrow> bool" where
  "obj_step slot ob ob' \<longleftrightarrow> list_all2 (sec_step slot) (o_secs ob) (o_secs ob') \<and> o_syms ob' = o_syms ob"

definition syms_step :: "obj \<Rightarrow> obj \<Rightarrow> bool" where
  "syms_step ob ob' \<longleftrightarrow> o_secs ob' = o_secs ob \<and> length (o_syms ob') = length (o_syms ob)
     \<and> list_all (\<lambda>p. sym_shndx (snd p) = SHN_ABS) (common_pairs (o_syms ob) (o_syms ob'))"

lemma place_object_moves: "place_object slot ob va = (ob', va') \<Longrightarrow> obj_step slot ob ob'"
proof -
  assume "place_object slot ob va = (ob', va')"
  then obtain ss where ss: "thread (place_section slot) (o_secs ob) va = (ss, va')" "ob' = ob\<lparr>o_secs := ss\<rparr>"
    by (auto simp: place_object_def split: prod.splits)
  have "list_all2 (sec_step slot) (o_secs ob) ss"
    by (rule thread_all2 [OF _ ss(1)])
      (auto simp: place_section_def sec_step_def Let_def split: if_splits)
  with ss(2) show ?thesis by (simp add: obj_step_def)
qed

lemma place_commons_moves: "place_commons ob va = (ob', va') \<Longrightarrow> syms_step ob ob'"
proof -
  assume "place_commons ob va = (ob', va')"
  then obtain ys where ys: "thread place_common (o_syms ob) va = (ys, va')" "ob' = ob\<lparr>o_syms := ys\<rparr>"
    by (auto simp: place_commons_def split: prod.splits)
  have "list_all2 (\<lambda>y y'. sym_shndx y = SHN_COMMON \<longrightarrow> sym_shndx y' = SHN_ABS) (o_syms ob) ys"
    by (rule thread_all2 [OF _ ys(1)]) (auto simp: place_common_def Let_def)
  with ys(2) show ?thesis
    by (auto simp: syms_step_def common_pairs_def list_all2_iff list_all_iff)
qed

lemma sec_step_same:
  "sec_step slot s s' \<Longrightarrow> sec_room s' = sec_room s \<and> sec_align s' = sec_align s \<and> in_slot slot' s' = in_slot slot' s"
  by (auto simp: sec_step_def sec_moved_def sec_room_def)

lemma sec_step_other: "sec_step slot s s' \<Longrightarrow> slot' \<noteq> slot \<Longrightarrow> in_slot slot' s \<Longrightarrow> s' = s"
  by (auto simp: sec_step_def in_slot_def)

lemma sec_steps_same:
  "list_all2 (sec_step slot) ss ss' \<Longrightarrow> map sec_room ss' = map sec_room ss \<and> map sec_align ss' = map sec_align ss
     \<and> (slot' \<noteq> slot \<longrightarrow> sec_blocks slot' ss' = sec_blocks slot' ss)"
proof (induction rule: list_all2_induct)
  case (Cons s ss s' ss')
  then show ?case
    using sec_step_same [OF Cons(1), of slot'] sec_step_other [OF Cons(1), of slot']
    by (auto simp: sec_blocks_def)
qed (simp add: sec_blocks_def)

lemma obj_steps_same:
  "list_all2 (obj_step slot) objs objs' \<Longrightarrow> map obj_room objs' = map obj_room objs
     \<and> map aligns_ok objs' = map aligns_ok objs \<and> map o_syms objs' = map o_syms objs
     \<and> (slot' \<noteq> slot \<longrightarrow> sec_blocks slot' (concat (map o_secs objs')) = sec_blocks slot' (concat (map o_secs objs)))"
proof (induction rule: list_all2_induct)
  case (Cons ob objs ob' objs')
  have al: "list_all (\<lambda>s. pow2 (at_least_1 (sec_align s))) ss = list_all (\<lambda>a. pow2 (at_least_1 a)) (map sec_align ss)" for ss
    by (simp add: list.pred_map comp_def)
  have "list_all2 (sec_step slot) (o_secs ob) (o_secs ob')" "o_syms ob' = o_syms ob"
    using Cons(1) by (simp_all add: obj_step_def)
  with sec_steps_same [OF this(1), of slot'] Cons.IH show ?case
    by (simp add: obj_room_def aligns_ok_def al) (simp add: sec_blocks_def)
qed (simp add: sec_blocks_def)

lemma slot_blocks_eq: "slot_blocks slot objs = sec_blocks slot (concat (map o_secs objs))"
  by (simp add: slot_blocks_def sec_blocks_eq)

lemma sec_blocks_objs: "concat (map (\<lambda>ob. sec_blocks slot (o_secs ob)) objs) = slot_blocks slot objs"
  by (induction objs) (simp_all add: slot_blocks_eq sec_blocks_def)

lemma common_blocks_objs:
  "list_all2 syms_step objs objs' \<Longrightarrow>
     concat (map (\<lambda>p. map common_block (common_pairs (o_syms (fst p)) (o_syms (snd p)))) (zip objs objs'))
       = common_blocks objs objs'"
  by (induction rule: list_all2_induct) (auto simp: common_blocks_def common_pairs_def syms_step_def)

lemma syms_steps_secs: "list_all2 syms_step objs objs' \<Longrightarrow> map o_secs objs' = map o_secs objs"
  by (induction rule: list_all2_induct) (auto simp: syms_step_def)

lemma place_objects:
  assumes "list_all aligns_ok objs" "unat va + total_room objs < 2 ^ 64" "thread (place_object slot) objs va = (objs', va')"
  shows "unat va' \<le> unat va + total_room objs \<and> ascending (unat va) (slot_blocks slot objs') (unat va')
    \<and> list_all2 (obj_step slot) objs objs'"
proof -
  have len: "length objs = length objs'" using assms(3) by (metis fst_conv length_thread)
  have "unat va' \<le> unat va + sum_list (map obj_room objs)
      \<and> ascending (unat va) (concat (map (\<lambda>p. sec_blocks slot (o_secs (snd p))) (zip objs objs'))) (unat va')"
    by (rule thread_ascending [OF _ _ assms(3)])
      (use assms place_object_step in \<open>auto simp: list_all_iff total_room_def\<close>)
  moreover have "list_all2 (obj_step slot) objs objs'"
    by (rule thread_all2 [OF _ assms(3)]) (rule place_object_moves)
  ultimately show ?thesis
    using concat_zip_snd [OF len, of "\<lambda>ob. sec_blocks slot (o_secs ob)"]
    by (simp add: sec_blocks_objs total_room_def)
qed

lemma place_all_commons:
  assumes "list_all aligns_ok objs" "unat va + total_room objs < 2 ^ 64" "thread place_commons objs va = (objs', va')"
  shows "unat va' \<le> unat va + total_room objs \<and> ascending (unat va) (common_blocks objs objs') (unat va')
    \<and> list_all2 syms_step objs objs'"
proof -
  have moves: "list_all2 syms_step objs objs'"
    by (rule thread_all2 [OF _ assms(3)]) (rule place_commons_moves)
  have "unat va' \<le> unat va + sum_list (map obj_room objs)
      \<and> ascending (unat va) (concat (map (\<lambda>p. map common_block (common_pairs (o_syms (fst p)) (o_syms (snd p))))
          (zip objs objs'))) (unat va')"
    by (rule thread_ascending [OF _ _ assms(3)])
      (use assms place_commons_step in \<open>auto simp: list_all_iff total_room_def\<close>)
  then show ?thesis using moves by (simp add: common_blocks_objs total_room_def)
qed

subsection \<open>The whole layout\<close>

definition extent :: "layout \<Rightarrow> out_slot \<Rightarrow> nat \<times> nat" where
  "extent ly slot = (unat (ly_out_va ly slot), unat (ly_out_va ly slot) + unat (ly_out_size ly slot))"

text \<open>One output section: it starts aligned at or after the running address, holds its input
  sections in order, and ends where the next pass starts.\<close>

lemma align_slot:
  assumes "unat va + 0x1000 < 2 ^ 64"
  shows "unat va \<le> unat (align_up va (out_align slot))" "unat (out_align slot) dvd unat (align_up va (out_align slot))"
    "unat (align_up va (out_align slot)) \<le> unat va + 0x1000"
proof -
  have p: "pow2 (out_align slot)" by (simp add: out_align_def)
  have u: "unat (out_align slot) \<le> 0x1000" by (simp add: out_align_def)
  with assms have "unat va + unat (out_align slot) < 2 ^ 64" by simp
  note al = align_up_facts [OF p this]
  show "unat va \<le> unat (align_up va (out_align slot))" "unat (out_align slot) dvd unat (align_up va (out_align slot))"
    "unat (align_up va (out_align slot)) \<le> unat va + 0x1000" using al u by simp_all
qed

lemma unat_size_of_extent: "unat v \<le> unat (v' :: u64) \<Longrightarrow> unat v + unat (v' - v) = unat v'"
  by (simp add: unat_sub word_le_nat_alt)

lemma layout_slot_step:
  assumes "list_all aligns_ok (ly_objs ly)" "unat (ly_va ly) + total_room (ly_objs ly) + 0x1000 < 2 ^ 64"
    "slot \<noteq> OUT_BSS"
  defines "ly' \<equiv> layout_slot slot ly"
  shows "unat (ly_va ly') \<le> unat (ly_va ly) + total_room (ly_objs ly) + 0x1000
    \<and> unat (ly_va ly) \<le> fst (extent ly' slot) \<and> unat (out_align slot) dvd fst (extent ly' slot)
    \<and> ascending (fst (extent ly' slot)) (slot_blocks slot (ly_objs ly')) (snd (extent ly' slot))
    \<and> snd (extent ly' slot) = unat (ly_va ly')
    \<and> list_all2 (obj_step slot) (ly_objs ly) (ly_objs ly')"
proof -
  let ?va = "align_up (ly_va ly) (out_align slot)"
  obtain objs va where th: "thread (place_object slot) (ly_objs ly) ?va = (objs, va)" by fastforce
  have al: "unat (ly_va ly) + 0x1000 < 2 ^ 64" using assms(2) by simp
  note al = align_slot [OF al, of slot]
  have "unat ?va + total_room (ly_objs ly) < 2 ^ 64" using al(3) assms(2) by simp
  note p = place_objects [OF assms(1) this th]
  have ly': "ly_objs ly' = objs" "ly_va ly' = va" "ly_out_va ly' slot = ?va" "ly_out_size ly' slot = va - ?va"
    unfolding ly'_def using th assms(3) by (simp_all add: layout_slot_def Let_def)
  have "unat ?va \<le> unat va" using p ascending_le by blast
  then have "snd (extent ly' slot) = unat va"
    unfolding extent_def ly' by (simp add: unat_size_of_extent)
  then show ?thesis using p al by (auto simp: extent_def ly')
qed

lemma layout_bss_step:
  assumes "list_all aligns_ok (ly_objs ly)" "unat (ly_va ly) + 2 * total_room (ly_objs ly) + 0x1000 < 2 ^ 64"
  defines "ly' \<equiv> layout_slot OUT_BSS ly"
  shows "unat (ly_va ly) \<le> fst (extent ly' OUT_BSS) \<and> unat (out_align OUT_BSS) dvd fst (extent ly' OUT_BSS)
    \<and> ascending (fst (extent ly' OUT_BSS))
        (slot_blocks OUT_BSS (ly_objs ly') @ common_blocks (ly_objs ly) (ly_objs ly')) (snd (extent ly' OUT_BSS))
    \<and> snd (extent ly' OUT_BSS) \<le> unat (ly_va ly) + 2 * total_room (ly_objs ly) + 0x1000
    \<and> (\<exists>objs. list_all2 (obj_step OUT_BSS) (ly_objs ly) objs \<and> list_all2 syms_step objs (ly_objs ly'))"
proof -
  let ?va = "align_up (ly_va ly) (out_align OUT_BSS)"
  obtain objs va where th: "thread (place_object OUT_BSS) (ly_objs ly) ?va = (objs, va)" by fastforce
  obtain objs' va' where th': "thread place_commons objs va = (objs', va')" by fastforce
  have al: "unat (ly_va ly) + 0x1000 < 2 ^ 64" using assms(2) by simp
  note al = align_slot [OF al, of OUT_BSS]
  have "unat ?va + total_room (ly_objs ly) < 2 ^ 64" using al(3) assms(2) by simp
  note p = place_objects [OF assms(1) this th]
  have same: "total_room objs = total_room (ly_objs ly)" "map aligns_ok objs = map aligns_ok (ly_objs ly)"
    "map o_syms objs = map o_syms (ly_objs ly)"
    using obj_steps_same [of OUT_BSS "ly_objs ly" objs] p by (auto simp: total_room_def)
  have "list_all id (map aligns_ok objs)" unfolding same(2) using assms(1) by (simp add: list.pred_map)
  then have ok: "list_all aligns_ok objs" by (simp add: list.pred_map)
  have "unat va + total_room objs < 2 ^ 64" using p al(3) assms(2) same(1) by simp
  note q = place_all_commons [OF ok this th']
  have ly': "ly_objs ly' = objs'" "ly_va ly' = va'" "ly_out_va ly' OUT_BSS = ?va" "ly_out_size ly' OUT_BSS = va' - ?va"
    unfolding ly'_def using th th' by (simp_all add: layout_slot_def Let_def)
  have "unat ?va \<le> unat va'" using p q ascending_le by (meson order_trans)
  then have e: "snd (extent ly' OUT_BSS) = unat va'" unfolding extent_def ly' by (simp add: unat_size_of_extent)
  have "slot_blocks OUT_BSS objs' = slot_blocks OUT_BSS objs"
    using syms_steps_secs [of objs objs'] q by (simp add: slot_blocks_def)
  moreover have "common_blocks objs objs' = common_blocks (ly_objs ly) objs'" using same(3) by (simp add: common_blocks_def)
  ultimately have "ascending (unat ?va) (slot_blocks OUT_BSS objs' @ common_blocks (ly_objs ly) objs') (unat va')"
    using p q ascending_append by metis
  moreover have "unat va' \<le> unat (ly_va ly) + 2 * total_room (ly_objs ly) + 0x1000"
    using p q al(3) same(1) by simp
  ultimately show ?thesis using p q al e by (auto simp: extent_def ly')
qed

lemma layout_slot_other:
  "slot' \<noteq> slot \<Longrightarrow> extent (layout_slot slot ly) slot' = extent ly slot'"
  by (simp add: layout_slot_def extent_def Let_def case_prod_beta)

definition slot_block :: "layout \<Rightarrow> out_slot \<Rightarrow> block" where
  "slot_block ly slot = (unat (ly_out_va ly slot), unat (out_align slot), unat (ly_out_size ly slot))"

lemma slot_block_cong: "extent ly slot = extent ly' slot \<Longrightarrow> slot_block ly slot = slot_block ly' slot"
  by (simp add: slot_block_def extent_def)

lemma slot_block_ascending:
  "lo \<le> fst (extent ly slot) \<Longrightarrow> unat (out_align slot) dvd fst (extent ly slot) \<Longrightarrow> snd (extent ly slot) \<le> hi \<Longrightarrow>
     ascending lo [slot_block ly slot] hi"
  by (simp add: slot_block_def extent_def)

definition slots_placed :: "nat \<Rightarrow> obj list \<Rightarrow> out_slot list \<Rightarrow> layout \<Rightarrow> bool" where
  "slots_placed base objs slots ly \<longleftrightarrow>
     list_all aligns_ok (ly_objs ly) \<and> total_room (ly_objs ly) = total_room objs
     \<and> map o_syms (ly_objs ly) = map o_syms objs
     \<and> unat (ly_va ly) \<le> base + length slots * (total_room objs + 0x1000)
     \<and> ascending base (map (slot_block ly) slots) (unat (ly_va ly))
     \<and> list_all (\<lambda>slot. ascending (fst (extent ly slot)) (slot_blocks slot (ly_objs ly)) (snd (extent ly slot))) slots"

lemma ascending_start: "lo \<le> lo' \<Longrightarrow> ascending lo' bs hi \<Longrightarrow> ascending lo bs hi"
proof (cases bs)
  case (Cons b bs')
  then show "lo \<le> lo' \<Longrightarrow> ascending lo' bs hi \<Longrightarrow> ascending lo bs hi" by (cases b) simp
qed simp

lemma slots_placed_step:
  assumes inv: "slots_placed base objs slots ly" and slot: "slot \<notin> set slots" "slot \<noteq> OUT_BSS"
    and room: "base + (length slots + 1) * (total_room objs + 0x1000) < 2 ^ 64"
  shows "slots_placed base objs (slots @ [slot]) (layout_slot slot ly)"
proof -
  let ?ly = "layout_slot slot ly"
  from inv have al: "list_all aligns_ok (ly_objs ly)" and R: "total_room (ly_objs ly) = total_room objs"
    and ys: "map o_syms (ly_objs ly) = map o_syms objs"
    and va: "unat (ly_va ly) \<le> base + length slots * (total_room objs + 0x1000)"
    and asc: "ascending base (map (slot_block ly) slots) (unat (ly_va ly))"
    and each: "list_all (\<lambda>slot. ascending (fst (extent ly slot)) (slot_blocks slot (ly_objs ly)) (snd (extent ly slot))) slots"
    by (simp_all add: slots_placed_def)
  have "unat (ly_va ly) + total_room (ly_objs ly) + 0x1000 < 2 ^ 64" using va room R by simp
  note st = layout_slot_step [OF al this slot(2)]
  then have moved: "list_all2 (obj_step slot) (ly_objs ly) (ly_objs ?ly)" by simp
  have same: "slot' \<in> set slots \<Longrightarrow> slot_blocks slot' (ly_objs ?ly) = slot_blocks slot' (ly_objs ly)
      \<and> extent ?ly slot' = extent ly slot'" for slot'
    using obj_steps_same [OF moved, of slot'] slot(1) layout_slot_other [of slot' slot ly]
    by (auto simp: slot_blocks_eq)
  note objs = obj_steps_same [OF moved]
  have "list_all id (map aligns_ok (ly_objs ?ly))" using objs al by (simp add: list.pred_map)
  then have 1: "list_all aligns_ok (ly_objs ?ly)" by (simp add: list.pred_map)
  have 2: "total_room (ly_objs ?ly) = total_room objs" using objs R by (simp add: total_room_def)
  have 3: "map o_syms (ly_objs ?ly) = map o_syms objs" using objs ys by simp
  have 4: "unat (ly_va ?ly) \<le> base + length (slots @ [slot]) * (total_room objs + 0x1000)"
    using st va R by simp
  have "map (slot_block ?ly) slots = map (slot_block ly) slots"
    by (rule map_cong [OF refl slot_block_cong]) (use same in blast)
  moreover have "ascending (unat (ly_va ly)) [slot_block ?ly slot] (unat (ly_va ?ly))"
    using st by (intro slot_block_ascending) auto
  ultimately have 5: "ascending base (map (slot_block ?ly) (slots @ [slot])) (unat (ly_va ?ly))"
    using ascending_append [OF asc] by (simp del: map_eq_conv)
  have 6: "list_all (\<lambda>slot. ascending (fst (extent ?ly slot)) (slot_blocks slot (ly_objs ?ly)) (snd (extent ?ly slot))) (slots @ [slot])"
    using each same st by (auto simp: list_all_iff)
  from 1 2 3 4 5 6 show ?thesis by (simp add: slots_placed_def)
qed

definition layout_before_bss :: "obj list \<Rightarrow> u64 \<Rightarrow> layout" where
  "layout_before_bss objs base = fold layout_slot [OUT_TEXT, OUT_RODATA, OUT_DATA, OUT_INIT_ARRAY]
     \<lparr>ly_objs = objs, ly_va = base, ly_out_va = (\<lambda>_. 0), ly_out_size = (\<lambda>_. 0)\<rparr>"

lemma layout_objects_split: "layout_objects objs base = layout_slot OUT_BSS (layout_before_bss objs base)"
  by (simp add: layout_objects_def layout_before_bss_def out_slots_def)

lemma placed_before_bss:
  assumes "list_all aligns_ok objs" "unat base + layout_room objs < 2 ^ 64"
  shows "slots_placed (unat base) objs [OUT_TEXT, OUT_RODATA, OUT_DATA, OUT_INIT_ARRAY] (layout_before_bss objs base)"
proof -
  let ?ly = "\<lparr>ly_objs = objs, ly_va = base, ly_out_va = (\<lambda>_. 0), ly_out_size = (\<lambda>_. 0)\<rparr>"
  have "slots_placed (unat base) objs [] ?ly" using assms(1) by (simp add: slots_placed_def)
  note s1 = slots_placed_step [OF this, of OUT_TEXT, simplified]
  have 1: "slots_placed (unat base) objs [OUT_TEXT] (layout_slot OUT_TEXT ?ly)"
    using s1 assms(2) by (simp add: layout_room_def)
  have 2: "slots_placed (unat base) objs [OUT_TEXT, OUT_RODATA] (layout_slot OUT_RODATA (layout_slot OUT_TEXT ?ly))"
    using slots_placed_step [OF 1, of OUT_RODATA] assms(2) by (simp add: layout_room_def)
  have 3: "slots_placed (unat base) objs [OUT_TEXT, OUT_RODATA, OUT_DATA]
      (layout_slot OUT_DATA (layout_slot OUT_RODATA (layout_slot OUT_TEXT ?ly)))"
    using slots_placed_step [OF 2, of OUT_DATA] assms(2) by (simp add: layout_room_def)
  show ?thesis
    using slots_placed_step [OF 3, of OUT_INIT_ARRAY] assms(2) by (simp add: layout_room_def layout_before_bss_def)
qed

definition bss_commons :: "obj list \<Rightarrow> layout \<Rightarrow> out_slot \<Rightarrow> block list" where
  "bss_commons objs ly slot = (if slot = OUT_BSS then common_blocks objs (ly_objs ly) else [])"

definition layout_blocks :: "obj list \<Rightarrow> layout \<Rightarrow> out_slot \<Rightarrow> block list" where
  "layout_blocks objs ly slot = slot_blocks slot (ly_objs ly) @ bss_commons objs ly slot"

lemma layout_objects_placed:
  assumes "list_all aligns_ok objs" "unat base + layout_room objs < 2 ^ 64"
  defines "ly \<equiv> layout_objects objs base"
  shows "ascending (unat base) (map (slot_block ly) out_slots) (unat base + layout_room objs)
    \<and> list_all (\<lambda>slot. ascending (fst (extent ly slot)) (layout_blocks objs ly slot) (snd (extent ly slot))) out_slots"
proof -
  let ?s4 = "[OUT_TEXT, OUT_RODATA, OUT_DATA, OUT_INIT_ARRAY]"
  let ?l = "layout_before_bss objs base"
  note placed = placed_before_bss [OF assms(1,2)]
  then have p: "list_all aligns_ok (ly_objs ?l)" "total_room (ly_objs ?l) = total_room objs"
    "map o_syms (ly_objs ?l) = map o_syms objs" "unat (ly_va ?l) \<le> unat base + 4 * (total_room objs + 0x1000)"
    by (simp_all add: slots_placed_def)
  have ly: "ly = layout_slot OUT_BSS ?l" by (simp add: ly_def layout_objects_split)
  have "unat (ly_va ?l) + 2 * total_room (ly_objs ?l) + 0x1000 < 2 ^ 64"
    using p assms(2) by (simp add: layout_room_def)
  note bss = layout_bss_step [OF p(1) this, folded ly]
  then obtain ob where ob: "list_all2 (obj_step OUT_BSS) (ly_objs ?l) ob" "list_all2 syms_step ob (ly_objs ly)" by blast
  have same: "slot \<noteq> OUT_BSS \<Longrightarrow> slot_blocks slot (ly_objs ly) = slot_blocks slot (ly_objs ?l) \<and> extent ly slot = extent ?l slot" for slot
    using obj_steps_same [OF ob(1), of slot] syms_steps_secs [OF ob(2)] layout_slot_other [of slot OUT_BSS ?l]
    by (simp add: slot_blocks_eq ly)
  have com: "common_blocks (ly_objs ?l) (ly_objs ly) = common_blocks objs (ly_objs ly)"
    using p(3) by (simp add: common_blocks_def)
  have heads: "map (slot_block ly) ?s4 = map (slot_block ?l) ?s4"
    by (rule map_cong [OF refl slot_block_cong]) (use same in auto)
  have "ascending (unat base) (map (slot_block ly) ?s4) (unat (ly_va ?l))"
    unfolding heads using placed unfolding slots_placed_def by blast
  moreover have "ascending (unat (ly_va ?l)) [slot_block ly OUT_BSS] (unat base + layout_room objs)"
    using bss p(2,4) by (intro slot_block_ascending) (auto simp: layout_room_def)
  ultimately have "ascending (unat base) (map (slot_block ly) ?s4 @ [slot_block ly OUT_BSS]) (unat base + layout_room objs)"
    by (rule ascending_append)
  moreover have "ascending (fst (extent ly slot)) (layout_blocks objs ly slot) (snd (extent ly slot))"
    if "slot \<in> set out_slots" for slot
  proof (cases "slot = OUT_BSS")
    case False
    with that have "slot \<in> set ?s4" by (auto simp: out_slots_def)
    then have "ascending (fst (extent ?l slot)) (slot_blocks slot (ly_objs ?l)) (snd (extent ?l slot))"
      using placed unfolding slots_placed_def list_all_iff by blast
    then show ?thesis using False same [OF False] by (simp add: layout_blocks_def bss_commons_def)
  qed (use bss in \<open>simp add: layout_blocks_def bss_commons_def com\<close>)
  ultimately show ?thesis by (simp add: list_all_iff out_slots_def)
qed

text \<open>Placing changes nothing but addresses: the sections keep everything else, and so do the
  symbols that are not COMMON.\<close>

definition sym_placed :: "sym \<Rightarrow> sym \<Rightarrow> bool" where
  "sym_placed y y' \<longleftrightarrow> y' = y \<or> sym_shndx y = SHN_COMMON \<and> (\<exists>v. y' = y\<lparr>sym_value := v, sym_shndx := SHN_ABS\<rparr>)"

definition obj_placed :: "obj \<Rightarrow> obj \<Rightarrow> bool" where
  "obj_placed ob ob' \<longleftrightarrow> list_all2 sec_moved (o_secs ob) (o_secs ob') \<and> list_all2 sym_placed (o_syms ob) (o_syms ob')"

lemma sec_moved_trans: "sec_moved s t \<Longrightarrow> sec_moved t u \<Longrightarrow> sec_moved s u"
  by (auto simp: sec_moved_def)

lemma sym_placed_trans: "sym_placed s t \<Longrightarrow> sym_placed t u \<Longrightarrow> sym_placed s u"
  by (auto simp: sym_placed_def elf_consts)

lemma obj_placed_refl: "obj_placed ob ob"
  by (simp add: obj_placed_def list_all2_refl sym_placed_def)

lemma obj_placed_trans: "obj_placed a b \<Longrightarrow> obj_placed b c \<Longrightarrow> obj_placed a c"
  unfolding obj_placed_def by (blast intro: all2_trans sec_moved_trans sym_placed_trans)

lemma obj_placed_object: "place_object slot ob va = (ob', va') \<Longrightarrow> obj_placed ob ob'"
proof -
  assume "place_object slot ob va = (ob', va')"
  from place_object_moves [OF this] have "list_all2 (sec_step slot) (o_secs ob) (o_secs ob')" "o_syms ob' = o_syms ob"
    by (simp_all add: obj_step_def)
  then show ?thesis
    by (auto simp: obj_placed_def sec_step_def sym_placed_def list_all2_refl elim!: list_all2_mono)
qed

lemma obj_placed_commons: "place_commons ob va = (ob', va') \<Longrightarrow> obj_placed ob ob'"
proof -
  assume "place_commons ob va = (ob', va')"
  then obtain ys where ys: "thread place_common (o_syms ob) va = (ys, va')" "ob' = ob\<lparr>o_syms := ys\<rparr>"
    by (auto simp: place_commons_def split: prod.splits)
  have "list_all2 sym_placed (o_syms ob) ys"
    by (rule thread_all2 [OF _ ys(1)]) (auto simp: place_common_def sym_placed_def Let_def split: if_splits)
  then show "obj_placed ob ob'" using ys(2) by (simp add: obj_placed_def list_all2_refl)
qed

lemma layout_slot_placed: "list_all2 obj_placed (ly_objs ly) (ly_objs (layout_slot slot ly))"
proof -
  obtain objs va where th: "thread (place_object slot) (ly_objs ly) (align_up (ly_va ly) (out_align slot)) = (objs, va)" by fastforce
  obtain objs' va' where th': "thread place_commons objs va = (objs', va')" by fastforce
  have 1: "list_all2 obj_placed (ly_objs ly) objs" by (rule thread_all2 [OF obj_placed_object th])
  have "list_all2 obj_placed objs objs'" by (rule thread_all2 [OF obj_placed_commons th'])
  with 1 have "list_all2 obj_placed (ly_objs ly) objs'" by (rule all2_trans) (rule obj_placed_trans)
  with 1 th th' show ?thesis by (simp add: layout_slot_def Let_def)
qed

lemma layout_placed: "list_all2 obj_placed objs (ly_objs (layout_objects objs base))"
proof -
  have "list_all2 obj_placed (ly_objs ly) (ly_objs (fold layout_slot slots ly))" for slots ly
  proof (induction slots arbitrary: ly)
    case (Cons slot slots)
    have "list_all2 obj_placed (ly_objs ly) (ly_objs (fold layout_slot slots (layout_slot slot ly)))"
      using layout_slot_placed Cons.IH by (rule all2_trans) (rule obj_placed_trans)
    then show ?case by simp
  qed (simp add: list_all2_refl obj_placed_refl)
  from this [of "\<lparr>ly_objs = objs, ly_va = base, ly_out_va = (\<lambda>_. 0), ly_out_size = (\<lambda>_. 0)\<rparr>"] show ?thesis
    by (simp add: layout_objects_def)
qed

text \<open>
  C32: The linker's layout puts everything somewhere of its own: when the alignments are powers of
  two and the program fits below \<open>2^64\<close>, the output sections follow each other from the base
  address upwards, aligned and without overlap, and within the address and size recorded for each
  of them its input sections, and for \<^verbatim>\<open>.bss\<close> the COMMON symbols after them, do the same.
\<close>

theorem layout_no_overlap:
  assumes "list_all aligns_ok objs" "unat base + layout_room objs < 2 ^ 64"
  shows "let ly = layout_objects objs base in
      ascending (unat base) (map (slot_block ly) out_slots) (unat base + layout_room objs)
    \<and> list_all (\<lambda>slot. ascending (fst (extent ly slot)) (layout_blocks objs ly slot) (snd (extent ly slot))) out_slots"
  using layout_objects_placed [OF assms] by (auto simp: Let_def list_all_iff)

theorem layout_no_overlap_witness:
  "let objs = [\<lparr>o_name = ''a'', o_secs = [\<lparr>sec_name = ''.text'', sec_type = 1, sec_flags = 6, sec_size = 5, sec_align = 16,
        sec_data = Some [1, 2, 3, 4, 5], sec_rel = [], sec_out = OUT_TEXT, sec_va = 0\<rparr>],
        o_syms = [\<lparr>sym_name = ''buf'', sym_value = 8, sym_size = 100, sym_shndx = SHN_COMMON, sym_bind = 1, sym_type = 1\<rparr>]\<rparr>];
       ly = layout_objects objs 0x2000000
   in ascending 0x2000000 (map (slot_block ly) out_slots) (0x2000000 + layout_room objs)
    \<and> list_all (\<lambda>slot. ascending (fst (extent ly slot)) (layout_blocks objs ly slot) (snd (extent ly slot))) out_slots"
proof -
  let ?objs = "[\<lparr>o_name = ''a'', o_secs = [\<lparr>sec_name = ''.text'', sec_type = 1, sec_flags = 6, sec_size = 5, sec_align = 16,
        sec_data = Some [1, 2, 3, 4, 5], sec_rel = [], sec_out = OUT_TEXT, sec_va = 0\<rparr>],
        o_syms = [\<lparr>sym_name = ''buf'', sym_value = 8, sym_size = 100, sym_shndx = SHN_COMMON, sym_bind = 1, sym_type = 1\<rparr>]\<rparr>]"
  have "list_all aligns_ok ?objs" by (simp add: aligns_ok_def at_least_1_def)
  moreover have "unat (0x2000000 :: u64) + layout_room ?objs < 2 ^ 64"
    by (simp add: layout_room_def total_room_def obj_room_def sec_room_def sym_room_def at_least_1_def)
  ultimately show ?thesis using layout_no_overlap [of ?objs "0x2000000"] by (simp only: Let_def) simp
qed

end
