(* ===== verification/Link_Reloc.thy ===== *)
theory Link_Reloc
  imports Link_Layout
begin

text \<open>
  Applying relocations, step 4 of \<^verbatim>\<open>elf_link_static\<close> in \<^verbatim>\<open>src/src/linker.c\<close>: each relocation of
  a section patches the section's own copy of its data in place.
\<close>

definition R_X86_64_64 :: u32 where "R_X86_64_64 = 1"
definition R_X86_64_PC32 :: u32 where "R_X86_64_PC32 = 2"
definition R_X86_64_PLT32 :: u32 where "R_X86_64_PLT32 = 4"
definition R_X86_64_GLOB_DAT :: u32 where "R_X86_64_GLOB_DAT = 6"
definition R_X86_64_JUMP_SLOT :: u32 where "R_X86_64_JUMP_SLOT = 7"
definition R_X86_64_RELATIVE :: u32 where "R_X86_64_RELATIVE = 8"
definition R_X86_64_GOTPCREL :: u32 where "R_X86_64_GOTPCREL = 9"
definition R_X86_64_32 :: u32 where "R_X86_64_32 = 10"
definition R_X86_64_32S :: u32 where "R_X86_64_32S = 11"
definition R_X86_64_GOTPCRELX :: u32 where "R_X86_64_GOTPCRELX = 41"
definition R_X86_64_REX_GOTPCRELX :: u32 where "R_X86_64_REX_GOTPCRELX = 42"

lemmas reloc_consts = R_X86_64_64_def R_X86_64_PC32_def R_X86_64_PLT32_def R_X86_64_GLOB_DAT_def
  R_X86_64_JUMP_SLOT_def R_X86_64_RELATIVE_def R_X86_64_GOTPCREL_def R_X86_64_32_def R_X86_64_32S_def
  R_X86_64_GOTPCRELX_def R_X86_64_REX_GOTPCRELX_def

definition patch :: "u8 list \<Rightarrow> nat \<Rightarrow> u8 list \<Rightarrow> link_error + u8 list" where
  "patch data off bs =
     (if off + length bs \<le> length data then Inr (take off data @ bs @ drop (off + length bs) data)
      else Inl Bad_Write)"

definition reloc_target :: "linker \<Rightarrow> nat \<Rightarrow> rela \<Rightarrow> link_error + u64" where
  "reloc_target lk oi rl =
     bnd (sym_addr lk oi (unat (rel_sym rl))) (\<lambda>r.
     case r of
       Some S \<Rightarrow> Inr S
     | None \<Rightarrow>
       (let y = o_syms (lk_objs lk ! oi) ! unat (rel_sym rl)
        in if sym_bind y = STB_WEAK then Inr 0 else Inl (Undefined_Symbol (sym_name y))))"

definition reloc_bytes :: "u32 \<Rightarrow> u64 \<Rightarrow> u64 \<Rightarrow> u64 \<Rightarrow> link_error + u8 list" where
  "reloc_bytes ty S A P =
     (if ty = R_X86_64_64 then Inr (le_bytes 8 (S + A))
      else if ty = R_X86_64_PC32 \<or> ty = R_X86_64_PLT32 then Inr (le_bytes 4 (ucast (S + A - P) :: u32))
      else if ty = R_X86_64_32 then Inr (le_bytes 4 (ucast (S + A) :: u32))
      else if ty = R_X86_64_32S then Inr (le_bytes 4 (ucast (S + A) :: u32))
      else Inl (Unsupported_Reloc ty))"

definition apply_rela :: "linker \<Rightarrow> nat \<Rightarrow> u64 \<Rightarrow> rela \<Rightarrow> u8 list \<Rightarrow> link_error + u8 list" where
  "apply_rela lk oi va rl data =
     bnd (reloc_target lk oi rl) (\<lambda>S.
     bnd (reloc_bytes (rel_type rl) S (rel_add rl) (va + rel_off rl)) (\<lambda>bs.
     patch data (unat (rel_off rl)) bs))"

definition relocate_section :: "linker \<Rightarrow> nat \<Rightarrow> sec \<Rightarrow> link_error + sec" where
  "relocate_section lk oi s =
     (case sec_data s of
        None \<Rightarrow> Inr s
      | Some data \<Rightarrow>
        bnd (fold_err (apply_rela lk oi (sec_va s)) (sec_rel s) data) (\<lambda>data'.
        Inr (s\<lparr>sec_data := Some data'\<rparr>)))"

definition relocate_object :: "linker \<Rightarrow> nat \<Rightarrow> link_error + obj" where
  "relocate_object lk oi =
     (let ob = lk_objs lk ! oi
      in bnd (traverse (relocate_section lk oi) (o_secs ob)) (\<lambda>secs. Inr (ob\<lparr>o_secs := secs\<rparr>)))"

definition relocate_all :: "linker \<Rightarrow> link_error + obj list" where
  "relocate_all lk = traverse (relocate_object lk) [0..<length (lk_objs lk)]"

subsection \<open>What a patched field means\<close>

definition reloc_width :: "u32 \<Rightarrow> nat" where
  "reloc_width ty = (if ty = R_X86_64_64 then 8 else 4)"

text \<open>The address the processor computes from a field at \<open>P\<close>.\<close>

definition reloc_value :: "u32 \<Rightarrow> u64 \<Rightarrow> u8 list \<Rightarrow> u64" where
  "reloc_value ty P bs =
     (if ty = R_X86_64_64 then le_word bs
      else if ty = R_X86_64_PC32 \<or> ty = R_X86_64_PLT32 then P + scast (le_word bs :: u32)
      else if ty = R_X86_64_32 then ucast (le_word bs :: u32)
      else scast (le_word bs :: u32))"

definition fits_int32 :: "u64 \<Rightarrow> bool" where
  "fits_int32 w \<longleftrightarrow> - (2 ^ 31) \<le> sint w \<and> sint w < 2 ^ 31"

definition reloc_fits :: "u32 \<Rightarrow> u64 \<Rightarrow> u64 \<Rightarrow> bool" where
  "reloc_fits ty v P \<longleftrightarrow>
     (if ty = R_X86_64_64 then True
      else if ty = R_X86_64_PC32 \<or> ty = R_X86_64_PLT32 then fits_int32 (v - P)
      else if ty = R_X86_64_32 then unat v < 2 ^ 32
      else fits_int32 v)"

lemma scast_of_fits: "fits_int32 w \<Longrightarrow> scast (ucast w :: u32) = w"
proof -
  assume f: "fits_int32 w"
  have "sint (ucast w :: u32) = signed_take_bit 31 (sint w)"
    by (simp add: sint_uint unsigned_ucast_eq signed_take_bit_take_bit)
  also have "\<dots> = sint w" using f by (simp add: fits_int32_def signed_take_bit_int_eq_self)
  finally have "sint (ucast w :: u32) = sint w" .
  then show ?thesis by (simp only: scast_eq) simp
qed

lemma ucast_of_fits: "unat (v :: u64) < 2 ^ 32 \<Longrightarrow> ucast (ucast v :: u32) = v"
proof -
  assume v: "unat v < 2 ^ 32"
  have "unat (ucast v :: u32) = unat v"
    using v by (simp only: unsigned_ucast_eq unsigned_take_bit_eq take_bit_nat_def) simp
  then have "unat (ucast (ucast v :: u32) :: u64) = unat v"
    using v by (simp only: unsigned_ucast_eq unsigned_take_bit_eq take_bit_nat_def) simp
  then show ?thesis by (simp add: word_unat_eq_iff)
qed

lemma signed_of_int32: "sint (scast (x :: u32) :: u64) = sint x"
proof -
  have r: "- (2 ^ 31) \<le> sint x" "sint x < 2 ^ 31" using sint_ge [of x] sint_lt [of x] by simp_all
  have "sint (scast x :: u64) = sint (word_of_int (sint x) :: u64)" by (simp only: scast_eq)
  also have "\<dots> = signed_take_bit 63 (sint x)" by (simp only: sint_sbintrunc') simp
  also have "\<dots> = sint x" using r by (intro signed_take_bit_int_eq_self) simp_all
  finally show ?thesis .
qed

lemma unsigned_of_word32: "unat (ucast (x :: u32) :: u64) = unat x"
  by (transfer, simp add: take_bit_take_bit)

lemma fits_of_scast: "scast (ucast w :: u32) = w \<Longrightarrow> fits_int32 w"
proof -
  assume e: "scast (ucast w :: u32) = w"
  have r: "- (2 ^ 31) \<le> sint (x :: u32)" "sint (x :: u32) < 2 ^ 31" for x
    using sint_ge [of x] sint_lt [of x] by simp_all
  have "sint (scast (ucast w :: u32) :: u64) = sint (ucast w :: u32)" by (rule signed_of_int32)
  with e r [of "ucast w"] show ?thesis by (simp add: fits_int32_def)
qed

lemma fits_of_ucast: "ucast (ucast (v :: u64) :: u32) = v \<Longrightarrow> unat v < 2 ^ 32"
proof -
  assume e: "ucast (ucast v :: u32) = v"
  have "unat (ucast (ucast v :: u32) :: u64) = unat (ucast v :: u32)" by (rule unsigned_of_word32)
  with e unsigned_less [of "ucast v :: u32"] show ?thesis by simp
qed

text \<open>What the ABI stores for a reference to \<open>v\<close> from the place \<open>P\<close>, before it is cut to the width of the
  field.\<close>

definition field_value :: "u32 \<Rightarrow> u64 \<Rightarrow> u64 \<Rightarrow> u64" where
  "field_value ty v P = (if ty = R_X86_64_PC32 \<or> ty = R_X86_64_PLT32 then v - P else v)"

lemma reloc_bytes_value:
  assumes "reloc_bytes ty S A P = Inr bs"
  shows "length bs = reloc_width ty" "le_nat bs = unat (field_value ty (S + A) P) mod 256 ^ reloc_width ty"
    "reloc_value ty P bs = S + A \<longleftrightarrow> reloc_fits ty (S + A) P"
proof -
  show "length bs = reloc_width ty"
    using assms by (auto simp: reloc_bytes_def reloc_width_def reloc_consts split: if_splits)
  have c: "unat (ucast w :: u32) mod 256 ^ 4 = unat w mod 256 ^ 4" for w :: u64
    by (simp only: unsigned_ucast_eq take_bit_nat_def) simp
  show "le_nat bs = unat (field_value ty (S + A) P) mod 256 ^ reloc_width ty"
    using assms c by (auto simp: reloc_bytes_def reloc_width_def field_value_def reloc_consts split: if_splits)
  have s: "scast (ucast w :: u32) = w \<longleftrightarrow> fits_int32 w" for w using scast_of_fits fits_of_scast by blast
  have u: "ucast (ucast w :: u32) = w \<longleftrightarrow> unat w < 2 ^ 32" for w :: u64 using ucast_of_fits fits_of_ucast by blast
  have d: "P + x = S + A \<longleftrightarrow> x = S + A - P" for x by (metis add_diff_cancel_left' add_diff_eq)
  show "reloc_value ty P bs = S + A \<longleftrightarrow> reloc_fits ty (S + A) P"
    using assms unfolding reloc_bytes_def reloc_value_def reloc_fits_def
    by (auto simp: s u d reloc_consts split: if_splits)
qed

lemma patch_nth:
  assumes "patch data off bs = Inr data'"
  shows "length data' = length data" "off + length bs \<le> length data"
    "i < length data \<Longrightarrow> data' ! i = (if off \<le> i \<and> i < off + length bs then bs ! (i - off) else data ! i)"
  using assms by (auto simp: patch_def nth_append min_def split: if_splits)

definition in_field :: "rela \<Rightarrow> nat \<Rightarrow> bool" where
  "in_field rl i \<longleftrightarrow> unat (rel_off rl) \<le> i \<and> i < unat (rel_off rl) + reloc_width (rel_type rl)"

text \<open>The relocations whose field no later one touches.\<close>

definition fields_apart :: "rela \<Rightarrow> rela \<Rightarrow> bool" where
  "fields_apart rl q \<longleftrightarrow> unat (rel_off rl) + reloc_width (rel_type rl) \<le> unat (rel_off q)
     \<or> unat (rel_off q) + reloc_width (rel_type q) \<le> unat (rel_off rl)"

fun last_writers :: "rela list \<Rightarrow> rela list" where
  "last_writers [] = []"
| "last_writers (rl # rls) = (if list_all (fields_apart rl) rls then rl # last_writers rls else last_writers rls)"

definition field_done :: "linker \<Rightarrow> nat \<Rightarrow> u64 \<Rightarrow> u8 list \<Rightarrow> rela \<Rightarrow> bool" where
  "field_done lk oi va data rl \<longleftrightarrow>
     (case reloc_target lk oi rl of
        Inl _ \<Rightarrow> False
      | Inr S \<Rightarrow>
        (let ty = rel_type rl; v = S + rel_add rl; P = va + rel_off rl;
             bs = take (reloc_width ty) (drop (unat (rel_off rl)) data)
         in le_nat bs = unat (field_value ty v P) mod 256 ^ reloc_width ty
            \<and> (reloc_value ty P bs = v \<longleftrightarrow> reloc_fits ty v P)))"

lemma take_drop_nth_eq:
  "off + length bs \<le> length data \<Longrightarrow> (\<And>j. j < length bs \<Longrightarrow> data ! (off + j) = bs ! j) \<Longrightarrow>
     take (length bs) (drop off data) = bs"
  by (rule nth_equalityI) auto

lemma apply_relas:
  "fold_err (apply_rela lk oi va) rls data = Inr data' \<Longrightarrow>
     length data' = length data \<and> list_all (field_done lk oi va data') (last_writers rls)
     \<and> (\<forall>i < length data. list_all (\<lambda>rl. \<not> in_field rl i) rls \<longrightarrow> data' ! i = data ! i)"
proof (induction rls arbitrary: data)
  case (Cons rl rls)
  from Cons.prems(1) obtain d1 where d1: "apply_rela lk oi va rl data = Inr d1"
    "fold_err (apply_rela lk oi va) rls d1 = Inr data'" by auto
  from d1(1) obtain S bs where S: "reloc_target lk oi rl = Inr S"
    and bs: "reloc_bytes (rel_type rl) S (rel_add rl) (va + rel_off rl) = Inr bs"
    and p: "patch data (unat (rel_off rl)) bs = Inr d1" by (auto simp: apply_rela_def)
  note pn = patch_nth [OF p] and bv = reloc_bytes_value [OF bs]
  have IH: "length data' = length d1" "list_all (field_done lk oi va data') (last_writers rls)"
    "\<And>i. i < length d1 \<Longrightarrow> list_all (\<lambda>rl. \<not> in_field rl i) rls \<Longrightarrow> data' ! i = d1 ! i"
    using Cons.IH [OF d1(2)] by auto
  have "field_done lk oi va data' rl" if ap: "list_all (fields_apart rl) rls"
  proof -
    have out: "in_field rl i \<Longrightarrow> list_all (\<lambda>rl. \<not> in_field rl i) rls" for i
      using ap by (force simp: list_all_iff in_field_def fields_apart_def)
    have "take (length bs) (drop (unat (rel_off rl)) data') = bs"
    proof (rule take_drop_nth_eq)
      fix j assume j: "j < length bs"
      have "in_field rl (unat (rel_off rl) + j)" using j bv(1) by (simp add: in_field_def)
      then have "data' ! (unat (rel_off rl) + j) = d1 ! (unat (rel_off rl) + j)"
        using IH(3) out pn(1,2) j by simp
      then show "data' ! (unat (rel_off rl) + j) = bs ! j" using pn(2,3) j by simp
    qed (use IH(1) pn in simp)
    then show ?thesis using S bv by (simp add: field_done_def Let_def)
  qed
  moreover have "data' ! i = data ! i" if "i < length data" "list_all (\<lambda>rl. \<not> in_field rl i) (rl # rls)" for i
    using that IH(3) [of i] pn(1) pn(3) [of i] bv(1) by (auto simp: in_field_def)
  ultimately show ?case using IH(1,2) pn(1) by simp
qed simp


text \<open>A call at \<open>0x1000\<close> to a local function at \<open>0x1010\<close>.\<close>

definition call_rela :: rela where
  "call_rela = \<lparr>rel_off = 1, rel_sym = 0, rel_type = R_X86_64_PLT32, rel_add = - 4\<rparr>"

definition call_section :: sec where
  "call_section = \<lparr>sec_name = ''.text'', sec_type = 1, sec_flags = 6, sec_size = 5, sec_align = 16,
     sec_data = Some [0xe8, 0, 0, 0, 0], sec_rel = [call_rela], sec_out = OUT_TEXT, sec_va = 0x1000\<rparr>"

definition call_linker :: linker where
  "call_linker = include_object linker_init \<lparr>o_name = ''a'', o_secs = [call_section],
     o_syms = [\<lparr>sym_name = ''f'', sym_value = 0x10, sym_size = 0, sym_shndx = 0, sym_bind = STB_LOCAL, sym_type = STT_FUNC\<rparr>]\<rparr>"

lemma call_relocated:
  "relocate_section call_linker 0 call_section = Inr (call_section\<lparr>sec_data := Some [0xe8, 0x0b, 0, 0, 0]\<rparr>)"
  by code_simp


end
