(* ===== verification/Link_Static.thy ===== *)
theory Link_Static
  imports Link_Reloc
begin

text \<open>
  Emitting the executable and the whole of \<^verbatim>\<open>elf_link_static\<close>, \<^verbatim>\<open>src/src/linker.c\<close>: the ELF
  header, one \<^verbatim>\<open>PT_LOAD\<close> per non-empty output section, and the section contents at file offset
  \<^verbatim>\<open>0x1000 + (va - base)\<close>.

  The files the linker reads are an argument \<open>fs\<close>, a finite map from paths to contents; the file
  it writes is its result.
\<close>

definition ET_EXEC :: u16 where "ET_EXEC = 2"
definition ET_DYN :: u16 where "ET_DYN = 3"
definition EM_X86_64 :: u16 where "EM_X86_64 = 62"
definition PT_LOAD :: u32 where "PT_LOAD = 1"
definition PT_GNU_STACK :: u32 where "PT_GNU_STACK = 0x6474e551"
definition PF_X :: u32 where "PF_X = 1"
definition PF_W :: u32 where "PF_W = 2"
definition PF_R :: u32 where "PF_R = 4"

definition elf_ident :: "u8 list" where
  "elf_ident = [0x7f, 0x45, 0x4c, 0x46, 2, 1, 1, 0, 0, 0, 0, 0, 0, 0, 0, 0]"

definition elf_header :: "u16 \<Rightarrow> u64 \<Rightarrow> u16 \<Rightarrow> u8 list" where
  "elf_header ty entry phnum =
     elf_ident @ le_bytes 2 ty @ le_bytes 2 EM_X86_64 @ le_bytes 4 (1 :: u32) @ le_bytes 8 entry
     @ le_bytes 8 (64 :: u64) @ le_bytes 8 (0 :: u64) @ le_bytes 4 (0 :: u32) @ le_bytes 2 (64 :: u16)
     @ le_bytes 2 (56 :: u16) @ le_bytes 2 phnum @ le_bytes 2 (0 :: u16) @ le_bytes 2 (0 :: u16)
     @ le_bytes 2 (0 :: u16)"

definition program_header :: "u32 \<Rightarrow> u32 \<Rightarrow> u64 \<Rightarrow> u64 \<Rightarrow> u64 \<Rightarrow> u64 \<Rightarrow> u64 \<Rightarrow> u8 list" where
  "program_header ty flags foff v filesz memsz al =
     le_bytes 4 ty @ le_bytes 4 flags @ le_bytes 8 foff @ le_bytes 8 v @ le_bytes 8 v
     @ le_bytes 8 filesz @ le_bytes 8 memsz @ le_bytes 8 al"

definition slot_flags :: "out_slot \<Rightarrow> u32" where
  "slot_flags slot =
     (if slot = OUT_TEXT then PF_R OR PF_X
      else if slot = OUT_DATA \<or> slot = OUT_INIT_ARRAY \<or> slot = OUT_BSS then PF_R OR PF_W
      else PF_R)"

definition slot_offset :: "u64 \<Rightarrow> u64 \<Rightarrow> u64" where
  "slot_offset base v = 0x1000 + (v - base)"

definition load_slots :: "layout \<Rightarrow> out_slot list" where
  "load_slots ly = filter (\<lambda>slot. ly_out_size ly slot > 0) out_slots"

definition load_header :: "u64 \<Rightarrow> layout \<Rightarrow> out_slot \<Rightarrow> u8 list" where
  "load_header base ly slot =
     (let v = ly_out_va ly slot
      in program_header PT_LOAD (slot_flags slot) (slot_offset base v) v
           (if slot = OUT_BSS then 0 else ly_out_size ly slot) (ly_out_size ly slot) 0x1000)"

definition static_headers :: "u64 \<Rightarrow> u64 \<Rightarrow> layout \<Rightarrow> u8 list" where
  "static_headers base entry ly =
     elf_header ET_EXEC entry (of_nat (length (load_slots ly) + 1))
     @ concat (map (load_header base ly) (load_slots ly))
     @ program_header PT_GNU_STACK (PF_R OR PF_W) 0 0 0 0 0"

definition pad_to :: "u64 \<Rightarrow> u8 list \<Rightarrow> u8 list" where
  "pad_to dst out =
     (if int (length out) < sint dst then out @ replicate (nat (sint dst) - length out) 0 else out)"

definition emit_section :: "u64 \<Rightarrow> out_slot \<Rightarrow> sec \<Rightarrow> u8 list \<Rightarrow> u8 list" where
  "emit_section base slot s out =
     (if \<not> in_slot slot s \<or> sec_type s = SHT_NOBITS then out
      else (case sec_data s of
              None \<Rightarrow> out
            | Some data \<Rightarrow> pad_to (slot_offset base (sec_va s)) out @ data))"

definition emit_slot :: "u64 \<Rightarrow> layout \<Rightarrow> obj list \<Rightarrow> out_slot \<Rightarrow> u8 list \<Rightarrow> u8 list" where
  "emit_slot base ly objs slot out =
     (if slot = OUT_BSS then out
      else fold (emit_section base slot) (concat (map o_secs objs))
             (pad_to (slot_offset base (ly_out_va ly slot)) out))"

definition static_image :: "u64 \<Rightarrow> u64 \<Rightarrow> layout \<Rightarrow> obj list \<Rightarrow> u8 list" where
  "static_image base entry ly objs =
     fold (emit_slot base ly objs) (load_slots ly) (static_headers base entry ly)"

definition entry_address :: "linker \<Rightarrow> string \<Rightarrow> link_error + u64" where
  "entry_address lk name =
     (case lk_globals lk name of
        None \<Rightarrow> Inl (Entry_Not_Found name)
      | Some gd \<Rightarrow>
        (let d = sym_at (lk_objs lk) gd; secs = o_secs (lk_objs lk ! fst gd)
         in if unat (sym_shndx d) < length secs then Inr (sec_va (secs ! unat (sym_shndx d)) + sym_value d)
            else Inl Bad_Index))"

datatype link_mode = LINK_STATIC_EXE | LINK_PIE | LINK_SHARED

record link_request =
  rq_inputs :: "string list"
  rq_archives :: "string list"
  rq_base_va :: u64
  rq_entry :: string
  rq_mode :: link_mode
  rq_needed :: "string list"
  rq_soname :: "string option"
  rq_interp :: "string option"

type_synonym file_system = "string \<Rightarrow> u8 list option"

definition load_input :: "file_system \<Rightarrow> string \<Rightarrow> linker \<Rightarrow> link_error + linker" where
  "load_input fs path lk =
     (case fs path of
        None \<Rightarrow> Inl (Fatal ''linker: cannot open input object'')
      | Some img \<Rightarrow> bnd (parse_object path img (int (length img))) (\<lambda>ob. Inr (include_object lk ob)))"

fun load_archives :: "file_system \<Rightarrow> string list \<Rightarrow> (link_error + archive list) option" where
  "load_archives fs [] = Some (Inr [])"
| "load_archives fs (path # paths) =
     (case fs path of
        None \<Rightarrow> Some (Inl (Fatal ''linker: cannot open archive''))
      | Some img \<Rightarrow>
        (case archive_load img of
           None \<Rightarrow> None
         | Some (Inl e) \<Rightarrow> Some (Inl e)
         | Some (Inr ar) \<Rightarrow>
           (case load_archives fs paths of
              None \<Rightarrow> None
            | Some (Inl e) \<Rightarrow> Some (Inl e)
            | Some (Inr ars) \<Rightarrow> Some (Inr (ar # ars)))))"

definition link_resolved :: "link_request \<Rightarrow> linker \<Rightarrow> link_error + u8 list" where
  "link_resolved req lk =
     (let (lk1, ly) = layout_linker lk (rq_base_va req)
      in bnd (relocate_all lk1) (\<lambda>objs.
         bnd (entry_address lk1 (rq_entry req)) (\<lambda>entry.
         Inr (static_image (rq_base_va req) entry ly objs))))"

definition load_and_resolve :: "file_system \<Rightarrow> link_request \<Rightarrow> (link_error + linker) option" where
  "load_and_resolve fs req =
     (case fold_err (load_input fs) (rq_inputs req) linker_init of
        Inl e \<Rightarrow> Some (Inl e)
      | Inr lk \<Rightarrow>
        (case load_archives fs (rq_archives req) of
           None \<Rightarrow> None
         | Some (Inl e) \<Rightarrow> Some (Inl e)
         | Some (Inr ars) \<Rightarrow>
           map_option (\<lambda>r. bnd r (\<lambda>rs. Inr (rs_lk rs)))
             (resolve_all \<lparr>rs_lk = lk, rs_archives = ars, rs_progress = False\<rparr>)))"

definition elf_link_static :: "file_system \<Rightarrow> link_request \<Rightarrow> (link_error + u8 list) option" where
  "elf_link_static fs req = map_option (\<lambda>r. bnd r (link_resolved req)) (load_and_resolve fs req)"

subsection \<open>What a loader finds in the image\<close>

definition slice :: "u8 list \<Rightarrow> nat \<Rightarrow> nat \<Rightarrow> nat" where
  "slice img off n = le_nat (take n (drop off img))"

definition ph_field :: "u8 list \<Rightarrow> nat \<Rightarrow> nat \<Rightarrow> nat \<Rightarrow> nat" where
  "ph_field img k off n = slice img (64 + 56 * k + off) n"

text \<open>A loadable segment that maps the bytes \<open>bs\<close> at address \<open>va\<close>, and one that maps zeros.\<close>

definition maps_bytes :: "u8 list \<Rightarrow> nat \<Rightarrow> u8 list \<Rightarrow> bool" where
  "maps_bytes img va bs \<longleftrightarrow> list_ex (\<lambda>k.
     let off = ph_field img k 8 8; v = ph_field img k 16 8; filesz = ph_field img k 32 8
     in ph_field img k 0 4 = 1 \<and> v \<le> va \<and> va + length bs \<le> v + filesz
        \<and> take (length bs) (drop (off + (va - v)) img) = bs) [0..<slice img 56 2]"

definition maps_zeros :: "u8 list \<Rightarrow> nat \<Rightarrow> nat \<Rightarrow> bool" where
  "maps_zeros img va n \<longleftrightarrow> list_ex (\<lambda>k.
     let v = ph_field img k 16 8; filesz = ph_field img k 32 8; memsz = ph_field img k 40 8
     in ph_field img k 0 4 = 1 \<and> v + filesz \<le> va \<and> va + n \<le> v + memsz) [0..<slice img 56 2]"

lemma length_elf_header [simp]: "length (elf_header ty entry phnum) = 64"
  by (simp add: elf_header_def elf_ident_def)

lemma length_program_header [simp]: "length (program_header ty flags foff v filesz memsz al) = 56"
  by (simp add: program_header_def)

lemma length_load_header [simp]: "length (load_header base ly slot) = 56"
  by (simp add: load_header_def Let_def)

lemma length_concat_const: "(\<And>x. length (f x) = n) \<Longrightarrow> length (concat (map f xs)) = n * length xs"
  by (induction xs) auto

lemma concat_chunk:
  "(\<And>x. length (f x) = n) \<Longrightarrow> k < length xs \<Longrightarrow> take n (drop (n * k) (concat (map f xs) @ ys)) = f (xs ! k)"
proof (induction xs arbitrary: k)
  case (Cons x xs)
  show ?case
  proof (cases k)
    case (Suc j)
    with Cons.IH [of j] Cons.prems show ?thesis by simp
  qed (use Cons.prems in simp)
qed simp

lemma take_take_drop: "o' + n \<le> m \<Longrightarrow> take n (drop (p + o') xs) = take n (drop o' (take m (drop p xs)))"
  by (simp add: drop_take min_def add.commute)

lemma unat_mod64: "unat (w :: u64) mod 256 ^ 8 = unat w"
proof -
  have "unat w < 2 ^ LENGTH(64)" by (rule unsigned_less)
  then show ?thesis by simp
qed

lemma program_header_fields:
  "le_nat (take 4 (program_header ty flags foff v filesz memsz al)) = unat ty mod 256 ^ 4"
  "le_nat (take 8 (drop 8 (program_header ty flags foff v filesz memsz al))) = unat foff"
  "le_nat (take 8 (drop 16 (program_header ty flags foff v filesz memsz al))) = unat v"
  "le_nat (take 8 (drop 32 (program_header ty flags foff v filesz memsz al))) = unat filesz"
  "le_nat (take 8 (drop 40 (program_header ty flags foff v filesz memsz al))) = unat memsz"
  using unat_mod64 by (simp_all add: program_header_def)

lemma static_header_fields:
  assumes "img = static_headers base entry ly @ rest"
  shows "slice img 56 2 = length (load_slots ly) + 1" "slice img 24 8 = unat entry"
    "take 4 img = elf_magic"
    "k < length (load_slots ly) \<Longrightarrow> ph_field img k 0 4 = 1"
    "k < length (load_slots ly) \<Longrightarrow> ph_field img k 8 8 = unat (slot_offset base (ly_out_va ly (load_slots ly ! k)))"
    "k < length (load_slots ly) \<Longrightarrow> ph_field img k 16 8 = unat (ly_out_va ly (load_slots ly ! k))"
    "k < length (load_slots ly) \<Longrightarrow> ph_field img k 32 8 =
       (if load_slots ly ! k = OUT_BSS then 0 else unat (ly_out_size ly (load_slots ly ! k)))"
    "k < length (load_slots ly) \<Longrightarrow> ph_field img k 40 8 = unat (ly_out_size ly (load_slots ly ! k))"
proof -
  have n: "length (load_slots ly) \<le> 5" by (simp add: load_slots_def out_slots_def)
  then have "unat (of_nat (length (load_slots ly) + 1) :: u16) = length (load_slots ly) + 1"
    by (simp only: unat_of_nat) simp
  then show "slice img 56 2 = length (load_slots ly) + 1"
    using n by (simp add: slice_def assms static_headers_def elf_header_def elf_ident_def)
  show "slice img 24 8 = unat entry"
    using unat_mod64 by (simp add: slice_def assms static_headers_def elf_header_def elf_ident_def)
  show "take 4 img = elf_magic"
    by (simp add: assms static_headers_def elf_header_def elf_ident_def elf_magic_def)
  assume k: "k < length (load_slots ly)"
  have c: "take 56 (drop (64 + 56 * k) img) = load_header base ly (load_slots ly ! k)"
  proof -
    have "drop 64 img = concat (map (load_header base ly) (load_slots ly))
        @ (program_header PT_GNU_STACK (PF_R OR PF_W) 0 0 0 0 0 @ rest)"
      by (simp add: assms static_headers_def)
    then have "drop (56 * k) (drop 64 img) = drop (56 * k) (concat (map (load_header base ly) (load_slots ly))
        @ (program_header PT_GNU_STACK (PF_R OR PF_W) 0 0 0 0 0 @ rest))" by (rule arg_cong)
    then show ?thesis
      by (simp only: drop_drop add.commute [of "56 * k"] concat_chunk [OF length_load_header k])
  qed
  have f: "ph_field img k o' n = le_nat (take n (drop o' (load_header base ly (load_slots ly ! k))))"
    if "o' + n \<le> 56" for o' n
    unfolding ph_field_def slice_def by (subst take_take_drop [OF that]) (simp only: c)
  show "ph_field img k 0 4 = 1" "ph_field img k 8 8 = unat (slot_offset base (ly_out_va ly (load_slots ly ! k)))"
    "ph_field img k 16 8 = unat (ly_out_va ly (load_slots ly ! k))"
    "ph_field img k 32 8 = (if load_slots ly ! k = OUT_BSS then 0 else unat (ly_out_size ly (load_slots ly ! k)))"
    "ph_field img k 40 8 = unat (ly_out_size ly (load_slots ly ! k))"
    by (simp_all add: f load_header_def Let_def program_header_fields PT_LOAD_def)
qed

subsection \<open>Section contents stand at their file offsets\<close>

definition file_pos :: "u64 \<Rightarrow> nat \<Rightarrow> nat" where
  "file_pos base v = 0x1000 + (v - unat base)"

lemma slot_offset_pos:
  assumes "unat base \<le> unat v" "file_pos base (unat v) < 2 ^ 63"
  shows "unat (slot_offset base v) = file_pos base (unat v)" "sint (slot_offset base v) = int (file_pos base (unat v))"
proof -
  have d: "unat (v - base) = unat v - unat base" using assms(1) by (simp add: unat_sub word_le_nat_alt)
  have e: "unat (slot_offset base v) = file_pos base (unat v)"
    unfolding slot_offset_def using assms(2) d
    by (subst unat_plus_no_wrap) (simp_all add: file_pos_def)
  then show "unat (slot_offset base v) = file_pos base (unat v)" .
  have u: "uint (slot_offset base v) = int (file_pos base (unat v))" by (metis e uint_nat)
  have "sint (slot_offset base v) = signed_take_bit 63 (int (file_pos base (unat v)))"
    by (simp add: sint_uint u)
  also have "\<dots> = int (file_pos base (unat v))"
    using assms(2) by (intro signed_take_bit_int_eq_self) simp_all
  finally show "sint (slot_offset base v) = int (file_pos base (unat v))" .
qed

lemma pad_to_pos: "sint dst = int p \<Longrightarrow> length out \<le> p \<Longrightarrow> pad_to dst out = out @ replicate (p - length out) 0"
  by (auto simp: pad_to_def)

definition data_ok :: "sec \<Rightarrow> bool" where
  "data_ok s \<longleftrightarrow> (case sec_data s of None \<Rightarrow> True | Some d \<Rightarrow> sec_type s \<noteq> SHT_NOBITS \<and> length d = unat (sec_size s))"

definition stands_at :: "u8 list \<Rightarrow> nat \<Rightarrow> u8 list \<Rightarrow> bool" where
  "stands_at img p bs \<longleftrightarrow> p + length bs \<le> length img \<and> take (length bs) (drop p img) = bs"

lemma stands_at_append: "stands_at img p bs \<Longrightarrow> stands_at (img @ more_bytes) p bs"
  by (auto simp: stands_at_def)

definition emitted :: "u64 \<Rightarrow> out_slot \<Rightarrow> sec list \<Rightarrow> u8 list \<Rightarrow> bool" where
  "emitted base slot ss img \<longleftrightarrow> list_all (\<lambda>s. in_slot slot s \<longrightarrow>
     (case sec_data s of None \<Rightarrow> True | Some d \<Rightarrow> stands_at img (file_pos base (unat (sec_va s))) d)) ss"

lemma emitted_append: "emitted base slot ss img \<Longrightarrow> emitted base slot ss (img @ more_bytes)"
  by (auto simp: emitted_def list_all_iff stands_at_append split: option.splits)

lemma file_pos_mono: "v \<le> w \<Longrightarrow> file_pos base v \<le> file_pos base w"
  by (simp add: file_pos_def)

lemma file_pos_add: "unat base \<le> v \<Longrightarrow> file_pos base (v + n) = file_pos base v + n"
  by (simp add: file_pos_def)

lemma emit_sections:
  assumes "ascending lo (map sec_block (filter (in_slot slot) ss)) hi" "unat base \<le> lo" "file_pos base hi < 2 ^ 63"
    "length out \<le> file_pos base lo" "list_all data_ok ss"
  shows "\<exists>t. fold (emit_section base slot) ss out = out @ t \<and> length (out @ t) \<le> file_pos base hi
     \<and> emitted base slot ss (out @ t)"
  using assms
proof (induction ss arbitrary: lo out)
  case Nil
  then show ?case using file_pos_mono [of lo hi base] by (simp add: emitted_def)
next
  case (Cons s ss)
  show ?case
  proof (cases "in_slot slot s")
    case False
    then have "emit_section base slot s out = out" by (simp add: emit_section_def)
    with Cons.IH [of lo out] Cons.prems False show ?thesis by (simp add: emitted_def)
  next
    case True
    let ?a = "unat (sec_va s)" and ?n = "unat (sec_size s)"
    from True Cons.prems(1) have a: "lo \<le> ?a" "ascending (?a + ?n) (map sec_block (filter (in_slot slot) ss)) hi"
      by (simp_all add: sec_block_def [of s])
    have hi: "?a + ?n \<le> hi" using ascending_le a(2) by blast
    have b: "unat base \<le> ?a" using a(1) Cons.prems(2) by simp
    have pos: "file_pos base ?a + ?n \<le> file_pos base hi"
      using file_pos_mono [OF hi, of base] file_pos_add [OF b, of ?n] by simp
    have out: "length out \<le> file_pos base ?a" using Cons.prems(4) file_pos_mono [OF a(1), of base] by simp
    show ?thesis
    proof (cases "sec_data s")
      case None
      then have e: "emit_section base slot s out = out" by (simp add: emit_section_def)
      have "length out \<le> file_pos base (?a + ?n)" using out file_pos_add [OF b, of ?n] by simp
      with Cons.IH [OF a(2) _ Cons.prems(3) this] b Cons.prems(5) e None show ?thesis
        by (simp add: emitted_def)
    next
      case (Some d)
      let ?p = "file_pos base ?a"
      have d: "length d = ?n" "sec_type s \<noteq> SHT_NOBITS" using Cons.prems(5) Some by (simp_all add: data_ok_def)
      have "?p < 2 ^ 63" using pos Cons.prems(3) by simp
      note so = slot_offset_pos [OF b this]
      let ?out = "(out @ replicate (?p - length out) 0) @ d"
      have e: "emit_section base slot s out = ?out"
        using True d(2) Some pad_to_pos [OF so(2) out] by (simp add: emit_section_def)
      have len: "length ?out = ?p + ?n" using out d(1) by simp
      then have "length ?out \<le> file_pos base (?a + ?n)" using file_pos_add [OF b, of ?n] by simp
      from Cons.IH [OF a(2) _ Cons.prems(3) this] b Cons.prems(5) obtain t where
        t: "fold (emit_section base slot) ss ?out = ?out @ t" "length (?out @ t) \<le> file_pos base hi"
        "emitted base slot ss (?out @ t)" by auto
      have "stands_at ?out ?p d" using out d(1) by (simp add: stands_at_def)
      then have "stands_at (?out @ t) ?p d" by (rule stands_at_append)
      then have "emitted base slot (s # ss) (?out @ t)" using t(3) Some by (simp add: emitted_def)
      moreover have "fold (emit_section base slot) (s # ss) out = ?out @ t" using e t(1) by simp
      ultimately show ?thesis using t(2)
        by (intro exI [of _ "replicate (?p - length out) 0 @ d @ t"]) simp
    qed
  qed
qed

lemma emit_slot_contents:
  assumes "ascending (fst (extent ly slot)) (slot_blocks slot objs) (snd (extent ly slot))"
    "slot \<noteq> OUT_BSS" "unat base \<le> fst (extent ly slot)" "file_pos base (snd (extent ly slot)) < 2 ^ 63"
    "length out \<le> file_pos base (fst (extent ly slot))" "list_all data_ok (concat (map o_secs objs))"
  shows "\<exists>t. emit_slot base ly objs slot out = out @ t
     \<and> length (out @ t) \<le> file_pos base (snd (extent ly slot)) \<and> emitted base slot (concat (map o_secs objs)) (out @ t)"
proof -
  let ?v = "ly_out_va ly slot" and ?ss = "concat (map o_secs objs)"
  have v: "fst (extent ly slot) = unat ?v" by (simp add: extent_def)
  let ?p = "file_pos base (unat ?v)"
  have "fst (extent ly slot) \<le> snd (extent ly slot)" by (simp add: extent_def)
  then have "?p < 2 ^ 63" using assms(4) file_pos_mono [of "unat ?v" "snd (extent ly slot)" base] v by simp
  note so = slot_offset_pos [OF _ this]
  have b: "unat base \<le> unat ?v" using assms(3) v by simp
  let ?out = "out @ replicate (?p - length out) 0"
  have pad: "pad_to (slot_offset base ?v) out = ?out" using pad_to_pos [OF so(2) [OF b]] assms(5) v by simp
  have asc: "ascending (unat ?v) (map sec_block (filter (in_slot slot) ?ss)) (snd (extent ly slot))"
    using assms(1) v by (simp add: slot_blocks_def)
  have "length ?out \<le> ?p" using assms(5) v by simp
  from emit_sections [OF asc b assms(4) this assms(6)] obtain t where
    "fold (emit_section base slot) ?ss ?out = ?out @ t" "length (?out @ t) \<le> file_pos base (snd (extent ly slot))"
    "emitted base slot ?ss (?out @ t)" by blast
  then show ?thesis
    using assms(2) pad by (intro exI [of _ "replicate (?p - length out) 0 @ t"]) (simp add: emit_slot_def)
qed

lemma emit_slots:
  assumes "ascending lo (map (slot_block ly) slots) hi" "unat base \<le> lo" "file_pos base hi < 2 ^ 63"
    "length out \<le> file_pos base lo" "list_all data_ok (concat (map o_secs objs))"
    "\<forall>slot \<in> set slots. slot \<noteq> OUT_BSS \<longrightarrow> ascending (fst (extent ly slot)) (slot_blocks slot objs) (snd (extent ly slot))"
  shows "\<exists>t. fold (emit_slot base ly objs) (filter (\<lambda>slot. ly_out_size ly slot > 0) slots) out = out @ t
     \<and> (\<forall>slot \<in> set slots. slot \<noteq> OUT_BSS \<and> ly_out_size ly slot > 0 \<longrightarrow> emitted base slot (concat (map o_secs objs)) (out @ t))"
  using assms
proof (induction slots arbitrary: lo out)
  case (Cons slot slots)
  let ?ss = "concat (map o_secs objs)" and ?f = "fst (extent ly slot)" and ?e = "snd (extent ly slot)"
  from Cons.prems(1) have a: "lo \<le> ?f" "?f \<le> ?e" "ascending ?e (map (slot_block ly) slots) hi"
    by (simp_all add: slot_block_def [of ly slot] extent_def)
  have he: "file_pos base ?e < 2 ^ 63" using file_pos_mono [OF ascending_le [OF a(3)], of base] Cons.prems(3) by simp
  have b: "unat base \<le> ?f" "unat base \<le> ?e" using a(1,2) Cons.prems(2) by simp_all
  have out: "length out \<le> file_pos base ?f" "length out \<le> file_pos base ?e"
    using Cons.prems(4) file_pos_mono [of lo ?f base] file_pos_mono [of ?f ?e base] a(1,2) by simp_all
  note IH = Cons.IH [OF a(3) b(2) Cons.prems(3) _ Cons.prems(5)]
  show ?case
  proof (cases "ly_out_size ly slot > 0 \<and> slot \<noteq> OUT_BSS")
    case False
    then have skip: "fold (emit_slot base ly objs) (filter (\<lambda>slot. ly_out_size ly slot > 0) (slot # slots)) out
        = fold (emit_slot base ly objs) (filter (\<lambda>slot. ly_out_size ly slot > 0) slots) out"
      by (auto simp: emit_slot_def)
    from IH [OF out(2)] Cons.prems(6) obtain t where
      "fold (emit_slot base ly objs) (filter (\<lambda>slot. ly_out_size ly slot > 0) slots) out = out @ t"
      "\<forall>slot \<in> set slots. slot \<noteq> OUT_BSS \<and> ly_out_size ly slot > 0 \<longrightarrow> emitted base slot ?ss (out @ t)" by auto
    with skip False show ?thesis by (intro exI [of _ t]) auto
  next
    case True
    from emit_slot_contents [OF _ _ b(1) he out(1) Cons.prems(5)] True Cons.prems(6) obtain u where
      u: "emit_slot base ly objs slot out = out @ u" "length (out @ u) \<le> file_pos base ?e" "emitted base slot ?ss (out @ u)"
      by auto
    from IH [OF u(2)] Cons.prems(6) obtain t where
      t: "fold (emit_slot base ly objs) (filter (\<lambda>slot. ly_out_size ly slot > 0) slots) (out @ u) = (out @ u) @ t"
      "\<forall>slot \<in> set slots. slot \<noteq> OUT_BSS \<and> ly_out_size ly slot > 0 \<longrightarrow> emitted base slot ?ss ((out @ u) @ t)" by auto
    have "emitted base slot ?ss ((out @ u) @ t)" using u(3) by (rule emitted_append)
    with t(2) have "\<forall>slot' \<in> set (slot # slots). slot' \<noteq> OUT_BSS \<and> ly_out_size ly slot' > 0 \<longrightarrow> emitted base slot' ?ss ((out @ u) @ t)"
      by simp
    moreover have "fold (emit_slot base ly objs) (filter (\<lambda>slot. ly_out_size ly slot > 0) (slot # slots)) out = (out @ u) @ t"
      using True u(1) t(1) by simp
    ultimately show ?thesis by (intro exI [of _ "u @ t"]) simp
  qed
qed simp

lemma ascending_in: "ascending lo bs hi \<Longrightarrow> (a, al, n) \<in> set bs \<Longrightarrow> lo \<le> a \<and> a + n \<le> hi"
proof (induction bs arbitrary: lo)
  case (Cons b bs)
  obtain a' al' n' where b: "b = (a', al', n')" by (cases b)
  with Cons.prems(1) have a: "lo \<le> a'" "ascending (a' + n') bs hi" by simp_all
  show ?case
  proof (cases "(a, al, n) = b")
    case True
    then show ?thesis using a ascending_le [OF a(2)] b by simp
  next
    case False
    then show ?thesis using Cons.IH [OF a(2)] Cons.prems(2) a(1) by simp
  qed
qed simp

definition section_loaded :: "u8 list \<Rightarrow> sec \<Rightarrow> bool" where
  "section_loaded img s \<longleftrightarrow> (in_slot (sec_out s) s \<longrightarrow>
     (case sec_data s of
        Some d \<Rightarrow> maps_bytes img (unat (sec_va s)) d
      | None \<Rightarrow> sec_size s \<noteq> 0 \<longrightarrow> maps_zeros img (unat (sec_va s)) (unat (sec_size s))))"

definition block_zeros :: "u8 list \<Rightarrow> block \<Rightarrow> bool" where
  "block_zeros img b = (case b of (a, _, n) \<Rightarrow> n \<noteq> 0 \<longrightarrow> maps_zeros img a n)"

lemma sec_ok_slot:
  assumes "sec_ok s" "in_slot (sec_out s) s"
  shows "sec_out s \<in> set out_slots" "sec_data s = None \<Longrightarrow> sec_size s \<noteq> 0 \<Longrightarrow> sec_out s = OUT_BSS"
    "sec_data s = Some d \<Longrightarrow> sec_out s \<noteq> OUT_BSS \<and> sec_size s \<noteq> 0 \<and> length d = unat (sec_size s)"
proof -
  from assms show "sec_out s \<in> set out_slots"
    by (auto simp: sec_ok_def in_slot_def classify_section_def out_slots_def)
  from assms show "sec_data s = None \<Longrightarrow> sec_size s \<noteq> 0 \<Longrightarrow> sec_out s = OUT_BSS"
    by (auto simp: sec_ok_def in_slot_def classify_section_def)
  from assms show "sec_data s = Some d \<Longrightarrow> sec_out s \<noteq> OUT_BSS \<and> sec_size s \<noteq> 0 \<and> length d = unat (sec_size s)"
    by (auto simp: sec_ok_def in_slot_def classify_section_def split: if_splits)
qed

definition same_place :: "sec \<Rightarrow> sec \<Rightarrow> bool" where
  "same_place s s' \<longleftrightarrow> sec_block s' = sec_block s \<and> sec_out s' = sec_out s \<and> sec_flags s' = sec_flags s \<and> (sec_ok s \<longrightarrow> sec_ok s')"

lemma fold_patch_length: "fold_err (apply_rela lk oi va) rls data = Inr data' \<Longrightarrow> length data' = length data"
  by (erule fold_err_invariant [where I = "\<lambda>d. length d = length data"])
    (auto simp: apply_rela_def dest: patch_nth(1))

lemma relocate_section_same: "relocate_section lk oi s = Inr s' \<Longrightarrow> same_place s s'"
  by (auto simp: relocate_section_def same_place_def sec_block_def sec_ok_def fold_patch_length split: option.splits)

lemma relocate_all_same:
  assumes "relocate_all lk = Inr objs"
  shows "list_all2 same_place (concat (map o_secs (lk_objs lk))) (concat (map o_secs objs))"
proof -
  have len: "length objs = length (lk_objs lk)" using traverse_length assms by (fastforce simp: relocate_all_def)
  have "list_all2 same_place (o_secs (lk_objs lk ! i)) (o_secs (objs ! i))" if "i < length objs" for i
  proof -
    have "relocate_object lk i = Inr (objs ! i)"
      using traverse_nth [OF assms [unfolded relocate_all_def], of i] that len by simp
    then obtain secs where "traverse (relocate_section lk i) (o_secs (lk_objs lk ! i)) = Inr secs"
      "objs ! i = (lk_objs lk ! i)\<lparr>o_secs := secs\<rparr>"
      by (auto simp: relocate_object_def Let_def)
    with traverse_all2 [OF this(1)] show ?thesis using relocate_section_same by (auto elim: list_all2_mono)
  qed
  then have "list_all2 (list_all2 same_place) (map o_secs (lk_objs lk)) (map o_secs objs)"
    using len by (simp add: list_all2_conv_all_nth)
  then show ?thesis by (induction rule: list_all2_induct) (auto intro: list_all2_appendI)
qed

lemma same_place_blocks:
  "list_all2 same_place ss ss' \<Longrightarrow>
     map sec_block (filter (in_slot slot) ss') = map sec_block (filter (in_slot slot) ss)
     \<and> (list_all sec_ok ss \<longrightarrow> list_all sec_ok ss')"
  by (induction rule: list_all2_induct) (auto simp: same_place_def in_slot_def)

lemma placed_blocks:
  "list_all2 obj_placed objs objs' \<Longrightarrow> list_all obj_ok objs \<Longrightarrow> list_all sec_ok (concat (map o_secs objs'))"
proof (induction rule: list_all2_induct)
  case (Cons ob objs ob' objs')
  have va: "sec_ok s \<Longrightarrow> sec_ok (s\<lparr>sec_va := v\<rparr>)" for s v
    by (cases "sec_data s") (simp_all add: sec_ok_def)
  have "list_all2 sec_moved ss ss' \<Longrightarrow> list_all sec_ok ss \<longrightarrow> list_all sec_ok ss'" for ss ss'
    by (induction rule: list_all2_induct) (auto simp: sec_moved_def va)
  with Cons show ?case by (auto simp: obj_placed_def obj_ok_def)
qed simp

lemma load_slot_index:
  "slot \<in> set out_slots \<Longrightarrow> ly_out_size ly slot > 0 \<Longrightarrow> \<exists>k < length (load_slots ly). load_slots ly ! k = slot"
  by (simp add: load_slots_def in_set_conv_nth [symmetric])

lemma loaded_bytes:
  assumes "img = static_headers base entry ly @ rest" "slot \<in> set out_slots" "slot \<noteq> OUT_BSS"
    "fst (extent ly slot) \<le> va" "va + length d \<le> snd (extent ly slot)" "d \<noteq> []"
    "stands_at img (file_pos base va) d" "unat base \<le> fst (extent ly slot)" "file_pos base (snd (extent ly slot)) < 2 ^ 63"
  shows "maps_bytes img va d"
proof -
  let ?v = "ly_out_va ly slot"
  have v: "fst (extent ly slot) = unat ?v" "snd (extent ly slot) = unat ?v + unat (ly_out_size ly slot)"
    by (simp_all add: extent_def)
  have "0 < length d" using assms(6) by simp
  then have "0 < unat (ly_out_size ly slot)" using assms(4,5) v by linarith
  then have "ly_out_size ly slot > 0" by (simp add: word_less_nat_alt)
  from load_slot_index [OF assms(2) this] obtain k where k: "k < length (load_slots ly)" "load_slots ly ! k = slot" by blast
  note h = static_header_fields [OF assms(1)]
  have "file_pos base (unat ?v) < 2 ^ 63"
    using assms(9) file_pos_mono [of "unat ?v" "snd (extent ly slot)" base] v by simp
  then have off: "unat (slot_offset base ?v) = file_pos base (unat ?v)"
    using slot_offset_pos(1) assms(8) v by simp
  have "file_pos base (unat ?v) + (va - unat ?v) = file_pos base va"
    using file_pos_add [of base "unat ?v" "va - unat ?v"] assms(4,8) v by simp
  then show ?thesis
    unfolding maps_bytes_def list_ex_iff
    using k h(1) h(4-8) [OF k(1)] assms(3,4,5,7) v off
    by (intro bexI [of _ k]) (simp_all add: Let_def stands_at_def)
qed

lemma loaded_zeros:
  assumes "img = static_headers base entry ly @ rest" "fst (extent ly OUT_BSS) \<le> va" "va + n \<le> snd (extent ly OUT_BSS)" "n \<noteq> 0"
  shows "maps_zeros img va n"
proof -
  have v: "fst (extent ly OUT_BSS) = unat (ly_out_va ly OUT_BSS)"
    "snd (extent ly OUT_BSS) = unat (ly_out_va ly OUT_BSS) + unat (ly_out_size ly OUT_BSS)" by (simp_all add: extent_def)
  then have "0 < unat (ly_out_size ly OUT_BSS)" using assms by linarith
  then have "ly_out_size ly OUT_BSS > 0" by (simp add: word_less_nat_alt)
  from load_slot_index [OF _ this] obtain k where k: "k < length (load_slots ly)" "load_slots ly ! k = OUT_BSS"
    by (auto simp: out_slots_def)
  show ?thesis
    unfolding maps_zeros_def list_ex_iff
    using k static_header_fields [OF assms(1)] assms(2,3) v
    by (intro bexI [of _ k]) (simp_all add: Let_def)
qed

lemma static_image_loaded:
  assumes ok: "list_all obj_ok objs" "list_all aligns_ok objs"
    and room: "unat base + layout_room objs + 0x1000 < 2 ^ 63"
    and ly: "ly = layout_objects objs base"
    and rel: "list_all2 same_place (concat (map o_secs (ly_objs ly))) (concat (map o_secs objs'))"
    and img: "img = static_image base entry ly objs'"
  shows "(\<exists>rest. img = static_headers base entry ly @ rest)
    \<and> list_all (section_loaded img) (concat (map o_secs objs'))
    \<and> list_all (block_zeros img) (common_blocks objs (ly_objs ly))"
proof -
  let ?ss = "concat (map o_secs objs')" and ?hi = "unat base + layout_room objs"
  have "unat base + layout_room objs < 2 ^ 64" using room by simp
  note placed = layout_objects_placed [OF ok(2) this, folded ly]
  have asc: "ascending (unat base) (map (slot_block ly) out_slots) ?hi" using placed by blast
  have hi: "file_pos base ?hi < 2 ^ 63" using room by (simp add: file_pos_def)
  have secs: "list_all sec_ok ?ss"
    using same_place_blocks [OF rel] placed_blocks [OF layout_placed ok(1), of base] ly by simp
  then have data: "list_all data_ok ?ss" by (auto simp: list_all_iff sec_ok_def data_ok_def split: option.splits)
  have blocks: "slot_blocks slot objs' = slot_blocks slot (ly_objs ly)" for slot
    using same_place_blocks [OF rel] by (simp add: slot_blocks_def)
  have each: "ascending (fst (extent ly slot)) (slot_blocks slot objs' @ bss_commons objs ly slot) (snd (extent ly slot))"
    if "slot \<in> set out_slots" for slot
    using placed that blocks by (simp add: list_all_iff layout_blocks_def)
  have range: "unat base \<le> fst (extent ly slot) \<and> file_pos base (snd (extent ly slot)) < 2 ^ 63" if "slot \<in> set out_slots" for slot
  proof -
    have "slot_block ly slot \<in> set (map (slot_block ly) out_slots)" using that by simp
    then have "unat base \<le> fst (extent ly slot)" "snd (extent ly slot) \<le> ?hi"
      using ascending_in [OF asc] by (auto simp: slot_block_def extent_def)
    then show ?thesis using file_pos_mono [of "snd (extent ly slot)" ?hi base] hi by simp
  qed
  have "length (load_slots ly) \<le> 5" by (simp add: load_slots_def out_slots_def)
  then have len: "length (static_headers base entry ly) \<le> file_pos base (unat base)"
    by (simp add: static_headers_def file_pos_def length_concat_const [where n = 56])
  have "\<forall>slot \<in> set out_slots. slot \<noteq> OUT_BSS \<longrightarrow> ascending (fst (extent ly slot)) (slot_blocks slot objs') (snd (extent ly slot))"
  proof (intro ballI impI)
    fix slot assume "slot \<in> set out_slots" "slot \<noteq> OUT_BSS"
    with each [of slot] show "ascending (fst (extent ly slot)) (slot_blocks slot objs') (snd (extent ly slot))"
      by (simp add: bss_commons_def)
  qed
  from emit_slots [OF asc order_refl hi len data this] img obtain t where t: "img = static_headers base entry ly @ t"
    "\<forall>slot \<in> set out_slots. slot \<noteq> OUT_BSS \<and> ly_out_size ly slot > 0 \<longrightarrow> emitted base slot ?ss img"
    by (auto simp: static_image_def load_slots_def)
  have "section_loaded img s" if s: "s \<in> set ?ss" for s
    unfolding section_loaded_def
  proof (intro impI)
    assume slot: "in_slot (sec_out s) s"
    have "sec_ok s" using secs s unfolding list_all_iff by blast
    note so = sec_ok_slot [OF this slot]
    have "sec_block s \<in> set (slot_blocks (sec_out s) objs' @ bss_commons objs ly (sec_out s))"
      using s slot by (auto simp: slot_blocks_def)
    then have inside: "fst (extent ly (sec_out s)) \<le> unat (sec_va s)" "unat (sec_va s) + unat (sec_size s) \<le> snd (extent ly (sec_out s))"
      using ascending_in [OF each [OF so(1)]] by (auto simp: sec_block_def)
    show "case sec_data s of Some d \<Rightarrow> maps_bytes img (unat (sec_va s)) d
        | None \<Rightarrow> sec_size s \<noteq> 0 \<longrightarrow> maps_zeros img (unat (sec_va s)) (unat (sec_size s))"
    proof (cases "sec_data s")
      case None
      then show ?thesis using so(2) inside loaded_zeros [OF t(1)] by (auto simp: unat_gt_0)
    next
      case (Some d)
      note d = so(3) [OF Some]
      then have "0 < unat (sec_size s)" by (simp add: unat_gt_0)
      then have "ly_out_size ly (sec_out s) > 0" using inside by (simp add: extent_def word_less_nat_alt)
      then have "emitted base (sec_out s) ?ss img" using t(2) so(1) d by blast
      then have "stands_at img (file_pos base (unat (sec_va s))) d"
        using s slot Some by (force simp: emitted_def list_all_iff)
      moreover have "d \<noteq> []" using d \<open>0 < unat (sec_size s)\<close> by auto
      ultimately have "maps_bytes img (unat (sec_va s)) d"
        using loaded_bytes [OF t(1) so(1)] d inside range [OF so(1)] by auto
      then show ?thesis using Some by simp
    qed
  qed
  moreover have "block_zeros img b" if "b \<in> set (common_blocks objs (ly_objs ly))" for b
  proof -
    obtain a al n where b: "b = (a, al, n)" by (cases b)
    have "OUT_BSS \<in> set out_slots" by (simp add: out_slots_def)
    from ascending_in [OF each [OF this], of a al n] that b
    have "fst (extent ly OUT_BSS) \<le> a" "a + n \<le> snd (extent ly OUT_BSS)" by (simp_all add: bss_commons_def)
    then show ?thesis using loaded_zeros [OF t(1)] by (simp add: b block_zeros_def)
  qed
  ultimately show ?thesis using t(1) by (auto simp: list_all_iff)
qed

subsection \<open>The static linker\<close>

lemma included_ok: "list_all obj_ok new \<Longrightarrow> list_all obj_ok (lk_objs lk) \<Longrightarrow> list_all obj_ok (lk_objs (foldl include_object lk new))"
  by (induction new arbitrary: lk) (auto simp: include_object_objs)

lemma load_inputs_ok: "fold_err (load_input fs) paths linker_init = Inr lk \<Longrightarrow> list_all obj_ok (lk_objs lk)"
  by (erule fold_err_invariant [where I = "\<lambda>lk. list_all obj_ok (lk_objs lk)"])
    (auto simp: linker_init_def load_input_def include_object_objs parse_object_ok split: option.splits)

lemma load_archives_total:
  "list_all (\<lambda>p. case fs p of None \<Rightarrow> True | Some img \<Rightarrow> member_sizes_ok img) paths \<Longrightarrow> \<exists>r. load_archives fs paths = Some r"
proof (induction paths)
  case (Cons path paths)
  then obtain r where r: "load_archives fs paths = Some r" by auto
  show ?case
  proof (cases "fs path")
    case (Some img)
    with Cons.prems archive_load_total [of img] obtain q where "archive_load img = Some q" by auto
    with Some r show ?thesis by (cases q; cases r) auto
  qed simp
qed simp

lemma load_archives_keeps: "load_archives fs paths = Some (Inr ars) \<Longrightarrow> list_all (archive_ok n) ars"
  by (induction paths arbitrary: ars) (auto simp: archive_load_keeps split: option.splits sum.splits)

lemma resolved_ok:
  assumes "fold_err (load_input fs) (rq_inputs req) linker_init = Inr lk" "load_archives fs (rq_archives req) = Some (Inr ars)"
  shows "\<exists>r. resolve_all \<lparr>rs_lk = lk, rs_archives = ars, rs_progress = False\<rparr> = Some r
    \<and> (\<forall>rs'. r = Inr rs' \<longrightarrow> list_all obj_ok (lk_objs (rs_lk rs')))"
proof -
  let ?rs = "\<lparr>rs_lk = lk, rs_archives = ars, rs_progress = False\<rparr>"
  have "resolver_ok ?rs" using load_archives_keeps [OF assms(2)] by (simp add: resolver_ok_def)
  from resolve_all_total [OF this] obtain q where q: "resolve_all ?rs = Some q"
    "\<And>rs'. q = Inr rs' \<Longrightarrow> \<exists>new. list_all obj_ok new \<and> rs_lk rs' = foldl include_object lk new" by fastforce
  have "list_all obj_ok (lk_objs (rs_lk rs'))" if "q = Inr rs'" for rs'
    using q(2) [OF that] included_ok load_inputs_ok [OF assms(1)] by auto
  with q(1) show ?thesis by blast
qed

lemma load_and_resolve_ok: "load_and_resolve fs req = Some (Inr lk) \<Longrightarrow> list_all obj_ok (lk_objs lk)"
  by (auto simp: load_and_resolve_def split: sum.splits option.splits) (drule (1) resolved_ok, simp)+

lemma load_and_resolve_total:
  "list_all (\<lambda>p. case fs p of None \<Rightarrow> True | Some img \<Rightarrow> member_sizes_ok img) (rq_archives req) \<Longrightarrow>
     \<exists>r. load_and_resolve fs req = Some r"
  using load_archives_total [of fs "rq_archives req"]
  by (auto simp: load_and_resolve_def split: sum.splits option.splits) (drule (1) resolved_ok, blast)+

lemma link_resolved_loaded:
  assumes "list_all obj_ok (lk_objs lk)" "list_all aligns_ok (lk_objs lk)"
    "unat (rq_base_va req) + layout_room (lk_objs lk) + 0x1000 < 2 ^ 63" "link_resolved req lk = Inr img"
  shows "\<exists>lk' ly objs entry. layout_linker lk (rq_base_va req) = (lk', ly) \<and> relocate_all lk' = Inr objs
     \<and> entry_address lk' (rq_entry req) = Inr entry \<and> take 4 img = elf_magic \<and> slice img 24 8 = unat entry
     \<and> list_all (section_loaded img) (concat (map o_secs objs))
     \<and> list_all (block_zeros img) (common_blocks (lk_objs lk) (lk_objs lk'))"
proof -
  let ?b = "rq_base_va req"
  obtain lk' ly where lay: "layout_linker lk ?b = (lk', ly)" by fastforce
  then have ly: "ly = layout_objects (lk_objs lk) ?b" "lk_objs lk' = ly_objs ly"
    by (auto simp: layout_linker_def Let_def)
  from assms(4) lay obtain objs entry where r: "relocate_all lk' = Inr objs" "entry_address lk' (rq_entry req) = Inr entry"
    "img = static_image ?b entry ly objs" by (auto simp: link_resolved_def)
  have "list_all2 same_place (concat (map o_secs (ly_objs ly))) (concat (map o_secs objs))"
    using relocate_all_same [OF r(1)] ly(2) by simp
  note l = static_image_loaded [OF assms(1,2,3) ly(1) this r(3)]
  then obtain rest where "img = static_headers ?b entry ly @ rest" by blast
  from static_header_fields(2,3) [OF this] l lay r ly(2) show ?thesis by auto
qed

subsection \<open>A small program\<close>

text \<open>An object file with a \<^verbatim>\<open>.text\<close> section that defines \<^verbatim>\<open>_start\<close>, as an assembler writes it, and
  an archive with one empty member.\<close>

definition demo_object :: "u8 list" where
  "demo_object = [
  127, 69, 76, 70, 2, 1, 1, 0, 0, 0, 0, 0, 0, 0, 0, 0, 1, 0, 62, 0, 1, 0, 0, 0, 0, 0, 0, 0, 0, 0, 
   0, 0, 0, 0, 0, 0, 0, 0, 0, 0, 152, 0, 0, 0, 0, 0, 0, 0, 0, 0, 0, 0, 64, 0, 0, 0, 0, 0, 64, 0, 4, 
   0, 3, 0, 184, 1, 0, 0, 0, 0, 0, 0, 0, 0, 0, 0, 0, 0, 0, 0, 0, 0, 0, 0, 0, 0, 0, 0, 0, 0, 0, 0, 
   0, 0, 0, 0, 7, 0, 0, 0, 18, 0, 1, 0, 0, 0, 0, 0, 0, 0, 0, 0, 5, 0, 0, 0, 0, 0, 0, 0, 0, 46, 116, 
   101, 120, 116, 0, 95, 115, 116, 97, 114, 116, 0, 46, 115, 116, 114, 116, 97, 98, 0, 46, 115, 
   121, 109, 116, 97, 98, 0, 0, 0, 0, 0, 0, 0, 0, 0, 0, 0, 0, 0, 0, 0, 0, 0, 0, 0, 0, 0, 0, 0, 0, 
   0, 0, 0, 0, 0, 0, 0, 0, 0, 0, 0, 0, 0, 0, 0, 0, 0, 0, 0, 0, 0, 0, 0, 0, 0, 0, 0, 0, 0, 0, 0, 0, 
   0, 0, 0, 0, 0, 0, 0, 0, 0, 0, 0, 1, 0, 0, 0, 1, 0, 0, 0, 6, 0, 0, 0, 0, 0, 0, 0, 0, 0, 0, 0, 0, 
   0, 0, 0, 64, 0, 0, 0, 0, 0, 0, 0, 5, 0, 0, 0, 0, 0, 0, 0, 0, 0, 0, 0, 0, 0, 0, 0, 16, 0, 0, 0, 
   0, 0, 0, 0, 0, 0, 0, 0, 0, 0, 0, 0, 22, 0, 0, 0, 2, 0, 0, 0, 0, 0, 0, 0, 0, 0, 0, 0, 0, 0, 0, 0, 
   0, 0, 0, 0, 72, 0, 0, 0, 0, 0, 0, 0, 48, 0, 0, 0, 0, 0, 0, 0, 3, 0, 0, 0, 1, 0, 0, 0, 8, 0, 0, 
   0, 0, 0, 0, 0, 24, 0, 0, 0, 0, 0, 0, 0, 14, 0, 0, 0, 3, 0, 0, 0, 0, 0, 0, 0, 0, 0, 0, 0, 0, 0, 
   0, 0, 0, 0, 0, 0, 120, 0, 0, 0, 0, 0, 0, 0, 30, 0, 0, 0, 0, 0, 0, 0, 0, 0, 0, 0, 0, 0, 0, 0, 1, 
   0, 0, 0, 0, 0, 0, 0, 0, 0, 0, 0, 0, 0, 0, 0]"

definition demo_parsed :: obj where
  "demo_parsed = \<lparr>o_name = ''crt0.o'', o_secs =
     [\<lparr>sec_name = [], sec_type = 0, sec_flags = 0, sec_size = 0, sec_align = 1, sec_data = None, sec_rel = [],
        sec_out = OUT_DISCARD, sec_va = 0\<rparr>,
      \<lparr>sec_name = ''.text'', sec_type = 1, sec_flags = 6, sec_size = 5, sec_align = 16,
        sec_data = Some [0xb8, 1, 0, 0, 0], sec_rel = [], sec_out = OUT_TEXT, sec_va = 0\<rparr>,
      \<lparr>sec_name = ''.symtab'', sec_type = 2, sec_flags = 0, sec_size = 48, sec_align = 8,
        sec_data = Some (take 48 (drop 72 demo_object)), sec_rel = [], sec_out = OUT_DISCARD, sec_va = 0\<rparr>,
      \<lparr>sec_name = ''.strtab'', sec_type = 3, sec_flags = 0, sec_size = 30, sec_align = 1,
        sec_data = Some (take 30 (drop 120 demo_object)), sec_rel = [], sec_out = OUT_DISCARD, sec_va = 0\<rparr>],
     o_syms =
     [\<lparr>sym_name = [], sym_value = 0, sym_size = 0, sym_shndx = 0, sym_bind = 0, sym_type = 0\<rparr>,
      \<lparr>sym_name = ''_start'', sym_value = 0, sym_size = 5, sym_shndx = 1, sym_bind = 1, sym_type = 2\<rparr>]\<rparr>"

lemma demo_parse: "parse_object ''crt0.o'' demo_object 408 = Inr demo_parsed"
  by code_simp

definition demo_fs :: file_system where "demo_fs = [''crt0.o'' \<mapsto> demo_object]"

definition demo_request :: link_request where
  "demo_request = \<lparr>rq_inputs = [''crt0.o''], rq_archives = [], rq_base_va = 0x2000000, rq_entry = ''_start'',
    rq_mode = LINK_STATIC_EXE, rq_needed = [], rq_soname = None, rq_interp = None\<rparr>"

definition demo_linker :: linker where "demo_linker = include_object linker_init demo_parsed"

lemma demo_objs: "lk_objs demo_linker = [demo_parsed]"
  by (simp add: demo_linker_def include_object_objs linker_init_def)

lemma demo_resolved: "load_and_resolve demo_fs demo_request = Some (Inr demo_linker)"
proof -
  have "int (length demo_object) = 408" by (simp add: demo_object_def)
  then have "fold_err (load_input demo_fs) (rq_inputs demo_request) linker_init = Inr demo_linker"
    using demo_parse by (simp add: demo_request_def load_input_def demo_fs_def demo_linker_def)
  moreover have "resolve_all \<lparr>rs_lk = demo_linker, rs_archives = [], rs_progress = False\<rparr>
      = Some (Inr \<lparr>rs_lk = demo_linker, rs_archives = [], rs_progress = False\<rparr>)"
  proof -
    have "fold_err resolve_symbol (o_syms demo_parsed) rs = Inr rs" for rs
      by (simp add: demo_parsed_def resolve_symbol_def undefined_symbol_def elf_consts)
    then have "resolve_objects 0 \<lparr>rs_lk = demo_linker, rs_archives = [], rs_progress = False\<rparr>
        = Some (Inr \<lparr>rs_lk = demo_linker, rs_archives = [], rs_progress = False\<rparr>)"
      by (subst resolve_objects.simps, simp add: demo_objs, subst resolve_objects.simps, simp add: demo_objs)
    then show ?thesis by (subst resolve_all.simps) (simp add: resolve_pass_def)
  qed
  ultimately show ?thesis by (simp add: load_and_resolve_def demo_request_def)
qed

lemma demo_linked: "\<exists>img. elf_link_static demo_fs demo_request = Some (Inr img)"
proof -
  obtain lk ly where l: "layout_linker demo_linker 0x2000000 = (lk, ly)" by fastforce
  have objs: "lk_objs lk = ly_objs (layout_objects [demo_parsed] 0x2000000)" "lk_globals lk = lk_globals demo_linker"
    using l by (auto simp: layout_linker_def Let_def demo_objs)
  have "ly_objs (layout_objects [demo_parsed] 0x2000000) = [demo_parsed\<lparr>o_secs :=
      (o_secs demo_parsed)[1 := (o_secs demo_parsed ! 1)\<lparr>sec_va := 0x2000000\<rparr>]\<rparr>]" by code_simp
  note objs = objs(1) [unfolded this] objs(2)
  have "relocate_all lk = Inr (lk_objs lk)"
    by (simp add: relocate_all_def objs relocate_object_def relocate_section_def demo_parsed_def)
  moreover have "entry_address lk ''_start'' = Inr 0x2000000"
  proof -
    have "lk_globals demo_linker ''_start'' = Some (0, 1)" by code_simp
    then show ?thesis by (simp add: entry_address_def objs demo_parsed_def sym_at_def)
  qed
  ultimately show ?thesis
    using l demo_resolved by (simp add: elf_link_static_def link_resolved_def demo_request_def)
qed

definition demo_archive :: "u8 list" where
  "demo_archive = ar_magic @ replicate 16 0x61 @ replicate 32 0x20 @ 0x30 # replicate 9 0x20 @ [0x60, 0x0a]"

text \<open>
  C1: The executable loads as the program that was linked: when the static linker succeeds on
  objects whose alignments are powers of two and that fit the address space, every allocated
  section of every linked object, with its relocations applied, is found at its virtual address
  in a loadable segment of the file written, \<^verbatim>\<open>.bss\<close> sections and COMMON symbols lie in
  zero-filled memory, and the header's entry point is the address of the entry symbol.
\<close>

theorem elf_link_static_loads:
  assumes "elf_link_static fs req = Some (Inr img)" "load_and_resolve fs req = Some (Inr lk)"
    "list_all aligns_ok (lk_objs lk)" "unat (rq_base_va req) + layout_room (lk_objs lk) + 0x1000 < 2 ^ 63"
  shows "\<exists>lk' ly objs entry. layout_linker lk (rq_base_va req) = (lk', ly) \<and> relocate_all lk' = Inr objs
     \<and> entry_address lk' (rq_entry req) = Inr entry \<and> take 4 img = elf_magic \<and> slice img 24 8 = unat entry
     \<and> list_all (section_loaded img) (concat (map o_secs objs))
     \<and> list_all (block_zeros img) (common_blocks (lk_objs lk) (lk_objs lk'))"
  using link_resolved_loaded [OF load_and_resolve_ok [OF assms(2)] assms(3,4)] assms(1,2)
  by (auto simp: elf_link_static_def)

theorem elf_link_static_loads_witness:
  "\<exists>img lk' ly objs entry. elf_link_static demo_fs demo_request = Some (Inr img)
     \<and> layout_linker demo_linker 0x2000000 = (lk', ly) \<and> relocate_all lk' = Inr objs
     \<and> entry_address lk' ''_start'' = Inr entry \<and> take 4 img = elf_magic \<and> slice img 24 8 = unat entry
     \<and> list_all (section_loaded img) (concat (map o_secs objs))"
proof -
  obtain img where img: "elf_link_static demo_fs demo_request = Some (Inr img)" using demo_linked by blast
  have "list_all aligns_ok (lk_objs demo_linker)"
    by (simp add: demo_objs demo_parsed_def aligns_ok_def at_least_1_def elf_consts)
  moreover have "unat (rq_base_va demo_request) + layout_room (lk_objs demo_linker) + 0x1000 < 2 ^ 63"
    by (simp add: demo_request_def demo_objs demo_parsed_def layout_room_def total_room_def obj_room_def
        sec_room_def sym_room_def at_least_1_def elf_consts)
  ultimately show ?thesis
    using elf_link_static_loads [OF img demo_resolved] img by (fastforce simp: demo_request_def)
qed

text \<open>
  The static linker always finishes: for any input files whatever, if no archive contains a
  negative member size, linking returns an image or an error.
\<close>

lemma elf_link_static_total:
  assumes "list_all (\<lambda>p. case fs p of None \<Rightarrow> True | Some img \<Rightarrow> member_sizes_ok img) (rq_archives req)"
  shows "\<exists>r. elf_link_static fs req = Some r"
  using load_and_resolve_total [OF assms] by (auto simp: elf_link_static_def)

lemma elf_link_static_total_witness:
  "\<exists>r. elf_link_static (demo_fs(''libc.a'' \<mapsto> demo_archive)) (demo_request\<lparr>rq_archives := [''libc.a'']\<rparr>) = Some r"
proof (rule elf_link_static_total)
  have "member_sizes_ok demo_archive" by code_simp
  then show "list_all (\<lambda>p. case (demo_fs(''libc.a'' \<mapsto> demo_archive)) p of None \<Rightarrow> True | Some img \<Rightarrow> member_sizes_ok img)
      (rq_archives (demo_request\<lparr>rq_archives := [''libc.a'']\<rparr>))" by simp
qed

end
