(* ===== verification/Link_Dyn.thy ===== *)
theory Link_Dyn
  imports Link_Static
begin

text \<open>
  Dynamic linking, \<^verbatim>\<open>elf_link\<close> of \<^verbatim>\<open>src/src/linker.c\<close>: position independent executables and shared
  objects with \<^verbatim>\<open>.dynsym\<close>, \<^verbatim>\<open>.hash\<close>, \<^verbatim>\<open>.plt\<close>, \<^verbatim>\<open>.got\<close> and \<^verbatim>\<open>.dynamic\<close>.

  \<^verbatim>\<open>dyn_state\<close> holds the tables that step 3 of the code builds; the three hash maps from names to indices
  are partial functions, and an index stands for the pointer into the array it counts.  Counts and buffer
  lengths are natural numbers, addresses and everything written to the image are words.
\<close>

definition PT_DYNAMIC :: u32 where "PT_DYNAMIC = 2"
definition PT_INTERP :: u32 where "PT_INTERP = 3"
definition PT_PHDR :: u32 where "PT_PHDR = 6"

subsection \<open>Tables\<close>

record dyn_sym =
  ds_name :: string
  ds_bind :: u8
  ds_type :: u8
  ds_value :: u64
  ds_size :: u64
  ds_shndx :: u16

datatype got_slot = Got_Import nat | Got_Internal u64

record dyn_rela =
  dr_off :: u64
  dr_type :: u32
  dr_sym :: u32
  dr_add :: u64

datatype fix_kind = FIX_PLT | FIX_GOT

text \<open>The field to patch is in section \<^verbatim>\<open>fx_sec\<close> of object \<^verbatim>\<open>fx_obj\<close>.\<close>

record fixup =
  fx_obj :: nat
  fx_sec :: nat
  fx_off :: u64
  fx_P :: u64
  fx_kind :: fix_kind
  fx_slot :: nat
  fx_add :: u64

record dyn_state =
  dy_lk :: linker
  dy_syms :: "dyn_sym list"
  dy_idx :: "string \<Rightarrow> nat option"
  dy_gots :: "got_slot list"
  dy_gotimp :: "string \<Rightarrow> nat option"
  dy_plts :: "nat list"
  dy_pltmap :: "string \<Rightarrow> nat option"
  dy_rela :: "dyn_rela list"
  dy_fixups :: "fixup list"

definition dyn_start :: "linker \<Rightarrow> dyn_state" where
  "dyn_start lk = \<lparr>dy_lk = lk, dy_syms = [], dy_idx = Map.empty, dy_gots = [], dy_gotimp = Map.empty,
     dy_plts = [], dy_pltmap = Map.empty, dy_rela = [], dy_fixups = []\<rparr>"

definition get_dynidx :: "string \<Rightarrow> u8 \<Rightarrow> u8 \<Rightarrow> dyn_state \<Rightarrow> nat \<times> dyn_state" where
  "get_dynidx nm bind ty st =
     (case dy_idx st nm of
        Some i \<Rightarrow> (i, st)
      | None \<Rightarrow>
          (length (dy_syms st),
           st\<lparr>dy_syms := dy_syms st @ [\<lparr>ds_name = nm, ds_bind = bind, ds_type = ty, ds_value = 0, ds_size = 0,
                ds_shndx = SHN_UNDEF\<rparr>],
              dy_idx := (dy_idx st)(nm \<mapsto> length (dy_syms st))\<rparr>))"

definition type_or :: "u8 \<Rightarrow> u8 \<Rightarrow> u8" where
  "type_or ty d = (if ty \<noteq> 0 then ty else d)"

text \<open>The PLT entry and the GOT slot of an imported symbol, added on its first use.\<close>

definition plt_index :: "sym \<Rightarrow> dyn_state \<Rightarrow> nat \<times> dyn_state" where
  "plt_index y st =
     (case dy_pltmap st (sym_name y) of
        Some p \<Rightarrow> (p, st)
      | None \<Rightarrow>
          (let (di, st1) = get_dynidx (sym_name y) (sym_bind y) (type_or (sym_type y) STT_FUNC) st
           in (length (dy_plts st1),
               st1\<lparr>dy_plts := dy_plts st1 @ [di], dy_pltmap := (dy_pltmap st1)(sym_name y \<mapsto> length (dy_plts st1))\<rparr>)))"

definition got_index :: "sym \<Rightarrow> u64 option \<Rightarrow> dyn_state \<Rightarrow> nat \<times> dyn_state" where
  "got_index y target st =
     (case target of
        Some S \<Rightarrow> (length (dy_gots st), st\<lparr>dy_gots := dy_gots st @ [Got_Internal S]\<rparr>)
      | None \<Rightarrow>
          (case dy_gotimp st (sym_name y) of
             Some g \<Rightarrow> (g, st)
           | None \<Rightarrow>
               (let (di, st1) = get_dynidx (sym_name y) (sym_bind y) (type_or (sym_type y) STT_OBJECT) st
                in (length (dy_gots st1),
                    st1\<lparr>dy_gots := dy_gots st1 @ [Got_Import di],
                        dy_gotimp := (dy_gotimp st1)(sym_name y \<mapsto> length (dy_gots st1))\<rparr>))))"

subsection \<open>Relocations\<close>

definition patch_obj :: "nat \<Rightarrow> nat \<Rightarrow> nat \<Rightarrow> u8 list \<Rightarrow> obj list \<Rightarrow> link_error + obj list" where
  "patch_obj oi si off bs objs =
     (let s = o_secs (objs ! oi) ! si in
      case sec_data s of
        None \<Rightarrow> Inl Bad_Write
      | Some data \<Rightarrow>
          bnd (patch data off bs) (\<lambda>data'.
          Inr (objs[oi := (objs ! oi)\<lparr>o_secs := (o_secs (objs ! oi))[si := s\<lparr>sec_data := Some data'\<rparr>]\<rparr>])))"

definition dyn_patch :: "nat \<Rightarrow> nat \<Rightarrow> nat \<Rightarrow> u8 list \<Rightarrow> dyn_state \<Rightarrow> link_error + dyn_state" where
  "dyn_patch oi si off bs st =
     bnd (patch_obj oi si off bs (lk_objs (dy_lk st))) (\<lambda>objs. Inr (st\<lparr>dy_lk := (dy_lk st)\<lparr>lk_objs := objs\<rparr>\<rparr>))"

definition add_fixup :: "fixup \<Rightarrow> dyn_state \<Rightarrow> dyn_state" where
  "add_fixup fx st = st\<lparr>dy_fixups := dy_fixups st @ [fx]\<rparr>"

definition add_rela :: "dyn_rela \<Rightarrow> dyn_state \<Rightarrow> dyn_state" where
  "add_rela dr st = st\<lparr>dy_rela := dy_rela st @ [dr]\<rparr>"

definition is_gotpcrel :: "u32 \<Rightarrow> bool" where
  "is_gotpcrel ty \<longleftrightarrow> ty = R_X86_64_GOTPCREL \<or> ty = R_X86_64_GOTPCRELX \<or> ty = R_X86_64_REX_GOTPCRELX"

definition dyn_reloc :: "nat \<times> nat \<times> rela \<Rightarrow> dyn_state \<Rightarrow> link_error + dyn_state" where
  "dyn_reloc site st =
     (let (oi, si, rl) = site; ob = lk_objs (dy_lk st) ! oi; off = rel_off rl; A = rel_add rl;
          P = sec_va (o_secs ob ! si) + off in
      bnd (sym_addr (dy_lk st) oi (unat (rel_sym rl))) (\<lambda>target.
      let y = o_syms ob ! unat (rel_sym rl); S = (case target of Some a \<Rightarrow> a | None \<Rightarrow> 0);
          direct = dyn_patch oi si (unat off) (le_bytes 4 (ucast (S + A - P) :: u32)) st;
          fix = (\<lambda>kind slot. \<lparr>fx_obj = oi, fx_sec = si, fx_off = off, fx_P = P, fx_kind = kind, fx_slot = slot, fx_add = A\<rparr>)
      in if rel_type rl = R_X86_64_PC32 then direct
         else if rel_type rl = R_X86_64_PLT32 then
           (if target \<noteq> None then direct
            else let (p, st1) = plt_index y st in Inr (add_fixup (fix FIX_PLT p) st1))
         else if is_gotpcrel (rel_type rl) then
           (let (g, st1) = got_index y target st in Inr (add_fixup (fix FIX_GOT g) st1))
         else if rel_type rl = R_X86_64_64 then
           (let (dr, st1) =
              (if target \<noteq> None then (\<lparr>dr_off = P, dr_type = R_X86_64_RELATIVE, dr_sym = 0, dr_add = S + A\<rparr>, st)
               else let (di, st1) = get_dynidx (sym_name y) (sym_bind y) (sym_type y) st
                    in (\<lparr>dr_off = P, dr_type = R_X86_64_64, dr_sym = of_nat di, dr_add = A\<rparr>, st1))
            in dyn_patch oi si (unat off) (le_bytes 8 (0 :: u64)) (add_rela dr st1))
         else Inl (Unsupported_Reloc (rel_type rl))))"

text \<open>The relocations of allocated sections with contents, in the order of the loops.\<close>

definition reloc_sites :: "obj list \<Rightarrow> (nat \<times> nat \<times> rela) list" where
  "reloc_sites objs =
     concat (map (\<lambda>oi.
       concat (map (\<lambda>si. let s = o_secs (objs ! oi) ! si in
         if sec_data s = None \<or> sec_flags s AND SHF_ALLOC = 0 then [] else map (\<lambda>rl. (oi, si, rl)) (sec_rel s))
       [0..<length (o_secs (objs ! oi))])) [0..<length objs])"

subsection \<open>Exports of a shared object\<close>

definition exported :: "linker \<Rightarrow> (string \<Rightarrow> nat option) \<Rightarrow> global_def \<Rightarrow> bool" where
  "exported lk idx d \<longleftrightarrow>
     (let y = sym_at (lk_objs lk) d in
      sym_bind y \<noteq> STB_LOCAL \<and> sym_shndx y \<noteq> SHN_UNDEF \<and> sym_type y \<noteq> STT_SECTION \<and> sym_type y \<noteq> STT_FILE
      \<and> sym_name y \<noteq> [] \<and> lk_globals lk (sym_name y) = Some d \<and> idx (sym_name y) = None)"

type_synonym exports = "(nat \<times> global_def) list"

definition export_symbol :: "global_def \<Rightarrow> dyn_state \<times> exports \<Rightarrow> dyn_state \<times> exports" where
  "export_symbol d se =
     (let (st, ex) = se; y = sym_at (lk_objs (dy_lk st)) d; n = length (dy_syms st) in
      if \<not> exported (dy_lk st) (dy_idx st) d then se
      else (st\<lparr>dy_syms := dy_syms st @ [\<lparr>ds_name = sym_name y, ds_bind = sym_bind y, ds_type = type_or (sym_type y) STT_FUNC,
              ds_value = 0, ds_size = sym_size y, ds_shndx = 1\<rparr>],
            dy_idx := (dy_idx st)(sym_name y \<mapsto> n)\<rparr>, ex @ [(n, d)]))"

definition export_all :: "link_mode \<Rightarrow> dyn_state \<Rightarrow> dyn_state \<times> exports" where
  "export_all mode st =
     (if mode = LINK_SHARED then fold export_symbol (all_symbols (lk_objs (dy_lk st))) (st, []) else (st, []))"

subsection \<open>Strings and the hash table\<close>

definition dynstr_put :: "string \<Rightarrow> u8 list \<Rightarrow> u32 \<times> u8 list" where
  "dynstr_put s buf = (of_nat (length buf), buf @ c_string s)"

record dyn_strings =
  st_syms :: "u32 list"
  st_needed :: "u32 list"
  st_soname :: u32
  st_interp :: u32
  st_bytes :: "u8 list"

definition soname_of :: "link_request \<Rightarrow> string option" where
  "soname_of req = (if rq_mode req = LINK_SHARED then rq_soname req else None)"

definition interp_of :: "link_request \<Rightarrow> string option" where
  "interp_of req = (if rq_mode req = LINK_PIE \<and> rq_interp req \<noteq> Some [] then rq_interp req else None)"

definition build_dynstr :: "link_request \<Rightarrow> dyn_sym list \<Rightarrow> dyn_strings" where
  "build_dynstr req syms =
     (let (so, b1) = thread dynstr_put (map ds_name syms) [0];
          (no, b2) = thread dynstr_put (take 8 (rq_needed req)) b1;
          (sn, b3) = (case soname_of req of Some s \<Rightarrow> dynstr_put s b2 | None \<Rightarrow> (0, b2));
          (ip, b4) = (case interp_of req of Some s \<Rightarrow> dynstr_put s b3 | None \<Rightarrow> (0, b3))
      in \<lparr>st_syms = so, st_needed = no, st_soname = sn, st_interp = ip, st_bytes = b4\<rparr>)"

definition hash_step :: "u32 \<Rightarrow> char \<Rightarrow> u32" where
  "hash_step h c =
     (let h1 = push_bit 4 h + of_nat (of_char c); g = h1 AND 0xf0000000;
          h2 = (if g \<noteq> 0 then h1 XOR drop_bit 24 g else h1)
      in h2 AND NOT g)"

definition elf_sysv_hash :: "string \<Rightarrow> u32" where
  "elf_sysv_hash name = foldl hash_step 0 name"

function bucket_loop :: "nat \<Rightarrow> nat \<Rightarrow> nat" where
  "bucket_loop nbucket tot =
     (if nbucket \<noteq> 0 \<and> nbucket * 2 < tot then bucket_loop (nbucket * 2) tot else nbucket)"
  by pat_completeness auto
termination by (relation "measure (\<lambda>(n, t). t - n)") auto

declare bucket_loop.simps [simp del]

definition bucket_count :: "nat \<Rightarrow> nat" where
  "bucket_count tot = bucket_loop 1 tot"

text \<open>Symbol \<open>i\<close> is put in front of the chain of its bucket.\<close>

definition hash_insert :: "nat \<Rightarrow> string list \<Rightarrow> nat \<Rightarrow> nat list \<times> nat list \<Rightarrow> nat list \<times> nat list" where
  "hash_insert nbucket names i bc =
     (let (buckets, chain) = bc; h = unat (elf_sysv_hash (names ! (i - 1))) mod nbucket
      in (buckets[h := i], chain[i := buckets ! h]))"

definition hash_tables :: "string list \<Rightarrow> nat list \<times> nat list" where
  "hash_tables names =
     (let tot = length names + 1; nbucket = bucket_count tot
      in fold (hash_insert nbucket names) [1..<tot] (replicate nbucket 0, replicate tot 0))"

definition words32 :: "nat list \<Rightarrow> u8 list" where
  "words32 ns = concat (map (\<lambda>n. le_bytes 4 (of_nat n :: u32)) ns)"

definition hash_section :: "string list \<Rightarrow> u8 list" where
  "hash_section names =
     (let (buckets, chain) = hash_tables names
      in words32 ([length buckets, length chain] @ buckets @ chain))"

subsection \<open>Addresses\<close>

record dyn_addrs =
  da_plt :: u64
  da_plt_sz :: u64
  da_r_off :: u64
  da_hash :: u64
  da_dynsym :: u64
  da_dynstr :: u64
  da_reladyn :: u64
  da_relaplt :: u64
  da_r_end :: u64

definition page_up :: "u64 \<Rightarrow> u64" where
  "page_up w = (w + 0xfff) AND NOT 0xfff"

definition ro_addrs :: "layout \<Rightarrow> nat \<Rightarrow> nat \<Rightarrow> nat \<Rightarrow> nat \<Rightarrow> dyn_addrs" where
  "ro_addrs ly nplt ndsym nrela strsz =
     (let plt = (ly_out_va ly OUT_TEXT + ly_out_size ly OUT_TEXT + 15) AND NOT 15;
          plt_sz = of_nat nplt * 16;
          r_plt = page_up (plt + plt_sz);
          r_rodata = page_up (ly_out_va ly OUT_RODATA + ly_out_size ly OUT_RODATA);
          r_off = max r_plt r_rodata;
          tot = ndsym + 1;
          hash_sz = of_nat (2 + bucket_count tot + tot) * 4;
          dynsym = (r_off + hash_sz + 7) AND NOT 7;
          dynstr = dynsym + of_nat tot * 24;
          reladyn = (dynstr + of_nat strsz + 7) AND NOT 7;
          relaplt = reladyn + of_nat nrela * 24
      in \<lparr>da_plt = plt, da_plt_sz = plt_sz, da_r_off = r_off, da_hash = r_off, da_dynsym = dynsym, da_dynstr = dynstr,
          da_reladyn = reladyn, da_relaplt = relaplt, da_r_end = relaplt + of_nat nplt * 24\<rparr>)"

definition rw_slots :: "out_slot list" where
  "rw_slots = [OUT_DATA, OUT_INIT_ARRAY, OUT_BSS]"

definition rw_delta :: "layout \<Rightarrow> u64 \<Rightarrow> u64" where
  "rw_delta ly r_end = (if ly_out_va ly OUT_DATA < r_end then page_up (r_end - ly_out_va ly OUT_DATA) else 0)"

definition shift_sec :: "u64 \<Rightarrow> sec \<Rightarrow> sec" where
  "shift_sec delta s =
     (if sec_out s \<in> set rw_slots \<and> sec_flags s AND SHF_ALLOC \<noteq> 0 then s\<lparr>sec_va := sec_va s + delta\<rparr> else s)"

definition shift_obj :: "u64 \<Rightarrow> obj \<Rightarrow> obj" where
  "shift_obj delta ob = ob\<lparr>o_secs := map (shift_sec delta) (o_secs ob)\<rparr>"

definition shift_layout :: "u64 \<Rightarrow> layout \<Rightarrow> layout" where
  "shift_layout delta ly =
     ly\<lparr>ly_out_va := (\<lambda>slot. if slot \<in> set rw_slots then ly_out_va ly slot + delta else ly_out_va ly slot)\<rparr>"

definition shift_rw :: "u64 \<Rightarrow> layout \<Rightarrow> linker \<Rightarrow> linker" where
  "shift_rw delta ly lk =
     (let iv = ly_out_va ly OUT_INIT_ARRAY + delta
      in lk\<lparr>lk_objs := map (shift_obj delta) (lk_objs lk), lk_init_start := iv,
            lk_init_end := iv + ly_out_size ly OUT_INIT_ARRAY\<rparr>)"

text \<open>The metadata of the writable region.\<close>

record rw_addrs =
  ra_got :: u64
  ra_gotplt :: u64
  ra_dynamic :: u64

definition rw_meta :: "layout \<Rightarrow> u64 \<Rightarrow> nat \<Rightarrow> nat \<Rightarrow> rw_addrs" where
  "rw_meta ly r_end ngot nplt =
     (let got = page_up (max r_end (ly_out_va ly OUT_BSS + ly_out_size ly OUT_BSS)); gotplt = got + of_nat ngot * 8
      in \<lparr>ra_got = got, ra_gotplt = gotplt, ra_dynamic = gotplt + of_nat nplt * 8\<rparr>)"

subsection \<open>Late values\<close>

definition export_value :: "linker \<Rightarrow> nat \<times> global_def \<Rightarrow> dyn_sym list \<Rightarrow> link_error + dyn_sym list" where
  "export_value lk e syms =
     (let (i, d) = e in
      bnd (sym_addr lk (fst d) (snd d)) (\<lambda>r.
      Inr (case r of Some v \<Rightarrow> syms[i := (syms ! i)\<lparr>ds_value := v\<rparr>] | None \<Rightarrow> syms)))"

definition slot_va :: "u64 \<Rightarrow> u64 \<Rightarrow> fixup \<Rightarrow> u64" where
  "slot_va plt got fx =
     (case fx_kind fx of FIX_PLT \<Rightarrow> plt + of_nat (fx_slot fx) * 16 | FIX_GOT \<Rightarrow> got + of_nat (fx_slot fx) * 8)"

definition apply_fixup :: "u64 \<Rightarrow> u64 \<Rightarrow> fixup \<Rightarrow> obj list \<Rightarrow> link_error + obj list" where
  "apply_fixup plt got fx objs =
     patch_obj (fx_obj fx) (fx_sec fx) (unat (fx_off fx))
       (le_bytes 4 (ucast (slot_va plt got fx + fx_add fx - fx_P fx) :: u32)) objs"

subsection \<open>The synthesized sections\<close>

definition plt_stub :: "u64 \<Rightarrow> u64 \<Rightarrow> nat \<Rightarrow> u8 list" where
  "plt_stub plt gotplt i =
     (let entv = plt + of_nat i * 16; slotv = gotplt + of_nat i * 8
      in [0xff, 0x25] @ le_bytes 4 (ucast (slotv - (entv + 6)) :: u32) @ replicate 10 0x90)"

definition dynsym_entry :: "u32 \<Rightarrow> dyn_sym \<Rightarrow> u8 list" where
  "dynsym_entry nm d =
     le_bytes 4 nm @ [push_bit 4 (ds_bind d) OR (ds_type d AND 0xf), 0] @ le_bytes 2 (ds_shndx d)
     @ le_bytes 8 (ds_value d) @ le_bytes 8 (ds_size d)"

definition dynsym_section :: "u32 list \<Rightarrow> dyn_sym list \<Rightarrow> u8 list" where
  "dynsym_section offs syms = replicate 24 0 @ concat (map (\<lambda>(nm, d). dynsym_entry nm d) (zip offs syms))"

definition rela_entry :: "u64 \<Rightarrow> u64 \<Rightarrow> u32 \<Rightarrow> u64 \<Rightarrow> u8 list" where
  "rela_entry off sm ty add =
     le_bytes 8 off @ le_bytes 8 (push_bit 32 sm OR ucast ty) @ le_bytes 8 add"

definition got_rela :: "u64 \<Rightarrow> nat \<times> got_slot \<Rightarrow> u8 list" where
  "got_rela got p =
     (let slotv = got + of_nat (fst p) * 8 in
      case snd p of
        Got_Import di \<Rightarrow> rela_entry slotv (of_nat (di + 1)) R_X86_64_GLOB_DAT 0
      | Got_Internal t \<Rightarrow> rela_entry slotv 0 R_X86_64_RELATIVE t)"

definition reladyn_section :: "u64 \<Rightarrow> dyn_state \<Rightarrow> u8 list" where
  "reladyn_section got st =
     concat (map (\<lambda>r. rela_entry (dr_off r) (ucast (dr_sym r)) (dr_type r) (dr_add r)) (dy_rela st))
     @ concat (map (got_rela got) (List.enumerate 0 (dy_gots st)))"

definition relaplt_section :: "u64 \<Rightarrow> nat list \<Rightarrow> u8 list" where
  "relaplt_section gotplt plts =
     concat (map (\<lambda>(i, di). rela_entry (gotplt + of_nat i * 8) (of_nat (di + 1)) R_X86_64_JUMP_SLOT 0)
       (List.enumerate 0 plts))"

text \<open>Everything known when the image is written.\<close>

record dyn_out =
  do_objs :: "obj list"
  do_layout :: layout
  do_entry :: u64
  do_addrs :: dyn_addrs
  do_rw :: rw_addrs
  do_strings :: dyn_strings
  do_syms :: "dyn_sym list"
  do_state :: dyn_state

definition out_reladyn :: "dyn_out \<Rightarrow> u8 list" where
  "out_reladyn d = reladyn_section (ra_got (do_rw d)) (do_state d)"

definition out_relaplt :: "dyn_out \<Rightarrow> u8 list" where
  "out_relaplt d = relaplt_section (ra_gotplt (do_rw d)) (dy_plts (do_state d))"

definition out_dynsym :: "dyn_out \<Rightarrow> u8 list" where
  "out_dynsym d = dynsym_section (st_syms (do_strings d)) (do_syms d)"

definition out_hash :: "dyn_out \<Rightarrow> u8 list" where
  "out_hash d = hash_section (map ds_name (do_syms d))"

definition out_plt :: "dyn_out \<Rightarrow> u8 list" where
  "out_plt d = concat (map (plt_stub (da_plt (do_addrs d)) (ra_gotplt (do_rw d))) [0..<length (dy_plts (do_state d))])"

text \<open>The address of \<^verbatim>\<open>.rela.plt\<close> once the relocations of the GOT stand before it.\<close>

definition out_relaplt_va :: "dyn_out \<Rightarrow> u64" where
  "out_relaplt_va d = da_reladyn (do_addrs d) + of_nat (length (out_reladyn d))"

definition size64 :: "'a list \<Rightarrow> u64" where "size64 xs = of_nat (length xs)"

definition dynamic_entries :: "link_request \<Rightarrow> dyn_out \<Rightarrow> (u64 \<times> u64) list" where
  "dynamic_entries req d =
     (let a = do_addrs d; ly = do_layout d in
      map (\<lambda>o'. (1, ucast o')) (st_needed (do_strings d))
      @ (if soname_of req \<noteq> None then [(14, ucast (st_soname (do_strings d)))] else [])
      @ [(4, da_hash a), (5, da_dynstr a), (6, da_dynsym a), (10, size64 (st_bytes (do_strings d))), (11, 24)]
      @ (if out_reladyn d \<noteq> [] then [(7, da_reladyn a), (8, size64 (out_reladyn d)), (9, 24)] else [])
      @ (if out_relaplt d \<noteq> [] then [(23, out_relaplt_va d), (2, size64 (out_relaplt d)), (20, 7), (3, ra_gotplt (do_rw d))] else [])
      @ (if ly_out_size ly OUT_INIT_ARRAY \<noteq> 0 then
           [(25, ly_out_va ly OUT_INIT_ARRAY), (27, ly_out_size ly OUT_INIT_ARRAY)] else [])
      @ [(0, 0)])"

definition dynamic_section :: "link_request \<Rightarrow> dyn_out \<Rightarrow> u8 list" where
  "dynamic_section req d = concat (map (\<lambda>(tag, v). le_bytes 8 tag @ le_bytes 8 v) (dynamic_entries req d))"

subsection \<open>The image\<close>

definition dyn_headers :: "link_request \<Rightarrow> dyn_out \<Rightarrow> u8 list" where
  "dyn_headers req d =
     (let a = do_addrs d; ly = do_layout d; dyn = ra_dynamic (do_rw d); dsz = size64 (dynamic_section req d);
          rx_end = da_plt a + da_plt_sz a;
          r_start = min (ly_out_va ly OUT_RODATA) (da_r_off a);
          r_end = out_relaplt_va d + size64 (out_relaplt d);
          rw_start = page_up (max r_end (ly_out_va ly OUT_DATA));
          rw_end = dyn + dsz;
          bss_end = ly_out_va ly OUT_BSS + ly_out_size ly OUT_BSS;
          phnum = (if interp_of req \<noteq> None then 7 else 6) :: u64
      in elf_header ET_DYN (do_entry d) (ucast phnum)
         @ program_header PT_PHDR PF_R 64 64 (phnum * 56) (phnum * 56) 8
         @ program_header PT_LOAD (PF_R OR PF_X) 0 0 rx_end rx_end 0x1000
         @ program_header PT_LOAD PF_R r_start r_start (r_end - r_start) (r_end - r_start) 0x1000
         @ program_header PT_LOAD (PF_R OR PF_W) rw_start rw_start (rw_end - rw_start) (max bss_end rw_end - rw_start) 0x1000
         @ program_header PT_DYNAMIC (PF_R OR PF_W) dyn dyn dsz dsz 8
         @ program_header PT_GNU_STACK (PF_R OR PF_W) 0 0 0 0 0
         @ (case interp_of req of
              None \<Rightarrow> []
            | Some s \<Rightarrow> (let iva = da_dynstr a + ucast (st_interp (do_strings d)); n = of_nat (length s + 1)
                         in program_header PT_INTERP PF_R iva iva n n 1)))"

type_synonym emit_target = "u64 \<times> u8 list"

definition section_targets :: "obj list \<Rightarrow> out_slot \<Rightarrow> emit_target list" where
  "section_targets objs slot =
     concat (map (\<lambda>s. if \<not> in_slot slot s \<or> sec_type s = SHT_NOBITS then []
       else (case sec_data s of None \<Rightarrow> [] | Some data \<Rightarrow> [(sec_va s, data)])) (concat (map o_secs objs)))"

definition dyn_targets :: "link_request \<Rightarrow> dyn_out \<Rightarrow> emit_target list" where
  "dyn_targets req d =
     (let a = do_addrs d; st = do_state d; plts = dy_plts st; gz = (length (dy_gots st) + length plts) * 8 in
      concat (map (section_targets (do_objs d)) [OUT_TEXT, OUT_RODATA, OUT_DATA, OUT_INIT_ARRAY])
      @ (if da_plt_sz a \<noteq> 0 then [(da_plt a, out_plt d)] else [])
      @ [(da_hash a, out_hash d),
         (da_dynsym a, out_dynsym d),
         (da_dynstr a, st_bytes (do_strings d))]
      @ (if out_reladyn d \<noteq> [] then [(da_reladyn a, out_reladyn d)] else [])
      @ (if out_relaplt d \<noteq> [] then [(out_relaplt_va d, out_relaplt d)] else [])
      @ (if gz \<noteq> 0 then [(ra_got (do_rw d), replicate gz 0)] else [])
      @ [(ra_dynamic (do_rw d), dynamic_section req d)])"

text \<open>Insertion sort by address, on the reversed list of what is sorted so far.\<close>

fun insert_target :: "emit_target \<Rightarrow> emit_target list \<Rightarrow> emit_target list" where
  "insert_target key [] = [key]"
| "insert_target key (t # ts) = (if fst t > fst key then t # insert_target key ts else key # t # ts)"

definition sort_targets :: "emit_target list \<Rightarrow> emit_target list" where
  "sort_targets ts = rev (fold insert_target ts [])"

definition emit_at :: "emit_target \<Rightarrow> u8 list \<Rightarrow> u8 list" where
  "emit_at t out = pad_to (fst t) out @ snd t"

definition dyn_image :: "link_request \<Rightarrow> dyn_out \<Rightarrow> u8 list" where
  "dyn_image req d = fold emit_at (sort_targets (dyn_targets req d)) (dyn_headers req d)"

subsection \<open>The whole of \<^verbatim>\<open>elf_link\<close>\<close>

definition PIE_HDR_RESERVE :: u64 where "PIE_HDR_RESERVE = 0x1000"

definition dyn_link :: "link_request \<Rightarrow> linker \<Rightarrow> link_error + dyn_out" where
  "dyn_link req lk0 =
     (let (lk, ly) = layout_linker lk0 (rq_base_va req + PIE_HDR_RESERVE) in
      bnd (fold_err dyn_reloc (reloc_sites (lk_objs lk)) (dyn_start lk)) (\<lambda>st1.
      let (st, exps) = export_all (rq_mode req) st1;
          strs = build_dynstr req (dy_syms st);
          a = ro_addrs ly (length (dy_plts st)) (length (dy_syms st)) (length (dy_rela st)) (length (st_bytes strs));
          delta = rw_delta ly (da_r_end a);
          ly2 = shift_layout delta ly;
          lk2 = shift_rw delta ly (dy_lk st);
          rw = rw_meta ly2 (da_r_end a) (length (dy_gots st)) (length (dy_plts st))
      in bnd (fold_err (export_value lk2) exps (dy_syms st)) (\<lambda>syms.
         bnd (fold_err (apply_fixup (da_plt a) (ra_got rw)) (dy_fixups st) (lk_objs lk2)) (\<lambda>objs.
         bnd (if rq_mode req = LINK_PIE then entry_address lk2 (rq_entry req) else Inr 0) (\<lambda>entry.
         Inr \<lparr>do_objs = objs, do_layout = ly2, do_entry = entry, do_addrs = a, do_rw = rw, do_strings = strs,
              do_syms = syms, do_state = st\<rparr>)))))"

definition elf_link :: "file_system \<Rightarrow> link_request \<Rightarrow> (link_error + u8 list) option" where
  "elf_link fs req =
     (if rq_mode req = LINK_STATIC_EXE then elf_link_static fs req
      else Some (bnd (fold_err (load_input fs) (rq_inputs req) linker_init) (\<lambda>lk.
             bnd (dyn_link req lk) (\<lambda>d. Inr (dyn_image req d)))))"

end
