(* ===== verification/Link_Dyn_Hash.thy ===== *)
theory Link_Dyn_Hash
  imports Link_Dyn
begin

text \<open>
  The symbol hash table of a dynamic image: the lookup the ELF specification prescribes to the run-time
  linker, over the bytes of \<^verbatim>\<open>.hash\<close>, finds every dynamic symbol.  The tables of step 3 keep one entry per name.
\<close>

subsection \<open>The table and its lookup\<close>

definition word_at :: "u8 list \<Rightarrow> nat \<Rightarrow> nat" where
  "word_at bs k = le_nat (take 4 (drop (4 * k) bs))"

text \<open>The walk along a chain; \<open>n\<close> bounds its length.\<close>

fun hash_walk :: "nat \<Rightarrow> u8 list \<Rightarrow> string list \<Rightarrow> string \<Rightarrow> nat \<Rightarrow> nat option" where
  "hash_walk 0 bs names name y = None"
| "hash_walk (Suc n) bs names name y =
     (if y = 0 then None else if names ! (y - 1) = name then Some y
      else hash_walk n bs names name (word_at bs (2 + word_at bs 0 + y)))"

definition hash_lookup :: "u8 list \<Rightarrow> string list \<Rightarrow> string \<Rightarrow> nat option" where
  "hash_lookup bs names name =
     hash_walk (word_at bs 1) bs names name (word_at bs (2 + unat (elf_sysv_hash name) mod word_at bs 0))"

fun follows :: "nat list \<Rightarrow> nat \<Rightarrow> nat list \<Rightarrow> bool" where
  "follows chain y [] \<longleftrightarrow> y = 0"
| "follows chain y (i # is) \<longleftrightarrow> y = i \<and> i \<noteq> 0 \<and> i < length chain \<and> follows chain (chain ! i) is"

lemma follows_update: "m \<notin> set is \<Longrightarrow> follows (chain[m := x]) y is = follows chain y is"
  by (induction "is" arbitrary: y) auto

lemma bucket_loop_pos: "0 < n \<Longrightarrow> 0 < bucket_loop n t \<and> bucket_loop n t \<le> max n t"
proof (induction n t rule: bucket_loop.induct)
  case (1 n t)
  then show ?case by (subst (1 2) bucket_loop.simps) auto
qed

lemma bucket_count_pos [simp]: "0 < bucket_count t" "0 < t \<Longrightarrow> bucket_count t \<le> t"
  using bucket_loop_pos [of 1 t] by (auto simp: bucket_count_def)

definition name_hash :: "nat \<Rightarrow> string list \<Rightarrow> nat \<Rightarrow> nat" where
  "name_hash nb names i = unat (elf_sysv_hash (names ! (i - 1))) mod nb"

definition tables_ok :: "nat \<Rightarrow> string list \<Rightarrow> nat \<Rightarrow> nat list \<times> nat list \<Rightarrow> bool" where
  "tables_ok nb names m bc \<longleftrightarrow> length (fst bc) = nb \<and> length (snd bc) = length names + 1
     \<and> (\<forall>x\<in>set (fst bc) \<union> set (snd bc). x < m)
     \<and> (\<forall>h<nb. follows (snd bc) (fst bc ! h) (filter (\<lambda>i. name_hash nb names i = h) (rev [1..<m])))"

lemma hash_insert_ok:
  assumes "tables_ok nb names m bc" "0 < nb" "0 < m" "m \<le> length names"
  shows "tables_ok nb names (Suc m) (hash_insert nb names m bc)"
proof -
  obtain b c where bc: "bc = (b, c)" by fastforce
  define k where "k = name_hash nb names m"
  have k: "k < nb" unfolding k_def name_hash_def using assms(2) by simp
  have ins: "hash_insert nb names m bc = (b[k := m], c[m := b ! k])"
    by (simp add: bc hash_insert_def k_def name_hash_def Let_def)
  have ok: "length b = nb" "length c = length names + 1" "\<forall>x\<in>set b \<union> set c. x < m"
    "h < nb \<Longrightarrow> follows c (b ! h) (filter (\<lambda>i. name_hash nb names i = h) (rev [1..<m]))" for h
    using assms(1) by (auto simp: tables_ok_def bc)
  have up: "rev [1..<Suc m] = m # rev [1..<m]" using assms(3) by simp
  have "follows (c[m := b ! k]) (b[k := m] ! h) (filter (\<lambda>i. name_hash nb names i = h) (rev [1..<Suc m]))"
    if h: "h < nb" for h
  proof (cases "h = k")
    case True
    then show ?thesis
      unfolding up using ok(1,2) ok(4) [OF h] k assms(3,4) by (simp add: k_def [symmetric] follows_update)
  next
    case False
    then have "name_hash nb names m \<noteq> h" by (simp add: k_def)
    then show ?thesis unfolding up using False ok(4) [OF h] by (simp add: follows_update)
  qed
  moreover have "\<forall>x\<in>set (b[k := m]) \<union> set (c[m := b ! k]). x < Suc m"
  proof -
    have "b ! k < m" using ok(1,3) k by simp
    moreover have "x < m \<or> x = m \<or> x = b ! k" if "x \<in> set (b[k := m]) \<union> set (c[m := b ! k])" for x
      using that ok(3) set_update_subset_insert [of b k m] set_update_subset_insert [of c m "b ! k"] by blast
    ultimately show ?thesis by (auto simp: less_Suc_eq)
  qed
  ultimately show ?thesis using ok(1,2) by (simp add: tables_ok_def ins)
qed

lemma hash_tables_ok:
  "tables_ok (bucket_count (length names + 1)) names (length names + 1) (hash_tables names)"
proof -
  let ?nb = "bucket_count (length names + 1)"
  have "tables_ok ?nb names m (fold (hash_insert ?nb names) [1..<m] (replicate ?nb 0, replicate (length names + 1) 0))"
    if "0 < m" "m \<le> length names + 1" for m
    using that
  proof (induction m rule: nat_induct_non_zero)
    case 1
    then show ?case by (simp add: tables_ok_def)
  next
    case (Suc m)
    from hash_insert_ok [OF Suc.IH] Suc show ?case by simp
  qed
  then show ?thesis by (simp add: hash_tables_def Let_def del: upt_Suc)
qed

lemma words32_at: "k < length ns \<Longrightarrow> word_at (words32 ns @ bs) k = ns ! k mod 2 ^ 32"
proof (induction ns arbitrary: k)
  case (Cons n ns)
  show ?case
  proof (cases k)
    case 0
    have "unat (of_nat n :: u32) = n mod 2 ^ 32" by (simp add: unat_of_nat)
    then show ?thesis using 0 by (simp add: word_at_def words32_def)
  next
    case (Suc j)
    with Cons show ?thesis by (simp add: word_at_def words32_def)
  qed
qed simp

lemma hash_walk_follows:
  assumes "follows chain y is" "length is < n"
    and "\<And>i. i \<in> set is \<Longrightarrow> word_at bs (2 + word_at bs 0 + i) = chain ! i"
  shows "hash_walk n bs names name y = find (\<lambda>i. names ! (i - 1) = name) is"
  using assms
proof (induction "is" arbitrary: n y)
  case Nil
  then show ?case by (cases n) auto
next
  case (Cons i "is")
  then show ?case by (cases n) auto
qed

lemma find_filter: "(\<And>x. P x \<Longrightarrow> Q x) \<Longrightarrow> find P (filter Q xs) = find P xs"
  by (induction xs) auto

lemma follows_bound: "follows chain y is \<Longrightarrow> \<forall>i\<in>set is. i < length chain"
  by (induction "is" arbitrary: y) auto

lemma hash_lookup_section:
  assumes "length names < 2 ^ 31"
  shows "hash_lookup (hash_section names) names name = find (\<lambda>i. names ! (i - 1) = name) (rev [1..<length names + 1])"
proof -
  let ?nb = "bucket_count (length names + 1)" let ?bs = "hash_section names"
  obtain b c where bc: "hash_tables names = (b, c)" by fastforce
  have ok: "length b = ?nb" "length c = length names + 1" "\<forall>x\<in>set b \<union> set c. x < length names + 1"
    "h < ?nb \<Longrightarrow> follows c (b ! h) (filter (\<lambda>i. name_hash ?nb names i = h) (rev [1..<length names + 1]))" for h
    using hash_tables_ok [of names] by (auto simp: tables_ok_def bc)
  have nb: "?nb \<le> length names + 1" by simp
  define ns where "ns = [?nb, length names + 1] @ b @ c"
  have bs: "?bs = words32 ns" by (simp add: hash_section_def bc ns_def ok)
  have small: "x < 2 ^ 32" if "x \<in> set ns" for x
  proof -
    have "x = ?nb \<or> x = length names + 1 \<or> x < length names + 1" using that ok(3) by (auto simp: ns_def)
    then have "x \<le> length names + 1" using nb by linarith
    then show ?thesis using assms by simp
  qed
  have at: "word_at ?bs k = ns ! k" if "k < length ns" for k
    using words32_at [OF that, of "[]"] small [OF nth_mem [OF that]] by (simp add: bs)
  have head: "word_at ?bs 0 = ?nb" "word_at ?bs 1 = length names + 1"
    using at [of 0] at [of 1] by (simp_all add: ns_def)
  have bucket: "word_at ?bs (2 + h) = b ! h" if "h < ?nb" for h
    using at [of "2 + h"] that ok(1) by (simp add: ns_def nth_append)
  have chain: "word_at ?bs (2 + ?nb + i) = c ! i" if "i < length names + 1" for i
    using at [of "2 + ?nb + i"] that ok(1,2) by (simp add: ns_def nth_append)
  define h where "h = unat (elf_sysv_hash name) mod ?nb"
  have h: "h < ?nb" by (simp add: h_def)
  let ?is = "filter (\<lambda>i. name_hash ?nb names i = h) (rev [1..<length names + 1])"
  have "hash_lookup ?bs names name = hash_walk (length names + 1) ?bs names name (b ! h)"
    unfolding hash_lookup_def head using bucket [OF h] by (simp add: h_def)
  also have "\<dots> = find (\<lambda>i. names ! (i - 1) = name) ?is"
  proof (rule hash_walk_follows [OF ok(4) [OF h]])
    have "length ?is \<le> length (rev [1..<length names + 1])" by (rule length_filter_le)
    then show "length ?is < length names + 1" by (simp del: upt_Suc)
    show "word_at ?bs (2 + word_at ?bs 0 + i) = c ! i" if "i \<in> set ?is" for i
      unfolding head using that by (intro chain) auto
  qed
  also have "\<dots> = find (\<lambda>i. names ! (i - 1) = name) (rev [1..<length names + 1])"
    by (rule find_filter) (auto simp: name_hash_def h_def)
  finally show ?thesis .
qed

subsection \<open>One entry per name\<close>

definition idx_ok :: "(string \<Rightarrow> nat option) \<Rightarrow> dyn_sym list \<Rightarrow> bool" where
  "idx_ok idx syms \<longleftrightarrow> (\<forall>nm i. idx nm = Some i \<longleftrightarrow> i < length syms \<and> ds_name (syms ! i) = nm)"

lemma idx_ok_add:
  assumes "idx_ok idx syms" "idx nm = None" "ds_name d = nm"
  shows "idx_ok (idx(nm \<mapsto> length syms)) (syms @ [d])"
proof -
  have no: "ds_name (syms ! j) \<noteq> nm" if "j < length syms" for j
    using assms(1,2) that unfolding idx_ok_def by (metis option.distinct(1))
  show ?thesis
    unfolding idx_ok_def using assms(1,3) no by (auto simp: idx_ok_def nth_append less_Suc_eq)
qed

lemma idx_ok_distinct: "idx_ok idx syms \<Longrightarrow> distinct (map ds_name syms)"
  unfolding idx_ok_def distinct_conv_nth by (metis length_map nth_map option.inject)

definition dyn_ok :: "dyn_state \<Rightarrow> bool" where
  "dyn_ok st \<longleftrightarrow> idx_ok (dy_idx st) (dy_syms st)
     \<and> (\<forall>nm p. dy_pltmap st nm = Some p \<longrightarrow> p < length (dy_plts st) \<and> dy_idx st nm = Some (dy_plts st ! p))
     \<and> (\<forall>nm g. dy_gotimp st nm = Some g \<longrightarrow>
          g < length (dy_gots st) \<and> (\<exists>di. dy_gots st ! g = Got_Import di \<and> dy_idx st nm = Some di))"

text \<open>What a step of the relocation walk keeps: entries once made stay where they are.\<close>

definition dyn_later :: "dyn_state \<Rightarrow> dyn_state \<Rightarrow> bool" where
  "dyn_later st st' \<longleftrightarrow>
     (\<exists>xs. dy_syms st' = dy_syms st @ xs) \<and> (\<exists>xs. dy_plts st' = dy_plts st @ xs) \<and> (\<exists>xs. dy_gots st' = dy_gots st @ xs)
     \<and> (\<exists>xs. dy_fixups st' = dy_fixups st @ xs) \<and> (dy_idx st \<subseteq>\<^sub>m dy_idx st')"

lemma dyn_later_refl [simp]: "dyn_later st st"
  by (simp add: dyn_later_def)

lemma dyn_later_trans: "dyn_later st st1 \<Longrightarrow> dyn_later st1 st2 \<Longrightarrow> dyn_later st st2"
  unfolding dyn_later_def by (metis append.assoc map_le_trans)

lemma dyn_start_ok [simp]: "dyn_ok (dyn_start lk)"
  by (simp add: dyn_ok_def idx_ok_def dyn_start_def)

lemma get_dynidx_later:
  assumes "get_dynidx nm bind ty st = (i, st')"
  shows "dyn_later st st'" "dy_idx st' nm = Some i" "dy_lk st' = dy_lk st" "dy_fixups st' = dy_fixups st"
    "dy_plts st' = dy_plts st" "dy_pltmap st' = dy_pltmap st" "dy_gots st' = dy_gots st" "dy_gotimp st' = dy_gotimp st"
  using assms by (auto simp: get_dynidx_def dyn_later_def map_le_def dom_def split: option.splits)

lemma get_dynidx_ok:
  assumes "dyn_ok st" "get_dynidx nm bind ty st = (i, st')"
  shows "dyn_ok st'"
proof -
  note l = get_dynidx_later [OF assms(2)]
  have "idx_ok (dy_idx st') (dy_syms st')"
    using assms idx_ok_add [of "dy_idx st" "dy_syms st" nm] unfolding dyn_ok_def get_dynidx_def
    by (auto split: option.splits)
  moreover have "dy_idx st' n = Some j" if "dy_idx st n = Some j" for n j
    using l(1) that unfolding dyn_later_def map_le_def by (metis domI)
  ultimately show ?thesis using assms(1) l(5-8) unfolding dyn_ok_def by (simp only:) blast
qed

lemma map_le_someD: "m \<subseteq>\<^sub>m m' \<Longrightarrow> m x = Some y \<Longrightarrow> m' x = Some y"
  unfolding map_le_def by (metis domI)

lemma plt_index_ok:
  assumes "plt_index y st = (p, st')"
  shows "dyn_later st st'" "dy_lk st' = dy_lk st" "dy_fixups st' = dy_fixups st" "dyn_ok st \<Longrightarrow> dyn_ok st'"
    "dyn_ok st \<Longrightarrow> p < length (dy_plts st') \<and> dy_idx st' (sym_name y) = Some (dy_plts st' ! p)"
proof -
  consider (old) "dy_pltmap st (sym_name y) = Some p" "st' = st"
    | (new) di st1 where "get_dynidx (sym_name y) (sym_bind y) (type_or (sym_type y) STT_FUNC) st = (di, st1)"
        "p = length (dy_plts st1)" "st' = st1\<lparr>dy_plts := dy_plts st1 @ [di], dy_pltmap := (dy_pltmap st1)(sym_name y \<mapsto> p)\<rparr>"
    using assms by (auto simp: plt_index_def split: option.splits prod.splits)
  then have *: "dyn_later st st' \<and> dy_lk st' = dy_lk st \<and> dy_fixups st' = dy_fixups st \<and> (dyn_ok st \<longrightarrow> dyn_ok st'
      \<and> p < length (dy_plts st') \<and> dy_idx st' (sym_name y) = Some (dy_plts st' ! p))"
  proof cases
    case old
    then show ?thesis by (auto simp: dyn_ok_def)
  next
    case new
    note l = get_dynidx_later [OF new(1)]
    have "dyn_later st1 st'" by (simp add: new(3) dyn_later_def)
    moreover have "dyn_ok st'" if "dyn_ok st"
      using get_dynidx_ok [OF that new(1)] l(2) unfolding dyn_ok_def new(2,3)
      by (auto simp: nth_append intro: less_SucI split: if_splits)
    ultimately show ?thesis using l dyn_later_trans by (auto simp: new(2,3))
  qed
  then show "dyn_later st st'" "dy_lk st' = dy_lk st" "dy_fixups st' = dy_fixups st" "dyn_ok st \<Longrightarrow> dyn_ok st'"
    "dyn_ok st \<Longrightarrow> p < length (dy_plts st') \<and> dy_idx st' (sym_name y) = Some (dy_plts st' ! p)"
    by simp_all
qed

lemma got_index_ok:
  assumes "got_index y target st = (g, st')"
  shows "dyn_later st st'" "dy_lk st' = dy_lk st" "dy_fixups st' = dy_fixups st" "dyn_ok st \<Longrightarrow> dyn_ok st'"
proof -
  consider (internal) S where "st' = st\<lparr>dy_gots := dy_gots st @ [Got_Internal S]\<rparr>"
    | (old) "st' = st"
    | (new) di st1 where "get_dynidx (sym_name y) (sym_bind y) (type_or (sym_type y) STT_OBJECT) st = (di, st1)"
        "st' = st1\<lparr>dy_gots := dy_gots st1 @ [Got_Import di], dy_gotimp := (dy_gotimp st1)(sym_name y \<mapsto> length (dy_gots st1))\<rparr>"
    using assms by (auto simp: got_index_def split: option.splits prod.splits)
  then have *: "dyn_later st st' \<and> dy_lk st' = dy_lk st \<and> dy_fixups st' = dy_fixups st \<and> (dyn_ok st \<longrightarrow> dyn_ok st')"
  proof cases
    case internal
    then show ?thesis by (auto simp: dyn_ok_def dyn_later_def nth_append intro: less_SucI)
  next
    case new
    note l = get_dynidx_later [OF new(1)]
    have "dyn_later st1 st'" by (simp add: new(2) dyn_later_def)
    moreover have "dyn_ok st'" if "dyn_ok st"
      using get_dynidx_ok [OF that new(1)] l(2) unfolding dyn_ok_def new(2)
      by (auto simp: nth_append intro: less_SucI split: if_splits)
    ultimately show ?thesis using l dyn_later_trans by (auto simp: new(2))
  qed simp
  then show "dyn_later st st'" "dy_lk st' = dy_lk st" "dy_fixups st' = dy_fixups st" "dyn_ok st \<Longrightarrow> dyn_ok st'"
    by simp_all
qed

end
