(* ===== verification/Link_Dyn_Props.thy ===== *)
theory Link_Dyn_Props
  imports Link_Dyn_Hash "HOL-Library.Multiset"
begin

text \<open>
  What a dynamically linked image means to the run-time linker and the processor: the dynamic symbols are
  found through the hash table, a call of an imported function goes through the PLT stub whose slot the
  run-time linker fills for that function, and every section stands at its file offset.
\<close>

subsection \<open>Patching leaves everything but section contents\<close>

definition data_only :: "sec \<Rightarrow> sec \<Rightarrow> bool" where
  "data_only s s' \<longleftrightarrow> (\<exists>d. s' = s\<lparr>sec_data := d\<rparr> \<and> (d = None \<longleftrightarrow> sec_data s = None))"

definition objs_same :: "obj list \<Rightarrow> obj list \<Rightarrow> bool" where
  "objs_same objs objs' \<longleftrightarrow> length objs' = length objs \<and>
     (\<forall>oi<length objs. o_syms (objs' ! oi) = o_syms (objs ! oi) \<and> length (o_secs (objs' ! oi)) = length (o_secs (objs ! oi))
       \<and> (\<forall>si<length (o_secs (objs ! oi)). data_only (o_secs (objs ! oi) ! si) (o_secs (objs' ! oi) ! si)))"

lemma data_only_simps:
  "data_only s s' \<Longrightarrow> sec_va s' = sec_va s" "data_only s s' \<Longrightarrow> sec_flags s' = sec_flags s"
  "data_only s s' \<Longrightarrow> sec_out s' = sec_out s" "data_only s s' \<Longrightarrow> sec_rel s' = sec_rel s"
  "data_only s s' \<Longrightarrow> sec_type s' = sec_type s" "data_only s s' \<Longrightarrow> sec_size s' = sec_size s"
  "data_only s s' \<Longrightarrow> (sec_data s' = None) = (sec_data s = None)"
  by (auto simp: data_only_def)

lemma data_only_refl [simp]: "data_only s s"
  unfolding data_only_def by (rule exI [of _ "sec_data s"]) simp

lemma objs_same_refl [simp]: "objs_same objs objs"
  by (simp add: objs_same_def)

lemma data_only_trans: "data_only s t \<Longrightarrow> data_only t u \<Longrightarrow> data_only s u"
  by (auto simp: data_only_def)

lemma objs_same_trans:
  assumes "objs_same a b" "objs_same b c"
  shows "objs_same a c"
proof -
  have "data_only (o_secs (a ! oi) ! si) (o_secs (c ! oi) ! si)" if "oi < length a" "si < length (o_secs (a ! oi))" for oi si
    using assms that data_only_trans [of _ "o_secs (b ! oi) ! si"] unfolding objs_same_def by metis
  then show ?thesis using assms unfolding objs_same_def by auto
qed

lemma patch_obj_same:
  assumes "patch_obj oi si off bs objs = Inr objs'" "oi < length objs" "si < length (o_secs (objs ! oi))"
  shows "objs_same objs objs'"
proof -
  let ?s = "o_secs (objs ! oi) ! si"
  obtain data data' where d: "sec_data ?s = Some data"
    "objs' = objs[oi := (objs ! oi)\<lparr>o_secs := (o_secs (objs ! oi))[si := ?s\<lparr>sec_data := Some data'\<rparr>]\<rparr>]"
    using assms(1) by (auto simp: patch_obj_def Let_def split: option.splits)
  have "data_only ?s (?s\<lparr>sec_data := Some data'\<rparr>)" using d(1) by (auto simp: data_only_def)
  then show ?thesis unfolding objs_same_def d(2) using assms(2,3) by (auto simp: nth_list_update)
qed

lemma sym_addr_same:
  assumes "objs_same (lk_objs lk) objs" "oi < length (lk_objs lk)"
    "\<forall>d\<in>ran (lk_globals lk). fst d < length (lk_objs lk)"
  shows "sym_addr (lk\<lparr>lk_objs := objs\<rparr>) oi i = sym_addr lk oi i"
proof -
  have o: "o_syms (objs ! j) = o_syms (lk_objs lk ! j)" "length (o_secs (objs ! j)) = length (o_secs (lk_objs lk ! j))"
    "k < length (o_secs (lk_objs lk ! j)) \<Longrightarrow> sec_va (o_secs (objs ! j) ! k) = sec_va (o_secs (lk_objs lk ! j) ! k)"
    if "j < length (lk_objs lk)" for j k
    using assms(1) that data_only_simps(1) unfolding objs_same_def by blast+
  let ?nm = "sym_name (o_syms (lk_objs lk ! oi) ! i)"
  show ?thesis
  proof (cases "lk_globals lk ?nm")
    case None
    then show ?thesis using o [OF assms(2)] unfolding sym_addr_def by (auto simp: Let_def)
  next
    case (Some d)
    then have "fst d < length (lk_objs lk)" using assms(3) by (blast intro: ranI)
    from o [OF this] o [OF assms(2)] Some show ?thesis unfolding sym_addr_def by (simp add: Let_def sym_at_def)
  qed
qed

subsection \<open>The walk over the relocations\<close>

definition globals_ok :: "linker \<Rightarrow> bool" where
  "globals_ok lk \<longleftrightarrow> (\<forall>d\<in>ran (lk_globals lk). fst d < length (lk_objs lk))"

text \<open>The state \<open>st\<close> of the walk, as seen from the linker \<open>lk\<close> it started with.\<close>

definition walk_ok :: "linker \<Rightarrow> dyn_state \<Rightarrow> bool" where
  "walk_ok lk st \<longleftrightarrow> dyn_ok st \<and> (\<exists>objs. dy_lk st = lk\<lparr>lk_objs := objs\<rparr> \<and> objs_same (lk_objs lk) objs)"

definition valid_site :: "obj list \<Rightarrow> nat \<times> nat \<times> rela \<Rightarrow> bool" where
  "valid_site objs site \<longleftrightarrow> (case site of (oi, si, rl) \<Rightarrow> oi < length objs \<and> si < length (o_secs (objs ! oi)))"

lemma reloc_sites_valid: "list_all (valid_site objs) (reloc_sites objs)"
  by (auto simp: reloc_sites_def valid_site_def list_all_iff Let_def split: if_splits)

lemma dyn_patch_ok:
  assumes "walk_ok lk st" "valid_site (lk_objs lk) (oi, si, rl)" "dyn_patch oi si off bs st = Inr st'"
  shows "walk_ok lk st'" "dyn_later st st'" "dy_fixups st' = dy_fixups st"
proof -
  obtain objs where o: "dy_lk st = lk\<lparr>lk_objs := objs\<rparr>" "objs_same (lk_objs lk) objs"
    using assms(1) by (auto simp: walk_ok_def)
  obtain objs' where p: "patch_obj oi si off bs objs = Inr objs'" "st' = st\<lparr>dy_lk := lk\<lparr>lk_objs := objs'\<rparr>\<rparr>"
    using assms(3) o(1) by (auto simp: dyn_patch_def)
  have "oi < length objs" "si < length (o_secs (objs ! oi))"
    using o(2) assms(2) by (auto simp: objs_same_def valid_site_def)
  from patch_obj_same [OF p(1) this] have "objs_same (lk_objs lk) objs'" by (rule objs_same_trans [OF o(2)])
  then show "walk_ok lk st'" using assms(1) p(2) by (auto simp: walk_ok_def dyn_ok_def)
  show "dyn_later st st'" "dy_fixups st' = dy_fixups st" by (simp_all add: p(2) dyn_later_def)
qed

text \<open>What a site asks of the state after it: a call of an imported function has its PLT entry.\<close>

definition site_sym :: "linker \<Rightarrow> nat \<times> nat \<times> rela \<Rightarrow> sym" where
  "site_sym lk site = (case site of (oi, si, rl) \<Rightarrow> o_syms (lk_objs lk ! oi) ! unat (rel_sym rl))"

definition site_fixup :: "linker \<Rightarrow> nat \<times> nat \<times> rela \<Rightarrow> fix_kind \<Rightarrow> nat \<Rightarrow> fixup" where
  "site_fixup lk site kind k = (case site of (oi, si, rl) \<Rightarrow>
     \<lparr>fx_obj = oi, fx_sec = si, fx_off = rel_off rl, fx_P = sec_va (o_secs (lk_objs lk ! oi) ! si) + rel_off rl,
      fx_kind = kind, fx_slot = k, fx_add = rel_add rl\<rparr>)"

definition plt_ready :: "linker \<Rightarrow> dyn_state \<Rightarrow> nat \<times> nat \<times> rela \<Rightarrow> bool" where
  "plt_ready lk st site \<longleftrightarrow>
     (\<exists>k. k < length (dy_plts st) \<and> site_fixup lk site FIX_PLT k \<in> set (dy_fixups st)
        \<and> dy_idx st (sym_name (site_sym lk site)) = Some (dy_plts st ! k))"

lemma plt_ready_later: "plt_ready lk st site \<Longrightarrow> dyn_later st st' \<Longrightarrow> plt_ready lk st' site"
  unfolding plt_ready_def dyn_later_def by (auto simp: nth_append dest!: map_le_someD)

definition imports_call :: "linker \<Rightarrow> nat \<times> nat \<times> rela \<Rightarrow> bool" where
  "imports_call lk site \<longleftrightarrow> (case site of (oi, si, rl) \<Rightarrow>
     rel_type rl = R_X86_64_PLT32 \<and> sym_addr lk oi (unat (rel_sym rl)) = Inr None)"

lemma dyn_reloc_cases:
  assumes "dyn_reloc (oi, si, rl) st = Inr st'" "walk_ok lk st" "globals_ok lk" "valid_site (lk_objs lk) (oi, si, rl)"
  obtains (direct) off bs where "dyn_patch oi si off bs st = Inr st'" "\<not> imports_call lk (oi, si, rl)"
  | (plt) k st1 where "plt_index (site_sym lk (oi, si, rl)) st = (k, st1)"
      "st' = add_fixup (site_fixup lk (oi, si, rl) FIX_PLT k) st1"
  | (got) target k st1 where "got_index (site_sym lk (oi, si, rl)) target st = (k, st1)"
      "st' = add_fixup (site_fixup lk (oi, si, rl) FIX_GOT k) st1" "\<not> imports_call lk (oi, si, rl)"
  | (word) dr off bs where "dyn_patch oi si off bs (add_rela dr st) = Inr st'" "\<not> imports_call lk (oi, si, rl)"
  | (import) nm b t i st1 dr off bs where "get_dynidx nm b t st = (i, st1)"
      "dyn_patch oi si off bs (add_rela dr st1) = Inr st'" "\<not> imports_call lk (oi, si, rl)"
proof -
  obtain objs where o: "dy_lk st = lk\<lparr>lk_objs := objs\<rparr>" "objs_same (lk_objs lk) objs"
    using assms(2) by (auto simp: walk_ok_def)
  have oi: "oi < length (lk_objs lk)" "si < length (o_secs (lk_objs lk ! oi))" using assms(4) by (auto simp: valid_site_def)
  have same: "o_syms (objs ! oi) = o_syms (lk_objs lk ! oi)"
    "sec_va (o_secs (objs ! oi) ! si) = sec_va (o_secs (lk_objs lk ! oi) ! si)"
    using o(2) oi data_only_simps(1) unfolding objs_same_def by blast+
  have addr: "sym_addr (dy_lk st) oi i = sym_addr lk oi i" for i
    using sym_addr_same [OF o(2) oi(1)] assms(3) by (simp add: o(1) globals_ok_def)
  obtain target where t: "sym_addr lk oi (unat (rel_sym rl)) = Inr target"
    using assms(1) addr by (auto simp: dyn_reloc_def Let_def)
  have obj: "lk_objs (dy_lk st) = objs" by (simp add: o(1))
  let ?y = "site_sym lk (oi, si, rl)" let ?fx = "site_fixup lk (oi, si, rl)"
  have y: "o_syms (objs ! oi) ! unat (rel_sym rl) = ?y" by (simp add: site_sym_def same)
  have fx: "\<lparr>fx_obj = oi, fx_sec = si, fx_off = rel_off rl, fx_P = sec_va (o_secs (objs ! oi) ! si) + rel_off rl,
      fx_kind = kind, fx_slot = k, fx_add = rel_add rl\<rparr> = ?fx kind k" for kind k
    by (simp add: site_fixup_def same)
  note R = assms(1) [unfolded dyn_reloc_def Let_def prod.case addr t bnd_simps obj y fx]
  have no: "rel_type rl \<noteq> R_X86_64_PLT32 \<Longrightarrow> \<not> imports_call lk (oi, si, rl)"
    "target \<noteq> None \<Longrightarrow> \<not> imports_call lk (oi, si, rl)" using t by (auto simp: imports_call_def)
  show thesis
  proof (cases "rel_type rl = R_X86_64_PC32")
    case True
    then have "rel_type rl \<noteq> R_X86_64_PLT32" by (simp add: reloc_consts)
    then show thesis using R True no(1) direct by auto
  next
    case pc: False
    show thesis
    proof (cases "rel_type rl = R_X86_64_PLT32")
      case True
      show thesis
      proof (cases target)
        case None
        obtain k st1 where k: "plt_index ?y st = (k, st1)" by fastforce
        have "st' = add_fixup (?fx FIX_PLT k) st1" using R pc True None k by simp
        with k show thesis by (rule plt)
      next
        case (Some S)
        then show thesis using R pc True no(2) by (intro direct) simp_all
      qed
    next
      case call: False
      show thesis
      proof (cases "is_gotpcrel (rel_type rl)")
        case True
        obtain k st1 where k: "got_index ?y target st = (k, st1)" by fastforce
        have "st' = add_fixup (?fx FIX_GOT k) st1" using R pc call True k by simp
        with k show thesis using no(1) [OF call] by (rule got)
      next
        case False
        then have w: "rel_type rl = R_X86_64_64" using R pc call by (auto split: if_splits)
        show thesis
        proof (cases target)
          case None
          obtain i st1 where k: "get_dynidx (sym_name ?y) (sym_bind ?y) (sym_type ?y) st = (i, st1)" by fastforce
          show thesis by (rule import [OF k _ no(1) [OF call]]) (use R pc call False w None k in simp)
        next
          case (Some S)
          show thesis by (rule word [OF _ no(1) [OF call]]) (use R pc call False w Some in simp)
        qed
      qed
    qed
  qed
qed

text \<open>Fields of four bytes that do not overlap, by object, section and offset.\<close>

type_synonym field_key = "nat \<times> nat \<times> nat"

definition apart :: "field_key \<Rightarrow> field_key \<Rightarrow> bool" where
  "apart a b \<longleftrightarrow> (case (a, b) of ((oi, si, i), (oj, sj, j)) \<Rightarrow> oi = oj \<and> si = sj \<longrightarrow> i + 4 \<le> j \<or> j + 4 \<le> i)"

definition site_key :: "nat \<times> nat \<times> rela \<Rightarrow> field_key" where
  "site_key site = (case site of (oi, si, rl) \<Rightarrow> (oi, si, unat (rel_off rl)))"

definition fx_key :: "fixup \<Rightarrow> field_key" where
  "fx_key fx = (fx_obj fx, fx_sec fx, unat (fx_off fx))"

definition valid_fixup :: "obj list \<Rightarrow> fixup \<Rightarrow> bool" where
  "valid_fixup objs fx \<longleftrightarrow> fx_obj fx < length objs \<and> fx_sec fx < length (o_secs (objs ! fx_obj fx))"

lemma site_fixup_simps [simp]:
  "fx_key (site_fixup lk site kind k) = site_key site"
  "valid_fixup (lk_objs lk) (site_fixup lk site kind k) = valid_site (lk_objs lk) site"
  "fx_kind (site_fixup lk site kind k) = kind" "fx_slot (site_fixup lk site kind k) = k"
  by (auto simp: fx_key_def site_key_def site_fixup_def valid_fixup_def valid_site_def split: prod.splits)

lemma add_fixup_simps [simp]:
  "dy_fixups (add_fixup fx st) = dy_fixups st @ [fx]" "dy_plts (add_fixup fx st) = dy_plts st"
  "dy_idx (add_fixup fx st) = dy_idx st" "dyn_ok (add_fixup fx st) = dyn_ok st" "dy_lk (add_fixup fx st) = dy_lk st"
  "dyn_later st (add_fixup fx st)" "walk_ok lk (add_fixup fx st) = walk_ok lk st"
  by (simp_all add: add_fixup_def dyn_ok_def dyn_later_def walk_ok_def)

lemma add_rela_simps [simp]:
  "walk_ok lk (add_rela dr st) = walk_ok lk st" "dyn_later st (add_rela dr st)" "dy_fixups (add_rela dr st) = dy_fixups st"
  by (simp_all add: add_rela_def dyn_ok_def dyn_later_def walk_ok_def)

lemma dyn_reloc_step:
  assumes "dyn_reloc site st = Inr st'" "walk_ok lk st" "globals_ok lk" "valid_site (lk_objs lk) site"
  shows "walk_ok lk st' \<and> dyn_later st st' \<and> (imports_call lk site \<longrightarrow> plt_ready lk st' site)
    \<and> (\<exists>fxs. dy_fixups st' = dy_fixups st @ fxs \<and> (fxs = [] \<or> (\<exists>kind k. fxs = [site_fixup lk site kind k])))"
proof -
  obtain oi si rl where site: "site = (oi, si, rl)" by (cases site)
  note a = assms(1,4) [unfolded site]
  have step: "walk_ok lk t \<Longrightarrow> dyn_patch oi si off bs t = Inr st' \<Longrightarrow> dyn_later st t \<Longrightarrow> dy_fixups t = dy_fixups st \<Longrightarrow>
      walk_ok lk st' \<and> dyn_later st st' \<and> dy_fixups st' = dy_fixups st" for off bs t
    using dyn_patch_ok [OF _ a(2), of t off bs st'] dyn_later_trans by auto
  from a(1) assms(2,3) a(2) show ?thesis
  proof (cases rule: dyn_reloc_cases)
    case (direct off bs)
    then show ?thesis using step [OF assms(2)] by (simp add: site)
  next
    case (plt k st1)
    note l = plt_index_ok [OF plt(1)]
    have "walk_ok lk st1" using assms(2) l(2,4) by (auto simp: walk_ok_def)
    moreover have "plt_ready lk st' site"
      using l(5) assms(2) plt(2) unfolding plt_ready_def walk_ok_def site by auto
    ultimately show ?thesis using l(1,3) plt(2) dyn_later_trans [OF l(1)] by (auto simp: site)
  next
    case (got target k st1)
    note l = got_index_ok [OF got(1)]
    have "walk_ok lk st1" using assms(2) l(2,4) by (auto simp: walk_ok_def)
    then show ?thesis using got(2,3) l(3) dyn_later_trans [OF l(1)] by (auto simp: site)
  next
    case (word dr off bs)
    then show ?thesis using step [of "add_rela dr st"] assms(2) by (simp add: site)
  next
    case (import nm b t i st1 dr off bs)
    note l = get_dynidx_later [OF import(1)]
    have "walk_ok lk st1" using assms(2) l(3) get_dynidx_ok [OF _ import(1)] by (auto simp: walk_ok_def)
    moreover have "dyn_later st (add_rela dr st1)" by (rule dyn_later_trans [OF l(1)]) simp
    ultimately show ?thesis using import(2,3) step [of "add_rela dr st1"] l(4) by (simp add: site)
  qed
qed

lemma dyn_reloc_walk:
  assumes "fold_err dyn_reloc sites st = Inr st'" "walk_ok lk st" "globals_ok lk" "list_all (valid_site (lk_objs lk)) sites"
    "sorted_wrt apart (map fx_key (dy_fixups st) @ map site_key sites)" "list_all (valid_fixup (lk_objs lk)) (dy_fixups st)"
  shows "walk_ok lk st' \<and> dyn_later st st' \<and> (\<forall>site\<in>set sites. imports_call lk site \<longrightarrow> plt_ready lk st' site)
    \<and> sorted_wrt apart (map fx_key (dy_fixups st')) \<and> list_all (valid_fixup (lk_objs lk)) (dy_fixups st')"
  using assms
proof (induction sites arbitrary: st)
  case (Cons site sites)
  from Cons.prems(1) obtain st1 where s: "dyn_reloc site st = Inr st1" "fold_err dyn_reloc sites st1 = Inr st'" by auto
  have v: "valid_site (lk_objs lk) site" using Cons.prems(4) by simp
  from dyn_reloc_step [OF s(1) Cons.prems(2,3) v] obtain fxs where
    st1: "walk_ok lk st1" "dyn_later st st1" "imports_call lk site \<longrightarrow> plt_ready lk st1 site"
    "dy_fixups st1 = dy_fixups st @ fxs" "fxs = [] \<or> (\<exists>kind k. fxs = [site_fixup lk site kind k])" by blast
  have "sorted_wrt apart (map fx_key (dy_fixups st1) @ map site_key sites)"
    using Cons.prems(5) st1(4,5) by (auto simp: sorted_wrt_append)
  moreover have "list_all (valid_fixup (lk_objs lk)) (dy_fixups st1)" using Cons.prems(6) st1(4,5) v by auto
  ultimately have "walk_ok lk st' \<and> dyn_later st1 st' \<and> (\<forall>site\<in>set sites. imports_call lk site \<longrightarrow> plt_ready lk st' site)
    \<and> sorted_wrt apart (map fx_key (dy_fixups st')) \<and> list_all (valid_fixup (lk_objs lk)) (dy_fixups st')"
    using Cons.IH [OF s(2) st1(1) Cons.prems(3)] Cons.prems(4) by simp
  then show ?case using st1(3) plt_ready_later [of lk st1 site st'] dyn_later_trans [OF st1(2)] by auto
qed simp

subsection \<open>Exports and late fix-ups\<close>

lemma export_symbol_ok:
  assumes "export_symbol d (st, ex) = (st', ex')" "idx_ok (dy_idx st) (dy_syms st)"
  shows "idx_ok (dy_idx st') (dy_syms st') \<and> dyn_later st st' \<and> dy_plts st' = dy_plts st \<and> dy_fixups st' = dy_fixups st
    \<and> dy_lk st' = dy_lk st"
proof (cases "exported (dy_lk st) (dy_idx st) d")
  case True
  then have n: "dy_idx st (sym_name (sym_at (lk_objs (dy_lk st)) d)) = None" by (simp add: exported_def Let_def)
  then show ?thesis using assms True idx_ok_add [OF assms(2) n] by (auto simp: export_symbol_def Let_def dyn_later_def map_le_def dom_def)
next
  case False
  then show ?thesis using assms by (simp add: export_symbol_def Let_def)
qed

lemma export_fold_ok:
  assumes "fold export_symbol ds (st, ex) = (st', ex')" "idx_ok (dy_idx st) (dy_syms st)"
  shows "idx_ok (dy_idx st') (dy_syms st') \<and> dyn_later st st' \<and> dy_plts st' = dy_plts st \<and> dy_fixups st' = dy_fixups st
    \<and> dy_lk st' = dy_lk st"
  using assms
proof (induction ds arbitrary: st ex)
  case (Cons d ds)
  obtain st1 ex1 where s: "export_symbol d (st, ex) = (st1, ex1)" by fastforce
  note 1 = export_symbol_ok [OF s Cons.prems(2)]
  have "fold export_symbol ds (st1, ex1) = (st', ex')" using Cons.prems(1) s by simp
  from Cons.IH [OF this] 1 dyn_later_trans [of st st1] show ?case by auto
qed simp

lemma export_all_ok:
  assumes "export_all mode st = (st', ex)" "idx_ok (dy_idx st) (dy_syms st)"
  shows "idx_ok (dy_idx st') (dy_syms st') \<and> dyn_later st st' \<and> dy_plts st' = dy_plts st \<and> dy_fixups st' = dy_fixups st
    \<and> dy_lk st' = dy_lk st"
  using assms export_fold_ok by (cases "mode = LINK_SHARED") (auto simp: export_all_def)

lemma export_values_names:
  "fold_err (export_value lk) ex syms = Inr syms' \<Longrightarrow> map ds_name syms' = map ds_name syms"
proof (induction ex arbitrary: syms)
  case (Cons e ex)
  from Cons.prems obtain s1 where s: "export_value lk e syms = Inr s1" "fold_err (export_value lk) ex s1 = Inr syms'" by auto
  have "map ds_name s1 = map ds_name syms"
  proof -
    have "map ds_name (syms[i := (syms ! i)\<lparr>ds_value := v\<rparr>]) = map ds_name syms" for i v
      by (cases "i < length syms") (simp_all add: map_update list_update_same_conv list_update_beyond)
    then show ?thesis using s(1) by (auto simp: export_value_def split: option.splits prod.splits)
  qed
  then show ?case using Cons.IH [OF s(2)] by simp
qed simp

definition field_at :: "obj list \<Rightarrow> field_key \<Rightarrow> u8 list" where
  "field_at objs k = (case k of (oi, si, off) \<Rightarrow>
     (case sec_data (o_secs (objs ! oi) ! si) of None \<Rightarrow> [] | Some data \<Rightarrow> take 4 (drop off data)))"

lemma patch_fields:
  assumes "patch data off bs = Inr data'"
  shows "take (length bs) (drop off data') = bs"
    "off' + n \<le> off \<or> off + length bs \<le> off' \<Longrightarrow> take n (drop off' data') = take n (drop off' data)"
proof -
  note p = patch_nth [OF assms]
  show "take (length bs) (drop off data') = bs" using p by (intro take_drop_nth_eq) simp_all
  show "off' + n \<le> off \<or> off + length bs \<le> off' \<Longrightarrow> take n (drop off' data') = take n (drop off' data)"
    using p by (intro nth_equalityI) auto
qed

lemma patch_obj_fields:
  assumes "patch_obj oi si off bs objs = Inr objs'" "length bs = 4" "oi < length objs" "si < length (o_secs (objs ! oi))"
  shows "field_at objs' (oi, si, off) = bs" "apart (oi, si, off) k \<Longrightarrow> field_at objs' k = field_at objs k"
proof -
  let ?s = "o_secs (objs ! oi) ! si"
  obtain data data' where d: "sec_data ?s = Some data" "patch data off bs = Inr data'"
    "objs' = objs[oi := (objs ! oi)\<lparr>o_secs := (o_secs (objs ! oi))[si := ?s\<lparr>sec_data := Some data'\<rparr>]\<rparr>]"
    using assms(1) by (auto simp: patch_obj_def Let_def split: option.splits)
  note p = patch_fields [OF d(2)]
  show "field_at objs' (oi, si, off) = bs" using assms(2-4) p(1) by (simp add: field_at_def d(3))
  obtain oj sj j where k: "k = (oj, sj, j)" by (cases k)
  show "field_at objs' k = field_at objs k" if ap: "apart (oi, si, off) k"
  proof (cases "oi = oj \<and> si = sj")
    case True
    then show ?thesis using ap k p(2) [of j 4] assms(2-4) d(1) by (auto simp: apart_def field_at_def d(3))
  next
    case False
    then have "o_secs (objs' ! oj) ! sj = o_secs (objs ! oj) ! sj"
      using assms(3) by (cases "oi = oj") (simp_all add: d(3))
    then show ?thesis by (simp add: field_at_def k)
  qed
qed

definition fixup_bytes :: "u64 \<Rightarrow> u64 \<Rightarrow> fixup \<Rightarrow> u8 list" where
  "fixup_bytes plt got fx = le_bytes 4 (ucast (slot_va plt got fx + fx_add fx - fx_P fx) :: u32)"

lemma apply_fixups:
  assumes "fold_err (apply_fixup plt got) fxs objs = Inr objs'" "sorted_wrt apart (map fx_key fxs)"
    "list_all (valid_fixup objs) fxs"
  shows "objs_same objs objs' \<and> (\<forall>fx\<in>set fxs. field_at objs' (fx_key fx) = fixup_bytes plt got fx)
    \<and> (\<forall>k. (\<forall>fx\<in>set fxs. apart (fx_key fx) k) \<longrightarrow> field_at objs' k = field_at objs k)"
  using assms
proof (induction fxs arbitrary: objs)
  case (Cons fx fxs)
  from Cons.prems(1) obtain o1 where s: "apply_fixup plt got fx objs = Inr o1"
    "fold_err (apply_fixup plt got) fxs o1 = Inr objs'" by auto
  have v: "fx_obj fx < length objs" "fx_sec fx < length (o_secs (objs ! fx_obj fx))"
    using Cons.prems(3) by (auto simp: valid_fixup_def)
  have p: "patch_obj (fx_obj fx) (fx_sec fx) (unat (fx_off fx)) (fixup_bytes plt got fx) objs = Inr o1"
    using s(1) by (simp add: apply_fixup_def fixup_bytes_def)
  have 4: "length (fixup_bytes plt got fx) = 4" by (simp add: fixup_bytes_def)
  note f = patch_obj_fields [OF p 4 v, folded fx_key_def] and same = patch_obj_same [OF p v]
  have valid: "list_all (valid_fixup o1) fxs"
    using Cons.prems(3) same by (auto simp: list_all_iff valid_fixup_def objs_same_def)
  have IH: "objs_same o1 objs'" "\<forall>fx\<in>set fxs. field_at objs' (fx_key fx) = fixup_bytes plt got fx"
    "\<And>k. \<forall>fx\<in>set fxs. apart (fx_key fx) k \<Longrightarrow> field_at objs' k = field_at o1 k"
    using Cons.IH [OF s(2) _ valid] Cons.prems(2) by auto
  have "apart (fx_key g) (fx_key fx)" if "g \<in> set fxs" for g
    using Cons.prems(2) that by (auto simp: apart_def split: prod.splits)
  then have "field_at objs' (fx_key fx) = fixup_bytes plt got fx" using IH(3) f(1) by simp
  moreover have "field_at objs' k = field_at objs k" if "\<forall>g\<in>set (fx # fxs). apart (fx_key g) k" for k
    using that IH(3) f(2) by simp
  ultimately show ?case using IH(1,2) objs_same_trans [OF same] by simp
qed simp

subsection \<open>What the run-time linker and the processor read\<close>

definition plt_entry :: "dyn_out \<Rightarrow> nat \<Rightarrow> u64" where
  "plt_entry d k = da_plt (do_addrs d) + of_nat k * 16"

definition gotplt_slot :: "dyn_out \<Rightarrow> nat \<Rightarrow> u64" where
  "gotplt_slot d k = ra_gotplt (do_rw d) + of_nat k * 8"

text \<open>The slot that the indirect jump of a PLT stub reads.\<close>

definition stub_slot :: "dyn_out \<Rightarrow> nat \<Rightarrow> u64 option" where
  "stub_slot d k =
     (let stub = take 16 (drop (16 * k) (out_plt d))
      in if take 2 stub = [0xff, 0x25] then Some (plt_entry d k + 6 + scast (le_word (take 4 (drop 2 stub)) :: u32)) else None)"

text \<open>The name of entry \<open>i\<close> of \<^verbatim>\<open>.dynsym\<close>, and the slot and name of entry \<open>k\<close> of \<^verbatim>\<open>.rela.plt\<close>.\<close>

definition dynsym_name :: "dyn_out \<Rightarrow> nat \<Rightarrow> link_error + string" where
  "dynsym_name d i = cstr (st_bytes (do_strings d)) (le_nat (take 4 (drop (24 * i) (out_dynsym d))))"

definition jump_slot :: "dyn_out \<Rightarrow> nat \<Rightarrow> (nat \<times> (link_error + string)) option" where
  "jump_slot d k =
     (let e = take 24 (drop (24 * k) (out_relaplt d))
      in if le_nat (take 4 (drop 8 e)) = unat R_X86_64_JUMP_SLOT
         then Some (le_nat (take 8 e), dynsym_name d (le_nat (take 4 (drop 12 e)))) else None)"

lemma concat_chunk0:
  "(\<And>x. length (f x) = n) \<Longrightarrow> k < length xs \<Longrightarrow> take n (drop (n * k) (concat (map f xs))) = f (xs ! k)"
  using concat_chunk [of f n k xs "[]"] by simp

lemma length_plt_stub [simp]: "length (plt_stub plt gotplt i) = 16"
  by (simp add: plt_stub_def Let_def)

lemma length_rela_entry [simp]: "length (rela_entry off sm ty add) = 24"
  by (simp add: rela_entry_def)

lemma length_dynsym_entry [simp]: "length (dynsym_entry nm d) = 24"
  by (simp add: dynsym_entry_def)

lemma scast_add_of_fits:
  "fits_int32 (v - p) \<Longrightarrow> p + scast (ucast (v - p) :: u32) = v"
  by (simp add: scast_of_fits)

lemma stub_slot_eq:
  assumes "k < length (dy_plts (do_state d))" "fits_int32 (gotplt_slot d k - (plt_entry d k + 6))"
  shows "stub_slot d k = Some (gotplt_slot d k)"
proof -
  have c: "take 16 (drop (16 * k) (out_plt d)) = plt_stub (da_plt (do_addrs d)) (ra_gotplt (do_rw d)) k"
    unfolding out_plt_def using assms(1)
    by (subst concat_chunk0) simp_all
  have "take 4 (drop 2 (plt_stub (da_plt (do_addrs d)) (ra_gotplt (do_rw d)) k)) =
      le_bytes 4 (ucast (gotplt_slot d k - (plt_entry d k + 6)) :: u32)"
    by (simp add: plt_stub_def Let_def gotplt_slot_def plt_entry_def)
  then show ?thesis
    unfolding stub_slot_def Let_def c using scast_add_of_fits [OF assms(2)]
    by (simp add: plt_stub_def Let_def)
qed

lemma rela_info:
  assumes "s < 2 ^ 32"
  shows "unat (push_bit 32 (of_nat s) OR ucast (ty :: u32) :: u64) = s * 2 ^ 32 + unat ty"
proof -
  have b: "unat ty < 2 ^ LENGTH(32)" by (rule unsigned_less)
  then have t: "unat (ucast ty :: u64) = unat ty"
    by (simp only: unsigned_ucast_eq unsigned_take_bit_eq take_bit_nat_def) simp
  have p: "unat (push_bit 32 (of_nat s) :: u64) = s * 2 ^ 32"
    using assms by (simp add: unat_of_nat push_bit_eq_mult unat_word_ariths)
  have "(push_bit 32 (of_nat s) :: u64) AND ucast ty = 0"
    by (rule bit_eqI) (auto simp: bit_simps dest: bit_imp_le_length)
  then have "push_bit 32 (of_nat s) OR ucast ty = push_bit 32 (of_nat s) + (ucast ty :: u64)"
    by (simp add: disjunctive_add_eq_or)
  moreover have "unat (push_bit 32 (of_nat s) + (ucast ty :: u64)) = s * 2 ^ 32 + unat ty"
    using p t b assms by (subst unat_word_ariths) simp
  ultimately show ?thesis by simp
qed

lemma le_nat_take_le_bytes: "m \<le> n \<Longrightarrow> le_nat (take m (le_bytes n w)) = unat w mod 256 ^ m"
proof -
  assume "m \<le> n"
  then have "take m (le_bytes n w) = le_bytes m w" by (simp add: le_bytes_def take_map min_def)
  then show ?thesis by simp
qed

lemma le_nat_drop_le_bytes: "n \<le> k \<Longrightarrow> le_nat (drop k (le_bytes (k + m) w)) = unat w div 256 ^ k mod 256 ^ m"
proof -
  have "drop k (le_bytes (k + m) w) = le_bytes m (drop_bit (8 * k) w)"
    by (rule nth_equalityI) (simp_all add: le_bytes_def drop_bit_drop_bit algebra_simps)
  moreover have "unat (drop_bit (8 * k) w) = unat w div 256 ^ k"
    by (simp only: unat_drop_bit_eq drop_bit_nat_def power_mult) simp
  ultimately show ?thesis by simp
qed

lemma rela_entry_fields:
  assumes "s < 2 ^ 32"
  shows "le_nat (take 8 (rela_entry off (of_nat s) ty add)) = unat off"
    "le_nat (take 4 (drop 8 (rela_entry off (of_nat s) ty add))) = unat ty"
    "le_nat (take 4 (drop 12 (rela_entry off (of_nat s) ty add))) = s"
proof -
  let ?info = "push_bit 32 (of_nat s) OR ucast ty :: u64"
  have b: "unat ty < 2 ^ LENGTH(32)" by (rule unsigned_less)
  note i = rela_info [OF assms, of ty]
  show "le_nat (take 8 (rela_entry off (of_nat s) ty add)) = unat off"
    by (simp add: rela_entry_def unat_mod64 [simplified])
  show "le_nat (take 4 (drop 8 (rela_entry off (of_nat s) ty add))) = unat ty"
    using b i by (simp add: rela_entry_def le_nat_take_le_bytes)
  have "take 4 (drop 12 (rela_entry off (of_nat s) ty add)) = drop 4 (le_bytes (4 + 4) ?info)"
    by (simp add: rela_entry_def)
  then have "le_nat (take 4 (drop 12 (rela_entry off (of_nat s) ty add))) = unat ?info div 256 ^ 4 mod 256 ^ 4"
    using le_nat_drop_le_bytes [of 4 4 4 ?info] by simp
  then show "le_nat (take 4 (drop 12 (rela_entry off (of_nat s) ty add))) = s" using b i assms by simp
qed

subsection \<open>The string table\<close>

lemma dynstr_thread:
  assumes "thread dynstr_put names buf = (offs, b)" "length b < 2 ^ 32"
  shows "(\<exists>t. b = buf @ t) \<and> length offs = length names
    \<and> (\<forall>i<length names. \<exists>rest. drop (unat (offs ! i)) b = c_string (names ! i) @ rest)"
  using assms
proof (induction names arbitrary: buf offs)
  case (Cons s names)
  from Cons.prems(1) obtain os where t: "thread dynstr_put names (buf @ c_string s) = (os, b)"
    "offs = of_nat (length buf) # os"
    unfolding thread.simps dynstr_put_def [of s buf] by (auto simp: Let_def split: prod.splits)
  from Cons.IH [OF t(1) Cons.prems(2)] obtain u where IH: "b = (buf @ c_string s) @ u" "length os = length names"
    "\<forall>i<length names. \<exists>rest. drop (unat (os ! i)) b = c_string (names ! i) @ rest" by blast
  have "length buf < 2 ^ 32" using IH(1) Cons.prems(2) by simp
  then have "unat (of_nat (length buf) :: u32) = length buf" by (simp add: unat_of_nat)
  then have "\<exists>rest. drop (unat (offs ! 0)) b = c_string s @ rest" using IH(1) t(2) by simp
  then show ?case using IH t(2) by (auto simp: less_Suc_eq_0_disj)
qed simp

lemma dynstr_put_append: "dynstr_put s buf = (o', b) \<Longrightarrow> \<exists>t. b = buf @ t"
  by (auto simp: dynstr_put_def)

lemma build_dynstr_names:
  assumes "length (st_bytes (build_dynstr req syms)) < 2 ^ 32" "i < length syms" "c_text (ds_name (syms ! i))"
  shows "length (st_syms (build_dynstr req syms)) = length syms"
    "cstr (st_bytes (build_dynstr req syms)) (unat (st_syms (build_dynstr req syms) ! i)) = Inr (ds_name (syms ! i))"
proof -
  obtain so b1 where 1: "thread dynstr_put (map ds_name syms) [0] = (so, b1)" by fastforce
  obtain no b2 where 2: "thread dynstr_put (take 8 (rq_needed req)) b1 = (no, b2)" by fastforce
  obtain sn b3 where 3: "(case soname_of req of Some s \<Rightarrow> dynstr_put s b2 | None \<Rightarrow> (0, b2)) = (sn, b3)" by fastforce
  obtain ip b4 where 4: "(case interp_of req of Some s \<Rightarrow> dynstr_put s b3 | None \<Rightarrow> (0, b3)) = (ip, b4)" by fastforce
  have st: "build_dynstr req syms = \<lparr>st_syms = so, st_needed = no, st_soname = sn, st_interp = ip, st_bytes = b4\<rparr>"
    by (simp add: build_dynstr_def 1 2 3 4)
  obtain t4 where b4: "b4 = b3 @ t4" using 4 dynstr_put_append by (fastforce split: option.splits)
  obtain t3 where b3: "b3 = b2 @ t3" using 3 dynstr_put_append by (fastforce split: option.splits)
  have len: "length b2 < 2 ^ 32" using assms(1) by (simp add: st b4 b3)
  from dynstr_thread [OF 2 len] obtain t2 where b2: "b2 = b1 @ t2" by blast
  have "length b1 < 2 ^ 32" using len b2 by simp
  note n = dynstr_thread [OF 1 this]
  then show "length (st_syms (build_dynstr req syms)) = length syms" by (simp add: st)
  from n assms(2) obtain rest where r: "drop (unat (so ! i)) b1 = c_string (ds_name (syms ! i)) @ rest" by auto
  then have "unat (so ! i) < length b1" by (metis append_is_Nil_conv c_string_def drop_all linorder_not_le not_Cons_self2 append_self_conv2 list.distinct(1))
  then have "drop (unat (so ! i)) b4 = c_string (ds_name (syms ! i)) @ (rest @ t2 @ t3 @ t4)"
    using r by (simp add: b4 b3 b2)
  from cstr_c_string [OF this assms(3)]
  show "cstr (st_bytes (build_dynstr req syms)) (unat (st_syms (build_dynstr req syms) ! i)) = Inr (ds_name (syms ! i))"
    by (simp add: st)
qed

subsection \<open>The parts of a finished link\<close>

lemma dyn_link_parts:
  assumes "dyn_link req lk0 = Inr d" "layout_linker lk0 (rq_base_va req + PIE_HDR_RESERVE) = (lk, ly)"
  obtains st1 ex objs where
    "fold_err dyn_reloc (reloc_sites (lk_objs lk)) (dyn_start lk) = Inr st1"
    "export_all (rq_mode req) st1 = (do_state d, ex)"
    "map ds_name (do_syms d) = map ds_name (dy_syms (do_state d))"
    "do_strings d = build_dynstr req (dy_syms (do_state d))"
    "objs = map (shift_obj (rw_delta ly (da_r_end (do_addrs d)))) (lk_objs (dy_lk (do_state d)))"
    "fold_err (apply_fixup (da_plt (do_addrs d)) (ra_got (do_rw d))) (dy_fixups (do_state d)) objs = Inr (do_objs d)"
proof -
  from assms obtain st1 where 1: "fold_err dyn_reloc (reloc_sites (lk_objs lk)) (dyn_start lk) = Inr st1"
    by (auto simp: dyn_link_def bnd_Inr_iff)
  obtain st ex where 2: "export_all (rq_mode req) st1 = (st, ex)" by fastforce
  let ?strs = "build_dynstr req (dy_syms st)"
  let ?a = "ro_addrs ly (length (dy_plts st)) (length (dy_syms st)) (length (dy_rela st)) (length (st_bytes ?strs))"
  let ?delta = "rw_delta ly (da_r_end ?a)"
  let ?lk2 = "shift_rw ?delta ly (dy_lk st)"
  let ?rw = "rw_meta (shift_layout ?delta ly) (da_r_end ?a) (length (dy_gots st)) (length (dy_plts st))"
  from assms 1 2 obtain syms objs entry where 3: "fold_err (export_value ?lk2) ex (dy_syms st) = Inr syms"
    "fold_err (apply_fixup (da_plt ?a) (ra_got ?rw)) (dy_fixups st) (lk_objs ?lk2) = Inr objs"
    "d = \<lparr>do_objs = objs, do_layout = shift_layout ?delta ly, do_entry = entry, do_addrs = ?a, do_rw = ?rw,
       do_strings = ?strs, do_syms = syms, do_state = st\<rparr>"
    by (auto simp: dyn_link_def bnd_Inr_iff Let_def)
  show thesis
  proof (rule that [of st1 ex "lk_objs ?lk2"])
    show "map ds_name (do_syms d) = map ds_name (dy_syms (do_state d))" using export_values_names [OF 3(1)] by (simp add: 3(3))
  qed (use 1 2 3 in \<open>simp_all add: shift_rw_def Let_def\<close>)
qed

lemma dynsym_name_eq:
  assumes "do_strings d = build_dynstr req (dy_syms (do_state d))" "map ds_name (do_syms d) = map ds_name (dy_syms (do_state d))"
    and "length (st_bytes (do_strings d)) < 2 ^ 32" "i < length (do_syms d)" "c_text (ds_name (do_syms d ! i))"
  shows "dynsym_name d (i + 1) = Inr (ds_name (do_syms d ! i))"
proof -
  let ?syms = "dy_syms (do_state d)" let ?offs = "st_syms (do_strings d)"
  have len: "length (do_syms d) = length ?syms" using assms(2) by (metis length_map)
  then have nm: "ds_name (do_syms d ! i) = ds_name (?syms ! i)" using assms(2,4) by (metis nth_map)
  have b: "length ?offs = length (do_syms d)" "cstr (st_bytes (do_strings d)) (unat (?offs ! i)) = Inr (ds_name (do_syms d ! i))"
    using build_dynstr_names [of req ?syms i] assms(1,3,4,5) len nm by simp_all
  have "take 24 (drop (24 * (i + 1)) (out_dynsym d)) =
      take 24 (drop (24 * i) (concat (map (\<lambda>(nm, d). dynsym_entry nm d) (zip ?offs (do_syms d)))))"
    by (simp add: out_dynsym_def dynsym_section_def)
  also have "\<dots> = dynsym_entry (?offs ! i) (do_syms d ! i)"
    using assms(4) b(1) by (subst concat_chunk0) auto
  finally have e: "take 24 (drop (24 * (i + 1)) (out_dynsym d)) = dynsym_entry (?offs ! i) (do_syms d ! i)" .
  have "take 4 (drop (24 * (i + 1)) (out_dynsym d)) = take 4 (take 24 (drop (24 * (i + 1)) (out_dynsym d)))" by simp
  also have "\<dots> = le_bytes 4 (?offs ! i)" unfolding e by (simp add: dynsym_entry_def)
  finally have "le_nat (take 4 (drop (24 * (i + 1)) (out_dynsym d))) = unat (?offs ! i) mod 256 ^ 4" by simp
  moreover have "unat (?offs ! i) < 2 ^ LENGTH(32)" by (rule unsigned_less)
  ultimately show ?thesis using b(2) by (simp add: dynsym_name_def)
qed

lemma jump_slot_eq:
  assumes "k < length (dy_plts (do_state d))" "dy_plts (do_state d) ! k + 1 < 2 ^ 32"
  shows "jump_slot d k = Some (unat (gotplt_slot d k), dynsym_name d (dy_plts (do_state d) ! k + 1))"
proof -
  let ?plts = "dy_plts (do_state d)"
  have e: "take 24 (drop (24 * k) (out_relaplt d)) =
      rela_entry (gotplt_slot d k) (of_nat (?plts ! k + 1)) R_X86_64_JUMP_SLOT 0"
    unfolding out_relaplt_def relaplt_section_def using assms(1)
    by (subst concat_chunk0) (auto simp: nth_enumerate_eq gotplt_slot_def)
  show ?thesis
    unfolding jump_slot_def Let_def e using rela_entry_fields [OF assms(2)] by simp
qed

lemma globals_ok_include: "globals_ok lk \<Longrightarrow> globals_ok (include_object lk ob)"
proof -
  assume g: "globals_ok lk"
  have "fst d < length (lk_objs lk) + 1" if "d \<in> ran (lk_globals (include_object lk ob))" for d
  proof -
    have "d \<in> ran (lk_globals lk) \<union> set (object_symbols (length (lk_objs lk)) ob)"
      using that register_range unfolding include_object_def Let_def by (auto dest: subsetD)
    then show ?thesis using g by (auto simp: globals_ok_def object_symbols_def)
  qed
  then show ?thesis by (simp add: globals_ok_def include_object_objs)
qed

lemma layout_globals_ok:
  assumes "layout_linker lk base = (lk', ly)"
  shows "globals_ok lk' = globals_ok lk"
proof -
  have "length (ly_objs (layout_objects (lk_objs lk) base)) = length (lk_objs lk)"
    using list_all2_lengthD [OF layout_placed, of "lk_objs lk" base] by simp
  moreover have "lk_globals lk' = lk_globals lk" "lk_objs lk' = ly_objs (layout_objects (lk_objs lk) base)"
    using assms by (auto simp: layout_linker_def Let_def)
  ultimately show ?thesis by (simp add: globals_ok_def)
qed

definition sites_apart :: "linker \<Rightarrow> bool" where
  "sites_apart lk \<longleftrightarrow> sorted_wrt apart (map site_key (reloc_sites (lk_objs lk)))"

lemma dyn_link_state:
  assumes "dyn_link req lk0 = Inr d" "layout_linker lk0 (rq_base_va req + PIE_HDR_RESERVE) = (lk, ly)"
    "globals_ok lk" "sites_apart lk"
  shows "idx_ok (dy_idx (do_state d)) (dy_syms (do_state d))"
    "site \<in> set (reloc_sites (lk_objs lk)) \<Longrightarrow> imports_call lk site \<Longrightarrow> plt_ready lk (do_state d) site"
    "fx \<in> set (dy_fixups (do_state d)) \<Longrightarrow> field_at (do_objs d) (fx_key fx) = fixup_bytes (da_plt (do_addrs d)) (ra_got (do_rw d)) fx"
proof -
  from dyn_link_parts [OF assms(1,2)] obtain st1 ex objs where parts:
    "fold_err dyn_reloc (reloc_sites (lk_objs lk)) (dyn_start lk) = Inr st1"
    "export_all (rq_mode req) st1 = (do_state d, ex)"
    "objs = map (shift_obj (rw_delta ly (da_r_end (do_addrs d)))) (lk_objs (dy_lk (do_state d)))"
    "fold_err (apply_fixup (da_plt (do_addrs d)) (ra_got (do_rw d))) (dy_fixups (do_state d)) objs = Inr (do_objs d)"
    by blast
  have start: "walk_ok lk (dyn_start lk)" by (auto simp: walk_ok_def) (auto simp: dyn_start_def intro: exI [of _ "lk_objs lk"])
  have walk: "walk_ok lk st1" "\<forall>site\<in>set (reloc_sites (lk_objs lk)). imports_call lk site \<longrightarrow> plt_ready lk st1 site"
    "sorted_wrt apart (map fx_key (dy_fixups st1))" "list_all (valid_fixup (lk_objs lk)) (dy_fixups st1)"
    using dyn_reloc_walk [OF parts(1) start assms(3) reloc_sites_valid] assms(4)
    by (simp_all add: dyn_start_def sites_apart_def)
  have "idx_ok (dy_idx st1) (dy_syms st1)" using walk(1) by (simp add: walk_ok_def dyn_ok_def)
  note ex = export_all_ok [OF parts(2) this]
  then show "idx_ok (dy_idx (do_state d)) (dy_syms (do_state d))" by simp
  show "plt_ready lk (do_state d) site" if "site \<in> set (reloc_sites (lk_objs lk))" "imports_call lk site"
    using walk(2) that ex plt_ready_later by blast
  obtain objs0 where o: "dy_lk st1 = lk\<lparr>lk_objs := objs0\<rparr>" "objs_same (lk_objs lk) objs0" using walk(1) by (auto simp: walk_ok_def)
  have "length objs = length (lk_objs lk) \<and> (\<forall>i<length objs. length (o_secs (objs ! i)) = length (o_secs (lk_objs lk ! i)))"
    using o ex by (auto simp: parts(3) shift_obj_def objs_same_def)
  then have "list_all (valid_fixup objs) (dy_fixups (do_state d))"
    using walk(4) ex by (auto simp: list_all_iff valid_fixup_def)
  from apply_fixups [OF parts(4) _ this] walk(3) ex
  show "field_at (do_objs d) (fx_key fx) = fixup_bytes (da_plt (do_addrs d)) (ra_got (do_rw d)) fx"
    if "fx \<in> set (dy_fixups (do_state d))" using that by simp
qed

text \<open>
  C7: a call of an imported function reaches it: the call instruction lands on a PLT entry, the jump
  there goes through a GOT slot, and \<^verbatim>\<open>.rela.plt\<close> tells the run-time linker to fill that very slot with the
  address of the symbol the call names, found by its name in \<^verbatim>\<open>.dynsym\<close> and \<^verbatim>\<open>.dynstr\<close>.
\<close>

theorem plt_call_reaches_import:
  assumes "dyn_link req lk0 = Inr d" "layout_linker lk0 (rq_base_va req + PIE_HDR_RESERVE) = (lk, ly)"
    "globals_ok lk0" "sites_apart lk" "site \<in> set (reloc_sites (lk_objs lk))" "imports_call lk site"
    "c_text (sym_name (site_sym lk site))" "length (st_bytes (do_strings d)) < 2 ^ 32" "length (do_syms d) < 2 ^ 32 - 1"
  shows "\<exists>k fx. k < length (dy_plts (do_state d)) \<and> fx = site_fixup lk site FIX_PLT k
    \<and> (fits_int32 (plt_entry d k + fx_add fx - fx_P fx) \<longrightarrow>
         reloc_value R_X86_64_PLT32 (fx_P fx) (field_at (do_objs d) (site_key site)) = plt_entry d k + fx_add fx)
    \<and> (fits_int32 (gotplt_slot d k - (plt_entry d k + 6)) \<longrightarrow> stub_slot d k = Some (gotplt_slot d k))
    \<and> jump_slot d k = Some (unat (gotplt_slot d k), Inr (sym_name (site_sym lk site)))"
proof -
  have "globals_ok lk" using assms(3) layout_globals_ok [OF assms(2)] by simp
  note state = dyn_link_state [OF assms(1,2) this assms(4)]
  obtain k where k: "k < length (dy_plts (do_state d))" "site_fixup lk site FIX_PLT k \<in> set (dy_fixups (do_state d))"
    "dy_idx (do_state d) (sym_name (site_sym lk site)) = Some (dy_plts (do_state d) ! k)"
    using state(2) [OF assms(5,6)] by (auto simp: plt_ready_def)
  let ?fx = "site_fixup lk site FIX_PLT k" let ?i = "dy_plts (do_state d) ! k"
  from dyn_link_parts [OF assms(1,2)] have strs: "do_strings d = build_dynstr req (dy_syms (do_state d))"
    and names: "map ds_name (do_syms d) = map ds_name (dy_syms (do_state d))" by blast+
  have len: "length (do_syms d) = length (dy_syms (do_state d))" using names by (metis length_map)
  have i: "?i < length (do_syms d)" "ds_name (do_syms d ! ?i) = sym_name (site_sym lk site)"
    using k(3) state(1) len names unfolding idx_ok_def by (metis nth_map)+
  have "fixup_bytes (da_plt (do_addrs d)) (ra_got (do_rw d)) ?fx =
      le_bytes 4 (ucast (plt_entry d k + fx_add ?fx - fx_P ?fx) :: u32)"
    by (simp add: fixup_bytes_def slot_va_def plt_entry_def)
  then have "fits_int32 (plt_entry d k + fx_add ?fx - fx_P ?fx) \<longrightarrow>
      reloc_value R_X86_64_PLT32 (fx_P ?fx) (field_at (do_objs d) (site_key site)) = plt_entry d k + fx_add ?fx"
    using state(3) [OF k(2)] scast_add_of_fits [of "plt_entry d k + fx_add ?fx" "fx_P ?fx"]
    by (simp add: reloc_value_def reloc_consts)
  moreover have "jump_slot d k = Some (unat (gotplt_slot d k), Inr (sym_name (site_sym lk site)))"
    using jump_slot_eq [OF k(1)] dynsym_name_eq [OF strs names assms(8) i(1)] i assms(7,9) by simp
  ultimately show ?thesis using stub_slot_eq [OF k(1)] k(1) by blast
qed

lemma dyn_link_idx:
  assumes "dyn_link req lk0 = Inr d" "layout_linker lk0 (rq_base_va req + PIE_HDR_RESERVE) = (lk, ly)" "globals_ok lk"
  shows "idx_ok (dy_idx (do_state d)) (dy_syms (do_state d))"
proof -
  from dyn_link_parts [OF assms(1,2)] obtain st1 ex where parts:
    "fold_err dyn_reloc (reloc_sites (lk_objs lk)) (dyn_start lk) = Inr st1"
    "export_all (rq_mode req) st1 = (do_state d, ex)" by blast
  have start: "walk_ok lk (dyn_start lk)" by (auto simp: walk_ok_def) (auto simp: dyn_start_def intro: exI [of _ "lk_objs lk"])
  have "walk_ok lk st1"
    by (rule fold_err_invariant [of dyn_reloc _ _ _ "walk_ok lk", OF parts(1) start])
      (use dyn_reloc_step assms(3) reloc_sites_valid [of "lk_objs lk"] in \<open>auto simp: list_all_iff\<close>)
  then show ?thesis using export_all_ok [OF parts(2)] by (simp add: walk_ok_def dyn_ok_def)
qed

lemma find_SomeD: "find P xs = Some x \<Longrightarrow> x \<in> set xs \<and> P x"
  by (induction xs) (auto split: if_splits)

lemma find_rev_unique:
  assumes "distinct names" "i < length names"
  shows "find (\<lambda>j. names ! (j - 1) = names ! i) (rev [1..<length names + 1]) = Some (i + 1)"
proof -
  let ?f = "find (\<lambda>j. names ! (j - 1) = names ! i) (rev [1..<length names + 1])"
  have "?f \<noteq> None"
    unfolding find_None_iff using assms(2) by (auto intro!: exI [of _ "i + 1"] simp del: upt_Suc)
  then obtain j where j: "?f = Some j" by blast
  from find_SomeD [OF this] have "names ! (j - 1) = names ! i" "1 \<le> j" "j \<le> length names"
    by (auto simp del: upt_Suc)
  then have "j = i + 1" using assms nth_eq_iff_index_eq [of names "j - 1" i] by auto
  then show ?thesis using j by simp
qed

text \<open>
  C8: the run-time linker finds every dynamic symbol: the lookup of the ELF specification over the bytes of
  \<^verbatim>\<open>.hash\<close> returns, for the name of each symbol, the index of its own entry in \<^verbatim>\<open>.dynsym\<close>, and no index for
  a name that is not there.
\<close>

theorem dynsym_hash_finds:
  assumes "dyn_link req lk0 = Inr d" "globals_ok lk0" "length (do_syms d) < 2 ^ 31"
  shows "(\<forall>i<length (do_syms d). hash_lookup (out_hash d) (map ds_name (do_syms d)) (ds_name (do_syms d ! i)) = Some (i + 1))
    \<and> (\<forall>nm. nm \<notin> ds_name ` set (do_syms d) \<longrightarrow> hash_lookup (out_hash d) (map ds_name (do_syms d)) nm = None)"
proof -
  let ?names = "map ds_name (do_syms d)"
  obtain lk ly where ly: "layout_linker lk0 (rq_base_va req + PIE_HDR_RESERVE) = (lk, ly)" by fastforce
  from dyn_link_parts [OF assms(1) ly] have names: "?names = map ds_name (dy_syms (do_state d))" by blast
  have dist: "distinct ?names"
    unfolding names using idx_ok_distinct [OF dyn_link_idx [OF assms(1) ly]] assms(2) layout_globals_ok [OF ly] by simp
  have h: "hash_lookup (out_hash d) ?names nm = find (\<lambda>i. ?names ! (i - 1) = nm) (rev [1..<length ?names + 1])" for nm
    unfolding out_hash_def using assms(3) by (intro hash_lookup_section) simp
  have "hash_lookup (out_hash d) ?names (ds_name (do_syms d ! i)) = Some (i + 1)" if "i < length (do_syms d)" for i
    using find_rev_unique [OF dist, of i] that unfolding h by (simp del: upt_Suc)
  moreover have "hash_lookup (out_hash d) ?names nm = None" if "nm \<notin> ds_name ` set (do_syms d)" for nm
  proof (cases "hash_lookup (out_hash d) ?names nm")
    case (Some j)
    from find_SomeD [OF this [unfolded h]] have "?names ! (j - 1) = nm" "j - 1 < length ?names"
      by (auto simp del: upt_Suc)
    then have "nm \<in> set ?names" by (metis nth_mem)
    then show ?thesis using that by simp
  qed
  ultimately show ?thesis by blast
qed

subsection \<open>The image\<close>

definition target_apart :: "emit_target \<Rightarrow> emit_target \<Rightarrow> bool" where
  "target_apart s t \<longleftrightarrow> unat (fst s) + length (snd s) \<le> unat (fst t) \<or> unat (fst t) + length (snd t) \<le> unat (fst s)"

definition targets_ok :: "nat \<Rightarrow> emit_target list \<Rightarrow> bool" where
  "targets_ok lo ts \<longleftrightarrow> sorted_wrt target_apart ts
     \<and> list_all (\<lambda>t. lo \<le> unat (fst t) \<and> unat (fst t) + length (snd t) < 2 ^ 63) ts"

lemma insert_target_set [simp]: "mset (insert_target k ts) = add_mset k (mset ts)"
  by (induction ts) auto

lemma insert_target_sorted:
  "sorted_wrt (\<lambda>a b. fst a \<ge> fst b) ts \<Longrightarrow> sorted_wrt (\<lambda>a b. fst a \<ge> fst b) (insert_target k ts)"
proof (induction ts)
  case (Cons t ts)
  have "set (insert_target k ts) = insert k (set ts)"
    by (metis insert_target_set set_mset_add_mset_insert set_mset_mset)
  then show ?case using Cons by auto
qed simp

lemma sort_targets_sorted: "sorted_wrt (\<lambda>a b. fst a \<le> fst b) (sort_targets ts)"
proof -
  have "sorted_wrt (\<lambda>a b. fst a \<ge> fst b) (fold insert_target ts acc)"
    if "sorted_wrt (\<lambda>a b. fst a \<ge> fst b) acc" for acc
    using that insert_target_sorted by (induction ts arbitrary: acc) auto
  then show ?thesis by (simp add: sort_targets_def sorted_wrt_rev)
qed

lemma sort_targets_mset: "mset (sort_targets ts) = mset ts"
proof -
  have "mset (fold insert_target ts acc) = mset acc + mset ts" for acc
    by (induction ts arbitrary: acc) auto
  then show ?thesis by (simp add: sort_targets_def)
qed

lemma length_pad_to: "unat dst < 2 ^ 63 \<Longrightarrow> length (pad_to dst out) = max (length out) (unat dst)"
  and take_pad_to: "take (length out) (pad_to dst out) = out"
proof -
  show "take (length out) (pad_to dst out) = out" by (simp add: pad_to_def)
  assume "unat dst < 2 ^ 63"
  then obtain n where n: "unat dst = n" "n < 2 ^ 63" by simp
  have "uint dst = int n" using n(1) by (metis uint_nat)
  then have "sint dst = int n" using n(2) by (simp add: sint_uint signed_take_bit_int_eq_self)
  then show "length (pad_to dst out) = max (length out) (unat dst)" unfolding n(1) by (simp add: pad_to_def)
qed

lemma length_pad_to_ge: "length out \<le> length (pad_to dst out)"
  by (auto simp: pad_to_def)

lemma emit_targets:
  assumes "sorted_wrt (\<lambda>a b. fst a \<le> fst b) ts" "sorted_wrt target_apart ts"
    "\<forall>t\<in>set ts. unat (fst t) < 2 ^ 63 \<and> (snd t \<noteq> [] \<longrightarrow> length out \<le> unat (fst t))"
  shows "take (length out) (fold emit_at ts out) = out
    \<and> (\<forall>t\<in>set ts. take (length (snd t)) (drop (unat (fst t)) (fold emit_at ts out)) = snd t)"
  using assms
proof (induction ts arbitrary: out)
  case (Cons t ts)
  let ?out = "emit_at t out" let ?R = "fold emit_at ts ?out"
  have len: "length ?out = max (length out) (unat (fst t)) + length (snd t)"
    using Cons.prems(3) by (simp add: emit_at_def length_pad_to)
  have le: "length ?out \<le> unat (fst u)" if u: "u \<in> set ts" "snd u \<noteq> []" for u
  proof -
    have "unat (fst t) \<le> unat (fst u)" using Cons.prems(1) u(1) by (simp add: word_le_nat_alt)
    moreover have "target_apart t u" using Cons.prems(2) u(1) by simp
    moreover have "length out \<le> unat (fst u)" using Cons.prems(3) u by simp
    moreover have "snd t \<noteq> [] \<longrightarrow> length out \<le> unat (fst t)" using Cons.prems(3) by simp
    moreover have "0 < length (snd u)" using u(2) by simp
    ultimately show ?thesis unfolding len target_apart_def by (cases "snd t = []") auto
  qed
  have IH: "take (length ?out) ?R = ?out" "\<forall>u\<in>set ts. take (length (snd u)) (drop (unat (fst u)) ?R) = snd u"
    using Cons.IH [of ?out] Cons.prems le by auto
  have "length out \<le> length ?out" unfolding len by simp
  then have "take (length out) ?R = take (length out) (take (length ?out) ?R)" by (simp add: min_def)
  also have "\<dots> = out" unfolding IH(1) using length_pad_to_ge [of out "fst t"] take_pad_to [of out "fst t"]
    by (simp add: emit_at_def)
  finally have out: "take (length out) ?R = out" .
  have "take (length (snd t)) (drop (unat (fst t)) ?R) = snd t"
  proof (cases "snd t = []")
    case False
    then have p: "length (pad_to (fst t) out) = unat (fst t)" using Cons.prems(3) length_pad_to [of "fst t" out] by simp
    then have l: "length ?out = unat (fst t) + length (snd t)" by (simp add: emit_at_def)
    have "take (length (snd t)) (drop (unat (fst t)) ?R) = take (length (snd t)) (drop (unat (fst t)) (take (length ?out) ?R))"
      by (simp add: l drop_take)
    also have "\<dots> = snd t" unfolding IH(1) by (simp add: emit_at_def p)
    finally show ?thesis .
  qed simp
  then show ?case using IH(2) out by simp
qed simp

lemma sorted_wrt_perm:
  assumes "mset xs = mset ys" "sorted_wrt R xs" "\<And>x y. R x y \<Longrightarrow> R y x"
  shows "sorted_wrt R ys"
  using assms(1,2)
proof (induction xs arbitrary: ys)
  case (Cons x xs)
  have "x \<in> set ys" using Cons.prems(1) by (metis list.set_intros(1) set_mset_mset)
  then obtain as bs where ys: "ys = as @ x # bs" by (meson split_list)
  then have m: "mset xs = mset (as @ bs)" using Cons.prems(1) by simp
  then have "set xs = set as \<union> set bs" by (metis set_append set_mset_mset)
  then have "\<forall>y\<in>set as \<union> set bs. R x y" using Cons.prems(2) by simp
  moreover from Cons.IH [OF m] Cons.prems(2) have "sorted_wrt R (as @ bs)" by simp
  ultimately show ?case unfolding ys sorted_wrt_append using assms(3) by simp
qed simp

text \<open>
  the image of a dynamic link is laid out as the program headers say: when the sections do not
  overlap and lie above the headers, each one, whatever the order of the addresses, stands at the file
  offset equal to its address, and the headers stand at the start.
\<close>

lemma dyn_image_holds_targets:
  assumes "targets_ok (length (dyn_headers req d)) (dyn_targets req d)"
  shows "take (length (dyn_headers req d)) (dyn_image req d) = dyn_headers req d
    \<and> (\<forall>t\<in>set (dyn_targets req d). take (length (snd t)) (drop (unat (fst t)) (dyn_image req d)) = snd t)"
proof -
  let ?ts = "dyn_targets req d"
  have set: "set (sort_targets ?ts) = set ?ts" by (metis sort_targets_mset set_mset_mset)
  have "sorted_wrt target_apart (sort_targets ?ts)"
    by (rule sorted_wrt_perm [OF sort_targets_mset [symmetric]]) (use assms in \<open>auto simp: targets_ok_def target_apart_def\<close>)
  moreover have "\<forall>t\<in>set (sort_targets ?ts). unat (fst t) < 2 ^ 63 \<and> (snd t \<noteq> [] \<longrightarrow> length (dyn_headers req d) \<le> unat (fst t))"
  proof
    fix t assume "t \<in> set (sort_targets ?ts)"
    then have "length (dyn_headers req d) \<le> unat (fst t)" "unat (fst t) + length (snd t) < 2 ^ 63"
      using assms unfolding set targets_ok_def list_all_iff by blast+
    then show "unat (fst t) < 2 ^ 63 \<and> (snd t \<noteq> [] \<longrightarrow> length (dyn_headers req d) \<le> unat (fst t))" by simp
  qed
  ultimately show ?thesis
    using emit_targets [OF sort_targets_sorted, of ?ts "dyn_headers req d"] unfolding dyn_image_def set by blast
qed

subsection \<open>A small program\<close>

text \<open>A call of an imported function, an address of a variable and a pointer to the imported function.\<close>

definition demo_null :: sec where
  "demo_null = \<lparr>sec_name = [], sec_type = 0, sec_flags = 0, sec_size = 0, sec_align = 0, sec_data = None,
     sec_rel = [], sec_out = OUT_DISCARD, sec_va = 0\<rparr>"

definition demo_text :: sec where
  "demo_text = \<lparr>sec_name = ''.text'', sec_type = SHT_PROGBITS, sec_flags = SHF_ALLOC OR SHF_EXECINSTR, sec_size = 12,
     sec_align = 16, sec_data = Some [0xe8, 0, 0, 0, 0, 0x48, 0x8d, 0x05, 0, 0, 0, 0],
     sec_rel = [\<lparr>rel_off = 1, rel_sym = 1, rel_type = R_X86_64_PLT32, rel_add = - 4\<rparr>,
                \<lparr>rel_off = 8, rel_sym = 2, rel_type = R_X86_64_PC32, rel_add = - 4\<rparr>],
     sec_out = OUT_TEXT, sec_va = 0\<rparr>"

definition demo_data :: sec where
  "demo_data = \<lparr>sec_name = ''.data'', sec_type = SHT_PROGBITS, sec_flags = SHF_ALLOC OR SHF_WRITE, sec_size = 8,
     sec_align = 8, sec_data = Some [0, 0, 0, 0, 0, 0, 0, 0],
     sec_rel = [\<lparr>rel_off = 0, rel_sym = 1, rel_type = R_X86_64_64, rel_add = 0\<rparr>],
     sec_out = OUT_DATA, sec_va = 0\<rparr>"

definition demo_obj :: obj where
  "demo_obj = \<lparr>o_name = ''a.o'', o_secs = [demo_null, demo_text, demo_data], o_syms =
     [\<lparr>sym_name = ''_start'', sym_value = 0, sym_size = 0, sym_shndx = 1, sym_bind = STB_GLOBAL, sym_type = STT_FUNC\<rparr>,
      \<lparr>sym_name = ''puts'', sym_value = 0, sym_size = 0, sym_shndx = 0, sym_bind = STB_GLOBAL, sym_type = 0\<rparr>,
      \<lparr>sym_name = ''x'', sym_value = 0, sym_size = 8, sym_shndx = 2, sym_bind = STB_GLOBAL, sym_type = STT_OBJECT\<rparr>]\<rparr>"

definition demo_lk :: linker where
  "demo_lk = include_object linker_init demo_obj"

definition demo_req :: link_request where
  "demo_req = \<lparr>rq_inputs = [], rq_archives = [], rq_base_va = 0, rq_entry = ''_start'', rq_mode = LINK_PIE,
     rq_needed = [''libc.so''], rq_soname = None, rq_interp = Some ''/lib/ld.so''\<rparr>"

definition demo_out :: dyn_out where
  "demo_out = projr (dyn_link demo_req demo_lk)"

definition on_out :: "link_error + dyn_out \<Rightarrow> (dyn_out \<Rightarrow> bool) \<Rightarrow> bool" where
  "on_out r P = (case r of Inl _ \<Rightarrow> False | Inr d \<Rightarrow> P d)"

lemma on_outD: "on_out (dyn_link demo_req demo_lk) P \<Longrightarrow> dyn_link demo_req demo_lk = Inr demo_out \<and> P demo_out"
  by (auto simp: on_out_def demo_out_def split: sum.splits)

lemma demo_small: "on_out (dyn_link demo_req demo_lk) (\<lambda>d. map ds_name (do_syms d) = [''puts'']
    \<and> length (st_bytes (do_strings d)) = 25)"
  by code_simp

lemma demo_misplaced: "on_out (dyn_link demo_req demo_lk) (\<lambda>d. field_at (do_objs d) (0, 1, 8) = [0xf4, 0x0f, 0, 0]
    \<and> map sec_va (o_secs (do_objs d ! 0)) = [0, 0x1000, 0x3000])"
  by code_simp

lemma demo_word: "on_out (dyn_link demo_req demo_lk) (\<lambda>d.
    take 24 (out_reladyn d) = [0, 32, 0, 0, 0, 0, 0, 0, 1, 0, 0, 0, 0, 0, 0, 0, 0, 0, 0, 0, 0, 0, 0, 0]
    \<and> dynsym_name d 0 = Inr [] \<and> dynsym_name d 1 = Inr ''puts'')"
  by code_simp

definition span :: "emit_target \<Rightarrow> nat \<times> nat" where
  "span t = (unat (fst t), length (snd t))"

definition spans_ok :: "nat \<Rightarrow> (nat \<times> nat) list \<Rightarrow> bool" where
  "spans_ok lo ts \<longleftrightarrow> sorted_wrt (\<lambda>(a, n) (b, m). a + n \<le> b \<or> b + m \<le> a) ts
     \<and> list_all (\<lambda>(a, n). lo \<le> a \<and> a + n < 2 ^ 63) ts"

lemma targets_ok_spans: "targets_ok lo ts = spans_ok lo (map span ts)"
  by (simp add: targets_ok_def spans_ok_def sorted_wrt_map target_apart_def [abs_def] span_def list_all_iff)

definition dyn_spans :: "link_request \<Rightarrow> dyn_out \<Rightarrow> (nat \<times> nat) list" where
  "dyn_spans req d =
     (let a = do_addrs d; st = do_state d; nplt = length (dy_plts st); gz = (length (dy_gots st) + nplt) * 8 in
      concat (map (\<lambda>slot. map span (section_targets (do_objs d) slot)) [OUT_TEXT, OUT_RODATA, OUT_DATA, OUT_INIT_ARRAY])
      @ (if da_plt_sz a \<noteq> 0 then [(unat (da_plt a), 16 * nplt)] else [])
      @ [(unat (da_hash a), length (out_hash d)), (unat (da_dynsym a), length (out_dynsym d)),
         (unat (da_dynstr a), length (st_bytes (do_strings d)))]
      @ (if out_reladyn d \<noteq> [] then [(unat (da_reladyn a), length (out_reladyn d))] else [])
      @ (if out_relaplt d \<noteq> [] then [(unat (out_relaplt_va d), length (out_relaplt d))] else [])
      @ (if gz \<noteq> 0 then [(unat (ra_got (do_rw d)), gz)] else [])
      @ [(unat (ra_dynamic (do_rw d)), 16 * length (dynamic_entries req d))])"

lemma map_span_targets: "map span (dyn_targets req d) = dyn_spans req d"
proof -
  have p: "length (out_plt d) = 16 * length (dy_plts (do_state d))"
    by (simp add: out_plt_def length_concat_const [of _ 16])
  have y: "length (dynamic_section req d) = 16 * length (dynamic_entries req d)"
    unfolding dynamic_section_def by (rule length_concat_const) (simp split: prod.splits)
  show ?thesis
    unfolding dyn_targets_def dyn_spans_def Let_def
    by (simp add: span_def p y map_concat comp_def)
qed

definition lib_obj :: obj where
  "lib_obj = \<lparr>o_name = ''b.o'', o_secs = [demo_null, demo_data\<lparr>sec_rel := []\<rparr>], o_syms =
     [\<lparr>sym_name = ''x'', sym_value = 0, sym_size = 8, sym_shndx = 1, sym_bind = STB_GLOBAL, sym_type = STT_OBJECT\<rparr>]\<rparr>"

definition lib_req :: link_request where
  "lib_req = \<lparr>rq_inputs = [], rq_archives = [], rq_base_va = 0, rq_entry = [], rq_mode = LINK_SHARED,
     rq_needed = [], rq_soname = None, rq_interp = None\<rparr>"

definition lib_out :: dyn_out where
  "lib_out = projr (dyn_link lib_req (include_object linker_init lib_obj))"

lemma lib_spans: "dyn_spans lib_req lib_out = [(8192, 8), (4096, 20), (4120, 48), (4168, 3), (12288, 96)]"
  by code_simp

subsection \<open>The properties on the small programs\<close>

lemma demo_dyn_linked: "dyn_link demo_req demo_lk = Inr demo_out" "map ds_name (do_syms demo_out) = [''puts'']"
  "length (st_bytes (do_strings demo_out)) = 25"
  using on_outD [OF demo_small] by simp_all

lemma demo_globals_ok: "globals_ok demo_lk"
  unfolding demo_lk_def by (rule globals_ok_include) (simp add: globals_ok_def linker_init_def)

definition demo_site :: "nat \<times> nat \<times> rela" where
  "demo_site = (0, 1, \<lparr>rel_off = 1, rel_sym = 1, rel_type = R_X86_64_PLT32, rel_add = - 4\<rparr>)"

lemma demo_layout:
  "case layout_linker demo_lk (rq_base_va demo_req + PIE_HDR_RESERVE) of (lk, _) \<Rightarrow>
     sites_apart lk \<and> demo_site \<in> set (reloc_sites (lk_objs lk)) \<and> imports_call lk demo_site
     \<and> site_sym lk demo_site = o_syms demo_obj ! 1 \<and> fx_P (site_fixup lk demo_site FIX_PLT 0) = 0x1001"
  by code_simp

lemma demo_addrs: "on_out (dyn_link demo_req demo_lk) (\<lambda>d. length (dy_plts (do_state d)) = 1
    \<and> plt_entry d 0 = 0x1010 \<and> gotplt_slot d 0 = 0x4000)"
  by code_simp

lemma plt_call_reaches_import_witness:
  "reloc_value R_X86_64_PLT32 0x1001 (field_at (do_objs demo_out) (0, 1, 1)) = 0x100c
    \<and> stub_slot demo_out 0 = Some 0x4000 \<and> jump_slot demo_out 0 = Some (0x4000, Inr ''puts'')"
proof -
  obtain lk ly where l: "layout_linker demo_lk (rq_base_va demo_req + PIE_HDR_RESERVE) = (lk, ly)" by fastforce
  have d: "sites_apart lk" "demo_site \<in> set (reloc_sites (lk_objs lk))" "imports_call lk demo_site"
    "sym_name (site_sym lk demo_site) = ''puts''" "fx_P (site_fixup lk demo_site FIX_PLT 0) = 0x1001"
    using demo_layout by (simp_all add: l demo_obj_def)
  have a: "length (dy_plts (do_state demo_out)) = 1" "plt_entry demo_out 0 = 0x1010" "gotplt_slot demo_out 0 = 0x4000"
    using on_outD [OF demo_addrs] by simp_all
  have fx: "fx_add (site_fixup lk demo_site FIX_PLT 0) = - 4" "site_key demo_site = (0, 1, 1)"
    by (simp_all add: site_fixup_def demo_site_def site_key_def)
  have fits: "fits_int32 (0x1010 + - 4 - 0x1001)" "fits_int32 (0x4000 - (0x1010 + 6))" by code_simp+
  have "length (do_syms demo_out) = 1" using demo_dyn_linked(2) by auto
  then obtain k where k: "k < 1"
    "fits_int32 (plt_entry demo_out k + fx_add (site_fixup lk demo_site FIX_PLT k) - fx_P (site_fixup lk demo_site FIX_PLT k)) \<longrightarrow>
       reloc_value R_X86_64_PLT32 (fx_P (site_fixup lk demo_site FIX_PLT k)) (field_at (do_objs demo_out) (site_key demo_site))
       = plt_entry demo_out k + fx_add (site_fixup lk demo_site FIX_PLT k)"
    "fits_int32 (gotplt_slot demo_out k - (plt_entry demo_out k + 6)) \<longrightarrow> stub_slot demo_out k = Some (gotplt_slot demo_out k)"
    "jump_slot demo_out k = Some (unat (gotplt_slot demo_out k), Inr ''puts'')"
    using plt_call_reaches_import [OF demo_dyn_linked(1) l demo_globals_ok d(1-3)] demo_dyn_linked(3) d(4) a(1)
    by (force simp: c_text_def)
  then have "k = 0" by simp
  note r = k(2-4) [unfolded this a(2,3) d(5) fx]
  show ?thesis using r(1) [rule_format, OF fits(1)] r(2) [rule_format, OF fits(2)] r(3) by simp
qed

lemma dynsym_hash_finds_witness:
  "hash_lookup (out_hash demo_out) [''puts''] ''puts'' = Some 1 \<and> hash_lookup (out_hash demo_out) [''puts''] ''exit'' = None"
proof -
  obtain y where y: "do_syms demo_out = [y]" "ds_name y = ''puts''" using demo_dyn_linked(2) by auto
  show ?thesis using dynsym_hash_finds [OF demo_dyn_linked(1) demo_globals_ok] by (simp add: y)
qed

lemma dyn_image_holds_targets_witness:
  "take 400 (dyn_image lib_req lib_out) = dyn_headers lib_req lib_out
    \<and> list_all (\<lambda>t. take (length (snd t)) (drop (unat (fst t)) (dyn_image lib_req lib_out)) = snd t) (dyn_targets lib_req lib_out)"
proof -
  have h: "length (dyn_headers lib_req lib_out) = 400"
    by (simp add: dyn_headers_def Let_def interp_of_def lib_req_def)
  have "targets_ok 400 (dyn_targets lib_req lib_out)"
    unfolding targets_ok_spans map_span_targets lib_spans by (simp add: spans_ok_def)
  then show ?thesis using dyn_image_holds_targets [of lib_req lib_out] by (simp add: h list_all_iff)
qed

subsection \<open>What goes wrong\<close>


text \<open>
  a pointer to an imported symbol is bound to the wrong one: its relocation names entry \<open>0\<close> of \<^verbatim>\<open>.dynsym\<close>,
  the null symbol, and the symbol itself is entry \<open>1\<close>.
\<close>

lemma import_pointer_names_previous_symbol:
  "\<exists>d. dyn_link demo_req demo_lk = Inr d \<and> le_nat (take 4 (drop 8 (out_reladyn d))) = unat R_X86_64_64
    \<and> dynsym_name d (le_nat (take 4 (drop 12 (out_reladyn d)))) = Inr [] \<and> dynsym_name d 1 = Inr ''puts''"
proof -
  note d = on_outD [OF demo_word]
  then obtain rest where r: "out_reladyn demo_out = [0, 32, 0, 0, 0, 0, 0, 0, 1, 0, 0, 0, 0, 0, 0, 0, 0, 0, 0, 0, 0, 0, 0, 0] @ rest"
    by (metis append_take_drop_id)
  show ?thesis using d by (intro exI [of _ demo_out]) (simp add: r reloc_consts)
qed

lemma layout_slot_keeps: "slot' \<noteq> slot \<Longrightarrow> ly_out_va (layout_slot slot ly) slot' = ly_out_va ly slot' \<and> ly_out_size (layout_slot slot ly) slot' = ly_out_size ly slot'"
  by (auto simp: layout_slot_def Let_def split: prod.splits)

lemma layout_slot_end: "ly_out_va (layout_slot slot ly) slot + ly_out_size (layout_slot slot ly) slot = ly_va (layout_slot slot ly)"
  and layout_slot_start: "ly_out_va (layout_slot slot ly) slot = align_up (ly_va ly) (out_align slot)"
  by (auto simp: layout_slot_def Let_def split: prod.splits)

lemma rodata_after_text:
  assumes "ly = layout_objects objs base"
  shows "ly_out_va ly OUT_RODATA = align_up (ly_out_va ly OUT_TEXT + ly_out_size ly OUT_TEXT) 0x1000"
  unfolding assms layout_objects_def out_slots_def
  by (simp add: layout_slot_keeps) (simp add: layout_slot_end layout_slot_start [of OUT_RODATA] out_align_def)

lemma align_up_self:
  assumes "pow2 al" "unat v + unat al < 2 ^ 64" "unat al dvd unat v"
  shows "align_up v al = v"
proof -
  note f = align_up_facts [OF assms(1,2)]
  obtain a b where a: "unat v = unat al * a" "unat (align_up v al) = unat al * b" using assms(3) f(2) by (auto elim!: dvdE)
  have "unat al * b < unat al * (a + 1)" using f(3) a by simp
  then have "b < a + 1" by (rule mult_less_cancel1 [THEN iffD1, THEN conjunct2])
  moreover have "a \<le> b" 
    using f(1) a assms(1) by (cases "unat al = 0") (auto simp: pow2_def list_ex_iff unat_exp)
  ultimately show ?thesis using a by (simp add: word_unat_eq_iff)
qed

text \<open>
  the PLT is put on top of the read-only data when the text ends at a page boundary: it starts at
  the very address that \<^verbatim>\<open>.rodata\<close> was given before anything was known of a PLT.
\<close>

lemma plt_overlaps_rodata:
  assumes "ly = layout_objects objs base" "text_end = ly_out_va ly OUT_TEXT + ly_out_size ly OUT_TEXT"
    "4096 dvd unat text_end" "unat text_end + 4096 < 2 ^ 64"
  shows "da_plt (ro_addrs ly nplt ndsym nrela strsz) = text_end \<and> ly_out_va ly OUT_RODATA = text_end"
proof -
  have "align_up text_end 16 = text_end"
    using assms(3,4) by (intro align_up_self) (auto intro: dvd_trans [of 16 4096])
  then have "(text_end + 15) AND NOT 15 = text_end" by (simp add: align_up_def add.commute)
  moreover have "align_up text_end 0x1000 = text_end" using assms(3,4) by (intro align_up_self) simp_all
  ultimately show ?thesis
    using rodata_after_text [OF assms(1)] by (simp add: ro_addrs_def Let_def flip: assms(2))
qed

text \<open>A text of one page.\<close>

definition page_obj :: obj where
  "page_obj = \<lparr>o_name = ''c.o'', o_secs = [demo_null, demo_text\<lparr>sec_size := 0x1000\<rparr>], o_syms = []\<rparr>"

lemma plt_overlaps_rodata_witness:
  "da_plt (ro_addrs (layout_objects [page_obj] 0x1000) 1 1 0 6) = 0x2000 \<and> ly_out_va (layout_objects [page_obj] 0x1000) OUT_RODATA = 0x2000"
proof -
  have "ly_out_va (layout_objects [page_obj] 0x1000) OUT_TEXT + ly_out_size (layout_objects [page_obj] 0x1000) OUT_TEXT = 0x2000"
    by code_simp
  from plt_overlaps_rodata [OF refl this [symmetric]] show ?thesis by simp
qed
end
