(* ===== verification/Lexer.thy ===== *)
theory Lexer
  imports Prelude_B1
begin

text \<open>
  The lexer, \<^verbatim>\<open>src/src/lexer.c\<close>: from the characters of a translation unit to tokens with their
  line and column, and the macro engine that \<^verbatim>\<open>lex\<close> runs when it is given a macro table (the
  preprocessor uses it for \<^verbatim>\<open>#if\<close> expressions).

  The position \<open>i\<close> in the source is the remaining suffix of the text, and \<^verbatim>\<open>CONSUME(n)\<close> is
  \<open>advance\<close> over the characters consumed.  A source text is a C string: it holds no NUL.  The
  recursive calls of the macro engine take fuel; running out of it is an error value of its own, and
  so is arithmetic C leaves undefined (in the theories that evaluate \<^verbatim>\<open>#if\<close> expressions).
\<close>

datatype lex_error = Lex_Error int int string | C_Undefined | Lex_Fuel

record token =
  tk_text :: string
  tk_line :: int
  tk_col :: int

record macro =
  m_function_like :: bool
  m_params :: "string list"
  m_body :: string

text \<open>The preprocessor's globals a token can depend on.\<close>

record lex_env =
  le_line :: int
  le_file :: string

subsection \<open>Character classes\<close>

definition in_range :: "char \<Rightarrow> char \<Rightarrow> char \<Rightarrow> bool" where
  "in_range lo hi c \<longleftrightarrow> (of_char lo :: nat) \<le> of_char c \<and> (of_char c :: nat) \<le> of_char hi"

definition is_blank :: "char \<Rightarrow> bool" where
  "is_blank c \<longleftrightarrow> c = CHR '' '' \<or> c = CHR 0x09"

definition lx_space :: "char \<Rightarrow> bool" where
  "lx_space c \<longleftrightarrow> c = CHR '' '' \<or> c = CHR 0x09 \<or> c = CHR 0x0A \<or> c = CHR 0x0D \<or> c = CHR 0x0B \<or> c = CHR 0x0C"

definition is_digit :: "char \<Rightarrow> bool" where
  "is_digit c \<longleftrightarrow> in_range CHR ''0'' CHR ''9'' c"

definition is_alpha :: "char \<Rightarrow> bool" where
  "is_alpha c \<longleftrightarrow> in_range CHR ''a'' CHR ''z'' c \<or> in_range CHR ''A'' CHR ''Z'' c \<or> c = CHR ''_''"

definition is_alnum :: "char \<Rightarrow> bool" where
  "is_alnum c \<longleftrightarrow> is_alpha c \<or> is_digit c"

definition is_xdigit :: "char \<Rightarrow> bool" where
  "is_xdigit c \<longleftrightarrow> is_digit c \<or> in_range CHR ''a'' CHR ''f'' c \<or> in_range CHR ''A'' CHR ''F'' c"

subsection \<open>Positions\<close>

type_synonym pos = "int \<times> int"

fun advance :: "pos \<Rightarrow> string \<Rightarrow> pos" where
  "advance p [] = p"
| "advance (line, col) (c # cs) = advance (if c = CHR 0x0A then (line + 1, 1) else (line, col + 1)) cs"

subsection \<open>Scanning one item\<close>

text \<open>What stands at the head of the remaining text and how many characters it takes.\<close>

datatype item = Blank nat | Marker nat int | Word nat string | Lexeme nat string | Bad string

definition opt_char :: "(char \<Rightarrow> bool) \<Rightarrow> string \<Rightarrow> string" where
  "opt_char P s = (case s of [] \<Rightarrow> [] | c # _ \<Rightarrow> if P c then [c] else [])"

text \<open>An optional part: when the next character satisfies \<open>P\<close>, it and what \<open>f\<close> takes after it.\<close>

definition opt_part :: "(char \<Rightarrow> bool) \<Rightarrow> (string \<Rightarrow> string) \<Rightarrow> string \<Rightarrow> string" where
  "opt_part P f s = (case s of [] \<Rightarrow> [] | c # cs \<Rightarrow> if P c then c # f cs else [])"

definition take_exponent :: "string \<Rightarrow> string" where
  "take_exponent s = (let sign = opt_char (\<lambda>c. c = CHR ''+'' \<or> c = CHR ''-'') s
     in sign @ takeWhile is_digit (drop (length sign) s))"

text \<open>The digits, fraction and exponent of a number; it is a float if the last two are not both empty.\<close>

definition take_mantissa :: "string \<Rightarrow> string \<times> bool" where
  "take_mantissa s =
     (let hex = (case s of c # d # _ \<Rightarrow> c = CHR ''0'' \<and> (d = CHR ''x'' \<or> d = CHR ''X'') | _ \<Rightarrow> False);
          digit = (if hex then is_xdigit else is_digit);
          pre = (if hex then take 2 s else []);
          int_part = pre @ takeWhile digit (drop (length pre) s);
          s1 = drop (length int_part) s;
          frac = opt_part (\<lambda>c. c = CHR ''.'') (takeWhile digit) s1;
          s2 = drop (length frac) s1;
          expo = opt_part (\<lambda>c. if hex then c = CHR ''p'' \<or> c = CHR ''P'' else c = CHR ''e'' \<or> c = CHR ''E'')
                   take_exponent s2
      in (int_part @ frac @ expo, frac \<noteq> [] \<or> expo \<noteq> []))"

definition take_suffix :: "bool \<Rightarrow> string \<Rightarrow> string" where
  "take_suffix is_float s =
     (if is_float then
        (let t = takeWhile (\<lambda>c. c \<in> {CHR ''f'', CHR ''F'', CHR ''l'', CHR ''L''}) s
         in t @ opt_char (\<lambda>c. c = CHR ''i'' \<or> c = CHR ''I'') (drop (length t) s))
      else takeWhile (\<lambda>c. c \<in> {CHR ''u'', CHR ''U'', CHR ''l'', CHR ''L''}) s)"

definition take_number :: "string \<Rightarrow> string" where
  "take_number s = (let (m, is_float) = take_mantissa s in m @ take_suffix is_float (drop (length m) s))"

text \<open>The rest of a literal after its opening quote, up to and including the closing one.\<close>

fun take_quoted :: "char \<Rightarrow> string \<Rightarrow> string option" where
  "take_quoted q [] = None"
| "take_quoted q (c # cs) =
     (if c = q then Some [c]
      else if c = CHR 0x5C then
        (case cs of [] \<Rightarrow> None | d # ds \<Rightarrow> map_option (\<lambda>t. c # d # t) (take_quoted q ds))
      else map_option ((#) c) (take_quoted q cs))"

text \<open>A block comment after its opening: the number of characters up to its end, or nothing when the
  end of the text is diagnosed.  A comment opened by the very last two characters is not.\<close>

fun block_comment :: "string \<Rightarrow> nat option" where
  "block_comment [] = Some 0"
| "block_comment [c] = None"
| "block_comment (c # d # cs) =
     (if c = CHR ''*'' \<and> d = CHR ''/'' then Some 2 else map_option Suc (block_comment (d # cs)))"

definition c_int_of :: "int \<Rightarrow> int" where "c_int_of i = sint (word_of_int i :: u32)"

definition scan_hash :: "string \<Rightarrow> item" where
  "scan_hash s =
     (let t = dropWhile is_blank (tl s) in
      if t \<noteq> [] \<and> is_digit (hd t) then
        Marker (length (takeWhile (\<lambda>c. c \<noteq> CHR 0x0A) s)) (int (nat_of_dec (takeWhile is_digit t)))
      else (case tl s of
              d # _ \<Rightarrow> if d = CHR ''#'' then Lexeme 2 ''##'' else Lexeme 1 ''#''
            | [] \<Rightarrow> Lexeme 1 ''#''))"

definition scan_literal :: "string \<Rightarrow> string \<Rightarrow> string \<Rightarrow> item" where
  "scan_literal prefix s msg =
     (case take_quoted (hd s) (tl s) of
        None \<Rightarrow> Bad msg
      | Some t \<Rightarrow> Lexeme (length prefix + 1 + length t) (prefix @ hd s # t))"

definition scan_word :: "string \<Rightarrow> item" where
  "scan_word s =
     (let w = takeWhile is_alnum s; t = drop (length w) s in
      if w = ''L'' \<and> t \<noteq> [] \<and> hd t = CHR 0x22 then scan_literal w t ''unterminated wide string literal''
      else if w = ''L'' \<and> t \<noteq> [] \<and> hd t = CHR 0x27 then
        (case take_quoted (hd t) (tl t) of
           None \<Rightarrow> Bad ''unterminated wide character literal''
         | Some u \<Rightarrow> Lexeme (length w + 1 + length u) (hd t # u))
      else Word (length w) w)"

definition punct2 :: "string list" where
  "punct2 = [''=='', ''!='', ''<='', ''>='', ''->'', ''&&'', ''||'', ''<<'', ''>>'', ''++'', ''--'', ''+='',
     ''-='', ''*='', ''/='', ''%='', ''&='', ''^='', ''|='']"

definition scan_punct :: "string \<Rightarrow> item" where
  "scan_punct s =
     (if take 3 s = ''...'' then Lexeme 3 ''...''
      else if take 3 s = ''<<='' \<or> take 3 s = ''>>='' then Lexeme 3 (take 3 s)
      else if take 2 s \<in> set punct2 then Lexeme 2 (take 2 s)
      else if hd s \<in> set ''{}[](),;=+-*/%<>.&!|^~:?'' then Lexeme 1 [hd s]
      else Bad (''unexpected character '' @ [CHR 0x27, hd s, CHR 0x27]))"

definition scan_item :: "string \<Rightarrow> item" where
  "scan_item s =
     (let c = hd s in
      if lx_space c then Blank 1
      else if c = CHR ''#'' then scan_hash s
      else if take 2 s = ''//'' then Blank (length (takeWhile (\<lambda>d. d \<noteq> CHR 0x0A) s))
      else if take 2 s = ''/*'' then
        (case block_comment (drop 2 s) of None \<Rightarrow> Bad ''unterminated block comment'' | Some n \<Rightarrow> Blank (2 + n))
      else if is_digit c \<or> c = CHR ''.'' \<and> tl s \<noteq> [] \<and> is_digit (hd (tl s)) then
        Lexeme (length (take_number s)) (take_number s)
      else if is_alpha c then scan_word s
      else if c = CHR 0x22 then scan_literal [] s ''unterminated string literal''
      else if c = CHR 0x27 then scan_literal [] s ''unterminated character literal''
      else scan_punct s)"

subsection \<open>Words with a value of their own\<close>

definition quote_char :: "char \<Rightarrow> string" where
  "quote_char c = (if c = CHR 0x5C \<or> c = CHR 0x22 then [CHR 0x5C, c] else [c])"

definition quote_text :: "string \<Rightarrow> string" where
  "quote_text s = CHR 0x22 # concat (map quote_char s) @ [CHR 0x22]"

definition special_word :: "lex_env \<Rightarrow> int \<Rightarrow> string \<Rightarrow> (string \<times> int) option" where
  "special_word env counter w =
     (if w = ''__LINE__'' then Some (dec_of_int (le_line env), counter)
      else if w = ''__FILE__'' then Some (quote_text (le_file env), counter)
      else if w = ''__COUNTER__'' then Some (dec_of_int counter, counter + 1)
      else None)"

lemma length_takeWhile_pos: "s \<noteq> [] \<Longrightarrow> P (hd s) \<Longrightarrow> 0 < length (takeWhile P s)"
  by (cases s) auto

lemma take_mantissa_ne:
  assumes "s \<noteq> []" "is_digit (hd s) \<or> hd s = CHR ''.''"
  shows "fst (take_mantissa s) \<noteq> []"
proof -
  obtain c cs where s: "s = c # cs" using assms by (cases s) auto
  show ?thesis
  proof (cases "c = CHR ''.''")
    case True
    then show ?thesis unfolding s
      by (simp add: take_mantissa_def Let_def is_digit_def in_range_def opt_part_def split: list.split)
  next
    case False
    then show ?thesis using assms unfolding s
      by (simp add: take_mantissa_def Let_def split: list.split)
  qed
qed

lemma take_number_pos:
  assumes "is_digit (hd s) \<or> hd s = CHR ''.''" "s \<noteq> []"
  shows "take_number s \<noteq> []"
  using take_mantissa_ne [OF assms(2,1)] by (simp add: take_number_def split_beta)

lemma scan_literal_len: "scan_literal pre s msg = Lexeme n w \<Longrightarrow> 0 < n"
  by (auto simp: scan_literal_def split: option.splits)

lemma scan_literal_shape:
  "scan_literal pre s msg \<noteq> Blank n" "scan_literal pre s msg \<noteq> Marker n l" "scan_literal pre s msg \<noteq> Word n w"
  by (auto simp: scan_literal_def split: option.splits)

lemma scan_hash_len:
  "scan_hash s = Lexeme n w \<Longrightarrow> 0 < n"
  "s \<noteq> [] \<Longrightarrow> hd s = CHR ''#'' \<Longrightarrow> scan_hash s = Marker n l \<Longrightarrow> 0 < n"
  by (auto simp: scan_hash_def Let_def neq_Nil_conv split: if_splits list.splits)

lemma scan_hash_shape: "scan_hash s \<noteq> Blank n" "scan_hash s \<noteq> Word n w" "scan_hash s \<noteq> Bad msg"
  by (auto simp: scan_hash_def Let_def split: list.splits)

lemma scan_punct_len: "scan_punct s = Lexeme n w \<Longrightarrow> 0 < n"
  by (auto simp: scan_punct_def split: if_splits)

lemma scan_punct_shape:
  "scan_punct s \<noteq> Blank n" "scan_punct s \<noteq> Marker n l" "scan_punct s \<noteq> Word n w"
  by (auto simp: scan_punct_def)

lemma scan_word_len:
  "scan_word s = Lexeme n w \<Longrightarrow> 0 < n"
  "s \<noteq> [] \<Longrightarrow> is_alpha (hd s) \<Longrightarrow> scan_word s = Word n w \<Longrightarrow> 0 < n"
  using length_takeWhile_pos [of s is_alnum]
  by (auto simp: scan_word_def Let_def is_alnum_def scan_literal_len scan_literal_shape split: if_splits option.splits)

lemma scan_word_shape: "scan_word s \<noteq> Blank n" "scan_word s \<noteq> Marker n l"
  by (auto simp: scan_word_def Let_def scan_literal_shape split: option.splits)

lemmas scan_shapes = scan_literal_shape scan_hash_shape scan_punct_shape scan_word_shape
lemmas scan_lens = scan_literal_len scan_hash_len scan_punct_len scan_word_len

lemma comment_line_pos: "take 2 s = ''//'' \<Longrightarrow> 0 < length (takeWhile (\<lambda>d. d \<noteq> CHR 0x0A) s)"
  by (cases s) (auto simp: take_Cons')

text \<open>Every item takes a character at least, so the lexer's loop ends.\<close>

lemma scan_item_pos:
  assumes "s \<noteq> []"
  shows "scan_item s = Blank n \<Longrightarrow> 0 < n"
    and "scan_item s = Marker n ln \<Longrightarrow> 0 < n"
    and "scan_item s = Word n w \<Longrightarrow> 0 < n"
    and "scan_item s = Lexeme n w \<Longrightarrow> 0 < n"
proof -
  show "scan_item s = Blank n \<Longrightarrow> 0 < n"
    using assms comment_line_pos [of s]
    by (auto simp: scan_item_def Let_def scan_shapes split: if_splits option.splits)
  show "scan_item s = Marker n ln \<Longrightarrow> 0 < n"
    using assms by (auto simp: scan_item_def Let_def scan_shapes dest: scan_lens split: if_splits option.splits)
  show "scan_item s = Word n w \<Longrightarrow> 0 < n"
    using assms by (auto simp: scan_item_def Let_def scan_shapes dest: scan_lens split: if_splits option.splits)
  show "scan_item s = Lexeme n w \<Longrightarrow> 0 < n"
    using assms take_number_pos [of s]
    by (auto simp: scan_item_def Let_def scan_shapes dest: scan_lens split: if_splits option.splits)
qed

subsection \<open>Macro invocations\<close>

type_synonym lex_result = "lex_error + token list \<times> int"

text \<open>The arguments of an invocation from after its opening parenthesis, and the characters taken.\<close>

function collect_args :: "nat \<Rightarrow> string \<Rightarrow> string \<Rightarrow> string list \<times> nat" where
  "collect_args depth cur [] = ([], 0)"
| "collect_args depth cur (c # cs) =
     (if c = CHR ''('' then (let (as, n) = collect_args (depth + 1) (cur @ [c]) cs in (as, n + 1))
      else if c = CHR '')'' then
        (if depth = 0 then ([cur], 1)
         else (let (as, n) = collect_args (depth - 1) (cur @ [c]) cs in (as, n + 1)))
      else if c = CHR '','' \<and> depth = 0 then (let (as, n) = collect_args depth [] cs in (cur # as, n + 1))
      else if c = CHR 0x22 \<or> c = CHR 0x27 then
        (let t = (case take_quoted c cs of Some t \<Rightarrow> t | None \<Rightarrow> cs);
             (as, n) = collect_args depth (cur @ c # t) (drop (length t) cs)
         in (as, n + 1 + length t))
      else (let (as, n) = collect_args depth (cur @ [c]) cs in (as, n + 1)))"
  by pat_completeness auto
termination by (relation "measure (\<lambda>(_, _, s). length s)") auto

definition trim :: "string \<Rightarrow> string" where
  "trim s = rev (dropWhile lx_space (rev (dropWhile lx_space s)))"

fun find_param :: "string list \<Rightarrow> string \<Rightarrow> nat option" where
  "find_param [] name = None"
| "find_param (p # ps) name = (if p = name then Some 0 else map_option Suc (find_param ps name))"

definition va_text :: "nat \<Rightarrow> string list \<Rightarrow> string" where
  "va_text p args = (case drop p args of [] \<Rightarrow> [] | a # as \<Rightarrow> a @ concat (map ((@) '', '') as))"

definition arg_text :: "nat \<Rightarrow> string list \<Rightarrow> string" where
  "arg_text p args = (if p < length args then args ! p else [])"

text \<open>The text a body token stands for when it names a parameter.\<close>

definition param_text :: "macro \<Rightarrow> string list \<Rightarrow> string \<Rightarrow> string option" where
  "param_text m args t =
     (case (if t = ''__VA_ARGS__'' then find_param (m_params m) ''...'' else None) of
        Some p \<Rightarrow> Some (va_text p args)
      | None \<Rightarrow> map_option (\<lambda>p. arg_text p args) (find_param (m_params m) t))"

definition stringize_text :: "macro \<Rightarrow> string list \<Rightarrow> string \<Rightarrow> string option" where
  "stringize_text m args t =
     (if t = ''__VA_ARGS__'' then map_option (\<lambda>p. va_text p args) (find_param (m_params m) ''...'')
      else map_option (\<lambda>p. arg_text p args) (find_param (m_params m) t))"

definition no_eof :: "token list \<Rightarrow> token list" where
  "no_eof ts = filter (\<lambda>t. tk_text t \<noteq> ''EOF'') ts"

definition paste_operand :: "string \<Rightarrow> string list \<Rightarrow> bool" where
  "paste_operand prev ts \<longleftrightarrow> prev = ''##'' \<or> ts \<noteq> [] \<and> hd ts = ''##''"

text \<open>\<open>sub\<close> is the lexer for nested texts: with no macros, or with the ones not active.\<close>

fun expand_body ::
  "(string list option \<Rightarrow> string \<Rightarrow> int \<Rightarrow> lex_result) \<Rightarrow> string list \<Rightarrow> macro \<Rightarrow> string list \<Rightarrow>
   string \<Rightarrow> string list \<Rightarrow> int \<Rightarrow> lex_error + string list \<times> int" where
  "expand_body sub active m args prev [] cnt = Inr ([], cnt)"
| "expand_body sub active m args prev (t # ts) cnt =
     (if t = ''EOF'' then expand_body sub active m args t ts cnt
      else if t = ''#'' \<and> ts \<noteq> [] \<and> hd ts \<noteq> ''EOF'' \<and> stringize_text m args (hd ts) \<noteq> None then
        bnd (expand_body sub active m args (hd ts) (tl ts) cnt) (\<lambda>(us, cnt').
        Inr (quote_text (the (stringize_text m args (hd ts))) # us, cnt'))
      else (case param_text m args t of
          Some a \<Rightarrow>
            bnd (if a = [] then Inr ([[]], cnt)
                 else bnd (sub (if paste_operand prev ts then None else Some active) a cnt) (\<lambda>(us, cnt').
                      Inr (map tk_text (no_eof us), cnt'))) (\<lambda>(us, cnt').
            bnd (expand_body sub active m args t ts cnt') (\<lambda>(vs, cnt'').
            Inr (us @ vs, cnt'')))
        | None \<Rightarrow>
            bnd (expand_body sub active m args t ts cnt) (\<lambda>(us, cnt'). Inr (t # us, cnt'))))"

fun paste_object :: "string list \<Rightarrow> string list \<Rightarrow> string list" where
  "paste_object acc [] = acc"
| "paste_object acc (t # ts) =
     (if t = ''EOF'' then paste_object acc ts
      else if t = ''##'' then
        (case ts of
           [] \<Rightarrow> acc
         | u # us \<Rightarrow> if acc \<noteq> [] \<and> u \<noteq> ''EOF'' then paste_object (butlast acc @ [last acc @ u]) us
                    else paste_object acc ts)
      else paste_object (acc @ [t]) ts)"

fun paste_function :: "string list \<Rightarrow> string list \<Rightarrow> string list" where
  "paste_function acc [] = acc"
| "paste_function acc (t # ts) =
     (if t = ''##'' then
        (case ts of
           [] \<Rightarrow> acc
         | u # us \<Rightarrow> if acc \<noteq> [] then paste_function (butlast acc @ [last acc @ u]) us else paste_function acc ts)
      else paste_function (acc @ [t]) ts)"

definition join_texts :: "string list \<Rightarrow> string" where
  "join_texts ts = concat (map (\<lambda>t. t @ '' '') ts)"

definition at_pos :: "pos \<Rightarrow> token \<Rightarrow> token" where
  "at_pos p t = t\<lparr>tk_line := fst p, tk_col := snd p\<rparr>"

definition mk_token :: "string \<Rightarrow> pos \<Rightarrow> token" where
  "mk_token t p = \<lparr>tk_text = t, tk_line = fst p, tk_col = snd p\<rparr>"

definition rescan ::
  "(string list option \<Rightarrow> string \<Rightarrow> int \<Rightarrow> lex_result) \<Rightarrow> string list \<Rightarrow> pos \<Rightarrow> string list \<Rightarrow> int \<Rightarrow> lex_result" where
  "rescan sub active p ts cnt =
     bnd (sub (Some active) (join_texts ts) cnt) (\<lambda>(us, cnt'). Inr (map (at_pos p) (no_eof us), cnt'))"

text \<open>What a word at position \<open>p\<close> becomes: tokens, characters taken beyond the word, the counter.\<close>

definition expand_word ::
  "(string list option \<Rightarrow> string \<Rightarrow> int \<Rightarrow> lex_result) \<Rightarrow> (string \<Rightarrow> macro option) \<Rightarrow> string list \<Rightarrow> lex_env \<Rightarrow>
   pos \<Rightarrow> string \<Rightarrow> string \<Rightarrow> int \<Rightarrow> lex_error + token list \<times> nat \<times> int" where
  "expand_word sub ms active env p w s cnt =
     (case special_word env cnt w of
        Some (t, cnt') \<Rightarrow> Inr ([mk_token t p], 0, cnt')
      | None \<Rightarrow>
        (case (if w \<in> set active then None else ms w) of
           None \<Rightarrow> Inr ([mk_token w p], 0, cnt)
         | Some m \<Rightarrow>
           if \<not> m_function_like m then
             bnd (sub None (m_body m) cnt) (\<lambda>(body, cnt1).
             bnd (rescan sub (active @ [w]) p (paste_object [] (map tk_text body)) cnt1) (\<lambda>(ts, cnt2).
             Inr (ts, 0, cnt2)))
           else
             (let blanks = length (takeWhile lx_space s); t = drop blanks s in
              if t = [] \<or> hd t \<noteq> CHR ''('' then Inr ([mk_token w p], 0, cnt)
              else
                let (raw_args, n) = collect_args 0 [] (tl t); args = map trim raw_args in
                bnd (sub None (m_body m) cnt) (\<lambda>(body, cnt1).
                bnd (expand_body sub active m args [] (map tk_text body) cnt1) (\<lambda>(us, cnt2).
                bnd (rescan sub (active @ [w]) p (filter (\<lambda>u. u \<noteq> []) (paste_function [] us)) cnt2) (\<lambda>(ts, cnt3).
                Inr (ts, blanks + 1 + n, cnt3)))))))"

function lex_loop ::
  "(string list option \<Rightarrow> string \<Rightarrow> int \<Rightarrow> lex_result) \<Rightarrow> (string \<Rightarrow> macro option) \<Rightarrow> string list \<Rightarrow> lex_env \<Rightarrow>
   string \<Rightarrow> pos \<Rightarrow> int \<Rightarrow> lex_result" where
  "lex_loop sub ms active env s p cnt =
     (if s = [] then Inr ([mk_token ''EOF'' p], cnt)
      else (case scan_item s of
          Bad msg \<Rightarrow> Inl (Lex_Error (fst p) (snd p) msg)
        | Blank n \<Rightarrow> lex_loop sub ms active env (drop n s) (advance p (take n s)) cnt
        | Marker n ln \<Rightarrow>
            lex_loop sub ms active env (drop n s) (if ln > 0 then (c_int_of ln, 1) else advance p (take n s)) cnt
        | Lexeme n t \<Rightarrow>
            bnd (lex_loop sub ms active env (drop n s) (advance p (take n s)) cnt) (\<lambda>(ts, cnt').
            Inr (mk_token t p # ts, cnt'))
        | Word n w \<Rightarrow>
            bnd (expand_word sub ms active env p w (drop n s) cnt) (\<lambda>(ts, k, cnt1).
            bnd (lex_loop sub ms active env (drop (n + k) s) (advance p (take (n + k) s)) cnt1) (\<lambda>(us, cnt2).
            Inr (ts @ us, cnt2)))))"
  by pat_completeness auto
termination
  by (relation "measure (\<lambda>(sub, ms, active, env, s, p, cnt). length s)")
    (simp_all add: scan_item_pos trans_less_add1)

declare lex_loop.simps [simp del]

text \<open>\<^verbatim>\<open>lex(src, nullptr, nullptr, arena)\<close>, and \<^verbatim>\<open>lex(src, macros, active, arena)\<close>.\<close>

definition lex_raw :: "lex_env \<Rightarrow> string \<Rightarrow> int \<Rightarrow> lex_result" where
  "lex_raw env s cnt = lex_loop (\<lambda>_ _ _. Inl Lex_Fuel) Map.empty [] env s (1, 1) cnt"

fun lex_macros :: "nat \<Rightarrow> (string \<Rightarrow> macro option) \<Rightarrow> lex_env \<Rightarrow> string list option \<Rightarrow> string \<Rightarrow> int \<Rightarrow> lex_result" where
  "lex_macros n ms env None s cnt = lex_raw env s cnt"
| "lex_macros 0 ms env (Some active) s cnt = Inl Lex_Fuel"
| "lex_macros (Suc n) ms env (Some active) s cnt = lex_loop (lex_macros n ms env) ms active env s (1, 1) cnt"

end
