(* ===== verification/Lexer_Text.thy ===== *)
theory Lexer_Text
  imports Lexer "HOL-Library.Sublist"
begin

text \<open>
  Facts about the scanners of \<open>Lexer\<close>: what they take is a prefix of the text, and it does not depend
  on anything further than the blank that follows it.  From these come the two properties of lexing
  without macros: the tokens tile the source text at the positions they carry, and re-lexing the
  tokens joined by single spaces (what the macro engine does to rescan) gives them back.
\<close>

subsection \<open>Scanners that only look as far as the next blank\<close>

definition within :: "(string \<Rightarrow> string) \<Rightarrow> bool" where
  "within f \<longleftrightarrow> (\<forall>s. prefix (f s) s)"

definition blind :: "(string \<Rightarrow> string) \<Rightarrow> bool" where
  "blind f \<longleftrightarrow> (\<forall>s t r. prefix (f s) t \<and> prefix t s \<longrightarrow> f (t @ CHR '' '' # r) = f s)"

text \<open>One scanner after another; the second may depend on what the first took.\<close>

definition then_take :: "(string \<Rightarrow> string) \<Rightarrow> (string \<Rightarrow> string \<Rightarrow> string) \<Rightarrow> string \<Rightarrow> string" where
  "then_take f g s = f s @ g (f s) (drop (length (f s)) s)"

named_theorems scanner

lemma within_takeWhile [scanner]: "within (takeWhile P)"
  by (simp add: within_def takeWhile_is_prefix)

lemma within_opt_part [scanner]: "within f \<Longrightarrow> within (opt_part P f)"
  by (auto simp: within_def opt_part_def split: list.split)

lemma within_opt_char [scanner]: "within (opt_char P)"
  by (auto simp: within_def opt_char_def split: list.split)

lemma within_then [scanner]: 
  assumes "within f" "\<And>x. within (g x)" shows "within (then_take f g)"
  unfolding within_def
proof
  fix s
  obtain u where u: "s = f s @ u" using assms(1) by (auto simp: within_def elim: prefixE)
  then have d: "drop (length (f s)) s = u" by (metis append_eq_conv_conj)
  have "prefix (g (f s) u) u" using assms(2) by (simp add: within_def)
  then have "prefix (f s @ g (f s) u) (f s @ u)" by simp
  then show "prefix (then_take f g s) s" using u d by (simp add: then_take_def)
qed

lemma blindD: "blind f \<Longrightarrow> prefix (f s) t \<Longrightarrow> prefix t s \<Longrightarrow> f (t @ CHR '' '' # r) = f s"
  by (simp add: blind_def)

lemma blind_takeWhile [scanner]:
  assumes "\<not> P CHR '' ''" shows "blind (takeWhile P)"
  unfolding blind_def
proof (intro allI impI)
  fix s t r :: string
  assume a: "prefix (takeWhile P s) t \<and> prefix t s"
  then obtain x where t: "t = takeWhile P s @ x" by (auto elim!: prefixE)
  from a obtain u where s: "s = t @ u" by (auto elim!: prefixE)
  have all: "\<forall>c\<in>set (takeWhile P s). P c" by (auto dest: set_takeWhileD)
  have "takeWhile P (x @ CHR '' '' # r) = []"
  proof (cases x)
    case Nil then show ?thesis using assms by simp
  next
    case (Cons c cs)
    have "dropWhile P s = x @ u" using s t by (metis append_assoc same_append_eq takeWhile_dropWhile_id)
    then have "\<not> P c" using Cons hd_dropWhile [of P s] by simp
    then show ?thesis using Cons by simp
  qed
  then show "takeWhile P (t @ CHR '' '' # r) = takeWhile P s"
    using all unfolding t by (simp add: takeWhile_append2)
qed

lemma blind_opt_part [scanner]:
  assumes "\<not> P CHR '' ''" "blind f" shows "blind (opt_part P f)"
  unfolding blind_def
proof (intro allI impI)
  fix s t r :: string
  assume a: "prefix (opt_part P f s) t \<and> prefix t s"
  show "opt_part P f (t @ CHR '' '' # r) = opt_part P f s"
  proof (cases t)
    case Nil
    then show ?thesis using a assms by (cases s) (auto simp: opt_part_def)
  next
    case (Cons c cs)
    then obtain u where s: "s = c # cs @ u" using a by (auto elim!: prefixE)
    show ?thesis using Cons s a blindD [OF assms(2), of "cs @ u" cs r] by (auto simp: opt_part_def)
  qed
qed

lemma blind_opt_char [scanner]:
  assumes "\<not> P CHR '' ''" shows "blind (opt_char P)"
proof -
  have "opt_char P = opt_part P (\<lambda>_. [])" by (auto simp: opt_char_def opt_part_def fun_eq_iff split: list.split)
  moreover have "blind (\<lambda>_. [])" by (simp add: blind_def)
  ultimately show ?thesis using assms by (simp add: blind_opt_part)
qed

lemma blind_then [scanner]:
  assumes "blind f" "within f" "\<And>x. blind (g x)" shows "blind (then_take f g)"
  unfolding blind_def
proof (intro allI impI)
  fix s t r :: string
  assume a: "prefix (then_take f g s) t \<and> prefix t s"
  then obtain y where t: "t = f s @ y" by (auto simp: then_take_def elim!: prefixE)
  from a obtain u where s: "s = t @ u" by (auto elim!: prefixE)
  have d: "drop (length (f s)) s = y @ u" using s t by (metis append_assoc append_eq_conv_conj)
  have y: "prefix (g (f s) (y @ u)) y" using a t d by (simp add: then_take_def)
  have 1: "f (t @ CHR '' '' # r) = f s" using a t by (intro blindD [OF assms(1)]) auto
  have 2: "g (f s) (y @ CHR '' '' # r) = g (f s) (y @ u)" using y by (intro blindD [OF assms(3)]) auto
  show "then_take f g (t @ CHR '' '' # r) = then_take f g s"
    unfolding then_take_def 1 d using 2 t by simp
qed

subsection \<open>Numbers\<close>

definition is_hex :: "string \<Rightarrow> bool" where
  "is_hex s = (case s of c # d # _ \<Rightarrow> c = CHR ''0'' \<and> (d = CHR ''x'' \<or> d = CHR ''X'') | _ \<Rightarrow> False)"

definition hex_prefix :: "string \<Rightarrow> string" where
  "hex_prefix = then_take (opt_char (\<lambda>c. c = CHR ''0'')) (\<lambda>_. opt_char (\<lambda>d. d = CHR ''x'' \<or> d = CHR ''X''))"

definition digits_of :: "bool \<Rightarrow> string \<Rightarrow> string" where
  "digits_of hex = takeWhile (if hex then is_xdigit else is_digit)"

definition tail_of :: "bool \<Rightarrow> string \<Rightarrow> string" where
  "tail_of hex = then_take (opt_part (\<lambda>c. c = CHR ''.'') (digits_of hex))
     (\<lambda>_. opt_part (\<lambda>c. if hex then c = CHR ''p'' \<or> c = CHR ''P'' else c = CHR ''e'' \<or> c = CHR ''E'')
       (then_take (opt_char (\<lambda>c. c = CHR ''+'' \<or> c = CHR ''-'')) (\<lambda>_. takeWhile is_digit)))"

definition number_of :: "bool \<Rightarrow> string \<Rightarrow> string" where
  "number_of hex = then_take (then_take (if hex then hex_prefix else (\<lambda>_. [])) (\<lambda>_. digits_of hex))
     (\<lambda>_. then_take (tail_of hex) (\<lambda>x. take_suffix (x \<noteq> [])))"

lemma take_exponent_then:
  "take_exponent = then_take (opt_char (\<lambda>c. c = CHR ''+'' \<or> c = CHR ''-'')) (\<lambda>_. takeWhile is_digit)"
  by (simp add: fun_eq_iff take_exponent_def then_take_def Let_def)

lemma hex_prefix_take: "is_hex s \<Longrightarrow> hex_prefix s = take 2 s"
  by (auto simp: is_hex_def hex_prefix_def then_take_def opt_char_def split: list.splits)

lemma digits_of_if: "takeWhile (if hex then is_xdigit else is_digit) = digits_of hex"
  by (simp add: digits_of_def)

lemma take_number_of: "take_number s = number_of (is_hex s) s"
  unfolding take_number_def take_mantissa_def is_hex_def [symmetric] number_of_def tail_of_def
    then_take_def Let_def take_exponent_then digits_of_if
  by (auto simp: hex_prefix_take ac_simps)

lemma not_space_class [simp]:
  "\<not> is_digit CHR '' ''" "\<not> is_xdigit CHR '' ''" "\<not> is_alpha CHR '' ''" "\<not> is_alnum CHR '' ''"
  by (simp_all add: is_digit_def is_xdigit_def is_alpha_def is_alnum_def in_range_def)

lemma within_nil [scanner]: "within (\<lambda>_. [])" and blind_nil [scanner]: "blind (\<lambda>_. [])"
  by (simp_all add: within_def blind_def)

lemma within_suffix [scanner]: "within (take_suffix b)"
proof -
  have "take_suffix b = (if b then then_take (takeWhile (\<lambda>c. c \<in> {CHR ''f'', CHR ''F'', CHR ''l'', CHR ''L''}))
      (\<lambda>_. opt_char (\<lambda>c. c = CHR ''i'' \<or> c = CHR ''I''))
    else takeWhile (\<lambda>c. c \<in> {CHR ''u'', CHR ''U'', CHR ''l'', CHR ''L''}))"
    by (simp add: fun_eq_iff take_suffix_def then_take_def Let_def)
  then show ?thesis by (simp add: scanner)
qed

lemma blind_suffix [scanner]: "blind (take_suffix b)"
proof -
  have "take_suffix b = (if b then then_take (takeWhile (\<lambda>c. c \<in> {CHR ''f'', CHR ''F'', CHR ''l'', CHR ''L''}))
      (\<lambda>_. opt_char (\<lambda>c. c = CHR ''i'' \<or> c = CHR ''I''))
    else takeWhile (\<lambda>c. c \<in> {CHR ''u'', CHR ''U'', CHR ''l'', CHR ''L''}))"
    by (simp add: fun_eq_iff take_suffix_def then_take_def Let_def)
  then show ?thesis by (simp add: scanner)
qed

lemma within_number [scanner]: "within (number_of hex)"
  by (simp add: number_of_def tail_of_def digits_of_def hex_prefix_def scanner)

lemma blind_number: "blind (number_of hex)"
  by (cases hex) (simp_all add: number_of_def tail_of_def digits_of_def hex_prefix_def scanner)

lemma is_hex_cut: "prefix t s \<Longrightarrow> prefix (take_number s) t \<Longrightarrow> is_hex (t @ CHR '' '' # r) = is_hex s"
proof -
  assume t: "prefix t s" and n: "prefix (take_number s) t"
  have hex: "is_hex s \<Longrightarrow> prefix (take 2 s) t"
  proof -
    assume h: "is_hex s"
    then have "prefix (take 2 s) (take_number s)"
      by (simp add: take_number_of number_of_def then_take_def hex_prefix_take)
    then show ?thesis using n prefix_order.trans by blast
  qed
  show ?thesis
  proof (cases "is_hex s")
    case True
    then show ?thesis using hex t by (auto simp: is_hex_def split: list.splits elim!: prefixE)
  next
    case False
    then show ?thesis using t by (cases t rule: remdups_adj.cases) (auto simp: is_hex_def split: list.splits elim!: prefixE)
  qed
qed

lemma take_number_prefix: "prefix (take_number s) s"
  using within_number by (simp add: within_def take_number_of)

lemma take_number_blind: "prefix t s \<Longrightarrow> prefix (take_number s) t \<Longrightarrow> take_number (t @ CHR '' '' # r) = take_number s"
  using is_hex_cut [of t s r] blindD [OF blind_number [of "is_hex s"], of s t r] by (simp add: take_number_of)

subsection \<open>Literals and words\<close>

lemma take_quoted_prefix: "take_quoted q s = Some t \<Longrightarrow> prefix t s"
  by (induction q s arbitrary: t rule: take_quoted.induct) (auto split: if_splits list.splits)

lemma take_quoted_append: "take_quoted q s = Some t \<Longrightarrow> take_quoted q (t @ r) = Some t"
  by (induction q s arbitrary: t rule: take_quoted.induct) (auto split: if_splits list.splits)

lemma take_quoted_ne: "take_quoted q s = Some t \<Longrightarrow> t \<noteq> []"
  by (cases s) (auto split: if_splits list.splits)

lemma char_class_facts:
  "is_alpha c \<Longrightarrow> \<not> lx_space c" "is_alpha c \<Longrightarrow> c \<noteq> CHR ''#''" "is_alpha c \<Longrightarrow> c \<noteq> CHR ''/''"
  "is_alpha c \<Longrightarrow> \<not> is_digit c" "is_alpha c \<Longrightarrow> c \<noteq> CHR ''.''" "is_digit c \<Longrightarrow> \<not> lx_space c"
  "is_digit c \<Longrightarrow> c \<noteq> CHR ''#''" "is_digit c \<Longrightarrow> c \<noteq> CHR ''/''" "is_alpha c \<Longrightarrow> c \<noteq> CHR 0x22"
  "is_alpha c \<Longrightarrow> c \<noteq> CHR 0x27" "is_digit c \<Longrightarrow> c \<noteq> CHR 0x22" "is_digit c \<Longrightarrow> c \<noteq> CHR 0x27"
  by (auto simp: is_alpha_def is_digit_def in_range_def lx_space_def)

lemma class_of_quote [simp]:
  "\<not> is_digit CHR 0x22" "\<not> is_alpha CHR 0x22" "\<not> lx_space CHR 0x22"
  "\<not> is_digit CHR 0x27" "\<not> is_alpha CHR 0x27" "\<not> lx_space CHR 0x27"
  "\<not> is_digit CHR ''.''" "\<not> lx_space CHR ''.''" "\<not> is_digit CHR ''#''" "\<not> lx_space CHR ''#''"
  by (simp_all add: is_digit_def is_alpha_def in_range_def lx_space_def)

text \<open>A token text that the scanner reads back when a blank follows it.\<close>

definition good_text :: "string \<Rightarrow> bool" where
  "good_text t \<longleftrightarrow> t \<noteq> [] \<and> (\<forall>r. scan_item (t @ CHR '' '' # r) = Lexeme (length t) t \<or>
     scan_item (t @ CHR '' '' # r) = Word (length t) t \<and>
       t \<noteq> ''__LINE__'' \<and> t \<noteq> ''__FILE__'' \<and> t \<noteq> ''__COUNTER__'')"

lemma scan_item_quoted:
  "scan_item (CHR 0x22 # t) = scan_literal [] (CHR 0x22 # t) ''unterminated string literal''"
  "scan_item (CHR 0x27 # t) = scan_literal [] (CHR 0x27 # t) ''unterminated character literal''"
  by (simp_all add: scan_item_def take_Cons')

lemma good_quoted:
  assumes "q = CHR 0x22 \<or> q = CHR 0x27" "take_quoted q s = Some t"
  shows "good_text (q # t)"
  using assms(1) take_quoted_append [OF assms(2)]
  by (elim disjE) (simp_all add: good_text_def scan_item_quoted scan_literal_def)

lemma good_number:
  assumes "is_digit (hd s) \<or> hd s = CHR ''.'' \<and> tl s \<noteq> [] \<and> is_digit (hd (tl s))" "s \<noteq> []"
  shows "good_text (take_number s)"
proof -
  let ?t = "take_number s"
  have ne: "?t \<noteq> []" using assms take_number_pos by blast
  obtain u where u: "s = ?t @ u" using take_number_prefix [of s] by (auto elim: prefixE)
  have h: "hd s = hd ?t" using ne u by (metis hd_append2)
  have dot: "length ?t \<noteq> 1" if d: "hd s = CHR ''.'' \<and> is_digit (hd (tl s)) \<and> tl s \<noteq> []"
  proof -
    obtain c w where w: "s = c # w" using assms(2) by (cases s) auto
    then obtain d r where s: "s = c # d # r" using d by (cases w) auto
    then have "\<not> is_hex s" using that by (auto simp: is_hex_def)
    then have "take_number s = number_of False s" by (simp add: take_number_of)
    then show ?thesis using s that
      by (simp add: number_of_def then_take_def digits_of_def tail_of_def opt_part_def)
  qed
  have "scan_item (?t @ CHR '' '' # r) = Lexeme (length ?t) ?t" for r
  proof -
    have 1: "take_number (?t @ CHR '' '' # r) = ?t" using take_number_blind take_number_prefix by blast
    have 2: "is_digit (hd ?t) \<or> hd ?t = CHR ''.'' \<and> tl (?t @ CHR '' '' # r) \<noteq> [] \<and> is_digit (hd (tl (?t @ CHR '' '' # r)))"
    proof (cases "is_digit (hd s)")
      case False
      then have "hd s = CHR ''.''" "tl s \<noteq> []" "is_digit (hd (tl s))" using assms by auto
      then have "tl ?t \<noteq> []" using dot ne by (cases ?t) auto
      then have "hd (tl (?t @ CHR '' '' # r)) = hd (tl s)" using u ne by (metis hd_append2 tl_append2)
      then show ?thesis using \<open>is_digit (hd (tl s))\<close> \<open>hd s = CHR ''.''\<close> h ne by simp
    qed (simp add: h)
    have 3: "hd ?t \<noteq> CHR ''/''" "hd ?t \<noteq> CHR ''#''" "\<not> lx_space (hd ?t)"
      using 2 by (auto simp: char_class_facts)
    have 4: "take 2 (?t @ CHR '' '' # r) \<noteq> ''//''" "take 2 (?t @ CHR '' '' # r) \<noteq> ''/*''"
      using 3 ne by (cases ?t; simp)+
    show ?thesis using 1 2 3 4 ne by (simp add: scan_item_def Let_def)
  qed
  then show ?thesis using ne by (simp add: good_text_def)
qed

lemma good_word:
  assumes "scan_word s = Word n w" "is_alpha (hd s)" "s \<noteq> []"
    "w \<noteq> ''__LINE__''" "w \<noteq> ''__FILE__''" "w \<noteq> ''__COUNTER__''"
  shows "good_text w"
proof -
  have w: "w = takeWhile is_alnum s" using assms by (auto simp: scan_word_def Let_def scan_shapes split: if_splits option.splits)
  then have ne: "w \<noteq> []" and h: "hd w = hd s" using assms by (cases s; simp add: is_alnum_def)+
  have "scan_item (w @ CHR '' '' # r) = Word (length w) w" for r
  proof -
    have 1: "takeWhile is_alnum (w @ CHR '' '' # r) = w"
    proof -
      have "\<forall>c\<in>set w. is_alnum c" unfolding w by (auto dest: set_takeWhileD)
      then show ?thesis by (simp add: takeWhile_append2)
    qed
    have "hd w \<noteq> CHR ''/''" using h assms(2) char_class_facts(3) by simp
    then have "take 2 (w @ CHR '' '' # r) \<noteq> ''//''" "take 2 (w @ CHR '' '' # r) \<noteq> ''/*''"
      using ne by (cases w; simp)+
    then show ?thesis using 1 ne assms(2) h
      by (simp add: scan_item_def Let_def char_class_facts scan_word_def)
  qed
  then show ?thesis using ne assms by (simp add: good_text_def)
qed

definition punct1 :: string where "punct1 = ''{}[](),;=+-*/%<>.&!|^~:?''"

lemma punct1_class:
  assumes "c \<in> set punct1"
  shows "\<not> lx_space c" "\<not> is_digit c" "\<not> is_alpha c" "c \<noteq> CHR ''#''" "c \<noteq> CHR 0x22" "c \<noteq> CHR 0x27"
proof -
  have "list_all (\<lambda>c. \<not> lx_space c \<and> \<not> is_digit c \<and> \<not> is_alpha c \<and> c \<noteq> CHR ''#'' \<and> c \<noteq> CHR 0x22 \<and> c \<noteq> CHR 0x27) punct1"
    by code_simp
  then show "\<not> lx_space c" "\<not> is_digit c" "\<not> is_alpha c" "c \<noteq> CHR ''#''" "c \<noteq> CHR 0x22" "c \<noteq> CHR 0x27"
    using assms by (simp_all add: list_all_iff)
qed

lemma punct2_heads:
  assumes "t \<in> set punct2"
  shows "\<exists>c d. t = [c, d] \<and> c \<in> set punct1 \<and> c \<noteq> CHR ''.'' \<and> d \<noteq> CHR ''/'' \<and> d \<noteq> CHR ''*''"
proof -
  have "list_all (\<lambda>t. length t = 2 \<and> t ! 0 \<in> set punct1 \<and> t ! 0 \<noteq> CHR ''.'' \<and> t ! 1 \<noteq> CHR ''/'' \<and> t ! 1 \<noteq> CHR ''*'') punct2"
    by code_simp
  then have "length t = 2 \<and> t ! 0 \<in> set punct1 \<and> t ! 0 \<noteq> CHR ''.'' \<and> t ! 1 \<noteq> CHR ''/'' \<and> t ! 1 \<noteq> CHR ''*''"
    using assms by (simp add: list_all_iff)
  moreover from this have "t = [t ! 0, t ! 1]" by (cases t rule: remdups_adj.cases) auto
  ultimately show ?thesis by metis
qed

lemma scan_item_punct:
  assumes "c \<in> set punct1" "c = CHR ''/'' \<longrightarrow> d \<noteq> CHR ''/'' \<and> d \<noteq> CHR ''*''" "c = CHR ''.'' \<longrightarrow> \<not> is_digit d"
  shows "scan_item (c # d # r) = scan_punct (c # d # r)"
  using assms punct1_class [OF assms(1)] by (auto simp: scan_item_def take_Cons')

lemma scan_punct_single:
  "c \<in> set punct1 \<Longrightarrow> scan_punct (c # CHR '' '' # r) = Lexeme 1 [c]"
proof -
  assume "c \<in> set punct1"
  moreover have "[c, CHR '' ''] \<notin> set punct2" by (simp add: punct2_def)
  ultimately show ?thesis unfolding scan_punct_def punct1_def [symmetric] by simp
qed

lemma good_punct:
  assumes "scan_punct s = Lexeme n t"
  shows "good_text t"
proof -
  consider "t \<in> {''...'', ''<<='', ''>>=''}" | "t \<in> set punct2" | c where "t = [c]" "c \<in> set punct1"
    using assms by (auto simp: scan_punct_def punct1_def split: if_splits)
  then show ?thesis
  proof cases
    case 1
    then have "scan_item (t @ CHR '' '' # r) = scan_punct (t @ CHR '' '' # r)" for r
      by (elim insertE) (simp_all add: scan_item_punct punct1_def)
    moreover have "scan_punct (t @ CHR '' '' # r) = Lexeme (length t) t" for r
      using 1 by (elim insertE) (simp_all add: scan_punct_def)
    ultimately show ?thesis using 1 by (auto simp: good_text_def)
  next
    case 2
    then obtain c d where t: "t = [c, d]" "c \<in> set punct1" "c \<noteq> CHR ''.''" "d \<noteq> CHR ''/''" "d \<noteq> CHR ''*''"
      using punct2_heads [OF 2] by blast
    then have "scan_item (t @ CHR '' '' # r) = scan_punct (t @ CHR '' '' # r)" for r
      by (simp add: scan_item_punct)
    then show ?thesis using 2 t by (simp add: good_text_def scan_punct_def)
  next
    case 3
    then have "scan_item (t @ CHR '' '' # r) = scan_punct (t @ CHR '' '' # r)" for r
      by (simp add: scan_item_punct)
    then show ?thesis using 3 by (simp add: good_text_def scan_punct_single)
  qed
qed

end
