(* ===== verification/Lexer_Props.thy ===== *)
theory Lexer_Props
  imports Lexer_Text
begin

text \<open>
  What lexing without macros gives: tokens that tile the source at their positions, and texts that a
  rescan of their single-space join reproduces; and that the macro engine of \<^verbatim>\<open>lex\<close> always returns.
\<close>

subsection \<open>The gaps between tokens\<close>

text \<open>\<open>skipped b rest\<close>: the text \<open>b\<close> before \<open>rest\<close> is white space or one complete comment.\<close>

definition skipped :: "string \<Rightarrow> string \<Rightarrow> bool" where
  "skipped b rest \<longleftrightarrow>
     (\<exists>c. b = [c] \<and> lx_space c) \<or>
     (\<exists>u. b = ''//'' @ u \<and> CHR 0x0A \<notin> set u \<and> (rest = [] \<or> hd rest = CHR 0x0A)) \<or>
     (\<exists>u. b = ''/*'' @ u @ ''*/'' \<and> \<not> sublist ''*/'' u) \<or>
     b = ''/*'' \<and> rest = []"

inductive gap :: "string \<Rightarrow> string \<Rightarrow> bool" where
  gap_nil: "gap [] rest"
| gap_cons: "skipped b (g @ rest) \<Longrightarrow> gap g rest \<Longrightarrow> gap (b @ g) rest"

text \<open>A line marker before \<open>rest\<close>, and the line it names.\<close>

definition line_marker :: "string \<Rightarrow> string \<Rightarrow> int \<Rightarrow> bool" where
  "line_marker m rest ln \<longleftrightarrow>
     (\<exists>b d u. m = ''#'' @ b @ d @ u \<and> list_all is_blank b \<and> d \<noteq> [] \<and> list_all is_digit d \<and>
        (u = [] \<or> \<not> is_digit (hd u)) \<and> ln = int (nat_of_dec d) \<and>
        CHR 0x0A \<notin> set m \<and> (rest = [] \<or> hd rest = CHR 0x0A))"

text \<open>The source text a token stands for.\<close>

definition stands_for :: "lex_env \<Rightarrow> string \<Rightarrow> string \<Rightarrow> bool" where
  "stands_for env src t \<longleftrightarrow>
     t = src \<and> src \<notin> {''__LINE__'', ''__FILE__'', ''__COUNTER__''} \<or>
     src = CHR ''L'' # t \<and> hd t = CHR 0x27 \<or>
     src = ''__LINE__'' \<and> t = dec_of_int (le_line env) \<or>
     src = ''__FILE__'' \<and> t = quote_text (le_file env) \<or>
     src = ''__COUNTER__'' \<and> (\<exists>k. t = dec_of_int k)"

inductive tiles :: "lex_env \<Rightarrow> pos \<Rightarrow> string \<Rightarrow> token list \<Rightarrow> bool" for env where
  tiles_end: "gap g [] \<Longrightarrow> tiles env p g [mk_token ''EOF'' (advance p g)]"
| tiles_token:
    "gap g (src @ rest) \<Longrightarrow> src \<noteq> [] \<Longrightarrow> \<not> lx_space (hd src) \<Longrightarrow> stands_for env src t \<Longrightarrow>
     tiles env (advance p (g @ src)) rest ts \<Longrightarrow>
     tiles env p (g @ src @ rest) (mk_token t (advance p g) # ts)"
| tiles_marker:
    "gap g (m @ rest) \<Longrightarrow> line_marker m rest ln \<Longrightarrow>
     tiles env (if ln > 0 then (c_int_of ln, 1) else advance p (g @ m)) rest ts \<Longrightarrow>
     tiles env p (g @ m @ rest) ts"

lemma advance_append: "advance p (a @ b) = advance (advance p a) b"
  by (induction p a rule: advance.induct) auto

lemma tiles_skip:
  assumes "tiles env (advance p b) s ts" "skipped b s"
  shows "tiles env p (b @ s) ts"
  using assms
proof (cases rule: tiles.cases)
  case tiles_end
  then have "gap (b @ s) []" using assms gap_cons [of b s "[]"] by simp
  from tiles.tiles_end [OF this, of env p] show ?thesis using tiles_end by (simp add: advance_append)
next
  case (tiles_token g src rest t us)
  then have "gap (b @ g) (src @ rest)" using assms gap_cons [of b g "src @ rest"] by simp
  from tiles.tiles_token [OF this, of env t p us] show ?thesis using tiles_token by (simp add: advance_append)
next
  case (tiles_marker g m rest ln)
  then have "gap (b @ g) (m @ rest)" using assms gap_cons [of b g "m @ rest"] by simp
  from tiles.tiles_marker [OF this, of ln env p ts] tiles_marker show ?thesis by (cases "ln > 0") (simp_all add: advance_append)
qed

subsection \<open>What each item takes\<close>

lemma scan_item_cases:
  obtains "lx_space (hd s)" "scan_item s = Blank 1"
  | "hd s = CHR ''#''" "scan_item s = scan_hash s"
  | "take 2 s = ''//''" "scan_item s = Blank (length (takeWhile (\<lambda>d. d \<noteq> CHR 0x0A) s))"
  | "take 2 s = ''/*''" "scan_item s = (case block_comment (drop 2 s) of None \<Rightarrow> Bad ''unterminated block comment'' | Some n \<Rightarrow> Blank (2 + n))"
  | "is_digit (hd s) \<or> hd s = CHR ''.'' \<and> tl s \<noteq> [] \<and> is_digit (hd (tl s))" "scan_item s = Lexeme (length (take_number s)) (take_number s)"
  | "is_alpha (hd s)" "scan_item s = scan_word s"
  | msg where "hd s = CHR 0x22 \<or> hd s = CHR 0x27" "scan_item s = scan_literal [] s msg"
  | "\<not> lx_space (hd s)" "scan_item s = scan_punct s"
proof -
  let ?n = "is_digit (hd s) \<or> hd s = CHR ''.'' \<and> tl s \<noteq> [] \<and> is_digit (hd (tl s))"
  note d = scan_item_def [of s, unfolded Let_def]
  show thesis
  proof (cases "lx_space (hd s)")
    case True then show ?thesis by (intro that(1)) (simp_all add: d)
  next
    case 1: False
    show ?thesis
    proof (cases "hd s = CHR ''#''")
      case True then show ?thesis using 1 by (intro that(2)) (simp_all add: d)
    next
      case 2: False
      consider "take 2 s = ''//''" | "take 2 s = ''/*''" | "take 2 s \<noteq> ''//''" "take 2 s \<noteq> ''/*''" by blast
      then show ?thesis
      proof cases
        case 3 note t = this
        show ?thesis
        proof (cases ?n)
          case True
          then have "scan_item s = Lexeme (length (take_number s)) (take_number s)" by (simp only: d 1 2 t simp_thms if_True if_False)
          then show ?thesis using True that(5) by blast
        next
          case 4: False
          then have s: "scan_item s = (if is_alpha (hd s) then scan_word s
              else if hd s = CHR 0x22 then scan_literal [] s ''unterminated string literal''
              else if hd s = CHR 0x27 then scan_literal [] s ''unterminated character literal'' else scan_punct s)"
            by (simp only: d 1 2 t simp_thms if_True if_False)
          show ?thesis
            using s 1 that(6) that(7) that(8) by (metis (no_types, lifting))
        qed
      qed (use 1 2 that(3,4) in \<open>simp_all add: d\<close>)
    qed
  qed
qed

lemma block_comment_some:
  "block_comment s = Some n \<Longrightarrow> s \<noteq> [] \<Longrightarrow> \<exists>u r. s = u @ ''*/'' @ r \<and> n = length u + 2 \<and> \<not> sublist ''*/'' u"
proof (induction s arbitrary: n rule: block_comment.induct)
  case (3 c d cs)
  show ?case
  proof (cases "c = CHR ''*'' \<and> d = CHR ''/''")
    case True
    then show ?thesis using 3 by (intro exI [of _ "[]"] exI [of _ cs]) auto
  next
    case False
    then obtain k where "block_comment (d # cs) = Some k" "n = Suc k" using 3 by auto
    with 3 False obtain u r where u: "d # cs = u @ ''*/'' @ r" "n = length (c # u) + 2" "\<not> sublist ''*/'' u" by auto
    moreover have "\<not> sublist ''*/'' (c # u)" using u False by (cases u) (auto simp: sublist_Cons_right)
    ultimately show ?thesis by (intro exI [of _ "c # u"] exI [of _ r]) auto
  qed
qed auto

lemma block_comment_nil: "block_comment s = Some n \<Longrightarrow> s = [] \<Longrightarrow> n = 0"
  by simp

lemma takeWhile_stop: "drop (length (takeWhile P s)) s = [] \<or> \<not> P (hd (drop (length (takeWhile P s)) s))"
  using hd_dropWhile [of P s] by (auto simp flip: dropWhile_eq_drop)

lemma take_length_takeWhile: "take (length (takeWhile P s)) s = takeWhile P s"
  by (metis takeWhile_eq_take)

lemma scan_blank:
  assumes "s \<noteq> []" "scan_item s = Blank n"
  shows "skipped (take n s) (drop n s)"
proof -
  show ?thesis
  proof (cases s rule: scan_item_cases)
    case 1
    then show ?thesis using assms by (cases s) (auto simp: skipped_def)
  next
    case 3
    then have n: "n = length (takeWhile (\<lambda>d. d \<noteq> CHR 0x0A) s)" using assms(2) by simp
    obtain u where s: "s = ''//'' @ u" using 3(1) by (metis append_take_drop_id)
    have "take n s = ''//'' @ takeWhile (\<lambda>d. d \<noteq> CHR 0x0A) u" "drop n s = drop (length (takeWhile (\<lambda>d. d \<noteq> CHR 0x0A) u)) u"
      unfolding n s by (simp_all add: take_length_takeWhile)
    then show ?thesis using takeWhile_stop [of "\<lambda>d. d \<noteq> CHR 0x0A" u]
      by (auto simp: skipped_def dest: set_takeWhileD)
  next
    case 4
    then obtain k where k: "block_comment (drop 2 s) = Some k" "n = 2 + k"
      using assms(2) by (cases "block_comment (drop 2 s)") auto
    have s: "s = ''/*'' @ drop 2 s" using 4(1) by (metis append_take_drop_id)
    show ?thesis
    proof (cases "drop 2 s = []")
      case True
      then have "s = ''/*''" "k = 0" using s k by simp_all
      then show ?thesis using k(2) by (simp add: skipped_def)
    next
      case False
      then obtain u r where u: "drop 2 s = u @ ''*/'' @ r" "k = length u + 2" "\<not> sublist ''*/'' u"
        using block_comment_some [OF k(1)] by blast
      then have "s = (''/*'' @ u @ ''*/'') @ r" using s by (simp only: u(1) append_assoc)
      moreover have "n = length (''/*'' @ u @ ''*/'')" using k u by simp
      ultimately have "take n s = ''/*'' @ u @ ''*/''" by (metis append_eq_conv_conj)
      then show ?thesis using u(3) unfolding skipped_def by blast
    qed
  qed (use assms(2) in \<open>simp_all add: scan_shapes scan_shapes [symmetric]\<close>)
qed

lemma scan_marker:
  assumes "s \<noteq> []" "scan_item s = Marker n ln"
  shows "line_marker (take n s) (drop n s) ln"
proof -
  have h: "hd s = CHR ''#'' \<and> scan_hash s = Marker n ln"
  proof (cases s rule: scan_item_cases)
    case 4
    then show ?thesis using assms(2) by (cases "block_comment (drop 2 s)") simp_all
  qed (use assms(2) in \<open>simp_all add: scan_shapes scan_shapes [symmetric]\<close>)
  then obtain t where s: "s = CHR ''#'' # t" using assms by (cases s) auto
  let ?nl = "\<lambda>c. c \<noteq> CHR 0x0A" and ?b = "takeWhile is_blank t" and ?r = "dropWhile is_blank t"
  let ?d = "takeWhile is_digit ?r" and ?u = "dropWhile is_digit ?r"
  have r: "?r \<noteq> []" "is_digit (hd ?r)" and n: "n = length (takeWhile ?nl s)" and ln: "ln = int (nat_of_dec ?d)"
    using h s by (auto simp: scan_hash_def Let_def split: if_splits list.splits)
  have t: "t = ?b @ ?d @ ?u" by simp
  have nl: "\<forall>c\<in>set ?b. ?nl c" "\<forall>c\<in>set ?d. ?nl c"
    by (auto dest!: set_takeWhileD simp: is_blank_def is_digit_def in_range_def)
  have "takeWhile ?nl t = ?b @ ?d @ takeWhile ?nl ?u"
    by (subst t) (simp only: takeWhile_append2 [OF bspec [OF nl(1)]] takeWhile_append2 [OF bspec [OF nl(2)]])
  then have m: "take n s = ''#'' @ ?b @ ?d @ takeWhile ?nl ?u" using n s take_length_takeWhile [of ?nl s] by simp
  have "\<not> is_digit (hd ?u)" if "?u \<noteq> []" using hd_dropWhile that by blast
  then have u: "takeWhile ?nl ?u = [] \<or> \<not> is_digit (hd (takeWhile ?nl ?u))"
    by (metis hd_append2 takeWhile.simps(1) takeWhile_dropWhile_id)
  have "take n s = takeWhile ?nl s" using n by (simp add: take_length_takeWhile)
  then have "CHR 0x0A \<notin> set (take n s)" by (auto dest: set_takeWhileD)
  moreover have "drop n s = [] \<or> hd (drop n s) = CHR 0x0A" using takeWhile_stop [of ?nl s] n by simp
  moreover have "?d \<noteq> []" using r by (cases ?r) auto
  moreover have "list_all is_blank ?b" "list_all is_digit ?d" by (auto simp: list_all_iff dest: set_takeWhileD)
  ultimately show ?thesis unfolding line_marker_def using m u ln by blast
qed

lemma literal_taken:
  assumes "scan_literal pre s msg = Lexeme n t" "s \<noteq> []"
  obtains u where "take_quoted (hd s) (tl s) = Some u" "n = length pre + length (hd s # u)"
    "t = pre @ hd s # u" "prefix (hd s # u) s"
proof -
  from assms(1) obtain u where u: "take_quoted (hd s) (tl s) = Some u" "n = length pre + length (hd s # u)" "t = pre @ hd s # u"
    by (auto simp: scan_literal_def split: option.splits)
  moreover have "prefix (hd s # u) s" using take_quoted_prefix [OF u(1)] assms(2) by (cases s) auto
  ultimately show thesis using that by blast
qed

text \<open>The text taken, the token it stands for, and that a rescan reads that token back.\<close>

definition taken :: "bool \<Rightarrow> lex_env \<Rightarrow> string \<Rightarrow> nat \<Rightarrow> string \<Rightarrow> bool" where
  "taken ok env s n t \<longleftrightarrow> 0 < n \<and> n \<le> length s \<and> \<not> lx_space (hd s) \<and> stands_for env (take n s) t \<and> (ok \<longrightarrow> t = ''#'' \<or> good_text t)"

lemma taken_prefix:
  assumes "prefix t s" "t \<noteq> []" "\<not> lx_space (hd s)" "t \<notin> {''__LINE__'', ''__FILE__'', ''__COUNTER__''}"
    "t = ''#'' \<or> good_text t"
  shows "taken ok env s (length t) t"
proof -
  have "take (length t) s = t" using assms(1) by (auto elim: prefixE)
  then show ?thesis using assms by (simp add: taken_def stands_for_def prefix_length_le)
qed

lemma scan_hash_taken:
  assumes "hd s = CHR ''#''" "scan_hash s = Lexeme n t" "s \<noteq> []"
  shows "taken ok env s n t"
proof -
  obtain r where s: "s = CHR ''#'' # r" using assms by (cases s) auto
  consider "t = ''#''" "n = 1" | r' where "t = ''##''" "n = 2" "r = CHR ''#'' # r'"
    using assms s by (auto simp: scan_hash_def Let_def split: if_splits list.splits)
  then show ?thesis
  proof cases
    case 1 then show ?thesis using taken_prefix [of "''#''" s] s by simp
  next
    case 2
    have "good_text ''##''"
      by (simp add: good_text_def scan_item_def scan_hash_def is_blank_def Let_def)
    then show ?thesis using taken_prefix [of "''##''" s] s 2 by (simp add: numeral_2_eq_2)
  qed
qed

lemma scan_literal_taken:
  assumes "hd s = CHR 0x22 \<or> hd s = CHR 0x27" "scan_literal [] s msg = Lexeme n t" "s \<noteq> []"
  shows "taken ok env s n t"
proof -
  obtain u where u: "take_quoted (hd s) (tl s) = Some u" "n = length (hd s # u)" "t = hd s # u" "prefix (hd s # u) s"
    using literal_taken [OF assms(2,3)] by auto
  have "good_text t" using good_quoted [OF assms(1) u(1)] u(3) by simp
  moreover have "t \<notin> {''__LINE__'', ''__FILE__'', ''__COUNTER__''}" using u(3) assms(1) by auto
  ultimately show ?thesis using taken_prefix [of t s ok env] u assms(1) by auto
qed

lemma good_wide:
  assumes "take_quoted CHR 0x22 s = Some u"
  shows "good_text (CHR ''L'' # CHR 0x22 # u)"
proof -
  have "scan_item (CHR ''L'' # x) = scan_word (CHR ''L'' # x)" for x
    by (simp add: scan_item_def Let_def is_digit_def is_alpha_def in_range_def lx_space_def take_Cons')
  moreover have "is_alnum CHR ''L''" "\<not> is_alnum CHR 0x22"
    by (simp_all add: is_alnum_def is_digit_def is_alpha_def in_range_def)
  ultimately show ?thesis
    using take_quoted_append [OF assms] by (simp add: good_text_def scan_word_def scan_literal_def)
qed

lemma scan_word_taken:
  assumes "is_alpha (hd s)" "scan_word s = Lexeme n t" "s \<noteq> []"
  shows "taken ok env s n t"
proof -
  let ?w = "takeWhile is_alnum s" and ?r = "drop (length (takeWhile is_alnum s)) s"
  have sp: "\<not> lx_space (hd s)" using assms(1) char_class_facts by blast
  have s: "s = ?w @ ?r" by (metis takeWhile_dropWhile_id dropWhile_eq_drop)
  consider "?w = ''L''" "?r \<noteq> []" "hd ?r = CHR 0x22" "scan_literal ?w ?r ''unterminated wide string literal'' = Lexeme n t"
    | u where "?w = ''L''" "?r \<noteq> []" "hd ?r = CHR 0x27" "take_quoted (hd ?r) (tl ?r) = Some u"
        "n = length ?w + 1 + length u" "t = hd ?r # u"
    using assms(2) by (auto simp: scan_word_def Let_def split: if_splits option.splits)
  then show ?thesis
  proof cases
    case 1
    from literal_taken [OF 1(4) 1(2)] obtain u where u: "take_quoted (hd ?r) (tl ?r) = Some u"
      "n = length ?w + length (hd ?r # u)" "t = ?w @ hd ?r # u" "prefix (hd ?r # u) ?r" by blast
    have "prefix t s" using s u(3,4) by (metis prefix_append same_prefix_prefix)
    moreover have t: "t = CHR ''L'' # CHR 0x22 # u" using u(3) 1 by simp
    moreover have "good_text t" using good_wide u(1) t 1 by simp
    moreover have "n = length t" using u(2) t 1 by simp
    ultimately show ?thesis using taken_prefix [of t s ok env] sp by simp
  next
    case 2
    have "prefix t ?r" using 2 take_quoted_prefix [OF 2(4)] by (cases ?r) auto
    then obtain x where r: "?r = t @ x" by (auto elim: prefixE)
    then have s': "s = (CHR ''L'' # t) @ x" using s 2(1) by (metis append_Cons append_Nil)
    moreover have "n = length (CHR ''L'' # t)" using 2 by simp
    ultimately have "take n s = CHR ''L'' # t" "n \<le> length s" by simp_all
    moreover have "good_text t" using good_quoted [of "CHR 0x27"] 2 by simp
    ultimately show ?thesis using sp 2 by (simp add: taken_def stands_for_def)
  qed
qed

lemma scan_punct_taken:
  assumes "scan_punct s = Lexeme n t" "s \<noteq> []" "\<not> lx_space (hd s)"
  shows "taken ok env s n t"
proof -
  have t: "t = take n s \<and> n = length t"
  proof (cases "take 3 s = ''...'' \<or> take 3 s = ''<<='' \<or> take 3 s = ''>>=''")
    case True
    then have l: "length (take 3 s) = 3" by (elim disjE) simp_all
    have "t = take 3 s" "n = 3" using assms(1) True by (auto simp: scan_punct_def)
    then show ?thesis using l by simp
  next
    case no3: False
    show ?thesis
    proof (cases "take 2 s \<in> set punct2")
      case True
      then have "t = take 2 s" "n = 2" using assms(1) no3 by (simp_all add: scan_punct_def)
      moreover have "length (take 2 s) = 2" using punct2_heads [OF True] by force
      ultimately show ?thesis by simp
    next
      case False
      then have "t = [hd s]" "n = 1" using assms(1) no3 by (simp_all add: scan_punct_def split: if_splits)
      then show ?thesis using assms(2) by (cases s) auto
    qed
  qed
  moreover have "good_text t" using good_punct assms by blast
  moreover have "t \<noteq> []" using \<open>good_text t\<close> by (simp add: good_text_def)
  moreover from this have "hd t = hd s" using t by (metis append_take_drop_id hd_append2)
  moreover have "hd s \<noteq> CHR ''_''"
  proof
    assume "hd s = CHR ''_''"
    then obtain r where "s = CHR ''_'' # r" using assms(2) by (cases s) auto
    moreover have "take 2 (CHR ''_'' # r) \<notin> set punct2"
    proof
      assume "take 2 (CHR ''_'' # r) \<in> set punct2"
      from punct2_heads [OF this] show False by (auto simp: punct1_def take_Cons')
    qed
    ultimately show False using assms(1) by (simp add: scan_punct_def)
  qed
  ultimately show ?thesis using taken_prefix [of t s ok env] assms(3) take_is_prefix [of n s] t
    by (metis empty_iff insert_iff list.sel(1))
qed

lemma lexeme_taken:
  assumes "scan_item s = Lexeme n t" "s \<noteq> []"
  shows "taken ok env s n t"
proof (cases s rule: scan_item_cases)
  case 4
  then show ?thesis using assms by (cases "block_comment (drop 2 s)") simp_all
next
  case 5
  have sp: "\<not> lx_space (hd s)" using 5(1) char_class_facts by auto
  have "take_number s \<notin> {''__LINE__'', ''__FILE__'', ''__COUNTER__''}"
  proof -
    have "take_number s \<noteq> []" using 5 assms take_number_pos by blast
    then have "hd (take_number s) = hd s" using take_number_prefix [of s] by (metis hd_append2 prefix_def)
    moreover have "hd s \<noteq> CHR ''_''" using 5(1) by (auto simp: is_digit_def in_range_def)
    ultimately show ?thesis by auto
  qed
  moreover have "good_text (take_number s)" using good_number 5 assms by blast
  moreover have "take_number s \<noteq> []" using 5 assms take_number_pos by blast
  ultimately show ?thesis using taken_prefix [of "take_number s" s ok env] take_number_prefix sp 5 assms by simp
next
  case 2 then show ?thesis using scan_hash_taken assms by simp
next
  case 6 then show ?thesis using scan_word_taken assms by simp
next
  case 7 then show ?thesis using scan_literal_taken assms by simp
next
  case 8 then show ?thesis using scan_punct_taken assms by simp
qed (use assms in simp_all)

lemma good_dec: "good_text (dec_of_nat k)"
proof -
  let ?d = "dec_of_nat k"
  have dig: "\<forall>c\<in>set ?d. is_digit c"
    using dec_of_nat_digits by (auto simp: is_dec_digit_def is_digit_def in_range_def)
  have ne: "?d \<noteq> []" by simp
  have "take_number ?d = ?d"
  proof -
    have "\<not> is_hex ?d"
    proof
      assume "is_hex ?d"
      then obtain c x r where "?d = c # x # r" "x = CHR ''x'' \<or> x = CHR ''X''" by (auto simp: is_hex_def split: list.splits)
      then show False using dig by (auto simp: is_digit_def in_range_def)
    qed
    then have "take_number ?d = number_of False ?d" by (simp add: take_number_of)
    also have "\<dots> = ?d"
      using takeWhile_eq_all_conv [of is_digit ?d, THEN iffD2, OF dig]
      by (simp add: number_of_def then_take_def digits_of_def tail_of_def opt_part_def opt_char_def take_suffix_def
          del: takeWhile_eq_all_conv)
    finally show ?thesis .
  qed
  moreover have "is_digit (hd ?d)" using dig by (metis hd_in_set ne)
  ultimately show ?thesis using good_number [of ?d] by simp
qed

lemma good_dec_int: "0 \<le> i \<Longrightarrow> good_text (dec_of_int i)"
  by (simp add: dec_of_int_def good_dec)

lemma take_quoted_quote_chars:
  "take_quoted CHR 0x22 (concat (map quote_char s) @ [CHR 0x22]) = Some (concat (map quote_char s) @ [CHR 0x22])"
  by (induction s) (auto simp: quote_char_def)

lemma good_quote_text: "good_text (quote_text s)"
  unfolding quote_text_def using good_quoted [OF _ take_quoted_quote_chars] by simp

text \<open>The token a word becomes when there are no macros.\<close>

definition plain_word :: "lex_env \<Rightarrow> int \<Rightarrow> string \<Rightarrow> string \<times> int" where
  "plain_word env cnt w = (case special_word env cnt w of Some r \<Rightarrow> r | None \<Rightarrow> (w, cnt))"

lemma expand_word_plain:
  "expand_word sub Map.empty active env p w s cnt =
   Inr ([mk_token (fst (plain_word env cnt w)) p], 0, snd (plain_word env cnt w))"
  by (auto simp: expand_word_def plain_word_def split: option.split)

lemma plain_word_counter: "0 \<le> cnt \<Longrightarrow> 0 \<le> snd (plain_word env cnt w)"
  by (auto simp: plain_word_def special_word_def split: option.split)

lemma word_taken:
  assumes "scan_item s = Word n w" "s \<noteq> []"
  shows "taken (0 \<le> le_line env \<and> 0 \<le> cnt) env s n (fst (plain_word env cnt w))"
proof -
  have a: "is_alpha (hd s) \<and> scan_word s = Word n w"
  proof (cases s rule: scan_item_cases)
    case 4
    then show ?thesis using assms(1) by (cases "block_comment (drop 2 s)") simp_all
  qed (use assms(1) in \<open>simp_all add: scan_shapes scan_shapes [symmetric]\<close>)
  then have w: "w = takeWhile is_alnum s" "n = length w"
    by (auto simp: scan_word_def Let_def scan_shapes split: if_splits option.splits)
  have ne: "w \<noteq> []" using w(1) a assms(2) by (cases s) (simp_all add: is_alnum_def)
  have tk: "take n s = w" using w take_length_takeWhile by simp
  have sp: "\<not> lx_space (hd s)" using a char_class_facts by blast
  have le: "n \<le> length s" using w length_takeWhile_le by simp
  show ?thesis
  proof (cases "w = ''__LINE__'' \<or> w = ''__FILE__'' \<or> w = ''__COUNTER__''")
    case True
    then show ?thesis using ne tk sp le w(2)
      by (auto simp: taken_def stands_for_def plain_word_def special_word_def good_dec_int good_quote_text)
  next
    case False
    then have "good_text w" using good_word a assms(2) by blast
    then show ?thesis using False ne tk sp le w(2)
      by (auto simp: taken_def stands_for_def plain_word_def special_word_def)
  qed
qed

subsection \<open>Lexing without macros\<close>

text \<open>A token taken at the start of the remaining text, before the tokens of the rest.\<close>

lemma tiles_first:
  assumes "taken ok env s n t" "tiles env (advance p (take n s)) (drop n s) ts"
  shows "tiles env p s (mk_token t p # ts)"
proof -
  have "take n s \<noteq> []" "hd (take n s) = hd s" using assms(1) by (cases s; cases n; simp add: taken_def)+
  then have "tiles env p ([] @ take n s @ drop n s) (mk_token t (advance p []) # ts)"
    using assms by (intro tiles_token) (simp_all add: gap_nil taken_def)
  then show ?thesis by simp
qed

lemma tiles_ne: "tiles env p s ts \<Longrightarrow> ts \<noteq> []"
  by (induction rule: tiles.induct) auto

lemma lex_loop_plain:
  assumes "lex_loop sub ms active env s p cnt = Inr (ts, cnt')" "ms = Map.empty"
  shows "tiles env p s ts \<and> tk_text (last ts) = ''EOF'' \<and>
    (0 \<le> le_line env \<and> 0 \<le> cnt \<longrightarrow> (\<forall>t\<in>set (butlast ts). tk_text t = ''#'' \<or> good_text (tk_text t)))"
  using assms
proof (induction sub ms active env s p cnt arbitrary: ts cnt' rule: lex_loop.induct)
  case (1 sub ms active env s p cnt)
  show ?case
  proof (cases "s = []")
    case True
    then have "ts = [mk_token ''EOF'' p]" using 1(5) by (simp add: lex_loop.simps [of _ _ _ _ "[]"])
    then show ?thesis using True tiles_end [OF gap_nil, of env p] by (simp add: mk_token_def)
  next
    case ne: False
    note run = 1(5) [unfolded lex_loop.simps [of sub ms active env s p cnt]]
    show ?thesis
    proof (cases "scan_item s")
      case (Blank n)
      from 1(1) [OF ne Blank _ 1(6)] have ih: "lex_loop sub ms active env (drop n s) (advance p (take n s)) cnt = Inr (ts, cnt') \<Longrightarrow> ?thesis"
        using tiles_skip [of env p "take n s" "drop n s" ts] scan_blank [OF ne Blank] by simp
      then show ?thesis using run Blank ne by simp
    next
      case (Marker n ln)
      let ?q = "if ln > 0 then (c_int_of ln, 1) else advance p (take n s)"
      have r: "lex_loop sub ms active env (drop n s) ?q cnt = Inr (ts, cnt')" using run Marker ne by simp
      from 1(2) [OF ne Marker r 1(6)] show ?thesis
        using tiles_marker [OF gap_nil, of "take n s" "drop n s" ln env p ts] scan_marker [OF ne Marker]
        by (cases "0 < ln") simp_all
    next
      case (Lexeme n t)
      from run Lexeme ne obtain us where us: "ts = mk_token t p # us"
        "lex_loop sub ms active env (drop n s) (advance p (take n s)) cnt = Inr (us, cnt')"
        by (auto simp: bnd_Inr_iff)
      from lexeme_taken [OF Lexeme ne] have tk: "\<And>ok. taken ok env s n t" .
      from 1(4) [OF ne Lexeme us(2) 1(6)] tiles_first [OF tk] tk [of True] us(1)
      show ?thesis by (auto simp: taken_def mk_token_def dest: tiles_ne)
    next
      case (Word n w)
      let ?t = "fst (plain_word env cnt w)" and ?cnt = "snd (plain_word env cnt w)"
      have e: "expand_word sub ms active env p w (drop n s) cnt = Inr ([mk_token ?t p], 0, ?cnt)"
        using 1(6) by (simp add: expand_word_plain)
      from run Word ne e obtain us where us: "ts = mk_token ?t p # us"
        "lex_loop sub ms active env (drop (n + 0) s) (advance p (take (n + 0) s)) ?cnt = Inr (us, cnt')"
        by (auto simp: bnd_Inr_iff)
      from word_taken [OF Word ne] have tk: "taken (0 \<le> le_line env \<and> 0 \<le> cnt) env s n ?t" .
      from 1(3) [OF ne Word e refl refl us(2) 1(6)] tiles_first [OF tk] tk plain_word_counter [of cnt env w] us(1)
      show ?thesis by (auto simp: taken_def mk_token_def dest: tiles_ne)
    next
      case (Bad msg)
      then show ?thesis using run ne by simp
    qed
  qed
qed

text \<open>
  C6: a translation unit lexed without macros is tiled by its tokens: the source is white space,
  comments, line markers and the tokens' own texts in order, each token carries the line and column of
  its first character (counted from the last line marker), and the list ends with the end-of-file
  token at the position after the last character.
\<close>

theorem lex_raw_tiles:
  assumes "lex_raw env s cnt = Inr (ts, cnt')"
  shows "tiles env (1, 1) s ts"
  using assms lex_loop_plain by (simp add: lex_raw_def)

lemma lex_raw_tiles_witness:
  "tiles \<lparr>le_line = 4, le_file = ''a.c''\<rparr> (1, 1) ''x=1;''
     [mk_token ''x'' (1, 1), mk_token ''='' (1, 2), mk_token ''1'' (1, 3), mk_token '';'' (1, 4), mk_token ''EOF'' (1, 5)]"
  by (rule lex_raw_tiles [where cnt = 0 and cnt' = 0]) code_simp

text \<open>
  Tokens of good texts joined by single spaces lex back to the same texts.
\<close>

lemma lex_loop_join:
  assumes "\<forall>t\<in>set ts. good_text t"
  shows "\<exists>us. lex_loop sub Map.empty active env (join_texts ts) p cnt = Inr (us, cnt) \<and> map tk_text us = ts @ [''EOF'']"
  using assms
proof (induction ts arbitrary: p)
  case Nil
  show ?case by (simp add: lex_loop.simps [of _ _ _ _ "[]"] join_texts_def mk_token_def)
next
  case (Cons t ts)
  have g: "good_text t" using Cons.prems by simp
  let ?s = "t @ CHR '' '' # join_texts ts"
  let ?q = "advance p t"
  have join: "join_texts (t # ts) = ?s" by (simp add: join_texts_def)
  have ne: "?s \<noteq> []" by simp
  have blank: "lex_loop sub Map.empty active env (CHR '' '' # join_texts ts) q cnt =
      lex_loop sub Map.empty active env (join_texts ts) (advance q '' '') cnt" for q
    by (simp add: lex_loop.simps [of _ _ _ _ "CHR '' '' # join_texts ts"] scan_item_def lx_space_def)
  obtain us where us: "lex_loop sub Map.empty active env (CHR '' '' # join_texts ts) ?q cnt = Inr (us, cnt)"
    "map tk_text us = ts @ [''EOF'']"
    using Cons.IH [of "advance ?q '' ''"] Cons.prems blank [of ?q] by auto
  have "lex_loop sub Map.empty active env ?s p cnt = Inr (mk_token t p # us, cnt)"
  proof (cases "scan_item ?s = Lexeme (length t) t")
    case True
    then show ?thesis using us ne by (simp add: lex_loop.simps [of _ _ _ _ ?s])
  next
    case False
    then have w: "scan_item ?s = Word (length t) t" "special_word env cnt t = None"
      using g by (auto simp: good_text_def special_word_def)
    then show ?thesis using us ne by (simp add: lex_loop.simps [of _ _ _ _ ?s] expand_word_def)
  qed
  then show ?case using us(2) unfolding join by (simp add: mk_token_def)
qed

text \<open>
  the token texts of a unit lexed without macros (stray \<open>#\<close> tokens apart) survive the round
  trip the macro engine makes: joined by single spaces and lexed again, in any environment, they come
  back unchanged.  A nonnegative current line and counter keep the predefined words single tokens.
\<close>

lemma lex_join_roundtrip:
  assumes "lex_raw env s cnt = Inr (ts, cnt')" "0 \<le> le_line env" "0 \<le> cnt"
    and "\<forall>t\<in>set ts. tk_text t \<noteq> ''#''"
  shows "\<exists>us. lex_raw env' (join_texts (map tk_text (butlast ts))) cnt2 = Inr (us, cnt2) \<and> map tk_text us = map tk_text ts"
proof -
  from assms(1) have l: "tiles env (1, 1) s ts" "tk_text (last ts) = ''EOF''" "\<forall>t\<in>set (butlast ts). tk_text t = ''#'' \<or> good_text (tk_text t)"
    using lex_loop_plain assms(2,3) unfolding lex_raw_def by blast+
  have ne: "ts \<noteq> []" using l(1) tiles_ne by blast
  have "\<forall>t\<in>set (map tk_text (butlast ts)). good_text t" using l(3) assms(4) by (auto dest: in_set_butlastD)
  moreover have "map tk_text (butlast ts) @ [''EOF''] = map tk_text ts"
    using ne l(2) by (metis append_butlast_last_id list.simps(8,9) map_append)
  ultimately show ?thesis using lex_loop_join unfolding lex_raw_def by metis
qed

lemma lex_join_roundtrip_witness:
  "\<exists>us. lex_raw \<lparr>le_line = 9, le_file = ''b.c''\<rparr> ''x = 4 ; '' 7 = Inr (us, 7) \<and> map tk_text us = [''x'', ''='', ''4'', '';'', ''EOF'']"
proof -
  have l: "lex_raw \<lparr>le_line = 4, le_file = ''a.c''\<rparr> ''x=__LINE__;'' 0 =
    Inr ([mk_token ''x'' (1, 1), mk_token ''='' (1, 2), mk_token ''4'' (1, 3), mk_token '';'' (1, 11), mk_token ''EOF'' (1, 12)], 0)"
    by code_simp
  show ?thesis
    using lex_join_roundtrip [OF l, of "\<lparr>le_line = 9, le_file = ''b.c''\<rparr>" 7] by (simp add: mk_token_def join_texts_def)
qed

text \<open>
  a block comment opened by the last two characters of the source is accepted without the
  diagnostic that every longer unterminated comment gets.
\<close>

lemma lex_open_comment_accepted:
  "lex_raw env ''/*'' cnt = Inr ([mk_token ''EOF'' (1, 3)], cnt) \<and>
   lex_raw env ''/* '' cnt = Inl (Lex_Error 1 1 ''unterminated block comment'')"
proof -
  have i: "scan_item ''/*'' = Blank 2" "scan_item ''/* '' = Bad ''unterminated block comment''" by code_simp+
  have e: "lex_loop sub Map.empty [] env [] p cnt = Inr ([mk_token ''EOF'' p], cnt)" for sub p
    by (subst lex_loop.simps) simp
  have "lex_loop sub Map.empty [] env ''/*'' (1, 1) cnt = Inr ([mk_token ''EOF'' (1, 3)], cnt)" for sub
    by (subst lex_loop.simps) (simp add: i e)
  moreover have "lex_loop sub Map.empty [] env ''/* '' (1, 1) cnt = Inl (Lex_Error 1 1 ''unterminated block comment'')" for sub
    by (subst lex_loop.simps) (simp add: i)
  ultimately show ?thesis by (simp add: lex_raw_def)
qed

end
