(* ===== verification/Lexer_Fuel.thy ===== *)
theory Lexer_Fuel
  imports Lexer_Props
begin

text \<open>
  The macro engine of \<^verbatim>\<open>lex\<close> returns on every input.  The fuel of \<open>lex_macros\<close> bounds the depth of
  nested calls; a nested call either gets one more active macro (a rescan) or a shorter text (an
  argument), so some depth is enough, and beyond it the result no longer depends on the fuel.
\<close>

subsection \<open>Results that settle\<close>

definition settles :: "(nat \<Rightarrow> lex_error + 'a) \<Rightarrow> bool" where
  "settles f \<longleftrightarrow> (\<exists>r. r \<noteq> Inl Lex_Fuel \<and> (\<exists>n. \<forall>m\<ge>n. f m = r))"

lemma settles_const [intro]: "r \<noteq> Inl Lex_Fuel \<Longrightarrow> settles (\<lambda>_. r)"
  by (auto simp: settles_def)

lemma settlesE:
  assumes "settles f" obtains r n where "r \<noteq> Inl Lex_Fuel" "\<And>m. n \<le> m \<Longrightarrow> f m = r"
  using assms by (auto simp: settles_def)

lemma settles_later:
  assumes "\<And>m. n \<le> m \<Longrightarrow> f m = g m" "settles g" shows "settles f"
proof -
  obtain r k where "r \<noteq> Inl Lex_Fuel" "\<And>m. k \<le> m \<Longrightarrow> g m = r" using settlesE [OF assms(2)] by metis
  then have "\<forall>m\<ge>max n k. f m = r" using assms(1) by simp
  then show ?thesis using \<open>r \<noteq> Inl Lex_Fuel\<close> unfolding settles_def by blast
qed

lemma settles_bnd:
  assumes "settles f" "\<And>x. settles (\<lambda>m. g m x)"
  shows "settles (\<lambda>m. bnd (f m) (g m))"
proof -
  obtain r n where r: "r \<noteq> Inl Lex_Fuel" "\<And>m. n \<le> m \<Longrightarrow> f m = r" using settlesE [OF assms(1)] by metis
  show ?thesis
  proof (cases r)
    case (Inl e)
    then have "bnd (f m) (g m) = Inl e" if "n \<le> m" for m using r(2) [OF that] by simp
    then show ?thesis by (rule settles_later [of n _ "\<lambda>_. Inl e"]) (use r(1) Inl in auto)
  next
    case (Inr x)
    then have "bnd (f m) (g m) = g m x" if "n \<le> m" for m using r(2) [OF that] by simp
    then show ?thesis by (rule settles_later [of n, OF _ assms(2) [of x]])
  qed
qed

lemma settles_bnd_Inr: "settles f \<Longrightarrow> settles (\<lambda>m. bnd (f m) (\<lambda>x. Inr (h x)))"
  by (rule settles_bnd) auto

subsection \<open>Arguments weigh less than their invocation\<close>

text \<open>Joining the arguments of a variadic macro adds blanks, so the measure counts the others.\<close>

definition weight :: "string \<Rightarrow> nat" where
  "weight s = length (filter (\<lambda>c. \<not> lx_space c) s)"

lemma weight_simps [simp]:
  "weight [] = 0" "weight (c # s) = (if lx_space c then 0 else 1) + weight s" "weight (s @ t) = weight s + weight t"
  by (simp_all add: weight_def)

lemma weight_take_drop: "weight (take n s) + weight (drop n s) = weight s"
  by (metis append_take_drop_id weight_simps(3))

lemma weight_drop: "weight (drop n s) \<le> weight s"
  using weight_take_drop [of n s] by simp

lemma weight_dropWhile: "weight (dropWhile P s) \<le> weight s"
  by (metis dropWhile_eq_drop weight_drop)

lemma weight_rev [simp]: "weight (rev s) = weight s"
  by (simp add: weight_def rev_filter [symmetric])

lemma weight_trim: "weight (trim s) \<le> weight s"
  unfolding trim_def using weight_dropWhile [of lx_space "rev (dropWhile lx_space s)"] weight_dropWhile [of lx_space s] by simp

definition args_weight :: "string list \<Rightarrow> nat" where
  "args_weight as = sum_list (map (\<lambda>a. weight a + 1) as)"

lemma args_weight_simps [simp]: "args_weight [] = 0" "args_weight (a # as) = weight a + 1 + args_weight as"
  by (simp_all add: args_weight_def)

lemma punct_not_space: "\<not> lx_space CHR ''(''" "\<not> lx_space CHR '')''" "\<not> lx_space CHR '',''"
  by (simp_all add: lx_space_def)

lemma collect_args_weight: "args_weight (fst (collect_args depth cur s)) \<le> weight cur + weight s"
proof (induction depth cur s rule: collect_args.induct)
  case (2 depth cur c cs)
  define t where "t = (case take_quoted c cs of None \<Rightarrow> cs | Some t \<Rightarrow> t)"
  have "prefix t cs" using take_quoted_prefix by (auto simp: t_def split: option.split)
  then have tq: "weight t + weight (drop (length t) cs) = weight cs"
    by (metis append_eq_conv_conj prefix_def weight_simps(3))
  note ih = 2(1-3) 2(4) [OF _ _ _ _ t_def] 2(5)
  consider "c = CHR ''(''" | "c = CHR '')''" "depth = 0" | "c = CHR '')''" "depth \<noteq> 0" | "c = CHR '',''" "depth = 0"
    | "c \<noteq> CHR ''(''" "c \<noteq> CHR '')''" "\<not> (c = CHR '','' \<and> depth = 0)" "c = CHR 0x22 \<or> c = CHR 0x27"
    | "c \<noteq> CHR ''(''" "c \<noteq> CHR '')''" "\<not> (c = CHR '','' \<and> depth = 0)" "\<not> (c = CHR 0x22 \<or> c = CHR 0x27)" by blast
  then show ?case
  proof cases
    case 5
    then have nc: "c \<noteq> CHR '',''" by auto
    have "collect_args depth cur (c # cs) =
      (let (as, n) = collect_args depth (cur @ c # t) (drop (length t) cs) in (as, n + 1 + length t))"
      using 5(1,2,4) nc by (simp add: t_def Let_def)
    then show ?thesis using ih(4) [OF 5] tq by (simp add: Let_def split_beta)
  next
    case 6
    then have "\<not> (c = CHR '','' \<and> depth = 0)" "(if c = CHR '','' \<and> depth = 0 then a else b) = b" for a b :: nat by auto
    then show ?thesis using 6 ih(5) [OF 6] by (cases "c = CHR '',''") (simp_all add: Let_def split_beta punct_not_space)
  qed (use ih in \<open>simp_all add: Let_def split_beta punct_not_space\<close>)
qed simp

lemma args_weight_trim: "args_weight (map trim as) \<le> args_weight as"
  by (induction as) (auto intro: add_mono weight_trim)

lemma va_text_weight: "weight (va_text p as) \<le> args_weight as"
proof (induction as arbitrary: p)
  case Nil show ?case by (simp add: va_text_def)
next
  case (Cons a as)
  have "weight (concat (map ((@) '', '') bs)) \<le> args_weight bs" for bs
    by (induction bs) (auto simp: lx_space_def)
  from this [of as] show ?case using Cons.IH [of "p - 1"] by (cases p) (auto simp: va_text_def)
qed

lemma arg_text_weight: "weight (arg_text p as) \<le> args_weight as"
proof (induction as arbitrary: p)
  case (Cons a as)
  show ?case using Cons.IH [of "p - 1"] by (cases p) (auto simp: arg_text_def split: if_splits)
qed (simp add: arg_text_def)

lemma param_text_weight: "param_text m args t = Some a \<Longrightarrow> weight a \<le> args_weight args"
  using va_text_weight arg_text_weight by (auto simp: param_text_def split: option.splits)

subsection \<open>The engine\<close>

lemma lex_loop_not_fuel: "ms = Map.empty \<Longrightarrow> lex_loop sub ms active env s p cnt \<noteq> Inl Lex_Fuel"
proof (induction sub ms active env s p cnt rule: lex_loop.induct)
  case (1 sub ms active env s p cnt)
  show ?case
    using 1 by (subst lex_loop.simps) (auto split: item.split simp: expand_word_plain bnd_def split: sum.split)
qed

lemma lex_raw_not_fuel: "lex_raw env s cnt \<noteq> Inl Lex_Fuel"
  by (simp add: lex_raw_def lex_loop_not_fuel)

lemma settles_expand_body:
  assumes raw: "\<And>a cnt. settles (\<lambda>m. sub m None a cnt)"
    and arg: "\<And>a cnt. weight a \<le> args_weight args \<Longrightarrow> settles (\<lambda>m. sub m (Some active) a cnt)"
  shows "settles (\<lambda>m. expand_body (sub m) active mac args prev ts cnt)"
proof (induction "length ts" arbitrary: prev ts cnt rule: less_induct)
  case less
  show ?case
  proof (cases ts)
    case Nil
    then show ?thesis by auto
  next
    case (Cons t us)
    have rest: "settles (\<lambda>m. expand_body (sub m) active mac args p us c)" for p c
      using less Cons by simp
    have rest2: "settles (\<lambda>m. expand_body (sub m) active mac args p (tl us) c)" for p c
      using less Cons by simp
    consider "t = ''EOF''"
      | "t \<noteq> ''EOF''" "t = ''#'' \<and> us \<noteq> [] \<and> hd us \<noteq> ''EOF'' \<and> stringize_text mac args (hd us) \<noteq> None"
      | "t \<noteq> ''EOF''" "\<not> (t = ''#'' \<and> us \<noteq> [] \<and> hd us \<noteq> ''EOF'' \<and> stringize_text mac args (hd us) \<noteq> None)" by blast
    then show ?thesis
    proof cases
      case 1
      show ?thesis unfolding Cons expand_body.simps(2) if_P [OF 1] by (rule rest)
    next
      case 2
      show ?thesis unfolding Cons expand_body.simps(2) if_not_P [OF 2(1)] if_P [OF 2(2)] 
        by (rule settles_bnd [OF rest2]) auto
    next
      case 3
      show ?thesis
      proof (cases "param_text mac args t")
        case None
        show ?thesis unfolding Cons expand_body.simps(2) if_not_P [OF 3(1)] if_not_P [OF 3(2)] None option.simps
          by (rule settles_bnd [OF rest]) auto
      next
        case (Some a)
        have arg': "settles (\<lambda>m. sub m (if b then None else Some active) a cnt)" for b
          using raw arg [OF param_text_weight [OF Some]] by (cases b) auto
        have "settles (\<lambda>m. if a = [] then Inr ([[]], cnt)
           else bnd (sub m (if paste_operand prev us then None else Some active) a cnt)
             (\<lambda>(us, cnt'). Inr (map tk_text (no_eof us), cnt')))"
        proof (cases "a = []")
          case False
          show ?thesis unfolding if_not_P [OF False] by (rule settles_bnd [OF arg']) auto
        qed auto
        then show ?thesis
          unfolding Cons expand_body.simps(2) if_not_P [OF 3(1)] if_not_P [OF 3(2)] Some option.simps
          by (rule settles_bnd) (auto intro!: settles_bnd rest)
      qed
    qed
  qed
qed

lemma settles_rescan:
  assumes "\<And>a cnt. settles (\<lambda>m. sub m (Some active) a cnt)"
  shows "settles (\<lambda>m. rescan (sub m) active p ts cnt)"
  unfolding rescan_def by (rule settles_bnd [OF assms]) auto

text \<open>A word expands, given that rescans and arguments within the rest of the text do.\<close>

lemma settles_expand_word:
  assumes raw: "\<And>a cnt. settles (\<lambda>m. sub m None a cnt)"
    and arg: "\<And>a cnt. weight a \<le> weight s \<Longrightarrow> settles (\<lambda>m. sub m (Some active) a cnt)"
    and scan: "\<And>w a cnt. w \<notin> set active \<Longrightarrow> ms w \<noteq> None \<Longrightarrow> settles (\<lambda>m. sub m (Some (active @ [w])) a cnt)"
  shows "settles (\<lambda>m. expand_word (sub m) ms active env p w s cnt)"
proof (cases "special_word env cnt w")
  case (Some r)
  then show ?thesis by (cases r) (auto simp: expand_word_def)
next
  case None
  show ?thesis
  proof (cases "if w \<in> set active then None else ms w")
    case no: None
    then show ?thesis using None by (auto simp: expand_word_def)
  next
    case (Some mac)
    then have w: "w \<notin> set active" "ms w \<noteq> None" by (auto split: if_splits)
    have rs: "settles (\<lambda>m. rescan (sub m) (active @ [w]) p ts c)" for ts c
      by (rule settles_rescan) (rule scan [OF w])
    show ?thesis
    proof (cases "m_function_like mac")
      case False
      show ?thesis unfolding expand_word_def None Some option.simps if_P [OF False]
        by (rule settles_bnd [OF raw]) (auto intro!: settles_bnd rs)
    next
      case True
      then have nf: "\<not> \<not> m_function_like mac" by simp
      define t where "t = drop (length (takeWhile lx_space s)) s"
      show ?thesis
      proof (cases "t = [] \<or> hd t \<noteq> CHR ''(''")
        case True
        then show ?thesis unfolding expand_word_def None Some option.simps if_not_P [OF nf] Let_def t_def [symmetric]
          by (simp add: settles_const)
      next
        case False
        obtain as n where as: "collect_args 0 [] (tl t) = (as, n)" by fastforce
        have "args_weight (map trim as) \<le> weight (tl t)"
          using collect_args_weight [of 0 "[]" "tl t"] args_weight_trim [of as] as by simp
        also have "\<dots> \<le> weight t" by (cases t) auto
        also have "\<dots> \<le> weight s" unfolding t_def by (rule weight_drop)
        finally have le: "args_weight (map trim as) \<le> weight s" .
        have body: "settles (\<lambda>m. expand_body (sub m) active mac (map trim as) prev ts c)" for prev ts c
          by (rule settles_expand_body [OF raw arg]) (use le in auto)
        show ?thesis
          unfolding expand_word_def None Some option.simps if_not_P [OF nf] Let_def t_def [symmetric] if_not_P [OF False] as prod.case
          by (rule settles_bnd [OF raw]) (auto intro!: settles_bnd rs body)
      qed
    qed
  qed
qed

lemma scan_word_weight:
  assumes "scan_item s = Word n w" "s \<noteq> []"
  shows "weight (drop n s) < weight s"
proof -
  have t: "0 < n" "\<not> lx_space (hd s)" using word_taken [OF assms] by (auto simp: taken_def)
  obtain c r where s: "s = c # r" using assms(2) by (cases s) auto
  have "weight (drop n s) \<le> weight r" using t(1) s weight_drop by (cases n) auto
  then show ?thesis using s t(2) by simp
qed

lemma settles_lex_loop:
  assumes raw: "\<And>a cnt. settles (\<lambda>m. sub m None a cnt)"
    and arg: "\<And>a cnt. weight a < weight s \<Longrightarrow> settles (\<lambda>m. sub m (Some active) a cnt)"
    and scan: "\<And>w a cnt. w \<notin> set active \<Longrightarrow> ms w \<noteq> None \<Longrightarrow> settles (\<lambda>m. sub m (Some (active @ [w])) a cnt)"
  shows "settles (\<lambda>m. lex_loop (sub m) ms active env s p cnt)"
  using arg
proof (induction "length s" arbitrary: s p cnt rule: less_induct)
  case less
  show ?case
  proof (cases "s = []")
    case True
    then show ?thesis by (subst lex_loop.simps) auto
  next
    case ne: False
    have rest: "settles (\<lambda>m. lex_loop (sub m) ms active env (drop n s) q c)" if "0 < n" for n q c
      by (rule less.hyps) (use that ne less.prems order.strict_trans2 [OF _ weight_drop] in auto)
    show ?thesis
    proof (cases "scan_item s")
      case (Blank n)
      show ?thesis 
        by (subst lex_loop.simps) (simp only: ne Blank if_False item.simps rest scan_item_pos(1) [OF ne Blank])
    next
      case (Marker n ln)
      show ?thesis 
        by (subst lex_loop.simps) (simp only: ne Marker if_False item.simps rest scan_item_pos(2) [OF ne Marker])
    next
      case (Lexeme n t)
      show ?thesis 
        by (subst lex_loop.simps, simp only: ne Lexeme if_False item.simps, rule settles_bnd)
          (auto intro!: rest scan_item_pos(4) [OF ne Lexeme])
    next
      case (Bad msg)
      show ?thesis by (subst lex_loop.simps) (auto simp: ne Bad)
    next
      case (Word n w)
      have "settles (\<lambda>m. expand_word (sub m) ms active env p w (drop n s) cnt)"
        by (rule settles_expand_word [OF raw _ scan])
          (use less.prems scan_word_weight [OF Word ne] in auto)
      then show ?thesis
        by (subst lex_loop.simps, simp only: ne Word if_False item.simps, rule settles_bnd)
          (auto intro!: settles_bnd rest add_pos_nonneg scan_item_pos(3) [OF ne Word])
    qed
  qed
qed

lemma settles_Suc: "settles (\<lambda>m. f (Suc m)) \<Longrightarrow> settles f"
proof (erule settlesE)
  fix r n assume r: "r \<noteq> Inl Lex_Fuel" "\<And>m. n \<le> m \<Longrightarrow> f (Suc m) = r"
  have "f m = r" if "Suc n \<le> m" for m using r(2) [of "m - 1"] that by (cases m) auto
  then show "settles f" using r(1) unfolding settles_def by blast
qed

lemma settles_lex_macros:
  assumes "finite (dom ms)"
  shows "settles (\<lambda>m. lex_macros m ms env (Some active) s cnt)"
proof (induction "(card (dom ms - set active), weight s)" arbitrary: active s cnt
    rule: wf_induct_rule [OF wf_lex_prod [OF wf_less_than wf_less_than]])
  case 1
  have raw: "settles (\<lambda>m. lex_macros m ms env None a c)" for a c
    by (simp add: settles_const lex_raw_not_fuel)
  have "settles (\<lambda>m. lex_loop (lex_macros m ms env) ms active env s (1, 1) cnt)"
  proof (rule settles_lex_loop)
    show "settles (\<lambda>m. lex_macros m ms env None a c)" for a c by (rule raw)
  next
    fix a c assume "weight a < weight s"
    then show "settles (\<lambda>m. lex_macros m ms env (Some active) a c)" by (intro 1) simp
  next
    fix w a c assume w: "w \<notin> set active" "ms w \<noteq> None"
    have "dom ms - set (active @ [w]) \<subset> dom ms - set active" using w by auto
    then have "card (dom ms - set (active @ [w])) < card (dom ms - set active)"
      using assms by (intro psubset_card_mono) auto
    then show "settles (\<lambda>m. lex_macros m ms env (Some (active @ [w])) a c)" by (intro 1) simp
  qed
  then show ?case using settles_Suc [of "\<lambda>m. lex_macros m ms env (Some active) s cnt"] by simp
qed

text \<open>
  C2: lexing with any finite macro table, recursive definitions included, returns: for some nesting
  depth the lexer yields tokens or a diagnostic (never the exhausted fuel), and every larger depth
  gives that same result.
\<close>

theorem lex_macros_total:
  assumes "finite (dom ms)"
  shows "\<exists>r n. r \<noteq> Inl Lex_Fuel \<and> (\<forall>m\<ge>n. lex_macros m ms env (Some active) s cnt = r)"
  using settles_lex_macros [OF assms] by (simp add: settles_def)

lemma lex_macros_total_witness:
  "\<exists>r n. r \<noteq> Inl Lex_Fuel \<and> (\<forall>m\<ge>n. lex_macros m [''f'' \<mapsto> \<lparr>m_function_like = True, m_params = [''x''], m_body = ''f(x) f''\<rparr>]
     \<lparr>le_line = 1, le_file = ''a.c''\<rparr> (Some []) ''f(f(1))'' 0 = r)"
  by (rule lex_macros_total) simp

end
