(* ===== verification/Pp_Expr.thy ===== *)
theory Pp_Expr
  imports Lexer "HOL-Library.Signed_Division"
begin

text \<open>
  The expressions of \<^verbatim>\<open>#if\<close> and \<^verbatim>\<open>#elif\<close> (\<^verbatim>\<open>src/src/preprocessor.c\<close>): the split of the text into tokens
  (\<^verbatim>\<open>get_expr_tokens\<close>), the recursive-descent evaluator over them (\<^verbatim>\<open>ep_primary\<close> up to \<^verbatim>\<open>ep_eval_or\<close>) and
  \<^verbatim>\<open>eval_preproc_expr\<close>, which replaces \<^verbatim>\<open>defined\<close>, expands the macros with \<^verbatim>\<open>lex\<close> and turns the
  remaining names into numbers.

  Values are C \<open>long\<close>s, integers between \<open>-2 ^ 63\<close> and \<open>2 ^ 63 - 1\<close>; arithmetic that C leaves
  undefined (overflow, shifts by or of negative amounts) is \<open>C_Undefined\<close>.  The position of \<^verbatim>\<open>ExprParser\<close>
  is the list of remaining tokens.
\<close>

unbundle bit_operations_syntax

subsection \<open>Tokens\<close>

definition take_char_const :: "string \<Rightarrow> string" where
  "take_char_const s =
     (let a = (if tl s \<noteq> [] \<and> hd (tl s) = CHR 0x5C then 2 else 1);
          b = (if a < length s then a + 1 else a);
          c = (if b < length s \<and> s ! b = CHR 0x27 then b + 1 else b)
      in take c s)"

definition take_int_const :: "string \<Rightarrow> string" where
  "take_int_const s =
     (let d = takeWhile is_digit s
      in d @ takeWhile (\<lambda>c. c \<in> {CHR ''u'', CHR ''U'', CHR ''l'', CHR ''L''}) (drop (length d) s))"

definition take_hex_const :: "string \<Rightarrow> string" where
  "take_hex_const s = take 2 s @ takeWhile is_alnum (drop 2 s)"

definition starts_hex :: "string \<Rightarrow> bool" where
  "starts_hex s \<longleftrightarrow> take 2 s = ''0x'' \<or> take 2 s = ''0X''"

definition expr_ops2 :: "string list" where
  "expr_ops2 = [''=='', ''!='', ''<='', ''>='', ''&&'', ''||'', ''<<'', ''>>'']"

text \<open>The token at the head of a text that does not start with a space.\<close>

definition expr_token :: "string \<Rightarrow> string" where
  "expr_token s =
     (if hd s = CHR 0x27 \<and> tl s \<noteq> [] then take_char_const s
      else if starts_hex s then take_hex_const s
      else if is_digit (hd s) then take_int_const s
      else if take 2 s \<in> set expr_ops2 then take 2 s
      else take 1 s)"

lemma expr_token_pos: "s \<noteq> [] \<Longrightarrow> 0 < length (expr_token s)"
  by (cases s) (auto simp: expr_token_def take_char_const_def take_hex_const_def take_int_const_def starts_hex_def expr_ops2_def Let_def)

function get_expr_tokens :: "string \<Rightarrow> string list" where
  "get_expr_tokens s =
     (if s = [] then []
      else if lx_space (hd s) then get_expr_tokens (tl s)
      else expr_token s # get_expr_tokens (drop (length (expr_token s)) s))"
  by pat_completeness auto
termination
  by (relation "measure length") (use expr_token_pos in \<open>auto intro!: diff_less\<close>)

declare get_expr_tokens.simps [simp del]

subsection \<open>The value of a constant\<close>

definition is_odigit :: "char \<Rightarrow> bool" where
  "is_odigit c \<longleftrightarrow> in_range CHR ''0'' CHR ''7'' c"

definition xdigit_val :: "char \<Rightarrow> nat" where
  "xdigit_val c =
     (if is_digit c then of_char c - 48
      else if in_range CHR ''a'' CHR ''f'' c then of_char c - 87 else of_char c - 55)"

definition digits_value :: "nat \<Rightarrow> string \<Rightarrow> int" where
  "digits_value base ds = int (foldl (\<lambda>n c. n * base + xdigit_val c) 0 ds)"

text \<open>\<^verbatim>\<open>strtol(s, nullptr, 0)\<close> on a text that starts with a digit.\<close>

definition strtol0 :: "string \<Rightarrow> int" where
  "strtol0 s = clamp_long
     (if starts_hex s \<and> drop 2 s \<noteq> [] \<and> is_xdigit (hd (drop 2 s)) then digits_value 16 (takeWhile is_xdigit (drop 2 s))
      else if hd s = CHR ''0'' then digits_value 8 (takeWhile is_odigit s)
      else digits_value 10 (takeWhile is_digit s))"

definition drop_suffix :: "string \<Rightarrow> string" where
  "drop_suffix s = rev (dropWhile (\<lambda>c. c \<in> {CHR ''u'', CHR ''U'', CHR ''l'', CHR ''L''}) (rev s))"

definition number_value :: "string \<Rightarrow> int" where
  "number_value t = strtol0 (drop_suffix (take 127 t))"

text \<open>A C string reads as NUL past its end.\<close>

definition char_at :: "string \<Rightarrow> nat \<Rightarrow> char" where
  "char_at s i = (if i < length s then s ! i else CHR 0x00)"

definition char_value :: "string \<Rightarrow> int" where
  "char_value t =
     (let c = char_at t 1; d = char_at t 2 in
      if c = CHR 0x5C \<and> d = CHR ''0'' then 0
      else if c = CHR 0x5C \<and> d = CHR ''n'' then 10
      else if c = CHR 0x5C \<and> d = CHR ''t'' then 9
      else if c = CHR 0x5C \<and> d = CHR 0x5C then 92
      else if c = CHR 0x5C \<and> d = CHR 0x27 then 39
      else of_char c)"

subsection \<open>Operators\<close>

definition c_long :: "int \<Rightarrow> lex_error + int" where
  "c_long v = (if - (2 ^ 63) \<le> v \<and> v < 2 ^ 63 then Inr v else Inl C_Undefined)"

definition c_bool :: "bool \<Rightarrow> int" where
  "c_bool b = (if b then 1 else 0)"

definition apply_op :: "string \<Rightarrow> int \<Rightarrow> int \<Rightarrow> lex_error + int" where
  "apply_op op a b =
     (if op = ''*'' then c_long (a * b)
      else if op = ''/'' then if b = 0 then Inr 0 else c_long (a sdiv b)
      else if op = ''%'' then if b = 0 then Inr 0 else bnd (c_long (a sdiv b)) (\<lambda>_. Inr (a smod b))
      else if op = ''+'' then c_long (a + b)
      else if op = ''-'' then c_long (a - b)
      else if op = ''<<'' then if b < 0 \<or> 63 < b \<or> a < 0 then Inl C_Undefined else c_long (a * 2 ^ nat b)
      else if op = ''>>'' then if b < 0 \<or> 63 < b then Inl C_Undefined else Inr (a div 2 ^ nat b)
      else if op = ''<'' then Inr (c_bool (a < b))
      else if op = ''>'' then Inr (c_bool (a > b))
      else if op = ''<='' then Inr (c_bool (a \<le> b))
      else if op = ''>='' then Inr (c_bool (a \<ge> b))
      else if op = ''=='' then Inr (c_bool (a = b))
      else if op = ''!='' then Inr (c_bool (a \<noteq> b))
      else if op = ''&'' then Inr (a AND b)
      else if op = ''^'' then Inr (a XOR b)
      else if op = ''|'' then Inr (a OR b)
      else if op = ''&&'' then Inr (c_bool (a \<noteq> 0 \<and> b \<noteq> 0))
      else Inr (c_bool (a \<noteq> 0 \<or> b \<noteq> 0)))"

text \<open>The operators of \<^verbatim>\<open>ep_eval_or\<close>, \<^verbatim>\<open>ep_eval_and\<close>, \<^verbatim>\<open>ep_or\<close>, ..., \<^verbatim>\<open>ep_mul\<close>, in this order; level 10 is
  \<^verbatim>\<open>ep_primary\<close>.\<close>

definition level_ops :: "string list list" where
  "level_ops = [[''||''], [''&&''], [''|''], [''^''], [''&''], [''=='', ''!=''], [''<'', ''>'', ''<='', ''>=''],
     [''<<'', ''>>''], [''+'', ''-''], [''*'', ''/'', ''%'']]"

definition ops_at :: "nat \<Rightarrow> string list" where
  "ops_at k = (if k < 10 then level_ops ! k else [])"

definition ep_peek :: "string list \<Rightarrow> string" where
  "ep_peek ts = (case ts of [] \<Rightarrow> [] | t # _ \<Rightarrow> t)"

text \<open>\<open>ep_level n k\<close> is the function of level \<open>k\<close>, \<open>ep_loop n k v\<close> its loop with the value \<open>v\<close> so far;
  \<open>n\<close> bounds the calls and iterations.\<close>

fun ep_level :: "nat \<Rightarrow> nat \<Rightarrow> string list \<Rightarrow> lex_error + int \<times> string list"
  and ep_loop :: "nat \<Rightarrow> nat \<Rightarrow> int \<Rightarrow> string list \<Rightarrow> lex_error + int \<times> string list"
  and ep_primary :: "nat \<Rightarrow> string list \<Rightarrow> lex_error + int \<times> string list" where
  "ep_level 0 k ts = Inl Lex_Fuel"
| "ep_level (Suc n) k ts =
     (if 10 \<le> k then ep_primary n ts
      else bnd (ep_level n (k + 1) ts) (\<lambda>(v, ts'). ep_loop n k v ts'))"
| "ep_loop 0 k v ts = Inl Lex_Fuel"
| "ep_loop (Suc n) k v ts =
     (if ep_peek ts \<in> set (ops_at k) then
        bnd (ep_level n (k + 1) (tl ts)) (\<lambda>(rhs, ts').
        bnd (apply_op (ep_peek ts) v rhs) (\<lambda>v'. ep_loop n k v' ts'))
      else Inr (v, ts))"
| "ep_primary 0 ts = Inl Lex_Fuel"
| "ep_primary (Suc n) ts =
     (let t = ep_peek ts in
      if t = ''('' then bnd (ep_level n 0 (tl ts)) (\<lambda>(v, ts'). Inr (v, tl ts'))
      else if t \<noteq> [] \<and> is_digit (hd t) then Inr (number_value t, tl ts)
      else if t \<noteq> [] \<and> hd t = CHR 0x27 then Inr (char_value t, tl ts)
      else if t = ''!'' then bnd (ep_primary n (tl ts)) (\<lambda>(v, ts'). Inr (c_bool (v = 0), ts'))
      else if t = ''~'' then bnd (ep_primary n (tl ts)) (\<lambda>(v, ts'). Inr (NOT v, ts'))
      else if t = ''-'' then bnd (ep_primary n (tl ts)) (\<lambda>(v, ts'). bnd (c_long (- v)) (\<lambda>w. Inr (w, ts')))
      else if t = ''+'' then ep_primary n (tl ts)
      else Inr (0, ts))"

definition eval_tokens :: "string list \<Rightarrow> lex_error + int" where
  "eval_tokens ts = bnd (ep_level (13 * length ts + 13) 0 ts) (\<lambda>(v, _). Inr v)"

subsection \<open>From the directive's text to its value\<close>

text \<open>The operand of \<^verbatim>\<open>defined\<close> and the characters it takes.\<close>

definition defined_operand :: "string \<Rightarrow> string \<times> string" where
  "defined_operand s =
     (let s1 = dropWhile lx_space s;
          paren = s1 \<noteq> [] \<and> hd s1 = CHR ''('';
          s2 = dropWhile lx_space (if paren then tl s1 else s1);
          name = takeWhile is_alnum s2;
          s3 = dropWhile lx_space (drop (length name) s2)
      in (name, if paren \<and> s3 \<noteq> [] \<and> hd s3 = CHR '')'' then tl s3 else s3))"

lemma length_tl_le: "length (tl s) \<le> length s"
  by (cases s) auto

lemma defined_operand_length: "length (snd (defined_operand s)) \<le> length s"
proof -
  define s1 where "s1 = dropWhile lx_space s"
  define p where "p \<longleftrightarrow> s1 \<noteq> [] \<and> hd s1 = CHR ''(''"
  define s2 where "s2 = dropWhile lx_space (if p then tl s1 else s1)"
  define s3 where "s3 = dropWhile lx_space (drop (length (takeWhile is_alnum s2)) s2)"
  have "length s1 \<le> length s" unfolding s1_def by (rule length_dropWhile_le)
  moreover have "length s2 \<le> length s1"
    unfolding s2_def using length_dropWhile_le [of lx_space s1] order_trans [OF length_dropWhile_le length_tl_le, of lx_space s1] by simp
  moreover have "length s3 \<le> length s2"
    unfolding s3_def using length_dropWhile_le [of lx_space "drop (length (takeWhile is_alnum s2)) s2"] by simp
  moreover
  have "snd (defined_operand s) = (if p \<and> s3 \<noteq> [] \<and> hd s3 = CHR '')'' then tl s3 else s3)"
    unfolding defined_operand_def Let_def s1_def [symmetric] p_def [symmetric] s2_def [symmetric] s3_def [symmetric] by simp
  then have "length (snd (defined_operand s)) \<le> length s3" using length_tl_le [of s3] by simp
  ultimately show ?thesis by linarith
qed

function replace_defined :: "(string \<Rightarrow> macro option) \<Rightarrow> string \<Rightarrow> string" where
  "replace_defined ms [] = []"
| "replace_defined ms (c # s) =
     (if take 7 (c # s) = ''defined'' \<and> (drop 7 (c # s) = [] \<or> \<not> is_alnum (hd (drop 7 (c # s)))) then
        (let (name, r) = defined_operand (drop 7 (c # s))
         in (if ms name \<noteq> None then CHR ''1'' else CHR ''0'') # replace_defined ms r)
      else c # replace_defined ms s)"
  by pat_completeness auto
termination
proof (relation "measure (\<lambda>(_, s). length s)")
  fix ms c s x name r
  assume "x = defined_operand (drop 7 (c # s))" "(name, r) = x"
  then have "length r \<le> length (drop 7 (c # s))" using defined_operand_length by (metis snd_conv)
  then show "((ms, r), ms, c # s) \<in> measure (\<lambda>(_, s). length s)" by simp
qed auto

text \<open>What is left of the names after expansion: an object-like macro still stands for its body
  text, any other name for its value.\<close>

definition ident_value :: "(string \<Rightarrow> macro option) \<Rightarrow> string \<Rightarrow> string" where
  "ident_value ms w =
     (case ms w of
        Some m \<Rightarrow> if m_function_like m then ''0'' else m_body m
      | None \<Rightarrow> if w = ''true'' then ''1'' else ''0'')"

function resolve_idents :: "(string \<Rightarrow> macro option) \<Rightarrow> string \<Rightarrow> string" where
  "resolve_idents ms [] = []"
| "resolve_idents ms (c # s) =
     (let cs = c # s in
      if starts_hex cs then take_hex_const cs @ resolve_idents ms (drop (length (take_hex_const cs)) cs)
      else if is_digit c then take_int_const cs @ resolve_idents ms (drop (length (take_int_const cs)) cs)
      else if c = CHR 0x27 then take_char_const cs @ resolve_idents ms (drop (length (take_char_const cs)) cs)
      else if is_alpha c then
        ident_value ms (takeWhile is_alnum cs) @ resolve_idents ms (drop (length (takeWhile is_alnum cs)) cs)
      else c # resolve_idents ms s)"
  by pat_completeness auto
termination
  by (relation "measure (\<lambda>(_, s). length s)")
    (auto simp: take_hex_const_def take_int_const_def take_char_const_def is_alnum_def Let_def)

text \<open>\<^verbatim>\<open>n\<close> bounds the nesting of macro expansions in \<^verbatim>\<open>lex\<close>.\<close>

definition eval_preproc_expr ::
  "nat \<Rightarrow> (string \<Rightarrow> macro option) \<Rightarrow> lex_env \<Rightarrow> string \<Rightarrow> int \<Rightarrow> lex_error + int \<times> int" where
  "eval_preproc_expr n ms env s cnt =
     bnd (lex_macros n ms env (Some []) (replace_defined ms s) cnt) (\<lambda>(ts, cnt').
     bnd (eval_tokens (get_expr_tokens (resolve_idents ms (join_texts (map tk_text (no_eof ts)))))) (\<lambda>v.
     Inr (v, cnt')))"

end
