(* ===== verification/C_Syntax.thy ===== *)
theory C_Syntax
  imports Lexer
begin

text \<open>
  The expressions of the C language, as its standard has them (C11, 6.4.4, 6.5 and 6.6): phrases of the
  grammar, without type names and what needs them (casts, compound literals, \<^verbatim>\<open>_Generic\<close> and the operators on
  types), and the values of constant expressions over one signed type.

  Nothing here is taken from the compiler; the evaluator of \<^verbatim>\<open>#if\<close>, the expression parser and the evaluator of
  constant expressions are each compared with it.
\<close>

unbundle bit_operations_syntax

subsection \<open>Phrases\<close>

datatype c_expr =
    E_Name token
  | E_Const token
  | E_String "token list"
  | E_Paren token c_expr token
  | E_Index c_expr token c_expr token
  | E_Call0 c_expr token token
  | E_Call c_expr token c_expr token
  | E_Args c_expr token c_expr
  | E_Member c_expr token token
  | E_Postfix c_expr token
  | E_Prefix token c_expr
  | E_Binary c_expr token c_expr
  | E_Cond c_expr token c_expr token c_expr
  | E_Assign c_expr token c_expr
  | E_Comma c_expr token c_expr

primrec tokens_of :: "c_expr \<Rightarrow> token list" where
  "tokens_of (E_Name t) = [t]"
| "tokens_of (E_Const t) = [t]"
| "tokens_of (E_String ts) = ts"
| "tokens_of (E_Paren a e b) = a # tokens_of e @ [b]"
| "tokens_of (E_Index e a i b) = tokens_of e @ a # tokens_of i @ [b]"
| "tokens_of (E_Call0 f a b) = tokens_of f @ [a, b]"
| "tokens_of (E_Call f a as b) = tokens_of f @ a # tokens_of as @ [b]"
| "tokens_of (E_Args as c a) = tokens_of as @ c # tokens_of a"
| "tokens_of (E_Member e d f) = tokens_of e @ [d, f]"
| "tokens_of (E_Postfix e t) = tokens_of e @ [t]"
| "tokens_of (E_Prefix t e) = t # tokens_of e"
| "tokens_of (E_Binary l t r) = tokens_of l @ t # tokens_of r"
| "tokens_of (E_Cond c q t k e) = tokens_of c @ q # tokens_of t @ k # tokens_of e"
| "tokens_of (E_Assign l t r) = tokens_of l @ t # tokens_of r"
| "tokens_of (E_Comma l t r) = tokens_of l @ t # tokens_of r"

text \<open>The nonterminals of the grammar, tightest first: each derives the ones before it.\<close>

datatype nonterm = Primary | Postfix | Unary | Cast | Multiplicative | Additive | Shift | Relational | Equality
  | And | Exclusive_Or | Inclusive_Or | Logical_And | Logical_Or | Conditional | Assignment | Argument_List | Expression

fun rank :: "nonterm \<Rightarrow> nat" where
  "rank Primary = 0" | "rank Postfix = 1" | "rank Unary = 2" | "rank Cast = 3" | "rank Multiplicative = 4"
| "rank Additive = 5" | "rank Shift = 6" | "rank Relational = 7" | "rank Equality = 8" | "rank And = 9"
| "rank Exclusive_Or = 10" | "rank Inclusive_Or = 11" | "rank Logical_And = 12" | "rank Logical_Or = 13"
| "rank Conditional = 14" | "rank Assignment = 15" | "rank Argument_List = 16" | "rank Expression = 17"

instantiation nonterm :: linorder
begin

definition less_eq_nonterm :: "nonterm \<Rightarrow> nonterm \<Rightarrow> bool" where
  "less_eq_nonterm a b \<longleftrightarrow> rank a \<le> rank b"

definition less_nonterm :: "nonterm \<Rightarrow> nonterm \<Rightarrow> bool" where
  "less_nonterm a b \<longleftrightarrow> rank a < rank b"

instance
proof
  fix a b :: nonterm
  assume "a \<le> b" "b \<le> a"
  then show "a = b" by (cases a; cases b) (simp_all add: less_eq_nonterm_def)
qed (auto simp: less_eq_nonterm_def less_nonterm_def)

end

text \<open>A binary operator, the phrase it makes and its right operand; its left operand is again a phrase
  of the first kind, so all of them group to the left.\<close>

definition binary_productions :: "(string \<times> nonterm \<times> nonterm) list" where
  "binary_productions =
     [(''*'', Multiplicative, Cast), (''/'', Multiplicative, Cast), (''%'', Multiplicative, Cast),
      (''+'', Additive, Multiplicative), (''-'', Additive, Multiplicative),
      (''<<'', Shift, Additive), (''>>'', Shift, Additive),
      (''<'', Relational, Shift), (''>'', Relational, Shift), (''<='', Relational, Shift), (''>='', Relational, Shift),
      (''=='', Equality, Relational), (''!='', Equality, Relational),
      (''&'', And, Equality), (''^'', Exclusive_Or, And), (''|'', Inclusive_Or, Exclusive_Or),
      (''&&'', Logical_And, Inclusive_Or), (''||'', Logical_Or, Logical_And)]"

definition assignment_operators :: "string list" where
  "assignment_operators = [''='', ''*='', ''/='', ''%='', ''+='', ''-='', ''<<='', ''>>='', ''&='', ''^='', ''|='']"

definition c_keywords :: "string list" where
  "c_keywords =
     [''auto'', ''break'', ''case'', ''char'', ''const'', ''continue'', ''default'', ''do'', ''double'', ''else'', ''enum'',
      ''extern'', ''float'', ''for'', ''goto'', ''if'', ''inline'', ''int'', ''long'', ''register'', ''restrict'', ''return'',
      ''short'', ''signed'', ''sizeof'', ''static'', ''struct'', ''switch'', ''typedef'', ''union'', ''unsigned'', ''void'',
      ''volatile'', ''while'', ''_Alignas'', ''_Alignof'', ''_Atomic'', ''_Bool'', ''_Complex'', ''_Generic'', ''_Imaginary'',
      ''_Noreturn'', ''_Static_assert'', ''_Thread_local'']"

definition c_identifier :: "string \<Rightarrow> bool" where
  "c_identifier s \<longleftrightarrow> s \<noteq> [] \<and> is_alpha (hd s) \<and> list_all is_alnum s \<and> s \<notin> set c_keywords"

definition c_constant :: "string \<Rightarrow> bool" where
  "c_constant s \<longleftrightarrow> s \<noteq> [] \<and> (is_digit (hd s) \<or> hd s = CHR 0x27 \<or> hd s = CHR ''.'' \<and> tl s \<noteq> [] \<and> is_digit (hd (tl s)))"

text \<open>\<open>c_phrase X e\<close>: \<open>e\<close> is a phrase that the nonterminal \<open>X\<close> derives.\<close>

fun c_phrase :: "nonterm \<Rightarrow> c_expr \<Rightarrow> bool" where
  "c_phrase X (E_Name t) \<longleftrightarrow> Primary \<le> X \<and> c_identifier (tk_text t)"
| "c_phrase X (E_Const t) \<longleftrightarrow> Primary \<le> X \<and> c_constant (tk_text t)"
| "c_phrase X (E_String ts) \<longleftrightarrow> Primary \<le> X \<and> ts \<noteq> [] \<and>
     list_all (\<lambda>t. tk_text t \<noteq> [] \<and> (hd (tk_text t) = CHR 0x22 \<or> take 2 (tk_text t) = [CHR ''L'', CHR 0x22])) ts"
| "c_phrase X (E_Paren a e b) \<longleftrightarrow> Primary \<le> X \<and> tk_text a = ''('' \<and> c_phrase Expression e \<and> tk_text b = '')''"
| "c_phrase X (E_Index e a i b) \<longleftrightarrow>
     Postfix \<le> X \<and> c_phrase Postfix e \<and> tk_text a = ''['' \<and> c_phrase Expression i \<and> tk_text b = '']''"
| "c_phrase X (E_Call0 f a b) \<longleftrightarrow> Postfix \<le> X \<and> c_phrase Postfix f \<and> tk_text a = ''('' \<and> tk_text b = '')''"
| "c_phrase X (E_Call f a as b) \<longleftrightarrow>
     Postfix \<le> X \<and> c_phrase Postfix f \<and> tk_text a = ''('' \<and> c_phrase Argument_List as \<and> tk_text b = '')''"
| "c_phrase X (E_Args as c a) \<longleftrightarrow>
     X = Argument_List \<and> c_phrase Argument_List as \<and> tk_text c = '','' \<and> c_phrase Assignment a"
| "c_phrase X (E_Member e d f) \<longleftrightarrow>
     Postfix \<le> X \<and> c_phrase Postfix e \<and> (tk_text d = ''.'' \<or> tk_text d = ''->'') \<and> c_identifier (tk_text f)"
| "c_phrase X (E_Postfix e t) \<longleftrightarrow> Postfix \<le> X \<and> c_phrase Postfix e \<and> (tk_text t = ''++'' \<or> tk_text t = ''--'')"
| "c_phrase X (E_Prefix t e) \<longleftrightarrow> Unary \<le> X \<and>
     (if tk_text t \<in> {''++'', ''--'', ''sizeof''} then c_phrase Unary e
      else tk_text t \<in> {''&'', ''*'', ''+'', ''-'', ''~'', ''!''} \<and> c_phrase Cast e)"
| "c_phrase X (E_Binary l t r) \<longleftrightarrow>
     (case map_of binary_productions (tk_text t) of None \<Rightarrow> False
      | Some (Y, Z) \<Rightarrow> Y \<le> X \<and> c_phrase Y l \<and> c_phrase Z r)"
| "c_phrase X (E_Cond c q t k e) \<longleftrightarrow> Conditional \<le> X \<and> c_phrase Logical_Or c \<and> tk_text q = ''?'' \<and>
     c_phrase Expression t \<and> tk_text k = '':'' \<and> c_phrase Conditional e"
| "c_phrase X (E_Assign l t r) \<longleftrightarrow>
     Assignment \<le> X \<and> c_phrase Unary l \<and> tk_text t \<in> set assignment_operators \<and> c_phrase Assignment r"
| "c_phrase X (E_Comma l t r) \<longleftrightarrow> X = Expression \<and> c_phrase Expression l \<and> tk_text t = '','' \<and> c_phrase Assignment r"

text \<open>All phrases inside a phrase, itself included.\<close>

primrec phrases_in :: "c_expr \<Rightarrow> c_expr list" where
  "phrases_in (E_Name t) = [E_Name t]"
| "phrases_in (E_Const t) = [E_Const t]"
| "phrases_in (E_String ts) = [E_String ts]"
| "phrases_in (E_Paren a e b) = E_Paren a e b # phrases_in e"
| "phrases_in (E_Index e a i b) = E_Index e a i b # phrases_in e @ phrases_in i"
| "phrases_in (E_Call0 f a b) = E_Call0 f a b # phrases_in f"
| "phrases_in (E_Call f a as b) = E_Call f a as b # phrases_in f @ phrases_in as"
| "phrases_in (E_Args as c a) = E_Args as c a # phrases_in as @ phrases_in a"
| "phrases_in (E_Member e d f) = E_Member e d f # phrases_in e"
| "phrases_in (E_Postfix e t) = E_Postfix e t # phrases_in e"
| "phrases_in (E_Prefix t e) = E_Prefix t e # phrases_in e"
| "phrases_in (E_Binary l t r) = E_Binary l t r # phrases_in l @ phrases_in r"
| "phrases_in (E_Cond c q t k e) = E_Cond c q t k e # phrases_in c @ phrases_in t @ phrases_in e"
| "phrases_in (E_Assign l t r) = E_Assign l t r # phrases_in l @ phrases_in r"
| "phrases_in (E_Comma l t r) = E_Comma l t r # phrases_in l @ phrases_in r"

subsection \<open>The value of a constant\<close>

definition digit_value_of :: "char \<Rightarrow> nat option" where
  "digit_value_of = map_of (zip ''0123456789abcdefABCDEF'' ([0..<16] @ [10..<16]))"

text \<open>The digits of a number with their place values; \<open>None\<close> where a character is no digit of the base.\<close>

primrec place_value :: "nat \<Rightarrow> string \<Rightarrow> nat option" where
  "place_value b [] = Some 0"
| "place_value b (c # ds) =
     (case (digit_value_of c, place_value b ds) of
        (Some d, Some v) \<Rightarrow> if d < b then Some (d * b ^ length ds + v) else None
      | _ \<Rightarrow> None)"

definition c_integer :: "string \<Rightarrow> nat option" where
  "c_integer s =
     (if s = [] then None
      else if take 2 s = ''0x'' \<or> take 2 s = ''0X'' then (if drop 2 s = [] then None else place_value 16 (drop 2 s))
      else if hd s = CHR ''0'' then place_value 8 s else place_value 10 s)"

definition c_escapes :: "(char \<times> int) list" where
  "c_escapes =
     [(CHR 0x27, 39), (CHR 0x22, 34), (CHR ''?'', 63), (CHR 0x5C, 92), (CHR ''a'', 7), (CHR ''b'', 8), (CHR ''f'', 12),
      (CHR ''n'', 10), (CHR ''r'', 13), (CHR ''t'', 9), (CHR ''v'', 11), (CHR ''0'', 0)]"

text \<open>Character constants of one character of the basic set or one simple escape.\<close>

definition c_char :: "string \<Rightarrow> int option" where
  "c_char s =
     (case s of
        [q, c, r] \<Rightarrow>
          if q = CHR 0x27 \<and> r = CHR 0x27 \<and> c \<notin> {CHR 0x27, CHR 0x5C} \<and> of_char c < (128 :: int) then Some (of_char c) else None
      | [q, b, c, r] \<Rightarrow> if q = CHR 0x27 \<and> b = CHR 0x5C \<and> r = CHR 0x27 then map_of c_escapes c else None
      | _ \<Rightarrow> None)"

text \<open>A constant of a signed type of \<open>w\<close> bits, with one of the given suffixes.\<close>

definition signed_range :: "nat \<Rightarrow> int \<Rightarrow> int option" where
  "signed_range w v = (if - (2 ^ (w - 1)) \<le> v \<and> v < 2 ^ (w - 1) then Some v else None)"

definition without_suffix :: "string \<Rightarrow> string" where
  "without_suffix s = takeWhile (\<lambda>c. c \<notin> set ''uUlL'') s"

definition constant_of :: "nat \<Rightarrow> string list \<Rightarrow> string \<Rightarrow> int option" where
  "constant_of w suffixes s =
     (if s \<noteq> [] \<and> hd s = CHR 0x27 then c_char s
      else if drop (length (without_suffix s)) s \<in> set suffixes then
        Option.bind (c_integer (without_suffix s)) (\<lambda>n. signed_range w (int n))
      else None)"

subsection \<open>The value of a constant expression\<close>

text \<open>Division that truncates towards zero.\<close>

definition quotient :: "int \<Rightarrow> int \<Rightarrow> int" where
  "quotient a b = (if (a < 0) = (b < 0) then \<bar>a\<bar> div \<bar>b\<bar> else - (\<bar>a\<bar> div \<bar>b\<bar>))"

definition remainder :: "int \<Rightarrow> int \<Rightarrow> int" where
  "remainder a b = a - b * quotient a b"

definition flag :: "bool \<Rightarrow> int" where
  "flag b = (if b then 1 else 0)"

text \<open>The operators on a signed type of \<open>w\<close> bits; \<open>z\<close> is what a division by zero gives, which in C is
  nothing.  Right shifts of negative numbers copy the sign.\<close>

definition signed_prefix :: "nat \<Rightarrow> string \<Rightarrow> int \<Rightarrow> int option" where
  "signed_prefix w op a =
     (if op = ''-'' then signed_range w (- a) else if op = ''+'' then Some a
      else if op = ''~'' then Some (- a - 1) else if op = ''!'' then Some (flag (a = 0)) else None)"

definition signed_binary :: "int option \<Rightarrow> nat \<Rightarrow> string \<Rightarrow> int \<Rightarrow> int \<Rightarrow> int option" where
  "signed_binary z w op a b =
     (if op = ''*'' then signed_range w (a * b)
      else if op = ''/'' then (if b = 0 then z else signed_range w (quotient a b))
      else if op = ''%'' then (if b = 0 then z else map_option (\<lambda>_. remainder a b) (signed_range w (quotient a b)))
      else if op = ''+'' then signed_range w (a + b)
      else if op = ''-'' then signed_range w (a - b)
      else if op = ''<<'' then (if 0 \<le> a \<and> 0 \<le> b \<and> b < int w then signed_range w (a * 2 ^ nat b) else None)
      else if op = ''>>'' then (if 0 \<le> b \<and> b < int w then Some (a div 2 ^ nat b) else None)
      else if op = ''<'' then Some (flag (a < b))
      else if op = ''>'' then Some (flag (b < a))
      else if op = ''<='' then Some (flag (a \<le> b))
      else if op = ''>='' then Some (flag (b \<le> a))
      else if op = ''=='' then Some (flag (a = b))
      else if op = ''!='' then Some (flag (a \<noteq> b))
      else if op = ''&'' then Some (a AND b)
      else if op = ''^'' then Some (a XOR b)
      else if op = ''|'' then Some (a OR b)
      else None)"

fun signed_value :: "int option \<Rightarrow> nat \<Rightarrow> string list \<Rightarrow> c_expr \<Rightarrow> int option" where
  "signed_value z w sf (E_Const t) = constant_of w sf (tk_text t)"
| "signed_value z w sf (E_Paren a e b) = signed_value z w sf e"
| "signed_value z w sf (E_Prefix t e) = Option.bind (signed_value z w sf e) (signed_prefix w (tk_text t))"
| "signed_value z w sf (E_Binary l t r) =
     Option.bind (signed_value z w sf l) (\<lambda>a.
       if tk_text t = ''&&'' then (if a = 0 then Some 0 else map_option (\<lambda>b. flag (b \<noteq> 0)) (signed_value z w sf r))
       else if tk_text t = ''||'' then (if a \<noteq> 0 then Some 1 else map_option (\<lambda>b. flag (b \<noteq> 0)) (signed_value z w sf r))
       else Option.bind (signed_value z w sf r) (signed_binary z w (tk_text t) a))"
| "signed_value z w sf (E_Cond c q t k e) =
     Option.bind (signed_value z w sf c) (\<lambda>a. if a \<noteq> 0 then signed_value z w sf t else signed_value z w sf e)"
| "signed_value z w sf _ = None"

lemma signed_binary_zero: "signed_binary None w op a b = Some v \<Longrightarrow> signed_binary z w op a b = Some v"
  by (auto simp: signed_binary_def split: if_splits)

text \<open>A value does not depend on what a division by zero gives.\<close>

lemma signed_value_zero: "signed_value None w sf e = Some v \<Longrightarrow> signed_value z w sf e = Some v"
proof (induction e arbitrary: v)
  case (E_Binary l t r)
  then obtain a where a: "signed_value None w sf l = Some a" "signed_value z w sf l = Some a"
    by (auto simp: bind_eq_Some_conv)
  from E_Binary.prems a show ?case
    using E_Binary.IH(2) signed_binary_zero [of w "tk_text t" a _ v z]
    by (cases "signed_value None w sf r"; cases "a = 0") (simp_all split: if_splits)
next
  case (E_Cond c q t k e)
  then obtain a where "signed_value None w sf c = Some a" "signed_value z w sf c = Some a"
    by (auto simp: bind_eq_Some_conv)
  with E_Cond show ?case by (simp split: if_splits)
next
  case (E_Prefix t e)
  then obtain a where "signed_value None w sf e = Some a" "signed_value z w sf e = Some a"
    by (auto simp: bind_eq_Some_conv)
  with E_Prefix.prems show ?case by simp
qed simp_all

lemma quotient_remainder: "b \<noteq> 0 \<Longrightarrow> quotient a b * b + remainder a b = a"
  by (simp add: remainder_def algebra_simps)

lemma phrases_in_self: "e \<in> set (phrases_in e)"
  by (cases e) simp_all

lemma tokens_of_nonempty: "c_phrase X e \<Longrightarrow> tokens_of e \<noteq> []"
  by (cases e) auto

lemma c_phrase_mono: "c_phrase X e \<Longrightarrow> X \<le> Y \<Longrightarrow> Y \<noteq> Argument_List \<Longrightarrow> X \<noteq> Argument_List \<Longrightarrow> c_phrase Y e"
proof (cases e)
  fix l t r
  assume h: "e = E_Comma l t r" "c_phrase X e" "X \<le> Y"
  then have "Y = Expression" by (cases Y) (simp_all add: less_eq_nonterm_def)
  with h show ?thesis by simp
qed (auto split: option.splits)

end
