(* ===== verification/Pp_Expr_Props.thy ===== *)
theory Pp_Expr_Props
  imports Pp_Expr Lexer_Fuel C_Syntax
begin

text \<open>
  The evaluator of \<^verbatim>\<open>#if\<close> expressions: it returns on every token list, and on the phrases of C's grammar
  (theory \<open>C_Syntax\<close>) it computes the values that C's rules give them.  \<open>derives\<close> lies between the two: it has the
  levels and the operators of the evaluator, but no order of evaluation.
\<close>

subsection \<open>The fuel is enough\<close>

lemma ep_rest_length:
  "ep_level n k ts = Inr (v, r) \<Longrightarrow> length r \<le> length ts"
  "ep_loop n k w ts = Inr (v, r) \<Longrightarrow> length r \<le> length ts"
  "ep_primary n ts = Inr (v, r) \<Longrightarrow> length r \<le> length ts"
proof (induction n k ts and n k w ts and n ts arbitrary: v r and v r and v r rule: ep_level_ep_loop_ep_primary.induct)
  case (2 n k ts)
  then show ?case by (fastforce split: if_splits)
next
  case (4 n k v ts)
  then show ?case by (fastforce split: if_splits)
next
  case (6 n ts)
  then show ?case by (fastforce simp: Let_def split: if_splits)
qed auto

definition level_cost :: "nat \<Rightarrow> nat \<Rightarrow> nat" where
  "level_cost k len = 13 * len + 12 - k"

lemma peek_nonempty: "ep_peek ts \<noteq> [] \<Longrightarrow> 0 < length ts"
  by (cases ts) (simp_all add: ep_peek_def)

lemma ops_at_cases:
  assumes "t \<in> set (ops_at k)"
  obtains "k = 0" "t = ''||''" | "k = 1" "t = ''&&''" | "k = 2" "t = ''|''" | "k = 3" "t = ''^''" | "k = 4" "t = ''&''"
  | "k = 5" "t \<in> {''=='', ''!=''}" | "k = 6" "t \<in> {''<'', ''>'', ''<='', ''>=''}" | "k = 7" "t \<in> {''<<'', ''>>''}"
  | "k = 8" "t \<in> {''+'', ''-''}" | "k = 9" "t \<in> {''*'', ''/'', ''%''}"
proof -
  have "k < 10" using assms by (auto simp: ops_at_def split: if_splits)
  then have "k = 0 \<or> k = 1 \<or> k = 2 \<or> k = 3 \<or> k = 4 \<or> k = 5 \<or> k = 6 \<or> k = 7 \<or> k = 8 \<or> k = 9" by presburger
  then show thesis
    by (elim disjE) (use assms that in \<open>simp_all add: ops_at_def level_ops_def\<close>)
qed

lemma ops_at_nonempty: "[] \<notin> set (ops_at k)"
proof
  assume "[] \<in> set (ops_at k)"
  then show False by (cases rule: ops_at_cases) simp_all
qed

lemma bnd_not_fuel: "m \<noteq> Inl Lex_Fuel \<Longrightarrow> (\<And>x. m = Inr x \<Longrightarrow> f x \<noteq> Inl Lex_Fuel) \<Longrightarrow> bnd m f \<noteq> Inl Lex_Fuel"
  by (auto simp: bnd_def split: sum.split)

lemma if_ne: "x \<noteq> z \<Longrightarrow> y \<noteq> z \<Longrightarrow> (if b then x else y) \<noteq> z"
  by simp

lemma c_long_not_fuel: "c_long a \<noteq> Inl Lex_Fuel"
  by (simp add: c_long_def)

lemma apply_op_not_fuel: "apply_op op a b \<noteq> Inl Lex_Fuel"
  unfolding apply_op_def by (intro if_ne c_long_not_fuel bnd_not_fuel) simp_all

lemma bnd_Inl_iff: "bnd m f = Inl e \<longleftrightarrow> m = Inl e \<or> (\<exists>x. m = Inr x \<and> f x = Inl e)"
  by (cases m) auto

lemma ep_enough:
  "k \<le> 10 \<Longrightarrow> 13 * length ts + 12 - k < n \<Longrightarrow> ep_level n k ts \<noteq> Inl Lex_Fuel"
  "k < 10 \<Longrightarrow> 13 * length ts < n \<Longrightarrow> ep_loop n k w ts \<noteq> Inl Lex_Fuel"
  "13 * length ts + 1 < n \<Longrightarrow> ep_primary n ts \<noteq> Inl Lex_Fuel"
proof (induction n k ts and n k w ts and n ts rule: ep_level_ep_loop_ep_primary.induct)
  case (2 n k ts)
  show ?case
  proof (cases "10 \<le> k")
    case True
    then show ?thesis using 2 by simp
  next
    case False
    have "bnd (ep_level n (k + 1) ts) (\<lambda>(v, ts'). ep_loop n k v ts') \<noteq> Inl Lex_Fuel"
    proof (rule bnd_not_fuel)
      show "ep_level n (k + 1) ts \<noteq> Inl Lex_Fuel" using 2 False by simp
      fix x assume x: "ep_level n (k + 1) ts = Inr x"
      then obtain v r where r: "x = (v, r)" "length r \<le> length ts" using ep_rest_length(1) by (metis surj_pair)
      then show "(case x of (v, ts') \<Rightarrow> ep_loop n k v ts') \<noteq> Inl Lex_Fuel"
        using 2(3) [OF False x r(1) [symmetric]] 2(4,5) False by simp
    qed
    then show ?thesis using False by simp
  qed
next
  case (4 n k v ts)
  show ?case
  proof (cases "ep_peek ts \<in> set (ops_at k)")
    case False
    then show ?thesis by simp
  next
    case True
    then have len: "0 < length ts" using peek_nonempty ops_at_nonempty by metis
    have "bnd (ep_level n (k + 1) (tl ts)) (\<lambda>(rhs, ts'). bnd (apply_op (ep_peek ts) v rhs) (\<lambda>v'. ep_loop n k v' ts')) \<noteq> Inl Lex_Fuel"
    proof (rule bnd_not_fuel)
      have "13 * length (tl ts) + 12 - (k + 1) < n" "k + 1 \<le> 10" using 4(3,4) len
        by (cases ts; simp)+
      then show "ep_level n (k + 1) (tl ts) \<noteq> Inl Lex_Fuel" using 4(1) [OF True] by blast
      fix x assume x: "ep_level n (k + 1) (tl ts) = Inr x"
      then obtain rhs r where r: "x = (rhs, r)" "length r \<le> length (tl ts)" using ep_rest_length(1) by (metis surj_pair)
      show "(case x of (rhs, ts') \<Rightarrow> bnd (apply_op (ep_peek ts) v rhs) (\<lambda>v'. ep_loop n k v' ts')) \<noteq> Inl Lex_Fuel"
      proof -
        have "13 * length r < n" using r(2) len 4(4) by (cases ts) auto
        then have "bnd (apply_op (ep_peek ts) v rhs) (\<lambda>v'. ep_loop n k v' r) \<noteq> Inl Lex_Fuel"
          by (intro bnd_not_fuel apply_op_not_fuel) (use 4(2) [OF True x r(1) [symmetric]] 4(3) in simp)
        then show ?thesis using r(1) by simp
      qed
    qed
    then show ?thesis using True by simp
  qed
next
  case (6 n ts)
  show ?case
  proof (cases "ts = []")
    case True
    then show ?thesis by (simp add: ep_peek_def)
  next
    case False
    then have len: "length (tl ts) < length ts" by (cases ts) auto
    have neg: "c_long w \<noteq> Inl Lex_Fuel" for w by (simp add: c_long_def)
    show ?thesis using 6 len by (auto simp: Let_def bnd_Inl_iff neg split: prod.splits)
  qed
qed auto

text \<open>More fuel does not change a result: \<open>settled a b\<close> says that \<open>b\<close> is \<open>a\<close> unless \<open>a\<close> ran out.\<close>

definition settled :: "lex_error + 'a \<Rightarrow> lex_error + 'a \<Rightarrow> bool" where
  "settled a b \<longleftrightarrow> a = Inl Lex_Fuel \<or> a = b"

lemma settled_simps [simp]: "settled (Inl Lex_Fuel) b" "settled a a"
  by (simp_all add: settled_def)

lemma settled_bnd: "settled m m' \<Longrightarrow> (\<And>x. settled (f x) (f' x)) \<Longrightarrow> settled (bnd m f) (bnd m' f')"
proof -
  assume a: "settled m m'" "\<And>x. settled (f x) (f' x)"
  show ?thesis
  proof (cases m)
    case (Inr b)
    then show ?thesis using a(1) a(2) [of b] by (auto simp: settled_def)
  qed (use a(1) in \<open>auto simp: settled_def\<close>)
qed

lemma ep_settled_Suc:
  "settled (ep_level n k ts) (ep_level (Suc n) k ts)
   \<and> settled (ep_loop n k w ts) (ep_loop (Suc n) k w ts)
   \<and> settled (ep_primary n ts) (ep_primary (Suc n) ts)"
proof (induction n arbitrary: k w ts)
  case 0
  show ?case by simp
next
  case (Suc n)
  have l: "settled (ep_level n k ts) (ep_level (Suc n) k ts)" for k ts using Suc by blast
  have o: "settled (ep_loop n k w ts) (ep_loop (Suc n) k w ts)" for k w ts using Suc by blast
  have p: "settled (ep_primary n ts) (ep_primary (Suc n) ts)" for ts using Suc by blast
  have "settled (ep_level (Suc n) k ts) (ep_level (Suc (Suc n)) k ts)"
    unfolding ep_level.simps(2) [of n k ts] ep_level.simps(2) [of "Suc n" k ts] by (auto intro!: settled_bnd l o p simp del: ep_level.simps ep_loop.simps ep_primary.simps split: prod.split)
  moreover have "settled (ep_loop (Suc n) k w ts) (ep_loop (Suc (Suc n)) k w ts)"
    unfolding ep_loop.simps(2) [of n k w ts] ep_loop.simps(2) [of "Suc n" k w ts] by (auto intro!: settled_bnd l o p simp del: ep_level.simps ep_loop.simps ep_primary.simps split: prod.split)
  moreover have "settled (ep_primary (Suc n) ts) (ep_primary (Suc (Suc n)) ts)"
    unfolding ep_primary.simps(2) [of n ts] ep_primary.simps(2) [of "Suc n" ts] Let_def
    by (auto intro!: settled_bnd l o p simp del: ep_level.simps ep_loop.simps ep_primary.simps split: prod.split)
  ultimately show ?case by blast
qed

lemma settled_le:
  assumes "\<And>n. settled (f n) (f (Suc n))" "n \<le> m" shows "settled (f n) (f m)"
  using assms(2)
proof (induction rule: dec_induct)
  case (step m)
  then show ?case using assms(1) [of m] by (auto simp: settled_def)
qed simp

lemma ep_level_settled: "n \<le> m \<Longrightarrow> settled (ep_level n k ts) (ep_level m k ts)"
  and ep_loop_settled: "n \<le> m \<Longrightarrow> settled (ep_loop n k w ts) (ep_loop m k w ts)"
  and ep_primary_settled: "n \<le> m \<Longrightarrow> settled (ep_primary n ts) (ep_primary m ts)"
  using settled_le [of "\<lambda>n. ep_level n k ts"] settled_le [of "\<lambda>n. ep_loop n k w ts"] settled_le [of "\<lambda>n. ep_primary n ts"]
    ep_settled_Suc by blast+

subsection \<open>The levels of the evaluator\<close>

text \<open>\<open>derives k ts v\<close>: the evaluator's levels and operators make of the tokens \<open>ts\<close> an expression of level \<open>k\<close> with
  the value \<open>v\<close>.\<close>

inductive derives :: "nat \<Rightarrow> string list \<Rightarrow> int \<Rightarrow> bool" where
  d_number: "t \<noteq> [] \<Longrightarrow> is_digit (hd t) \<Longrightarrow> derives 10 [t] (number_value t)"
| d_char: "t \<noteq> [] \<Longrightarrow> hd t = CHR 0x27 \<Longrightarrow> derives 10 [t] (char_value t)"
| d_paren: "derives 0 ts v \<Longrightarrow> derives 10 ([''(''] @ ts @ ['')'']) v"
| d_not: "derives 10 ts v \<Longrightarrow> derives 10 (''!'' # ts) (c_bool (v = 0))"
| d_compl: "derives 10 ts v \<Longrightarrow> derives 10 (''~'' # ts) (NOT v)"
| d_neg: "derives 10 ts v \<Longrightarrow> c_long (- v) = Inr w \<Longrightarrow> derives 10 (''-'' # ts) w"
| d_plus: "derives 10 ts v \<Longrightarrow> derives 10 (''+'' # ts) v"
| d_tighter: "k < 10 \<Longrightarrow> derives (k + 1) ts v \<Longrightarrow> derives k ts v"
| d_binary: "k < 10 \<Longrightarrow> derives k ts v \<Longrightarrow> op \<in> set (ops_at k) \<Longrightarrow> derives (k + 1) us w \<Longrightarrow>
    apply_op op v w = Inr x \<Longrightarrow> derives k (ts @ [op] @ us) x"

definition runs :: "(nat \<Rightarrow> lex_error + 'a) \<Rightarrow> 'a \<Rightarrow> bool" where
  "runs f x \<longleftrightarrow> (\<exists>n. f n = Inr x)"

lemma runs_Suc: "f n = Inr x \<Longrightarrow> runs f x"
  by (auto simp: runs_def)

text \<open>The operators that bind tighter than level \<open>k\<close>.\<close>

definition tighter :: "nat \<Rightarrow> string \<Rightarrow> bool" where
  "tighter k t \<longleftrightarrow> (\<exists>j. k < j \<and> t \<in> set (ops_at j))"

lemma ops_at_unique:
  assumes "t \<in> set (ops_at j)" "t \<in> set (ops_at k)" shows "j = k"
  using assms(1) by (cases rule: ops_at_cases; use assms(2) in \<open>cases rule: ops_at_cases; auto\<close>)

lemma op_not_tighter: "op \<in> set (ops_at k) \<Longrightarrow> \<not> tighter k op"
  using ops_at_unique by (auto simp: tighter_def)

lemma nil_not_tighter [simp]: "\<not> tighter k []"
  using ops_at_nonempty by (auto simp: tighter_def)

subsection \<open>The evaluator follows the grammar\<close>

lemma runs_loop_stop: "ep_peek ts \<notin> set (ops_at k) \<Longrightarrow> runs (\<lambda>n. ep_loop n k v ts) (v, ts)"
  by (rule runs_Suc [of _ "Suc 0"]) simp

lemma runs_max:
  assumes "runs f x" "\<And>n m. n \<le> m \<Longrightarrow> settled (f n) (f m)"
  obtains n where "\<And>m. n \<le> m \<Longrightarrow> f m = Inr x"
  using assms by (auto simp: runs_def settled_def) (metis Inl_Inr_False)

lemma runs_level:
  assumes "k < 10" "runs (\<lambda>n. ep_level n (k + 1) ts) (v, r)" "runs (\<lambda>n. ep_loop n k v r) x"
  shows "runs (\<lambda>n. ep_level n k ts) x"
proof -
  obtain n1 where 1: "\<And>m. n1 \<le> m \<Longrightarrow> ep_level m (k + 1) ts = Inr (v, r)" using runs_max [OF assms(2) ep_level_settled] by blast
  obtain n2 where 2: "\<And>m. n2 \<le> m \<Longrightarrow> ep_loop m k v r = Inr x" using runs_max [OF assms(3) ep_loop_settled] by blast
  have "ep_level (Suc (max n1 n2)) k ts = Inr x" using assms(1) 1 [of "max n1 n2"] 2 [of "max n1 n2"] by simp
  then show ?thesis by (rule runs_Suc)
qed

lemma runs_loop_step:
  assumes "ep_peek ts \<in> set (ops_at k)" "runs (\<lambda>n. ep_level n (k + 1) (tl ts)) (w, r)"
    "apply_op (ep_peek ts) v w = Inr u" "runs (\<lambda>n. ep_loop n k u r) x"
  shows "runs (\<lambda>n. ep_loop n k v ts) x"
proof -
  obtain n1 where 1: "\<And>m. n1 \<le> m \<Longrightarrow> ep_level m (k + 1) (tl ts) = Inr (w, r)" using runs_max [OF assms(2) ep_level_settled] by blast
  obtain n2 where 2: "\<And>m. n2 \<le> m \<Longrightarrow> ep_loop m k u r = Inr x" using runs_max [OF assms(4) ep_loop_settled] by blast
  have "ep_loop (Suc (max n1 n2)) k v ts = Inr x" using assms(1,3) 1 [of "max n1 n2"] 2 [of "max n1 n2"] by simp
  then show ?thesis by (rule runs_Suc)
qed

lemma runs_primary: "10 \<le> k \<Longrightarrow> runs (\<lambda>n. ep_primary n ts) x \<Longrightarrow> runs (\<lambda>n. ep_level n k ts) x"
  unfolding runs_def by (metis ep_level.simps(2))

text \<open>A primary: one more step after its operand.\<close>

lemma runs_primary_step:
  assumes "runs f x" "\<And>n. f n = Inr x \<Longrightarrow> ep_primary (Suc n) ts = Inr y"
  shows "runs (\<lambda>n. ep_primary n ts) y"
  using assms unfolding runs_def by blast

lemma level_10_primary: "runs (\<lambda>n. ep_level n 10 ts) x \<Longrightarrow> runs (\<lambda>n. ep_primary n ts) x"
proof -
  assume "runs (\<lambda>n. ep_level n 10 ts) x"
  then obtain n where n: "ep_level n 10 ts = Inr x" by (auto simp: runs_def)
  then show ?thesis by (cases n) (auto simp: runs_def)
qed

lemma derives_runs:
  assumes "derives k ts v" "\<not> tighter k (ep_peek rest)" "k < 10 \<Longrightarrow> runs (\<lambda>n. ep_loop n k v rest) x"
    "10 \<le> k \<Longrightarrow> x = (v, rest)"
  shows "runs (\<lambda>n. ep_level n k (ts @ rest)) x"
  using assms
proof (induction arbitrary: rest x rule: derives.induct)
  case (d_number t)
  then show ?case by (intro runs_primary runs_Suc [of _ "Suc 0"]) (auto simp: ep_peek_def is_digit_def in_range_def)
next
  case (d_char t)
  then show ?case by (intro runs_primary runs_Suc [of _ "Suc 0"]) (auto simp: ep_peek_def is_digit_def in_range_def)
next
  case (d_paren ts v)
  have nt: "ep_peek ('')'' # rest) \<notin> set (ops_at j)" for j by (auto simp: ep_peek_def elim: ops_at_cases)
  then have "\<not> tighter 0 (ep_peek ('')'' # rest))" by (simp add: tighter_def)
  from d_paren.IH [OF this runs_loop_stop [OF nt]] have "runs (\<lambda>n. ep_level n 0 (ts @ '')'' # rest)) (v, '')'' # rest)" by simp
  then have "runs (\<lambda>n. ep_primary n (([''(''] @ ts @ ['')'']) @ rest)) (v, rest)"
    by (rule runs_primary_step) (simp add: ep_peek_def)
  then show ?case using d_paren(5) by (intro runs_primary) simp_all
next
  case (d_not ts v)
  have "runs (\<lambda>n. ep_primary n (ts @ rest)) (v, rest)" using d_not by (intro level_10_primary) simp
  then have "runs (\<lambda>n. ep_primary n ((''!'' # ts) @ rest)) (c_bool (v = 0), rest)"
    by (rule runs_primary_step) (simp add: ep_peek_def is_digit_def in_range_def)
  then show ?case using d_not by (intro runs_primary) simp_all
next
  case (d_compl ts v)
  have "runs (\<lambda>n. ep_primary n (ts @ rest)) (v, rest)" using d_compl by (intro level_10_primary) simp
  then have "runs (\<lambda>n. ep_primary n ((''~'' # ts) @ rest)) (NOT v, rest)"
    by (rule runs_primary_step) (simp add: ep_peek_def is_digit_def in_range_def)
  then show ?case using d_compl by (intro runs_primary) simp_all
next
  case (d_neg ts v w)
  have "runs (\<lambda>n. ep_primary n (ts @ rest)) (v, rest)" using d_neg by (intro level_10_primary) simp
  then have "runs (\<lambda>n. ep_primary n ((''-'' # ts) @ rest)) (w, rest)"
    by (rule runs_primary_step) (use d_neg(2) in \<open>simp add: ep_peek_def is_digit_def in_range_def\<close>)
  then show ?case using d_neg by (intro runs_primary) simp_all
next
  case (d_plus ts v)
  have "runs (\<lambda>n. ep_primary n (ts @ rest)) (v, rest)" using d_plus by (intro level_10_primary) simp
  then have "runs (\<lambda>n. ep_primary n ((''+'' # ts) @ rest)) (v, rest)"
    by (rule runs_primary_step) (simp add: ep_peek_def is_digit_def in_range_def)
  then show ?case using d_plus by (intro runs_primary) simp_all
next
  case (d_tighter k ts v)
  have nt: "\<not> tighter (k + 1) (ep_peek rest)" "ep_peek rest \<notin> set (ops_at (k + 1))"
    using d_tighter.prems(1) by (auto simp: tighter_def)
  have "runs (\<lambda>n. ep_level n (k + 1) (ts @ rest)) (v, rest)"
    using d_tighter.IH [OF nt(1) runs_loop_stop [OF nt(2)]] by simp
  then show ?case using d_tighter by (intro runs_level [of k _ v rest]) auto
next
  case (d_binary k ts v op us w x')
  have nt: "\<not> tighter (k + 1) (ep_peek rest)" "ep_peek rest \<notin> set (ops_at (k + 1))"
    using d_binary.prems(1) by (auto simp: tighter_def)
  have us: "runs (\<lambda>n. ep_level n (k + 1) (us @ rest)) (w, rest)"
    using d_binary.IH(2) [OF nt(1) runs_loop_stop [OF nt(2)]] by simp
  have pk: "ep_peek (op # us @ rest) = op" by (simp add: ep_peek_def)
  have "runs (\<lambda>n. ep_loop n k v (op # us @ rest)) x"
    by (rule runs_loop_step) (use pk us d_binary in auto)
  then show ?case
    using d_binary.IH(1) [of "op # us @ rest" x] op_not_tighter [OF d_binary(3)] pk d_binary(1) by simp
qed

lemma eval_tokens_not_fuel: "eval_tokens ts \<noteq> Inl Lex_Fuel"
  unfolding eval_tokens_def by (rule bnd_not_fuel [OF ep_enough(1)]) (auto split: prod.split)

text \<open>
  C20: every \<^verbatim>\<open>#if\<close> condition is decided: with a finite macro table, recursive definitions included,
  some nesting depth is enough to evaluate the text to a number, a diagnostic or arithmetic that C
  leaves undefined, and every larger depth gives the same.
\<close>

theorem eval_preproc_expr_total:
  assumes "finite (dom ms)"
  shows "\<exists>r n. r \<noteq> Inl Lex_Fuel \<and> (\<forall>m\<ge>n. eval_preproc_expr m ms env s cnt = r)"
proof -
  have "settles (\<lambda>m. eval_preproc_expr m ms env s cnt)"
    unfolding eval_preproc_expr_def
  proof (rule settles_bnd [OF settles_lex_macros [OF assms]])
    fix x :: "token list \<times> int"
    show "settles (\<lambda>m. case x of (ts, cnt') \<Rightarrow>
        bnd (eval_tokens (get_expr_tokens (resolve_idents ms (join_texts (map tk_text (no_eof ts)))))) (\<lambda>v. Inr (v, cnt')))"
      by (rule settles_const) (auto simp: bnd_Inl_iff eval_tokens_not_fuel split: prod.split)
  qed
  then show ?thesis by (simp add: settles_def)
qed

lemma eval_preproc_expr_total_witness:
  "\<exists>r n. r \<noteq> Inl Lex_Fuel \<and> (\<forall>m\<ge>n. eval_preproc_expr m [''A'' \<mapsto> \<lparr>m_function_like = False, m_params = [], m_body = ''A + 1''\<rparr>]
     \<lparr>le_line = 1, le_file = ''a.c''\<rparr> ''defined(A) && A'' 0 = r)"
  by (rule eval_preproc_expr_total) simp

subsection \<open>Constants are read as C reads them\<close>

lemma digits_checked:
  "list_all (\<lambda>(c, d). xdigit_val c = d \<and> is_xdigit c \<and> (d < 10 \<longrightarrow> is_digit c) \<and> (d < 8 \<longrightarrow> is_odigit c))
     (zip ''0123456789abcdefABCDEF'' ([0..<16] @ [10..<16]))"
  by (simp add: upt_rec xdigit_val_def is_xdigit_def is_digit_def is_odigit_def in_range_def)

lemma digit_value_of_cases:
  assumes "digit_value_of c = Some d"
  shows "xdigit_val c = d" "is_xdigit c" "d < 10 \<Longrightarrow> is_digit c" "d < 8 \<Longrightarrow> is_odigit c"
proof -
  have "(c, d) \<in> set (zip ''0123456789abcdefABCDEF'' ([0..<16] @ [10..<16]))"
    using assms map_of_SomeD unfolding digit_value_of_def by fast
  with digits_checked have "xdigit_val c = d \<and> is_xdigit c \<and> (d < 10 \<longrightarrow> is_digit c) \<and> (d < 8 \<longrightarrow> is_odigit c)"
    unfolding list_all_iff by fastforce
  then show "xdigit_val c = d" "is_xdigit c" "d < 10 \<Longrightarrow> is_digit c" "d < 8 \<Longrightarrow> is_odigit c" by blast+
qed

lemma place_value_digits:
  "place_value b ds = Some n \<Longrightarrow>
     list_all (\<lambda>c. \<exists>d. digit_value_of c = Some d \<and> d < b) ds \<and>
     (\<forall>acc. foldl (\<lambda>n c. n * b + xdigit_val c) acc ds = acc * b ^ length ds + n)"
proof (induction ds arbitrary: n)
  case (Cons c ds)
  then obtain d v where d: "digit_value_of c = Some d" "place_value b ds = Some v" "d < b" "n = d * b ^ length ds + v"
    by (auto split: option.splits if_splits)
  then show ?case using Cons.IH [OF d(2)] digit_value_of_cases(1) [OF d(1)] by (simp add: algebra_simps)
qed simp

lemma place_value_read: "place_value b ds = Some n \<Longrightarrow> digits_value b ds = int n"
  using place_value_digits [of b ds n] by (simp add: digits_value_def)

lemma takeWhile_id: "list_all P xs \<Longrightarrow> takeWhile P xs = xs"
  by (simp add: list_all_iff takeWhile_eq_all_conv)

text \<open>The suffixes of signed constants.\<close>

definition signed_suffixes :: "string list" where
  "signed_suffixes = ['''', ''l'', ''L'', ''ll'', ''LL'']"

lemma drop_suffix_body:
  assumes "drop (length (without_suffix s)) s \<in> set signed_suffixes"
  shows "drop_suffix s = without_suffix s"
proof -
  let ?P = "\<lambda>c. c \<in> {CHR ''u'', CHR ''U'', CHR ''l'', CHR ''L''}"
  define suf where "suf = drop (length (without_suffix s)) s"
  have s: "s = without_suffix s @ suf"
    by (simp add: suf_def without_suffix_def dropWhile_eq_drop [symmetric])
  have suf: "list_all ?P suf" using assms by (auto simp: suf_def [symmetric] signed_suffixes_def)
  have body: "list_all (\<lambda>c. \<not> ?P c) (without_suffix s)"
    by (auto simp: without_suffix_def list_all_iff dest: set_takeWhileD)
  have "dropWhile ?P (rev suf @ rev (without_suffix s)) = dropWhile ?P (rev (without_suffix s))"
    using suf by (intro dropWhile_append2) (auto simp: list_all_iff)
  also have "\<dots> = rev (without_suffix s)"
    using body by (cases "rev (without_suffix s)") (auto simp: list_all_iff rev_eq_Cons_iff)
  finally show ?thesis by (subst s) (simp add: drop_suffix_def)
qed

lemma c_integer_read:
  assumes "c_integer s = Some n" "int n < 2 ^ 63"
  shows "strtol0 s = int n" "s \<noteq> []" "is_digit (hd s)"
proof -
  have clamp: "clamp_long (int n) = int n" using assms(2) by (simp add: clamp_long_def)
  consider (hex) "s \<noteq> []" "starts_hex s" "drop 2 s \<noteq> []" "place_value 16 (drop 2 s) = Some n"
    | (oct) "s \<noteq> []" "\<not> starts_hex s" "hd s = CHR ''0''" "place_value 8 s = Some n"
    | (dec) "s \<noteq> []" "\<not> starts_hex s" "hd s \<noteq> CHR ''0''" "place_value 10 s = Some n"
    using assms(1) by (auto simp: c_integer_def starts_hex_def split: if_splits)
  note c = this
  from c show "strtol0 s = int n"
  proof cases
    case hex
    then have "list_all is_xdigit (drop 2 s)"
      using place_value_digits [OF hex(4)] digit_value_of_cases(2) by (auto simp: list_all_iff)
    then show ?thesis
      using hex place_value_read [OF hex(4)] clamp by (cases "drop 2 s") (simp_all add: strtol0_def takeWhile_id)
  next
    case oct
    then have "list_all is_odigit s"
      using place_value_digits [OF oct(4)] digit_value_of_cases(4) by (auto simp: list_all_iff)
    then show ?thesis using oct place_value_read [OF oct(4)] clamp by (simp add: strtol0_def takeWhile_id)
  next
    case dec
    then have "list_all is_digit s"
      using place_value_digits [OF dec(4)] digit_value_of_cases(3) by (auto simp: list_all_iff)
    then show ?thesis using dec place_value_read [OF dec(4)] clamp by (simp add: strtol0_def takeWhile_id)
  qed
  from c show "s \<noteq> []" by cases
  from c show "is_digit (hd s)"
  proof cases
    case hex
    then show ?thesis by (cases s; cases "tl s") (auto simp: starts_hex_def is_digit_def in_range_def)
  next
    case oct
    then show ?thesis by (simp add: is_digit_def in_range_def)
  next
    case dec
    then show ?thesis
      using place_value_digits [OF dec(4)] digit_value_of_cases(3) by (cases s) auto
  qed
qed

text \<open>What the evaluator does not read as C does: the conditional operator, constants of more than 127
  characters, and character constants with other escapes than those of NUL, newline, tab, backslash and
  the single quote.\<close>

definition misread_in_if :: "string \<Rightarrow> bool" where
  "misread_in_if t \<longleftrightarrow> t = ''?'' \<or> 127 < length t
     \<or> take 2 t = [CHR 0x27, CHR 0x5C] \<and> take 1 (drop 2 t) \<notin> {''0'', ''n'', ''t'', [CHR 0x5C], [CHR 0x27]}"

lemma c_char_read:
  assumes "c_char t = Some v" "\<not> misread_in_if t"
  shows "char_value t = v" "t \<noteq> []" "hd t = CHR 0x27"
proof -
  consider (plain) c where "t = [CHR 0x27, c, CHR 0x27]" "c \<noteq> CHR 0x5C" "v = of_char c"
    | (escape) c where "t = [CHR 0x27, CHR 0x5C, c, CHR 0x27]" "map_of c_escapes c = Some v"
    using assms(1) by (auto simp: c_char_def split: list.splits if_splits)
  then have "char_value t = v \<and> t \<noteq> [] \<and> hd t = CHR 0x27"
  proof cases
    case plain
    then show ?thesis by (simp add: char_value_def char_at_def)
  next
    case escape
    then have "c \<in> {CHR ''0'', CHR ''n'', CHR ''t'', CHR 0x5C, CHR 0x27}" using assms(2) by (auto simp: misread_in_if_def)
    with escape show ?thesis by (auto simp: char_value_def char_at_def c_escapes_def)
  qed
  then show "char_value t = v" "t \<noteq> []" "hd t = CHR 0x27" by blast+
qed

lemma constant_derives:
  assumes "constant_of 64 signed_suffixes t = Some v" "\<not> misread_in_if t"
  shows "derives 10 [t] v"
proof (cases "t \<noteq> [] \<and> hd t = CHR 0x27")
  case True
  then have "c_char t = Some v" using assms(1) by (simp add: constant_of_def)
  from c_char_read [OF this assms(2)] d_char [of t] show ?thesis by simp
next
  case False
  then obtain n where n: "drop (length (without_suffix t)) t \<in> set signed_suffixes"
    "c_integer (without_suffix t) = Some n" "v = int n" "int n < 2 ^ 63"
    using assms(1) by (auto simp: constant_of_def bind_eq_Some_conv signed_range_def split: if_splits)
  have "take 127 t = t" using assms(2) by (simp add: misread_in_if_def)
  moreover note r = c_integer_read [OF n(2,4)]
  ultimately have "number_value t = v" using drop_suffix_body [OF n(1)] n(3) by (simp add: number_value_def)
  moreover have "t \<noteq> []" "is_digit (hd t)"
  proof -
    obtain c cs where c: "without_suffix t = c # cs" using r(2) by (cases "without_suffix t") auto
    then have "t \<noteq> [] \<and> hd t = c" by (cases t) (auto simp: without_suffix_def split: if_splits)
    with r(3) c show "t \<noteq> []" "is_digit (hd t)" by auto
  qed
  ultimately show ?thesis using d_number [of t] by simp
qed

subsection \<open>Operators compute what C computes\<close>

lemma quotient_sdiv: "quotient a b = a sdiv b" "remainder a b = a smod b"
proof -
  show q: "quotient a b = a sdiv b"
    by (cases "a = 0"; cases "b = 0")
      (auto simp: quotient_def signed_divide_int_def sgn_if abs_if not_less)
  show "remainder a b = a smod b"
    using sdiv_mult_smod_eq [of a b] by (simp add: remainder_def q algebra_simps)
qed

lemma signed_range_long: "signed_range 64 v = Some x \<Longrightarrow> c_long v = Inr v \<and> x = v"
  by (auto simp: signed_range_def c_long_def split: if_splits)

lemma prefix_derives:
  assumes "signed_prefix 64 op a = Some v" "derives 10 ts a"
  shows "derives 10 (op # ts) v"
proof -
  consider "op = ''-''" "signed_range 64 (- a) = Some v" | "op = ''+''" "v = a" | "op = ''~''" "v = - a - 1"
    | "op = ''!''" "v = flag (a = 0)"
    using assms(1) by (auto simp: signed_prefix_def split: if_splits)
  then show ?thesis
  proof cases
    case 1
    then show ?thesis using d_neg [OF assms(2)] signed_range_long by auto
  next
    case 2
    then show ?thesis using d_plus [OF assms(2)] by simp
  next
    case 3
    then show ?thesis using d_compl [OF assms(2)] by (simp add: not_int_def)
  next
    case 4
    then show ?thesis using d_not [OF assms(2)] by (simp add: c_bool_def flag_def)
  qed
qed

text \<open>The operators of an \<^verbatim>\<open>#if\<close> expression, where a division by zero gives 0.\<close>

lemma signed_binary_ops:
  "signed_binary z w op a b \<noteq> None \<Longrightarrow>
   op \<in> {''*'', ''/'', ''%'', ''+'', ''-'', ''<<'', ''>>'', ''<'', ''>'', ''<='', ''>='', ''=='', ''!='', ''&'', ''^'', ''|''}"
  by (simp add: signed_binary_def split: if_splits)

lemma signed_binary_apply:
  assumes "signed_binary (Some 0) 64 op a b = Some v"
  shows "apply_op op a b = Inr v"
proof -
  note long = signed_range_long [of "a * b"] signed_range_long [of "a + b"] signed_range_long [of "a - b"]
    signed_range_long [of "a * 2 ^ nat b"] signed_range_long [of "a sdiv b"]
  have "signed_binary (Some 0) 64 op a b \<noteq> None" using assms by simp
  from signed_binary_ops [OF this] assms show ?thesis
    unfolding insert_iff empty_iff
    by (elim disjE FalseE)
      (auto simp: signed_binary_def apply_op_def c_bool_def flag_def quotient_sdiv split: if_splits dest: long)
qed

lemma logical_apply:
  "apply_op ''&&'' a b = Inr (flag (a \<noteq> 0 \<and> b \<noteq> 0))" "apply_op ''||'' a b = Inr (flag (a \<noteq> 0 \<or> b \<noteq> 0))"
  by (simp_all add: apply_op_def c_bool_def flag_def)

subsection \<open>Phrases of C are read\<close>

text \<open>The levels of the evaluator and the nonterminals.\<close>

definition level_of :: "nonterm \<Rightarrow> nat" where
  "level_of X = (if X \<le> Cast then 10 else 13 - rank X)"

lemma derives_lower: "derives j ts v \<Longrightarrow> k \<le> j \<Longrightarrow> j \<le> 10 \<Longrightarrow> derives k ts v"
proof (induction "j - k" arbitrary: k)
  case (Suc d)
  have "derives (k + 1) ts v" by (rule Suc.hyps(1)) (use Suc in auto)
  moreover have "k < 10" using Suc.hyps(2) Suc.prems by linarith
  ultimately show ?case using d_tighter by blast
qed simp

lemma level_of_le: "level_of X \<le> 10"
  by (cases X) (simp_all add: level_of_def less_eq_nonterm_def)

lemma level_of_mono: "X \<le> Y \<Longrightarrow> level_of Y \<le> level_of X"
  by (auto simp: level_of_def less_eq_nonterm_def)

lemma productions_checked:
  "list_all (\<lambda>(op, Y, Z). op \<in> set (ops_at (level_of Y)) \<and> level_of Z = level_of Y + 1 \<and> level_of Y < 10 \<and> Y \<le> Logical_Or)
     binary_productions"
  by (simp add: binary_productions_def level_of_def less_eq_nonterm_def ops_at_def level_ops_def)

lemma production_levels:
  assumes "map_of binary_productions op = Some (Y, Z)"
  shows "op \<in> set (ops_at (level_of Y))" "level_of Z = level_of Y + 1" "level_of Y < 10" "Y \<le> Logical_Or"
  using productions_checked map_of_SomeD [OF assms] by (auto simp: list_all_iff)

abbreviation if_value :: "int option \<Rightarrow> c_expr \<Rightarrow> int option" where
  "if_value z \<equiv> signed_value z 64 signed_suffixes"

lemma valued_phrase:
  assumes "c_phrase X e" "if_value z e \<noteq> None" "\<not> (\<exists>c q t k f. e = E_Cond c q t k f)"
  shows "c_phrase Logical_Or e"
proof (cases e)
  case (E_Binary l t r)
  with assms(1) obtain Y Z where y: "map_of binary_productions (tk_text t) = Some (Y, Z)" "c_phrase Y l" "c_phrase Z r"
    by (auto split: option.splits)
  with production_levels(4) [OF y(1)] E_Binary show ?thesis by simp
qed (use assms in \<open>auto simp: less_eq_nonterm_def\<close>)

text \<open>Every part of the expression has a value, those that \<^verbatim>\<open>&&\<close> and \<^verbatim>\<open>||\<close> skip included, when a division by
  zero counts as 0, and is spelled as the evaluator reads it.\<close>

definition read_in_if :: "c_expr \<Rightarrow> bool" where
  "read_in_if e \<longleftrightarrow> list_all (\<lambda>s. if_value (Some 0) s \<noteq> None) (phrases_in e)
     \<and> list_all (\<lambda>t. \<not> misread_in_if (tk_text t)) (tokens_of e)"

abbreviation texts_of :: "c_expr \<Rightarrow> string list" where
  "texts_of e \<equiv> map tk_text (tokens_of e)"

lemma binary_if_value:
  assumes "if_value (Some 0) (E_Binary l t r) = Some v" "if_value (Some 0) l = Some a" "if_value (Some 0) r = Some b"
  shows "apply_op (tk_text t) a b = Inr v"
  using assms signed_binary_apply [of "tk_text t" a b v]
  by (cases "tk_text t = ''&&''"; cases "tk_text t = ''||''"; cases "a = 0") (simp_all add: logical_apply flag_def)

lemma phrase_derives:
  "c_phrase X e \<Longrightarrow> X \<le> Logical_Or \<Longrightarrow> if_value (Some 0) e = Some v \<Longrightarrow> read_in_if e \<Longrightarrow>
   derives (level_of X) (texts_of e) v"
proof (induction e arbitrary: X v)
  case (E_Const t)
  then have "derives 10 [tk_text t] v" by (intro constant_derives) (simp_all add: read_in_if_def)
  then show ?case using derives_lower level_of_le by simp
next
  case (E_Paren a e b)
  have "\<not> (\<exists>c q t k f. e = E_Cond c q t k f)"
    using E_Paren.prems(1,4) by (auto simp: read_in_if_def misread_in_if_def)
  with E_Paren.prems have "c_phrase Logical_Or e" by (auto intro: valued_phrase)
  with E_Paren.prems have "derives (level_of Logical_Or) (texts_of e) v"
    by (intro E_Paren.IH) (auto simp: read_in_if_def)
  then have "derives 10 ([''(''] @ texts_of e @ ['')'']) v"
    by (intro d_paren) (simp add: level_of_def less_eq_nonterm_def)
  then show ?case using E_Paren.prems(1) derives_lower level_of_le by simp
next
  case (E_Prefix t e)
  then obtain a where a: "if_value (Some 0) e = Some a" "signed_prefix 64 (tk_text t) a = Some v"
    by (auto simp: bind_eq_Some_conv)
  then have "tk_text t \<notin> {''++'', ''--'', ''sizeof''}" by (auto simp: signed_prefix_def)
  then have "c_phrase Cast e" using E_Prefix.prems(1) by auto
  then have "derives (level_of Cast) (texts_of e) a"
    using E_Prefix.prems(4) a(1) by (intro E_Prefix.IH) (simp_all add: read_in_if_def less_eq_nonterm_def)
  then have "derives 10 (tk_text t # texts_of e) v" using a(2) by (intro prefix_derives) (simp_all add: level_of_def)
  then show ?case using derives_lower level_of_le by simp
next
  case (E_Binary l t r)
  then obtain Y Z where y: "map_of binary_productions (tk_text t) = Some (Y, Z)" "Y \<le> X" "c_phrase Y l" "c_phrase Z r"
    by (auto split: option.splits)
  note lev = production_levels [OF y(1)]
  have part: "m \<in> {l, r} \<Longrightarrow> read_in_if m \<and> if_value (Some 0) m \<noteq> None" for m
    using E_Binary.prems(4) phrases_in_self [of l] phrases_in_self [of r] by (auto simp: read_in_if_def list_all_iff)
  then obtain a b where v: "if_value (Some 0) l = Some a" "if_value (Some 0) r = Some b" by blast
  have z: "Z \<le> Logical_Or" using lev(2,3) by (cases Z) (simp_all add: level_of_def less_eq_nonterm_def)
  have "derives (level_of Y) (texts_of l) a" using E_Binary.IH(1) [OF y(3) lev(4) v(1)] part by simp
  moreover have "derives (level_of Y + 1) (texts_of r) b" using E_Binary.IH(2) [OF y(4) z v(2)] part lev(2) by simp
  ultimately have "derives (level_of Y) (texts_of l @ [tk_text t] @ texts_of r) v"
    using lev(1,3) binary_if_value [OF E_Binary.prems(3) v] by (intro d_binary)
  then show ?case using derives_lower [OF _ level_of_mono [OF y(2)] level_of_le] by simp
qed (simp_all add: less_eq_nonterm_def)

lemma derives_evaluated:
  assumes "derives 0 ts v"
  shows "eval_tokens ts = Inr v"
proof -
  have nt: "ep_peek [] \<notin> set (ops_at j)" for j using ops_at_nonempty by (simp add: ep_peek_def)
  have "runs (\<lambda>n. ep_level n 0 (ts @ [])) (v, [])"
    by (rule derives_runs [OF assms]) (use nt runs_loop_stop in \<open>auto simp: ep_peek_def\<close>)
  then obtain n where n: "\<And>m. n \<le> m \<Longrightarrow> ep_level m 0 ts = Inr (v, [])"
    using runs_max [of "\<lambda>n. ep_level n 0 ts" "(v, [])", OF _ ep_level_settled] unfolding append_Nil2 by blast
  let ?f = "13 * length ts + 13"
  have "settled (ep_level ?f 0 ts) (ep_level (max n ?f) 0 ts)" by (rule ep_level_settled) simp
  then have "ep_level ?f 0 ts = Inr (v, [])"
    using ep_enough(1) [of 0 ts ?f] n [of "max n ?f"] by (simp add: settled_def)
  then show ?thesis by (simp add: eval_tokens_def)
qed

text \<open>
  C4: \<^verbatim>\<open>#if\<close> expressions have the values C gives them: if the tokens spell a logical-OR-expression of C's
  grammar and C's rules give it a value in the signed 64-bit type of preprocessor arithmetic -- 
  decimal, octal and hexadecimal constants with the suffixes of signed types, character constants, unary \<^verbatim>\<open>-\<close>,
  \<^verbatim>\<open>+\<close>, \<^verbatim>\<open>~\<close> and \<^verbatim>\<open>!\<close>, the eighteen binary operators, with \<^verbatim>\<open>&&\<close> and \<^verbatim>\<open>||\<close> not looking at an operand they do not
  need -- then the evaluator returns this value.  It holds for expressions without the conditional operator,
  unsigned constants, the character escapes that the evaluator misreads and constants of more than 127 characters,
  and in which the operands that \<^verbatim>\<open>&&\<close> and \<^verbatim>\<open>||\<close> skip do not overflow, a division by zero in them excepted, since
  the evaluator computes them.
\<close>

theorem eval_tokens_grammar:
  assumes "c_phrase Logical_Or e" "signed_value None 64 signed_suffixes e = Some v"
    and "list_all (\<lambda>s. signed_value (Some 0) 64 signed_suffixes s \<noteq> None) (phrases_in e)"
    and "list_all (\<lambda>t. \<not> misread_in_if (tk_text t)) (tokens_of e)"
  shows "eval_tokens (map tk_text (tokens_of e)) = Inr v"
proof (rule derives_evaluated)
  have "derives (level_of Logical_Or) (texts_of e) v"
    by (rule phrase_derives) (use assms signed_value_zero [OF assms(2)] in \<open>simp_all add: read_in_if_def\<close>)
  then show "derives 0 (texts_of e) v" by (simp add: level_of_def less_eq_nonterm_def)
qed

text \<open>\<open>(1 - 2l - 010 % 0x3 >= -'\n') || 0 && 1 / 0\<close>.\<close>

definition sample_condition :: c_expr where
  "sample_condition =
     (let T = (\<lambda>w. \<lparr>tk_text = w, tk_line = 1, tk_col = 1\<rparr>); K = (\<lambda>w. E_Const (T w)); B = (\<lambda>l op r. E_Binary l (T op) r)
      in B (E_Paren (T ''('')
              (B (B (B (K ''1'') ''-'' (K ''2l'')) ''-'' (B (K ''010'') ''%'' (K ''0x3''))) ''>=''
                 (E_Prefix (T ''-'') (K [CHR 0x27, CHR 0x5C, CHR ''n'', CHR 0x27])))
              (T '')''))
           ''||'' (B (K ''0'') ''&&'' (B (K ''1'') ''/'' (K ''0''))))"

lemma eval_tokens_grammar_witness:
  "eval_tokens (map tk_text (tokens_of sample_condition)) = Inr 1"
proof (rule eval_tokens_grammar)
  note evals = constant_of_def without_suffix_def signed_suffixes_def c_integer_def digit_value_of_def upt_rec c_char_def c_escapes_def
    signed_range_def signed_binary_def signed_prefix_def quotient_def remainder_def flag_def
  show "c_phrase Logical_Or sample_condition"
    by (simp add: sample_condition_def Let_def binary_productions_def less_eq_nonterm_def c_constant_def is_digit_def in_range_def)
  show "signed_value None 64 signed_suffixes sample_condition = Some 1"
    by (simp add: sample_condition_def Let_def evals)
  show "list_all (\<lambda>s. signed_value (Some 0) 64 signed_suffixes s \<noteq> None) (phrases_in sample_condition)"
    by (simp add: sample_condition_def Let_def evals)
  show "list_all (\<lambda>t. \<not> misread_in_if (tk_text t)) (tokens_of sample_condition)"
    by (simp add: sample_condition_def Let_def misread_in_if_def)
qed

text \<open>The conditional operator is not read, constants with \<^verbatim>\<open>u\<close> are signed, and other escapes are the code of the
  backslash: \<open>0 ? 0 : 1\<close> is 1 in C, \<open>-1 < 0u\<close> is 0, and \<open>'\a'\<close> is 7.\<close>

lemma if_misread:
  "eval_tokens [''0'', ''?'', ''0'', '':'', ''1''] = Inr 0"
  "eval_tokens [''-'', ''1'', ''<'', ''0u''] = Inr 1"
  "eval_tokens [[CHR 0x27, CHR 0x5C, CHR ''a'', CHR 0x27]] = Inr 92"
  by code_simp+

text \<open>
  The \<open>defined\<close> operator is recognised inside other names: an identifier that ends in \<open>defined\<close> is cut
  up, its tail read as the operator and the following name consumed as the operand.
\<close>

lemma replace_defined_inside_names:
  "replace_defined Map.empty ''undefined X+1'' = ''un0+1''"
  by code_simp

end
