(* ===== verification/Pp_Expand.thy ===== *)
theory Pp_Expand
  imports Lexer_Props
begin

text \<open>
  The preprocessing-token expander of \<^verbatim>\<open>src/src/preprocessor.c\<close>: \<^verbatim>\<open>pp_tokenize\<close>, \<^verbatim>\<open>pp_stringize\<close>,
  \<^verbatim>\<open>pp_paste_onto_last\<close>, \<^verbatim>\<open>pp_substitute\<close>, \<^verbatim>\<open>pp_expand_tokens\<close> and \<^verbatim>\<open>expand_active_line\<close>.

  Of the tokens only the texts matter here (\<^verbatim>\<open>pp_tok\<close> clears line and column).  The counter of
  \<^verbatim>\<open>__COUNTER__\<close> is threaded through.  \<^verbatim>\<open>pp_substitute\<close> calls \<^verbatim>\<open>pp_expand_tokens\<close> again for the
  arguments; the nesting of these calls takes fuel.  The line base that \<^verbatim>\<open>expand_active_line\<close> sets is
  the current line of the environment, and no call happens before it is set.
\<close>

type_synonym texts_result = "lex_error + string list \<times> int"

subsection \<open>Tokens in and out\<close>

definition pp_tokenize :: "lex_env \<Rightarrow> string \<Rightarrow> int \<Rightarrow> texts_result" where
  "pp_tokenize env s cnt =
     bnd (lex_raw env (replicate (nat (le_line env - 1)) CHR 0x0A @ s) cnt) (\<lambda>(ts, cnt').
     Inr (if ts \<noteq> [] \<and> tk_text (last ts) = ''EOF'' then map tk_text (butlast ts) else map tk_text ts, cnt'))"

definition spaced :: "string list \<Rightarrow> string" where
  "spaced ts = (case ts of [] \<Rightarrow> [] | t # us \<Rightarrow> t @ concat (map (\<lambda>u. CHR '' '' # u) us))"

definition pp_stringize :: "string list \<Rightarrow> string" where
  "pp_stringize ts = quote_text (spaced ts)"

definition pp_paste_onto_last :: "string list \<Rightarrow> string \<Rightarrow> string list" where
  "pp_paste_onto_last out t = (if out = [] then [t] else butlast out @ [last out @ t])"

fun strstr :: "string \<Rightarrow> string \<Rightarrow> bool" where
  "strstr [] t \<longleftrightarrow> t = []"
| "strstr (c # s) t \<longleftrightarrow> take (length t) (c # s) = t \<or> strstr s t"

subsection \<open>Substitution of a function-like macro\<close>

definition vararg_idx :: "macro \<Rightarrow> nat option" where
  "vararg_idx m = find_param (m_params m) ''...''"

definition param_index :: "macro \<Rightarrow> string \<Rightarrow> nat option" where
  "param_index m t = (if t = ''__VA_ARGS__'' \<and> vararg_idx m \<noteq> None then vararg_idx m else find_param (m_params m) t)"

definition comma_args :: "string list list \<Rightarrow> string list" where
  "comma_args as = (case as of [] \<Rightarrow> [] | a # bs \<Rightarrow> a @ concat (map (\<lambda>b. '','' # b) bs))"

definition arg_tokens :: "macro \<Rightarrow> string list list \<Rightarrow> nat \<Rightarrow> string list" where
  "arg_tokens m args p =
     (if vararg_idx m = Some p then comma_args (drop p args)
      else if p < length args then args ! p else [])"

definition empty_statement :: "string list" where
  "empty_statement = [''do'', ''{'', ''}'', ''while'', ''('', ''0'', '')'']"

definition recursive_object :: "(string \<Rightarrow> macro option) \<Rightarrow> string list \<Rightarrow> bool" where
  "recursive_object ms sub =
     (case sub of
        [t] \<Rightarrow> (case ms t of Some m \<Rightarrow> \<not> m_function_like m \<and> strstr (m_body m) t | None \<Rightarrow> False)
      | _ \<Rightarrow> False)"

text \<open>The tokens a body token stands for, arguments expanded with \<open>ex\<close> unless they are pasted.\<close>

definition substituted ::
  "(string list \<Rightarrow> int \<Rightarrow> texts_result) \<Rightarrow> (string \<Rightarrow> macro option) \<Rightarrow> macro \<Rightarrow> string list list \<Rightarrow> bool \<Rightarrow>
   string \<Rightarrow> int \<Rightarrow> texts_result" where
  "substituted ex ms m args raw t cnt =
     (case param_index m t of
        None \<Rightarrow> Inr ([t], cnt)
      | Some p \<Rightarrow>
          (let sub = arg_tokens m args p in
           if raw \<or> recursive_object ms sub then Inr (sub, cnt) else ex sub cnt))"

definition append_sub :: "bool \<Rightarrow> string list \<Rightarrow> string list \<Rightarrow> string list" where
  "append_sub pending out sub =
     (if pending \<and> sub \<noteq> [] then pp_paste_onto_last out (hd sub) @ tl sub else out @ sub)"

fun subst_loop ::
  "(string list \<Rightarrow> int \<Rightarrow> texts_result) \<Rightarrow> (string \<Rightarrow> macro option) \<Rightarrow> macro \<Rightarrow> string list list \<Rightarrow> bool \<Rightarrow>
   string list \<Rightarrow> string list \<Rightarrow> int \<Rightarrow> texts_result" where
  "subst_loop ex ms m args pending out [] cnt = Inr (out, cnt)"
| "subst_loop ex ms m args pending out (t # ts) cnt =
     (if t = ''#'' \<and> ts \<noteq> [] \<and> param_index m (hd ts) \<noteq> None then
        subst_loop ex ms m args pending (out @ [pp_stringize (arg_tokens m args (the (param_index m (hd ts))))]) (tl ts) cnt
      else if t = ''##'' then
        (if ts \<noteq> [] \<and> hd ts = ''__VA_ARGS__'' \<and> vararg_idx m \<noteq> None \<and> out \<noteq> [] \<and> last out = '','' then
           subst_loop ex ms m args pending (if length args \<le> the (vararg_idx m) then butlast out else out) ts cnt
         else subst_loop ex ms m args True out ts cnt)
      else
        bnd (substituted ex ms m args (pending \<or> ts \<noteq> [] \<and> hd ts = ''##'') t cnt) (\<lambda>(sub, cnt').
        subst_loop ex ms m args False (append_sub pending out sub) ts cnt'))"

definition pp_substitute ::
  "(string list \<Rightarrow> int \<Rightarrow> texts_result) \<Rightarrow> (string \<Rightarrow> macro option) \<Rightarrow> lex_env \<Rightarrow> macro \<Rightarrow> string list list \<Rightarrow>
   int \<Rightarrow> texts_result" where
  "pp_substitute ex ms env m args cnt =
     bnd (pp_tokenize env (m_body m) cnt) (\<lambda>(body, cnt').
     if body = empty_statement then Inr ([''0''], cnt')
     else subst_loop ex ms m args False [] body cnt')"

subsection \<open>Expansion with hide sets\<close>

type_synonym hidden = "string \<times> string list"

definition pp_hide_add :: "string list \<Rightarrow> string \<Rightarrow> string list" where
  "pp_hide_add h n = (if n \<in> set h then h else h @ [n])"

text \<open>The arguments after an opening parenthesis; a list cut off by the end of the line loses its last one.\<close>

fun pp_args :: "nat \<Rightarrow> string list \<Rightarrow> hidden list \<Rightarrow> string list list \<times> hidden list" where
  "pp_args depth cur [] = ([], [])"
| "pp_args depth cur ((t, h) # rem) =
     (if t = ''('' then pp_args (depth + 1) (cur @ [t]) rem
      else if t = '')'' then if depth = 0 then ([cur], rem) else pp_args (depth - 1) (cur @ [t]) rem
      else if t = '','' \<and> depth = 0 then (let (as, r) = pp_args depth [] rem in (cur # as, r))
      else pp_args depth (cur @ [t]) rem)"

fun paste_body :: "string list \<Rightarrow> string list \<Rightarrow> string list" where
  "paste_body acc [] = acc"
| "paste_body acc (t # ts) =
     (if t = ''##'' \<and> acc \<noteq> [] \<and> ts \<noteq> [] then paste_body (pp_paste_onto_last acc (hd ts)) (tl ts)
      else paste_body (acc @ [t]) ts)"

definition step_cap :: int where "step_cap = 100000"

text \<open>What the token at the head becomes: itself, or a replacement for it and its arguments.
  \<^verbatim>\<open>args\<close> has room for 64 arguments; more than that are written past its end.\<close>

definition invocation ::
  "(string list \<Rightarrow> int \<Rightarrow> texts_result) \<Rightarrow> (string \<Rightarrow> macro option) \<Rightarrow> lex_env \<Rightarrow> string \<Rightarrow> string list \<Rightarrow>
   hidden list \<Rightarrow> int \<Rightarrow> lex_error + (string list \<times> hidden list \<times> int) option" where
  "invocation ex ms env name hide rem cnt =
     (case (if name \<in> set hide then None else ms name) of
        None \<Rightarrow> Inr None
      | Some m \<Rightarrow>
          if \<not> m_function_like m then
            bnd (pp_tokenize env (m_body m) cnt) (\<lambda>(body, cnt'). Inr (Some (paste_body [] body, rem, cnt')))
          else if rem = [] \<or> fst (hd rem) \<noteq> ''('' then Inr None
          else
            (let (as, rest) = pp_args 0 [] (tl rem); args = (if as = [[]] then [] else as) in
             if 64 < length args then Inl C_Undefined
             else bnd (pp_substitute ex ms env m args cnt) (\<lambda>(repl, cnt'). Inr (Some (repl, rest, cnt')))))"

function expand_loop ::
  "(string list \<Rightarrow> int \<Rightarrow> texts_result) \<Rightarrow> (string \<Rightarrow> macro option) \<Rightarrow> lex_env \<Rightarrow> int \<Rightarrow> string list \<Rightarrow>
   hidden list \<Rightarrow> int \<Rightarrow> texts_result" where
  "expand_loop ex ms env steps out rem cnt =
     (case rem of
        [] \<Rightarrow> Inr (out, cnt)
      | (name, hide) # rem' \<Rightarrow>
          if steps + 1 > step_cap then Inr (out, cnt)
          else bnd (invocation ex ms env name hide rem' cnt) (\<lambda>r.
            case r of
              None \<Rightarrow> expand_loop ex ms env (steps + 1) (out @ [name]) rem' cnt
            | Some (repl, rest, cnt') \<Rightarrow>
                expand_loop ex ms env (steps + 1) out (map (\<lambda>t. (t, pp_hide_add hide name)) repl @ rest) cnt'))"
  by pat_completeness auto
termination
  by (relation "measure (\<lambda>(_, _, _, steps, _, _, _). nat (step_cap - steps))") auto

declare expand_loop.simps [simp del]

fun pp_expand_tokens :: "nat \<Rightarrow> (string \<Rightarrow> macro option) \<Rightarrow> lex_env \<Rightarrow> string list \<Rightarrow> int \<Rightarrow> texts_result" where
  "pp_expand_tokens 0 ms env ts cnt = Inl Lex_Fuel"
| "pp_expand_tokens (Suc n) ms env ts cnt =
     expand_loop (pp_expand_tokens n ms env) ms env 0 [] (map (\<lambda>t. (t, [])) ts) cnt"

subsection \<open>A line\<close>

text \<open>The tokens separated by blanks, with a semicolon restored after \<open>while (0)\<close>.\<close>

definition ends_while_0 :: "string list \<Rightarrow> nat \<Rightarrow> bool" where
  "ends_while_0 ts i \<longleftrightarrow> 3 \<le> i \<and> ts ! (i - 3) = ''while'' \<and> ts ! (i - 2) = ''('' \<and> ts ! (i - 1) = ''0'' \<and> ts ! i = '')''
     \<and> (length ts \<le> i + 1 \<or> ts ! (i + 1) \<noteq> '';'')"

definition line_text :: "string list \<Rightarrow> string" where
  "line_text ts = concat (map (\<lambda>i. ts ! i @ '' '' @ (if ends_while_0 ts i then ''; '' else [])) [0..<length ts])"

definition expand_active_line ::
  "nat \<Rightarrow> (string \<Rightarrow> macro option) \<Rightarrow> lex_env \<Rightarrow> string \<Rightarrow> int \<Rightarrow> lex_error + string \<times> int" where
  "expand_active_line n ms env line cnt =
     bnd (pp_tokenize env line cnt) (\<lambda>(ts, cnt1).
     bnd (pp_expand_tokens n ms env ts cnt1) (\<lambda>(us, cnt2).
     Inr (line_text us, cnt2)))"

end
