(* ===== verification/Pp_Expand_Props.thy ===== *)
theory Pp_Expand_Props
  imports Pp_Expand
begin

text \<open>
  The token expander: lines without macros keep their tokens, object-like macros expand as the
  standard recursive expansion with painted names does, and three ways in which lines are
  changed or lost: the step cap, the semicolon put after \<open>while (0)\<close>, and arguments that recurse for ever.
\<close>

lemmas expand_loop_Cons = expand_loop.simps [of _ _ _ _ _ "(name, hide) # rem" for name hide rem, simplified]

subsection \<open>Lines without macros\<close>

lemma expand_loop_plain:
  assumes "\<forall>t\<in>set ts. ms t = None"
  shows "expand_loop ex ms env steps out (map (\<lambda>t. (t, [])) ts) cnt = Inr (out @ take (nat (step_cap - steps)) ts, cnt)"
  using assms
proof (induction ts arbitrary: steps out)
  case Nil
  show ?case by (simp add: expand_loop.simps)
next
  case (Cons t ts)
  show ?case
  proof (cases "steps + 1 > step_cap")
    case True
    then show ?thesis by (simp add: expand_loop.simps)
  next
    case False
    then have "nat (step_cap - steps) = Suc (nat (step_cap - (steps + 1)))" by simp
    then show ?thesis using False Cons by (subst expand_loop.simps) (simp add: invocation_def)
  qed
qed

lemma pp_expand_plain:
  "\<forall>t\<in>set ts. ms t = None \<Longrightarrow> pp_expand_tokens (Suc n) ms env ts cnt = Inr (take 100000 ts, cnt)"
  by (simp add: expand_loop_plain step_cap_def)

lemma line_text_plain: "\<forall>i<length ts. \<not> ends_while_0 ts i \<Longrightarrow> line_text ts = join_texts ts"
proof -
  assume a: "\<forall>i<length ts. \<not> ends_while_0 ts i"
  then have "line_text ts = concat (map (\<lambda>i. ts ! i @ '' '') [0..<length ts])"
    unfolding line_text_def by (intro arg_cong [where f = concat] map_cong) auto
  also have "\<dots> = concat (map (\<lambda>t. t @ '' '') (map ((!) ts) [0..<length ts]))" by (simp only: map_map comp_def)
  also have "\<dots> = join_texts ts" by (simp add: join_texts_def map_nth)
  finally show ?thesis .
qed

lemma pp_tokenize_good:
  assumes "pp_tokenize env s cnt = Inr (ts, cnt')" "0 \<le> le_line env" "0 \<le> cnt"
  shows "\<forall>t\<in>set ts. t = ''#'' \<or> good_text t"
proof -
  obtain us where us: "lex_raw env (replicate (nat (le_line env - 1)) CHR 0x0A @ s) cnt = Inr (us, cnt')"
    and ts: "ts = (if us \<noteq> [] \<and> tk_text (last us) = ''EOF'' then map tk_text (butlast us) else map tk_text us)"
    using assms(1) by (auto simp: pp_tokenize_def)
  note lex_loop_plain [OF us [unfolded lex_raw_def] refl]
  then have "us \<noteq> []" "tk_text (last us) = ''EOF''" "\<forall>t\<in>set (butlast us). tk_text t = ''#'' \<or> good_text (tk_text t)"
    using assms(2,3) tiles_ne by blast+
  then show ?thesis using ts by auto
qed

text \<open>
  a line that names no macro comes out of the preprocessor with the tokens it had: lexing the
  text it expands to, wherever that happens, gives the texts of the line's own tokens, unless the line
  has a stray \<open>#\<close>, a \<open>while (0)\<close> without its semicolon, or more tokens than the step cap.
\<close>

lemma plain_line_keeps_tokens:
  assumes "pp_tokenize env line cnt = Inr (ts, cnt')" "0 \<le> le_line env" "0 \<le> cnt"
    and "\<forall>t\<in>set ts. ms t = None" "''#'' \<notin> set ts" "length ts \<le> 100000" "\<forall>i<length ts. \<not> ends_while_0 ts i"
  shows "\<exists>s us. expand_active_line (Suc n) ms env line cnt = Inr (s, cnt')
    \<and> lex_raw env' s cnt2 = Inr (us, cnt2) \<and> map tk_text us = ts @ [''EOF'']"
proof -
  have g: "\<forall>t\<in>set ts. good_text t" using pp_tokenize_good [OF assms(1-3)] assms(5) by auto
  have "expand_active_line (Suc n) ms env line cnt = Inr (join_texts ts, cnt')"
    using assms pp_expand_plain [OF assms(4)] line_text_plain [OF assms(7)]
    by (simp add: expand_active_line_def del: pp_expand_tokens.simps)
  then show ?thesis using lex_loop_join [OF g] unfolding lex_raw_def by metis
qed

abbreviation demo_env :: lex_env where "demo_env \<equiv> \<lparr>le_line = 1, le_file = ''a.c''\<rparr>"

lemma plain_line_keeps_tokens_witness:
  "\<exists>s us. expand_active_line 1 [''M'' \<mapsto> \<lparr>m_function_like = False, m_params = [], m_body = ''1''\<rparr>] demo_env ''x+=1;'' 0 = Inr (s, 0)
    \<and> lex_raw demo_env s 5 = Inr (us, 5) \<and> map tk_text us = [''x'', ''+='', ''1'', '';''] @ [''EOF'']"
proof -
  have t: "pp_tokenize demo_env ''x+=1;'' 0 = Inr ([''x'', ''+='', ''1'', '';''], 0)" by code_simp
  have w: "\<forall>i<length [''x'', ''+='', ''1'', '';'']. \<not> ends_while_0 [''x'', ''+='', ''1'', '';''] i"
    by (auto simp: ends_while_0_def nth_Cons split: nat.splits)
  show ?thesis
    using plain_line_keeps_tokens [OF t _ _ _ _ _ w, of "[''M'' \<mapsto> \<lparr>m_function_like = False, m_params = [], m_body = ''1''\<rparr>]" 0 demo_env 5]
    by simp
qed

text \<open>
  a line of more than 100000 tokens is cut off there without a word: the safety net of the
  expansion loop counts every token, also in lines that expand nothing.
\<close>

lemma long_lines_are_cut:
  assumes "\<forall>t\<in>set ts. ms t = None"
  shows "pp_expand_tokens (Suc n) ms env ts cnt = Inr (take 100000 ts, cnt)"
  using pp_expand_plain [OF assms] .

lemma long_lines_are_cut_witness:
  "pp_expand_tokens 1 Map.empty demo_env (replicate 100001 ''x'') 0 = Inr (replicate 100000 ''x'', 0)"
  using long_lines_are_cut [of "replicate 100001 ''x''" Map.empty 0 demo_env 0]
  by (simp del: pp_expand_tokens.simps add: take_replicate)

subsection \<open>Object-like macros\<close>

text \<open>
  \<open>expansion B h ts us k\<close>: with the names \<open>h\<close> painted, the tokens \<open>ts\<close> expand to \<open>us\<close>, looking at \<open>k\<close>
  tokens on the way; \<open>B\<close> gives the replacement lists.
\<close>

inductive expansion :: "(string \<Rightarrow> string list option) \<Rightarrow> string list \<Rightarrow> string list \<Rightarrow> string list \<Rightarrow> nat \<Rightarrow> bool" for B where
  x_nil: "expansion B h [] [] 0"
| x_keep: "t \<in> set h \<or> B t = None \<Longrightarrow> expansion B h ts us k \<Longrightarrow> expansion B h (t # ts) (t # us) (Suc k)"
| x_replace: "t \<notin> set h \<Longrightarrow> B t = Some body \<Longrightarrow> expansion B (h @ [t]) body vs j \<Longrightarrow> expansion B h ts us k \<Longrightarrow>
    expansion B h (t # ts) (vs @ us) (Suc (j + k))"

lemma expansion_exists:
  assumes "finite (dom B)"
  shows "\<exists>us k. expansion B h ts us k"
proof (induction "card (dom B - set h)" arbitrary: h ts rule: less_induct)
  case less
  show ?case
  proof (induction ts)
    case Nil
    show ?case using x_nil by blast
  next
    case (Cons t ts)
    then obtain us k where us: "expansion B h ts us k" by blast
    show ?case
    proof (cases "t \<in> set h \<or> B t = None")
      case True
      then show ?thesis using x_keep us by blast
    next
      case False
      then obtain body where b: "t \<notin> set h" "B t = Some body" by auto
      then have "dom B - set (h @ [t]) \<subset> dom B - set h" by auto
      then have "card (dom B - set (h @ [t])) < card (dom B - set h)" using assms by (intro psubset_card_mono) auto
      from less [OF this, of body] obtain vs j where "expansion B (h @ [t]) body vs j" by blast
      then have "expansion B h (t # ts) (vs @ us) (Suc (j + k))" using b us by (intro x_replace)
      then show ?thesis by blast
    qed
  qed
qed

definition object_bodies :: "(string \<Rightarrow> macro option) \<Rightarrow> lex_env \<Rightarrow> (string \<Rightarrow> string list option) \<Rightarrow> bool" where
  "object_bodies ms env B \<longleftrightarrow> (\<forall>t. (ms t = None \<longleftrightarrow> B t = None) \<and>
     (\<forall>m. ms t = Some m \<longrightarrow> \<not> m_function_like m \<and>
        (\<forall>c. \<exists>body. pp_tokenize env (m_body m) c = Inr (body, c) \<and> B t = Some (paste_body [] body))))"

lemma object_none: "object_bodies ms env B \<Longrightarrow> ms t = None \<longleftrightarrow> B t = None"
  by (simp add: object_bodies_def)

lemma expand_loop_expansion:
  assumes "expansion B h ts us k" "object_bodies ms env B" "steps + int k \<le> step_cap"
  shows "expand_loop ex ms env steps out (map (\<lambda>t. (t, h)) ts @ rem) cnt = expand_loop ex ms env (steps + int k) (out @ us) rem cnt"
  using assms(1,3)
proof (induction arbitrary: steps out rem rule: expansion.induct)
  case (x_nil h)
  show ?case by simp
next
  case (x_keep t h ts us k)
  then have "invocation ex ms env t h (map (\<lambda>t. (t, h)) ts @ rem) cnt = Inr None"
    using object_none [OF assms(2), of t] by (auto simp: invocation_def)
  then show ?case using x_keep by (subst expand_loop.simps) (simp add: ac_simps)
next
  case (x_replace t h body vs j ts us k)
  then obtain m where m: "ms t = Some m" using object_none [OF assms(2), of t] by (cases "ms t") auto
  then obtain b where b: "pp_tokenize env (m_body m) cnt = Inr (b, cnt)" "\<not> m_function_like m" "body = paste_body [] b"
    using assms(2) x_replace(2) unfolding object_bodies_def by (metis option.inject)
  have "invocation ex ms env t h (map (\<lambda>t. (t, h)) ts @ rem) cnt = Inr (Some (body, map (\<lambda>t. (t, h)) ts @ rem, cnt))"
    using m b x_replace(1) by (simp add: invocation_def)
  moreover have "pp_hide_add h t = h @ [t]" using x_replace(1) by (simp add: pp_hide_add_def)
  ultimately have "expand_loop ex ms env steps out (map (\<lambda>t. (t, h)) (t # ts) @ rem) cnt =
      expand_loop ex ms env (steps + 1) out (map (\<lambda>u. (u, h @ [t])) body @ map (\<lambda>t. (t, h)) ts @ rem) cnt"
    using x_replace.prems by (subst expand_loop.simps) simp
  also have "\<dots> = expand_loop ex ms env (steps + 1 + int j) (out @ vs) (map (\<lambda>t. (t, h)) ts @ rem) cnt"
    using x_replace.prems by (intro x_replace.IH(1)) simp
  also have "\<dots> = expand_loop ex ms env (steps + 1 + int j + int k) ((out @ vs) @ us) rem cnt"
    using x_replace.prems by (intro x_replace.IH(2)) simp
  finally show ?case by (simp add: ac_simps)
qed

text \<open>
  C5: with object-like macros the hide sets implement C's rescanning: every token list has a standard
  expansion, in which a macro name is replaced by its rescanned body with the name painted there, and
  when that expansion looks at no more than 100000 tokens it is what \<^verbatim>\<open>pp_expand_tokens\<close> returns.
\<close>

theorem object_macros_expand:
  assumes "finite (dom ms)" "object_bodies ms env B"
  shows "\<exists>us k. expansion B [] ts us k \<and> (k \<le> 100000 \<longrightarrow> pp_expand_tokens (Suc n) ms env ts cnt = Inr (us, cnt))"
proof -
  have "dom B = dom ms" using object_none [OF assms(2)] unfolding dom_def by simp
  then obtain us k where x: "expansion B [] ts us k" using expansion_exists assms(1) by metis
  have "pp_expand_tokens (Suc n) ms env ts cnt = Inr (us, cnt)" if "k \<le> 100000"
    using expand_loop_expansion [OF x assms(2), of 0 _ "[]" "[]"] that
    by (simp add: step_cap_def expand_loop.simps [of _ _ _ _ _ "[]"])
  then show ?thesis using x by blast
qed

text \<open>Mutually recursive object-like macros.\<close>

definition ab_macros :: "string \<Rightarrow> macro option" where
  "ab_macros = [''A'' \<mapsto> \<lparr>m_function_like = False, m_params = [], m_body = ''B''\<rparr>,
     ''B'' \<mapsto> \<lparr>m_function_like = False, m_params = [], m_body = ''A''\<rparr>]"

lemma object_macros_expand_witness:
  "\<exists>us k. expansion [''A'' \<mapsto> [''B''], ''B'' \<mapsto> [''A'']] [] [''A''] us k
     \<and> (k \<le> 100000 \<longrightarrow> pp_expand_tokens 1 ab_macros demo_env [''A''] 3 = Inr (us, 3))"
proof -
  have l: "lex_raw demo_env ''A'' c = Inr ([mk_token ''A'' (1, 1), mk_token ''EOF'' (1, 2)], c)"
    "lex_raw demo_env ''B'' c = Inr ([mk_token ''B'' (1, 1), mk_token ''EOF'' (1, 2)], c)" for c
  proof -
    have s: "scan_item ''A'' = Word 1 ''A''" "scan_item ''B'' = Word 1 ''B''" by code_simp+
    have e: "lex_loop sub Map.empty [] env [] p c = Inr ([mk_token ''EOF'' p], c)" for sub env p
      by (subst lex_loop.simps) simp
    show "lex_raw demo_env ''A'' c = Inr ([mk_token ''A'' (1, 1), mk_token ''EOF'' (1, 2)], c)"
      "lex_raw demo_env ''B'' c = Inr ([mk_token ''B'' (1, 1), mk_token ''EOF'' (1, 2)], c)"
      unfolding lex_raw_def by (subst lex_loop.simps, simp add: s e expand_word_def special_word_def)+
  qed
  have "object_bodies ab_macros demo_env [''A'' \<mapsto> [''B''], ''B'' \<mapsto> [''A'']]"
    by (simp add: object_bodies_def ab_macros_def pp_tokenize_def l mk_token_def)
  moreover have "finite (dom ab_macros)" by (simp add: ab_macros_def)
  ultimately show ?thesis using object_macros_expand [of ab_macros demo_env _ "[''A'']" 0 3] by simp
qed

subsection \<open>Where lines go wrong\<close>

text \<open>
  \<open>while (0)\<close> loses its body: the semicolon that repairs statement macros is put between the
  header of an ordinary loop and its body as well, so the body is executed.
\<close>

lemma while_0_loses_body:
  "expand_active_line 1 Map.empty demo_env ''while (0) f();'' 0 = Inr (''while ( 0 ) ; f ( ) ; '', 0)"
proof -
  have t: "pp_tokenize demo_env ''while (0) f();'' 0 = Inr ([''while'', ''('', ''0'', '')'', ''f'', ''('', '')'', '';''], 0)"
    by code_simp
  have "line_text [''while'', ''('', ''0'', '')'', ''f'', ''('', '')'', '';''] = ''while ( 0 ) ; f ( ) ; ''"
    by code_simp
  then show ?thesis
    using pp_expand_plain [of "[''while'', ''('', ''0'', '')'', ''f'', ''('', '')'', '';'']" Map.empty 0 demo_env 0]
    by (simp add: expand_active_line_def t del: pp_expand_tokens.simps)
qed

text \<open>An argument that names the macro being expanded: the paint on it is lost when it is expanded first.\<close>

definition fg_macros :: "string \<Rightarrow> macro option" where
  "fg_macros = [''f'' \<mapsto> \<lparr>m_function_like = True, m_params = [''x''], m_body = ''x''\<rparr>,
     ''g'' \<mapsto> \<lparr>m_function_like = False, m_params = [], m_body = ''f(g 1)''\<rparr>]"

lemma fg_tokens:
  "pp_tokenize demo_env ''f(g 1)'' 0 = Inr ([''f'', ''('', ''g'', ''1'', '')''], 0)"
  "pp_tokenize demo_env ''x'' 0 = Inr ([''x''], 0)" "pp_tokenize demo_env ''g'' 0 = Inr ([''g''], 0)"
  by code_simp+

lemma fg_loop:
  assumes "ex [''g'', ''1''] 0 = Inl Lex_Fuel"
  shows "expand_loop ex fg_macros demo_env 0 [] ((''g'', []) # rem) 0 = Inl Lex_Fuel"
proof -
  have "invocation ex fg_macros demo_env ''g'' [] rem 0 = Inr (Some ([''f'', ''('', ''g'', ''1'', '')''], rem, 0))"
    by (simp add: invocation_def fg_macros_def fg_tokens)
  then have "expand_loop ex fg_macros demo_env 0 [] ((''g'', []) # rem) 0 =
      expand_loop ex fg_macros demo_env 1 [] (map (\<lambda>t. (t, [''g''])) [''f'', ''('', ''g'', ''1'', '')''] @ rem) 0"
    by (subst expand_loop.simps) (simp add: step_cap_def pp_hide_add_def)
  moreover have "invocation ex fg_macros demo_env ''f'' [''g''] (map (\<lambda>t. (t, [''g''])) [''('', ''g'', ''1'', '')''] @ rem) 0 = Inl Lex_Fuel"
    using assms
    by (simp add: invocation_def fg_macros_def pp_substitute_def fg_tokens empty_statement_def substituted_def
        param_index_def vararg_idx_def arg_tokens_def recursive_object_def)
  ultimately show ?thesis by (simp add: expand_loop.simps [of _ _ _ 1] step_cap_def)
qed

text \<open>
  C35: some macro invocations never finish: with \<open>#define f(x) x\<close> and \<open>#define g f(g 1)\<close>, expanding a line
  that uses \<open>g\<close> nests argument expansions without end, whatever depth is allowed.
\<close>

theorem argument_prescan_diverges:
  "expand_active_line n fg_macros demo_env ''g'' 0 = Inl Lex_Fuel"
proof -
  have d: "pp_expand_tokens n fg_macros demo_env [''g'', ''1''] 0 = Inl Lex_Fuel" for n
  proof (induction n)
    case (Suc n)
    show ?case using fg_loop [of "pp_expand_tokens n fg_macros demo_env" "[(''1'', [])]"] Suc by simp
  qed simp
  have "pp_expand_tokens n fg_macros demo_env [''g''] 0 = Inl Lex_Fuel"
    using fg_loop [of "pp_expand_tokens (n - 1) fg_macros demo_env" "[]"] d [of "n - 1"] by (cases n) simp_all
  then show ?thesis by (simp add: expand_active_line_def fg_tokens)
qed

end
