(* ===== verification/Pp_Text.thy ===== *)
theory Pp_Text
  imports Lexer
begin

text \<open>
  The text passes of \<^verbatim>\<open>src/src/preprocessor.c\<close> that run before the directives are read: splicing
  of continued lines (\<^verbatim>\<open>join_continuation_lines\<close>) and removal of comments (\<^verbatim>\<open>strip_comments\<close>).
\<close>

abbreviation newline :: char where "newline \<equiv> CHR 0x0A"

definition lines_in :: "string \<Rightarrow> nat" where
  "lines_in s = length (filter (\<lambda>c. c = newline) s)"

lemma lines_in_simps [simp]:
  "lines_in [] = 0" "lines_in (c # s) = (if c = newline then 1 else 0) + lines_in s"
  "lines_in (s @ t) = lines_in s + lines_in t"
  by (simp_all add: lines_in_def)

subsection \<open>Continued lines\<close>

fun join_continuation_lines :: "string \<Rightarrow> string" where
  "join_continuation_lines [] = []"
| "join_continuation_lines (c # s) =
     (if c = CHR 0x5C \<and> s \<noteq> [] \<and> hd s = newline then join_continuation_lines (tl s)
      else if c = CHR 0x5C \<and> take 2 s = [CHR 0x0D, newline] then join_continuation_lines (drop 2 s)
      else c # join_continuation_lines s)"

subsection \<open>Comments\<close>

text \<open>What the scanner is inside of: ordinary text, or a literal closed by the given quote.\<close>

datatype strip_mode = Code | Literal char

text \<open>After the opening of a block comment: its newlines and the text that follows it.\<close>

fun skip_block :: "string \<Rightarrow> (string \<times> string) option" where
  "skip_block [] = None"
| "skip_block [c] = None"
| "skip_block (c # d # s) =
     (if c = CHR ''*'' \<and> d = CHR ''/'' then Some ([], s)
      else map_option (\<lambda>(nl, r). ((if c = newline then [newline] else []) @ nl, r)) (skip_block (d # s)))"

lemma skip_block_length: "skip_block s = Some (nl, r) \<Longrightarrow> length r < length s"
  by (induction s arbitrary: nl rule: skip_block.induct) (force split: if_splits)+

text \<open>The position \<open>p\<close> is only for the diagnostic, which names the place the comment opens.\<close>

function strip :: "pos \<Rightarrow> strip_mode \<Rightarrow> string \<Rightarrow> lex_error + string" where
  "strip p mode [] = Inr []"
| "strip p (Literal q) (c # s) =
     (if c = CHR 0x5C \<and> s \<noteq> [] then
        bnd (strip (advance p [c, hd s]) (Literal q) (tl s)) (\<lambda>t. Inr (c # hd s # t))
      else bnd (strip (advance p [c]) (if c = q then Code else Literal q) s) (\<lambda>t. Inr (c # t)))"
| "strip p Code (c # s) =
     (if c = CHR 0x22 \<or> c = CHR 0x27 then bnd (strip (advance p [c]) (Literal c) s) (\<lambda>t. Inr (c # t))
      else if c = CHR ''/'' \<and> s \<noteq> [] \<and> hd s = CHR ''/'' then
        (let r = dropWhile (\<lambda>d. d \<noteq> newline) (tl s) in
         bnd (strip (advance p (take (length (c # s) - length r) (c # s))) Code r) (\<lambda>t. Inr (CHR '' '' # t)))
      else if c = CHR ''/'' \<and> s \<noteq> [] \<and> hd s = CHR ''*'' then
        (case skip_block (tl s) of
           None \<Rightarrow> Inl (Lex_Error (fst p) (snd p) ''unterminated block comment'')
         | Some (nl, r) \<Rightarrow>
             bnd (strip (advance p (take (length (c # s) - length r) (c # s))) Code r) (\<lambda>t. Inr (CHR '' '' # nl @ t)))
      else bnd (strip (advance p [c]) Code s) (\<lambda>t. Inr (c # t)))"
  by pat_completeness auto
termination
proof (relation "measure (\<lambda>(_, _, s). length s)")
  fix p c s and r :: string assume "r = dropWhile (\<lambda>d. d \<noteq> newline) (tl s)"
  then have "length r \<le> length (tl s)" using length_dropWhile_le by blast
  also have "\<dots> < length (c # s)" by simp
  finally show "((advance p (take (length (c # s) - length r) (c # s)), Code, r), p, Code, c # s) \<in> measure (\<lambda>(_, _, s). length s)" by simp
qed (auto dest!: skip_block_length)

definition strip_comments :: "string \<Rightarrow> lex_error + string" where
  "strip_comments s = strip (1, 1) Code s"

subsection \<open>What the comment pass keeps\<close>

lemma skip_block_lines: "skip_block s = Some (nl, r) \<Longrightarrow> lines_in nl + lines_in r = lines_in s"
  by (induction s arbitrary: nl rule: skip_block.induct) (force split: if_splits)+

lemma skip_block_newlines: "skip_block s = Some (nl, r) \<Longrightarrow> set nl \<subseteq> {newline}"
  by (induction s arbitrary: nl rule: skip_block.induct) (force split: if_splits)+

lemma lines_dropWhile: "lines_in (dropWhile (\<lambda>d. d \<noteq> newline) s) = lines_in s"
  by (induction s) auto

lemma strip_code_cases:
  assumes "strip p Code (c # s) = Inr t"
  obtains (quote) u where "c = CHR 0x22 \<or> c = CHR 0x27" "strip (advance p [c]) (Literal c) s = Inr u" "t = c # u"
  | (line) r q u where "c = CHR ''/''" "s = CHR ''/'' # r" "strip q Code (dropWhile (\<lambda>d. d \<noteq> newline) r) = Inr u" "t = CHR '' '' # u"
  | (block) r nl r' q u where "c = CHR ''/''" "s = CHR ''*'' # r" "skip_block r = Some (nl, r')" "strip q Code r' = Inr u" "t = CHR '' '' # nl @ u"
  | (plain) u where "c \<noteq> CHR 0x22" "c \<noteq> CHR 0x27" "\<not> (c = CHR ''/'' \<and> s \<noteq> [] \<and> (hd s = CHR ''/'' \<or> hd s = CHR ''*''))"
      "strip (advance p [c]) Code s = Inr u" "t = c # u"
proof (cases "c = CHR 0x22 \<or> c = CHR 0x27")
  case True
  then show thesis using assms quote by (simp add: bnd_Inr_iff) blast
next
  case nq: False
  show thesis
  proof (cases "c = CHR ''/'' \<and> s \<noteq> [] \<and> (hd s = CHR ''/'' \<or> hd s = CHR ''*'')")
    case False
    then have "\<not> (c = CHR ''/'' \<and> s \<noteq> [] \<and> hd s = CHR ''/'')" "\<not> (c = CHR ''/'' \<and> s \<noteq> [] \<and> hd s = CHR ''*'')" by auto
    then have "bnd (strip (advance p [c]) Code s) (\<lambda>t. Inr (c # t)) = Inr t"
      using assms nq by (simp only: strip.simps if_False)
    then show thesis using plain False nq by (auto simp: bnd_Inr_iff)
  next
    case True
    then obtain d r where s: "s = d # r" by (cases s) auto
    show thesis
    proof (cases "d = CHR ''/''")
      case d: True
      define r' where "r' = dropWhile (\<lambda>d. d \<noteq> newline) r"
      have "bnd (strip (advance p (take (length (c # s) - length r') (c # s))) Code r') (\<lambda>t. Inr (CHR '' '' # t)) = Inr t"
        using assms True s d by (simp add: Let_def r'_def)
      then show thesis using line [of r] True s d unfolding r'_def bnd_Inr_iff by blast
    next
      case False
      then have "d = CHR ''*''" using True s by simp
      moreover from this obtain nl r' where nl: "skip_block r = Some (nl, r')"
        using assms True s by (auto split: option.splits)
      ultimately have "bnd (strip (advance p (take (length (c # s) - length r') (c # s))) Code r') (\<lambda>t. Inr (CHR '' '' # nl @ t)) = Inr t"
        using assms True s by simp
      then show thesis using block [OF _ _ nl] True s \<open>d = CHR ''*''\<close> unfolding bnd_Inr_iff by blast
    qed
  qed
qed

lemma strip_literal_cases:
  assumes "strip p (Literal q) (c # s) = Inr t"
  obtains (escape) d r p' u where "c = CHR 0x5C" "s = d # r" "strip p' (Literal q) r = Inr u" "t = c # d # u"
  | (char) u where "\<not> (c = CHR 0x5C \<and> s \<noteq> [])" "strip (advance p [c]) (if c = q then Code else Literal q) s = Inr u" "t = c # u"
proof (cases "c = CHR 0x5C \<and> s \<noteq> []")
  case True
  then have "bnd (strip (advance p [c, hd s]) (Literal q) (tl s)) (\<lambda>t. Inr (c # hd s # t)) = Inr t"
    using assms by (simp only: strip.simps if_True simp_thms)
  moreover have "s = hd s # tl s" using True by simp
  ultimately show thesis using escape True unfolding bnd_Inr_iff by blast
next
  case False
  then have "bnd (strip (advance p [c]) (if c = q then Code else Literal q) s) (\<lambda>t. Inr (c # t)) = Inr t"
    using assms by (simp only: strip.simps if_False)
  then show thesis using char False unfolding bnd_Inr_iff by blast
qed

lemma strip_lines: "strip p mode s = Inr t \<Longrightarrow> lines_in t = lines_in s"
proof (induction "length s" arbitrary: p mode s t rule: less_induct)
  case less
  show ?case
  proof (cases s)
    case Nil then show ?thesis using less.prems by simp
  next
    case (Cons c r)
    show ?thesis
    proof (cases mode)
      case (Literal q)
      from less.prems [unfolded Cons Literal] show ?thesis
      proof (cases rule: strip_literal_cases)
        case (escape d r' p' u)
        then show ?thesis using less.hyps [OF _ escape(3)] Cons by simp
      next
        case (char u)
        then show ?thesis using less.hyps [OF _ char(2)] Cons by simp
      qed
    next
      case Code
      from less.prems [unfolded Cons Code] show ?thesis
      proof (cases rule: strip_code_cases)
        case (line r' q u)
        have "length (dropWhile (\<lambda>d. d \<noteq> newline) r') < length s"
          using Cons line(2) length_dropWhile_le [of "\<lambda>d. d \<noteq> newline" r'] by simp
        from less.hyps [OF this line(3)] show ?thesis using Cons line by (simp add: lines_dropWhile)
      next
        case (block r' nl r'' q u)
        then have "length r'' < length s" using Cons skip_block_length [OF block(3)] by simp
        from less.hyps [OF this block(4)] show ?thesis using Cons block skip_block_lines [OF block(3)] by simp
      next
        case (quote u)
        then show ?thesis using less.hyps [OF _ quote(2)] Cons by simp
      next
        case (plain u)
        then show ?thesis using less.hyps [OF _ plain(4)] Cons by simp
      qed
    qed
  qed
qed

text \<open>The first character of what ordinary text becomes.\<close>

lemma strip_code_hd:
  assumes "strip p Code s = Inr t" "t \<noteq> []" shows "s \<noteq> [] \<and> (hd t = hd s \<or> hd t = CHR '' '')"
proof (cases s)
  case Nil then show ?thesis using assms by simp
next
  case (Cons c r)
  from assms(1) [unfolded Cons] show ?thesis by (cases rule: strip_code_cases) (use Cons in auto)
qed

lemma strip_blanks:
  "set nl \<subseteq> {newline} \<Longrightarrow> (\<And>q. strip q Code u = Inr v) \<Longrightarrow> strip p Code (nl @ u) = Inr (nl @ v)"
  by (induction nl arbitrary: p) auto

lemma strip_strip: "strip p mode s = Inr t \<Longrightarrow> strip q mode t = Inr t"
proof (induction "length s" arbitrary: p q mode s t rule: less_induct)
  case less
  show ?case
  proof (cases s)
    case Nil then show ?thesis using less.prems by simp
  next
    case (Cons c r)
    show ?thesis
    proof (cases mode)
      case (Literal k)
      from less.prems [unfolded Cons Literal] show ?thesis
      proof (cases rule: strip_literal_cases)
        case (escape d r' p' u)
        then have "strip q' (Literal k) u = Inr u" for q' using less.hyps [OF _ escape(3)] Cons by simp
        then show ?thesis using escape Literal by simp
      next
        case (char u)
        then have "strip q' (if c = k then Code else Literal k) u = Inr u" for q' using less.hyps [OF _ char(2)] Cons by simp
        moreover have "u = [] \<or> \<not> (c = CHR 0x5C \<and> u \<noteq> [])"
          using char(1,2) by (cases "r = []") auto
        ultimately show ?thesis using char Literal by auto
      qed
    next
      case Code
      from less.prems [unfolded Cons Code] show ?thesis
      proof (cases rule: strip_code_cases)
        case (quote u)
        then have "strip q' (Literal c) u = Inr u" for q' using less.hyps [OF _ quote(2)] Cons by simp
        then show ?thesis using quote Code by simp
      next
        case (line r' q' u)
        have "length (dropWhile (\<lambda>d. d \<noteq> newline) r') < length s"
          using Cons line(2) length_dropWhile_le [of "\<lambda>d. d \<noteq> newline" r'] by simp
        from less.hyps [OF this line(3)] show ?thesis using line Code by simp
      next
        case (block r' nl r'' q' u)
        then have "length r'' < length s" using Cons skip_block_length [OF block(3)] by simp
        from less.hyps [OF this block(4)] have "strip q'' Code (nl @ u) = Inr (nl @ u)" for q''
          by (intro strip_blanks skip_block_newlines [OF block(3)])
        then show ?thesis using block Code by simp
      next
        case (plain u)
        then have "strip q' Code u = Inr u" for q' using less.hyps [OF _ plain(4)] Cons by simp
        moreover have "\<not> (c = CHR ''/'' \<and> u \<noteq> [] \<and> (hd u = CHR ''/'' \<or> hd u = CHR ''*''))"
          using strip_code_hd [OF plain(4)] plain(3) by auto
        then have "strip q Code (c # u) = bnd (strip (advance q [c]) Code u) (\<lambda>t. Inr (c # t))"
          using plain(1,2) by auto
        ultimately show ?thesis using plain(5) Code by simp
      qed
    qed
  qed
qed

text \<open>
  removing comments keeps the line structure and finishes its work: the result has as many
  newlines as the source, so later diagnostics keep their lines, and a second pass changes nothing, so
  no comment is left outside the string and character literals.
\<close>

lemma strip_comments_stable:
  assumes "strip_comments s = Inr t"
  shows "lines_in t = lines_in s \<and> strip_comments t = Inr t"
  using assms strip_lines strip_strip unfolding strip_comments_def by blast

lemma strip_comments_stable_witness:
  "lines_in [CHR ''x'', CHR '' '', newline, CHR 0x22, CHR ''/'', CHR ''*'', CHR 0x22] =
   lines_in (CHR ''x'' # ''/*'' @ [newline] @ ''*/'' @ [CHR 0x22, CHR ''/'', CHR ''*'', CHR 0x22]) \<and>
   strip_comments [CHR ''x'', CHR '' '', newline, CHR 0x22, CHR ''/'', CHR ''*'', CHR 0x22] =
   Inr [CHR ''x'', CHR '' '', newline, CHR 0x22, CHR ''/'', CHR ''*'', CHR 0x22]"
  by (rule strip_comments_stable) code_simp

text \<open>
  splicing a continued line loses its newline and puts nothing in its place: whatever follows
  moves up a line, so the lines counted from there on are those of the spliced text, not the source's.
\<close>

lemma join_drops_newline:
  assumes "CHR 0x5C \<notin> set a"
  shows "join_continuation_lines (a @ [CHR 0x5C, newline] @ s) = a @ join_continuation_lines s"
  using assms by (induction a) auto

lemma join_drops_newline_witness:
  "join_continuation_lines (''ab'' @ [CHR 0x5C, newline] @ ''c'') = ''ab'' @ join_continuation_lines ''c''"
  by (rule join_drops_newline) simp

end
