(* ===== verification/Pp_Main.thy ===== *)
theory Pp_Main
  imports Pp_Text Pp_Expr Pp_Expand
begin

text \<open>
  The driver of \<^verbatim>\<open>src/src/preprocessor.c\<close>: the stack of conditionals, the directives, the search for
  include files and \<^verbatim>\<open>preprocessor_preprocess\<close>, which reads a file line by line.

  The file system is a parameter (\<open>config\<close>).  The macro table and the set of files included once are
  shared between a file and those it includes; the globals \<^verbatim>\<open>preprocessor_current_line\<close> and
  \<^verbatim>\<open>preprocessor_counter\<close> are part of the state, \<^verbatim>\<open>preprocessor_current_file\<close> is an argument.  A text is a
  C string, without NUL.  Including nests \<^verbatim>\<open>preprocessor_preprocess\<close>; the nesting takes fuel, and so does
  the nesting of macro expansions (\<open>n\<close>).
\<close>

subsection \<open>State\<close>

record cond_state =
  cs_condition_met :: bool
  cs_active :: bool

text \<open>The head of the stack is the innermost conditional.\<close>

record pp_state =
  ps_macros :: "string \<Rightarrow> macro option"
  ps_included :: "string list"
  ps_counter :: int
  ps_line :: int
  ps_stack :: "cond_state list"
  ps_out :: string

record config =
  cf_readable :: "string \<Rightarrow> bool"
  cf_read :: "string \<Rightarrow> string option"
  cf_include_dirs :: "string list"
  cf_native :: bool

definition is_active :: "cond_state list \<Rightarrow> bool" where
  "is_active stack = list_all cs_active stack"

definition emit :: "string \<Rightarrow> pp_state \<Rightarrow> pp_state" where
  "emit s st = st\<lparr>ps_out := ps_out st @ s\<rparr>"

definition preprocessor_error :: "pp_state \<Rightarrow> string \<Rightarrow> lex_error" where
  "preprocessor_error st msg = Lex_Error (ps_line st) 1 msg"

definition env_of :: "string \<Rightarrow> pp_state \<Rightarrow> lex_env" where
  "env_of file st = \<lparr>le_line = ps_line st, le_file = file\<rparr>"

subsection \<open>Conditionals\<close>

definition push_cond :: "bool \<Rightarrow> pp_state \<Rightarrow> pp_state" where
  "push_cond cond st =
     st\<lparr>ps_stack := \<lparr>cs_condition_met = cond, cs_active = cond \<and> is_active (ps_stack st)\<rparr> # ps_stack st\<rparr>"

definition eval_cond :: "nat \<Rightarrow> string \<Rightarrow> pp_state \<Rightarrow> string \<Rightarrow> lex_error + bool \<times> pp_state" where
  "eval_cond n file st s =
     bnd (eval_preproc_expr n (ps_macros st) (env_of file st) s (ps_counter st)) (\<lambda>(v, cnt).
     Inr (v \<noteq> 0, st\<lparr>ps_counter := cnt\<rparr>))"

definition do_elif :: "nat \<Rightarrow> string \<Rightarrow> pp_state \<Rightarrow> string \<Rightarrow> lex_error + pp_state" where
  "do_elif n file st s =
     (case ps_stack st of
        [] \<Rightarrow> Inl (preprocessor_error st ''unmatched #elif'')
      | c # cs \<Rightarrow>
          if cs_condition_met c then Inr (emit [newline] (st\<lparr>ps_stack := c\<lparr>cs_active := False\<rparr> # cs\<rparr>))
          else bnd (eval_cond n file st s) (\<lambda>(cond, st').
            Inr (emit [newline] (st'\<lparr>ps_stack :=
              c\<lparr>cs_active := cond \<and> is_active cs, cs_condition_met := cond\<rparr> # cs\<rparr>))))"

definition do_else :: "pp_state \<Rightarrow> lex_error + pp_state" where
  "do_else st =
     (case ps_stack st of
        [] \<Rightarrow> Inl (preprocessor_error st ''unmatched #else'')
      | c # cs \<Rightarrow> Inr (emit [newline] (st\<lparr>ps_stack :=
          c\<lparr>cs_active := \<not> cs_condition_met c \<and> is_active cs, cs_condition_met := True\<rparr> # cs\<rparr>)))"

definition do_endif :: "pp_state \<Rightarrow> lex_error + pp_state" where
  "do_endif st =
     (case ps_stack st of
        [] \<Rightarrow> Inl (preprocessor_error st ''unmatched #endif'')
      | c # cs \<Rightarrow> Inr (emit [newline] (st\<lparr>ps_stack := cs\<rparr>)))"

subsection \<open>Macro definitions\<close>

lemma parse_params_shorter:
  assumes "s1 = dropWhile is_blank s" "s2 = drop (max 1 (length w)) s1" "s3 = dropWhile is_blank s2"
    "s4 = (if s3 \<noteq> [] \<and> hd s3 = CHR '','' then tl s3 else s3)" "s1 \<noteq> []"
  shows "length s4 < length s"
proof -
  have "length s4 \<le> length s3" unfolding assms(4) using length_tl_le [of s3] by simp
  also have "\<dots> \<le> length s2" unfolding assms(3) by (rule length_dropWhile_le)
  also have "\<dots> < length s1" unfolding assms(2) using assms(5) by (cases s1) auto
  also have "\<dots> \<le> length s" unfolding assms(1) by (rule length_dropWhile_le)
  finally show ?thesis .
qed

text \<open>The parameters up to a closing parenthesis and the text from there.  A list that ends in blanks
  without one is skipped past the end of the line.\<close>

function parse_params :: "string \<Rightarrow> lex_error + string list \<times> string" where
  "parse_params s =
     (if s = [] \<or> hd s = CHR '')'' then Inr ([], s)
      else
        (let s1 = dropWhile is_blank s;
             w = (if take 3 s1 = ''...'' then ''...'' else takeWhile is_alnum s1);
             s2 = drop (max 1 (length w)) s1;
             s3 = dropWhile is_blank s2;
             s4 = (if s3 \<noteq> [] \<and> hd s3 = CHR '','' then tl s3 else s3)
         in if s1 = [] then Inl C_Undefined
            else bnd (parse_params s4) (\<lambda>(ps, r). Inr (if w = [] then ps else w # ps, r))))"
  by pat_completeness auto

termination
proof (relation "measure length", goal_cases)
  case (2 s s1 w s2 s3 s4)
  show ?case using parse_params_shorter [OF 2(2,4,5,6,7)] by simp
qed simp

declare parse_params.simps [simp del]

fun cut_comment :: "string \<Rightarrow> string" where
  "cut_comment [] = []"
| "cut_comment (c # s) = (if take 2 (c # s) = ''//'' then [] else c # cut_comment s)"

definition trim_right :: "char set \<Rightarrow> string \<Rightarrow> string" where
  "trim_right C s = rev (dropWhile (\<lambda>c. c \<in> C) (rev s))"

definition macro_body :: "string \<Rightarrow> string" where
  "macro_body s = trim_right {CHR '' '', CHR 0x09, CHR 0x0D} (cut_comment (dropWhile is_blank s))"

definition parse_define :: "string \<Rightarrow> lex_error + string \<times> macro" where
  "parse_define s =
     (let name = takeWhile is_alnum s; s1 = drop (length name) s in
      if s1 \<noteq> [] \<and> hd s1 = CHR ''('' then
        bnd (parse_params (tl s1)) (\<lambda>(ps, r).
        Inr (name, \<lparr>m_function_like = True, m_params = ps,
          m_body = macro_body (if r \<noteq> [] \<and> hd r = CHR '')'' then tl r else r)\<rparr>))
      else Inr (name, \<lparr>m_function_like = False, m_params = [], m_body = macro_body s1\<rparr>))"

definition do_define :: "pp_state \<Rightarrow> string \<Rightarrow> lex_error + pp_state" where
  "do_define st s =
     bnd (parse_define s) (\<lambda>(name, m). Inr (emit [newline] (st\<lparr>ps_macros := (ps_macros st)(name \<mapsto> m)\<rparr>)))"

definition do_undef :: "pp_state \<Rightarrow> string \<Rightarrow> pp_state" where
  "do_undef st s = emit [newline] (st\<lparr>ps_macros := (ps_macros st)(takeWhile is_alnum s := None)\<rparr>)"

subsection \<open>Include files\<close>

definition include_name :: "string \<Rightarrow> bool \<times> string" where
  "include_name s =
     (if s \<noteq> [] \<and> hd s = CHR ''<'' then (True, takeWhile (\<lambda>c. c \<noteq> CHR ''>'') (tl s))
      else if s \<noteq> [] \<and> hd s = CHR 0x22 then (False, takeWhile (\<lambda>c. c \<noteq> CHR 0x22) (tl s))
      else (False, []))"

text \<open>Paths are built in a buffer of 1024 bytes.\<close>

definition join_path :: "string \<Rightarrow> string \<Rightarrow> string" where
  "join_path dir name = take 1023 (dir @ ''/'' @ name)"

definition find_include_file :: "config \<Rightarrow> string \<Rightarrow> bool \<Rightarrow> string \<Rightarrow> string option" where
  "find_include_file cf name angled dir =
     find (cf_readable cf)
       ((if angled then [] else [join_path dir name]) @ map (\<lambda>d. join_path d name) (cf_include_dirs cf))"

definition has_prefix :: "string \<Rightarrow> string \<Rightarrow> bool" where
  "has_prefix p s \<longleftrightarrow> take (length p) s = p"

definition is_host_system :: "config \<Rightarrow> string \<Rightarrow> bool" where
  "is_host_system cf path \<longleftrightarrow> \<not> cf_native cf \<and>
     (has_prefix ''/usr/include'' path \<or> has_prefix ''/Library'' path \<or> has_prefix ''/System'' path \<or>
      has_prefix ''/Applications'' path)"

text \<open>\<open>inc\<close> preprocesses the text of an included file with the shared tables.\<close>

definition do_include ::
  "config \<Rightarrow> (string \<Rightarrow> string \<Rightarrow> pp_state \<Rightarrow> lex_error + string \<times> pp_state) \<Rightarrow> string \<Rightarrow> pp_state \<Rightarrow> string \<Rightarrow>
   lex_error + pp_state" where
  "do_include cf inc dir st s =
     (let (angled, name) = include_name s in
      case find_include_file cf name angled dir of
        None \<Rightarrow> Inl (preprocessor_error st (take 255 (''cannot find include file '' @ name)))
      | Some path \<Rightarrow>
          if is_host_system cf path \<or> path \<in> set (ps_included st) then Inr (emit [newline] st)
          else (case cf_read cf path of
              None \<Rightarrow> Inl (preprocessor_error st (take 255 (''cannot open include file '' @ path)))
            | Some content \<Rightarrow>
                bnd (inc path content st) (\<lambda>(text, st').
                Inr (emit [newline] (emit text (st\<lparr>ps_macros := ps_macros st', ps_included := ps_included st',
                  ps_counter := ps_counter st'\<rparr>))))))"

subsection \<open>The other directives\<close>

definition do_pragma :: "string \<Rightarrow> pp_state \<Rightarrow> string \<Rightarrow> pp_state" where
  "do_pragma file st s =
     emit [newline] (if take 4 s = ''once'' then st\<lparr>ps_included := List.insert file (ps_included st)\<rparr> else st)"

definition strtol_digits :: "string \<Rightarrow> bool" where
  "strtol_digits s =
     (let t = dropWhile lx_space s;
          u = (if t \<noteq> [] \<and> (hd t = CHR ''-'' \<or> hd t = CHR ''+'') then tl t else t)
      in u \<noteq> [] \<and> is_digit (hd u))"

definition do_line :: "pp_state \<Rightarrow> string \<Rightarrow> lex_error + pp_state" where
  "do_line st s =
     (if \<not> strtol_digits s \<or> strtol10 s < 1 then Inl (preprocessor_error st ''invalid #line directive'')
      else Inr ((emit (replicate (nat (max 1 (strtol10 s - ps_line st))) newline) st)
                  \<lparr>ps_line := c_int_of (strtol10 s) - 1\<rparr>))"

definition do_error :: "pp_state \<Rightarrow> string \<Rightarrow> lex_error" where
  "do_error st s =
     (let msg = trim_right {CHR '' '', CHR 0x09} (take 511 s)
      in preprocessor_error st (if msg = [] then ''#error directive'' else msg))"

definition ident_cond :: "pp_state \<Rightarrow> string \<Rightarrow> bool" where
  "ident_cond st s \<longleftrightarrow> ps_macros st (takeWhile is_alnum s) \<noteq> None"

text \<open>A directive \<open>d\<close> with the text \<open>s\<close> after it.\<close>

definition directive ::
  "config \<Rightarrow> (string \<Rightarrow> string \<Rightarrow> pp_state \<Rightarrow> lex_error + string \<times> pp_state) \<Rightarrow> nat \<Rightarrow> string \<Rightarrow> string \<Rightarrow>
   pp_state \<Rightarrow> string \<Rightarrow> string \<Rightarrow> lex_error + pp_state" where
  "directive cf inc n file dir st d s =
     (let act = is_active (ps_stack st) in
      if d = ''ifdef'' then Inr (emit [newline] (push_cond (ident_cond st s) st))
      else if d = ''ifndef'' then Inr (emit [newline] (push_cond (\<not> ident_cond st s) st))
      else if d = ''if'' then
        bnd (eval_cond n file st s) (\<lambda>(cond, st'). Inr (emit [newline] (push_cond cond st')))
      else if d = ''elif'' then do_elif n file st s
      else if d = ''else'' then do_else st
      else if d = ''endif'' then do_endif st
      else if d = ''define'' \<and> act then do_define st s
      else if d = ''undef'' \<and> act then Inr (do_undef st s)
      else if d = ''include'' \<and> act then do_include cf inc dir st s
      else if d = ''pragma'' then Inr (do_pragma file st s)
      else if d = ''line'' \<and> act then do_line st s
      else if d = ''error'' \<and> act then Inl (do_error st s)
      else Inr (emit [newline] st))"

subsection \<open>Lines\<close>

definition next_line :: "string \<Rightarrow> string \<times> string" where
  "next_line s = (takeWhile (\<lambda>c. c \<noteq> newline) s, tl (dropWhile (\<lambda>c. c \<noteq> newline) s))"

text \<open>The directive of a line and the text after it.\<close>

definition split_directive :: "string \<Rightarrow> (string \<times> string) option" where
  "split_directive line =
     (let s = dropWhile is_blank line in
      if s \<noteq> [] \<and> hd s = CHR ''#'' then
        (let t = dropWhile is_blank (tl s); d = takeWhile is_alpha t
         in Some (d, dropWhile is_blank (drop (length d) t)))
      else None)"

fun paren_depth :: "nat \<Rightarrow> string \<Rightarrow> nat" where
  "paren_depth d [] = d"
| "paren_depth d (c # s) =
     paren_depth (if c = CHR ''('' then d + 1 else if c = CHR '')'' then d - 1 else d) s"

lemma next_line_length: "s \<noteq> [] \<Longrightarrow> length (snd (next_line s)) < length s"
proof -
  assume s: "s \<noteq> []"
  let ?d = "dropWhile (\<lambda>c. c \<noteq> newline) s"
  have "length (tl ?d) < length s"
  proof (cases "?d = []")
    case True
    then show ?thesis using s by (simp only: list.sel length_0_conv) simp
  next
    case False
    then have "length (tl ?d) < length ?d" by (cases ?d) (simp_all only: list.sel length_Cons)
    also have "\<dots> \<le> length s" by (rule length_dropWhile_le)
    finally show ?thesis .
  qed
  then show ?thesis by (simp only: next_line_def snd_conv)
qed

text \<open>A line with open parentheses takes the following ones up to a directive: the logical line, the
  text after it and the number of lines taken.\<close>

function gather :: "nat \<Rightarrow> string \<Rightarrow> string \<Rightarrow> string \<times> string \<times> nat" where
  "gather depth line rest =
     (if depth = 0 \<or> rest = [] then (line, rest, 0)
      else
        (let extra = fst (next_line rest); rest' = snd (next_line rest); t = dropWhile is_blank extra in
         if t \<noteq> [] \<and> hd t = CHR ''#'' then (line, rest, 0)
         else
           (let (l, r, k) = gather (paren_depth depth extra) (line @ '' '' @ extra) rest' in (l, r, k + 1))))"
  by pat_completeness auto

termination
proof (relation "measure (\<lambda>(_, _, s). length s)", goal_cases)
  case (2 depth line rest extra rest' t)
  show ?case unfolding 2(3) using 2(1) next_line_length [of rest] by simp
qed simp

declare gather.simps [simp del]

lemma gather_length: "length (fst (snd (gather depth line rest))) \<le> length rest"
proof (induction depth line rest rule: gather.induct)
  case (1 depth line rest)
  show ?case
  proof (cases "depth = 0 \<or> rest = []")
    case True then show ?thesis by (subst gather.simps) auto
  next
    case False
    have "length (snd (next_line rest)) \<le> length rest" using next_line_length [of rest] False by simp
    with 1 [OF False refl refl refl] False show ?thesis
      by (subst gather.simps) (auto simp: Let_def split_beta)
  qed
qed

definition text_line :: "nat \<Rightarrow> string \<Rightarrow> pp_state \<Rightarrow> string \<Rightarrow> lex_error + pp_state" where
  "text_line n file st line =
     bnd (expand_active_line n (ps_macros st) (env_of file st) line (ps_counter st)) (\<lambda>(s, cnt).
     Inr (emit [newline] (emit s (st\<lparr>ps_counter := cnt\<rparr>))))"

definition next_line_no :: "pp_state \<Rightarrow> pp_state" where
  "next_line_no st = st\<lparr>ps_line := ps_line st + 1\<rparr>"

function pp_lines ::
  "config \<Rightarrow> (string \<Rightarrow> string \<Rightarrow> pp_state \<Rightarrow> lex_error + string \<times> pp_state) \<Rightarrow> nat \<Rightarrow> string \<Rightarrow> string \<Rightarrow>
   pp_state \<Rightarrow> string \<Rightarrow> lex_error + pp_state" where
  "pp_lines cf inc n file dir st s =
     (if s = [] then Inr st
      else
        (let line = fst (next_line s); rest = snd (next_line s) in
         case split_directive line of
           Some (d, t) \<Rightarrow>
             bnd (directive cf inc n file dir st d t) (\<lambda>st'. pp_lines cf inc n file dir (next_line_no st') rest)
         | None \<Rightarrow>
             if is_active (ps_stack st) then
               (let g = gather (paren_depth 0 line) line rest in
                bnd (text_line n file (st\<lparr>ps_line := ps_line st + int (snd (snd g))\<rparr>) (fst g)) (\<lambda>st'.
                pp_lines cf inc n file dir (next_line_no st') (fst (snd g))))
             else pp_lines cf inc n file dir (next_line_no (emit [newline] st)) rest))"
  by pat_completeness auto
termination
proof (relation "measure (\<lambda>(_, _, _, _, _, _, s). length s)", goal_cases)
  case (2 cf inc n fl dir st s line rest g st')
  have "length (fst (snd g)) \<le> length rest" unfolding 2(6) by (rule gather_length)
  also have "\<dots> < length s" unfolding 2(3) using 2(1) by (rule next_line_length)
  finally show ?case by simp
qed (simp_all add: next_line_length)

declare pp_lines.simps [simp del]

subsection \<open>Files\<close>

text \<open>The directory of a path: what stands before its last slash or backslash, if it fits the buffer.\<close>

definition dir_of :: "string \<Rightarrow> string" where
  "dir_of path =
     (let t = dropWhile (\<lambda>c. c \<noteq> CHR ''/'' \<and> c \<noteq> CHR 0x5C) (rev path) in
      if t = [] \<or> 512 \<le> length (tl t) then ''.'' else rev (tl t))"

fun preprocessor_preprocess ::
  "nat \<Rightarrow> nat \<Rightarrow> config \<Rightarrow> string \<Rightarrow> string \<Rightarrow> pp_state \<Rightarrow> lex_error + string \<times> pp_state" where
  "preprocessor_preprocess 0 n cf file raw st = Inl Lex_Fuel"
| "preprocessor_preprocess (Suc k) n cf file raw st =
     bnd (strip_comments (join_continuation_lines raw)) (\<lambda>src.
     bnd (pp_lines cf (preprocessor_preprocess k n cf) n file (dir_of file)
            (st\<lparr>ps_line := 1, ps_stack := [], ps_out := []\<rparr>) src) (\<lambda>st'.
     Inr (ps_out st', st\<lparr>ps_macros := ps_macros st', ps_included := ps_included st', ps_counter := ps_counter st'\<rparr>)))"

end
