(* ===== verification/Pp_Main_Props.thy ===== *)
theory Pp_Main_Props
  imports Pp_Main Pp_Expr_Props
begin

text \<open>
  The preprocessor's conditionals against a structured reading of the source: groups nest, the
  branch whose condition holds is processed and every other line becomes an empty line.
\<close>

subsection \<open>Structured sources\<close>

datatype item = Plain string | Ifdef bool string "item list" "item list option"

text \<open>The lines of a source; \<open>Ifdef True\<close> is \<^verbatim>\<open>#ifndef\<close>.\<close>

fun item_lines :: "item \<Rightarrow> string list" and items_lines :: "item list \<Rightarrow> string list" where
  "item_lines (Plain l) = [l]"
| "item_lines (Ifdef neg x a b) =
     [(if neg then ''#ifndef '' else ''#ifdef '') @ x] @ items_lines a @
     (case b of None \<Rightarrow> [] | Some bs \<Rightarrow> ''#else'' # items_lines bs) @ [''#endif'']"
| "items_lines [] = []"
| "items_lines (i # is) = item_lines i @ items_lines is"

definition text_of :: "string list \<Rightarrow> string" where
  "text_of ls = concat (map (\<lambda>l. l @ [newline]) ls)"

definition plain_line :: "string \<Rightarrow> bool" where
  "plain_line l \<longleftrightarrow> newline \<notin> set l \<and>
     (case split_directive l of
        None \<Rightarrow> paren_depth 0 l = 0
      | Some (d, t) \<Rightarrow> d \<in> {''define'', ''undef'', ''include'', ''error''})"

fun item_ok :: "item \<Rightarrow> bool" and items_ok :: "item list \<Rightarrow> bool" where
  "item_ok (Plain l) = plain_line l"
| "item_ok (Ifdef neg x a b) =
     (list_all is_alnum x \<and> items_ok a \<and> (case b of None \<Rightarrow> True | Some bs \<Rightarrow> items_ok bs))"
| "items_ok [] = True"
| "items_ok (i # is) = (item_ok i \<and> items_ok is)"

definition blank_lines :: "nat \<Rightarrow> pp_state \<Rightarrow> pp_state" where
  "blank_lines k st = st\<lparr>ps_out := ps_out st @ replicate k newline, ps_line := ps_line st + int k\<rparr>"

type_synonym includer = "string \<Rightarrow> string \<Rightarrow> pp_state \<Rightarrow> lex_error + string \<times> pp_state"

definition exec_line ::
  "config \<Rightarrow> includer \<Rightarrow> nat \<Rightarrow> string \<Rightarrow> string \<Rightarrow> string \<Rightarrow> pp_state \<Rightarrow> lex_error + pp_state" where
  "exec_line cf inc n fl dir l st =
     bnd (case split_directive l of
            Some (d, t) \<Rightarrow> directive cf inc n fl dir st d t
          | None \<Rightarrow> text_line n fl st l) (\<lambda>st'. Inr (next_line_no st'))"

text \<open>What a structured source means.\<close>

fun exec_item :: "config \<Rightarrow> includer \<Rightarrow> nat \<Rightarrow> string \<Rightarrow> string \<Rightarrow> item \<Rightarrow> pp_state \<Rightarrow> lex_error + pp_state"
  and exec_items :: "config \<Rightarrow> includer \<Rightarrow> nat \<Rightarrow> string \<Rightarrow> string \<Rightarrow> item list \<Rightarrow> pp_state \<Rightarrow> lex_error + pp_state" where
  "exec_item cf inc n fl dir (Plain l) st = exec_line cf inc n fl dir l st"
| "exec_item cf inc n fl dir (Ifdef neg x a b) st =
     (if (ps_macros st x \<noteq> None) \<noteq> neg then
        bnd (exec_items cf inc n fl dir a (blank_lines 1 st)) (\<lambda>st'.
        Inr (blank_lines (case b of None \<Rightarrow> 1 | Some bs \<Rightarrow> length (items_lines bs) + 2) st'))
      else
        (case b of
           None \<Rightarrow> Inr (blank_lines (length (items_lines a) + 2) st)
         | Some bs \<Rightarrow>
             bnd (exec_items cf inc n fl dir bs (blank_lines (length (items_lines a) + 2) st)) (\<lambda>st'.
             Inr (blank_lines 1 st'))))"
| "exec_items cf inc n fl dir [] st = Inr st"
| "exec_items cf inc n fl dir (i # is) st =
     bnd (exec_item cf inc n fl dir i st) (\<lambda>st'. exec_items cf inc n fl dir is st')"

subsection \<open>The stack does not matter to the rest\<close>

definition with_stack :: "cond_state list \<Rightarrow> lex_error + pp_state \<Rightarrow> lex_error + pp_state" where
  "with_stack S r = bnd r (\<lambda>st. Inr (st\<lparr>ps_stack := S\<rparr>))"

lemma with_stack_simps [simp]: "with_stack S (Inl e) = Inl e" "with_stack S (Inr st) = Inr (st\<lparr>ps_stack := S\<rparr>)"
  by (simp_all add: with_stack_def)

lemma with_stack_bnd:
  "(\<And>x. f' x = with_stack S (f x)) \<Longrightarrow> bnd m f' = with_stack S (bnd m f)"
  by (cases m) simp_all

definition stackless :: "includer \<Rightarrow> bool" where
  "stackless inc \<longleftrightarrow> (\<forall>p c st S. inc p c (st\<lparr>ps_stack := S\<rparr>) =
     bnd (inc p c st) (\<lambda>(t, st'). Inr (t, st'\<lparr>ps_stack := S\<rparr>)))"

lemma stackless_preprocess: "stackless (preprocessor_preprocess k n cf)"
proof (cases k)
  case 0
  then show ?thesis by (simp add: stackless_def)
next
  case (Suc j)
  have "preprocessor_preprocess (Suc j) n cf p c (st\<lparr>ps_stack := S\<rparr>) =
      bnd (preprocessor_preprocess (Suc j) n cf p c st) (\<lambda>(t, st'). Inr (t, st'\<lparr>ps_stack := S\<rparr>))" for p c st S
    by (auto simp: bnd_def split: sum.split)
  then show ?thesis using Suc by (simp add: stackless_def del: preprocessor_preprocess.simps)
qed

lemma text_line_stack: "text_line n fl (st\<lparr>ps_stack := S\<rparr>) l = with_stack S (text_line n fl st l)"
  by (simp add: text_line_def env_of_def) (rule with_stack_bnd, auto simp: emit_def split: prod.split)

lemma do_include_stack:
  assumes "stackless inc"
  shows "do_include cf inc dir (st\<lparr>ps_stack := S\<rparr>) t = with_stack S (do_include cf inc dir st t)"
proof -
  obtain angled name where n: "include_name t = (angled, name)" by fastforce
  show ?thesis
  proof (cases "find_include_file cf name angled dir")
    case None
    then show ?thesis using n by (simp add: do_include_def preprocessor_error_def)
  next
    case path: (Some path)
    show ?thesis
    proof (cases "is_host_system cf path \<or> path \<in> set (ps_included st) \<or> cf_read cf path = None")
      case True
      then show ?thesis using n path by (auto simp: do_include_def preprocessor_error_def emit_def)
    next
      case False
      then obtain c where c: "cf_read cf path = Some c" by auto
      have "inc path c (st\<lparr>ps_stack := S\<rparr>) = bnd (inc path c st) (\<lambda>(t, st'). Inr (t, st'\<lparr>ps_stack := S\<rparr>))"
        using assms by (simp add: stackless_def)
      then show ?thesis using n path c False
        by (cases "inc path c st") (auto simp: do_include_def emit_def split: prod.split)
    qed
  qed
qed

lemma directive_stack:
  assumes "d \<in> {''define'', ''undef'', ''include'', ''error''}" "is_active S" "is_active (ps_stack st)" "stackless inc"
  shows "directive cf inc n fl dir (st\<lparr>ps_stack := S\<rparr>) d t = with_stack S (directive cf inc n fl dir st d t)"
proof -
  have def: "do_define (st\<lparr>ps_stack := S\<rparr>) t = with_stack S (do_define st t)"
    unfolding do_define_def by (rule with_stack_bnd) (auto simp: emit_def split: prod.split)
  from assms(1) show ?thesis
    by (elim insertE emptyE)
      (use assms(2-4) def do_include_stack [where inc = inc and cf = cf and dir = dir and st = st and S = S and t = t] in
        \<open>simp_all add: directive_def do_undef_def emit_def do_error_def preprocessor_error_def Let_def\<close>)
qed

lemma exec_line_stack:
  assumes "plain_line l" "is_active S" "is_active (ps_stack st)" "stackless inc"
  shows "exec_line cf inc n fl dir l (st\<lparr>ps_stack := S\<rparr>) = with_stack S (exec_line cf inc n fl dir l st)"
proof -
  have b: "bnd (with_stack S r) (\<lambda>st'. Inr (next_line_no st')) = with_stack S (bnd r (\<lambda>st'. Inr (next_line_no st')))" for r
    by (cases r) (simp_all add: next_line_no_def)
  show ?thesis
    using assms directive_stack [where S = S and st = st and inc = inc] text_line_stack [where S = S and st = st]
    by (auto simp: exec_line_def plain_line_def b split: option.split)
qed

lemma is_active_Cons [simp]: "is_active (c # cs) \<longleftrightarrow> cs_active c \<and> is_active cs" "is_active []"
  by (simp_all add: is_active_def)

lemma blank_lines_simps [simp]:
  "ps_stack (blank_lines k st) = ps_stack st" "ps_macros (blank_lines k st) = ps_macros st"
  "blank_lines k (blank_lines j st) = blank_lines (j + k) st"
  "blank_lines k (st\<lparr>ps_stack := S\<rparr>) = (blank_lines k st)\<lparr>ps_stack := S\<rparr>"
  "blank_lines 0 st = st"
  by (simp_all add: blank_lines_def replicate_add add.commute)

text \<open>Structured execution does the same under any active stack, and so keeps the stack.\<close>

definition stack_free :: "(pp_state \<Rightarrow> lex_error + pp_state) \<Rightarrow> pp_state \<Rightarrow> bool" where
  "stack_free f st \<longleftrightarrow> (is_active (ps_stack st) \<longrightarrow> (\<forall>S. is_active S \<longrightarrow> f (st\<lparr>ps_stack := S\<rparr>) = with_stack S (f st)))"

lemma stack_free_keeps:
  assumes "stack_free f st" "is_active (ps_stack st)" "f st = Inr st'" shows "ps_stack st' = ps_stack st"
proof -
  have "f (st\<lparr>ps_stack := ps_stack st\<rparr>) = with_stack (ps_stack st) (f st)"
    using assms(1,2) unfolding stack_free_def by blast
  moreover have "st\<lparr>ps_stack := ps_stack st\<rparr> = st" by simp
  ultimately have "st' = st'\<lparr>ps_stack := ps_stack st\<rparr>" using assms(3) by simp
  then show ?thesis by (metis pp_state.select_convs(5) pp_state.surjective pp_state.update_convs(5))
qed

lemma stack_free_bnd:
  assumes "stack_free f st" "\<And>st'. f st = Inr st' \<Longrightarrow> stack_free g st'"
  shows "stack_free (\<lambda>st. bnd (f st) g) st"
  unfolding stack_free_def
proof (intro impI allI)
  fix S assume a: "is_active (ps_stack st)" "is_active S"
  then have f: "f (st\<lparr>ps_stack := S\<rparr>) = with_stack S (f st)" using assms(1) by (simp add: stack_free_def)
  show "bnd (f (st\<lparr>ps_stack := S\<rparr>)) g = with_stack S (bnd (f st) g)"
  proof (cases "f st")
    case (Inr st')
    then have "ps_stack st' = ps_stack st" using stack_free_keeps assms(1) a(1) by blast
    then show ?thesis using f Inr assms(2) [OF Inr] a by (simp add: stack_free_def)
  qed (use f in simp)
qed

lemma stack_free_blank [simp]: "stack_free (\<lambda>st. Inr (blank_lines k st)) st"
  by (simp add: stack_free_def)

lemma stack_free_shift: "stack_free f (blank_lines k st) \<Longrightarrow> stack_free (\<lambda>st. f (blank_lines k st)) st"
  by (simp add: stack_free_def)

lemma exec_stack_free:
  "stackless inc \<Longrightarrow> item_ok i \<Longrightarrow> stack_free (exec_item cf inc n fl dir i) st"
  "stackless inc \<Longrightarrow> items_ok is \<Longrightarrow> stack_free (exec_items cf inc n fl dir is) st"
proof (induction cf inc n fl dir i st and cf inc n fl dir "is" st rule: exec_item_exec_items.induct)
  case (1 cf inc n fl dir l st)
  then show ?case using exec_line_stack [of l _ st inc] by (simp add: stack_free_def)
next
  case (2 cf inc n fl dir neg x a b st)
  show ?case
  proof (cases "(ps_macros st x \<noteq> None) \<noteq> neg")
    case True
    have "stack_free (\<lambda>st. bnd (exec_items cf inc n fl dir a (blank_lines 1 st)) (\<lambda>st'.
        Inr (blank_lines (case b of None \<Rightarrow> 1 | Some bs \<Rightarrow> length (items_lines bs) + 2) st'))) st"
      using 2 True by (intro stack_free_bnd stack_free_shift stack_free_blank) auto
    then show ?thesis using True by (simp add: stack_free_def)
  next
    case False
    show ?thesis
    proof (cases b)
      case None
      then show ?thesis using False by (simp add: stack_free_def)
    next
      case (Some bs)
      have "stack_free (\<lambda>st. bnd (exec_items cf inc n fl dir bs (blank_lines (length (items_lines a) + 2) st)) (\<lambda>st'.
          Inr (blank_lines 1 st'))) st"
        using 2 False Some by (intro stack_free_bnd stack_free_shift stack_free_blank) auto
      then show ?thesis using False Some by (simp add: stack_free_def)
    qed
  qed
next
  case (3 cf inc n fl dir st)
  then show ?case by (simp add: stack_free_def)
next
  case (4 cf inc n fl dir i "is" st)
  have "stack_free (\<lambda>st. bnd (exec_item cf inc n fl dir i st) (exec_items cf inc n fl dir is)) st"
    using 4 by (intro stack_free_bnd) auto
  then show ?case by (simp add: stack_free_def)
qed

subsection \<open>Reading structured lines\<close>

lemma next_line_app: "newline \<notin> set l \<Longrightarrow> next_line (l @ [newline] @ r) = (l, r)"
  unfolding next_line_def by (induction l) auto

lemma text_of_simps [simp]: "text_of [] = []" "text_of (l # ls) = l @ [newline] @ text_of ls"
  "text_of (ls @ ms) = text_of ls @ text_of ms"
  by (simp_all add: text_of_def)

lemma directive_class:
  "list_all is_alnum x \<Longrightarrow> newline \<notin> set x" "list_all is_alnum x \<Longrightarrow> dropWhile is_blank x = x"
  "list_all is_alnum x \<Longrightarrow> takeWhile is_alnum x = x"
proof -
  assume x: "list_all is_alnum x"
  have "\<not> is_alnum newline" by (simp add: is_alnum_def is_alpha_def is_digit_def in_range_def)
  then show "newline \<notin> set x" using x by (auto simp: list_all_iff)
  have "\<not> is_blank c" if "is_alnum c" for c
    using that by (auto simp: is_blank_def is_alnum_def is_alpha_def is_digit_def in_range_def)
  then show "dropWhile is_blank x = x" using x by (cases x) auto
  show "takeWhile is_alnum x = x" using x by (simp add: list_all_iff)
qed

lemma split_cond:
  assumes "list_all is_alnum x"
  shows "split_directive (''#ifdef '' @ x) = Some (''ifdef'', x)" "split_directive (''#ifndef '' @ x) = Some (''ifndef'', x)"
  using directive_class(2) [OF assms]
  by (simp_all add: split_directive_def is_blank_def is_alpha_def in_range_def)

lemma split_ends:
  "split_directive ''#else'' = Some (''else'', [])" "split_directive ''#endif'' = Some (''endif'', [])"
  by (simp_all add: split_directive_def is_blank_def is_alpha_def in_range_def)

lemma pp_lines_directive:
  assumes "split_directive l = Some (d, t)" "newline \<notin> set l"
  shows "pp_lines cf inc n fl dir st (l @ [newline] @ r) =
    bnd (directive cf inc n fl dir st d t) (\<lambda>st'. pp_lines cf inc n fl dir (next_line_no st') r)"
  using assms by (subst pp_lines.simps) (simp add: next_line_app [simplified])

lemma pp_lines_text:
  assumes "split_directive l = None" "newline \<notin> set l" "is_active (ps_stack st)" "paren_depth 0 l = 0"
  shows "pp_lines cf inc n fl dir st (l @ [newline] @ r) =
    bnd (text_line n fl st l) (\<lambda>st'. pp_lines cf inc n fl dir (next_line_no st') r)"
  using assms by (subst pp_lines.simps) (simp add: next_line_app [simplified] gather.simps)

lemma pp_lines_skipped:
  assumes "split_directive l = None" "newline \<notin> set l" "\<not> is_active (ps_stack st)"
  shows "pp_lines cf inc n fl dir st (l @ [newline] @ r) = pp_lines cf inc n fl dir (blank_lines 1 st) r"
  using assms by (subst pp_lines.simps)
    (simp add: next_line_app [simplified] emit_def blank_lines_def next_line_no_def)

lemma emit_next: "next_line_no (emit [newline] st) = blank_lines 1 st"
  by (simp add: emit_def blank_lines_def next_line_no_def)

text \<open>The state inside a branch: whether a branch of the group was taken already, and whether this one is.\<close>

definition branch :: "bool \<Rightarrow> bool \<Rightarrow> pp_state \<Rightarrow> pp_state" where
  "branch met act st = st\<lparr>ps_stack := \<lparr>cs_condition_met = met, cs_active = act \<and> is_active (ps_stack st)\<rparr> # ps_stack st\<rparr>"

lemma branch_simps [simp]:
  "ps_stack (branch met act st) = \<lparr>cs_condition_met = met, cs_active = act \<and> is_active (ps_stack st)\<rparr> # ps_stack st"
  "ps_macros (branch met act st) = ps_macros st"
  "blank_lines k (branch met act st) = branch met act (blank_lines k st)"
  by (simp_all add: branch_def blank_lines_def)

lemma pp_lines_open:
  assumes "list_all is_alnum x"
  shows "pp_lines cf inc n fl dir st ((if neg then ''#ifndef '' else ''#ifdef '') @ x @ [newline] @ r) =
    pp_lines cf inc n fl dir (let b = (ps_macros st x \<noteq> None) \<noteq> neg in branch b b (blank_lines 1 st)) r"
proof -
  have d: "split_directive ((if neg then ''#ifndef '' else ''#ifdef '') @ x) = Some (if neg then ''ifndef'' else ''ifdef'', x)"
    using split_cond [OF assms] by simp
  have nl: "newline \<notin> set ((if neg then ''#ifndef '' else ''#ifdef '') @ x)" using directive_class(1) [OF assms] by simp
  have e: "next_line_no (emit [newline] (push_cond b st)) = branch b b (blank_lines 1 st)" for b
    by (simp add: next_line_no_def emit_def push_cond_def branch_def blank_lines_def)
  from pp_lines_directive [OF d nl, of cf inc n fl dir st r] show ?thesis
    unfolding append_assoc using directive_class(3) [OF assms]
    by (cases neg) (simp_all add: directive_def ident_cond_def e Let_def del: takeWhile_eq_all_conv)
qed

lemma pp_lines_else:
  "pp_lines cf inc n fl dir (branch met act st) (''#else'' @ [newline] @ r) =
   pp_lines cf inc n fl dir (branch True (\<not> met) (blank_lines 1 st)) r"
proof -
  have nl: "newline \<notin> set ''#else''" by simp
  show ?thesis
    unfolding pp_lines_directive [OF split_ends(1) nl]
    by (cases st) (simp add: directive_def do_else_def next_line_no_def emit_def blank_lines_def branch_def)
qed

lemma pp_lines_endif:
  "pp_lines cf inc n fl dir (branch met act st) (''#endif'' @ [newline] @ r) = pp_lines cf inc n fl dir (blank_lines 1 st) r"
proof -
  have nl: "newline \<notin> set ''#endif''" by simp
  show ?thesis
    unfolding pp_lines_directive [OF split_ends(2) nl]
    by (cases st) (simp add: directive_def do_endif_def next_line_no_def emit_def blank_lines_def branch_def)
qed

lemma directive_inactive:
  assumes "d \<in> {''define'', ''undef'', ''include'', ''error''}" "\<not> is_active (ps_stack st)"
  shows "directive cf inc n fl dir st d t = Inr (emit [newline] st)"
  using assms by (elim insertE emptyE) (simp_all add: directive_def)

lemma group_text:
  "text_of (item_lines (Ifdef neg x a b)) @ r =
   (if neg then ''#ifndef '' else ''#ifdef '') @ x @ [newline] @ text_of (items_lines a) @
     (case b of None \<Rightarrow> [] | Some bs \<Rightarrow> ''#else'' @ [newline] @ text_of (items_lines bs)) @ ''#endif'' @ [newline] @ r"
  by (simp split: option.split)

text \<open>In a branch not taken every line is skipped, nested groups included.\<close>

lemma skipped_items:
  "item_ok i \<Longrightarrow> \<not> is_active (ps_stack st) \<Longrightarrow>
     pp_lines cf inc n fl dir st (text_of (item_lines i) @ r) = pp_lines cf inc n fl dir (blank_lines (length (item_lines i)) st) r"
  "items_ok is \<Longrightarrow> \<not> is_active (ps_stack st) \<Longrightarrow>
     pp_lines cf inc n fl dir st (text_of (items_lines is) @ r) = pp_lines cf inc n fl dir (blank_lines (length (items_lines is)) st) r"
proof (induction i and "is" arbitrary: st r and st r rule: item_ok_items_ok.induct)
  case (1 l)
  show ?case
  proof (cases "split_directive l")
    case None
    then show ?thesis using 1 pp_lines_skipped [of l st] by (simp add: plain_line_def)
  next
    case (Some dt)
    obtain d t where dt: "dt = (d, t)" by fastforce
    have p: "d \<in> {''define'', ''undef'', ''include'', ''error''}" "newline \<notin> set l"
      using 1 Some dt by (simp_all add: plain_line_def)
    show ?thesis
      using pp_lines_directive [OF Some [unfolded dt] p(2)] directive_inactive [OF p(1) 1(2)]
      by (simp add: emit_next)
  qed
next
  case (2 neg x a b)
  have x: "list_all is_alnum x" using 2(3) by simp
  define met where "met \<longleftrightarrow> (ps_macros st x \<noteq> None) \<noteq> neg"
  have a: "pp_lines cf inc n fl dir (branch m c s) (text_of (items_lines a) @ r') =
      pp_lines cf inc n fl dir (branch m c (blank_lines (length (items_lines a)) s)) r'"
    if "\<not> is_active (ps_stack s)" for m c s r'
    using 2(1) [of "branch m c s" r'] 2(3) that by simp
  note rules = group_text pp_lines_open [OF x] Let_def met_def [symmetric] pp_lines_else pp_lines_endif
  show ?case
  proof (cases b)
    case None
    then show ?thesis unfolding rules using 2(4) by (simp only: option.case append_Nil a blank_lines_simps pp_lines_endif simp_thms not_False_eq_True) simp
  next
    case (Some bs)
    have bs: "pp_lines cf inc n fl dir (branch m c s) (text_of (items_lines bs) @ r') =
        pp_lines cf inc n fl dir (branch m c (blank_lines (length (items_lines bs)) s)) r'"
      if "\<not> is_active (ps_stack s)" for m c s r'
      using 2(2) [OF Some, of "branch m c s" r'] 2(3) Some that by simp
    show ?thesis unfolding rules Some using 2(4)
      by (simp only: option.case append_assoc a bs blank_lines_simps pp_lines_else pp_lines_endif simp_thms not_False_eq_True) simp
  qed
qed simp_all

subsection \<open>Reading is executing\<close>

definition executes :: "config \<Rightarrow> includer \<Rightarrow> nat \<Rightarrow> string \<Rightarrow> string \<Rightarrow> string list \<Rightarrow> (pp_state \<Rightarrow> lex_error + pp_state) \<Rightarrow> pp_state \<Rightarrow> bool" where
  "executes cf inc n fl dir ls f st \<longleftrightarrow> (is_active (ps_stack st) \<longrightarrow>
     (\<forall>r. pp_lines cf inc n fl dir st (text_of ls @ r) = bnd (f st) (\<lambda>st'. pp_lines cf inc n fl dir st' r)))"

text \<open>Executing inside an active branch: the branch stays on the stack.\<close>

lemma executes_branch:
  assumes "executes cf inc n fl dir ls f (branch met True st)" "stack_free f st" "is_active (ps_stack st)"
  shows "pp_lines cf inc n fl dir (branch met True st) (text_of ls @ r) =
    bnd (f st) (\<lambda>st'. pp_lines cf inc n fl dir (branch met True st') r)"
proof -
  let ?S = "\<lparr>cs_condition_met = met, cs_active = is_active (ps_stack st)\<rparr> # ps_stack st"
  have b: "branch met True st = st\<lparr>ps_stack := ?S\<rparr>" by (simp add: branch_def)
  have f: "f (branch met True st) = with_stack ?S (f st)" using assms(2,3) unfolding b stack_free_def by simp
  have "st'\<lparr>ps_stack := ?S\<rparr> = branch met True st'" if "f st = Inr st'" for st'
    using stack_free_keeps [OF assms(2,3) that] by (simp add: branch_def)
  then show ?thesis using assms(1,3) f by (cases "f st") (simp_all add: executes_def)
qed

lemma executed_items:
  "stackless inc \<Longrightarrow> item_ok i \<Longrightarrow> executes cf inc n fl dir (item_lines i) (exec_item cf inc n fl dir i) st"
  "stackless inc \<Longrightarrow> items_ok is \<Longrightarrow> executes cf inc n fl dir (items_lines is) (exec_items cf inc n fl dir is) st"
proof (induction i and "is" arbitrary: st and st rule: item_ok_items_ok.induct)
  case (1 l st)
  have p: "newline \<notin> set l" using 1 by (simp add: plain_line_def)
  show ?case
  proof (cases "split_directive l")
    case None
    then have d: "paren_depth 0 l = 0" using 1 by (simp add: plain_line_def)
    show ?thesis
      using pp_lines_text [OF None p _ d] None
      by (cases "text_line n fl st l") (auto simp: executes_def exec_line_def)
  next
    case (Some dt)
    obtain d t where dt: "dt = (d, t)" by fastforce
    show ?thesis
      using pp_lines_directive [OF Some [unfolded dt] p] Some dt
      by (cases "directive cf inc n fl dir st d t") (auto simp: executes_def exec_line_def)
  qed
next
  case (2 neg x a b st)
  have x: "list_all is_alnum x" using 2(4) by simp
  define met where "met \<longleftrightarrow> (ps_macros st x \<noteq> None) \<noteq> neg"
  have a_ok: "items_ok a" using 2(4) by simp
  note a_free = exec_stack_free(2) [OF 2(3) a_ok] and a_exec = 2(1) [OF 2(3) a_ok]
  have a_skip: "pp_lines cf inc n fl dir (branch m False s) (text_of (items_lines a) @ r') =
      pp_lines cf inc n fl dir (branch m False (blank_lines (length (items_lines a)) s)) r'" for m s r'
    using skipped_items(2) [OF a_ok, of "branch m False s"] by simp
  note rules = group_text pp_lines_open [OF x] Let_def met_def [symmetric]
  show ?case unfolding executes_def
  proof (intro impI allI)
    fix r assume act: "is_active (ps_stack st)"
    show "pp_lines cf inc n fl dir st (text_of (item_lines (Ifdef neg x a b)) @ r) =
        bnd (exec_item cf inc n fl dir (Ifdef neg x a b) st) (\<lambda>st'. pp_lines cf inc n fl dir st' r)"
    proof (cases met)
      case True
      have ea: "pp_lines cf inc n fl dir (branch True True (blank_lines 1 st)) (text_of (items_lines a) @ r') =
          bnd (exec_items cf inc n fl dir a (blank_lines 1 st)) (\<lambda>st'. pp_lines cf inc n fl dir (branch True True st') r')" for r'
        by (rule executes_branch [OF a_exec a_free]) (simp add: act)
      have i: "exec_item cf inc n fl dir (Ifdef neg x a b) st = bnd (exec_items cf inc n fl dir a (blank_lines 1 st)) (\<lambda>st'.
          Inr (blank_lines (case b of None \<Rightarrow> 1 | Some bs \<Rightarrow> length (items_lines bs) + 2) st'))"
        using True by (simp add: met_def)
      show ?thesis
      proof (cases b)
        case None
        then show ?thesis unfolding rules i using True
          by (cases "exec_items cf inc n fl dir a (blank_lines 1 st)")
            (simp_all only: option.case append_Nil ea bnd_simps pp_lines_endif simp_thms)
      next
        case (Some bs)
        have "items_ok bs" using 2(4) Some by simp
        then have b_skip: "pp_lines cf inc n fl dir (branch m False s) (text_of (items_lines bs) @ r') =
            pp_lines cf inc n fl dir (branch m False (blank_lines (length (items_lines bs)) s)) r'" for m s r'
          using skipped_items(2) [of bs "branch m False s"] by simp
        show ?thesis unfolding rules Some i [unfolded Some] using True
          by (cases "exec_items cf inc n fl dir a (blank_lines 1 st)")
            (simp_all only: option.case append_assoc ea bnd_simps pp_lines_else pp_lines_endif simp_thms b_skip blank_lines_simps not_True_eq_False,
             simp_all add: add.commute)
      qed
    next
      case False
      show ?thesis
      proof (cases b)
        case None
        have "exec_item cf inc n fl dir (Ifdef neg x a b) st = Inr (blank_lines (length (items_lines a) + 2) st)"
          using False None by (simp add: met_def)
        then show ?thesis unfolding rules using False None
          by (simp only: option.case append_Nil a_skip bnd_simps blank_lines_simps pp_lines_endif simp_thms) (simp add: add.commute)
      next
        case (Some bs)
        have b_ok: "items_ok bs" using 2(4) Some by simp
        let ?st = "blank_lines (length (items_lines a) + 2) st"
        have eb: "pp_lines cf inc n fl dir (branch True True ?st) (text_of (items_lines bs) @ r') =
            bnd (exec_items cf inc n fl dir bs ?st) (\<lambda>st'. pp_lines cf inc n fl dir (branch True True st') r')" for r'
          by (rule executes_branch [OF 2(2) [OF Some 2(3) b_ok] exec_stack_free(2) [OF 2(3) b_ok]]) (simp add: act)
        have i: "exec_item cf inc n fl dir (Ifdef neg x a b) st = bnd (exec_items cf inc n fl dir bs ?st) (\<lambda>st'. Inr (blank_lines 1 st'))"
          using False Some by (simp add: met_def)
        have s: "blank_lines 1 (blank_lines (length (items_lines a)) (blank_lines 1 st)) = ?st" by simp
        show ?thesis unfolding rules Some i [unfolded Some] using False
          by (cases "exec_items cf inc n fl dir bs ?st")
            (simp_all only: option.case append_assoc a_skip bnd_simps branch_simps pp_lines_else s eb pp_lines_endif simp_thms not_False_eq_True)
      qed
    qed
  qed
next
  case (3 st)
  show ?case by (simp add: executes_def)
next
  case (4 i "is" st)
  have ok: "item_ok i" "items_ok is" using 4(4) by simp_all
  note free = exec_stack_free(1) [OF 4(3) ok(1)]
  show ?case unfolding executes_def
  proof (intro impI allI)
    fix r assume act: "is_active (ps_stack st)"
    have "pp_lines cf inc n fl dir st (text_of (items_lines (i # is)) @ r) =
        bnd (exec_item cf inc n fl dir i st) (\<lambda>st'. pp_lines cf inc n fl dir st' (text_of (items_lines is) @ r))"
      using 4(1) [OF 4(3) ok(1), of st] act by (simp add: executes_def)
    also have "\<dots> = bnd (exec_items cf inc n fl dir (i # is) st) (\<lambda>st'. pp_lines cf inc n fl dir st' r)"
    proof (cases "exec_item cf inc n fl dir i st")
      case (Inr st')
      then have "is_active (ps_stack st')" using stack_free_keeps [OF free act Inr] act by simp
      then show ?thesis using Inr 4(2) [OF 4(3) ok(2), of st'] by (simp add: executes_def)
    qed simp
    finally show "pp_lines cf inc n fl dir st (text_of (items_lines (i # is)) @ r) =
        bnd (exec_items cf inc n fl dir (i # is) st) (\<lambda>st'. pp_lines cf inc n fl dir st' r)" .
  qed
qed

text \<open>
  C3: conditional groups select what C says: a source of lines and nested \<^verbatim>\<open>#ifdef\<close>, \<^verbatim>\<open>#ifndef\<close>,
  \<^verbatim>\<open>#else\<close>, \<^verbatim>\<open>#endif\<close> groups is preprocessed exactly as the structured program, in which the branch
  whose macro test holds when the group is reached is processed, in order, and every directive and
  skipped line leaves one empty line, so the lines of the rest keep their numbers.
\<close>

theorem conditionals_select:
  assumes "strip_comments (join_continuation_lines raw) = Inr (text_of (items_lines is))" "items_ok is"
  shows "preprocessor_preprocess (Suc k) n cf fl raw st =
    bnd (exec_items cf (preprocessor_preprocess k n cf) n fl (dir_of fl) is (st\<lparr>ps_line := 1, ps_stack := [], ps_out := []\<rparr>)) (\<lambda>st'.
    Inr (ps_out st', st\<lparr>ps_macros := ps_macros st', ps_included := ps_included st', ps_counter := ps_counter st'\<rparr>))"
proof -
  let ?st = "st\<lparr>ps_line := 1, ps_stack := [], ps_out := []\<rparr>"
  have "pp_lines cf (preprocessor_preprocess k n cf) n fl (dir_of fl) ?st (text_of (items_lines is) @ []) =
    bnd (exec_items cf (preprocessor_preprocess k n cf) n fl (dir_of fl) is ?st) (\<lambda>st'.
      pp_lines cf (preprocessor_preprocess k n cf) n fl (dir_of fl) st' [])"
  proof -
    have "executes cf (preprocessor_preprocess k n cf) n fl (dir_of fl) (items_lines is)
        (exec_items cf (preprocessor_preprocess k n cf) n fl (dir_of fl) is) ?st"
      by (rule executed_items(2) [OF stackless_preprocess assms(2)])
    moreover have "is_active (ps_stack ?st)" by simp
    ultimately show ?thesis unfolding executes_def by blast
  qed
  then have "pp_lines cf (preprocessor_preprocess k n cf) n fl (dir_of fl) ?st (text_of (items_lines is)) =
    exec_items cf (preprocessor_preprocess k n cf) n fl (dir_of fl) is ?st"
    by (cases "exec_items cf (preprocessor_preprocess k n cf) n fl (dir_of fl) is ?st")
      (simp_all add: pp_lines.simps [of _ _ _ _ _ _ "[]"])
  then show ?thesis using assms(1) by simp
qed

subsection \<open>A small file\<close>

definition demo_config :: config where
  "demo_config = \<lparr>cf_readable = (\<lambda>_. False), cf_read = (\<lambda>_. None), cf_include_dirs = [], cf_native = False\<rparr>"

definition demo_state :: pp_state where
  "demo_state = \<lparr>ps_macros = Map.empty, ps_included = [], ps_counter = 0, ps_line = 1, ps_stack = [], ps_out = []\<rparr>"

definition demo_source :: "item list" where
  "demo_source = [Ifdef True ''A'' [Plain ''#define A 1''] None, Ifdef False ''A'' [Plain ''x;''] (Some [Plain ''y;''])]"

lemma conditionals_select_witness:
  "preprocessor_preprocess 1 1 demo_config ''a.c'' (text_of (items_lines demo_source)) demo_state =
    bnd (exec_items demo_config (preprocessor_preprocess 0 1 demo_config) 1 ''a.c'' (dir_of ''a.c'') demo_source
           (demo_state\<lparr>ps_line := 1, ps_stack := [], ps_out := []\<rparr>)) (\<lambda>st'.
    Inr (ps_out st', demo_state\<lparr>ps_macros := ps_macros st', ps_included := ps_included st', ps_counter := ps_counter st'\<rparr>))"
proof -
  have "strip_comments (join_continuation_lines (text_of (items_lines demo_source))) = Inr (text_of (items_lines demo_source))"
    by code_simp
  moreover have "items_ok demo_source" by code_simp
  ultimately show ?thesis using conditionals_select [of _ demo_source 0] by simp
qed

subsection \<open>Where conditionals go wrong\<close>

definition output_of :: "lex_error + string \<times> pp_state \<Rightarrow> lex_error + string" where
  "output_of r = bnd r (\<lambda>(t, _). Inr t)"

text \<open>
  the condition of a group that is being skipped is evaluated all the same: a quote in it, which C
  never looks at, stops the compilation.
\<close>

lemma skipped_if_is_evaluated:
  "output_of (preprocessor_preprocess 1 1 demo_config ''a.c'' (text_of [''#ifdef A'', ''#if '' @ [CHR 0x27], ''#endif'', ''#endif'']) demo_state) =
   Inl (Lex_Error 1 1 ''unterminated character literal'')"
  by code_simp

text \<open>
  A conditional that is still open at the end of the file is accepted without a message.
\<close>

lemma open_if_accepted:
  "output_of (preprocessor_preprocess 1 1 demo_config ''a.c'' (text_of [''#ifdef A'', ''x'']) demo_state) = Inr [newline, newline]"
  by code_simp

text \<open>
  an \<^verbatim>\<open>#elif\<close>, \<^verbatim>\<open>#else\<close> or \<^verbatim>\<open>#endif\<close> with no open conditional stops the compilation with its own message
  at its line, whatever the rest of the state.
\<close>

lemma unmatched_conditionals:
  assumes "ps_stack st = []"
  shows "directive cf inc n fl dir st ''elif'' t = Inl (Lex_Error (ps_line st) 1 ''unmatched #elif'')
    \<and> directive cf inc n fl dir st ''else'' t = Inl (Lex_Error (ps_line st) 1 ''unmatched #else'')
    \<and> directive cf inc n fl dir st ''endif'' t = Inl (Lex_Error (ps_line st) 1 ''unmatched #endif'')"
  by (intro conjI; simp add: directive_def do_elif_def do_else_def do_endif_def preprocessor_error_def assms)

lemma unmatched_conditionals_witness:
  "directive demo_config (\<lambda>_ _ _. Inl Lex_Fuel) 1 ''a.c'' ''.'' demo_state ''elif'' ''1'' = Inl (Lex_Error (ps_line demo_state) 1 ''unmatched #elif'')
    \<and> directive demo_config (\<lambda>_ _ _. Inl Lex_Fuel) 1 ''a.c'' ''.'' demo_state ''else'' ''1'' = Inl (Lex_Error (ps_line demo_state) 1 ''unmatched #else'')
    \<and> directive demo_config (\<lambda>_ _ _. Inl Lex_Fuel) 1 ''a.c'' ''.'' demo_state ''endif'' ''1'' = Inl (Lex_Error (ps_line demo_state) 1 ''unmatched #endif'')"
  by (rule unmatched_conditionals) (simp add: demo_state_def)

text \<open>
  a parameter list that ends in a blank instead of a parenthesis makes \<^verbatim>\<open>#define\<close> step over the end of
  the line and read what lies behind it.
\<close>

lemma open_parameter_list_overruns:
  "directive cf inc n fl dir demo_state ''define'' ''f(a, '' = Inl C_Undefined"
proof -
  have "takeWhile is_alnum ''f(a, '' = ''f''" by code_simp
  moreover have "parse_params ''a, '' = Inl C_Undefined" by code_simp
  ultimately have "parse_define ''f(a, '' = Inl C_Undefined" by (simp add: parse_define_def Let_def)
  then show ?thesis by (simp add: directive_def do_define_def demo_state_def)
qed

end
