(* ===== verification/Asm_Operand.thy ===== *)
theory Asm_Operand
  imports Elf_Object Str_Builder
begin

text \<open>
  Operands of the internal x86-64 assembler, \<^verbatim>\<open>src/src/elf_writer.c\<close>: the register table, the
  number parser and \<^verbatim>\<open>parse_operand_x64\<close>.

  A C string is the list of its characters before the NUL, and a cursor is the text that is left.
  A fixed array filled by a loop that stops one short of its end is the corresponding prefix of the
  text.  An \<^verbatim>\<open>int\<close> or \<^verbatim>\<open>int64_t\<close> is an \<^typ>\<open>int\<close>; the conversions that
  truncate are written out.
\<close>

subsection \<open>Text\<close>

definition char_at :: "string \<Rightarrow> nat \<Rightarrow> char" where
  "char_at s i = (if i < length s then s ! i else NUL)"

definition starts_with :: "string \<Rightarrow> string \<Rightarrow> bool" where
  "starts_with s prefix \<longleftrightarrow> take (length prefix) s = prefix"

definition is_blank :: "char \<Rightarrow> bool" where
  "is_blank c \<longleftrightarrow> c = CHR '' '' \<or> c = CHR 0x09"

definition skip_ws :: "string \<Rightarrow> string" where
  "skip_ws p = dropWhile is_blank p"

text \<open>The loop \<^verbatim>\<open>while (*p && *p != stop && n < max) buf[n++] = *p++\<close>: what it copies and what it leaves.\<close>

definition span_max :: "nat \<Rightarrow> string \<Rightarrow> string \<Rightarrow> string \<times> string" where
  "span_max n stop s = (let t = take n (takeWhile (\<lambda>c. c \<notin> set stop) s) in (t, drop (length t) s))"

fun strstr_pos :: "string \<Rightarrow> string \<Rightarrow> nat option" where
  "strstr_pos [] needle = (if needle = [] then Some 0 else None)"
| "strstr_pos (c # s) needle =
     (if starts_with (c # s) needle then Some 0 else map_option Suc (strstr_pos s needle))"

definition is_alpha_c :: "char \<Rightarrow> bool" where
  "is_alpha_c c \<longleftrightarrow> (let n = of_char c :: nat in 65 \<le> n \<and> n \<le> 90 \<or> 97 \<le> n \<and> n \<le> 122)"

subsection \<open>Numbers\<close>

definition i32 :: "int \<Rightarrow> int" where "i32 i = sint (word_of_int i :: u32)"
definition i64 :: "int \<Rightarrow> int" where "i64 i = sint (word_of_int i :: u64)"

lemma i32_small: "0 \<le> i \<Longrightarrow> i < 2 ^ 31 \<Longrightarrow> i32 i = i"
proof -
  assume i: "0 \<le> i" "i < 2 ^ 31"
  then have "uint (word_of_int i :: u32) = i" by (simp add: uint_word_of_int take_bit_int_eq_self)
  then have "sint (word_of_int i :: u32) = signed_take_bit 31 i" by (simp add: sint_uint)
  also have "\<dots> = i" using i by (intro signed_take_bit_int_eq_self) simp_all
  finally show ?thesis by (simp add: i32_def)
qed

definition hex_val :: "char \<Rightarrow> nat" where
  "hex_val c = (let n = of_char c :: nat in if n \<ge> 97 then n - 87 else if n \<ge> 65 then n - 55 else n - 48)"

definition is_hex_c :: "char \<Rightarrow> bool" where
  "is_hex_c c \<longleftrightarrow> (let n = of_char c :: nat in 48 \<le> n \<and> n \<le> 57 \<or> 65 \<le> n \<and> n \<le> 70 \<or> 97 \<le> n \<and> n \<le> 102)"

definition nat_of_hex :: "string \<Rightarrow> nat" where
  "nat_of_hex s = foldl (\<lambda>n c. n * 16 + hex_val c) 0 s"

definition take_sign :: "string \<Rightarrow> bool \<times> string" where
  "take_sign t = (case t of [] \<Rightarrow> (False, [])
     | c # cs \<Rightarrow> if c = CHR ''-'' then (True, cs) else if c = CHR ''+'' then (False, cs) else (False, t))"

definition strtoull16 :: "string \<Rightarrow> u64" where
  "strtoull16 s =
     (let (neg, u) = take_sign (dropWhile is_space s);
          u = (if char_at u 0 = CHR ''0'' \<and> (char_at u 1 = CHR ''x'' \<or> char_at u 1 = CHR ''X'')
                  \<and> is_hex_c (char_at u 2) then drop 2 u else u);
          n = nat_of_hex (takeWhile is_hex_c u)
      in if n \<ge> 2 ^ 64 then - 1 else if neg then - of_nat n else of_nat n)"

definition parse_int :: "string \<Rightarrow> int" where
  "parse_int s =
     (if char_at s 0 = CHR ''0'' \<and> (char_at s 1 = CHR ''x'' \<or> char_at s 1 = CHR ''X'')
      then sint (strtoull16 (drop 2 s)) else strtol10 s)"

text \<open>\<^verbatim>\<open>strtol\<close> with its end pointer, which stays at the start when there is no digit.\<close>

definition strtol_rest :: "string \<Rightarrow> int \<times> string" where
  "strtol_rest s =
     (let u = snd (take_sign (dropWhile is_space s))
      in if takeWhile is_dec_digit u = [] then (0, s) else (strtol10 s, dropWhile is_dec_digit u))"

subsection \<open>Registers\<close>

definition x64_regs :: "(string \<times> int) list" where
  "x64_regs =
     [(''%xmm0'', 0), (''%xmm1'', 1), (''%xmm2'', 2), (''%xmm3'', 3), (''%xmm4'', 4), (''%xmm5'', 5),
      (''%xmm6'', 6), (''%xmm7'', 7), (''%xmm8'', 8), (''%xmm9'', 9), (''%xmm10'', 10), (''%xmm11'', 11),
      (''%xmm12'', 12), (''%xmm13'', 13), (''%xmm14'', 14), (''%xmm15'', 15),
      (''%rax'', 0), (''%rcx'', 1), (''%rdx'', 2), (''%rbx'', 3), (''%rsp'', 4), (''%rbp'', 5),
      (''%rsi'', 6), (''%rdi'', 7), (''%r8'', 8), (''%r9'', 9), (''%r10'', 10), (''%r11'', 11),
      (''%r12'', 12), (''%r13'', 13), (''%r14'', 14), (''%r15'', 15),
      (''%eax'', 0), (''%ecx'', 1), (''%edx'', 2), (''%ebx'', 3), (''%esp'', 4), (''%ebp'', 5),
      (''%esi'', 6), (''%edi'', 7), (''%r8d'', 8), (''%r9d'', 9), (''%r10d'', 10), (''%r11d'', 11),
      (''%ax'', 0), (''%cx'', 1), (''%dx'', 2), (''%bx'', 3), (''%r11w'', 11),
      (''%al'', 0), (''%cl'', 1), (''%dl'', 2), (''%bl'', 3), (''%r11b'', 11)]"

definition x64_reg_num :: "string \<Rightarrow> int" where
  "x64_reg_num name = (case map_of x64_regs name of None \<Rightarrow> - 1 | Some n \<Rightarrow> n)"

datatype optype = OT_REG64 | OT_REG32 | OT_REG16 | OT_REG8 | OT_REGXMM | OT_IMM | OT_MEM_RIP
  | OT_MEM_BASE | OT_MEM_IDX | OT_MEM_INDIR | OT_LABEL | OT_SYM | OT_NONE

record operand =
  op_type :: optype
  op_reg :: int
  op_imm :: int
  op_sym :: string
  op_base :: int
  op_idx :: int
  op_scale :: int
  op_is64 :: bool
  op_is_gotpcrel :: bool

definition op_zero :: operand where
  "op_zero = \<lparr>op_type = OT_NONE, op_reg = 0, op_imm = 0, op_sym = [], op_base = 0, op_idx = 0,
     op_scale = 0, op_is64 = False, op_is_gotpcrel = False\<rparr>"

definition reg_optype :: "string \<Rightarrow> optype" where
  "reg_optype s =
     (if starts_with s ''%xmm'' then OT_REGXMM
      else if char_at s 1 = CHR ''r'' then OT_REG64
      else if char_at s 1 = CHR ''e'' then OT_REG32
      else if length s = 3 \<and> char_at s 2 = CHR ''l'' then OT_REG8
      else if length s = 3 \<and> is_alpha_c (char_at s 2) then OT_REG16
      else if length s = 4 \<and> (char_at s 3 = CHR ''b'' \<or> char_at s 3 = CHR ''w'') then OT_REG8
      else OT_REG64)"

definition gp_suffix :: "optype \<Rightarrow> char \<Rightarrow> char" where
  "gp_suffix t suf = (case t of OT_REG64 \<Rightarrow> CHR ''q'' | OT_REG32 \<Rightarrow> CHR ''l'' | OT_REG16 \<Rightarrow> CHR ''w''
     | OT_REG8 \<Rightarrow> CHR ''b'' | _ \<Rightarrow> suf)"

text \<open>The scan of \<^verbatim>\<open>infer_gp_suffix\<close>: \<open>passed\<close> is the text already passed, last character first.\<close>

fun infer_scan :: "string \<Rightarrow> string \<Rightarrow> char \<Rightarrow> char" where
  "infer_scan passed [] suf = suf"
| "infer_scan passed (c # q) suf =
     (if c \<noteq> CHR ''%'' then infer_scan (c # passed) q suf
      else if char_at (skip_ws passed) 0 = CHR ''('' then infer_scan (c # passed) q suf
      else infer_scan (c # passed) q (gp_suffix (reg_optype (c # q)) suf))"

definition infer_gp_suffix :: "string \<Rightarrow> char" where
  "infer_gp_suffix ops = infer_scan [] ops CHR ''q''"

definition is_suffixless_gp :: "string \<Rightarrow> bool" where
  "is_suffixless_gp m \<longleftrightarrow> m \<in> set [''mov'', ''add'', ''sub'', ''and'', ''or'', ''xor'', ''cmp'', ''test'',
     ''adc'', ''sbb'', ''shl'', ''shr'', ''sar'', ''sal'', ''imul'', ''xchg'', ''lea'']"

subsection \<open>Operands\<close>

definition skip_char :: "char \<Rightarrow> string \<Rightarrow> string" where
  "skip_char c p = (if char_at p 0 = c \<and> p \<noteq> [] then tl p else p)"

definition parse_imm_operand :: "string \<Rightarrow> operand \<times> string" where
  "parse_imm_operand p =
     (let (sign, p1) = (if char_at p 0 = CHR ''-'' then ([CHR ''-''], tl p) else ([], p));
          (digits, p2) = span_max (63 - length sign) [CHR '','', CHR 0x0A, CHR '' ''] p1
      in (op_zero\<lparr>op_type := OT_IMM, op_imm := parse_int (sign @ digits)\<rparr>, p2))"

definition parse_reg_operand :: "string \<Rightarrow> operand \<times> string" where
  "parse_reg_operand p =
     (let (reg, p1) = span_max 15 [CHR '','', CHR '')'', CHR 0x0A, CHR '' ''] p; t = reg_optype reg
      in (op_zero\<lparr>op_type := t, op_reg := x64_reg_num reg, op_is64 := (t = OT_REG64)\<rparr>, p1))"

definition parse_paren_operand :: "string \<Rightarrow> operand \<times> string" where
  "parse_paren_operand p =
     (let (base, p1) = span_max 15 [CHR '','', CHR '')''] p;
          op = op_zero\<lparr>op_base := x64_reg_num base\<rparr>;
          (op, p2) =
            (if char_at p1 0 = CHR '','' then
               (let (idx, p3) = span_max 15 [CHR '','', CHR '')''] (tl p1);
                    op = op\<lparr>op_idx := x64_reg_num idx\<rparr>
                in if char_at p3 0 = CHR '','' then
                     (let (scale, p4) = strtol_rest (tl p3) in (op\<lparr>op_scale := i32 scale\<rparr>, p4))
                   else (op, p3))
             else (op, p1));
          p5 = skip_char CHR '')'' p2
      in (op\<lparr>op_type := (if op_idx op \<noteq> 0 \<or> op_scale op \<noteq> 0 then OT_MEM_IDX else OT_MEM_INDIR),
             op_imm := 0\<rparr>, p5))"

text \<open>The part of \<^verbatim>\<open>N(%reg)\<close> or \<^verbatim>\<open>sym(%rip)\<close> after the opening bracket.\<close>

definition parse_base :: "string \<Rightarrow> string \<times> string" where
  "parse_base q =
     (let (base, q1) = span_max 15 [CHR '')'', CHR '',''] q;
          q2 = (if char_at q1 0 = CHR '','' then dropWhile (\<lambda>c. c \<noteq> CHR '')'') q1 else q1)
      in (base, skip_char CHR '')'' q2))"

definition mem_operand :: "operand \<Rightarrow> string \<Rightarrow> int \<Rightarrow> string \<Rightarrow> operand \<times> string" where
  "mem_operand op name disp q =
     (let (base, q2) = parse_base q
      in if base = ''%rip'' then (op\<lparr>op_type := OT_MEM_RIP, op_sym := name\<rparr>, q2)
         else (op\<lparr>op_type := OT_MEM_BASE, op_base := x64_reg_num base, op_imm := disp\<rparr>, q2))"

definition num_operand :: "string \<Rightarrow> operand \<times> string" where
  "num_operand p =
     (let (sign, q1) = (if char_at p 0 = CHR ''-'' then ([CHR ''-''], tl p) else ([], p));
          digits = take (31 - length sign) (takeWhile is_dec_digit q1);
          disp = strtol10 (sign @ digits);
          q = drop (length digits) q1
      in if char_at q 0 = CHR ''('' then mem_operand op_zero (dec_of_int disp) disp (tl q) else (op_zero, p))"

definition sym_operand :: "string \<Rightarrow> operand \<times> string" where
  "sym_operand p =
     (let (sym, q) = span_max 255 [CHR ''('', CHR 0x0A] p;
          got = strstr_pos sym ''@GOTPCREL'';
          sym = (case got of None \<Rightarrow> sym | Some k \<Rightarrow> take k sym);
          op = op_zero\<lparr>op_is_gotpcrel := (got \<noteq> None)\<rparr>
      in if char_at q 0 = CHR ''('' then mem_operand op sym 0 (tl q)
         else if sym \<noteq> [] then (op\<lparr>op_type := OT_SYM, op_sym := sym\<rparr>, q)
         else (op, p))"

definition parse_disp_operand :: "string \<Rightarrow> operand \<times> string" where
  "parse_disp_operand p =
     (if char_at p 0 = CHR ''-'' \<or> is_dec_digit (char_at p 0) then num_operand p
      else if p = [] \<or> char_at p 0 = CHR 0x0A then (op_zero, p)
      else sym_operand p)"

definition parse_operand_x64 :: "string \<Rightarrow> operand \<times> string" where
  "parse_operand_x64 pp =
     (let p = skip_ws pp
      in if char_at p 0 = CHR ''$'' then parse_imm_operand (tl p)
         else if char_at p 0 = CHR ''%'' then parse_reg_operand p
         else if char_at p 0 = CHR ''('' then parse_paren_operand (tl p)
         else parse_disp_operand p)"

text \<open>Two operands separated by a comma, as every two-operand instruction reads them.\<close>

definition parse_two :: "string \<Rightarrow> operand \<times> operand \<times> string" where
  "parse_two p =
     (let (src, p1) = parse_operand_x64 p; (dst, p2) = parse_operand_x64 (skip_char CHR '','' p1)
      in (src, dst, p2))"

end
