(* ===== verification/Asm_Encode.thy ===== *)
theory Asm_Encode
  imports Asm_Operand Link_Reloc
begin

text \<open>
  The instruction encoder of the internal assembler, \<^verbatim>\<open>src/src/elf_writer.c\<close>: ModRM, SIB and REX
  bytes, one definition per mnemonic handler of \<^verbatim>\<open>x64_encode_line\<close>, the relocations they record
  and the label table that resolves local jumps.

  A byte buffer is the list of its bytes, an offset into it a \<^typ>\<open>nat\<close>; growing the storage is
  taken not to fail.  The handlers of \<^verbatim>\<open>movzbq\<close>, \<^verbatim>\<open>movsbq\<close>, \<^verbatim>\<open>movswq\<close>, \<^verbatim>\<open>movslq\<close> that
  follow the shared one, and the last \<^verbatim>\<open>movq\<close> one, cannot be reached and have no definition.
\<close>

record elf_reloc =
  er_sym :: string
  er_off :: nat
  er_add :: int
  er_type :: u32

text \<open>What an encoder writes to: the bytes of \<^verbatim>\<open>.text\<close> and its relocations.\<close>

record enc_out =
  eo_text :: "u8 list"
  eo_relocs :: "elf_reloc list"

definition byte :: "int \<Rightarrow> u8" where "byte i = word_of_int i"
definition bytes32 :: "int \<Rightarrow> u8 list" where "bytes32 i = le_bytes 4 (word_of_int i :: u32)"
definition bytes64 :: "int \<Rightarrow> u8 list" where "bytes64 i = le_bytes 8 (word_of_int i :: u64)"

definition emit :: "u8 list \<Rightarrow> enc_out \<Rightarrow> enc_out" where
  "emit bs st = st\<lparr>eo_text := eo_text st @ bs\<rparr>"

definition emit_if :: "bool \<Rightarrow> u8 list \<Rightarrow> enc_out \<Rightarrow> enc_out" where
  "emit_if b bs st = (if b then emit bs st else st)"

text \<open>A relocated field: the relocation at the current end of the text, then four placeholder bytes.\<close>

definition reloc_field :: "string \<Rightarrow> u32 \<Rightarrow> enc_out \<Rightarrow> enc_out" where
  "reloc_field s ty st =
     st\<lparr>eo_relocs := eo_relocs st @ [\<lparr>er_sym = take 255 s, er_off = length (eo_text st), er_add = - 4, er_type = ty\<rparr>],
       eo_text := eo_text st @ bytes32 0\<rparr>"

definition rip_type :: "operand \<Rightarrow> u32" where
  "rip_type op = (if op_is_gotpcrel op then R_X86_64_GOTPCREL else R_X86_64_PC32)"

subsection \<open>ModRM, SIB and REX\<close>

definition rex :: "bool \<Rightarrow> int \<Rightarrow> int \<Rightarrow> u8" where
  "rex W R B = byte (0x40 OR (if W then 8 else 0) OR (if R AND 8 \<noteq> 0 then 4 else 0) OR (if B AND 8 \<noteq> 0 then 1 else 0))"

definition modrm :: "int \<Rightarrow> int \<Rightarrow> int \<Rightarrow> u8" where
  "modrm md r m = byte (push_bit 6 md OR push_bit 3 (r AND 7) OR (m AND 7))"

definition modrm_rr :: "int \<Rightarrow> int \<Rightarrow> u8" where
  "modrm_rr r m = byte (0xC0 OR push_bit 3 (r AND 7) OR (m AND 7))"

definition modrm_r0 :: "int \<Rightarrow> int \<Rightarrow> u8" where
  "modrm_r0 r m = byte (push_bit 3 (r AND 7) OR (m AND 7))"

definition modrm_r8 :: "int \<Rightarrow> int \<Rightarrow> u8" where
  "modrm_r8 r m = byte (0x40 OR push_bit 3 (r AND 7) OR (m AND 7))"

definition modrm_r32 :: "int \<Rightarrow> int \<Rightarrow> u8" where
  "modrm_r32 r m = byte (0x80 OR push_bit 3 (r AND 7) OR (m AND 7))"

definition sib_byte :: "int \<Rightarrow> int \<Rightarrow> int \<Rightarrow> u8" where
  "sib_byte scale_log2 idx base = byte (push_bit 6 scale_log2 OR push_bit 3 (idx AND 7) OR (base AND 7))"

definition scale_log2 :: "int \<Rightarrow> int" where
  "scale_log2 scale = (if scale = 2 then 1 else if scale = 4 then 2 else if scale = 8 then 3 else 0)"

definition rex_ext :: "bool \<Rightarrow> int \<Rightarrow> int \<Rightarrow> int \<Rightarrow> u8" where
  "rex_ext w reg idx base =
     byte (0x40 OR (if w then 8 else 0) OR (if reg \<ge> 8 then 4 else 0) OR (if idx \<ge> 8 then 2 else 0)
           OR (if base \<ge> 8 then 1 else 0))"

definition enc_mem_idx :: "u8 \<Rightarrow> bool \<Rightarrow> int \<Rightarrow> int \<Rightarrow> int \<Rightarrow> int \<Rightarrow> enc_out \<Rightarrow> enc_out" where
  "enc_mem_idx opc w reg base idx scale st =
     (let use_disp8 = (base AND 7 = 5)
      in emit_if use_disp8 [0]
          (emit [opc, byte ((if use_disp8 then 0x40 else 0) OR push_bit 3 (reg AND 7) OR 4),
                 sib_byte (scale_log2 scale) idx base]
             (emit_if (w \<or> reg \<ge> 8 \<or> base \<ge> 8 \<or> idx \<ge> 8) [rex_ext w reg idx base] st)))"

definition disp_mod :: "int \<Rightarrow> int \<Rightarrow> int" where
  "disp_mod disp base = (if disp = 0 \<and> base AND 7 \<noteq> 5 then 0 else if - 128 \<le> disp \<and> disp \<le> 127 then 1 else 2)"

definition disp_bytes :: "int \<Rightarrow> int \<Rightarrow> u8 list" where
  "disp_bytes md disp = (if md = 1 then [byte disp] else if md = 2 then bytes32 disp else [])"

definition is_reg_type :: "optype \<Rightarrow> bool" where
  "is_reg_type t \<longleftrightarrow> t = OT_REGXMM \<or> t = OT_REG64 \<or> t = OT_REG32 \<or> t = OT_REG16 \<or> t = OT_REG8"

definition enc_modrm_operand :: "int \<Rightarrow> operand \<Rightarrow> enc_out \<Rightarrow> enc_out" where
  "enc_modrm_operand reg rm st =
     (if is_reg_type (op_type rm) then emit [modrm_rr reg (op_reg rm)] st
      else if op_type rm = OT_MEM_RIP then
        reloc_field (op_sym rm) R_X86_64_PC32 (emit [modrm_r0 reg 5] st)
      else if op_type rm = OT_MEM_IDX then
        (let disp = i32 (op_imm rm); md = disp_mod disp (op_base rm)
         in emit ([modrm md reg 4, sib_byte (scale_log2 (op_scale rm)) (op_idx rm) (op_base rm)] @ disp_bytes md disp) st)
      else
        (let base = op_base rm;
             disp = (if op_type rm = OT_MEM_INDIR then 0 else i32 (op_imm rm));
             need_sib = (base AND 7 = 4); md = disp_mod disp base
         in emit ([modrm md reg (if need_sib then 4 else base AND 7)]
                  @ (if need_sib then [sib_byte 0 4 base] else []) @ disp_bytes md disp) st))"

definition enc_sse :: "u8 \<Rightarrow> u8 \<Rightarrow> int \<Rightarrow> operand \<Rightarrow> bool \<Rightarrow> enc_out \<Rightarrow> enc_out" where
  "enc_sse pfx opcode reg rm rexW st =
     (let rm_reg = (if is_reg_type (op_type rm) then op_reg rm
                    else if op_type rm = OT_MEM_RIP then 0 else op_base rm);
          idx = (if op_type rm = OT_MEM_IDX then op_idx rm else 0)
      in enc_modrm_operand reg rm
          (emit [0x0F, opcode]
            (emit_if (rexW \<or> reg \<ge> 8 \<or> rm_reg \<ge> 8 \<or> idx \<ge> 8) [rex_ext rexW reg idx rm_reg]
              (emit_if (pfx \<noteq> 0) [pfx] st))))"

definition enc_rr64 :: "u8 \<Rightarrow> int \<Rightarrow> int \<Rightarrow> enc_out \<Rightarrow> enc_out" where
  "enc_rr64 opc dst src st = emit [rex True src dst, opc, modrm_rr src dst] st"

definition enc_mem_base :: "u8 \<Rightarrow> int \<Rightarrow> int \<Rightarrow> int \<Rightarrow> bool \<Rightarrow> enc_out \<Rightarrow> enc_out" where
  "enc_mem_base opc reg base disp W st =
     (let r = rex W reg base; rb = base AND 7; rg = reg AND 7;
          st1 = emit [opc] (if r \<noteq> 0x40 \<or> reg AND 8 \<noteq> 0 \<or> base AND 8 \<noteq> 0 then emit [r] st
                            else if W then emit [0x48] st else st);
          sib = (if rb = 4 then [0x24] else [])
      in if disp = 0 \<and> rb \<noteq> 5 then emit ([modrm_r0 rg rb] @ sib) st1
         else if - 128 \<le> disp \<and> disp \<le> 127 then emit ([modrm_r8 rg rb] @ sib @ [byte disp]) st1
         else emit ([modrm_r32 rg rb] @ sib @ bytes32 disp) st1)"

text \<open>A RIP-relative operand of a general-purpose instruction, through the GOT when it says so.\<close>

definition enc_rip :: "int \<Rightarrow> operand \<Rightarrow> enc_out \<Rightarrow> enc_out" where
  "enc_rip reg rm st = reloc_field (op_sym rm) (rip_type rm) (emit [modrm_r0 reg 5] st)"

end
