(* ===== verification/Asm_Line.thy ===== *)
theory Asm_Line
  imports Asm_Encode
begin

text \<open>
  One instruction line of the internal assembler, \<^verbatim>\<open>x64_encode_line\<close> of
  \<^verbatim>\<open>src/src/elf_writer.c\<close>: a definition per mnemonic handler in the order of the source, the
  label table, and the line itself.  A handler takes the operand text \<open>p\<close> and the output so
  far; the ones that can decline return \<^term>\<open>None\<close>, and the line goes on to the next.

  The integer \<^verbatim>\<open>x64_encode_line\<close> returns is not used by its caller and is left out.
\<close>

datatype asm_error = Asm_Fatal string | Label_Unterminated string | Path_Unterminated string | Bad_Shift int

text \<open>The fallback of the sized handlers for operands they do not know: one \<^verbatim>\<open>nop\<close>.\<close>

definition nop_fallback :: "enc_out \<Rightarrow> enc_out" where
  "nop_fallback st = emit [0x90] st"

subsection \<open>Stack and x87 instructions\<close>

definition enc_pushq :: "string \<Rightarrow> enc_out \<Rightarrow> enc_out" where
  "enc_pushq p st =
     (let op = fst (parse_operand_x64 p)
      in if op_type op = OT_REG64 then
           emit [byte (0x50 OR (op_reg op AND 7))] (emit_if (op_reg op \<ge> 8) [rex False 0 (op_reg op)] st)
         else if op_type op = OT_IMM then
           (if - 128 \<le> op_imm op \<and> op_imm op \<le> 127 then emit [0x6A, byte (op_imm op)] st
            else emit (0x68 # bytes32 (op_imm op)) st)
         else st)"

definition enc_popq :: "string \<Rightarrow> enc_out \<Rightarrow> enc_out" where
  "enc_popq p st =
     (let op = fst (parse_operand_x64 p)
      in if op_type op = OT_REG64 then
           emit [byte (0x58 OR (op_reg op AND 7))] (emit_if (op_reg op \<ge> 8) [rex False 0 (op_reg op)] st)
         else st)"

definition fmem_table :: "(string \<times> u8 \<times> int) list" where
  "fmem_table =
     [(''fldl'', 0xDD, 0), (''fstpl'', 0xDD, 3), (''fldt'', 0xDB, 5), (''fstpt'', 0xDB, 7),
      (''fildq'', 0xDF, 5), (''fisttpq'', 0xDD, 1), (''fldd'', 0xDD, 0), (''flds'', 0xD9, 0), (''fstps'', 0xD9, 3)]"

definition enc_fmem :: "u8 \<Rightarrow> int \<Rightarrow> string \<Rightarrow> enc_out \<Rightarrow> enc_out" where
  "enc_fmem opc dig p st =
     (let mem = fst (parse_operand_x64 p); base = (if op_type mem = OT_MEM_RIP then 0 else op_base mem)
      in enc_modrm_operand dig mem (emit [opc] (emit_if (base \<ge> 8) [0x41] st)))"

definition st_index :: "string \<Rightarrow> int" where
  "st_index p =
     (let q = skip_ws p
      in if starts_with q ''%st'' \<and> char_at q 3 = CHR ''('' then i32 (fst (strtol_rest (drop 4 q))) else 0)"

definition enc_fstack :: "string \<Rightarrow> string \<Rightarrow> enc_out \<Rightarrow> enc_out" where
  "enc_fstack mnem p st =
     (let i = st_index p AND 7
      in if mnem = ''fstp'' then emit [0xDD, byte (0xD8 + i)] st
         else if mnem = ''fxch'' then emit [0xD9, byte (0xC8 + i)] st
         else emit [0xDF, byte ((if mnem = ''fucomip'' then 0xE8 else 0xF0) + i)] st)"

definition x87_insn :: "string \<Rightarrow> string \<Rightarrow> enc_out \<Rightarrow> enc_out option" where
  "x87_insn mnem p st =
     (case map_of fmem_table mnem of
        Some (opc, dig) \<Rightarrow> Some (enc_fmem opc dig p st)
      | None \<Rightarrow>
        if mnem = ''fchs'' then Some (emit [0xD9, 0xE0] st)
        else if mnem = ''fabs'' then Some (emit [0xD9, 0xE1] st)
        else if mnem \<in> set [''fstp'', ''fucomip'', ''fcomip'', ''fxch''] then Some (enc_fstack mnem p st)
        else None)"

subsection \<open>Scalar floating point\<close>

definition fbin_table :: "(string \<times> u8 \<times> u8) list" where
  "fbin_table =
     [(''addsd'', 0xF2, 0x58), (''subsd'', 0xF2, 0x5C), (''mulsd'', 0xF2, 0x59), (''divsd'', 0xF2, 0x5E),
      (''addss'', 0xF3, 0x58), (''subss'', 0xF3, 0x5C), (''mulss'', 0xF3, 0x59), (''divss'', 0xF3, 0x5E),
      (''sqrtsd'', 0xF2, 0x51), (''sqrtss'', 0xF3, 0x51), (''cvtsd2ss'', 0xF2, 0x5A), (''cvtss2sd'', 0xF3, 0x5A),
      (''ucomisd'', 0x66, 0x2E), (''comisd'', 0x66, 0x2F), (''ucomiss'', 0x00, 0x2E), (''comiss'', 0x00, 0x2F),
      (''xorpd'', 0x66, 0x57), (''xorps'', 0x00, 0x57), (''pxor'', 0x66, 0xEF), (''andpd'', 0x66, 0x54),
      (''andps'', 0x00, 0x54), (''movapd'', 0x66, 0x28), (''movaps'', 0x00, 0x28)]"

definition enc_fbin :: "u8 \<Rightarrow> u8 \<Rightarrow> string \<Rightarrow> enc_out \<Rightarrow> enc_out" where
  "enc_fbin pfx opc p st = (let (src, dst, _) = parse_two p in enc_sse pfx opc (op_reg dst) src False st)"

definition enc_movs :: "string \<Rightarrow> string \<Rightarrow> enc_out \<Rightarrow> enc_out" where
  "enc_movs mnem p st =
     (let pfx = (if char_at mnem 4 = CHR ''d'' then 0xF2 else 0xF3); (src, dst, _) = parse_two p
      in if op_type src = OT_REGXMM \<and> op_type dst \<noteq> OT_REGXMM then enc_sse pfx 0x11 (op_reg src) dst False st
         else if op_type dst = OT_REGXMM then enc_sse pfx 0x10 (op_reg dst) src False st
         else st)"

definition enc_movq_xmm :: "string \<Rightarrow> string \<Rightarrow> enc_out \<Rightarrow> enc_out option" where
  "enc_movq_xmm mnem p st =
     (let (src, dst, _) = parse_two p; w = (mnem = ''movq'')
      in if op_type src = OT_REGXMM \<and> op_type dst = OT_REGXMM then Some (enc_sse 0xF3 0x7E (op_reg dst) src False st)
         else if op_type src = OT_REGXMM then Some (enc_sse 0x66 0x7E (op_reg src) dst w st)
         else if op_type dst = OT_REGXMM then Some (enc_sse 0x66 0x6E (op_reg dst) src w st)
         else None)"

definition is_cvt :: "string \<Rightarrow> bool" where
  "is_cvt m \<longleftrightarrow> list_ex (starts_with m)
     [''cvtsi2sd'', ''cvtsi2ss'', ''cvttsd2si'', ''cvttss2si'', ''cvtsd2si'', ''cvtss2si'']"

definition enc_cvt :: "string \<Rightarrow> string \<Rightarrow> enc_out \<Rightarrow> enc_out" where
  "enc_cvt mnem p st =
     (let (src, dst, _) = parse_two p;
          w = (char_at mnem (length mnem - 1) = CHR ''q'' \<or> op_type src = OT_REG64 \<or> op_type dst = OT_REG64)
      in if starts_with mnem ''cvtsi2'' then
           enc_sse (if strstr_pos mnem ''2sd'' \<noteq> None then 0xF2 else 0xF3) 0x2A (op_reg dst) src w st
         else
           enc_sse (if strstr_pos mnem ''sd2si'' \<noteq> None then 0xF2 else 0xF3)
             (if char_at mnem 3 = CHR ''t'' then 0x2C else 0x2D) (op_reg dst) src w st)"

subsection \<open>Moves\<close>

definition enc_movabs :: "string \<Rightarrow> enc_out \<Rightarrow> enc_out" where
  "enc_movabs p st =
     (let (src, dst, _) = parse_two p; d = op_reg dst
      in if op_type src = OT_IMM \<and> op_type dst = OT_REG64 then
           emit ([rex True 0 d, byte (0xB8 + (d AND 7))] @ bytes64 (op_imm src)) st
         else st)"

definition enc_testq :: "string \<Rightarrow> enc_out \<Rightarrow> enc_out option" where
  "enc_testq p st =
     (let (src, dst, _) = parse_two p; s = op_reg src; d = op_reg dst
      in if op_type src = OT_REG64 \<and> op_type dst = OT_REG64 then Some (emit [rex True s d, 0x85, modrm_rr s d] st)
         else None)"

definition enc_xorl :: "string \<Rightarrow> enc_out \<Rightarrow> enc_out" where
  "enc_xorl p st =
     (let (src, dst, _) = parse_two p; s = op_reg src; d = op_reg dst;
          pfx = byte (0x40 OR (if s AND 8 \<noteq> 0 then 4 else 0) OR (if d AND 8 \<noteq> 0 then 1 else 0))
      in emit [0x31, modrm_rr s d] (emit_if (pfx \<noteq> 0x40) [pfx] st))"

definition enc_mov_imm :: "int \<Rightarrow> int \<Rightarrow> enc_out \<Rightarrow> enc_out" where
  "enc_mov_imm imm d st =
     (if - 2147483648 \<le> imm \<and> imm \<le> 4294967295 \<and> 0 \<le> imm then
        emit (byte (0xB8 OR (d AND 7)) # bytes32 imm) (emit_if (d \<ge> 8) [rex False 0 d] st)
      else if - 2147483648 \<le> imm \<and> imm \<le> 2147483647 then
        emit ([rex True 0 d, 0xC7, modrm_rr 0 d] @ bytes32 imm) st
      else emit ([rex True 0 d, byte (0xB8 OR (d AND 7))] @ bytes64 imm) st)"

definition enc_movq :: "string \<Rightarrow> enc_out \<Rightarrow> enc_out" where
  "enc_movq p st =
     (let (src, dst, _) = parse_two p; s = op_type src; d = op_type dst
      in if s = OT_IMM \<and> d = OT_REG64 then enc_mov_imm (op_imm src) (op_reg dst) st
         else if s = OT_REG64 \<and> d = OT_REG64 then enc_rr64 0x89 (op_reg dst) (op_reg src) st
         else if s = OT_REG64 \<and> d = OT_MEM_BASE then
           enc_mem_base 0x89 (op_reg src) (op_base dst) (i32 (op_imm dst)) True st
         else if s = OT_MEM_BASE \<and> d = OT_REG64 then
           enc_mem_base 0x8B (op_reg dst) (op_base src) (i32 (op_imm src)) True st
         else if s = OT_REG64 \<and> d = OT_MEM_INDIR then enc_mem_base 0x89 (op_reg src) (op_base dst) 0 True st
         else if s = OT_MEM_INDIR \<and> d = OT_REG64 then enc_mem_base 0x8B (op_reg dst) (op_base src) 0 True st
         else if s = OT_MEM_RIP \<and> d = OT_REG64 then
           enc_rip (op_reg dst) src (emit [rex True (op_reg dst) 0, 0x8B] st)
         else if s = OT_REG64 \<and> d = OT_MEM_IDX then
           enc_mem_idx 0x89 True (op_reg src) (op_base dst) (op_idx dst) (op_scale dst) st
         else if s = OT_MEM_IDX \<and> d = OT_REG64 then
           enc_mem_idx 0x8B True (op_reg dst) (op_base src) (op_idx src) (op_scale src) st
         else nop_fallback st)"

definition enc_movl :: "string \<Rightarrow> enc_out \<Rightarrow> enc_out" where
  "enc_movl p st =
     (let (src, dst, _) = parse_two p; s = op_type src; d = op_type dst
      in if s = OT_REG32 \<and> d = OT_MEM_BASE then
           enc_mem_base 0x89 (op_reg src) (op_base dst) (i32 (op_imm dst)) False st
         else if s = OT_MEM_BASE \<and> d = OT_REG32 then
           enc_mem_base 0x8B (op_reg dst) (op_base src) (i32 (op_imm src)) False st
         else if s = OT_REG32 \<and> d = OT_MEM_INDIR then enc_mem_base 0x89 (op_reg src) (op_base dst) 0 False st
         else if s = OT_REG32 \<and> d = OT_MEM_RIP then
           enc_rip (op_reg src) dst (emit [0x89] (emit_if (op_reg src \<ge> 8) [rex False (op_reg src) 0] st))
         else if s = OT_REG32 \<and> d = OT_MEM_IDX then
           enc_mem_idx 0x89 False (op_reg src) (op_base dst) (op_idx dst) (op_scale dst) st
         else if s = OT_MEM_IDX \<and> d = OT_REG32 then
           enc_mem_idx 0x8B False (op_reg dst) (op_base src) (op_idx src) (op_scale src) st
         else nop_fallback st)"

definition enc_movb :: "string \<Rightarrow> enc_out \<Rightarrow> enc_out" where
  "enc_movb p st =
     (let (src, dst, _) = parse_two p; s = op_type src; d = op_type dst; r = op_reg src; b = op_base dst
      in if s = OT_REG8 \<and> d = OT_MEM_RIP then
           enc_rip r dst (emit [0x88] (emit_if (r \<ge> 4) [rex False r 0] st))
         else if s = OT_REG8 \<and> d = OT_MEM_BASE then
           emit ([0x88, modrm_r32 r b] @ (if b AND 7 = 4 then [0x24] else []) @ bytes32 (op_imm dst))
             (emit_if (r \<ge> 4) [rex False r b] st)
         else if s = OT_MEM_IDX \<and> d = OT_REG8 then
           enc_mem_idx 0x8A False (op_reg dst) (op_base src) (op_idx src) (op_scale src) st
         else if s = OT_REG8 \<and> d = OT_MEM_IDX then
           enc_mem_idx 0x88 False r b (op_idx dst) (op_scale dst) st
         else nop_fallback st)"

definition enc_movw :: "string \<Rightarrow> enc_out \<Rightarrow> enc_out" where
  "enc_movw p st =
     (let (src, dst, _) = parse_two p
      in if op_type src = OT_REG16 \<and> op_type dst = OT_MEM_RIP then
           enc_rip (op_reg src AND 7) dst (emit [0x66, 0x89] st)
         else nop_fallback st)"

subsection \<open>Integer arithmetic\<close>

text \<open>The forms \<^verbatim>\<open>op $imm8, %reg\<close> and \<^verbatim>\<open>op $imm32, %reg\<close> of an operation with extension
  \<^term>\<open>slash\<close>; the sized handlers repeat them.\<close>

definition alu_imm :: "int \<Rightarrow> int \<Rightarrow> int \<Rightarrow> enc_out \<Rightarrow> enc_out" where
  "alu_imm slash imm d st =
     (if - 128 \<le> imm \<and> imm \<le> 127 then emit [rex True 0 d, 0x83, modrm_rr slash d, byte imm] st
      else emit ([rex True 0 d, 0x81, modrm_rr slash d] @ bytes32 imm) st)"

definition enc_addq :: "string \<Rightarrow> enc_out \<Rightarrow> enc_out" where
  "enc_addq p st =
     (let (src, dst, _) = parse_two p
      in if op_type src = OT_IMM \<and> op_type dst = OT_REG64 then alu_imm 0 (op_imm src) (op_reg dst) st
         else if op_type src = OT_REG64 \<and> op_type dst = OT_REG64 then enc_rr64 0x01 (op_reg dst) (op_reg src) st
         else nop_fallback st)"

definition enc_subq :: "string \<Rightarrow> enc_out \<Rightarrow> enc_out" where
  "enc_subq p st =
     (let (src, dst, _) = parse_two p
      in if op_type src = OT_IMM \<and> op_type dst = OT_REG64 then alu_imm 5 (op_imm src) (op_reg dst) st
         else if op_type src = OT_REG64 \<and> op_type dst = OT_REG64 then enc_rr64 0x29 (op_reg dst) (op_reg src) st
         else nop_fallback st)"

definition enc_imulq :: "string \<Rightarrow> enc_out \<Rightarrow> enc_out" where
  "enc_imulq p st =
     (let (src, dst, _) = parse_two p; d = op_reg dst; imm = op_imm src
      in if op_type src = OT_IMM \<and> op_type dst = OT_REG64 then
           (if - 128 \<le> imm \<and> imm \<le> 127 then emit [rex True d d, 0x6B, modrm_rr d d, byte imm] st
            else emit ([rex True d d, 0x69, modrm_rr d d] @ bytes32 imm) st)
         else if op_type src = OT_REG64 \<and> op_type dst = OT_REG64 then
           emit [rex True d (op_reg src), 0x0F, 0xAF, modrm_rr d (op_reg src)] st
         else nop_fallback st)"

definition enc_unary :: "int \<Rightarrow> string \<Rightarrow> enc_out \<Rightarrow> enc_out" where
  "enc_unary slash p st =
     (let op = fst (parse_operand_x64 p) in emit [rex True 0 (op_reg op), 0xF7, modrm_rr slash (op_reg op)] st)"

definition enc_logic :: "string \<Rightarrow> string \<Rightarrow> enc_out \<Rightarrow> enc_out" where
  "enc_logic mnem p st =
     (let slash = (if mnem = ''andq'' then 4 else if mnem = ''orq'' then 1 else 6);
          op_rr = (if mnem = ''andq'' then 0x21 else if mnem = ''orq'' then 0x09 else 0x31);
          (src, dst, _) = parse_two p
      in if op_type src = OT_IMM \<and> op_type dst = OT_REG64 then alu_imm slash (op_imm src) (op_reg dst) st
         else if op_type src = OT_REG64 \<and> op_type dst = OT_MEM_INDIR then
           emit ([rex True (op_reg src) (op_base dst), op_rr, modrm_r0 (op_reg src AND 7) (op_base dst AND 7)]
                 @ (if op_base dst AND 7 = 4 then [0x24] else [])) st
         else if op_type src = OT_REG64 \<and> op_type dst = OT_REG64 then enc_rr64 op_rr (op_reg dst) (op_reg src) st
         else nop_fallback st)"

definition enc_shift :: "string \<Rightarrow> string \<Rightarrow> enc_out \<Rightarrow> enc_out" where
  "enc_shift mnem p st =
     (let slash = (if mnem = ''shlq'' then 4 else if mnem = ''sarq'' then 7 else 5);
          (src, dst, _) = parse_two p; d = op_reg dst
      in if op_type src = OT_IMM then
           (if byte (op_imm src) = 1 then emit [rex True 0 d, 0xD1, modrm_rr slash d] st
            else emit [rex True 0 d, 0xC1, modrm_rr slash d, byte (op_imm src)] st)
         else if op_type src = OT_REG8 then emit [rex True 0 d, 0xD3, modrm_rr slash d] st
         else st)"

definition enc_cmpq :: "string \<Rightarrow> enc_out \<Rightarrow> enc_out" where
  "enc_cmpq p st =
     (let (src, dst, _) = parse_two p
      in if op_type src = OT_IMM \<and> op_type dst = OT_REG64 then alu_imm 7 (op_imm src) (op_reg dst) st
         else if op_type src = OT_REG64 \<and> op_type dst = OT_REG64 then enc_rr64 0x39 (op_reg dst) (op_reg src) st
         else nop_fallback st)"

definition setcc_code :: "string \<Rightarrow> u8" where
  "setcc_code cc =
     (if cc = ''e'' then 0x94 else if cc = ''ne'' then 0x95 else if cc = ''l'' then 0x9C
      else if cc = ''g'' then 0x9F else if cc = ''le'' then 0x9E else if cc = ''ge'' then 0x9D
      else if cc = ''b'' then 0x92 else if cc = ''a'' then 0x97 else if cc = ''be'' then 0x96 else 0x93)"

definition enc_setcc :: "string \<Rightarrow> string \<Rightarrow> enc_out \<Rightarrow> enc_out" where
  "enc_setcc mnem p st =
     (let r = op_reg (fst (parse_operand_x64 p));
          st1 = (if 4 \<le> r \<and> r \<le> 7 then emit [0x40] st else if r \<ge> 8 then emit [rex False 0 r] st else st)
      in emit [0x0F, setcc_code (drop 3 mnem), modrm_rr 0 r] st1)"

subsection \<open>Extending loads and addresses\<close>

definition enc_movslq :: "string \<Rightarrow> enc_out \<Rightarrow> enc_out" where
  "enc_movslq p st =
     (let (src, dst, _) = parse_two p;
          rm_reg = (if op_type src = OT_MEM_RIP then 0
                    else if op_type src \<in> set [OT_MEM_BASE, OT_MEM_INDIR, OT_MEM_IDX] then op_base src
                    else op_reg src);
          idx = (if op_type src = OT_MEM_IDX then op_idx src else 0)
      in enc_modrm_operand (op_reg dst) src (emit [rex_ext True (op_reg dst) idx rm_reg, 0x63] st))"

definition enc_movx :: "string \<Rightarrow> string \<Rightarrow> enc_out \<Rightarrow> enc_out" where
  "enc_movx mnem p st =
     (let (src, dst, _) = parse_two p;
          opcode = (if mnem = ''movsbq'' then 0xBE else if mnem = ''movswq'' then 0xBF
                    else if mnem = ''movzbq'' then 0xB6 else 0xB7)
      in enc_sse 0 opcode (op_reg dst) src True st)"

definition enc_movsbl :: "string \<Rightarrow> enc_out \<Rightarrow> enc_out" where
  "enc_movsbl p st =
     (let (src, dst, _) = parse_two p; d = op_reg dst
      in if op_type src = OT_MEM_RIP then
           enc_rip (d AND 7) src (emit [0x0F, 0xBE] (emit_if (d \<ge> 8) [rex False d 0] st))
         else
           emit [0x0F, 0xBE, modrm_rr d (op_reg src)] (emit_if (d \<ge> 8) [rex False d (op_reg src)] st))"

definition enc_leaq :: "string \<Rightarrow> enc_out \<Rightarrow> enc_out" where
  "enc_leaq p st =
     (let (src, dst, _) = parse_two p; d = op_reg dst
      in if op_type src = OT_MEM_RIP then enc_rip (d AND 7) src (emit [rex True d 0, 0x8D] st)
         else if op_type src = OT_MEM_BASE then enc_mem_base 0x8D d (op_base src) (i32 (op_imm src)) True st
         else nop_fallback st)"

definition enc_call :: "string \<Rightarrow> enc_out \<Rightarrow> enc_out" where
  "enc_call p st =
     (if char_at p 0 = CHR ''*'' then
        (let r = op_reg (fst (parse_operand_x64 (tl p)))
         in emit [0xFF, modrm_rr 2 r] (emit_if (r \<ge> 8) [rex False 0 r] st))
      else reloc_field (fst (span_max 255 [CHR 0x0A, CHR '' ''] p)) R_X86_64_PLT32 (emit [0xE8] st))"

subsection \<open>The mnemonics in the order of the source\<close>

definition alu_insn :: "string \<Rightarrow> string \<Rightarrow> enc_out \<Rightarrow> enc_out option" where
  "alu_insn mnem p st =
     (if mnem = ''addq'' then Some (enc_addq p st)
      else if mnem = ''subq'' then Some (enc_subq p st)
      else if mnem = ''imulq'' then Some (enc_imulq p st)
      else if mnem = ''idivq'' then Some (enc_unary 7 p st)
      else if mnem \<in> set [''andq'', ''orq'', ''xorq''] then Some (enc_logic mnem p st)
      else if mnem = ''notq'' then Some (enc_unary 2 p st)
      else if mnem = ''negq'' then Some (enc_unary 3 p st)
      else if mnem \<in> set [''shlq'', ''sarq'', ''shrq''] then Some (enc_shift mnem p st)
      else if mnem = ''cmpq'' then Some (enc_cmpq p st)
      else if starts_with mnem ''set'' then Some (enc_setcc mnem p st)
      else if mnem = ''movslq'' then Some (enc_movslq p st)
      else if mnem \<in> set [''movsbq'', ''movswq'', ''movzbq'', ''movzwq''] then Some (enc_movx mnem p st)
      else if mnem = ''movsbl'' then Some (enc_movsbl p st)
      else if mnem = ''leaq'' then Some (enc_leaq p st)
      else if mnem = ''call'' then Some (enc_call p st)
      else None)"

definition move_insn :: "string \<Rightarrow> string \<Rightarrow> enc_out \<Rightarrow> enc_out option" where
  "move_insn mnem p st =
     (if is_cvt mnem then Some (enc_cvt mnem p st)
      else if mnem = ''movabsq'' \<or> mnem = ''movabs'' then Some (enc_movabs p st)
      else if mnem = ''nop'' then Some (emit [0x90] st)
      else if mnem = ''cqto'' \<or> mnem = ''cqo'' then Some (emit [0x48, 0x99] st)
      else if mnem = ''testq'' then enc_testq p st
      else if mnem = ''xorl'' then Some (enc_xorl p st)
      else if mnem = ''movq'' then Some (enc_movq p st)
      else if mnem = ''movl'' then Some (enc_movl p st)
      else if mnem = ''movb'' then Some (enc_movb p st)
      else if mnem = ''movw'' then Some (enc_movw p st)
      else alu_insn mnem p st)"

definition sse_insn :: "string \<Rightarrow> string \<Rightarrow> enc_out \<Rightarrow> enc_out option" where
  "sse_insn mnem p st =
     (case map_of fbin_table mnem of
        Some (pfx, opc) \<Rightarrow> Some (enc_fbin pfx opc p st)
      | None \<Rightarrow>
        if mnem = ''movsd'' \<or> mnem = ''movss'' then Some (enc_movs mnem p st)
        else if mnem = ''movq'' \<or> mnem = ''movd'' then
          (case enc_movq_xmm mnem p st of Some st1 \<Rightarrow> Some st1 | None \<Rightarrow> move_insn mnem p st)
        else move_insn mnem p st)"

definition encode_insn :: "string \<Rightarrow> string \<Rightarrow> enc_out \<Rightarrow> enc_out option" where
  "encode_insn mnem p st =
     (if mnem = ''pushq'' then Some (enc_pushq p st)
      else if mnem = ''popq'' then Some (enc_popq p st)
      else if mnem = ''ret'' then Some (emit [0xC3] st)
      else if mnem = ''leave'' then Some (emit [0xC9] st)
      else (case x87_insn mnem p st of Some st1 \<Rightarrow> Some st1 | None \<Rightarrow> sse_insn mnem p st))"

subsection \<open>Labels and jumps\<close>

record enc_ctx =
  cx_labels :: "(string \<times> int) list"
  cx_patches :: "(nat \<times> string) list"

definition ctx_init :: enc_ctx where
  "ctx_init = \<lparr>cx_labels = [], cx_patches = []\<rparr>"

definition ctx_add_label :: "string \<Rightarrow> int \<Rightarrow> enc_ctx \<Rightarrow> enc_ctx" where
  "ctx_add_label name off ctx = ctx\<lparr>cx_labels := cx_labels ctx @ [(name, off)]\<rparr>"

definition ctx_find_label :: "enc_ctx \<Rightarrow> string \<Rightarrow> int" where
  "ctx_find_label ctx name = (case map_of (cx_labels ctx) name of None \<Rightarrow> - 1 | Some off \<Rightarrow> off)"

text \<open>\<^verbatim>\<open>strncpy\<close> leaves a label of 63 characters without its terminator.\<close>

definition ctx_add_patch :: "nat \<Rightarrow> string \<Rightarrow> enc_ctx \<Rightarrow> asm_error + enc_ctx" where
  "ctx_add_patch off label ctx =
     (if length label \<ge> 63 then Inl (Label_Unterminated label)
      else Inr (ctx\<lparr>cx_patches := cx_patches ctx @ [(off, label)]\<rparr>))"

definition bb_patch32le :: "nat \<Rightarrow> int \<Rightarrow> u8 list \<Rightarrow> u8 list" where
  "bb_patch32le off v text = take off text @ bytes32 v @ drop (off + 4) text"

definition apply_patch :: "string \<Rightarrow> nat \<Rightarrow> nat \<times> string \<Rightarrow> u8 list \<Rightarrow> u8 list" where
  "apply_patch name fn_start pt text =
     (if snd pt = name then
        bb_patch32le (fst pt)
          (i32 (int (length text) - int fn_start) - i32 (int (fst pt) - int fn_start + 4)) text
      else text)"

text \<open>A label definition: the label is recorded at the current offset and the pending jumps to it
  are resolved.\<close>

definition define_label :: "string \<Rightarrow> nat \<Rightarrow> u8 list \<Rightarrow> enc_ctx \<Rightarrow> u8 list \<times> enc_ctx" where
  "define_label name fn_start text ctx =
     (fold (apply_patch name fn_start) (cx_patches ctx) text,
      ctx_add_label name (i32 (int (length text) - int fn_start)) ctx)"

definition enc_jump :: "string \<Rightarrow> string \<Rightarrow> nat \<Rightarrow> enc_out \<Rightarrow> enc_ctx \<Rightarrow> asm_error + (enc_out \<times> enc_ctx)" where
  "enc_jump mnem p fn_start st ctx =
     (let label = fst (span_max 63 [CHR 0x0A, CHR '' ''] p);
          is_cond = (mnem = ''je'' \<or> mnem = ''jne'');
          opcode2 = (if mnem = ''je'' then 0x84 else if mnem = ''jne'' then 0x85 else 0xE9);
          target_off = ctx_find_label ctx label;
          st1 = emit [opcode2] (emit_if is_cond [0x0F] st)
      in if target_off \<ge> 0 then
           Inr (emit (bytes32 (target_off - i32 (int (length (eo_text st1)) - int fn_start + 4))) st1, ctx)
         else
           bnd (ctx_add_patch (length (eo_text st1)) label ctx) (\<lambda>ctx1. Inr (emit (bytes32 0) st1, ctx1)))"

definition normal_mnem :: "string \<Rightarrow> string \<Rightarrow> string" where
  "normal_mnem mnem p = (if is_suffixless_gp mnem then mnem @ [infer_gp_suffix p] else mnem)"

definition x64_encode_line :: "string \<Rightarrow> nat \<Rightarrow> enc_out \<Rightarrow> enc_ctx \<Rightarrow> asm_error + (enc_out \<times> enc_ctx)" where
  "x64_encode_line line fn_start st ctx =
     (let p = skip_ws line
      in if p = [] \<or> hd p = CHR 0x0A \<or> hd p = CHR ''#'' \<or> hd p = CHR ''.'' then Inr (st, ctx)
         else
           (let (lname, q) = span_max 255 [CHR '':'', CHR '' '', CHR 0x0A] p
            in if char_at q 0 = CHR '':'' then
                 (let (text, ctx1) = define_label lname fn_start (eo_text st) ctx
                  in Inr (st\<lparr>eo_text := text\<rparr>, ctx1))
               else
                 (let (word, q1) = span_max 31 [CHR '' '', CHR 0x09, CHR 0x0A] p;
                      ops = skip_ws q1; mnem = normal_mnem word ops
                  in case encode_insn mnem ops st of
                       Some st1 \<Rightarrow> Inr (st1, ctx)
                     | None \<Rightarrow>
                       if mnem \<in> set [''je'', ''jne'', ''jmp''] then enc_jump mnem ops fn_start st ctx
                       else Inl (Asm_Fatal (''elf_writer: no encoding for instruction '' @ [CHR 0x27] @ mnem @ [CHR 0x27]
                              @ '' (internal assembler)'')))))"

end
