(* ===== verification/Asm_Parse.thy ===== *)
theory Asm_Parse
  imports Asm_Line
begin

text \<open>
  The assembler's front end, \<^verbatim>\<open>parse_asm_x64\<close> of \<^verbatim>\<open>src/src/elf_writer.c\<close>: the
  text is read line by line into sections, symbols, relocations and source locations.  The
  \<^verbatim>\<open>while\<close> loop over the text is a fold over its lines, a line being the first 1023
  characters up to the newline; its locals are the record \<open>asm_state\<close>.

  Two things the C code leaves undefined are errors here: a path or label that fills its array and
  so has no terminator, and an alignment whose shift does not fit an \<^verbatim>\<open>int\<close>.
\<close>

definition STT_NOTYPE :: u8 where "STT_NOTYPE = 0"

datatype section_id = SEC_NONE | SEC_TEXT | SEC_DATA | SEC_RODATA | SEC_BSS

record elf_sym =
  es_name :: string
  es_shndx :: nat
  es_value :: nat
  es_size :: u32
  es_bind :: u8
  es_type :: u8
  es_defined :: bool

record file_entry =
  fe_id :: int
  fe_path :: string

record loc_entry =
  le_file :: int
  le_line :: int
  le_col :: int
  le_off :: nat

record asm_model =
  am_out :: enc_out
  am_data :: "u8 list"
  am_rodata :: "u8 list"
  am_bss_size :: u64
  am_syms :: "elf_sym list"
  am_files :: "file_entry list"
  am_locs :: "loc_entry list"

abbreviation am_text :: "asm_model \<Rightarrow> u8 list" where "am_text m \<equiv> eo_text (am_out m)"
abbreviation am_text_relocs :: "asm_model \<Rightarrow> elf_reloc list" where "am_text_relocs m \<equiv> eo_relocs (am_out m)"

definition asm_model_init :: asm_model where
  "asm_model_init = \<lparr>am_out = \<lparr>eo_text = [], eo_relocs = []\<rparr>, am_data = [], am_rodata = [], am_bss_size = 0,
     am_syms = [], am_files = [], am_locs = []\<rparr>"

record asm_state =
  as_model :: asm_model
  as_sec :: section_id
  as_ctx :: enc_ctx
  as_fn_start :: nat
  as_in_fn :: bool
  as_globl :: string
  as_globl2 :: string
  as_weak :: string
  as_func :: string

definition asm_start :: asm_state where
  "asm_start = \<lparr>as_model = asm_model_init, as_sec = SEC_NONE, as_ctx = ctx_init, as_fn_start = 0,
     as_in_fn = False, as_globl = [], as_globl2 = [], as_weak = [], as_func = []\<rparr>"

abbreviation upd_model :: "(asm_model \<Rightarrow> asm_model) \<Rightarrow> asm_state \<Rightarrow> asm_state" where
  "upd_model f st \<equiv> st\<lparr>as_model := f (as_model st)\<rparr>"

definition push_sym :: "elf_sym \<Rightarrow> asm_state \<Rightarrow> asm_state" where
  "push_sym s st = upd_model (\<lambda>m. m\<lparr>am_syms := am_syms m @ [s]\<rparr>) st"

text \<open>The buffer of the section a directive writes to, \<^verbatim>\<open>.data\<close> or \<^verbatim>\<open>.rodata\<close>.\<close>

definition sec_buf :: "asm_state \<Rightarrow> u8 list" where
  "sec_buf st = (if as_sec st = SEC_DATA then am_data (as_model st) else am_rodata (as_model st))"

definition put_buf :: "u8 list \<Rightarrow> asm_state \<Rightarrow> asm_state" where
  "put_buf bs st =
     (if as_sec st = SEC_DATA then upd_model (\<lambda>m. m\<lparr>am_data := am_data m @ bs\<rparr>) st
      else upd_model (\<lambda>m. m\<lparr>am_rodata := am_rodata m @ bs\<rparr>) st)"

definition in_data :: "asm_state \<Rightarrow> bool" where
  "in_data st \<longleftrightarrow> as_sec st = SEC_DATA \<or> as_sec st = SEC_RODATA"

subsection \<open>Sections and declarations\<close>

definition section_switch :: "string \<Rightarrow> section_id option" where
  "section_switch lp =
     (if lp = ''.text'' \<or> starts_with lp ''.section .text.'' then Some SEC_TEXT
      else if lp = ''.data'' then Some SEC_DATA
      else if lp = ''.section .rodata'' \<or> lp = ''.rodata'' \<or> starts_with lp (''.section'' @ [CHR 0x09] @ ''.rodata'')
           \<or> starts_with lp ''.section .rodata'' then Some SEC_RODATA
      else if starts_with lp ''.section .data.'' then Some SEC_DATA
      else if starts_with lp ''.section .rodata.'' then Some SEC_RODATA
      else if starts_with lp ''.section .bss.'' then Some SEC_BSS
      else if lp = ''.bss'' then Some SEC_BSS
      else None)"

definition globl_line :: "string \<Rightarrow> asm_state \<Rightarrow> asm_state" where
  "globl_line lp st =
     (let s = take 255 (skip_ws (drop (if char_at lp 6 = CHR '' '' then 7 else 8) lp));
          st1 = (if as_globl st \<noteq> [] then st\<lparr>as_globl2 := as_globl st\<rparr> else st)
      in st1\<lparr>as_globl := s\<rparr>)"

definition weak_line :: "string \<Rightarrow> asm_state \<Rightarrow> asm_state" where
  "weak_line lp st = st\<lparr>as_weak := take 255 (skip_ws (drop 6 lp))\<rparr>"

definition type_line :: "string \<Rightarrow> asm_state \<Rightarrow> asm_state" where
  "type_line lp st =
     (let (tname, s) = span_max 255 [CHR '',''] (skip_ws (drop 6 lp))
      in if strstr_pos s ''@function'' \<noteq> None then st\<lparr>as_func := tname\<rparr> else st)"

text \<open>The binding of a symbol follows the declarations that are pending.\<close>

definition bind_of :: "asm_state \<Rightarrow> string \<Rightarrow> u8" where
  "bind_of st lname =
     (if lname = as_weak st then STB_WEAK
      else if lname = as_globl st \<or> lname = as_globl2 st then STB_GLOBAL else STB_LOCAL)"

definition local_label :: "string \<Rightarrow> asm_state \<Rightarrow> asm_state" where
  "local_label lname st =
     (let (text, ctx) = define_label lname (as_fn_start st) (am_text (as_model st)) (as_ctx st)
      in (upd_model (\<lambda>m. m\<lparr>am_out := (am_out m)\<lparr>eo_text := text\<rparr>\<rparr>) st)\<lparr>as_ctx := ctx\<rparr>)"

text \<open>The placeholders 3 and 4 stand for \<^verbatim>\<open>.data\<close> and \<^verbatim>\<open>.rodata\<close> until the
  sections are numbered.\<close>

definition data_symbol :: "string \<Rightarrow> u8 \<Rightarrow> asm_state \<Rightarrow> elf_sym" where
  "data_symbol lname bind st =
     \<lparr>es_name = lname, es_shndx = (if as_sec st = SEC_DATA then 3 else 4), es_value = length (sec_buf st),
      es_size = 0, es_bind = bind, es_type = STT_OBJECT, es_defined = True\<rparr>"

definition dot_label :: "string \<Rightarrow> asm_state \<Rightarrow> asm_state" where
  "dot_label lname st =
     (if as_in_fn st \<and> as_sec st = SEC_TEXT then local_label lname st
      else if in_data st then push_sym (data_symbol lname (bind_of st lname) st) st
      else st)"

subsection \<open>Data directives\<close>

fun asciz_loop :: "string \<Rightarrow> u8 list" where
  "asciz_loop [] = []"
| "asciz_loop [c] = (if c = CHR 0x22 then [] else [of_nat (of_char c)])"
| "asciz_loop (c # d # s) =
     (if c = CHR 0x22 then []
      else if c = CHR 0x5C then
        (if d = CHR ''n'' then 10 else if d = CHR ''t'' then 9 else if d = CHR ''r'' then 13
         else if d = CHR ''0'' then 0 else of_nat (of_char d)) # asciz_loop s
      else of_nat (of_char c) # asciz_loop (d # s))"

definition asciz_bytes :: "string \<Rightarrow> u8 list" where
  "asciz_bytes s = asciz_loop (skip_char CHR 0x22 s) @ [0]"

definition align_pad :: "nat \<Rightarrow> u8 list \<Rightarrow> u8 list" where
  "align_pad al buf = (if al \<le> 1 then [] else replicate ((al - length buf mod al) mod al) 0)"

definition data_directive :: "string \<Rightarrow> asm_state \<Rightarrow> asm_error + asm_state" where
  "data_directive lp st =
     (if starts_with lp ''.byte '' then Inr (put_buf [byte (parse_int (skip_ws (drop 6 lp)))] st)
      else if starts_with lp ''.short '' then
        Inr (put_buf (le_bytes 2 (word_of_int (parse_int (skip_ws (drop 7 lp))) :: u16)) st)
      else if starts_with lp ''.long '' then Inr (put_buf (bytes32 (parse_int (skip_ws (drop 6 lp)))) st)
      else if starts_with lp ''.quad '' then Inr (put_buf (bytes64 (parse_int (skip_ws (drop 6 lp)))) st)
      else if starts_with lp ''.zero '' then Inr (put_buf (replicate (nat (parse_int (skip_ws (drop 6 lp)))) 0) st)
      else if starts_with lp ''.asciz '' then Inr (put_buf (asciz_bytes (skip_ws (drop 7 lp))) st)
      else if starts_with lp ''.p2align '' then
        (let n = i32 (parse_int (skip_ws (drop 9 lp)))
         in if 0 \<le> n \<and> n < 31 then Inr (put_buf (align_pad (2 ^ nat n) (sec_buf st)) st) else Inl (Bad_Shift n))
      else Inr st)"

definition file_line :: "string \<Rightarrow> asm_state \<Rightarrow> asm_error + asm_state" where
  "file_line lp st =
     (let (id, s) = strtol_rest (skip_ws (drop 6 lp)); s1 = skip_ws s;
          path = (if char_at s1 0 = CHR 0x22 then fst (span_max 255 [CHR 0x22] (tl s1)) else [])
      in if length path = 255 then Inl (Path_Unterminated path)
         else Inr (upd_model (\<lambda>m. m\<lparr>am_files := am_files m @ [\<lparr>fe_id = i32 id, fe_path = path\<rparr>]\<rparr>) st))"

definition loc_line :: "string \<Rightarrow> asm_state \<Rightarrow> asm_state" where
  "loc_line lp st =
     (let (file_id, s1) = strtol_rest (skip_ws (drop 5 lp)); (line_no, s2) = strtol_rest (skip_ws s1);
          (col, _) = strtol_rest (skip_ws s2);
          entry = \<lparr>le_file = i32 file_id, le_line = i32 line_no, le_col = i32 col,
                   le_off = length (am_text (as_model st))\<rparr>
      in if as_sec st = SEC_TEXT then upd_model (\<lambda>m. m\<lparr>am_locs := am_locs m @ [entry]\<rparr>) st else st)"

definition directive_line :: "string \<Rightarrow> asm_state \<Rightarrow> asm_error + asm_state" where
  "directive_line lp st =
     (if starts_with lp ''.file '' then file_line lp st
      else if starts_with lp ''.loc '' then Inr (loc_line lp st)
      else if in_data st then data_directive lp st
      else if as_sec st = SEC_BSS \<and> starts_with lp ''.zero '' then
        Inr (upd_model (\<lambda>m. m\<lparr>am_bss_size := am_bss_size m + word_of_int (parse_int (skip_ws (drop 6 lp)))\<rparr>) st)
      else Inr st)"

subsection \<open>Labels and lines\<close>

definition function_label :: "string \<Rightarrow> asm_state \<Rightarrow> asm_state" where
  "function_label lname st =
     (let start = length (am_text (as_model st));
          sym = \<lparr>es_name = lname, es_shndx = 0, es_value = start, es_size = 0, es_bind = bind_of st lname,
                 es_type = STT_FUNC, es_defined = True\<rparr>
      in push_sym sym
           (st\<lparr>as_ctx := (if as_in_fn st then ctx_init else as_ctx st), as_in_fn := True, as_fn_start := start,
              as_func := [],
              as_globl := (if lname = as_globl st then [] else as_globl st),
              as_globl2 := (if lname = as_globl2 st then [] else as_globl2 st)\<rparr>))"

definition plain_label :: "string \<Rightarrow> asm_state \<Rightarrow> asm_state" where
  "plain_label lname st =
     (if \<not> as_in_fn st \<and> \<not> in_data st \<and> lname = as_globl st then
        push_sym \<lparr>es_name = lname, es_shndx = 0, es_value = length (am_text (as_model st)), es_size = 0,
            es_bind = (if lname = as_weak st then STB_WEAK else STB_GLOBAL), es_type = STT_NOTYPE,
            es_defined = True\<rparr> (st\<lparr>as_globl := []\<rparr>)
      else if as_in_fn st then local_label lname st
      else if in_data st then
        push_sym (data_symbol lname
          (if lname = as_globl st \<or> lname = as_globl2 st then STB_GLOBAL else STB_LOCAL) st) st
      else st)"

definition label_line :: "string \<Rightarrow> asm_state \<Rightarrow> asm_state" where
  "label_line lname st = (if lname = as_func st then function_label lname st else plain_label lname st)"

definition instruction_line :: "string \<Rightarrow> asm_state \<Rightarrow> asm_error + asm_state" where
  "instruction_line line st =
     (if as_sec st = SEC_TEXT \<and> as_in_fn st then
        bnd (x64_encode_line line (as_fn_start st) (am_out (as_model st)) (as_ctx st)) (\<lambda>(out, ctx).
        Inr ((upd_model (\<lambda>m. m\<lparr>am_out := out\<rparr>) st)\<lparr>as_ctx := ctx\<rparr>))
      else Inr st)"

definition asm_line :: "string \<Rightarrow> asm_state \<Rightarrow> asm_error + asm_state" where
  "asm_line full st =
     (let line = take 1023 full; lp = skip_ws line
      in if lp = [] \<or> hd lp = CHR ''#'' then Inr st
         else case section_switch lp of
           Some sec \<Rightarrow> Inr (st\<lparr>as_sec := sec, as_in_fn := False\<rparr>)
         | None \<Rightarrow>
           if starts_with lp ''.globl '' \<or> starts_with lp ''.global '' then Inr (globl_line lp st)
           else if starts_with lp ''.weak '' then Inr (weak_line lp st)
           else if starts_with lp ''.type '' then Inr (type_line lp st)
           else
             (let (lname, q) = span_max 255 [CHR '':'', CHR '' '', CHR 0x09] lp
              in if char_at q 0 = CHR '':'' then
                   Inr (if hd lp = CHR ''.'' then dot_label lname st else label_line lname st)
                 else if hd lp = CHR ''.'' then directive_line lp st
                 else instruction_line line st))"

fun asm_lines :: "string \<Rightarrow> string list" where
  "asm_lines [] = [[]]"
| "asm_lines (c # s) =
     (if c = CHR 0x0A then [] # asm_lines s
      else (case asm_lines s of [] \<Rightarrow> [[c]] | l # ls \<Rightarrow> (c # l) # ls))"

text \<open>Only the last function that has no size yet gets one.\<close>

fun size_last_func :: "nat \<Rightarrow> elf_sym list \<Rightarrow> elf_sym list" where
  "size_last_func n [] = []"
| "size_last_func n (s # rev_rest) =
     (if es_type s = STT_FUNC \<and> es_size s = 0 then s\<lparr>es_size := of_nat (n - es_value s)\<rparr> # rev_rest
      else s # size_last_func n rev_rest)"

definition finish_model :: "asm_state \<Rightarrow> asm_model" where
  "finish_model st =
     (let m = as_model st
      in if as_in_fn st then m\<lparr>am_syms := rev (size_last_func (length (am_text m)) (rev (am_syms m)))\<rparr> else m)"

definition parse_asm_x64 :: "string \<Rightarrow> asm_error + asm_model" where
  "parse_asm_x64 asm_text = bnd (fold_err asm_line (asm_lines asm_text) asm_start) (\<lambda>st. Inr (finish_model st))"

end
