(* ===== verification/Elf_Write.thy ===== *)
theory Elf_Write
  imports Elf_Dwarf Link_Static
begin

text \<open>
  Laying out and writing a relocatable object: \<^verbatim>\<open>write_elf64_object\<close> and
  \<^verbatim>\<open>elf_write_object\<close> of \<^verbatim>\<open>src/src/elf_writer.c\<close>.

  A section number is \<^term>\<open>None\<close> where the code has \<^verbatim>\<open>-1\<close>.  File offsets are \<^typ>\<open>nat\<close>: they
  are sums of buffer sizes.  The section headers are a list of records in the order the code
  writes them, so each \<^verbatim>\<open>elf_write_shdr64\<close> call is an element of \<open>section_headers\<close>.
\<close>

subsection \<open>String tables\<close>

definition strtab_init :: "u8 list" where "strtab_init = [0]"

definition strtab_add :: "string \<Rightarrow> u8 list \<Rightarrow> u32 \<times> u8 list" where
  "strtab_add s st = (of_nat (length st), st @ c_string s)"

subsection \<open>Section numbers\<close>

record sec_nums =
  sn_data :: "nat option"
  sn_rodata :: "nat option"
  sn_bss :: "nat option"
  sn_rela :: "nat option"
  sn_symtab :: nat
  sn_debug :: "nat option"
  sn_strtab :: nat
  sn_shstr :: nat
  sn_count :: nat

definition next_num :: "bool \<Rightarrow> nat \<Rightarrow> nat option \<times> nat" where
  "next_num present n = (if present then (Some n, n + 1) else (None, n))"

text \<open>The five debug sections are present together; \<open>sn_debug\<close> is the number of the first,
  \<^verbatim>\<open>.debug_line\<close>, and \<^verbatim>\<open>.rela.debug_line\<close>, \<^verbatim>\<open>.debug_info\<close>, \<^verbatim>\<open>.debug_abbrev\<close> and
  \<^verbatim>\<open>.debug_frame\<close> follow it.\<close>

definition section_numbers :: "asm_model \<Rightarrow> sec_nums" where
  "section_numbers m =
     (let (data, n) = next_num (am_data m \<noteq> []) 2;
          (rodata, n) = next_num (am_rodata m \<noteq> []) n;
          (bss, n) = next_num (am_bss_size m > 0) n;
          (rela, n) = next_num (am_text_relocs m \<noteq> []) n;
          symtab = n; n = n + 1;
          (debug, n) = (if am_locs m \<noteq> [] then (Some n, n + 5) else (None, n))
      in \<lparr>sn_data = data, sn_rodata = rodata, sn_bss = bss, sn_rela = rela, sn_symtab = symtab,
          sn_debug = debug, sn_strtab = n, sn_shstr = n + 1, sn_count = n + 2\<rparr>)"

subsection \<open>The symbol table\<close>

definition place_sym :: "sec_nums \<Rightarrow> elf_sym \<Rightarrow> elf_sym" where
  "place_sym sn s =
     (if \<not> es_defined s then s
      else if es_type s = STT_FUNC then s\<lparr>es_shndx := 1\<rparr>
      else if es_type s = STT_OBJECT then
        (if es_shndx s = 3 then s\<lparr>es_shndx := (case sn_data sn of Some k \<Rightarrow> k | None \<Rightarrow> 0)\<rparr>
         else if es_shndx s = 4 then s\<lparr>es_shndx := (case sn_rodata sn of Some k \<Rightarrow> k | None \<Rightarrow> 0)\<rparr>
         else s)
      else s)"

definition text_section_sym :: elf_sym where
  "text_section_sym = \<lparr>es_name = ''.text'', es_shndx = 1, es_value = 0, es_size = 0, es_bind = STB_LOCAL,
     es_type = STT_SECTION, es_defined = True\<rparr>"

definition undef_sym :: "string \<Rightarrow> elf_sym" where
  "undef_sym rname = \<lparr>es_name = take 255 rname, es_shndx = 0, es_value = 0, es_size = 0, es_bind = STB_GLOBAL,
     es_type = STT_NOTYPE, es_defined = False\<rparr>"

definition placed_syms :: "asm_model \<Rightarrow> elf_sym list" where
  "placed_syms m =
     map (place_sym (section_numbers m)) (am_syms m) @ (if am_locs m \<noteq> [] then [text_section_sym] else [])"

fun add_undefs :: "elf_reloc list \<Rightarrow> elf_sym list \<Rightarrow> elf_sym list" where
  "add_undefs [] syms = syms"
| "add_undefs (r # rs) syms =
     add_undefs rs (if er_sym r \<in> es_name ` set syms then syms else syms @ [undef_sym (er_sym r)])"

definition is_local :: "elf_sym \<Rightarrow> bool" where
  "is_local s \<longleftrightarrow> es_bind s = STB_LOCAL"

text \<open>The table has the local symbols first, then the others, then the undefined ones the
  relocations add; \<^verbatim>\<open>m->syms\<close> keeps them in the order they were pushed.\<close>

definition all_syms :: "asm_model \<Rightarrow> elf_sym list" where
  "all_syms m = add_undefs (am_text_relocs m) (placed_syms m)"

definition table_syms :: "asm_model \<Rightarrow> elf_sym list" where
  "table_syms m = filter is_local (placed_syms m) @ filter (\<lambda>s. \<not> is_local s) (all_syms m)"

definition symtab_info :: "asm_model \<Rightarrow> nat" where
  "symtab_info m = 1 + length (filter is_local (placed_syms m))"

definition sym_entry :: "elf_sym \<Rightarrow> u8 list \<Rightarrow> u8 list \<times> u8 list" where
  "sym_entry s st =
     (let (name_off, st1) = strtab_add (es_name s) st
      in (le_bytes 4 name_off @ [push_bit 4 (es_bind s) OR (es_type s AND 0xF), 0]
          @ le_bytes 2 (of_nat (if es_defined s then es_shndx s else 0) :: u16)
          @ le_bytes 8 (of_nat (es_value s) :: u64) @ le_bytes 8 (ucast (es_size s) :: u64), st1))"

definition symtab_parts :: "asm_model \<Rightarrow> u8 list list \<times> u8 list" where
  "symtab_parts m = thread sym_entry (table_syms m) strtab_init"

definition symtab_bytes :: "asm_model \<Rightarrow> u8 list" where
  "symtab_bytes m = replicate 24 0 @ concat (fst (symtab_parts m))"

definition strtab_bytes :: "asm_model \<Rightarrow> u8 list" where
  "strtab_bytes m = snd (symtab_parts m)"

subsection \<open>Relocations\<close>

fun pos_of :: "string \<Rightarrow> elf_sym list \<Rightarrow> nat option" where
  "pos_of name [] = None"
| "pos_of name (s # ss) = (if es_name s = name then Some 0 else map_option Suc (pos_of name ss))"

definition sym_index :: "asm_model \<Rightarrow> string \<Rightarrow> nat" where
  "sym_index m name =
     (case pos_of name (filter is_local (all_syms m)) of
        Some i \<Rightarrow> i + 1
      | None \<Rightarrow>
        (case pos_of name (filter (\<lambda>s. \<not> is_local s) (all_syms m)) of
           Some j \<Rightarrow> symtab_info m + j
         | None \<Rightarrow> 0))"

definition reloc_entry :: "asm_model \<Rightarrow> elf_reloc \<Rightarrow> u8 list" where
  "reloc_entry m r =
     le_bytes 8 (of_nat (er_off r) :: u64)
     @ le_bytes 8 (push_bit 32 (of_nat (sym_index m (er_sym r))) OR ucast (er_type r) :: u64)
     @ le_bytes 8 (word_of_int (er_add r) :: u64)"

definition rela_bytes :: "asm_model \<Rightarrow> elf_reloc list \<Rightarrow> u8 list" where
  "rela_bytes m rs = concat (map (reloc_entry m) rs)"

subsection \<open>Section names and file offsets\<close>

definition section_names :: "asm_model \<Rightarrow> string list" where
  "section_names m =
     ''.text'' # (if am_data m \<noteq> [] then [''.data''] else []) @ (if am_rodata m \<noteq> [] then [''.rodata''] else [])
     @ (if am_bss_size m > 0 then [''.bss''] else []) @ (if am_text_relocs m \<noteq> [] then [''.rela.text''] else [])
     @ (if am_locs m \<noteq> [] then [''.debug_line'', ''.rela.debug_line'', ''.debug_info'', ''.debug_abbrev'', ''.debug_frame''] else [])
     @ [''.symtab'', ''.strtab'', ''.shstrtab'']"

definition shstrtab_parts :: "asm_model \<Rightarrow> u32 list \<times> u8 list" where
  "shstrtab_parts m = thread strtab_add (section_names m) strtab_init"

definition sh_name :: "asm_model \<Rightarrow> string \<Rightarrow> u32" where
  "sh_name m name =
     (case map_of (zip (section_names m) (fst (shstrtab_parts m))) name of Some off \<Rightarrow> off | None \<Rightarrow> 0)"

text \<open>The contents of the file in order, each with its alignment.  The alignment of an absent
  section is applied as well.\<close>

definition file_chunks :: "asm_model \<Rightarrow> (nat \<times> u8 list) list" where
  "file_chunks m =
     (let dbg = (\<lambda>bs. if am_locs m \<noteq> [] then bs else []); (dline, drel) = build_debug_line m;
          n = length (am_text m)
      in [(1, am_text m), (16, am_data m), (16, am_rodata m), (8, rela_bytes m (am_text_relocs m)),
          (8, dline), (8, rela_bytes m drel), (8, dbg (debug_info n)), (8, dbg debug_abbrev),
          (8, dbg (debug_frame n)), (1, symtab_bytes m), (1, strtab_bytes m), (1, snd (shstrtab_parts m))])"

fun chunk_offsets :: "(nat \<times> u8 list) list \<Rightarrow> nat \<Rightarrow> nat list \<times> nat" where
  "chunk_offsets [] off = ([], off)"
| "chunk_offsets ((al, bs) # cs) off =
     (let here = round_up off al; (offs, end) = chunk_offsets cs (here + length bs) in (here # offs, end))"

definition file_offsets :: "asm_model \<Rightarrow> nat list" where
  "file_offsets m = fst (chunk_offsets (file_chunks m) 64)"

definition shdr_off :: "asm_model \<Rightarrow> nat" where
  "shdr_off m = round_up (snd (chunk_offsets (file_chunks m) 64)) 8"

subsection \<open>Section headers\<close>

record osec =
  os_name :: string
  os_type :: u32
  os_flags :: u64
  os_off :: nat
  os_size :: u64
  os_link :: nat
  os_info :: nat
  os_align :: u64
  os_ent :: u64

definition SHT_NULL :: u32 where "SHT_NULL = 0"
definition SHT_STRTAB :: u32 where "SHT_STRTAB = 3"

definition section_headers :: "asm_model \<Rightarrow> osec list" where
  "section_headers m =
     (let sn = section_numbers m; off = (\<lambda>i. file_offsets m ! i);
          len = (\<lambda>i. of_nat (length (snd (file_chunks m ! i))) :: u64)
      in [\<lparr>os_name = [], os_type = SHT_NULL, os_flags = 0, os_off = 0, os_size = 0, os_link = 0, os_info = 0, os_align = 0, os_ent = 0\<rparr>,
          \<lparr>os_name = ''.text'', os_type = SHT_PROGBITS, os_flags = SHF_ALLOC OR SHF_EXECINSTR, os_off = off 0,
            os_size = len 0, os_link = 0, os_info = 0, os_align = 16, os_ent = 0\<rparr>]
       @ (case sn_data sn of None \<Rightarrow> [] | Some _ \<Rightarrow>
            [\<lparr>os_name = ''.data'', os_type = SHT_PROGBITS, os_flags = SHF_ALLOC OR SHF_WRITE, os_off = off 1,
              os_size = len 1, os_link = 0, os_info = 0, os_align = 8, os_ent = 0\<rparr>])
       @ (case sn_rodata sn of None \<Rightarrow> [] | Some _ \<Rightarrow>
            [\<lparr>os_name = ''.rodata'', os_type = SHT_PROGBITS, os_flags = SHF_ALLOC, os_off = off 2,
              os_size = len 2, os_link = 0, os_info = 0, os_align = 8, os_ent = 0\<rparr>])
       @ (case sn_bss sn of None \<Rightarrow> [] | Some _ \<Rightarrow>
            [\<lparr>os_name = ''.bss'', os_type = SHT_NOBITS, os_flags = SHF_ALLOC OR SHF_WRITE,
              os_off = off 2 + length (am_rodata m), os_size = am_bss_size m, os_link = 0, os_info = 0,
              os_align = 8, os_ent = 0\<rparr>])
       @ (case sn_rela sn of None \<Rightarrow> [] | Some _ \<Rightarrow>
            [\<lparr>os_name = ''.rela.text'', os_type = SHT_RELA, os_flags = 0, os_off = off 3, os_size = len 3,
              os_link = sn_symtab sn, os_info = 1, os_align = 8, os_ent = 24\<rparr>])
       @ [\<lparr>os_name = ''.symtab'', os_type = SHT_SYMTAB, os_flags = 0, os_off = off 9, os_size = len 9,
            os_link = sn_strtab sn, os_info = symtab_info m, os_align = 8, os_ent = 24\<rparr>]
       @ (case sn_debug sn of None \<Rightarrow> [] | Some dl \<Rightarrow>
            [\<lparr>os_name = ''.debug_line'', os_type = SHT_PROGBITS, os_flags = 0, os_off = off 4, os_size = len 4,
               os_link = 0, os_info = 0, os_align = 1, os_ent = 0\<rparr>,
             \<lparr>os_name = ''.rela.debug_line'', os_type = SHT_RELA, os_flags = 0, os_off = off 5, os_size = len 5,
               os_link = sn_symtab sn, os_info = dl, os_align = 8, os_ent = 24\<rparr>,
             \<lparr>os_name = ''.debug_info'', os_type = SHT_PROGBITS, os_flags = 0, os_off = off 6, os_size = len 6,
               os_link = 0, os_info = 0, os_align = 1, os_ent = 0\<rparr>,
             \<lparr>os_name = ''.debug_abbrev'', os_type = SHT_PROGBITS, os_flags = 0, os_off = off 7, os_size = len 7,
               os_link = 0, os_info = 0, os_align = 1, os_ent = 0\<rparr>,
             \<lparr>os_name = ''.debug_frame'', os_type = SHT_PROGBITS, os_flags = 0, os_off = off 8, os_size = len 8,
               os_link = 0, os_info = 0, os_align = 8, os_ent = 0\<rparr>])
       @ [\<lparr>os_name = ''.strtab'', os_type = SHT_STRTAB, os_flags = 0, os_off = off 10, os_size = len 10,
            os_link = 0, os_info = 0, os_align = 1, os_ent = 0\<rparr>,
          \<lparr>os_name = ''.shstrtab'', os_type = SHT_STRTAB, os_flags = 0, os_off = off 11, os_size = len 11,
            os_link = 0, os_info = 0, os_align = 1, os_ent = 0\<rparr>])"

definition elf_write_shdr64 :: "asm_model \<Rightarrow> osec \<Rightarrow> u8 list" where
  "elf_write_shdr64 m s =
     le_bytes 4 (sh_name m (os_name s)) @ le_bytes 4 (os_type s) @ le_bytes 8 (os_flags s)
     @ le_bytes 8 (0 :: u64) @ le_bytes 8 (of_nat (os_off s) :: u64) @ le_bytes 8 (os_size s)
     @ le_bytes 4 (of_nat (os_link s) :: u32) @ le_bytes 4 (of_nat (os_info s) :: u32)
     @ le_bytes 8 (os_align s) @ le_bytes 8 (os_ent s)"

subsection \<open>The file\<close>

definition ET_REL :: u16 where "ET_REL = 1"

definition object_header :: "asm_model \<Rightarrow> u8 list" where
  "object_header m =
     elf_ident @ le_bytes 2 ET_REL @ le_bytes 2 EM_X86_64 @ le_bytes 4 (1 :: u32) @ le_bytes 8 (0 :: u64)
     @ le_bytes 8 (0 :: u64) @ le_bytes 8 (of_nat (shdr_off m) :: u64) @ le_bytes 4 (0 :: u32)
     @ le_bytes 2 (64 :: u16) @ le_bytes 2 (56 :: u16) @ le_bytes 2 (0 :: u16) @ le_bytes 2 (64 :: u16)
     @ le_bytes 2 (of_nat (sn_count (section_numbers m)) :: u16)
     @ le_bytes 2 (of_nat (sn_shstr (section_numbers m)) :: u16)"

definition write_at :: "nat \<Rightarrow> u8 list \<Rightarrow> u8 list \<Rightarrow> u8 list" where
  "write_at off bs out = out @ replicate (off - length out) 0 @ bs"

definition write_elf64_object :: "asm_model \<Rightarrow> u8 list" where
  "write_elf64_object m =
     write_at (shdr_off m) (concat (map (elf_write_shdr64 m) (section_headers m)))
       (fold (\<lambda>(off, (_, bs)). write_at off bs) (zip (file_offsets m) (file_chunks m)) (object_header m))"

text \<open>\<^term>\<open>None\<close> is the empty object of an unknown target.\<close>

definition elf_write_object :: "string \<Rightarrow> string \<Rightarrow> asm_error + u8 list option" where
  "elf_write_object asm_text target =
     (if target \<in> set [''x86_64-b1nix'', ''x86_64-elf'', ''x86_64-unknown-elf''] then
        bnd (parse_asm_x64 asm_text) (\<lambda>m. Inr (Some (write_elf64_object m)))
      else Inr None)"

end
