(* ===== verification/Elf_Image.thy ===== *)
theory Elf_Image
  imports Elf_Write
begin

text \<open>
  The image \<open>write_elf64_object m\<close> seen as a reader sees it: every chunk of contents stands at
  its file offset, the section headers follow at \<open>shdr_off m\<close>, the strings can be read back from
  the string tables, and each header describes its chunk.
\<close>

subsection \<open>String tables and chunks\<close>

lemma names_thread:
  assumes "\<And>x b. f x b = (g x (of_nat (length b) :: u32), b @ c_string (nm x))"
    "thread f xs buf = (ys, b)" "length b < 2 ^ 32"
  shows "(\<exists>t. b = buf @ t) \<and> length ys = length xs
    \<and> (\<forall>i<length xs. \<exists>off rest. ys ! i = g (xs ! i) off \<and> drop (unat off) b = c_string (nm (xs ! i)) @ rest)"
  using assms(2)
proof (induction xs arbitrary: buf ys)
  case (Cons x xs)
  from Cons.prems obtain os where t: "thread f xs (buf @ c_string (nm x)) = (os, b)"
    "ys = g x (of_nat (length buf)) # os"
    unfolding thread.simps assms(1) by (auto simp: Let_def split: prod.splits)
  from Cons.IH [OF t(1)] obtain u where IH: "b = (buf @ c_string (nm x)) @ u" "length os = length xs"
    "\<forall>i<length xs. \<exists>off rest. os ! i = g (xs ! i) off \<and> drop (unat off) b = c_string (nm (xs ! i)) @ rest" by blast
  have "length buf < 2 ^ 32" using IH(1) assms(3) by simp
  then have "unat (of_nat (length buf) :: u32) = length buf" by (simp add: unat_of_nat)
  then have "\<exists>off rest. ys ! 0 = g x off \<and> drop (unat off) b = c_string (nm x) @ rest" using IH(1) t(2)
    by (intro exI [of _ "of_nat (length buf)"]) simp
  then show ?case using IH t(2) by (auto simp: less_Suc_eq_0_disj)
qed simp

lemma write_at_split:
  assumes "length out \<le> off"
  obtains p where "write_at off bs out = out @ p" "length (out @ p) = off + length bs" "drop off (out @ p) = bs"
  using assms that [of "replicate (off - length out) 0 @ bs"] by (simp add: write_at_def)

lemma write_chunks:
  assumes "chunk_offsets cs off = (offs, e)" "length out = off" "list_all (\<lambda>c. 0 < fst c) cs"
    "img = fold (\<lambda>(off, (_, bs)). write_at off bs) (zip offs cs) out"
  shows "(\<exists>t. img = out @ t) \<and> length img = e \<and> length offs = length cs
      \<and> (\<forall>i<length cs. offs ! i \<ge> off \<and> (\<exists>rest. drop (offs ! i) img = snd (cs ! i) @ rest))"
  using assms
proof (induction cs arbitrary: off offs out)
  case (Cons c cs)
  obtain al bs where c: "c = (al, bs)" by fastforce
  let ?here = "round_up off al"
  have h: "off \<le> ?here" using Cons.prems(3) by (intro round_up_ge) (simp add: c)
  obtain offs1 where o: "chunk_offsets cs (?here + length bs) = (offs1, e)" "offs = ?here # offs1"
    using Cons.prems(1) by (auto simp: c Let_def split: prod.splits)
  obtain p where p: "write_at ?here bs out = out @ p" "length (out @ p) = ?here + length bs" "drop ?here (out @ p) = bs"
    using write_at_split [of out ?here bs] h Cons.prems(2) by auto
  from Cons.prems(4) have "img = fold (\<lambda>(off, (_, bs)). write_at off bs) (zip offs1 cs) (out @ p)"
    by (simp add: c o(2) p(1))
  from Cons.IH [OF o(1) p(2) _ this] Cons.prems(3) obtain t where t: "img = (out @ p) @ t" "length img = e"
      "length offs1 = length cs"
      "\<forall>i<length cs. offs1 ! i \<ge> ?here + length bs \<and> (\<exists>rest. drop (offs1 ! i) img = snd (cs ! i) @ rest)"
    by auto
  have "drop ?here img = bs @ t"
    unfolding t(1) using p(2,3) by (subst drop_append) simp
  then show ?case using t h by (auto simp: c o(2) less_Suc_eq_0_disj)
qed simp

subsection \<open>Reading fields back\<close>

lemma rd_slice:
  assumes "drop p img = h @ rest" "k + n \<le> length h" "0 < n"
  shows "rd_bytes img (p + k) n = Inr (take n (drop k h))"
proof -
  have l: "length img - p = length h + length rest" using assms(1) by (metis length_append length_drop)
  have "take n (drop (p + k) img) = take n (drop k (drop p img))" by (simp add: add.commute)
  also have "\<dots> = take n (drop k h)" using assms(1,2) by simp
  finally show ?thesis using l assms(2,3) by (auto simp: rd_bytes_def)
qed

lemma drop_concat_same:
  "(\<And>x. x \<in> set xs \<Longrightarrow> length (f x) = n) \<Longrightarrow> drop (n * k) (concat (map f xs)) = concat (map f (drop k xs))"
proof (induction xs arbitrary: k)
  case (Cons x xs)
  then show ?case by (cases k) (simp_all add: add.commute [of n])
qed simp

lemma concat_entry:
  assumes "\<And>x. x \<in> set xs \<Longrightarrow> length (f x) = n" "k < length xs" "drop p img = concat (map f xs) @ rest"
  shows "\<exists>more_bytes. drop (p + n * k) img = f (xs ! k) @ more_bytes"
proof -
  have "drop (p + n * k) img = drop (n * k) (drop p img)" by (simp add: add.commute)
  also have "\<dots> = drop (n * k) (concat (map f xs)) @ drop (n * k - length (concat (map f xs))) rest"
    unfolding assms(3) by simp
  finally show ?thesis
    using assms(2) drop_concat_same [of xs f n k, OF assms(1)] by (simp add: Cons_nth_drop_Suc [symmetric])
qed

lemma read_fields:
  assumes "drop p img = h @ rest"
  shows "k + 4 \<le> length h \<Longrightarrow> take 4 (drop k h) = le_bytes 4 a \<Longrightarrow> rd32 img (p + k) = Inr a"
    "k + 8 \<le> length h \<Longrightarrow> take 8 (drop k h) = le_bytes 8 b \<Longrightarrow> rd64 img (p + k) = Inr b"
    "k + 2 \<le> length h \<Longrightarrow> take 2 (drop k h) = le_bytes 2 c \<Longrightarrow> rd16 img (p + k) = Inr c"
  by (simp_all add: rd32_def rd64_def rd16_def rd_slice [OF assms])

lemma read_string:
  assumes "drop p img = tab @ rest" "drop off tab = c_string s @ rest1" "c_text s"
  shows "cstr img (p + off) = Inr s"
proof -
  have "off \<le> length tab" using assms(2) by (metis append_is_Nil_conv c_string_def drop_all linorder_le_cases not_Cons_self2)
  then have "drop (p + off) img = c_string s @ (rest1 @ rest)"
    by (simp add: drop_drop [symmetric] add.commute [of p] assms(1,2) del: drop_drop)
  then show ?thesis using assms(3) by (rule cstr_c_string)
qed

subsection \<open>The parts of the image\<close>

lemma length_object_header [simp]: "length (object_header m) = 64"
  by (simp add: object_header_def elf_ident_def)

lemma length_elf_write_shdr64 [simp]: "length (elf_write_shdr64 m s) = 64"
  by (simp add: elf_write_shdr64_def)

lemma length_file_chunks [simp]: "length (file_chunks m) = 12"
  by (simp add: file_chunks_def Let_def split: prod.splits)

lemma file_chunks_aligned: "list_all (\<lambda>c. 0 < fst c) (file_chunks m)"
  by (simp add: file_chunks_def Let_def split: prod.splits)

lemma image_parts:
  assumes "img = write_elf64_object m"
  shows "\<exists>t. img = object_header m @ t" "shdr_off m \<le> length img"
    "i < 12 \<Longrightarrow> \<exists>rest. drop (file_offsets m ! i) img = snd (file_chunks m ! i) @ rest"
    "drop (shdr_off m) img = concat (map (elf_write_shdr64 m) (section_headers m))"
proof -
  obtain offs e where o: "chunk_offsets (file_chunks m) 64 = (offs, e)" by fastforce
  then have fo: "file_offsets m = offs" "shdr_off m = round_up e 8" by (simp_all add: file_offsets_def shdr_off_def)
  define body where "body = fold (\<lambda>(off, (_, bs)). write_at off bs) (zip offs (file_chunks m)) (object_header m)"
  from write_chunks [OF o length_object_header file_chunks_aligned body_def]
  obtain t where b: "body = object_header m @ t" "length body = e" "length offs = 12"
    "\<forall>i<12. \<exists>rest. drop (offs ! i) body = snd (file_chunks m ! i) @ rest"
    unfolding length_file_chunks by blast
  let ?hs = "concat (map (elf_write_shdr64 m) (section_headers m))"
  have le: "length body \<le> shdr_off m" using fo(2) b(2) by (simp add: round_up_ge)
  have i: "img = write_at (shdr_off m) ?hs body" by (simp add: assms write_elf64_object_def fo body_def)
  from write_at_split [OF le, of ?hs] obtain p where p: "img = body @ p" "length img = shdr_off m + length ?hs"
    "drop (shdr_off m) img = ?hs" unfolding i by metis
  show "\<exists>t. img = object_header m @ t" using p(1) b(1) by simp
  show "shdr_off m \<le> length img" using p(2) by simp
  show "drop (shdr_off m) img = ?hs" by (rule p(3))
  assume "i < 12"
  then obtain rest where "drop (offs ! i) body = snd (file_chunks m ! i) @ rest" using b(4) by blast
  then have "drop (offs ! i) img = snd (file_chunks m ! i) @ (rest @ drop (offs ! i - length body) p)" by (simp add: p(1))
  then show "\<exists>rest. drop (file_offsets m ! i) img = snd (file_chunks m ! i) @ rest" unfolding fo by blast
qed

subsection \<open>What the linker should see\<close>

definition chunk_no :: "string \<Rightarrow> nat option" where
  "chunk_no = map_of [(''.text'', 0), (''.data'', 1), (''.rodata'', 2), (''.rela.text'', 3), (''.debug_line'', 4),
     (''.rela.debug_line'', 5), (''.debug_info'', 6), (''.debug_abbrev'', 7), (''.debug_frame'', 8),
     (''.symtab'', 9), (''.strtab'', 10), (''.shstrtab'', 11)]"

definition hdr_ok :: "asm_model \<Rightarrow> osec \<Rightarrow> bool" where
  "hdr_ok m h \<longleftrightarrow> (os_name h = [] \<or> os_name h \<in> set (section_names m)) \<and> c_text (os_name h)
     \<and> (case chunk_no (os_name h) of
          Some i \<Rightarrow> i < 12 \<and> os_off h = file_offsets m ! i \<and> os_size h = of_nat (length (snd (file_chunks m ! i)))
                    \<and> os_type h \<noteq> SHT_NOBITS
        | None \<Rightarrow> os_type h = SHT_NOBITS \<or> os_size h = 0)"

lemma section_headers_ok: "list_all (hdr_ok m) (section_headers m)"
  by (simp add: section_headers_def section_numbers_def next_num_def Let_def hdr_ok_def section_names_def c_text_def
      chunk_no_def elf_consts SHT_NULL_def SHT_STRTAB_def)

end
