(* ===== verification/Elf_Sections.thy ===== *)
theory Elf_Sections
  imports Elf_Image
begin

text \<open>
  The sections of a written object as the linker's \<open>parse_section\<close> reads them, the numbers that
  link the headers together, and the relocation sections.
\<close>

subsection \<open>Section headers\<close>

lemma chunk_shstrtab: "snd (file_chunks m ! 11) = snd (shstrtab_parts m)"
  "snd (file_chunks m ! 10) = strtab_bytes m" "snd (file_chunks m ! 9) = symtab_bytes m"
  "snd (file_chunks m ! 3) = rela_bytes m (am_text_relocs m)"
  "snd (file_chunks m ! 5) = rela_bytes m (snd (build_debug_line m))"
  by (simp_all add: file_chunks_def Let_def split: prod.splits)

lemma sh_name_at:
  assumes "length (snd (shstrtab_parts m)) < 2 ^ 32" "name = [] \<or> name \<in> set (section_names m)"
  shows "\<exists>rest. drop (unat (sh_name m name)) (snd (shstrtab_parts m)) = c_string name @ rest"
proof -
  obtain offs b where p: "shstrtab_parts m = (offs, b)" by fastforce
  then have t: "thread strtab_add (section_names m) strtab_init = (offs, b)" by (simp add: shstrtab_parts_def)
  note n = names_thread [of strtab_add "\<lambda>_ off. off" "\<lambda>s. s", OF _ t]
  from n assms(1) p have b: "\<exists>t. b = strtab_init @ t" "length offs = length (section_names m)"
    "\<forall>i<length (section_names m). \<exists>rest. drop (unat (offs ! i)) b = c_string (section_names m ! i) @ rest"
    by (simp_all add: strtab_add_def)
  show ?thesis
  proof (cases "name \<in> set (section_names m)")
    case True
    then obtain off where off: "map_of (zip (section_names m) offs) name = Some off"
      using b(2) map_of_zip_is_Some [of "section_names m" offs name] by auto
    then have "(name, off) \<in> set (zip (section_names m) offs)" by (rule map_of_SomeD)
    then obtain i where "i < length (section_names m)" "section_names m ! i = name" "offs ! i = off"
      by (auto simp: in_set_zip)
    then show ?thesis using b(3) off p by (auto simp: sh_name_def)
  next
    case False
    then have "name = []" using assms(2) by simp
    moreover have "map_of (zip (section_names m) offs) name = None"
      using False by (auto simp: map_of_eq_None_iff dest: set_zip_leftD)
    ultimately show ?thesis using b(1) p by (auto simp: sh_name_def c_string_def strtab_init_def)
  qed
qed

definition sec_view :: "asm_model \<Rightarrow> osec \<Rightarrow> sec" where
  "sec_view m h =
     \<lparr>sec_name = os_name h, sec_type = os_type h, sec_flags = os_flags h, sec_size = os_size h,
      sec_align = (if os_align h = 0 then 1 else os_align h),
      sec_data = (if os_type h = SHT_NOBITS \<or> os_size h = 0 then None
                  else Some (snd (file_chunks m ! the (chunk_no (os_name h))))),
      sec_rel = [], sec_out = classify_section (os_name h) (os_type h) (os_flags h), sec_va = 0\<rparr>"

lemma chunk_bound:
  assumes "img = write_elf64_object m" "i < 12"
  shows "length (snd (file_chunks m ! i)) \<le> length img"
    "snd (file_chunks m ! i) \<noteq> [] \<Longrightarrow> file_offsets m ! i < length img"
    "rd_bytes img (file_offsets m ! i) (length (snd (file_chunks m ! i))) = Inr (snd (file_chunks m ! i))
      \<or> snd (file_chunks m ! i) = []"
proof -
  from image_parts(3) [OF assms] obtain rest where r: "drop (file_offsets m ! i) img = snd (file_chunks m ! i) @ rest" by blast
  then have l: "length img - file_offsets m ! i = length (snd (file_chunks m ! i)) + length rest"
    by (metis length_append length_drop)
  then show "length (snd (file_chunks m ! i)) \<le> length img" by simp
  show "file_offsets m ! i < length img" if "snd (file_chunks m ! i) \<noteq> []"
    using l that by (cases "snd (file_chunks m ! i)") auto
  show "rd_bytes img (file_offsets m ! i) (length (snd (file_chunks m ! i))) = Inr (snd (file_chunks m ! i))
      \<or> snd (file_chunks m ! i) = []"
    using rd_slice [OF r, of 0 "length (snd (file_chunks m ! i))"] by auto
qed

lemma header_at:
  assumes "img = write_elf64_object m" "k < length (section_headers m)"
  shows "\<exists>rest. drop (shdr_off m + k * 64) img = elf_write_shdr64 m (section_headers m ! k) @ rest"
  using concat_entry [of "section_headers m" "elf_write_shdr64 m" 64 k "shdr_off m" img "[]"] image_parts(4) [OF assms(1)] assms(2)
  by (simp add: mult.commute)

lemma header_fields:
  assumes "drop p img = elf_write_shdr64 m h @ rest"
  shows "rd32 img p = Inr (sh_name m (os_name h))" "rd32 img (p + 4) = Inr (os_type h)"
    "rd64 img (p + 8) = Inr (os_flags h)" "rd64 img (p + 24) = Inr (of_nat (os_off h))"
    "rd64 img (p + 32) = Inr (os_size h)" "rd32 img (p + 40) = Inr (of_nat (os_link h))"
    "rd32 img (p + 44) = Inr (of_nat (os_info h))" "rd64 img (p + 48) = Inr (os_align h)"
    "rd64 img (p + 56) = Inr (os_ent h)"
proof -
  note rd = read_fields [OF assms]
  show "rd32 img p = Inr (sh_name m (os_name h))"
    using rd(1) [of 0] by (simp add: elf_write_shdr64_def)
qed (rule read_fields [OF assms]; simp add: elf_write_shdr64_def)+

lemma unat_small: "n < 2 ^ 31 \<Longrightarrow> unat (of_nat n :: u64) = n" "n < 2 ^ 31 \<Longrightarrow> unat (of_nat n :: u32) = n"
  by (simp_all add: unat_of_nat)

lemma parse_section_written:
  assumes img: "img = write_elf64_object m" "length img < 2 ^ 31" and k: "k < length (section_headers m)"
    and tab: "shstrtab = file_offsets m ! 11"
  shows "parse_section img shstrtab (shdr_off m + k * 64) = Inr (sec_view m (section_headers m ! k))"
proof -
  let ?h = "section_headers m ! k"
  have ok: "hdr_ok m ?h" using section_headers_ok k by (simp add: list_all_length)
  obtain rest where d: "drop (shdr_off m + k * 64) img = elf_write_shdr64 m ?h @ rest"
    using header_at [OF img(1) k] by blast
  note f = header_fields [OF d]
  obtain tr where t: "drop shstrtab img = snd (shstrtab_parts m) @ tr"
    using image_parts(3) [OF img(1), of 11] by (auto simp: tab chunk_shstrtab)
  have "length (snd (shstrtab_parts m)) < 2 ^ 32"
    using chunk_bound(1) [OF img(1), of 11] img(2) by (simp add: chunk_shstrtab)
  from sh_name_at [OF this, of "os_name ?h"] ok
  obtain r1 where "drop (unat (sh_name m (os_name ?h))) (snd (shstrtab_parts m)) = c_string (os_name ?h) @ r1"
    by (auto simp: hdr_ok_def)
  from read_string [OF t this] ok have nm: "cstr img (shstrtab + unat (sh_name m (os_name ?h))) = Inr (os_name ?h)"
    by (simp add: hdr_ok_def)
  have data: "(if os_type ?h = SHT_NOBITS then Inr None
      else if os_size ?h \<noteq> 0 then bnd (rd_bytes img (unat (of_nat (os_off ?h) :: u64)) (unat (os_size ?h))) (\<lambda>d. Inr (Some d))
      else Inr None) = Inr (sec_data (sec_view m ?h))"
  proof (cases "os_type ?h = SHT_NOBITS \<or> os_size ?h = 0")
    case False
    then obtain i where i: "chunk_no (os_name ?h) = Some i" "i < 12" "os_off ?h = file_offsets m ! i"
      "os_size ?h = of_nat (length (snd (file_chunks m ! i)))"
      using ok by (auto simp: hdr_ok_def split: option.splits)
    note b = chunk_bound [OF img(1) i(2)]
    have ne: "snd (file_chunks m ! i) \<noteq> []" using False i(4) by auto
    have "file_offsets m ! i < 2 ^ 31" "length (snd (file_chunks m ! i)) < 2 ^ 31" using b(1) b(2) [OF ne] img(2) by simp_all
    then have "unat (of_nat (os_off ?h) :: u64) = file_offsets m ! i" "unat (os_size ?h) = length (snd (file_chunks m ! i))"
      unfolding i(3,4) by (simp_all add: unat_small del: unat_of_nat)
    then show ?thesis using b(3) ne False i(1) by (simp add: sec_view_def)
  qed (auto simp: sec_view_def)
  show ?thesis
    unfolding parse_section_def by (simp add: f nm data sec_view_def)
qed

lemma traverse_upt:
  assumes "length ys = n" "\<And>i. i < n \<Longrightarrow> f i = Inr (ys ! i)"
  shows "traverse f [0..<n] = Inr ys"
proof -
  have "traverse f (map (\<lambda>i. i) xs) = Inr (map (\<lambda>i. ys ! i) xs)" if "\<forall>i\<in>set xs. i < n" for xs
    using that by (induction xs) (auto simp: assms(2))
  from this [of "[0..<n]"] show ?thesis using assms(1) map_nth [of ys] by simp
qed

subsection \<open>Section numbers\<close>

definition numbering_ok :: "asm_model \<Rightarrow> bool" where
  "numbering_ok m \<longleftrightarrow>
     (let hs = section_headers m; sn = section_numbers m
      in length hs = sn_count sn \<and> sn_count sn \<le> 14 
         \<and> sn_shstr sn < sn_count sn \<and> os_off (hs ! sn_shstr sn) = file_offsets m ! 11
         \<and> sn_strtab sn < sn_count sn \<and> os_off (hs ! sn_strtab sn) = file_offsets m ! 10
         \<and> sn_symtab sn < sn_count sn \<and> os_off (hs ! sn_symtab sn) = file_offsets m ! 9
         \<and> os_type (hs ! sn_symtab sn) = SHT_SYMTAB \<and> os_ent (hs ! sn_symtab sn) = 24
         \<and> os_size (hs ! sn_symtab sn) = of_nat (length (symtab_bytes m))
         \<and> os_link (hs ! sn_symtab sn) = sn_strtab sn
         \<and> list_all (\<lambda>i. os_type (hs ! i) = SHT_SYMTAB \<longrightarrow> i = sn_symtab sn) [0..<sn_count sn])"

lemma numbering_ok: "numbering_ok m"
  by (simp add: numbering_ok_def section_headers_def section_numbers_def next_num_def Let_def chunk_shstrtab
      elf_consts SHT_NULL_def SHT_STRTAB_def upt_rec)

text \<open>The two relocation sections: the number, the section they apply to, their contents and
  relocations.\<close>

definition rela_headers :: "asm_model \<Rightarrow> (nat \<times> nat \<times> nat \<times> elf_reloc list) list" where
  "rela_headers m =
     (case sn_rela (section_numbers m) of Some k \<Rightarrow> [(k, 1, 3, am_text_relocs m)] | None \<Rightarrow> [])
     @ (case sn_debug (section_numbers m) of Some d \<Rightarrow> [(d + 1, d, 5, snd (build_debug_line m))] | None \<Rightarrow> [])"

definition rela_header_ok :: "asm_model \<Rightarrow> nat \<times> nat \<times> nat \<times> elf_reloc list \<Rightarrow> bool" where
  "rela_header_ok m = (\<lambda>(i, j, c, rs).
     i < sn_count (section_numbers m) \<and> j < sn_count (section_numbers m) \<and> c < 12
     \<and> os_info (section_headers m ! i) = j \<and> os_ent (section_headers m ! i) = 24
     \<and> os_size (section_headers m ! i) = of_nat (length (rela_bytes m rs))
     \<and> os_off (section_headers m ! i) = file_offsets m ! c \<and> snd (file_chunks m ! c) = rela_bytes m rs)"

lemma filter_upt_enumerate:
  "filter (\<lambda>i. P (xs ! i)) [0..<length xs] = map fst (filter (\<lambda>p. P (snd p)) (enumerate 0 xs))"
proof -
  have "map fst (filter (\<lambda>p. P (snd p)) (enumerate 0 xs)) = map fst (filter (\<lambda>p. P (xs ! fst p)) (enumerate 0 xs))"
    by (rule arg_cong [where f = "map fst"], rule filter_cong) (auto simp: in_set_enumerate_eq)
  also have "map fst (filter (\<lambda>p. P (xs ! fst p)) E) = filter (\<lambda>i. P (xs ! i)) (map fst E)" for E :: "(nat \<times> 'a) list"
    by (induction E) auto
  finally show ?thesis by simp
qed

lemma rela_headers_filter:
  "filter (\<lambda>i. os_type (section_headers m ! i) = SHT_RELA) [0..<length (section_headers m)] = map fst (rela_headers m)"
  unfolding filter_upt_enumerate [of "\<lambda>h. os_type h = SHT_RELA"]
  by (cases "am_data m = []"; cases "am_rodata m = []"; cases "am_bss_size m > 0"; cases "am_text_relocs m = []";
      cases "am_locs m = []";
      simp add: rela_headers_def section_headers_def section_numbers_def next_num_def Let_def
        elf_consts SHT_NULL_def SHT_STRTAB_def)

lemma rela_headers_ok: "list_all (rela_header_ok m) (rela_headers m)"
  by (simp add: rela_headers_def section_headers_def section_numbers_def next_num_def Let_def rela_header_ok_def
      chunk_shstrtab)

end
