(* ===== verification/Asm_Props.thy ===== *)
theory Asm_Props
  imports Asm_Parse
begin

text \<open>
  What the assembler guarantees of every text it accepts: the invariant \<open>model_ok\<close> of the parsed
  model, and that every jump to a label of its function lands on it.
\<close>

subsection \<open>NUL-free text\<close>

lemma c_text_sub: "c_text s \<Longrightarrow> set t \<subseteq> set s \<Longrightarrow> c_text t"
  by (auto simp: c_text_def)

lemma c_text_parts [intro, simp]:
  assumes "c_text s"
  shows "c_text (take n s)" "c_text (drop n s)" "c_text (takeWhile P s)" "c_text (dropWhile P s)" "c_text (tl s)"
    "c_text (skip_ws s)" "c_text (skip_char c s)"
proof -
  have tl: "set (tl s) \<subseteq> set s" by (cases s) auto
  show "c_text (take n s)" by (rule c_text_sub [OF assms]) (rule set_take_subset)
  show "c_text (drop n s)" by (rule c_text_sub [OF assms]) (rule set_drop_subset)
  show "c_text (takeWhile P s)" by (rule c_text_sub [OF assms]) (auto dest: set_takeWhileD)
  show "c_text (dropWhile P s)" by (rule c_text_sub [OF assms]) (auto dest: set_dropWhileD)
  show "c_text (tl s)" by (rule c_text_sub [OF assms tl])
  show "c_text (skip_ws s)" unfolding skip_ws_def by (rule c_text_sub [OF assms]) (auto dest: set_dropWhileD)
  show "c_text (skip_char c s)" using assms by (auto simp: skip_char_def intro: c_text_sub [OF assms tl])
qed

lemma c_text_nil [simp]: "c_text []" by (simp add: c_text_def)

lemma c_text_span:
  assumes "span_max n stop s = (t, r)" "c_text s"
  shows "c_text t" "c_text r" "length t \<le> n"
  using assms by (auto simp: span_max_def Let_def)

lemma c_text_dec [simp]: "c_text (dec_of_int i)"
  by (auto simp: c_text_def dec_of_int_def is_dec_digit_def dest!: dec_of_nat_digits)

subsection \<open>Operands\<close>

lemma op_zero_sym [simp]: "op_sym op_zero = []" by (simp add: op_zero_def)

lemma strtol_rest_text: "c_text s \<Longrightarrow> c_text (snd (strtol_rest s))"
proof -
  assume s: "c_text s"
  have "set (snd (take_sign (dropWhile is_space s))) \<subseteq> set s"
    by (auto simp: take_sign_def split: list.splits if_splits dest: set_dropWhileD)
       (metis list.set_intros set_dropWhileD)+
  then show ?thesis using s by (auto simp: strtol_rest_def Let_def intro: c_text_sub)
qed

lemma parse_base_text: "c_text q \<Longrightarrow> c_text (snd (parse_base q))"
  by (auto simp: parse_base_def Let_def dest: c_text_span split: prod.splits)

definition clean :: "operand \<times> string \<Rightarrow> bool" where
  "clean r \<longleftrightarrow> c_text (op_sym (fst r)) \<and> c_text (snd r)"

lemma parse_imm_clean: "c_text p \<Longrightarrow> clean (parse_imm_operand p)"
  by (auto simp: clean_def parse_imm_operand_def Let_def split: prod.splits if_splits dest: c_text_span)

lemma parse_reg_clean: "c_text p \<Longrightarrow> clean (parse_reg_operand p)"
  by (auto simp: clean_def parse_reg_operand_def Let_def split: prod.splits dest: c_text_span)

lemma mem_operand_clean:
  "c_text name \<Longrightarrow> c_text q \<Longrightarrow> op_sym op = [] \<Longrightarrow> clean (mem_operand op name disp q)"
  using parse_base_text [of q] by (cases "parse_base q") (simp add: clean_def mem_operand_def)

lemma num_operand_clean: "c_text p \<Longrightarrow> clean (num_operand p)"
  by (auto simp: num_operand_def Let_def clean_def [of "(op_zero, p)"] intro!: mem_operand_clean)

lemma sym_operand_clean:
  assumes "c_text p"
  shows "clean (sym_operand p)"
proof -
  obtain name q where s: "span_max 255 [CHR ''('', CHR 0x0A] p = (name, q)" by fastforce
  note c = c_text_span [OF s assms]
  let ?got = "strstr_pos name ''@GOTPCREL''"
  let ?name = "case ?got of None \<Rightarrow> name | Some k \<Rightarrow> take k name"
  have n: "c_text ?name" using c(1) by (simp split: option.split)
  then have m: "clean (mem_operand op ?name 0 (tl q))" if "op_sym op = []" for op
    using c(2) that by (intro mem_operand_clean) auto
  show ?thesis
    unfolding sym_operand_def s Let_def prod.case
    using m n c(2) assms by (simp add: clean_def)
qed

lemma parse_paren_clean:
  assumes "c_text p"
  shows "clean (parse_paren_operand p)"
proof -
  obtain base p1 where s: "span_max 15 [CHR '','', CHR '')''] p = (base, p1)" by fastforce
  obtain idx p3 where s3: "span_max 15 [CHR '','', CHR '')''] (tl p1) = (idx, p3)" by fastforce
  obtain scale p4 where s4: "strtol_rest (tl p3) = (scale, p4)" by fastforce
  have c: "c_text p1" "c_text p3" using c_text_span [OF s assms] c_text_span [OF s3] by auto
  then have "c_text p4" using strtol_rest_text [of "tl p3"] s4 by simp
  then show ?thesis
    unfolding parse_paren_operand_def s s3 s4 Let_def prod.case using c by (simp add: clean_def)
qed

lemma parse_operand_clean: "c_text p \<Longrightarrow> clean (parse_operand_x64 p)"
proof -
  assume p: "c_text p"
  have z: "clean (op_zero, q)" if "c_text q" for q using that by (simp add: clean_def)
  show ?thesis
    unfolding parse_operand_x64_def parse_disp_operand_def Let_def using p
    by (simp add: z parse_imm_clean parse_reg_clean parse_paren_clean num_operand_clean sym_operand_clean)
qed

lemma parse_two_clean:
  assumes "parse_two p = (src, dst, q)" "c_text p"
  shows "c_text (op_sym src)" "c_text (op_sym dst)"
proof -
  obtain s p1 where 1: "parse_operand_x64 p = (s, p1)" by fastforce
  obtain d p2 where 2: "parse_operand_x64 (skip_char CHR '','' p1) = (d, p2)" by fastforce
  have c: "clean (s, p1)" using parse_operand_clean [OF assms(2)] 1 by simp
  then have "clean (d, p2)" using parse_operand_clean [of "skip_char CHR '','' p1"] 2 by (simp add: clean_def)
  then show "c_text (op_sym src)" "c_text (op_sym dst)" using assms(1) c 1 2 by (auto simp: parse_two_def clean_def)
qed

subsection \<open>Encoders only append\<close>

text \<open>Every encoder extends the text and the relocations; a new relocation lies inside the bytes it
  was added with.\<close>

definition reloc_ok :: "nat \<Rightarrow> nat \<Rightarrow> elf_reloc \<Rightarrow> bool" where
  "reloc_ok lo hi r \<longleftrightarrow> c_text (er_sym r) \<and> length (er_sym r) \<le> 255 \<and> lo \<le> er_off r \<and> er_off r + 4 \<le> hi"

definition extends :: "enc_out \<Rightarrow> enc_out \<Rightarrow> bool" where
  "extends st st' \<longleftrightarrow> (\<exists>bs rs. eo_text st' = eo_text st @ bs \<and> eo_relocs st' = eo_relocs st @ rs
     \<and> list_all (reloc_ok (length (eo_text st)) (length (eo_text st'))) rs)"

named_theorems extends_intros \<open>encoders extend their output\<close>

lemma extends_refl [extends_intros]: "extends st st"
  by (simp add: extends_def)

lemma reloc_ok_mono: "reloc_ok lo hi r \<Longrightarrow> lo' \<le> lo \<Longrightarrow> hi \<le> hi' \<Longrightarrow> reloc_ok lo' hi' r"
  by (simp add: reloc_ok_def)

lemma extends_trans:
  assumes "extends a b" "extends b c"
  shows "extends a c"
proof -
  from assms obtain bs rs bs' rs' where e: "eo_text b = eo_text a @ bs" "eo_relocs b = eo_relocs a @ rs"
    "list_all (reloc_ok (length (eo_text a)) (length (eo_text b))) rs" "eo_text c = eo_text b @ bs'"
    "eo_relocs c = eo_relocs b @ rs'" "list_all (reloc_ok (length (eo_text b)) (length (eo_text c))) rs'"
    unfolding extends_def by blast
  then have "list_all (reloc_ok (length (eo_text a)) (length (eo_text c))) (rs @ rs')"
    by (auto simp: list_all_iff intro: reloc_ok_mono)
  then show ?thesis using e unfolding extends_def by (intro exI [of _ "bs @ bs'"] exI [of _ "rs @ rs'"]) simp
qed

lemma extends_emit [extends_intros]: "extends a b \<Longrightarrow> extends a (emit bs b)"
  by (rule extends_trans) (auto simp: extends_def emit_def)

lemma extends_emit_if [extends_intros]: "extends a b \<Longrightarrow> extends a (emit_if c bs b)"
  by (simp add: emit_if_def extends_emit)

lemma extends_reloc_field [extends_intros]: "c_text s \<Longrightarrow> extends a b \<Longrightarrow> extends a (reloc_field s ty b)"
  by (rule extends_trans) (auto simp: extends_def reloc_field_def reloc_ok_def bytes32_def)

lemma extends_encoders [extends_intros]:
  "extends a b \<Longrightarrow> extends a (enc_mem_idx opc w reg base idx scale b)"
  "c_text (op_sym rm) \<Longrightarrow> extends a b \<Longrightarrow> extends a (enc_modrm_operand reg rm b)"
  "extends a b \<Longrightarrow> extends a (enc_rr64 opc dst src b)"
  "extends a b \<Longrightarrow> extends a (enc_mem_base opc reg base disp W b)"
  "c_text (op_sym rm) \<Longrightarrow> extends a b \<Longrightarrow> extends a (enc_rip reg rm b)"
  "extends a b \<Longrightarrow> extends a (alu_imm slash imm reg b)"
  "extends a b \<Longrightarrow> extends a (enc_mov_imm imm reg b)"
  "extends a b \<Longrightarrow> extends a (nop_fallback b)"
  by (simp_all add: enc_mem_idx_def enc_modrm_operand_def enc_rr64_def enc_mem_base_def enc_rip_def
      alu_imm_def enc_mov_imm_def nop_fallback_def Let_def extends_intros)

lemma extends_enc_sse [extends_intros]:
  "c_text (op_sym rm) \<Longrightarrow> extends a b \<Longrightarrow> extends a (enc_sse pfx opc reg rm W b)"
  by (simp add: enc_sse_def Let_def extends_intros)

lemma parse_one_clean: "c_text p \<Longrightarrow> c_text (op_sym (fst (parse_operand_x64 p)))"
  using parse_operand_clean [of p] by (simp add: clean_def)

text \<open>A two-operand handler reads its operands first.\<close>

lemma with_two:
  assumes "c_text p" "\<And>src dst q. c_text (op_sym src) \<Longrightarrow> c_text (op_sym dst) \<Longrightarrow> P (f (src, dst, q))"
  shows "P (f (parse_two p))"
  using assms parse_two_clean [OF _ assms(1)] by (metis surj_pair)

lemma extends_one [extends_intros]:
  assumes "c_text p"
  shows "extends st (enc_pushq p st)" "extends st (enc_popq p st)" "extends st (enc_fmem opc dig p st)"
    "extends st (enc_fstack mnem p st)" "extends st (enc_unary slash p st)" "extends st (enc_setcc mnem p st)"
    "extends st (enc_call p st)"
proof -
  have c: "c_text (fst (span_max 255 [CHR 0x0A, CHR '' ''] p))"
    using c_text_span [OF _ assms] by (metis prod.collapse)
  show "extends st (enc_pushq p st)" "extends st (enc_popq p st)" "extends st (enc_fmem opc dig p st)"
    "extends st (enc_fstack mnem p st)" "extends st (enc_unary slash p st)" "extends st (enc_setcc mnem p st)"
    "extends st (enc_call p st)"
    by (simp_all add: enc_pushq_def enc_popq_def enc_fmem_def enc_fstack_def enc_unary_def enc_setcc_def enc_call_def
        Let_def extends_intros parse_one_clean [OF assms] c)
qed

lemma extends_two [extends_intros]:
  assumes "c_text p"
  shows "extends st (enc_fbin pfx opc p st)" "extends st (enc_movs mnem p st)" "extends st (enc_cvt mnem p st)"
    "extends st (enc_movabs p st)" "extends st (enc_xorl p st)" "extends st (enc_movq p st)" "extends st (enc_movl p st)"
    "extends st (enc_movb p st)" "extends st (enc_movw p st)" "extends st (enc_addq p st)" "extends st (enc_subq p st)"
    "extends st (enc_imulq p st)" "extends st (enc_logic mnem p st)" "extends st (enc_shift mnem p st)"
    "extends st (enc_cmpq p st)" "extends st (enc_movslq p st)" "extends st (enc_movx mnem p st)"
    "extends st (enc_movsbl p st)" "extends st (enc_leaq p st)"
  unfolding enc_fbin_def enc_movs_def enc_cvt_def enc_movabs_def enc_xorl_def enc_movq_def enc_movl_def enc_movb_def
    enc_movw_def enc_addq_def enc_subq_def enc_imulq_def enc_logic_def enc_shift_def enc_cmpq_def enc_movslq_def
    enc_movx_def enc_movsbl_def enc_leaq_def Let_def
  by (rule with_two [OF assms]; simp add: extends_intros)+

definition extends_opt :: "enc_out \<Rightarrow> enc_out option \<Rightarrow> bool" where
  "extends_opt st r \<longleftrightarrow> (case r of None \<Rightarrow> True | Some st1 \<Rightarrow> extends st st1)"

lemma extends_opt_simps [simp]: "extends_opt st None" "extends_opt st (Some st1) = extends st st1"
  by (simp_all add: extends_opt_def)

lemma extends_testq: "c_text p \<Longrightarrow> extends_opt st (enc_testq p st)"
  unfolding enc_testq_def Let_def by (rule with_two) (simp_all add: extends_intros)

lemma extends_movq_xmm: "c_text p \<Longrightarrow> extends_opt st (enc_movq_xmm mnem p st)"
  unfolding enc_movq_xmm_def Let_def by (rule with_two) (simp_all add: extends_intros)

lemma encode_insn_extends: "c_text p \<Longrightarrow> extends_opt st (encode_insn mnem p st)"
proof -
  assume p: "c_text p"
  have a: "extends_opt st (alu_insn mnem p st)" for mnem
    by (simp add: alu_insn_def extends_one [OF p] extends_two [OF p])
  have m: "extends_opt st (move_insn mnem p st)" for mnem
    by (simp add: move_insn_def extends_two [OF p] extends_testq [OF p] extends_intros a)
  have x: "enc_movq_xmm mnem p st = Some st1 \<Longrightarrow> extends st st1" for mnem st1
    using extends_movq_xmm [OF p, of st mnem] by simp
  have s: "extends_opt st (sse_insn mnem p st)"
    by (auto simp: sse_insn_def extends_two [OF p] m dest: x split: option.split)
  have x: "extends_opt st (x87_insn mnem p st)"
    by (simp add: x87_insn_def extends_one [OF p] extends_intros split: option.split)
  then have "x87_insn mnem p st = Some st1 \<Longrightarrow> extends st st1" for st1 by simp
  then show ?thesis using s by (auto simp: encode_insn_def extends_one [OF p] extends_intros split: option.split)
qed

subsection \<open>Labels and jumps\<close>

definition patches_in :: "enc_ctx \<Rightarrow> nat \<Rightarrow> bool" where
  "patches_in ctx n \<longleftrightarrow> list_all (\<lambda>pt. fst pt + 4 \<le> n) (cx_patches ctx)"

lemma length_bytes32 [simp]: "length (bytes32 i) = 4"
  by (simp add: bytes32_def)

lemma length_patch32: "off + 4 \<le> length text \<Longrightarrow> length (bb_patch32le off v text) = length text"
  by (simp add: bb_patch32le_def)

lemma length_apply_patches:
  "list_all (\<lambda>pt. fst pt + 4 \<le> length bs) pts \<Longrightarrow> length (fold (apply_patch name fs) pts bs) = length bs"
proof (induction pts arbitrary: bs)
  case (Cons pt pts)
  have "length (apply_patch name fs pt bs) = length bs"
    using Cons.prems by (simp add: apply_patch_def length_patch32)
  then show ?case using Cons by simp
qed simp

lemma define_label_facts:
  assumes "define_label name fs bs ctx = (bs', ctx')" "patches_in ctx (length bs)"
  shows "length bs' = length bs" "cx_patches ctx' = cx_patches ctx"
    "cx_labels ctx' = cx_labels ctx @ [(name, i32 (int (length bs) - int fs))]"
  using assms length_apply_patches [of bs "cx_patches ctx" name fs]
  by (auto simp: define_label_def ctx_add_label_def patches_in_def)

text \<open>What a line does to the output: the relocations are extended as by an encoder, and the text
  never shrinks.\<close>

definition grows :: "enc_out \<Rightarrow> enc_out \<Rightarrow> bool" where
  "grows st st' \<longleftrightarrow> length (eo_text st) \<le> length (eo_text st') \<and> (\<exists>rs. eo_relocs st' = eo_relocs st @ rs
     \<and> list_all (reloc_ok (length (eo_text st)) (length (eo_text st'))) rs)"

lemma grows_extends: "extends st st' \<Longrightarrow> grows st st'"
  by (auto simp: extends_def grows_def)

lemma patches_in_mono: "patches_in ctx n \<Longrightarrow> n \<le> k \<Longrightarrow> patches_in ctx k"
  by (auto simp: patches_in_def list_all_iff)

lemma enc_jump_shape:
  assumes "enc_jump mnem p fs st ctx = Inr (st', ctx')"
  obtains st1 i where "extends st st1" "st' = emit (bytes32 i) st1"
    "ctx' = ctx \<or> (\<exists>l. ctx' = ctx\<lparr>cx_patches := cx_patches ctx @ [(length (eo_text st1), l)]\<rparr>)"
proof -
  let ?st1 = "emit [if mnem = ''je'' then 0x84 else if mnem = ''jne'' then 0x85 else 0xE9]
      (emit_if (mnem = ''je'' \<or> mnem = ''jne'') [0x0F] st)"
  have e: "extends st ?st1" by (intro extends_intros)
  from assms have "\<exists>i. st' = emit (bytes32 i) ?st1 \<and>
      (ctx' = ctx \<or> (\<exists>l. ctx' = ctx\<lparr>cx_patches := cx_patches ctx @ [(length (eo_text ?st1), l)]\<rparr>))"
    unfolding enc_jump_def Let_def ctx_add_patch_def by (force split: if_splits)
  then show ?thesis using e that by blast
qed

lemma enc_jump_facts:
  assumes "enc_jump mnem p fs st ctx = Inr (st', ctx')" "patches_in ctx (length (eo_text st))"
  shows "extends st st'" "patches_in ctx' (length (eo_text st'))" "cx_labels ctx' = cx_labels ctx"
proof -
  from enc_jump_shape [OF assms(1)] obtain st1 i where s: "extends st st1" "st' = emit (bytes32 i) st1"
    "ctx' = ctx \<or> (\<exists>l. ctx' = ctx\<lparr>cx_patches := cx_patches ctx @ [(length (eo_text st1), l)]\<rparr>)" .
  show e: "extends st st'" unfolding s(2) by (rule extends_emit [OF s(1)])
  have l: "length (eo_text st') = length (eo_text st1) + 4" by (simp add: s(2) emit_def)
  have "patches_in ctx (length (eo_text st'))" using assms(2) e by (auto simp: extends_def intro: patches_in_mono)
  then show "patches_in ctx' (length (eo_text st'))" using s(3) l by (auto simp: patches_in_def)
  show "cx_labels ctx' = cx_labels ctx" using s(3) by auto
qed

lemma x64_encode_line_facts:
  assumes "x64_encode_line line fn st ctx = Inr (st', ctx')" "c_text line" "patches_in ctx (length (eo_text st))"
  shows "grows st st' \<and> patches_in ctx' (length (eo_text st'))"
proof -
  let ?p = "skip_ws line"
  have p: "c_text ?p" using assms(2) by simp
  obtain lname q where s: "span_max 255 [CHR '':'', CHR '' '', CHR 0x0A] ?p = (lname, q)" by fastforce
  obtain word q1 where w: "span_max 31 [CHR '' '', CHR 0x09, CHR 0x0A] ?p = (word, q1)" by fastforce
  have ops: "c_text (skip_ws q1)" using c_text_span(2) [OF w p] by simp
  have refl: "grows st st" by (rule grows_extends) (rule extends_refl)
  let ?m = "normal_mnem word (skip_ws q1)"
  consider "?p = [] \<or> hd ?p = CHR 0x0A \<or> hd ?p = CHR ''#'' \<or> hd ?p = CHR ''.''"
    | "char_at q 0 = CHR '':''" "\<not> (?p = [] \<or> hd ?p = CHR 0x0A \<or> hd ?p = CHR ''#'' \<or> hd ?p = CHR ''.'')"
    | "char_at q 0 \<noteq> CHR '':''" "\<not> (?p = [] \<or> hd ?p = CHR 0x0A \<or> hd ?p = CHR ''#'' \<or> hd ?p = CHR ''.'')" by blast
  then show ?thesis
  proof cases
    case 1
    then show ?thesis using assms refl by (simp add: x64_encode_line_def Let_def)
  next
    case 2
    obtain bs ctx1 where d: "define_label lname fn (eo_text st) ctx = (bs, ctx1)" by fastforce
    note f = define_label_facts [OF d assms(3)]
    have "st' = st\<lparr>eo_text := bs\<rparr>" "ctx' = ctx1" using assms(1) 2 by (simp_all add: x64_encode_line_def Let_def s d)
    then show ?thesis using assms(3) f by (simp add: grows_def patches_in_def)
  next
    case 3
    show ?thesis
    proof (cases "encode_insn ?m (skip_ws q1) st")
      case None
      then have "enc_jump ?m (skip_ws q1) fn st ctx = Inr (st', ctx')"
        using assms(1) 3 by (auto simp: x64_encode_line_def Let_def s w split: if_splits)
      from enc_jump_facts [OF this assms(3)] show ?thesis by (simp add: grows_extends)
    next
      case (Some st1)
      then have e: "st' = st1" "ctx' = ctx" using assms(1) 3 by (simp_all add: x64_encode_line_def Let_def s w)
      have "extends st st1" using encode_insn_extends [OF ops, of st ?m] Some by simp
      then show ?thesis using e assms(3)
        by (auto simp: grows_extends extends_def patches_in_def list_all_iff)
    qed
  qed
qed

subsection \<open>The invariant of the parsed model\<close>

definition sym_inside :: "asm_model \<Rightarrow> elf_sym \<Rightarrow> bool" where
  "sym_inside m s \<longleftrightarrow> c_text (es_name s) \<and> length (es_name s) \<le> 255 \<and> es_bind s \<in> set [STB_LOCAL, STB_GLOBAL, STB_WEAK]
     \<and> es_defined s
     \<and> (if es_type s = STT_OBJECT then
          es_shndx s = 3 \<and> es_value s \<le> length (am_data m) \<or> es_shndx s = 4 \<and> es_value s \<le> length (am_rodata m)
        else (es_type s = STT_FUNC \<or> es_type s = STT_NOTYPE) \<and> es_shndx s = 0 \<and> es_value s \<le> length (am_text m))"

definition model_ok :: "asm_model \<Rightarrow> bool" where
  "model_ok m \<longleftrightarrow> list_all (reloc_ok 0 (length (am_text m))) (am_text_relocs m)
     \<and> list_all (sym_inside m) (am_syms m)
     \<and> sorted (map le_off (am_locs m)) \<and> list_all (\<lambda>l. le_off l \<le> length (am_text m)) (am_locs m)
     \<and> list_all (\<lambda>f. c_text (fe_path f) \<and> length (fe_path f) < 255) (am_files m)"

definition state_ok :: "asm_state \<Rightarrow> bool" where
  "state_ok st \<longleftrightarrow> model_ok (as_model st) \<and> patches_in (as_ctx st) (length (am_text (as_model st)))"

lemma sym_inside_mono:
  assumes "sym_inside m s" "length (am_text m) \<le> length (am_text m')" "length (am_data m) \<le> length (am_data m')"
    "length (am_rodata m) \<le> length (am_rodata m')"
  shows "sym_inside m' s"
  using assms by (auto simp: sym_inside_def split: if_splits)

lemma model_ok_data:
  assumes "model_ok m" "am_out m' = am_out m" "am_syms m' = am_syms m" "am_locs m' = am_locs m"
    "am_files m' = am_files m" "length (am_data m) \<le> length (am_data m')" "length (am_rodata m) \<le> length (am_rodata m')"
  shows "model_ok m'"
  using assms by (auto simp: model_ok_def list_all_iff intro: sym_inside_mono)

lemma model_ok_out:
  assumes "model_ok m" "grows (am_out m) out"
  shows "model_ok (m\<lparr>am_out := out\<rparr>)"
proof -
  from assms(2) obtain rs where g: "length (am_text m) \<le> length (eo_text out)" "eo_relocs out = am_text_relocs m @ rs"
    "list_all (reloc_ok (length (am_text m)) (length (eo_text out))) rs" by (auto simp: grows_def)
  then have "list_all (reloc_ok 0 (length (eo_text out))) (am_text_relocs m @ rs)"
    using assms(1) by (auto simp: model_ok_def list_all_iff intro: reloc_ok_mono)
  then show ?thesis
    using assms(1) g(1,2) by (fastforce simp: model_ok_def list_all_iff intro: sym_inside_mono)
qed

lemma model_ok_sym:
  "model_ok m \<Longrightarrow> sym_inside m s \<Longrightarrow> model_ok (m\<lparr>am_syms := am_syms m @ [s]\<rparr>)"
  by (auto simp: model_ok_def list_all_iff intro: sym_inside_mono)

lemma state_ok_put: "state_ok st \<Longrightarrow> state_ok (put_buf bs st)"
  by (auto simp: state_ok_def put_buf_def intro: model_ok_data)

lemma state_ok_push:
  assumes "state_ok st" "sym_inside (as_model st) s"
  shows "state_ok (push_sym s st)"
  using assms by (auto simp: state_ok_def push_sym_def intro: model_ok_sym)

lemma state_ok_flags:
  "state_ok st \<Longrightarrow> state_ok (globl_line lp st)" "state_ok st \<Longrightarrow> state_ok (weak_line lp st)"
  "state_ok st \<Longrightarrow> state_ok (type_line lp st)" "state_ok st \<Longrightarrow> state_ok (st\<lparr>as_sec := sec, as_in_fn := False\<rparr>)"
  by (auto simp: state_ok_def globl_line_def weak_line_def type_line_def Let_def split: prod.splits)

lemma bind_of_set: "bind_of st l \<in> set [STB_LOCAL, STB_GLOBAL, STB_WEAK]"
  by (simp add: bind_of_def)

lemma data_symbol_placed:
  assumes "c_text l" "length l \<le> 255" "b \<in> set [STB_LOCAL, STB_GLOBAL, STB_WEAK]" "in_data st"
  shows "sym_inside (as_model st) (data_symbol l b st)"
  using assms by (auto simp: sym_inside_def data_symbol_def in_data_def sec_buf_def)

lemma local_label_ok:
  assumes "state_ok st"
  shows "state_ok (local_label l st)"
proof -
  obtain bs ctx where d: "define_label l (as_fn_start st) (am_text (as_model st)) (as_ctx st) = (bs, ctx)" by fastforce
  note f = define_label_facts [OF d]
  have "patches_in (as_ctx st) (length (am_text (as_model st)))" using assms by (simp add: state_ok_def)
  note f = f [OF this]
  have "grows (am_out (as_model st)) ((am_out (as_model st))\<lparr>eo_text := bs\<rparr>)" using f(1) by (simp add: grows_def)
  then show ?thesis
    using assms model_ok_out [of "as_model st"] f by (simp add: state_ok_def local_label_def d patches_in_def)
qed

lemma data_push_ok:
  assumes "state_ok st" "c_text l" "length l \<le> 255" "b \<in> set [STB_LOCAL, STB_GLOBAL, STB_WEAK]" "in_data st"
  shows "state_ok (push_sym (data_symbol l b st) st)"
  by (rule state_ok_push [OF assms(1) data_symbol_placed [OF assms(2-5)]])

lemma dot_label_ok: "state_ok st \<Longrightarrow> c_text l \<Longrightarrow> length l \<le> 255 \<Longrightarrow> state_ok (dot_label l st)"
  using data_push_ok [of st l "bind_of st l"] bind_of_set [of st l] by (simp add: dot_label_def local_label_ok)

lemma label_line_ok:
  assumes "state_ok st" "c_text l" "length l \<le> 255"
  shows "state_ok (label_line l st)"
proof -
  have p: "patches_in ctx_init n" for n by (simp add: patches_in_def ctx_init_def)
  have "state_ok (function_label l st)"
    unfolding function_label_def Let_def
    by (rule state_ok_push) (use assms bind_of_set [of st l] p in \<open>auto simp: state_ok_def sym_inside_def elf_consts STT_NOTYPE_def\<close>)
  moreover have "state_ok (plain_label l st)"
  proof -
    have g: "state_ok (st\<lparr>as_globl := []\<rparr>)" using assms(1) by (simp add: state_ok_def)
    have 1: "state_ok (push_sym \<lparr>es_name = l, es_shndx = 0, es_value = length (am_text (as_model st)), es_size = 0,
        es_bind = (if l = as_weak st then STB_WEAK else STB_GLOBAL), es_type = STT_NOTYPE, es_defined = True\<rparr>
        (st\<lparr>as_globl := []\<rparr>))"
      by (rule state_ok_push [OF g]) (use assms in \<open>auto simp: sym_inside_def elf_consts STT_NOTYPE_def\<close>)
    have 2: "in_data st \<Longrightarrow> state_ok (push_sym (data_symbol l (if l = as_globl st \<or> l = as_globl2 st then STB_GLOBAL else STB_LOCAL) st) st)"
      by (rule data_push_ok [OF assms]) simp_all
    show ?thesis
      unfolding plain_label_def using 1 2 local_label_ok [OF assms(1), of l] assms(1) by presburger
  qed
  ultimately show ?thesis unfolding label_line_def by presburger
qed

lemma directive_ok:
  assumes "directive_line lp st = Inr st'" "state_ok st" "c_text lp"
  shows "state_ok st'"
proof -
  have f: "state_ok st'" if "file_line lp st = Inr st'"
  proof -
    obtain i r where 1: "strtol_rest (skip_ws (drop 6 lp)) = (i, r)" by fastforce
    have "c_text r" using strtol_rest_text [of "skip_ws (drop 6 lp)"] 1 assms(3) by simp
    then have "c_text (tl (skip_ws r))" by simp
    then have "c_text (fst (span_max 255 [CHR 0x22] (tl (skip_ws r))))" "length (fst (span_max 255 [CHR 0x22] (tl (skip_ws r)))) \<le> 255"
      using c_text_span by (metis prod.collapse)+
    then show ?thesis using that assms(2) by (auto simp: file_line_def 1 Let_def state_ok_def model_ok_def list_all_iff
          sym_inside_def split: if_splits)
  qed
  have l: "state_ok (loc_line lp st)"
    using assms(2) by (auto simp: loc_line_def state_ok_def model_ok_def list_all_iff sym_inside_def sorted_append Let_def split: prod.splits)
  have d: "state_ok st'" if "data_directive lp st = Inr st'"
    using that assms(2) by (auto simp: data_directive_def Let_def state_ok_put split: if_splits)
  show ?thesis
    using assms(1,2) f l d by (auto simp: directive_line_def state_ok_def intro: model_ok_data split: if_splits)
qed

lemma instruction_ok:
  assumes "instruction_line line st = Inr st'" "state_ok st" "c_text line"
  shows "state_ok st'"
proof (cases "as_sec st = SEC_TEXT \<and> as_in_fn st")
  case True
  from assms(1) True obtain out ctx where x: "x64_encode_line line (as_fn_start st) (am_out (as_model st)) (as_ctx st) = Inr (out, ctx)"
    "st' = (upd_model (\<lambda>m. m\<lparr>am_out := out\<rparr>) st)\<lparr>as_ctx := ctx\<rparr>" by (auto simp: instruction_line_def)
  from assms(2) have "patches_in (as_ctx st) (length (am_text (as_model st)))" by (simp add: state_ok_def)
  from x64_encode_line_facts [OF x(1) assms(3) this] show ?thesis
    using assms(2) model_ok_out by (simp add: state_ok_def x(2))
qed (use assms in \<open>auto simp: instruction_line_def\<close>)

lemma asm_line_ok:
  assumes "asm_line full st = Inr st'" "state_ok st" "c_text full"
  shows "state_ok st'"
proof -
  let ?line = "take 1023 full" let ?lp = "skip_ws ?line"
  have c: "c_text ?line" "c_text ?lp" using assms(3) by simp_all
  obtain l q where s: "span_max 255 [CHR '':'', CHR '' '', CHR 0x09] ?lp = (l, q)" by fastforce
  note l = c_text_span(1,3) [OF s c(2)]
  note ok = state_ok_flags [OF assms(2)] dot_label_ok [OF assms(2) l] label_line_ok [OF assms(2) l]
  show ?thesis
    using assms(1,2) ok directive_ok [OF _ assms(2) c(2), of st'] instruction_ok [OF _ assms(2) c(1), of st']
    unfolding asm_line_def Let_def s prod.case
    by (auto split: if_splits option.splits)
qed

lemma asm_lines_text: "c_text s \<Longrightarrow> l \<in> set (asm_lines s) \<Longrightarrow> c_text l"
proof (induction s arbitrary: l)
  case (Cons c s)
  then have s: "c_text s" "c \<noteq> CHR 0x00" by (auto simp: c_text_def)
  from Cons.prems(2) s(2) Cons.IH [OF s(1)] show ?case
    by (cases "asm_lines s") (auto simp: c_text_def split: if_splits)
qed simp

lemma size_last_func_ok: "list_all (sym_inside m) ss \<Longrightarrow> list_all (sym_inside m) (size_last_func n ss)"
  by (induction ss) (auto simp: sym_inside_def)

lemma finish_model_ok: "state_ok st \<Longrightarrow> model_ok (finish_model st)"
proof -
  assume "state_ok st"
  then have m: "model_ok (as_model st)" by (simp add: state_ok_def)
  let ?syms = "rev (size_last_func (length (am_text (as_model st))) (rev (am_syms (as_model st))))"
  have "list_all (sym_inside (as_model st)) ?syms"
    using m size_last_func_ok [of "as_model st" "rev (am_syms (as_model st))"] by (simp add: model_ok_def)
  then have "list_all (sym_inside ((as_model st)\<lparr>am_syms := ?syms\<rparr>)) ?syms"
    by (auto simp: list_all_iff intro: sym_inside_mono)
  then show ?thesis using m by (simp add: finish_model_def Let_def model_ok_def)
qed

lemma parsed_model_invariant:
  assumes "parse_asm_x64 asm_text = Inr m" "c_text asm_text"
  shows "model_ok m"
proof -
  from assms(1) obtain st where st: "fold_err asm_line (asm_lines asm_text) asm_start = Inr st" "m = finish_model st"
    by (auto simp: parse_asm_x64_def)
  have "state_ok asm_start"
    by (simp add: state_ok_def asm_start_def asm_model_init_def model_ok_def patches_in_def ctx_init_def)
  then have "state_ok st"
    by (rule fold_err_invariant [OF st(1)]) (auto intro: asm_line_ok asm_lines_text [OF assms(2)])
  then show ?thesis unfolding st(2) by (rule finish_model_ok)
qed

text \<open>C10: Every text the assembler accepts gives a well-formed model: each relocation is a four-byte
  field inside .text with a proper symbol name, each symbol is bound local, global or weak and lies
  inside the section its type and placeholder say, and the recorded source locations are in
  order of their offsets, inside .text.\<close>

theorem parsed_model_ok:
  assumes "parse_asm_x64 asm_text = Inr m" "c_text asm_text"
  shows "model_ok m"
  using assms by (rule parsed_model_invariant)

text \<open>A small program for the witnesses: a function with a forward and a backward jump and a call, and
  a data symbol.\<close>

definition unlines :: "string list \<Rightarrow> string" where
  "unlines ls = concat (map (\<lambda>l. l @ [CHR 0x0A]) ls)"

definition demo_head :: "string list" where
  "demo_head = [''.text'', ''.globl f'', ''.type f, @function'', ''f:'']"

definition demo_body :: "string list" where
  "demo_body = ['' je .Lf_end'', ''.Lf_top:'', '' call g'', '' jmp .Lf_top'', ''.Lf_end:'', '' ret'']"

definition demo_asm :: string where
  "demo_asm = unlines (demo_head @ demo_body @ [''.data'', ''x:'', '' .quad 7''])"

definition demo_model :: asm_model where
  "demo_model = \<lparr>am_out = \<lparr>eo_text = [0x0F, 0x84, 10, 0, 0, 0, 0xE8, 0, 0, 0, 0, 0xE9, 0xF6, 0xFF, 0xFF, 0xFF, 0xC3],
      eo_relocs = [\<lparr>er_sym = ''g'', er_off = 7, er_add = - 4, er_type = 4\<rparr>]\<rparr>,
    am_data = [7, 0, 0, 0, 0, 0, 0, 0], am_rodata = [], am_bss_size = 0,
    am_syms = [\<lparr>es_name = ''f'', es_shndx = 0, es_value = 0, es_size = 0, es_bind = 1, es_type = 2, es_defined = True\<rparr>,
      \<lparr>es_name = ''x'', es_shndx = 3, es_value = 0, es_size = 0, es_bind = 0, es_type = 1, es_defined = True\<rparr>],
    am_files = [], am_locs = []\<rparr>"

lemma demo_parsed: "parse_asm_x64 demo_asm = Inr demo_model"
  by code_simp

lemma demo_text: "c_text demo_asm"
  by code_simp

theorem parsed_model_ok_witness: "parse_asm_x64 demo_asm = Inr demo_model \<and> model_ok demo_model"
  using parsed_model_ok [OF demo_parsed demo_text] demo_parsed by simp

end
