(* ===== verification/Elf_Write_Props.thy ===== *)
theory Elf_Write_Props
  imports Elf_Sections Asm_Props
begin

text \<open>
  The object the assembler writes is the object the linker reads: parsing the bytes of
  \<open>write_elf64_object m\<close> with the linker's \<open>parse_object\<close> gives every section with its
  contents, the symbol table with its names, and the relocations attached to \<^verbatim>\<open>.text\<close>, each naming
  the symbol the assembler recorded.
\<close>

subsection \<open>Symbols\<close>

definition sym_ok :: "elf_sym \<Rightarrow> bool" where
  "sym_ok s \<longleftrightarrow> c_text (es_name s) \<and> es_bind s \<in> set [STB_LOCAL, STB_GLOBAL, STB_WEAK]
     \<and> es_type s \<in> set [STT_NOTYPE, STT_OBJECT, STT_FUNC, STT_SECTION]"

definition sym_view :: "elf_sym \<Rightarrow> sym" where
  "sym_view s = \<lparr>sym_name = es_name s, sym_value = of_nat (es_value s), sym_size = ucast (es_size s),
     sym_shndx = of_nat (if es_defined s then es_shndx s else 0), sym_bind = es_bind s, sym_type = es_type s\<rparr>"

definition null_view :: sym where
  "null_view = \<lparr>sym_name = [], sym_value = 0, sym_size = 0, sym_shndx = 0, sym_bind = 0, sym_type = 0\<rparr>"

definition entry_bytes :: "elf_sym \<Rightarrow> u32 \<Rightarrow> u8 list" where
  "entry_bytes s off =
     le_bytes 4 off @ [push_bit 4 (es_bind s) OR (es_type s AND 0xF), 0]
     @ le_bytes 2 (of_nat (if es_defined s then es_shndx s else 0) :: u16)
     @ le_bytes 8 (of_nat (es_value s) :: u64) @ le_bytes 8 (ucast (es_size s) :: u64)"

lemma length_entry_bytes [simp]: "length (entry_bytes s off) = 24"
  by (simp add: entry_bytes_def)

lemma info_fields:
  assumes "sym_ok s"
  shows "drop_bit 4 (push_bit 4 (es_bind s) OR (es_type s AND 0xF)) = es_bind s"
    "(push_bit 4 (es_bind s) OR (es_type s AND 0xF)) AND 0xF = es_type s"
  using assms by (auto simp: sym_ok_def elf_consts STT_NOTYPE_def)

lemma parse_symbol_entry:
  assumes "drop p img = entry_bytes s off @ rest" "cstr img (strtab + unat off) = Inr (es_name s)" "sym_ok s"
  shows "parse_symbol img strtab p = Inr (sym_view s)"
proof -
  note rd = read_fields [OF assms(1)]
  have "rd32 img p = Inr off" using rd(1) [of 0] by (simp add: entry_bytes_def)
  moreover have "rd16 img (p + 6) = Inr (of_nat (if es_defined s then es_shndx s else 0))"
    by (rule rd(3)) (simp_all add: entry_bytes_def)
  moreover have "rd64 img (p + 8) = Inr (of_nat (es_value s))" "rd64 img (p + 16) = Inr (ucast (es_size s))"
    by (rule rd(2); simp add: entry_bytes_def)+
  moreover have "rd_bytes img (p + 4) 1 = Inr [push_bit 4 (es_bind s) OR (es_type s AND 0xF)]"
    using rd_slice [OF assms(1), of 4 1] by (simp add: entry_bytes_def)
  ultimately show ?thesis
    using assms(2) info_fields [OF assms(3)] by (simp add: parse_symbol_def sym_view_def)
qed

lemma parse_null_symbol:
  assumes "drop p img = replicate 24 0 @ rest" "cstr img strtab = Inr []"
  shows "parse_symbol img strtab p = Inr null_view"
proof -
  note rd = read_fields [OF assms(1)]
  have z: "le_bytes n (0 :: 'a::len word) = replicate n 0" for n
    by (simp add: le_bytes_def map_replicate_const)
  have "rd32 img p = Inr 0" using rd(1) [of 0 0] by (simp add: z)
  moreover have "rd16 img (p + 6) = Inr 0" by (rule rd(3)) (simp_all add: z)
  moreover have "rd64 img (p + 8) = Inr 0" "rd64 img (p + 16) = Inr 0" by (rule rd(2); simp add: z)+
  moreover have "rd_bytes img (p + 4) 1 = Inr [0]"
    using rd_slice [OF assms(1), of 4 1] by (simp add: numeral_eq_Suc)
  ultimately show ?thesis using assms(2) by (simp add: parse_symbol_def null_view_def)
qed

lemma symtab_entries:
  assumes "length (strtab_bytes m) < 2 ^ 32"
  shows "length (fst (symtab_parts m)) = length (table_syms m)" "\<exists>t. strtab_bytes m = 0 # t"
    "i < length (table_syms m) \<Longrightarrow> \<exists>off rest. fst (symtab_parts m) ! i = entry_bytes (table_syms m ! i) off
       \<and> drop (unat off) (strtab_bytes m) = c_string (es_name (table_syms m ! i)) @ rest"
    "e \<in> set (fst (symtab_parts m)) \<Longrightarrow> length e = 24"
proof -
  obtain es b where p: "symtab_parts m = (es, b)" by fastforce
  have "thread sym_entry (table_syms m) strtab_init = (es, b)" using p by (simp add: symtab_parts_def)
  from names_thread [of sym_entry entry_bytes es_name, OF _ this] assms p
  have n: "(\<exists>t. b = strtab_init @ t) \<and> length es = length (table_syms m) \<and> (\<forall>i<length (table_syms m). \<exists>off rest.
      es ! i = entry_bytes (table_syms m ! i) off \<and> drop (unat off) b = c_string (es_name (table_syms m ! i)) @ rest)"
    by (simp add: sym_entry_def strtab_add_def entry_bytes_def strtab_bytes_def)
  then show "length (fst (symtab_parts m)) = length (table_syms m)" "\<exists>t. strtab_bytes m = 0 # t"
    "i < length (table_syms m) \<Longrightarrow> \<exists>off rest. fst (symtab_parts m) ! i = entry_bytes (table_syms m ! i) off
       \<and> drop (unat off) (strtab_bytes m) = c_string (es_name (table_syms m ! i)) @ rest"
    by (auto simp: p strtab_bytes_def strtab_init_def)
  show "e \<in> set (fst (symtab_parts m)) \<Longrightarrow> length e = 24"
    using n by (fastforce simp: p in_set_conv_nth)
qed

lemma length_concat_same: "(\<And>x. x \<in> set xs \<Longrightarrow> length x = n) \<Longrightarrow> length (concat xs) = n * length xs"
  by (induction xs) auto

lemma c_int_of_nat: "n < 2 ^ 31 \<Longrightarrow> c_int (of_nat n) = int n"
proof -
  assume n: "n < 2 ^ 31"
  then have "unat (of_nat n :: u32) = n" by (rule unat_small)
  then have "uint (of_nat n :: u32) = int n" by (metis uint_nat)
  then have "sint (of_nat n :: u32) = signed_take_bit 31 (int n)" by (simp add: sint_uint)
  also have "\<dots> = int n" using n by (intro signed_take_bit_int_eq_self) simp_all
  finally show ?thesis using n by (simp add: c_int_def unsigned_of_nat take_bit_nat_eq_self)
qed

lemma entry_count_written: "n * 24 < 2 ^ 31 \<Longrightarrow> entry_count (of_nat (n * 24)) 24 = n"
proof -
  assume n: "n * 24 < 2 ^ 31"
  then have "unat (of_nat (n * 24) :: u64) = n * 24" by (rule unat_small)
  then have u: "unat (of_nat (n * 24) div (24 :: u64)) = n" by (simp add: unat_div del: of_nat_mult)
  have "of_nat (unat (of_nat (n * 24) div (24 :: u64))) = of_nat (n * 24) div (24 :: u64)"
    by simp
  then have "of_nat (n * 24) div (24 :: u64) = of_nat n" unfolding u by (rule sym)
  then show ?thesis using n by (simp add: entry_count_def c_int_of_nat del: of_nat_mult)
qed

lemma parse_symtab_written:
  assumes img: "img = write_elf64_object m" "length img < 2 ^ 31" and ok: "list_all sym_ok (table_syms m)"
  shows "parse_symtab img (shdr_off m) 64 (sn_symtab (section_numbers m)) = Inr (null_view # map sym_view (table_syms m))"
proof -
  let ?sn = "section_numbers m" and ?hs = "section_headers m"
  note num = numbering_ok [of m, unfolded numbering_ok_def Let_def]
  obtain r1 where h1: "drop (shdr_off m + sn_symtab ?sn * 64) img = elf_write_shdr64 m (?hs ! sn_symtab ?sn) @ r1"
    using header_at [OF img(1), of "sn_symtab ?sn"] num by auto
  obtain r2 where h2: "drop (shdr_off m + sn_strtab ?sn * 64) img = elf_write_shdr64 m (?hs ! sn_strtab ?sn) @ r2"
    using header_at [OF img(1), of "sn_strtab ?sn"] num by auto
  note f1 = header_fields [OF h1] and f2 = header_fields [OF h2]
  have b: "length (symtab_bytes m) < 2 ^ 31" "length (strtab_bytes m) < 2 ^ 31"
    using chunk_bound(1) [OF img(1), of 9] chunk_bound(1) [OF img(1), of 10] img(2) by (simp_all add: chunk_shstrtab)
  then have "length (strtab_bytes m) < 2 ^ 32" by simp
  note st = symtab_entries [OF this]
  let ?es = "replicate 24 0 # fst (symtab_parts m)"
  have cat: "symtab_bytes m = concat (map (\<lambda>e. e) ?es)" by (simp add: symtab_bytes_def)
  have len: "\<And>e. e \<in> set ?es \<Longrightarrow> length e = 24" using st(4) by auto
  have n: "length (symtab_bytes m) = Suc (length (table_syms m)) * 24"
    unfolding cat using length_concat_same [of ?es 24] len st(1) by simp
  have ne: "symtab_bytes m \<noteq> []" "strtab_bytes m \<noteq> []" using n st(2) by auto
  have off: "file_offsets m ! 9 < 2 ^ 31" "file_offsets m ! 10 < 2 ^ 31"
    using chunk_bound(2) [OF img(1), of 9] chunk_bound(2) [OF img(1), of 10] ne img(2) by (simp_all add: chunk_shstrtab)
  have cnt: "entry_count (of_nat (length (symtab_bytes m))) 24 = Suc (length (table_syms m))"
    using entry_count_written b(1) unfolding n by blast
  obtain q where q: "drop (file_offsets m ! 10) img = strtab_bytes m @ q"
    using image_parts(3) [OF img(1), of 10] by (auto simp: chunk_shstrtab)
  obtain q' where q': "drop (file_offsets m ! 9) img = concat (map (\<lambda>e. e) ?es) @ q'"
    using image_parts(3) [OF img(1), of 9] by (auto simp: chunk_shstrtab cat)
  have ent: "\<exists>rest. drop (file_offsets m ! 9 + 24 * i) img = ?es ! i @ rest" if "i < Suc (length (table_syms m))" for i
    using concat_entry [of ?es "\<lambda>e. e" 24 i, OF len _ q'] that st(1) by simp
  have "traverse (\<lambda>i. parse_symbol img (file_offsets m ! 10) (file_offsets m ! 9 + i * 24)) [0..<Suc (length (table_syms m))]
      = Inr (null_view # map sym_view (table_syms m))"
  proof (rule traverse_upt)
    fix i assume i: "i < Suc (length (table_syms m))"
    obtain rest where e: "drop (file_offsets m ! 9 + i * 24) img = ?es ! i @ rest" using ent [OF i] by (auto simp: mult.commute)
    show "parse_symbol img (file_offsets m ! 10) (file_offsets m ! 9 + i * 24) = Inr ((null_view # map sym_view (table_syms m)) ! i)"
    proof (cases i)
      case 0
      from st(2) obtain t where "drop 0 (strtab_bytes m) = c_string [] @ t" by (auto simp: c_string_def)
      from read_string [OF q this] have "cstr img (file_offsets m ! 10) = Inr []" by (simp add: c_text_def)
      then show ?thesis using parse_null_symbol e 0 by simp
    next
      case (Suc k)
      then have k: "k < length (table_syms m)" using i by simp
      from st(3) [OF k] obtain o' r where x: "fst (symtab_parts m) ! k = entry_bytes (table_syms m ! k) o'"
        "drop (unat o') (strtab_bytes m) = c_string (es_name (table_syms m ! k)) @ r" by blast
      have ok': "sym_ok (table_syms m ! k)" using ok k by (simp add: list_all_length)
      from read_string [OF q x(2)] ok' have "cstr img (file_offsets m ! 10 + unat o') = Inr (es_name (table_syms m ! k))"
        by (simp add: sym_ok_def)
      then show ?thesis using parse_symbol_entry [OF _ _ ok'] e Suc x(1) k by simp
    qed
  qed simp
  then show ?thesis
    unfolding parse_symtab_def Let_def using num off
    by (simp add: f1 f2 cnt unat_small del: unat_of_nat)
qed

subsection \<open>Relocations\<close>

definition rela_view :: "asm_model \<Rightarrow> elf_reloc \<Rightarrow> rela" where
  "rela_view m r = \<lparr>rel_off = of_nat (er_off r), rel_sym = of_nat (sym_index m (er_sym r)), rel_type = er_type r,
     rel_add = word_of_int (er_add r)\<rparr>"

lemma rinfo_fields:
  "ucast (drop_bit 32 (push_bit 32 (of_nat n) OR ucast (t :: u32) :: u64)) = (of_nat n :: u32)"
  "ucast ((push_bit 32 a OR ucast (t :: u32) :: u64) AND 0xffffffff) = t"
proof -
  have "\<not> bit t (32 + n)" for n using bit_imp_le_length [of t "32 + n"] by auto
  then have "ucast (drop_bit 32 (push_bit 32 a OR ucast (t :: u32) :: u64)) = (ucast a :: u32)" for a :: u64
    by (intro bit_eqI) (simp add: bit_simps)
  moreover have "(ucast (of_nat n :: u64) :: u32) = of_nat n"
    by (simp add: unsigned_of_nat word_of_nat_eq_iff)
  ultimately show "ucast (drop_bit 32 (push_bit 32 (of_nat n) OR ucast (t :: u32) :: u64)) = (of_nat n :: u32)"
    by metis
  have m: "(0xffffffff :: u64) = mask 32" by (simp add: mask_eq_exp_minus_1)
  show "ucast ((push_bit 32 a OR ucast (t :: u32) :: u64) AND 0xffffffff) = t"
    unfolding m by (rule bit_eqI) (auto simp: bit_simps)
qed

lemma length_reloc_entry [simp]: "length (reloc_entry m r) = 24"
  by (simp add: reloc_entry_def)

lemma parse_rela_entry:
  assumes "drop p img = reloc_entry m r @ rest"
  shows "parse_rela img p = Inr (rela_view m r)"
proof -
  note rd = read_fields(2) [OF assms]
  have "rd64 img p = Inr (of_nat (er_off r))" using rd [of 0] by (simp add: reloc_entry_def)
  moreover have "rd64 img (p + 8) = Inr (push_bit 32 (of_nat (sym_index m (er_sym r))) OR ucast (er_type r))"
    "rd64 img (p + 16) = Inr (word_of_int (er_add r))" by (rule rd; simp add: reloc_entry_def)+
  ultimately show ?thesis by (simp add: parse_rela_def rela_view_def rinfo_fields del: drop_bit_or)
qed

definition attach :: "asm_model \<Rightarrow> nat \<times> nat \<times> nat \<times> elf_reloc list \<Rightarrow> sec list \<Rightarrow> sec list" where
  "attach m = (\<lambda>(i, j, c, rs) secs. secs[j := (secs ! j)\<lparr>sec_rel := map (rela_view m) rs\<rparr>])"

lemma attach_other:
  assumes "img = write_elf64_object m" "k < length (section_headers m)" "os_type (section_headers m ! k) \<noteq> SHT_RELA"
  shows "attach_relas img (shdr_off m) 64 k secs = Inr secs"
proof -
  obtain r1 where h1: "drop (shdr_off m + k * 64) img = elf_write_shdr64 m (section_headers m ! k) @ r1"
    using header_at [OF assms(1,2)] by auto
  show ?thesis using assms(3) header_fields(2) [OF h1] by (simp add: attach_relas_def)
qed

lemma attach_rela:
  assumes img: "img = write_elf64_object m" "length img < 2 ^ 31" and ok: "rela_header_ok m (k, j, c, rs)"
    and ty: "os_type (section_headers m ! k) = SHT_RELA" and len: "length secs = sn_count (section_numbers m)"
  shows "attach_relas img (shdr_off m) 64 k secs = Inr (attach m (k, j, c, rs) secs)"
proof -
  let ?h = "section_headers m ! k"
  from ok have o: "k < sn_count (section_numbers m)" "j < length secs" "c < 12" "os_info ?h = j" "os_ent ?h = 24"
    "os_size ?h = of_nat (length (rela_bytes m rs))" "os_off ?h = file_offsets m ! c"
    "snd (file_chunks m ! c) = rela_bytes m rs" by (auto simp: rela_header_ok_def len)
  have num: "length (section_headers m) = sn_count (section_numbers m)" "sn_count (section_numbers m) \<le> 14"
    using numbering_ok [of m] by (simp_all add: numbering_ok_def Let_def)
  obtain r1 where h1: "drop (shdr_off m + k * 64) img = elf_write_shdr64 m ?h @ r1"
    using header_at [OF img(1), of k] o(1) num(1) by auto
  note f = header_fields [OF h1]
  have j: "unat (of_nat j :: u32) = j" using o(2) len num(2) by (intro unat_small) simp
  have n: "length (rela_bytes m rs) = length rs * 24"
    unfolding rela_bytes_def by (subst length_concat_same [of _ 24]) auto
  have b: "length (rela_bytes m rs) < 2 ^ 31" using chunk_bound(1) [OF img(1) o(3)] o(8) img(2) by simp
  then have cnt: "entry_count (of_nat (length (rela_bytes m rs))) 24 = length rs"
    unfolding n by (rule entry_count_written)
  obtain q where q: "drop (file_offsets m ! c) img = concat (map (reloc_entry m) rs) @ q"
    using image_parts(3) [OF img(1) o(3)] o(8) by (auto simp: rela_bytes_def)
  have "traverse (\<lambda>r. parse_rela img (unat (of_nat (file_offsets m ! c) :: u64) + r * 24)) [0..<length rs] = Inr (map (rela_view m) rs)"
  proof (rule traverse_upt)
    fix r assume r: "r < length rs"
    then have "rela_bytes m rs \<noteq> []" using n by auto
    then have "file_offsets m ! c < 2 ^ 31" using chunk_bound(2) [OF img(1) o(3)] img(2) o(8) by simp
    then have u: "unat (of_nat (file_offsets m ! c) :: u64) = file_offsets m ! c" by (rule unat_small)
    obtain rest where "drop (file_offsets m ! c + 24 * r) img = reloc_entry m (rs ! r) @ rest"
      using concat_entry [of rs "reloc_entry m" 24 r, OF _ r q] by auto
    then have "drop (file_offsets m ! c + r * 24) img = reloc_entry m (rs ! r) @ rest" by (simp add: mult.commute)
    from parse_rela_entry [OF this]
    show "parse_rela img (unat (of_nat (file_offsets m ! c) :: u64) + r * 24) = Inr (map (rela_view m) rs ! r)"
      using r by (simp add: u)
  qed simp
  then show ?thesis
    unfolding attach_relas_def Let_def using o(2)
    by (simp add: f ty o(4,5,6,7) j cnt attach_def)
qed

lemma fold_err_filter:
  assumes "\<And>i s. i \<in> set is \<Longrightarrow> \<not> P i \<Longrightarrow> f i s = Inr s"
  shows "fold_err f is s = fold_err f (filter P is) s"
  using assms
proof (induction "is" arbitrary: s)
  case (Cons i xs)
  have "fold_err f xs = fold_err f (filter P xs)" by (rule ext) (use Cons in simp)
  then show ?case using Cons.prems by simp
qed simp

lemma attach_length [simp]: "length (attach m e secs) = length secs"
  by (simp add: attach_def split: prod.splits)

lemma fold_attach_length [simp]: "length (fold (attach m) es secs) = length secs"
  by (induction es arbitrary: secs) simp_all

lemma attach_all_written:
  assumes img: "img = write_elf64_object m" "length img < 2 ^ 31" and len: "length secs = sn_count (section_numbers m)"
  shows "fold_err (attach_relas img (shdr_off m) 64) [0..<sn_count (section_numbers m)] secs
    = Inr (fold (attach m) (rela_headers m) secs)"
proof -
  have num: "length (section_headers m) = sn_count (section_numbers m)"
    using numbering_ok [of m] by (simp add: numbering_ok_def Let_def)
  note flt = rela_headers_filter [of m, unfolded num]
  have ty: "os_type (section_headers m ! fst e) = SHT_RELA" if "e \<in> set (rela_headers m)" for e
    using arg_cong [OF flt, of set] that by auto
  have "fold_err (attach_relas img (shdr_off m) 64) (map fst es) ss = Inr (fold (attach m) es ss)"
    if "set es \<subseteq> set (rela_headers m)" "length ss = sn_count (section_numbers m)" for es ss
    using that
  proof (induction es arbitrary: ss)
    case (Cons e es)
    obtain k j c rs where e: "e = (k, j, c, rs)" by (metis surj_pair)
    have "rela_header_ok m e" using rela_headers_ok Cons.prems(1) by (auto simp: list_all_iff)
    then show ?case using attach_rela [OF img, of k j c rs ss] ty [of e] Cons by (simp add: e)
  qed simp
  from this [of "rela_headers m" secs] len
  show ?thesis
    by (subst fold_err_filter [where P = "\<lambda>i. os_type (section_headers m ! i) = SHT_RELA"])
      (simp_all add: flt attach_other [OF img(1)] num)
qed

subsection \<open>The symbol a relocation names\<close>

definition asm_ok :: "asm_model \<Rightarrow> bool" where
  "asm_ok m \<longleftrightarrow> list_all sym_ok (am_syms m)
     \<and> list_all (\<lambda>r. c_text (er_sym r) \<and> length (er_sym r) \<le> 255) (am_text_relocs m)"

lemma place_sym_ok: "sym_ok s \<Longrightarrow> sym_ok (place_sym sn s)"
  by (auto simp: place_sym_def sym_ok_def split: option.splits)

lemma add_undefs_names:
  assumes "list_all (\<lambda>r. length (er_sym r) \<le> 255) rs"
  shows "es_name ` set (add_undefs rs syms) = es_name ` set syms \<union> er_sym ` set rs"
  using assms by (induction rs arbitrary: syms) (auto simp: undef_sym_def)

lemma add_undefs_ok:
  "list_all (\<lambda>r. c_text (er_sym r)) rs \<Longrightarrow> list_all sym_ok syms \<Longrightarrow> list_all sym_ok (add_undefs rs syms)"
proof (induction rs arbitrary: syms)
  case (Cons r rs)
  have "sym_ok (undef_sym (er_sym r))"
    using Cons.prems(1) by (auto simp: sym_ok_def undef_sym_def c_text_def dest: in_set_takeD)
  then show ?case using Cons by simp
qed simp

lemma add_undefs_locals: "filter is_local (add_undefs rs syms) = filter is_local syms"
  by (induction rs arbitrary: syms) (simp_all add: is_local_def undef_sym_def elf_consts)

lemma table_syms_ok:
  assumes "asm_ok m"
  shows "list_all sym_ok (table_syms m)" "er_sym ` set (am_text_relocs m) \<subseteq> es_name ` set (all_syms m)"
proof -
  have "list_all sym_ok (placed_syms m)"
    using assms by (auto simp: asm_ok_def placed_syms_def list_all_iff place_sym_ok)
      (simp add: sym_ok_def text_section_sym_def c_text_def)
  moreover from this have "list_all sym_ok (all_syms m)"
    unfolding all_syms_def using assms by (intro add_undefs_ok) (simp_all add: asm_ok_def list_all_iff)
  ultimately show "list_all sym_ok (table_syms m)" by (auto simp: table_syms_def list_all_iff)
  show "er_sym ` set (am_text_relocs m) \<subseteq> es_name ` set (all_syms m)"
    unfolding all_syms_def using assms by (subst add_undefs_names) (auto simp: asm_ok_def list_all_iff)
qed

lemma pos_of_Some: "pos_of name xs = Some i \<Longrightarrow> i < length xs \<and> es_name (xs ! i) = name"
  by (induction xs arbitrary: i) (auto split: if_splits)

lemma pos_of_None: "pos_of name xs = None \<longleftrightarrow> name \<notin> es_name ` set xs"
  by (induction xs) auto

lemma sym_index_names:
  assumes "name \<in> es_name ` set (all_syms m)"
  shows "sym_index m name < Suc (length (table_syms m))"
    "sym_name ((null_view # map sym_view (table_syms m)) ! sym_index m name) = name"
proof -
  let ?ls = "filter is_local (all_syms m)" and ?gs = "filter (\<lambda>s. \<not> is_local s) (all_syms m)"
  have l: "filter is_local (placed_syms m) = ?ls" by (simp add: all_syms_def add_undefs_locals)
  have t: "table_syms m = ?ls @ ?gs" by (simp add: table_syms_def l)
  have "(\<exists>i. sym_index m name = i + 1 \<and> i < length (table_syms m) \<and> es_name (table_syms m ! i) = name)"
  proof (cases "pos_of name ?ls")
    case (Some i)
    then show ?thesis using pos_of_Some [OF Some] by (simp add: sym_index_def t nth_append)
  next
    case None
    then have "name \<in> es_name ` set ?gs" using assms unfolding pos_of_None by auto
    then obtain j where j: "pos_of name ?gs = Some j" using pos_of_None [of name ?gs] by (cases "pos_of name ?gs") auto
    then show ?thesis using None pos_of_Some [OF j] by (simp add: sym_index_def symtab_info_def t l nth_append)
  qed
  then show "sym_index m name < Suc (length (table_syms m))"
    "sym_name ((null_view # map sym_view (table_syms m)) ! sym_index m name) = name"
    by (auto simp: sym_view_def)
qed

subsection \<open>The object as the linker sees it\<close>

definition reloc_seen :: "obj \<Rightarrow> elf_reloc \<Rightarrow> rela \<Rightarrow> bool" where
  "reloc_seen ob r rl \<longleftrightarrow> rel_off rl = of_nat (er_off r) \<and> rel_type rl = er_type r \<and> rel_add rl = word_of_int (er_add r)
     \<and> unat (rel_sym rl) < length (o_syms ob) \<and> sym_name (o_syms ob ! unat (rel_sym rl)) = er_sym r"

definition section_seen :: "obj \<Rightarrow> nat option \<Rightarrow> string \<Rightarrow> out_slot \<Rightarrow> u8 list \<Rightarrow> bool" where
  "section_seen ob num name slot bytes \<longleftrightarrow> (case num of
     None \<Rightarrow> bytes = []
   | Some k \<Rightarrow> k < length (o_secs ob) \<and> sec_name (o_secs ob ! k) = name \<and> sec_out (o_secs ob ! k) = slot
       \<and> sec_data (o_secs ob ! k) = (if bytes = [] then None else Some bytes))"

definition linker_sees :: "asm_model \<Rightarrow> obj \<Rightarrow> bool" where
  "linker_sees m ob \<longleftrightarrow>
     section_seen ob (Some 1) ''.text'' OUT_TEXT (am_text m)
     \<and> section_seen ob (sn_data (section_numbers m)) ''.data'' OUT_DATA (am_data m)
     \<and> section_seen ob (sn_rodata (section_numbers m)) ''.rodata'' OUT_RODATA (am_rodata m)
     \<and> list_all2 (reloc_seen ob) (am_text_relocs m) (sec_rel (o_secs ob ! 1))
     \<and> o_syms ob = null_view # map sym_view (table_syms m)"

definition header_named :: "asm_model \<Rightarrow> nat option \<Rightarrow> string \<Rightarrow> u64 \<Rightarrow> nat \<Rightarrow> bool" where
  "header_named m num name flags c \<longleftrightarrow> (case num of None \<Rightarrow> snd (file_chunks m ! c) = []
     | Some k \<Rightarrow> k < length (section_headers m) \<and> os_name (section_headers m ! k) = name
         \<and> os_type (section_headers m ! k) = SHT_PROGBITS \<and> os_flags (section_headers m ! k) = flags
         \<and> os_size (section_headers m ! k) = of_nat (length (snd (file_chunks m ! c))) \<and> chunk_no name = Some c)"

lemma chunk_first:
  "snd (file_chunks m ! 0) = am_text m" "snd (file_chunks m ! 1) = am_data m" "snd (file_chunks m ! 2) = am_rodata m"
  by (simp_all add: file_chunks_def Let_def split: prod.splits)

lemma headers_named:
  "header_named m (Some 1) ''.text'' (SHF_ALLOC OR SHF_EXECINSTR) 0"
  "header_named m (sn_data (section_numbers m)) ''.data'' (SHF_ALLOC OR SHF_WRITE) 1"
  "header_named m (sn_rodata (section_numbers m)) ''.rodata'' SHF_ALLOC 2"
  by (simp_all add: header_named_def section_headers_def section_numbers_def next_num_def Let_def chunk_first
      chunk_first [unfolded One_nat_def] chunk_no_def)

lemma attach_keeps:
  "k < length secs \<Longrightarrow> \<exists>rel. fold (attach m) es secs ! k = (secs ! k)\<lparr>sec_rel := rel\<rparr>"
proof (induction es arbitrary: secs)
  case (Cons e es)
  from Cons.IH [of "attach m e secs"] Cons.prems
  obtain rel where r: "fold (attach m) es (attach m e secs) ! k = (attach m e secs ! k)\<lparr>sec_rel := rel\<rparr>" by auto
  obtain i j c rs where e: "e = (i, j, c, rs)" by (metis surj_pair)
  have "attach m e secs ! k = (secs ! k)\<lparr>sec_rel := if k = j then map (rela_view m) rs else sec_rel (secs ! k)\<rparr>"
    using Cons.prems by (simp add: attach_def e nth_list_update)
  then show ?case using r by auto
next
  case Nil
  show ?case by (rule exI [of _ "sec_rel (secs ! k)"]) simp
qed

lemma text_rel_written:
  assumes "length secs = sn_count (section_numbers m)" "sec_rel (secs ! 1) = []"
  shows "sec_rel (fold (attach m) (rela_headers m) secs ! 1) = map (rela_view m) (am_text_relocs m)"
  using assms
  by (simp add: rela_headers_def section_numbers_def next_num_def Let_def attach_def nth_list_update)

lemma section_seen_written:
  assumes img: "img = write_elf64_object m" "length img < 2 ^ 31" and h: "header_named m num name flags c" and c: "c < 12"
    and slot: "classify_section name SHT_PROGBITS flags = slot"
    and secs: "o_secs ob = fold (attach m) (rela_headers m) (map (sec_view m) (section_headers m))"
  shows "section_seen ob num name slot (snd (file_chunks m ! c))"
proof (cases num)
  case (Some k)
  with h have k: "k < length (section_headers m)" and f: "os_name (section_headers m ! k) = name"
      "os_type (section_headers m ! k) = SHT_PROGBITS" "os_flags (section_headers m ! k) = flags"
      "os_size (section_headers m ! k) = of_nat (length (snd (file_chunks m ! c)))" "chunk_no name = Some c"
    by (simp_all add: header_named_def)
  from attach_keeps [of k "map (sec_view m) (section_headers m)" m "rela_headers m"] k
  obtain rel where r: "o_secs ob ! k = (sec_view m (section_headers m ! k))\<lparr>sec_rel := rel\<rparr>" by (auto simp: secs)
  have "length (snd (file_chunks m ! c)) < 2 ^ 31" using chunk_bound(1) [OF img(1) c] img(2) by simp
  then have u: "unat (of_nat (length (snd (file_chunks m ! c))) :: u64) = length (snd (file_chunks m ! c))" by (rule unat_small)
  have "(of_nat (length (snd (file_chunks m ! c))) :: u64) = 0 \<longleftrightarrow> snd (file_chunks m ! c) = []"
    unfolding unat_eq_0 [symmetric] u by simp
  moreover have "k < length (o_secs ob)" using k by (simp add: secs)
  ultimately show ?thesis
    using Some slot by (simp add: section_seen_def r sec_view_def f elf_consts)
qed (use h in \<open>simp add: header_named_def section_seen_def\<close>)

lemma filter_upt_single: "k < n \<Longrightarrow> filter (\<lambda>i. i = k) [0..<n] = [k]"
  by (induction n) (auto simp: less_Suc_eq)

lemma parse_object_written:
  assumes img: "img = write_elf64_object m" "length img < 2 ^ 31" and ok: "asm_ok m"
  shows "parse_object name img (int (length img)) = Inr \<lparr>o_name = name,
      o_secs = fold (attach m) (rela_headers m) (map (sec_view m) (section_headers m)),
      o_syms = null_view # map sym_view (table_syms m)\<rparr>"
proof -
  let ?sn = "section_numbers m" and ?hs = "section_headers m"
  note num = numbering_ok [of m, unfolded numbering_ok_def Let_def]
  obtain t where t: "drop 0 img = object_header m @ t" using image_parts(1) [OF img(1)] by auto
  note rd = read_fields [OF t]
  have l: "64 \<le> length img" using t by (metis drop0 length_append length_object_header le_add1)
  have f: "rd64 img 40 = Inr (of_nat (shdr_off m))" "rd16 img 58 = Inr 64"
      "rd16 img 60 = Inr (of_nat (sn_count ?sn))" "rd16 img 62 = Inr (of_nat (sn_shstr ?sn))"
    using rd(2) [of 40] rd(3) [of 58 64] rd(3) [of 60] rd(3) [of 62] by (simp_all add: object_header_def elf_ident_def)
  have ident: "rd_bytes img 0 5 = Inr [0x7f, 0x45, 0x4c, 0x46, 2]"
    using rd_slice [OF t, of 0 5] by (simp add: object_header_def elf_ident_def)
  have sh: "unat (of_nat (shdr_off m) :: u64) = shdr_off m"
    using image_parts(2) [OF img(1)] img(2) by (intro unat_small) simp
  have n16: "unat (of_nat k :: u16) = k" if "k \<le> 14" for k using that by (simp add: unat_of_nat)
  have sc: "unat (of_nat (sn_count ?sn) :: u16) = sn_count ?sn" "unat (of_nat (sn_shstr ?sn) :: u16) = sn_shstr ?sn"
    using num by (auto intro!: n16)
  obtain r1 where h1: "drop (shdr_off m + sn_shstr ?sn * 64) img = elf_write_shdr64 m (?hs ! sn_shstr ?sn) @ r1"
    using header_at [OF img(1), of "sn_shstr ?sn"] num by auto
  have sho: "rd64 img (shdr_off m + sn_shstr ?sn * 64 + 24) = Inr (of_nat (file_offsets m ! 11))"
    using header_fields(4) [OF h1] num by simp
  have "snd (file_chunks m ! 11) \<noteq> []"
  proof -
    have "snd (shstrtab_parts m) \<noteq> []"
      using names_thread [of strtab_add "\<lambda>_ off. off" "\<lambda>s. s" "section_names m" strtab_init "fst (shstrtab_parts m)" "snd (shstrtab_parts m)"]
        chunk_bound(1) [OF img(1), of 11] img(2)
      by (auto simp: strtab_add_def strtab_init_def shstrtab_parts_def chunk_shstrtab)
    then show ?thesis by (simp add: chunk_shstrtab)
  qed
  then have tab: "unat (of_nat (file_offsets m ! 11) :: u64) = file_offsets m ! 11"
    using chunk_bound(2) [OF img(1), of 11] img(2) by (intro unat_small) simp
  have secs: "traverse (\<lambda>i. parse_section img (file_offsets m ! 11) (shdr_off m + i * 64)) [0..<sn_count ?sn] = Inr (map (sec_view m) ?hs)"
    using num by (intro traverse_upt) (simp_all add: parse_section_written [OF img])
  have st: "symtab_index (map (sec_view m) ?hs) = Some (sn_symtab ?sn)"
  proof -
    have "filter (\<lambda>i. sec_type (map (sec_view m) ?hs ! i) = SHT_SYMTAB) (rev [0..<length ?hs]) = [sn_symtab ?sn]"
    proof -
      have "filter (\<lambda>i. sec_type (map (sec_view m) ?hs ! i) = SHT_SYMTAB) [0..<length ?hs] = filter (\<lambda>i. i = sn_symtab ?sn) [0..<length ?hs]"
        using num by (intro filter_cong) (auto simp: sec_view_def list_all_iff)
      also have "\<dots> = [sn_symtab ?sn]" using num by (simp add: filter_upt_single)
      finally show ?thesis by (simp add: rev_filter [symmetric])
    qed
    then show ?thesis by (simp add: symtab_index_def)
  qed
  show ?thesis
    unfolding parse_object_def Let_def
    using l parse_symtab_written [OF img table_syms_ok(1) [OF ok]] attach_all_written [OF img, of "map (sec_view m) ?hs"] num
    by (simp add: ident elf_magic_def f sh sc sho tab secs st)
qed

lemma written_object_parses:
  assumes "asm_ok m" "length (write_elf64_object m) < 2 ^ 31"
  shows "\<exists>ob. parse_object name (write_elf64_object m) (int (length (write_elf64_object m))) = Inr ob
    \<and> linker_sees m ob"
proof (intro exI conjI)
  let ?ob = "\<lparr>o_name = name, o_secs = fold (attach m) (rela_headers m) (map (sec_view m) (section_headers m)),
      o_syms = null_view # map sym_view (table_syms m)\<rparr>"
  show "parse_object name (write_elf64_object m) (int (length (write_elf64_object m))) = Inr ?ob"
    by (rule parse_object_written [OF refl assms(2,1)])
  note seen = section_seen_written [OF refl assms(2) headers_named(1), of OUT_TEXT ?ob]
    section_seen_written [OF refl assms(2) headers_named(2), of OUT_DATA ?ob]
    section_seen_written [OF refl assms(2) headers_named(3), of OUT_RODATA ?ob]
  have rel: "sec_rel (o_secs ?ob ! 1) = map (rela_view m) (am_text_relocs m)"
    using text_rel_written [of "map (sec_view m) (section_headers m)" m] headers_named(1) [of m] numbering_ok [of m]
    by (simp add: header_named_def numbering_ok_def Let_def sec_view_def)
  have idx: "reloc_seen ?ob r (rela_view m r)" if "r \<in> set (am_text_relocs m)" for r
  proof -
    have "er_sym r \<in> es_name ` set (all_syms m)" using table_syms_ok(2) [OF assms(1)] that by auto
    note i = sym_index_names [OF this]
    have "length (symtab_bytes m) \<le> length (write_elf64_object m)"
      using chunk_bound(1) [OF refl, of 9 m] by (simp add: chunk_shstrtab)
    moreover have "Suc (length (table_syms m)) \<le> length (symtab_bytes m)"
    proof -
      have "length (strtab_bytes m) < 2 ^ 32"
        using chunk_bound(1) [OF refl, of 10 m] assms(2) by (simp add: chunk_shstrtab)
      note s = symtab_entries(1,4) [OF this]
      show ?thesis using length_concat_same [of "fst (symtab_parts m)" 24, OF s(2)] s(1) by (simp add: symtab_bytes_def)
    qed
    ultimately have "unat (of_nat (sym_index m (er_sym r)) :: u32) = sym_index m (er_sym r)"
      using i(1) assms(2) by (intro unat_small) simp
    then show ?thesis using i by (simp add: reloc_seen_def rela_view_def)
  qed
  have "list_all2 (reloc_seen ?ob) (am_text_relocs m) (sec_rel (o_secs ?ob ! 1))"
    unfolding rel by (simp add: list_all2_conv_all_nth idx)
  then show "linker_sees m ?ob"
    using seen by (simp add: linker_sees_def chunk_first chunk_first [unfolded One_nat_def] classify_section_def strncmp_eq_def elf_consts)
qed

lemma model_ok_asm_ok: "model_ok m \<Longrightarrow> asm_ok m"
  by (auto simp: model_ok_def asm_ok_def list_all_iff reloc_ok_def sym_inside_def sym_ok_def)

text \<open>C9: The linker reads every object the assembler writes: for every assembly text that
  assembles, parsing the written bytes gives back the contents of .text, .data and .rodata in
  sections of the right output slot, the symbol table in the order locals, globals, undefined, and
  for each relocation of .text an entry with its offset, type and addend whose symbol index names
  the symbol of the relocation.\<close>

theorem written_object_read_back:
  assumes "elf_write_object asm_text target = Inr (Some img)" "c_text asm_text" "length img < 2 ^ 31"
  shows "\<exists>m ob. parse_asm_x64 asm_text = Inr m \<and> parse_object name img (int (length img)) = Inr ob \<and> linker_sees m ob"
proof -
  obtain m where m: "parse_asm_x64 asm_text = Inr m" "img = write_elf64_object m"
    using assms(1) by (auto simp: elf_write_object_def split: if_splits)
  have "asm_ok m" by (rule model_ok_asm_ok [OF parsed_model_invariant [OF m(1) assms(2)]])
  from written_object_parses [OF this, of name] assms(3) m show ?thesis by blast
qed

definition demo_image :: "u8 list" where
  "demo_image = write_elf64_object demo_model"

lemma demo_written: "elf_write_object demo_asm ''x86_64-elf'' = Inr (Some demo_image)"
  by (simp add: elf_write_object_def demo_parsed demo_image_def)

lemma demo_image_length: "length demo_image = 744"
  by code_simp

theorem written_object_read_back_witness:
  "\<exists>ob. parse_object ''a.o'' demo_image (int (length demo_image)) = Inr ob \<and> linker_sees demo_model ob"
  using written_object_read_back [OF demo_written demo_text, of "''a.o''"] by (simp add: demo_image_length demo_parsed)

end
