(* ===== verification/Asm_Jumps.thy ===== *)
theory Asm_Jumps
  imports Asm_Props
begin

text \<open>
  Local jumps of the internal assembler: in the text of one function every jump whose label the
  function defines, before or after the jump, carries the distance from the end of its field to
  the label.
\<close>

definition field :: "u8 list \<Rightarrow> nat \<Rightarrow> u8 list" where
  "field bs off = take 4 (drop off bs)"

text \<open>The displacement of a jump field at \<open>off\<close> to the label offset \<open>t\<close>, both in a function that
  starts at \<open>fs\<close>.\<close>

definition jump_disp :: "nat \<Rightarrow> int \<Rightarrow> nat \<Rightarrow> int" where
  "jump_disp fs t off = t - (int off - int fs + 4)"

type_synonym site = "nat \<times> string"

definition apart :: "site list \<Rightarrow> bool" where
  "apart sites \<longleftrightarrow> sorted_wrt (\<lambda>a b. fst a + 4 \<le> fst b) sites"

lemma apart_cases:
  assumes "apart sites" "a \<in> set sites" "b \<in> set sites"
  shows "a = b \<or> fst a + 4 \<le> fst b \<or> fst b + 4 \<le> fst a"
  using assms unfolding apart_def by (induction sites) auto

lemma field_patch:
  assumes "off + 4 \<le> length bs"
  shows "field (bb_patch32le off v bs) off = bytes32 v"
    "off' + 4 \<le> off \<or> off + 4 \<le> off' \<Longrightarrow> off' + 4 \<le> length bs \<Longrightarrow> field (bb_patch32le off v bs) off' = field bs off'"
proof -
  have b: "length (bytes32 v) = 4" by simp
  show "field (bb_patch32le off v bs) off = bytes32 v"
    using assms b by (simp add: field_def bb_patch32le_def)
  assume d: "off' + 4 \<le> off \<or> off + 4 \<le> off'" "off' + 4 \<le> length bs"
  then show "field (bb_patch32le off v bs) off' = field bs off'"
  proof (elim disjE)
    assume "off' + 4 \<le> off"
    then show ?thesis using assms by (simp add: field_def bb_patch32le_def take_drop min_def flip: drop_take)
  next
    assume o: "off + 4 \<le> off'"
    then have "drop off' (take off bs @ bytes32 v @ drop (off + 4) bs) = drop (off' - off - 4) (drop (off + 4) bs)"
      using assms b by simp
    then show ?thesis using o by (simp add: field_def bb_patch32le_def)
  qed
qed

lemma field_append: "off + 4 \<le> length bs \<Longrightarrow> field (bs @ cs) off = field bs off"
  by (simp add: field_def)

lemma patched_fields:
  assumes "apart sites" "set pts \<subseteq> set sites" "list_all (\<lambda>s. fst s + 4 \<le> length bs) sites" "site \<in> set sites"
  shows "field (fold (apply_patch name fs) pts bs) (fst site) =
    (if snd site = name \<and> site \<in> set pts
     then bytes32 (i32 (int (length bs) - int fs) - i32 (int (fst site) - int fs + 4)) else field bs (fst site))"
  using assms
proof (induction pts arbitrary: bs)
  case (Cons pt pts)
  let ?bs = "apply_patch name fs pt bs"
  have pt: "pt \<in> set sites" "fst pt + 4 \<le> length bs" "fst site + 4 \<le> length bs"
    using Cons.prems by (auto simp: list_all_iff)
  have l: "length ?bs = length bs" using pt by (simp add: apply_patch_def length_patch32)
  have IH: "field (fold (apply_patch name fs) pts ?bs) (fst site) =
    (if snd site = name \<and> site \<in> set pts
     then bytes32 (i32 (int (length bs) - int fs) - i32 (int (fst site) - int fs + 4)) else field ?bs (fst site))"
    using Cons.IH [of ?bs] Cons.prems l by simp
  have "field ?bs (fst site) = (if snd site = name \<and> site = pt
     then bytes32 (i32 (int (length bs) - int fs) - i32 (int (fst site) - int fs + 4)) else field bs (fst site))"
    using apart_cases [OF Cons.prems(1) pt(1) Cons.prems(4)] pt field_patch(1) [OF pt(2)] field_patch(2) [OF pt(2), of "fst site"]
    by (auto simp: apply_patch_def)
  then show ?case using IH by auto
qed simp

subsection \<open>The invariant\<close>

text \<open>A jump whose label is known has its displacement; the others wait in the patch list.\<close>

definition site_ok :: "nat \<Rightarrow> u8 list \<Rightarrow> enc_ctx \<Rightarrow> site \<Rightarrow> bool" where
  "site_ok fs bs ctx s \<longleftrightarrow> (case map_of (cx_labels ctx) (snd s) of
     None \<Rightarrow> s \<in> set (cx_patches ctx)
   | Some t \<Rightarrow> field bs (fst s) = bytes32 (jump_disp fs t (fst s)))"

definition jumps_ok :: "nat \<Rightarrow> u8 list \<Rightarrow> enc_ctx \<Rightarrow> site list \<Rightarrow> bool" where
  "jumps_ok fs bs ctx sites \<longleftrightarrow>
     apart sites \<and> list_all (\<lambda>s. fs \<le> fst s \<and> fst s + 4 \<le> length bs) sites
     \<and> set (cx_patches ctx) \<subseteq> set sites
     \<and> list_all (\<lambda>l. 0 \<le> snd l) (cx_labels ctx)
     \<and> list_all (site_ok fs bs ctx) sites"

lemma jumps_ok_append:
  assumes "jumps_ok fs bs ctx sites"
  shows "jumps_ok fs (bs @ cs) ctx sites"
proof -
  have "site_ok fs (bs @ cs) ctx s" if "s \<in> set sites" for s
    using assms that by (auto simp: jumps_ok_def site_ok_def list_all_iff field_append split: option.splits)
  then show ?thesis using assms by (auto simp: jumps_ok_def list_all_iff)
qed

lemma jumps_ok_label:
  assumes "jumps_ok fs bs ctx sites" "define_label name fs bs ctx = (bs', ctx')" "name \<notin> fst ` set (cx_labels ctx)"
    "fs \<le> length bs" "length bs < 2 ^ 31"
  shows "jumps_ok fs bs' ctx' sites"
proof -
  have J: "apart sites" "list_all (\<lambda>s. fs \<le> fst s \<and> fst s + 4 \<le> length bs) sites" "set (cx_patches ctx) \<subseteq> set sites"
    "list_all (\<lambda>l. 0 \<le> snd l) (cx_labels ctx)"
    "list_all (site_ok fs bs ctx) sites"
    using assms(1) by (simp_all add: jumps_ok_def)
  have pin: "patches_in ctx (length bs)" using J(2,3) by (auto simp: patches_in_def list_all_iff)
  note f = define_label_facts [OF assms(2) pin]
  let ?t = "int (length bs) - int fs"
  have t: "i32 ?t = ?t" using assms(4,5) by (intro i32_small) simp_all
  have bs': "bs' = fold (apply_patch name fs) (cx_patches ctx) bs" using assms(2) by (simp add: define_label_def)
  have new: "map_of (cx_labels ctx') l = (case map_of (cx_labels ctx) l of Some u \<Rightarrow> Some u | None \<Rightarrow> if l = name then Some ?t else None)" for l
    unfolding f(3) t by (simp add: map_add_def split: option.split)
  have no: "map_of (cx_labels ctx) name = None" using assms(3) by (simp add: map_of_eq_None_iff)
  have site: "site_ok fs bs' ctx' s" if s: "s \<in> set sites" for s
  proof -
    have b: "fs \<le> fst s" "fst s + 4 \<le> length bs" using J(2) s by (auto simp: list_all_iff)
    have "field bs' (fst s) = (if snd s = name \<and> s \<in> set (cx_patches ctx)
        then bytes32 (i32 ?t - i32 (int (fst s) - int fs + 4)) else field bs (fst s))"
      unfolding bs' by (rule patched_fields [OF J(1,3) _ s]) (use J(2) in \<open>auto simp: list_all_iff\<close>)
    moreover have "i32 (int (fst s) - int fs + 4) = int (fst s) - int fs + 4" using b assms(5) by (intro i32_small) simp_all
    ultimately have fld: "field bs' (fst s) = (if snd s = name \<and> s \<in> set (cx_patches ctx)
        then bytes32 (jump_disp fs ?t (fst s)) else field bs (fst s))" by (simp add: t jump_disp_def)
    have "site_ok fs bs ctx s" using J(5) s by (auto simp: list_all_iff)
    then show ?thesis using fld no by (auto simp: site_ok_def new f(2) split: option.splits)
  qed
  have "0 \<le> ?t" using assms(4) by simp
  then have "list_all (\<lambda>l. 0 \<le> snd l) (cx_labels ctx')" using J(4) unfolding f(3) t by simp
  moreover have "list_all (site_ok fs bs' ctx') sites" using site by (simp add: list_all_iff)
  ultimately show ?thesis using J(1-3) f(1,2) by (simp add: jumps_ok_def)
qed

subsection \<open>Lines of a function\<close>

text \<open>The label of a jump instruction, for a line that is one.\<close>

definition is_plain :: "string \<Rightarrow> bool" where
  "is_plain p \<longleftrightarrow> p \<noteq> [] \<and> hd p \<notin> set [CHR 0x0A, CHR ''#'', CHR ''.'']
     \<and> char_at (snd (span_max 255 [CHR '':'', CHR '' '', CHR 0x09] p)) 0 \<noteq> CHR '':''
     \<and> char_at (snd (span_max 255 [CHR '':'', CHR '' '', CHR 0x0A] p)) 0 \<noteq> CHR '':''"

definition jump_label :: "string \<Rightarrow> string option" where
  "jump_label l =
     (let p = skip_ws (take 1023 l); (word, q) = span_max 31 [CHR '' '', CHR 0x09, CHR 0x0A] p
      in if is_plain p \<and> word \<in> set [''je'', ''jne'', ''jmp''] then
           Some (fst (span_max 63 [CHR 0x0A, CHR '' ''] (skip_ws q)))
         else None)"

definition new_site :: "string \<Rightarrow> u8 list \<Rightarrow> site list" where
  "new_site l bs = (case jump_label l of None \<Rightarrow> [] | Some lab \<Rightarrow> [(length bs - 4, lab)])"

fun jump_sites :: "string list \<Rightarrow> asm_state \<Rightarrow> site list" where
  "jump_sites [] st = []"
| "jump_sites (l # ls) st = (case asm_line l st of Inl _ \<Rightarrow> []
     | Inr st' \<Rightarrow> new_site l (am_text (as_model st')) @ jump_sites ls st')"

text \<open>A line that stays inside the function: no section switch, no \<^verbatim>\<open>.type\<close>, no empty label.\<close>

definition body_line :: "string \<Rightarrow> bool" where
  "body_line l \<longleftrightarrow>
     (let lp = skip_ws (take 1023 l); (lname, q) = span_max 255 [CHR '':'', CHR '' '', CHR 0x09] lp
      in section_switch lp = None \<and> \<not> starts_with lp ''.type '' \<and> \<not> (lname = [] \<and> char_at q 0 = CHR '':''))"

definition in_body :: "nat \<Rightarrow> asm_state \<Rightarrow> bool" where
  "in_body fs st \<longleftrightarrow> as_sec st = SEC_TEXT \<and> as_in_fn st \<and> as_func st = [] \<and> as_fn_start st = fs
     \<and> fs \<le> length (am_text (as_model st)) \<and> patches_in (as_ctx st) (length (am_text (as_model st)))"

abbreviation st_text :: "asm_state \<Rightarrow> u8 list" where "st_text st \<equiv> am_text (as_model st)"

text \<open>The four things a line of a body can do to the text and the labels.\<close>

inductive body_effect :: "nat \<Rightarrow> string \<Rightarrow> asm_state \<Rightarrow> asm_state \<Rightarrow> bool" for fs l st st' where
  Quiet: "jump_label l = None \<Longrightarrow> st_text st' = st_text st \<Longrightarrow> as_ctx st' = as_ctx st \<Longrightarrow> body_effect fs l st st'"
| Label: "jump_label l = None \<Longrightarrow> define_label name fs (st_text st) (as_ctx st) = (st_text st', as_ctx st')
    \<Longrightarrow> body_effect fs l st st'"
| Code: "jump_label l = None \<Longrightarrow> st_text st' = st_text st @ bs \<Longrightarrow> as_ctx st' = as_ctx st \<Longrightarrow> body_effect fs l st st'"
| Jump: "jump_label l = Some lab \<Longrightarrow> enc_jump mnem ops fs (am_out (as_model st)) (as_ctx st) = Inr (am_out (as_model st'), as_ctx st')
    \<Longrightarrow> lab = fst (span_max 63 [CHR 0x0A, CHR '' ''] ops) \<Longrightarrow> body_effect fs l st st'"

inductive_cases body_effectE: "body_effect fs l st st'"

lemma jump_mnems:
  assumes "mnem \<in> set [''je'', ''jne'', ''jmp'']"
  shows "encode_insn mnem p st = None"
proof -
  from assms consider "mnem = ''je''" | "mnem = ''jne''" | "mnem = ''jmp''" by auto
  then show ?thesis
    by cases (simp_all add: encode_insn_def x87_insn_def sse_insn_def move_insn_def alu_insn_def starts_with_def
        is_cvt_def fbin_table_def fmem_table_def)
qed

lemma normal_jump: "normal_mnem word p \<in> set [''je'', ''jne'', ''jmp''] \<longleftrightarrow> word \<in> set [''je'', ''jne'', ''jmp'']"
proof (cases "is_suffixless_gp word")
  case True
  have "word @ [c] \<notin> set [''je'', ''jne'', ''jmp'']" for c
  proof
    assume "word @ [c] \<in> set [''je'', ''jne'', ''jmp'']"
    then have "butlast (word @ [c]) \<in> butlast ` set [''je'', ''jne'', ''jmp'']" by (rule imageI)
    then have "word \<in> set [''j'', ''jn'', ''jm'']" by simp
    then show False using True by (auto simp: is_suffixless_gp_def)
  qed
  moreover have "word \<notin> set [''je'', ''jne'', ''jmp'']" using True by (auto simp: is_suffixless_gp_def)
  ultimately show ?thesis using True by (simp add: normal_mnem_def)
qed (simp add: normal_mnem_def)

lemma not_plain: "\<not> is_plain (skip_ws (take 1023 l)) \<Longrightarrow> jump_label l = None"
  by (simp add: jump_label_def Let_def split: prod.splits)

text \<open>An instruction line, by the encoder's own case distinction.\<close>

lemma encode_line_effect:
  assumes e: "x64_encode_line (take 1023 l) fs (am_out (as_model st)) (as_ctx st) = Inr (am_out (as_model st'), as_ctx st')"
    and c: "c_text l" and p: "skip_ws (take 1023 l) \<noteq> []" "hd (skip_ws (take 1023 l)) \<notin> set [CHR ''#'', CHR ''.'']"
    and q: "char_at (snd (span_max 255 [CHR '':'', CHR '' '', CHR 0x09] (skip_ws (take 1023 l)))) 0 \<noteq> CHR '':''"
  shows "body_effect fs l st st'"
proof -
  let ?p = "skip_ws (take 1023 l)" and ?nl = "[CHR '':'', CHR '' '', CHR 0x0A]"
  have cp: "c_text ?p" using c by simp
  obtain name r where s: "span_max 255 ?nl ?p = (name, r)" by fastforce
  obtain word r1 where w: "span_max 31 [CHR '' '', CHR 0x09, CHR 0x0A] ?p = (word, r1)" by fastforce
  have ops: "c_text (skip_ws r1)" using c_text_span(2) [OF w cp] by simp
  consider "hd ?p = CHR 0x0A" | "hd ?p \<noteq> CHR 0x0A" "char_at r 0 = CHR '':''" | "hd ?p \<noteq> CHR 0x0A" "char_at r 0 \<noteq> CHR '':''" by blast
  then show ?thesis
  proof cases
    case 1
    then have "jump_label l = None" by (intro not_plain) (simp add: is_plain_def)
    then show ?thesis using e 1 by (auto simp: x64_encode_line_def Let_def intro: Quiet)
  next
    case 2
    then have n: "jump_label l = None" by (intro not_plain) (simp add: is_plain_def s)
    obtain bs ctx1 where d: "define_label name fs (st_text st) (as_ctx st) = (bs, ctx1)" by fastforce
    have "am_out (as_model st') = (am_out (as_model st))\<lparr>eo_text := bs\<rparr>" "as_ctx st' = ctx1"
      using e 2 p by (auto simp: x64_encode_line_def Let_def s d)
    then show ?thesis using d by (intro Label [OF n]) simp
  next
    case 3
    have pl: "is_plain ?p" using p q 3 s by (simp add: is_plain_def)
    let ?m = "normal_mnem word (skip_ws r1)"
    show ?thesis
    proof (cases "word \<in> set [''je'', ''jne'', ''jmp'']")
      case True
      then have m: "?m \<in> set [''je'', ''jne'', ''jmp'']" by (simp only: normal_jump)
      have "enc_jump ?m (skip_ws r1) fs (am_out (as_model st)) (as_ctx st) = Inr (am_out (as_model st'), as_ctx st')"
        using e 3 p jump_mnems [OF m] m by (simp add: x64_encode_line_def Let_def s w)
      then show ?thesis by (rule Jump [rotated]) (use True pl in \<open>simp_all add: jump_label_def Let_def w\<close>)
    next
      case False
      then have n: "jump_label l = None" by (simp add: jump_label_def Let_def w)
      have m: "?m \<notin> set [''je'', ''jne'', ''jmp'']" using False by (simp only: normal_jump not_False_eq_True)
      obtain st1 where x: "encode_insn ?m (skip_ws r1) (am_out (as_model st)) = Some st1"
        using e 3 p m by (cases "encode_insn ?m (skip_ws r1) (am_out (as_model st))") (auto simp: x64_encode_line_def Let_def s w)
      then have "am_out (as_model st') = st1" "as_ctx st' = as_ctx st"
        using e 3 p by (auto simp: x64_encode_line_def Let_def s w)
      moreover have "extends (am_out (as_model st)) st1"
        using encode_insn_extends [OF ops, of "am_out (as_model st)" ?m] x by simp
      ultimately show ?thesis by (auto simp: extends_def intro: Code [OF n])
    qed
  qed
qed

lemma quiet_lines:
  "st_text (globl_line lp st) = st_text st" "as_ctx (globl_line lp st) = as_ctx st"
  "st_text (weak_line lp st) = st_text st" "as_ctx (weak_line lp st) = as_ctx st"
  "in_body fs st \<Longrightarrow> in_body fs (globl_line lp st)" "in_body fs st \<Longrightarrow> in_body fs (weak_line lp st)"
  by (simp_all add: globl_line_def weak_line_def Let_def in_body_def)

lemma directive_quiet:
  assumes "directive_line lp st = Inr st'" "in_body fs st"
  shows "st_text st' = st_text st" "as_ctx st' = as_ctx st" "in_body fs st'"
  using assms
  by (auto simp: directive_line_def file_line_def loc_line_def in_body_def in_data_def Let_def split: if_splits prod.splits)

lemma line_chain:
  assumes "(if g then Inr a else if w then Inr b else if c then Inr (if d then e else f) else if d then x else y) = Inr r"
  shows "d \<Longrightarrow> r = a \<or> r = b \<or> r = e \<or> x = Inr r" "\<not> g \<Longrightarrow> \<not> w \<Longrightarrow> \<not> d \<Longrightarrow> c \<Longrightarrow> r = f"
    "\<not> g \<Longrightarrow> \<not> w \<Longrightarrow> \<not> d \<Longrightarrow> \<not> c \<Longrightarrow> y = Inr r"
  using assms by (simp_all split: if_splits)

lemma asm_line_effect:
  assumes a: "asm_line l st = Inr st'" and b: "body_line l" and i: "in_body fs st" and c: "c_text l"
  shows "in_body fs st' \<and> body_effect fs l st st'"
proof -
  let ?lp = "skip_ws (take 1023 l)"
  obtain lname q where s: "span_max 255 [CHR '':'', CHR '' '', CHR 0x09] ?lp = (lname, q)" by fastforce
  from b have b': "section_switch ?lp = None" "\<not> starts_with ?lp ''.type ''" "lname = [] \<Longrightarrow> char_at q 0 \<noteq> CHR '':''"
    by (auto simp: body_line_def Let_def s)
  have dots: "starts_with ?lp ''.globl '' \<or> starts_with ?lp ''.global '' \<or> starts_with ?lp ''.weak '' \<Longrightarrow> hd ?lp = CHR ''.''"
    by (cases ?lp) (auto simp: starts_with_def)
  have a': "(if starts_with ?lp ''.globl '' \<or> starts_with ?lp ''.global '' then Inr (globl_line ?lp st)
      else if starts_with ?lp ''.weak '' then Inr (weak_line ?lp st)
      else if char_at q 0 = CHR '':'' then Inr (if hd ?lp = CHR ''.'' then dot_label lname st else label_line lname st)
      else if hd ?lp = CHR ''.'' then directive_line ?lp st else instruction_line (take 1023 l) st) = Inr st'"
    if "?lp \<noteq> []" "hd ?lp \<noteq> CHR ''#''"
    using a [unfolded asm_line_def Let_def s prod.case] b'(1,2) that by (simp cong: if_cong)
  have label: "in_body fs (local_label lname st) \<and> body_effect fs l st (local_label lname st)" if "jump_label l = None"
  proof -
    obtain bs ctx where d: "define_label lname fs (st_text st) (as_ctx st) = (bs, ctx)" by fastforce
    have p: "patches_in (as_ctx st) (length (st_text st))" "as_fn_start st = fs" using i by (simp_all add: in_body_def)
    note f = define_label_facts [OF d p(1)]
    have "body_effect fs l st (local_label lname st)"
      by (rule Label [OF that, of lname]) (simp add: local_label_def p(2) d)
    then show ?thesis using i f by (simp add: in_body_def local_label_def d patches_in_def)
  qed
  consider "?lp = [] \<or> hd ?lp = CHR ''#''"
    | "?lp \<noteq> []" "hd ?lp = CHR ''.''" | "?lp \<noteq> []" "hd ?lp \<notin> set [CHR ''#'', CHR ''.'']" "char_at q 0 = CHR '':''"
    | "?lp \<noteq> []" "hd ?lp \<notin> set [CHR ''#'', CHR ''.'']" "char_at q 0 \<noteq> CHR '':''" by fastforce
  then show ?thesis
  proof cases
    case 1
    then have "jump_label l = None" "st' = st" using a by (auto intro!: not_plain simp: is_plain_def asm_line_def Let_def)
    then show ?thesis using i by (auto intro: Quiet)
  next
    case 2
    then have n: "jump_label l = None" by (intro not_plain) (simp add: is_plain_def)
    consider "st' = globl_line ?lp st" | "st' = weak_line ?lp st" | "st' = dot_label lname st" | "directive_line ?lp st = Inr st'"
      using line_chain(1) [OF a'] 2 by fastforce
    then show ?thesis
    proof cases
      case 3
      then have "st' = local_label lname st" using i by (simp add: dot_label_def in_body_def)
      then show ?thesis using label [OF n] by simp
    next
      case 4
      then show ?thesis using directive_quiet [OF 4 i] by (auto intro: Quiet [OF n])
    qed (use i in \<open>auto intro!: Quiet [OF n] simp: quiet_lines\<close>)
  next
    case 3
    have n: "jump_label l = None" using 3 by (intro not_plain) (simp add: is_plain_def s)
    have "st' = label_line lname st" using line_chain(2) [OF a'] 3 dots by fastforce
    also have "\<dots> = local_label lname st" using i b'(3) 3 by (auto simp: label_line_def plain_label_def in_body_def)
    finally show ?thesis using label [OF n] by simp
  next
    case 4
    have "instruction_line (take 1023 l) st = Inr st'" using line_chain(3) [OF a'] 4 dots by fastforce
    then have x: "x64_encode_line (take 1023 l) fs (am_out (as_model st)) (as_ctx st) = Inr (am_out (as_model st'), as_ctx st')"
      and r: "as_sec st' = as_sec st" "as_in_fn st' = as_in_fn st" "as_func st' = as_func st" "as_fn_start st' = as_fn_start st"
      using i by (auto simp: instruction_line_def in_body_def)
    have p: "patches_in (as_ctx st) (length (st_text st))" using i by (simp add: in_body_def)
    have "in_body fs st'"
      using x64_encode_line_facts [OF x _ p] c i r by (simp add: in_body_def grows_def)
    then show ?thesis using encode_line_effect [OF x c 4(1,2)] 4(3) by (simp add: s)
  qed
qed

subsection \<open>A whole function body\<close>

lemma effect_mono:
  assumes "body_effect fs l st st'" "in_body fs st"
  shows "length (st_text st) \<le> length (st_text st') \<and> (\<exists>ls. cx_labels (as_ctx st') = cx_labels (as_ctx st) @ ls)"
  using assms(1)
proof cases
  case (Label name)
  have "patches_in (as_ctx st) (length (st_text st))" using assms(2) by (simp add: in_body_def)
  then show ?thesis using define_label_facts [OF Label(2)] by auto
next
  case (Jump lab mnem ops)
  have "patches_in (as_ctx st) (length (st_text st))" using assms(2) by (simp add: in_body_def)
  then show ?thesis using enc_jump_facts [OF Jump(2)] by (auto simp: extends_def)
qed simp_all

lemma body_mono:
  assumes "fold_err asm_line ls st = Inr st'" "list_all body_line ls" "list_all c_text ls" "in_body fs st"
  shows "in_body fs st' \<and> length (st_text st) \<le> length (st_text st')
    \<and> (\<exists>bs. cx_labels (as_ctx st') = cx_labels (as_ctx st) @ bs)"
  using assms
proof (induction ls arbitrary: st)
  case (Cons l ls)
  then obtain st1 where 1: "asm_line l st = Inr st1" "fold_err asm_line ls st1 = Inr st'" by auto
  have e: "in_body fs st1 \<and> body_effect fs l st st1" using asm_line_effect [OF 1(1)] Cons.prems by simp
  note m = effect_mono [OF conjunct2 [OF e] Cons.prems(4)]
  show ?case using Cons.IH [OF 1(2)] Cons.prems e m by fastforce
qed simp

lemma enc_jump_displacement:
  assumes "enc_jump mnem ops fs st ctx = Inr (st', ctx')" "label = fst (span_max 63 [CHR 0x0A, CHR '' ''] ops)"
    "fs \<le> length (eo_text st)" "length (eo_text st') < 2 ^ 31" "list_all (\<lambda>l. 0 \<le> snd l) (cx_labels ctx)"
  shows "\<exists>st1. extends st st1 \<and> length (eo_text st') = length (eo_text st1) + 4 \<and>
     (case map_of (cx_labels ctx) label of
        Some t \<Rightarrow> eo_text st' = eo_text st1 @ bytes32 (jump_disp fs t (length (eo_text st1))) \<and> ctx' = ctx
      | None \<Rightarrow> eo_text st' = eo_text st1 @ bytes32 0
          \<and> ctx' = ctx\<lparr>cx_patches := cx_patches ctx @ [(length (eo_text st1), label)]\<rparr>)"
proof -
  let ?st1 = "emit [if mnem = ''je'' then 0x84 else if mnem = ''jne'' then 0x85 else 0xE9]
      (emit_if (mnem = ''je'' \<or> mnem = ''jne'') [0x0F] st)"
  have e: "extends st ?st1" by (intro extends_intros)
  show ?thesis
  proof (cases "map_of (cx_labels ctx) label")
    case None
    then have "ctx_find_label ctx (fst (span_max 63 [CHR 0x0A, CHR '' ''] ops)) = - 1" by (simp add: ctx_find_label_def assms(2))
    then have "st' = emit (bytes32 0) ?st1" "ctx' = ctx\<lparr>cx_patches := cx_patches ctx @ [(length (eo_text ?st1), label)]\<rparr>"
      using assms(1) unfolding enc_jump_def Let_def ctx_add_patch_def assms(2) by (auto split: if_splits)
    then show ?thesis using e None by (intro exI [of _ ?st1]) (simp add: emit_def)
  next
    case (Some t)
    then have "(label, t) \<in> set (cx_labels ctx)" by (rule map_of_SomeD)
    then have t: "0 \<le> t" using assms(5) by (auto simp: list_all_iff)
    have f: "ctx_find_label ctx (fst (span_max 63 [CHR 0x0A, CHR '' ''] ops)) = t" using Some by (simp add: ctx_find_label_def assms(2))
    have s: "st' = emit (bytes32 (t - i32 (int (length (eo_text ?st1)) - int fs + 4))) ?st1" "ctx' = ctx"
      using assms(1) t unfolding enc_jump_def Let_def f by (auto split: if_splits)
    have "fs \<le> length (eo_text ?st1)" using e assms(3) by (auto simp: extends_def)
    moreover have "length (eo_text ?st1) + 4 < 2 ^ 31" using s(1) assms(4) by (simp add: emit_def)
    ultimately have "i32 (int (length (eo_text ?st1)) - int fs + 4) = int (length (eo_text ?st1)) - int fs + 4"
      by (intro i32_small) simp_all
    then show ?thesis using e s Some by (intro exI [of _ ?st1]) (simp add: emit_def jump_disp_def)
  qed
qed

lemma jumps_ok_step:
  assumes e: "body_effect fs l st st'" and i: "in_body fs st" and j: "jumps_ok fs (st_text st) (as_ctx st) sites"
    and d: "distinct (map fst (cx_labels (as_ctx st')))" and n: "length (st_text st') < 2 ^ 31"
  shows "jumps_ok fs (st_text st') (as_ctx st') (sites @ new_site l (st_text st'))"
  using e
proof cases
  case Quiet
  then show ?thesis using j by (simp add: new_site_def)
next
  case (Label name)
  have p: "patches_in (as_ctx st) (length (st_text st))" using i by (simp add: in_body_def)
  note f = define_label_facts [OF Label(2) p]
  have "name \<notin> fst ` set (cx_labels (as_ctx st))" using d by (simp add: f(3))
  moreover have "fs \<le> length (st_text st)" "length (st_text st) < 2 ^ 31" using i n f(1) by (simp_all add: in_body_def)
  ultimately show ?thesis using jumps_ok_label [OF j Label(2)] Label(1) by (simp add: new_site_def)
next
  case (Code bs)
  then show ?thesis using jumps_ok_append [OF j] by (simp add: new_site_def)
next
  case (Jump lab mnem ops)
  have J: "apart sites" "list_all (\<lambda>s. fs \<le> fst s \<and> fst s + 4 \<le> length (st_text st)) sites"
    "set (cx_patches (as_ctx st)) \<subseteq> set sites" "list_all (\<lambda>l. 0 \<le> snd l) (cx_labels (as_ctx st))"
    using j by (simp_all add: jumps_ok_def)
  have fs: "fs \<le> length (st_text st)" using i by (simp add: in_body_def)
  obtain st1 where s: "extends (am_out (as_model st)) st1" "length (st_text st') = length (eo_text st1) + 4"
    "case map_of (cx_labels (as_ctx st)) lab of
        Some t \<Rightarrow> st_text st' = eo_text st1 @ bytes32 (jump_disp fs t (length (eo_text st1))) \<and> as_ctx st' = as_ctx st
      | None \<Rightarrow> st_text st' = eo_text st1 @ bytes32 0
          \<and> as_ctx st' = (as_ctx st)\<lparr>cx_patches := cx_patches (as_ctx st) @ [(length (eo_text st1), lab)]\<rparr>"
    using enc_jump_displacement [OF Jump(2,3) fs n J(4)] by blast
  obtain bs where bs: "eo_text st1 = st_text st @ bs" using s(1) by (auto simp: extends_def)
  let ?s = "(length (eo_text st1), lab)"
  have new: "new_site l (st_text st') = [?s]" using Jump(1) s(2) by (simp add: new_site_def)
  obtain v where v: "st_text st' = st_text st @ (bs @ bytes32 v)" using s(3) bs by (auto split: option.splits)
  have labels: "cx_labels (as_ctx st') = cx_labels (as_ctx st)" using s(3) by (auto split: option.splits)
  have old: "jumps_ok fs (st_text st') (as_ctx st) sites" using jumps_ok_append [OF j] unfolding v .
  have "site_ok fs (st_text st') (as_ctx st') s" if "s \<in> set sites" for s
    using old that s(3) by (auto simp: jumps_ok_def list_all_iff site_ok_def labels split: option.splits)
  moreover have "site_ok fs (st_text st') (as_ctx st') ?s"
    using s(3) by (auto simp: site_ok_def labels field_def split: option.splits)
  moreover have "apart (sites @ [?s])"
    using J(1,2) bs by (auto simp: apart_def sorted_wrt_append list_all_iff)
  moreover have "set (cx_patches (as_ctx st')) \<subseteq> set (sites @ [?s])" using s(3) J(3) by (auto split: option.splits)
  ultimately show ?thesis
    unfolding new using J(2,4) fs s(2) bs by (auto simp: jumps_ok_def list_all_iff labels)
qed

lemma jumps_ok_body:
  assumes "fold_err asm_line ls st = Inr st'" "list_all body_line ls" "list_all c_text ls" "in_body fs st"
    "jumps_ok fs (st_text st) (as_ctx st) sites" "distinct (map fst (cx_labels (as_ctx st')))" "length (st_text st') < 2 ^ 31"
  shows "jumps_ok fs (st_text st') (as_ctx st') (sites @ jump_sites ls st)"
  using assms
proof (induction ls arbitrary: st sites)
  case (Cons l ls)
  then obtain st1 where 1: "asm_line l st = Inr st1" "fold_err asm_line ls st1 = Inr st'" by auto
  have e: "in_body fs st1 \<and> body_effect fs l st st1" using asm_line_effect [OF 1(1)] Cons.prems by simp
  have c: "list_all body_line ls" "list_all c_text ls" using Cons.prems by simp_all
  from body_mono [OF 1(2) c] e obtain bs where m: "cx_labels (as_ctx st') = cx_labels (as_ctx st1) @ bs"
    "length (st_text st1) \<le> length (st_text st')" by blast
  have "distinct (map fst (cx_labels (as_ctx st1)))" "length (st_text st1) < 2 ^ 31" using m Cons.prems(6,7) by simp_all
  note j = jumps_ok_step [OF conjunct2 [OF e] Cons.prems(4,5) this]
  show ?case using Cons.IH [OF 1(2) c conjunct1 [OF e] j] Cons.prems(6,7) by (simp add: 1(1))
qed simp

text \<open>C11: In the assembled text of one function, every je, jne or jmp to a label the function
  defines, before or after the jump, holds in its four-byte field the distance from the end of the
  field to the label.\<close>

theorem local_jumps_land:
  assumes "fold_err asm_line ls st = Inr st'" "list_all body_line ls" "list_all c_text ls"
    and "in_body (length (st_text st)) st" "as_ctx st = ctx_init"
    and "distinct (map fst (cx_labels (as_ctx st')))" "length (st_text st') < 2 ^ 31"
    and "(off, label) \<in> set (jump_sites ls st)" "map_of (cx_labels (as_ctx st')) label = Some t"
  shows "take 4 (drop off (st_text st')) = bytes32 (t - (int off - int (length (st_text st)) + 4))"
proof -
  have "jumps_ok (length (st_text st)) (st_text st) (as_ctx st) []"
    by (simp add: jumps_ok_def apart_def assms(5) ctx_init_def)
  from jumps_ok_body [OF assms(1-4) this assms(6,7)] assms(8,9) show ?thesis
    by (auto simp: jumps_ok_def list_all_iff site_ok_def field_def jump_disp_def)
qed

definition demo_entry :: asm_state where
  "demo_entry = (case fold_err asm_line demo_head asm_start of Inr st \<Rightarrow> st | Inl _ \<Rightarrow> asm_start)"

definition demo_exit :: asm_state where
  "demo_exit = (case fold_err asm_line demo_body demo_entry of Inr st \<Rightarrow> st | Inl _ \<Rightarrow> asm_start)"

lemma demo_exit_eq: "fold_err asm_line demo_body demo_entry = Inr demo_exit"
  by code_simp

lemma demo_body_text: "list_all body_line demo_body" "list_all c_text demo_body"
  by code_simp+

lemma demo_entry_facts:
  "in_body (length (st_text demo_entry)) demo_entry" "as_ctx demo_entry = ctx_init" "length (st_text demo_entry) = 0"
  by code_simp+

lemma demo_exit_facts:
  "distinct (map fst (cx_labels (as_ctx demo_exit)))" "length (st_text demo_exit) = 17"
  "map_of (cx_labels (as_ctx demo_exit)) ''.Lf_end'' = Some 16"
  "map_of (cx_labels (as_ctx demo_exit)) ''.Lf_top'' = Some 6"
  by code_simp+

lemma demo_sites: "jump_sites demo_body demo_entry = [(2, ''.Lf_end''), (12, ''.Lf_top'')]"
  by code_simp

lemma demo_exit_small: "length (st_text demo_exit) < 2 ^ 31"
  by (simp add: demo_exit_facts(2))

theorem local_jumps_land_witness:
  "take 4 (drop 2 (st_text demo_exit)) = bytes32 10 \<and> take 4 (drop 12 (st_text demo_exit)) = bytes32 (- 10)"
  using local_jumps_land [OF demo_exit_eq demo_body_text demo_entry_facts(1,2) demo_exit_facts(1) demo_exit_small,
      of 2 "''.Lf_end''" 16]
    local_jumps_land [OF demo_exit_eq demo_body_text demo_entry_facts(1,2) demo_exit_facts(1) demo_exit_small,
      of 12 "''.Lf_top''" 6]
  by (simp add: demo_sites demo_exit_facts demo_entry_facts(3))

end
