(* ===== verification/Elf_Dwarf_Props.thy ===== *)
theory Elf_Dwarf_Props
  imports Elf_Dwarf Asm_Props
begin

text \<open>
  A consumer of line tables, written from the DWARF 2 description opcode by opcode
  (\<open>read_debug_line\<close>), and the proof that it recovers from the bytes of
  \<open>build_debug_line\<close> the file names and exactly the locations the assembler recorded.
\<close>

subsection \<open>Reading LEB128\<close>

fun read_uleb :: "u8 list \<Rightarrow> (nat \<times> u8 list) option" where
  "read_uleb [] = None"
| "read_uleb (b # bs) =
     (if b < 128 then Some (unat b, bs)
      else map_option (\<lambda>(v, r). (unat b - 128 + 128 * v, r)) (read_uleb bs))"

fun read_sleb :: "u8 list \<Rightarrow> (int \<times> u8 list) option" where
  "read_sleb [] = None"
| "read_sleb (b # bs) =
     (if b < 128 then Some (if b < 64 then uint b else uint b - 128, bs)
      else map_option (\<lambda>(v, r). (uint b - 128 + 128 * v, r)) (read_sleb bs))"

lemma unat_low7: "unat ((ucast (w :: u64) :: u8) AND 0x7F) = unat w mod 128"
proof -
  have "(ucast w :: u8) AND 0x7F = take_bit 7 (ucast w)" by (simp add: take_bit_eq_mask mask_eq_exp_minus_1)
  then have "unat ((ucast w :: u8) AND 0x7F) = unat w mod 256 mod 128"
    by (simp only: unsigned_take_bit_eq unat_byte take_bit_nat_def) simp
  also have "\<dots> = unat w mod 128" by (rule mod_mod_cancel) simp
  finally show ?thesis .
qed

lemma unat_or_128: "unat (b :: u8) < 128 \<Longrightarrow> unat (b OR 0x80) = unat b + 128"
proof -
  assume "unat b < 128"
  then have b: "take_bit 7 (unat b) = unat b" by (simp add: take_bit_nat_eq_self)
  have "\<not> bit (unat b) 7" by (subst b [symmetric]) (simp add: bit_take_bit_iff)
  moreover have "bit (128 :: nat) n \<longleftrightarrow> n = 7" for n using bit_exp_iff [of 7 n, where 'a = nat] by auto
  ultimately have "unat b OR 128 = unat b + 128" by (subst disjunctive_add) auto
  then show ?thesis by (simp only: unsigned_or_eq) simp
qed

lemma read_write_uleb: "read_uleb (write_uleb128 w @ r) = Some (unat w, r)"
proof (induction w rule: write_uleb128.induct)
  case (1 w)
  let ?b = "(ucast w :: u8) AND 0x7F"
  have b: "unat ?b = unat w mod 128" by (rule unat_low7)
  then have lt: "unat ?b < 128" by simp
  show ?case
  proof (cases "drop_bit 7 w = 0")
    case True
    then have "unat w div 128 = 0" using unat_drop7 [of w] by simp
    then show ?thesis using True b lt by (subst write_uleb128.simps) (simp add: word_less_nat_alt mod_eq_self_iff_div_eq_0)
  next
    case False
    then have "read_uleb (write_uleb128 (drop_bit 7 w) @ r) = Some (unat (drop_bit 7 w), r)" using 1 by simp
    then show ?thesis
      using False b unat_or_128 [OF lt]
      by (subst write_uleb128.simps) (simp add: word_less_nat_alt unat_drop7)
  qed
qed

lemma unat_byte_low7: "unat (byte (v mod 128)) = nat (v mod 128)"
  by (simp only: byte_def unsigned_of_int take_bit_int_def) simp

lemma read_write_sleb: "read_sleb (write_sleb128 v @ r) = Some (v, r)"
proof (induction v rule: write_sleb128.induct)
  case (1 v)
  let ?b = "byte (v mod 128)"
  have b: "unat ?b = nat (v mod 128)" by (rule unat_byte_low7)
  then have lt: "unat ?b < 128" by simp
  have u: "uint ?b = v mod 128" "uint (?b OR 0x80) = v mod 128 + 128"
    using b unat_or_128 [OF lt] by (simp_all add: uint_nat)
  have d: "v mod 128 + 128 * (v div 128) = v" by simp
  show ?case
  proof (cases "v div 128 = 0 \<and> \<not> v mod 128 \<ge> 64 \<or> v div 128 = - 1 \<and> v mod 128 \<ge> 64")
    case True
    then have w: "write_sleb128 v = [?b]" by (subst write_sleb128.simps) (simp add: Let_def)
    have "v mod 128 < 64 \<longrightarrow> v mod 128 = v" "\<not> v mod 128 < 64 \<longrightarrow> v mod 128 - 128 = v"
      using True d by linarith+
    then show ?thesis using u(1) unfolding w by (simp add: word_less_def)
  next
    case False
    then have w: "write_sleb128 v = (?b OR 0x80) # write_sleb128 (v div 128)"
      by (subst write_sleb128.simps) (simp only: Let_def False if_False)
    have "read_sleb (write_sleb128 (v div 128) @ r) = Some (v div 128, r)" using 1 False by simp
    moreover have "\<not> ?b OR 0x80 < 128" unfolding word_less_def u(2) by simp
    ultimately have "read_sleb (write_sleb128 v @ r) = Some (uint (?b OR 0x80) - 128 + 128 * (v div 128), r)"
      unfolding w by (simp only: append_Cons read_sleb.simps if_False option.map prod.case)
    then show ?thesis by (simp add: u(2))
  qed
qed

subsection \<open>A reader of line tables\<close>

text \<open>The numbers of a line table header the program depends on.\<close>

record line_header =
  lh_min_inst :: nat
  lh_line_base :: int
  lh_line_range :: nat
  lh_opcode_base :: nat

definition row_of :: "line_regs \<Rightarrow> loc_entry" where
  "row_of rg = \<lparr>le_file = lr_file rg, le_line = lr_line rg, le_col = lr_col rg, le_off = lr_addr rg\<rparr>"

datatype line_op = Bad_Op | End_Sequence | Next_Op "loc_entry list" line_regs "u8 list"

definition extended_op :: "u8 list \<Rightarrow> line_regs \<Rightarrow> line_op" where
  "extended_op bs rg =
     (case read_uleb bs of None \<Rightarrow> Bad_Op | Some (len, r) \<Rightarrow>
        if len = 0 \<or> length r < len then Bad_Op
        else if hd r = 1 then End_Sequence
        else if hd r = 2 then Next_Op [] (rg\<lparr>lr_addr := le_nat (take (len - 1) (tl r))\<rparr>) (drop len r)
        else Next_Op [] rg (drop len r))"

definition special_op :: "line_header \<Rightarrow> nat \<Rightarrow> line_regs \<Rightarrow> line_regs" where
  "special_op h adj rg =
     rg\<lparr>lr_addr := lr_addr rg + lh_min_inst h * (adj div lh_line_range h),
        lr_line := lr_line rg + lh_line_base h + int (adj mod lh_line_range h)\<rparr>"

definition uleb_op :: "u8 list \<Rightarrow> (nat \<Rightarrow> line_regs) \<Rightarrow> line_op" where
  "uleb_op bs f = (case read_uleb bs of None \<Rightarrow> Bad_Op | Some (v, r) \<Rightarrow> Next_Op [] (f v) r)"

definition line_op :: "line_header \<Rightarrow> u8 list \<Rightarrow> line_regs \<Rightarrow> line_op" where
  "line_op h bs rg =
     (case bs of [] \<Rightarrow> Bad_Op | b # r \<Rightarrow>
        if lh_opcode_base h \<le> unat b then
          (let rg1 = special_op h (unat b - lh_opcode_base h) rg in Next_Op [row_of rg1] rg1 r)
        else if b = 0 then extended_op r rg
        else if b = 1 then Next_Op [row_of rg] rg r
        else if b = 2 then uleb_op r (\<lambda>v. rg\<lparr>lr_addr := lr_addr rg + lh_min_inst h * v\<rparr>)
        else if b = 3 then
          (case read_sleb r of None \<Rightarrow> Bad_Op | Some (v, r1) \<Rightarrow> Next_Op [] (rg\<lparr>lr_line := lr_line rg + v\<rparr>) r1)
        else if b = 4 then uleb_op r (\<lambda>v. rg\<lparr>lr_file := int v\<rparr>)
        else if b = 5 then uleb_op r (\<lambda>v. rg\<lparr>lr_col := int v\<rparr>)
        else if b = 6 \<or> b = 7 then Next_Op [] rg r
        else if b = 8 then
          Next_Op [] (rg\<lparr>lr_addr := lr_addr rg + lh_min_inst h * ((255 - lh_opcode_base h) div lh_line_range h)\<rparr>) r
        else if b = 9 \<and> 2 \<le> length r then
          Next_Op [] (rg\<lparr>lr_addr := lr_addr rg + le_nat (take 2 r)\<rparr>) (drop 2 r)
        else Bad_Op)"

function run_line :: "line_header \<Rightarrow> u8 list \<Rightarrow> line_regs \<Rightarrow> loc_entry list option" where
  "run_line h bs rg =
     (case line_op h bs rg of
        Bad_Op \<Rightarrow> None
      | End_Sequence \<Rightarrow> Some []
      | Next_Op rows rg1 r \<Rightarrow>
          if length r < length bs then map_option (append rows) (run_line h r rg1) else None)"
  by pat_completeness auto
termination by (relation "measure (\<lambda>(h, bs, rg). length bs)") auto

declare run_line.simps [simp del]

fun read_files :: "u8 list \<Rightarrow> nat \<Rightarrow> string list option" where
  "read_files bs 0 = None"
| "read_files bs (Suc n) =
     (if bs = [] then None else if hd bs = 0 then Some []
      else if 0 \<notin> set bs then None
      else
        (case read_uleb (tl (dropWhile (\<lambda>b. b \<noteq> 0) bs)) of None \<Rightarrow> None | Some (_, r) \<Rightarrow>
         case read_uleb r of None \<Rightarrow> None | Some (_, r) \<Rightarrow>
         case read_uleb r of None \<Rightarrow> None | Some (_, r) \<Rightarrow>
           map_option (Cons (map chr8 (takeWhile (\<lambda>b. b \<noteq> 0) bs))) (read_files r n)))"

text \<open>A unit without include directories: its length, version 2, the length of the header, the
  numbers of the header, the lengths of the standard opcodes, the files, the program.\<close>

definition read_debug_line :: "u8 list \<Rightarrow> (string list \<times> loc_entry list) option" where
  "read_debug_line bs =
     (let unit = drop 4 bs; hdr = drop 6 unit; len = le_nat (take 4 (drop 2 unit));
          h = \<lparr>lh_min_inst = unat (hdr ! 0), lh_line_base = sint (hdr ! 2), lh_line_range = unat (hdr ! 3),
               lh_opcode_base = unat (hdr ! 4)\<rparr>;
          dirs = drop (4 + lh_opcode_base h) hdr
      in if length bs < 25 \<or> le_nat (take 4 bs) \<noteq> length unit \<or> le_nat (take 2 unit) \<noteq> 2 \<or> length hdr < len
            \<or> dirs = [] \<or> hd dirs \<noteq> 0 then None
         else
           (case (read_files (tl dirs) (length bs), run_line h (drop len hdr) line_start) of
              (Some files, Some rows) \<Rightarrow> Some (files, rows)
            | _ \<Rightarrow> None))"

subsection \<open>The program of the assembler\<close>

definition std_header :: line_header where
  "std_header = \<lparr>lh_min_inst = 1, lh_line_base = - 5, lh_line_range = 14, lh_opcode_base = 10\<rparr>"

lemma run_next:
  "line_op h bs rg = Next_Op rows rg1 r \<Longrightarrow> length r < length bs \<Longrightarrow>
   run_line h bs rg = map_option (append rows) (run_line h r rg1)"
  by (subst run_line.simps) simp

lemma run_quiet:
  "line_op h (b # bs) rg = Next_Op [] rg1 r \<Longrightarrow> length r \<le> length bs \<Longrightarrow> run_line h (b # bs) rg = run_line h r rg1"
  by (cases "run_line h r rg1") (subst run_next, auto)+

lemma run_row:
  "line_op h (b # bs) rg = Next_Op [row] rg1 bs \<Longrightarrow> run_line h (b # bs) rg = map_option (Cons row) (run_line h bs rg1)"
  by (cases "run_line h bs rg1") (subst run_next, auto)+

lemma run_ops:
  "run_line std_header (1 # r) rg = map_option (Cons (row_of rg)) (run_line std_header r rg)"
  "run_line std_header (2 # write_uleb128 w @ r) rg = run_line std_header r (rg\<lparr>lr_addr := lr_addr rg + unat w\<rparr>)"
  "run_line std_header (3 # write_sleb128 v @ r) rg = run_line std_header r (rg\<lparr>lr_line := lr_line rg + v\<rparr>)"
  "run_line std_header (4 # write_uleb128 w @ r) rg = run_line std_header r (rg\<lparr>lr_file := int (unat w)\<rparr>)"
  "run_line std_header (5 # write_uleb128 w @ r) rg = run_line std_header r (rg\<lparr>lr_col := int (unat w)\<rparr>)"
proof -
  show "run_line std_header (1 # r) rg = map_option (Cons (row_of rg)) (run_line std_header r rg)"
    by (rule run_row) (simp add: line_op_def std_header_def)
qed (rule run_quiet; simp add: line_op_def std_header_def uleb_op_def read_write_uleb read_write_sleb)+

text \<open>The bounds under which \<^verbatim>\<open>build_debug_line\<close> computes without overflow.\<close>

definition loc_ok :: "loc_entry \<Rightarrow> bool" where
  "loc_ok l \<longleftrightarrow> 0 \<le> le_file l \<and> le_file l < 2 ^ 31 \<and> 0 \<le> le_col l \<and> le_col l < 2 ^ 31
     \<and> 0 \<le> le_line l \<and> le_line l < 2 ^ 31"

lemma unat_of_small: "0 \<le> i \<Longrightarrow> i < 2 ^ 31 \<Longrightarrow> unat (word_of_int i :: u64) = nat i"
  by (simp only: unsigned_of_int take_bit_int_def) simp

lemma run_line_step:
  assumes "loc_ok l" "lr_addr rg \<le> le_off l" "le_off l < 2 ^ 27"
  shows "run_line std_header (fst (line_step l rg) @ r) rg = map_option (Cons l) (run_line std_header r (snd (line_step l rg)))"
proof -
  let ?rg = "rg\<lparr>lr_file := le_file l, lr_col := le_col l\<rparr>"
  let ?dl = "le_line l - lr_line rg" and ?dp = "le_off l - lr_addr rg"
  let ?sp = "(?dl - (- 5)) + 14 * int ?dp + 10"
  let ?set_file = "if le_file l \<noteq> lr_file rg then 4 # write_uleb128 (word_of_int (le_file l)) else []"
  let ?set_col = "if le_col l \<noteq> lr_col rg then 5 # write_uleb128 (word_of_int (le_col l)) else []"
  let ?special = "?sp \<ge> 10 \<and> ?sp \<le> 255 \<and> ?dl \<ge> - 5 \<and> ?dl \<le> 8"
  let ?row = "if ?special then [byte ?sp]
      else (if int ?dp > 0 then 2 # write_uleb128 (word_of_int (int ?dp)) else [])
        @ (if ?dl \<noteq> 0 then 3 # write_sleb128 ?dl else []) @ [1]"
  have dp: "i32 (int (le_off l) - int (lr_addr rg)) = int ?dp"
    using assms(2,3) by (subst i32_small) auto
  have step: "fst (line_step l rg) = ?set_file @ ?set_col @ ?row"
    "snd (line_step l rg) = \<lparr>lr_addr = le_off l, lr_file = le_file l, lr_line = le_line l, lr_col = le_col l\<rparr>"
    by (simp_all only: line_step_def Let_def dp fst_conv snd_conv)
  have f: "run_line std_header (?set_file @ q) rg = run_line std_header q (rg\<lparr>lr_file := le_file l\<rparr>)" for q
    using assms(1) by (simp add: run_ops loc_ok_def unat_of_small)
  have c: "run_line std_header (?set_col @ q) (rg\<lparr>lr_file := le_file l\<rparr>) = run_line std_header q ?rg" for q
    using assms(1) by (simp add: run_ops loc_ok_def unat_of_small)
  have "run_line std_header (?row @ r) ?rg = map_option (Cons l) (run_line std_header r (snd (line_step l rg)))"
  proof (cases ?special)
    case True
    then have b: "unat (byte ?sp) = nat ?sp"
      by (simp only: byte_def unsigned_of_int take_bit_int_def) simp
    then have ge: "10 \<le> unat (byte ?sp)" using True by linarith
    have op: "line_op std_header (byte ?sp # r) ?rg
        = Next_Op [row_of (special_op std_header (nat ?sp - 10) ?rg)] (special_op std_header (nat ?sp - 10) ?rg) r"
      using ge by (simp only: line_op_def std_header_def list.case line_header.simps if_True Let_def b)
    have n: "nat ?sp - 10 = nat (?dl + 5) + 14 * ?dp" "nat (?dl + 5) < 14" using True by linarith+
    then have "(nat ?sp - 10) div 14 = ?dp" "(nat ?sp - 10) mod 14 = nat (?dl + 5)" by simp_all
    then have "special_op std_header (nat ?sp - 10) ?rg = snd (line_step l rg)"
      using assms(2) True by (simp add: special_op_def std_header_def step)
    then have "line_op std_header (byte ?sp # r) ?rg = Next_Op [l] (snd (line_step l rg)) r"
      using op by (simp add: step row_of_def)
    from run_row [OF this] show ?thesis using True by simp
  next
    case False
    have pc: "unat (word_of_int (int ?dp) :: u64) = ?dp" using assms(3) by (subst unat_of_small) auto
    have "run_line std_header ((if int ?dp > 0 then 2 # write_uleb128 (word_of_int (int ?dp)) else []) @ q) ?rg
        = run_line std_header q (?rg\<lparr>lr_addr := le_off l\<rparr>)" for q
    proof (cases "lr_addr rg = le_off l")
      case True
      then have same: "?rg\<lparr>lr_addr := le_off l\<rparr> = ?rg" by (intro line_regs.equality) simp_all
      show ?thesis unfolding same using True by simp
    next
      case False
      then show ?thesis using assms(2) pc by (simp add: run_ops)
    qed
    moreover have "run_line std_header ((if ?dl \<noteq> 0 then 3 # write_sleb128 ?dl else []) @ q) (?rg\<lparr>lr_addr := le_off l\<rparr>)
        = run_line std_header q (?rg\<lparr>lr_addr := le_off l, lr_line := le_line l\<rparr>)" for q
      by (simp add: run_ops)
    moreover have "?rg\<lparr>lr_addr := le_off l, lr_line := le_line l\<rparr> = snd (line_step l rg)"
      by (rule line_regs.equality) (simp_all add: step)
    moreover have "row_of (snd (line_step l rg)) = l" by (simp add: row_of_def step)
    ultimately show ?thesis
      by (simp only: False if_False append_assoc append_Cons append_Nil run_ops)
  qed
  then show ?thesis unfolding step(1) append_assoc f c .
qed

lemma run_line_program:
  "list_all (\<lambda>l. loc_ok l \<and> le_off l < 2 ^ 27) locs \<Longrightarrow> sorted (map le_off locs) \<Longrightarrow> list_all (\<lambda>l. lr_addr rg \<le> le_off l) locs \<Longrightarrow>
   run_line std_header (concat (fst (thread line_step locs rg)) @ 0 # write_uleb128 1 @ [1]) rg = Some locs"
proof (induction locs arbitrary: rg)
  case Nil
  have "line_op std_header (0 # write_uleb128 1 @ [1]) rg = End_Sequence"
    using read_write_uleb [of 1 "[1]"] by (simp add: line_op_def std_header_def extended_op_def)
  then show ?case by (subst run_line.simps) simp
next
  case (Cons l locs)
  have "lr_addr (snd (line_step l rg)) = le_off l" by (simp add: line_step_def Let_def)
  then have "run_line std_header (concat (fst (thread line_step locs (snd (line_step l rg)))) @ 0 # write_uleb128 1 @ [1])
      (snd (line_step l rg)) = Some locs"
    using Cons.prems by (intro Cons.IH) (simp_all add: list_all_iff)
  moreover have "fst (thread line_step (l # locs) rg) = fst (line_step l rg) # fst (thread line_step locs (snd (line_step l rg)))"
    by (simp add: case_prod_beta Let_def)
  ultimately show ?case using run_line_step [of l rg] Cons.prems by simp
qed

lemma c_string_parts:
  assumes "c_text s"
  shows "takeWhile (\<lambda>b. b \<noteq> 0) (c_string s @ r) = map (\<lambda>c. of_nat (of_char c)) s"
    "dropWhile (\<lambda>b. b \<noteq> 0) (c_string s @ r) = 0 # r" "0 \<in> set (c_string s @ r)"
proof -
  have "\<forall>b\<in>set (map (\<lambda>c. of_nat (of_char c) :: u8) s). b \<noteq> 0" using assms by (auto simp: c_text_def byte_of_char_0)
  then show "takeWhile (\<lambda>b. b \<noteq> 0) (c_string s @ r) = map (\<lambda>c. of_nat (of_char c)) s"
    "dropWhile (\<lambda>b. b \<noteq> 0) (c_string s @ r) = 0 # r" "0 \<in> set (c_string s @ r)"
    by (induction s) (auto simp: c_string_def)
qed

lemma c_string_hd: "c_text s \<Longrightarrow> s \<noteq> [] \<Longrightarrow> hd (c_string s @ r) \<noteq> 0" "c_string s @ r \<noteq> []"
  by (cases s; auto simp: c_string_def c_text_def byte_of_char_0)+

declare read_files.simps [simp del]

lemma read_files_step:
  assumes "c_text s" "s \<noteq> []"
  shows "read_files (c_string s @ write_uleb128 a @ write_uleb128 b @ write_uleb128 c @ r) (Suc n)
    = map_option (Cons s) (read_files r n)"
proof -
  have "read_files (c_string s @ q) (Suc n) =
      (case read_uleb q of None \<Rightarrow> None | Some (_, r) \<Rightarrow>
         case read_uleb r of None \<Rightarrow> None | Some (_, r) \<Rightarrow>
         case read_uleb r of None \<Rightarrow> None | Some (_, r) \<Rightarrow> map_option (Cons s) (read_files r n))" for q
    using c_string_hd(1) [OF assms, of q] c_string_hd(2) [of s q] c_string_parts(3) [OF assms(1), of q]
    by (simp only: read_files.simps c_string_parts(1,2) [OF assms(1)] not_True_eq_False if_False list.sel
        list.map_comp comp_def chr8_of_char list.map_ident)
  then show ?thesis by (simp add: read_write_uleb)
qed

lemma read_file_table:
  "list_all (\<lambda>f. c_text (fe_path f) \<and> fe_path f \<noteq> []) files \<Longrightarrow> length files < n \<Longrightarrow>
   read_files (file_table files @ r) n = Some (map fe_path files)"
proof (induction files arbitrary: n)
  case Nil
  then show ?case by (cases n) (simp_all add: file_table_def read_files.simps)
next
  case (Cons f files)
  then obtain k where n: "n = Suc k" "length files < k" by (cases n) auto
  have t: "file_table (f # files) @ r
      = c_string (fe_path f) @ write_uleb128 0 @ write_uleb128 0 @ write_uleb128 0 @ (file_table files @ r)"
    by (simp add: file_table_def)
  have "read_files (file_table files @ r) k = Some (map fe_path files)" using Cons n by simp
  then show ?case unfolding t n(1) using Cons.prems by (subst read_files_step) simp_all
qed

lemma length_file_table: "length files < length (file_table files)"
  by (induction files) (simp_all add: file_table_def c_string_def)

text \<open>C17: A debugger that reads the line table of an assembled program finds the file names in
  order and exactly the source locations the assembler recorded: file, line, column and offset in
  .text of every .loc line, in order.\<close>

theorem line_table_read_back:
  assumes "parse_asm_x64 asm_text = Inr m" "c_text asm_text" "am_locs m \<noteq> []" "length (am_text m) < 2 ^ 27"
    and "list_all loc_ok (am_locs m)" "list_all (\<lambda>f. fe_path f \<noteq> []) (am_files m)"
    and "length (fst (build_debug_line m)) < 2 ^ 32"
  shows "read_debug_line (fst (build_debug_line m)) = Some (map fe_path (am_files m), am_locs m)"
proof -
  have ok: "model_ok m" by (rule parsed_model_invariant [OF assms(1,2)])
  define files where "files = file_table (am_files m)"
  define prologue where "prologue = line_prologue @ files"
  define prog where "prog = line_program (am_locs m) @ 0 # write_uleb128 1 @ [1]"
  define body where "body = le_bytes 2 (2 :: u16) @ le_bytes 4 (of_nat (length prologue) :: u32) @ prologue
      @ 0 # write_uleb128 9 @ 2 # le_bytes 8 (0 :: u64) @ prog"
  have out: "fst (build_debug_line m) = le_bytes 4 (of_nat (length body) :: u32) @ body"
    using assms(3) by (simp add: build_debug_line_def Let_def debug_line_header_def body_def prologue_def files_def prog_def)
  have len: "length body < 2 ^ 32" "length prologue < 2 ^ 32"
    using assms(7) unfolding out by (simp_all add: body_def)
  have num: "le_nat (le_bytes 4 (of_nat n :: u32)) = n" if "n < 2 ^ 32" for n
    using that by (simp add: unat_of_nat)
  have rows: "run_line std_header prog line_start = Some (am_locs m)"
    unfolding prog_def line_program_def
    using ok assms(4,5) by (intro run_line_program) (auto simp: model_ok_def list_all_iff line_start_def)
  have "line_op std_header (0 # write_uleb128 9 @ 2 # le_bytes 8 (0 :: u64) @ prog) line_start = Next_Op [] line_start prog"
    using read_write_uleb [of 9] by (simp add: line_op_def std_header_def extended_op_def line_start_def)
  from run_quiet [OF this] rows
  have run: "run_line std_header (0 # write_uleb128 9 @ 2 # le_bytes 8 (0 :: u64) @ prog) line_start = Some (am_locs m)" by simp
  have fl: "read_files (files @ q) (length (fst (build_debug_line m))) = Some (map fe_path (am_files m))" for q
    unfolding files_def using ok assms(6) length_file_table [of "am_files m"]
    by (intro read_file_table) (auto simp: model_ok_def list_all_iff out body_def prologue_def files_def)
  let ?bs = "fst (build_debug_line m)" and ?prog = "0 # write_uleb128 9 @ 2 # le_bytes 8 (0 :: u64) @ prog"
  have hdr: "drop 6 body = prologue @ ?prog" "take 2 body = le_bytes 2 (2 :: u16)"
      "take 4 (drop 2 body) = le_bytes 4 (of_nat (length prologue) :: u32)"
    by (simp_all add: body_def)
  have pro: "prologue = 1 # 1 # - 5 # 14 # 10 # 0 # 1 # 1 # 1 # 1 # 0 # 0 # 0 # 1 # 0 # files"
    by (simp add: prologue_def line_prologue_def)
  have parts: "drop 4 ?bs = body" "take 4 ?bs = le_bytes 4 (of_nat (length body) :: u32)" "25 \<le> length ?bs"
    by (simp_all add: out body_def pro)
  have h: "\<lparr>lh_min_inst = unat ((prologue @ ?prog) ! 0), lh_line_base = sint ((prologue @ ?prog) ! 2),
      lh_line_range = unat ((prologue @ ?prog) ! 3), lh_opcode_base = unat ((prologue @ ?prog) ! 4)\<rparr> = std_header"
    by (simp add: pro std_header_def)
  have dirs: "drop (4 + lh_opcode_base std_header) (prologue @ ?prog) = 0 # files @ ?prog"
    by (simp add: pro std_header_def)
  have program: "drop (length prologue) (prologue @ ?prog) = ?prog" by simp
  have two: "le_nat (le_bytes 2 (2 :: u16)) = 2" by simp
  show ?thesis
    unfolding read_debug_line_def Let_def parts(1,2) hdr num [OF len(1)] num [OF len(2)] h dirs program run fl list.sel two
    using parts(3) by simp
qed

definition demo_lines_asm :: string where
  "demo_lines_asm = unlines [''.text'', ''.file 1 '' @ [CHR 0x22] @ ''a.c'' @ [CHR 0x22], ''.globl f'',
     ''.type f, @function'', ''f:'', '' .loc 1 3 5'', '' call g'', '' .loc 1 120 9'', '' ret'', '' .loc 2 121 0'']"

definition demo_lines_model :: asm_model where
  "demo_lines_model = \<lparr>am_out = \<lparr>eo_text = [0xE8, 0, 0, 0, 0, 0xC3],
      eo_relocs = [\<lparr>er_sym = ''g'', er_off = 1, er_add = - 4, er_type = 4\<rparr>]\<rparr>,
    am_data = [], am_rodata = [], am_bss_size = 0,
    am_syms = [\<lparr>es_name = ''f'', es_shndx = 0, es_value = 0, es_size = 6, es_bind = 1, es_type = 2, es_defined = True\<rparr>],
    am_files = [\<lparr>fe_id = 1, fe_path = ''a.c''\<rparr>],
    am_locs = [\<lparr>le_file = 1, le_line = 3, le_col = 5, le_off = 0\<rparr>, \<lparr>le_file = 1, le_line = 120, le_col = 9, le_off = 5\<rparr>,
      \<lparr>le_file = 2, le_line = 121, le_col = 0, le_off = 6\<rparr>]\<rparr>"

lemma demo_lines_parsed: "parse_asm_x64 demo_lines_asm = Inr demo_lines_model"
  by code_simp

lemma demo_lines_text: "c_text demo_lines_asm"
  by code_simp

lemma demo_lines_length: "length (fst (build_debug_line demo_lines_model)) = 63"
  by code_simp

theorem line_table_read_back_witness:
  "read_debug_line (fst (build_debug_line demo_lines_model)) = Some ([''a.c''], am_locs demo_lines_model)"
  using line_table_read_back [OF demo_lines_parsed demo_lines_text]
  by (simp add: demo_lines_length) (simp add: demo_lines_model_def loc_ok_def)

subsection \<open>The relocation of the line table\<close>

definition patch64 :: "nat \<Rightarrow> u64 \<Rightarrow> u8 list \<Rightarrow> u8 list" where
  "patch64 off v bs = take off bs @ le_bytes 8 v @ drop (off + 8) bs"

text \<open>The one relocation of .rela.debug_line, a 64-bit address, is four bytes early: its offset
  leaves out the length field in front of the unit.  Applied with the address S of .text it writes
  the low half of S over the opcode that sets the address, and leaves the high half as the operand.\<close>

lemma line_relocation_misses:
  assumes "am_locs m \<noteq> []"
  shows "\<exists>off. snd (build_debug_line m) = [\<lparr>er_sym = ''.text'', er_off = off, er_add = 0, er_type = 1\<rparr>]
    \<and> take 11 (drop (off + 1) (fst (build_debug_line m))) = [0, 9, 2] @ replicate 8 0
    \<and> take 11 (drop (off + 1) (patch64 off S (fst (build_debug_line m)))) = drop 1 (le_bytes 8 S) @ replicate 4 0"
proof -
  let ?h = "debug_line_header m"
  define pre where "pre = le_bytes 2 (2 :: u16) @ le_bytes 4 (of_nat (length (line_prologue @ file_table (am_files m))) :: u32)
      @ line_prologue @ file_table (am_files m)"
  have nine: "write_uleb128 9 = [9]" by (subst write_uleb128.simps) simp
  have h: "?h = pre @ [0, 9, 2]" by (simp add: debug_line_header_def pre_def nine)
  define rest where "rest = line_program (am_locs m) @ [0] @ write_uleb128 1 @ [1]"
  obtain l4 where l4: "fst (build_debug_line m) = l4 @ pre @ [0, 9, 2] @ replicate 8 0 @ rest" "length l4 = 4"
    using assms by (simp add: build_debug_line_def Let_def h rest_def le_bytes_def upt_rec numeral_nat)
  have s: "snd (build_debug_line m) = [\<lparr>er_sym = ''.text'', er_off = length pre + 3, er_add = 0, er_type = 1\<rparr>]"
    using assms by (simp add: build_debug_line_def Let_def h)
  have t: "take (length pre + 3) (l4 @ pre @ q) = take (length pre + 3) (l4 @ pre)" for q using l4(2) by simp
  have one: "Suc 0 \<le> length pre" by (simp add: pre_def)
  have "take 11 (drop (length pre + 3 + 1) (fst (build_debug_line m))) = [0, 9, 2] @ replicate 8 0"
    unfolding l4(1) using l4(2) by (simp add: numeral_eq_Suc)
  moreover have "take 11 (drop (length pre + 3 + 1) (patch64 (length pre + 3) S (fst (build_debug_line m))))
      = drop 1 (le_bytes 8 S) @ replicate 4 0"
    unfolding l4(1) patch64_def using l4(2) one by (simp add: t numeral_eq_Suc min_absorb1)
  ultimately show ?thesis using s by (intro exI [of _ "length pre + 3"]) simp
qed

lemma line_relocation_misses_witness:
  "\<exists>off. take 11 (drop (off + 1) (patch64 off 0x401000 (fst (build_debug_line demo_lines_model))))
     = [0x10, 0x40, 0, 0, 0, 0, 0, 0, 0, 0, 0]"
proof -
  have "am_locs demo_lines_model \<noteq> []" by (simp add: demo_lines_model_def)
  from line_relocation_misses [OF this, of "0x401000"] obtain off where
    "take 11 (drop (off + 1) (patch64 off 0x401000 (fst (build_debug_line demo_lines_model))))
      = drop 1 (le_bytes 8 (0x401000 :: u64)) @ replicate 4 0" by blast
  moreover have "drop 1 (le_bytes 8 (0x401000 :: u64)) @ replicate 4 0 = [0x10, 0x40, 0, 0, 0, 0, 0, 0, 0, 0, 0]"
    by code_simp
  ultimately show ?thesis by auto
qed

end
