(* ===== verification/Asm_Gaps.thy ===== *)
theory Asm_Gaps
  imports Asm_Parse
begin

text \<open>
  What the assembler accepts and does not assemble.  The unknown-mnemonic path stops the compiler,
  since a \<^verbatim>\<open>nop\<close> in place of an instruction is a wrong program without a diagnostic; the
  operand forms the sized handlers do not know, and the directives they do not know, still take the
  silent way.
\<close>

definition nop_lines :: "string list" where
  "nop_lines =
     ['' movb %al, (%rcx)'', '' movw %ax, (%rcx)'', '' movl (%rcx), %eax'', '' movl x(%rip), %eax'',
      '' movw %dx, (%rax,%rcx,2)'', '' movl %eax, %eax'', '' movl $8, %eax'', '' movl 8(%rdi), %r11d'',
      '' movw %r11w, 8(%rsi)'']"


lemma quad_name_value: "\<not> is_space c \<Longrightarrow> \<not> is_dec_digit c \<Longrightarrow> c \<noteq> CHR ''-'' \<Longrightarrow> c \<noteq> CHR ''+'' \<Longrightarrow> parse_int (c # s) = 0"
  by (auto simp: parse_int_def char_at_def strtol10_def take_sign_def is_dec_digit_def clamp_long_def
      nat_of_dec_def split: list.splits)

text \<open>A data directive that stores the address of a symbol (a pointer with an initialiser, an
  element of a table of strings) stores eight zero bytes, records no relocation and is accepted.\<close>

lemma quad_symbol_is_zero:
  assumes "in_data st" "\<not> is_space c" "\<not> is_dec_digit c" "c \<noteq> CHR ''-''" "c \<noteq> CHR ''+''"
  shows "asm_line (''    .quad '' @ c # name) st = Inr (put_buf (replicate 8 0) st)"
proof -
  let ?lp = "''.quad '' @ c # take 1012 name"
  have b: "\<not> is_blank c" using assms(2) by (auto simp: is_blank_def is_space_def)
  have lp: "skip_ws (take 1023 (''    .quad '' @ c # name)) = ?lp" by (simp add: skip_ws_def is_blank_def)
  have sw: "section_switch ?lp = None" by (simp add: section_switch_def starts_with_def)
  have sp: "span_max 255 [CHR '':'', CHR '' '', CHR 0x09] ?lp = (''.quad'', '' '' @ c # take 1012 name)"
    by (simp add: span_max_def)
  have ws: "skip_ws (drop 6 ?lp) = c # take 1012 name" using b by (simp add: skip_ws_def)
  have d: "directive_line ?lp st = Inr (put_buf (bytes64 (parse_int (c # take 1012 name))) st)"
    using assms(1) ws by (simp add: directive_line_def data_directive_def starts_with_def)
  have z: "bytes64 0 = replicate 8 0" by code_simp
  show ?thesis
    unfolding asm_line_def Let_def lp sw sp using d quad_name_value [OF assms(2-5)] z
    by (simp add: starts_with_def char_at_def)
qed

definition demo_data_state :: asm_state where
  "demo_data_state = asm_start\<lparr>as_sec := SEC_DATA\<rparr>"

lemma quad_symbol_is_zero_witness:
  "asm_line ''    .quad .LC0'' demo_data_state = Inr (put_buf (replicate 8 0) demo_data_state)"
  using quad_symbol_is_zero [of demo_data_state "CHR ''.''" "''LC0''"]
  by (simp add: demo_data_state_def in_data_def is_space_def is_dec_digit_def)

subsection \<open>Block copies\<close>

text \<open>\<^verbatim>\<open>x86_64_emit_block_copy\<close> of \<^verbatim>\<open>src/src/backend_x86_64.c\<close>, which copies structures: the text it appends for a
  copy of \<open>sz\<close> bytes.  The loop over words and the three steps after it hand on the offset and what is left.\<close>

definition move_line :: "string \<Rightarrow> string \<Rightarrow> string \<Rightarrow> string" where
  "move_line mov a b = ''    '' @ mov @ '' '' @ a @ '', '' @ b"

definition mem_text :: "int \<Rightarrow> string \<Rightarrow> string" where
  "mem_text off reg = dec_of_int off @ ''('' @ reg @ '')''"

definition move_pair :: "string \<Rightarrow> string \<Rightarrow> string \<Rightarrow> string \<Rightarrow> int \<Rightarrow> string" where
  "move_pair mov tmp src dest off =
     move_line mov (mem_text off src) tmp @ [CHR 0x0A] @ move_line mov tmp (mem_text off dest) @ [CHR 0x0A]"

function copy_words :: "string \<Rightarrow> string \<Rightarrow> int \<Rightarrow> int \<Rightarrow> string \<times> int \<times> int" where
  "copy_words src dest off sz =
     (if sz \<ge> 8 then
        (let (t, r) = copy_words src dest (off + 8) (sz - 8) in (move_pair ''movq'' ''%r11'' src dest off @ t, r))
      else ([], off, sz))"
  by pat_completeness auto
termination by (relation "measure (\<lambda>(_, _, _, sz). nat sz)") auto

declare copy_words.simps [simp del]

definition copy_part :: "int \<Rightarrow> string \<Rightarrow> string \<Rightarrow> string \<Rightarrow> string \<Rightarrow> int \<times> int \<Rightarrow> string \<times> int \<times> int" where
  "copy_part w mov tmp src dest = (\<lambda>(off, sz).
     if sz \<ge> w then (move_pair mov tmp src dest off, off + w, sz - w) else ([], off, sz))"

definition x86_64_emit_block_copy :: "string \<Rightarrow> string \<Rightarrow> int \<Rightarrow> string" where
  "x86_64_emit_block_copy src dest sz =
     (let (t8, r) = copy_words src dest 0 sz;
          (t4, r) = copy_part 4 ''movl'' ''%r11d'' src dest r;
          (t2, r) = copy_part 2 ''movw'' ''%r11w'' src dest r;
          (t1, _) = copy_part 1 ''movb'' ''%r11b'' src dest r
      in t8 @ t4 @ t2 @ t1)"

lemma copy_words_rest: "0 \<le> sz \<Longrightarrow> snd (copy_words src dest off sz) = (off + (sz - sz mod 8), sz mod 8)"
proof (induction src dest off sz rule: copy_words.induct)
  case (1 src dest off sz)
  show ?case
  proof (cases "sz \<ge> 8")
    case True
    then have "(sz - 8) mod 8 = sz mod 8" by presburger
    with 1 True show ?thesis by (subst copy_words.simps) (simp add: case_prod_unfold Let_def)
  next
    case False
    then show ?thesis using 1(2) by (subst copy_words.simps) simp
  qed
qed

lemma copy_words_text: "0 \<le> sz \<Longrightarrow> fst (copy_words src dest off (sz - sz mod 8)) = fst (copy_words src dest off sz)"
proof (induction src dest off sz rule: copy_words.induct)
  case (1 src dest off sz)
  show ?case
  proof (cases "sz \<ge> 8")
    case True
    then have m: "(sz - 8) mod 8 = sz mod 8" "sz - sz mod 8 \<ge> 8" by presburger+
    then have "fst (copy_words src dest (off + 8) (sz - sz mod 8 - 8)) = fst (copy_words src dest (off + 8) (sz - 8))"
      using 1(1) [OF True] True by (simp add: algebra_simps)
    with m(2) True show ?thesis
      by (subst copy_words.simps, subst (2) copy_words.simps) (simp add: case_prod_unfold Let_def)
  next
    case False
    then have "sz - sz mod 8 = 0" using 1(2) by simp
    with False show ?thesis by (subst copy_words.simps, subst (2) copy_words.simps) simp
  qed
qed

text \<open>The text for the words and the text for the rest.\<close>

definition copy_tail :: "string \<Rightarrow> string \<Rightarrow> int \<Rightarrow> int \<Rightarrow> string" where
  "copy_tail src dest off r =
     (if r \<ge> 4 then move_pair ''movl'' ''%r11d'' src dest off else []) @
     (let o2 = off + (if r \<ge> 4 then 4 else 0); r2 = r mod 4
      in (if r2 \<ge> 2 then move_pair ''movw'' ''%r11w'' src dest o2 else []) @
         (if odd r then move_pair ''movb'' ''%r11b'' src dest (o2 + (if r2 \<ge> 2 then 2 else 0)) else []))"

lemma block_copy_split:
  assumes "0 \<le> sz"
  shows "x86_64_emit_block_copy src dest sz =
      x86_64_emit_block_copy src dest (sz - sz mod 8) @ copy_tail src dest (sz - sz mod 8) (sz mod 8)"
proof -
  have z: "(sz - sz mod 8) mod 8 = 0" "0 \<le> sz - sz mod 8" using assms by presburger+
  have w: "copy_words src dest 0 (sz - sz mod 8) = (fst (copy_words src dest 0 sz), sz - sz mod 8, 0)"
    using copy_words_rest [OF z(2), of src dest 0] copy_words_text [OF assms, of src dest 0] z(1)
    by (metis add_0 diff_zero prod.collapse)
  have a: "x86_64_emit_block_copy src dest (sz - sz mod 8) = fst (copy_words src dest 0 sz)"
    unfolding x86_64_emit_block_copy_def w by (simp add: copy_part_def)
  have s: "copy_words src dest 0 sz = (fst (copy_words src dest 0 sz), sz - sz mod 8, sz mod 8)"
    using copy_words_rest [OF assms, of src dest 0] by (metis add_0 prod.collapse)
  have "0 \<le> sz mod 8" "sz mod 8 < 8" by simp_all
  then consider "sz mod 8 = 0" | "sz mod 8 = 1" | "sz mod 8 = 2" | "sz mod 8 = 3" | "sz mod 8 = 4" | "sz mod 8 = 5"
    | "sz mod 8 = 6" | "sz mod 8 = 7" by linarith
  then show ?thesis
    unfolding a unfolding x86_64_emit_block_copy_def by (subst s, cases) (simp_all add: copy_part_def copy_tail_def)
qed

text \<open>What the assembler makes of the text for the rest.\<close>

definition gp64 :: "string list" where
  "gp64 = [''%rax'', ''%rcx'', ''%rdx'', ''%rbx'', ''%rsp'', ''%rbp'', ''%rsi'', ''%rdi'', ''%r8'', ''%r9'', ''%r10'',
     ''%r11'', ''%r12'', ''%r13'', ''%r14'', ''%r15'']"

definition nops :: "nat \<Rightarrow> asm_state \<Rightarrow> asm_state" where
  "nops n st = upd_model (\<lambda>m. m\<lparr>am_out := emit (replicate n 0x90) (am_out m)\<rparr>) st"

definition in_function :: "asm_state \<Rightarrow> bool" where
  "in_function st \<longleftrightarrow> as_sec st = SEC_TEXT \<and> as_in_fn st"


lemma dec_length: "n < 10 ^ k \<Longrightarrow> 0 < k \<Longrightarrow> length (dec_of_nat n) \<le> k"
proof (induction n arbitrary: k rule: dec_of_nat.induct)
  case (1 n)
  show ?case
  proof (cases "n < 10")
    case True
    then show ?thesis using 1(3) by (subst dec_of_nat.simps) simp
  next
    case False
    then obtain j where j: "k = Suc j" "0 < j" using 1(2,3) by (cases k; cases "k - 1") auto
    then have "n div 10 < 10 ^ j" using 1(2) by (simp add: less_mult_imp_div_less mult.commute)
    with 1(1) [OF False this j(2)] False j(1) show ?thesis by (subst dec_of_nat.simps) simp
  qed
qed

lemma parse_mem_text:
  assumes "0 \<le> off" "off < 2 ^ 31" "r \<in> set gp64"
  shows "op_type (fst (parse_operand_x64 (mem_text off r @ rest))) = OT_MEM_BASE"
    "snd (parse_operand_x64 (mem_text off r @ rest)) = rest"
proof -
  define D where "D = dec_of_nat (nat off)"
  have D: "mem_text off r @ rest = D @ ''('' @ r @ '')'' @ rest" using assms(1) by (simp add: mem_text_def dec_of_int_def D_def)
  have dig: "\<And>c. c \<in> set D \<Longrightarrow> is_dec_digit c" unfolding D_def by (rule dec_of_nat_digits)
  have l: "length D \<le> 10" unfolding D_def by (rule dec_length) (use assms(1,2) in simp_all)
  obtain c D' where c: "D = c # D'" using dec_of_nat_nonempty [of "nat off"] by (cases D) (auto simp: D_def)
  have nc: "is_dec_digit c" "\<not> is_blank c" "c \<noteq> CHR ''$''" "c \<noteq> CHR ''%''" "c \<noteq> CHR ''(''" "c \<noteq> CHR ''-''"
    using dig [of c] by (auto simp: c is_dec_digit_def is_blank_def)
  have tw: "takeWhile is_dec_digit (D @ ''('' @ r @ '')'' @ rest) = D"
    using dig by (subst takeWhile_append2) (auto simp: is_dec_digit_def)
  have b: "parse_base (r @ '')'' @ rest) = (r, rest) \<and> r \<noteq> ''%rip''"
    using assms(3) unfolding gp64_def list.set insert_iff empty_iff
    by (elim disjE FalseE) (simp_all add: parse_base_def span_max_def char_at_def skip_char_def)
  let ?p = "D @ ''('' @ r @ '')'' @ rest"
  have n: "num_operand ?p = mem_operand op_zero (dec_of_int (strtol10 D)) (strtol10 D) (r @ '')'' @ rest)"
    using nc l tw by (simp add: num_operand_def char_at_def c Let_def)
  have e: "parse_operand_x64 ?p = num_operand ?p"
    using nc by (simp add: parse_operand_x64_def parse_disp_operand_def skip_ws_def char_at_def c Let_def)
  show "op_type (fst (parse_operand_x64 (mem_text off r @ rest))) = OT_MEM_BASE"
    "snd (parse_operand_x64 (mem_text off r @ rest)) = rest"
    unfolding D e n using b by (simp_all add: mem_operand_def Let_def)
qed

lemma parse_tmp:
  assumes "t \<in> {''%r11d'', ''%r11w'', ''%r11b''}"
  shows "op_type (fst (parse_operand_x64 (t @ '', '' @ rest))) = OT_REG64"
    "snd (parse_operand_x64 (t @ '', '' @ rest)) = '', '' @ rest"
    "op_type (fst (parse_operand_x64 (CHR '' '' # t))) = OT_REG64"
  using assms
  by (auto simp: parse_operand_x64_def skip_ws_def is_blank_def char_at_def parse_reg_operand_def span_max_def reg_optype_def
      starts_with_def is_alpha_c_def)


lemma parse_two_load:
  assumes "0 \<le> off" "off < 2 ^ 31" "r \<in> set gp64" "t \<in> {''%r11d'', ''%r11w'', ''%r11b''}"
  obtains src dst rest where "parse_two (mem_text off r @ '', '' @ t) = (src, dst, rest)" "op_type src = OT_MEM_BASE"
    "op_type dst = OT_REG64"
  using parse_mem_text [OF assms(1-3), of "'', '' @ t"] parse_tmp [OF assms(4)]
  by (cases "parse_operand_x64 (mem_text off r @ '', '' @ t)"; cases "parse_operand_x64 (CHR '' '' # t)")
    (simp add: parse_two_def skip_char_def char_at_def)

lemma parse_space_mem: "parse_operand_x64 (CHR '' '' # mem_text off r) = parse_operand_x64 (mem_text off r)"
  by (simp add: parse_operand_x64_def skip_ws_def is_blank_def)

lemma parse_two_store:
  assumes "0 \<le> off" "off < 2 ^ 31" "r \<in> set gp64" "t \<in> {''%r11d'', ''%r11w'', ''%r11b''}"
  obtains src dst rest where "parse_two (t @ '', '' @ mem_text off r) = (src, dst, rest)" "op_type src = OT_REG64"
    "op_type dst = OT_MEM_BASE"
  using parse_mem_text [OF assms(1-3), of "[]"] parse_tmp(1,2) [OF assms(4), of "mem_text off r"]
  by (cases "parse_operand_x64 (t @ '', '' @ mem_text off r)"; cases "parse_operand_x64 (mem_text off r)")
    (simp add: parse_two_def skip_char_def char_at_def parse_space_mem)

lemma encode_moves:
  "encode_insn ''movl'' p st = Some (enc_movl p st)" "encode_insn ''movw'' p st = Some (enc_movw p st)"
  "encode_insn ''movb'' p st = Some (enc_movb p st)"
  by (simp_all add: encode_insn_def x87_insn_def sse_insn_def move_insn_def fmem_table_def fbin_table_def is_cvt_def starts_with_def)

lemma move_not_encoded:
  assumes "parse_two p = (src, dst, rest)" "(op_type src, op_type dst) \<in> {(OT_MEM_BASE, OT_REG64), (OT_REG64, OT_MEM_BASE)}"
  shows "enc_movl p st = nop_fallback st" "enc_movw p st = nop_fallback st" "enc_movb p st = nop_fallback st"
  using assms by (auto simp: enc_movl_def enc_movw_def enc_movb_def)


lemma move_asm_line:
  assumes "in_function st" "mov \<in> {''movl'', ''movw'', ''movb''}" "ops \<noteq> []" "\<not> is_blank (hd ops)" "length ops < 1000"
    "\<And>out. encode_insn mov ops out = Some (nop_fallback out)"
  shows "asm_line (''    '' @ mov @ '' '' @ ops) st = Inr (nops 1 st)"
proof -
  have t: "take 1023 (''    '' @ mov @ '' '' @ ops) = ''    '' @ mov @ '' '' @ ops" using assms(2,5) by auto
  have w: "skip_ws (''    '' @ mov @ '' '' @ ops) = mov @ '' '' @ ops" using assms(2) by (auto simp: skip_ws_def is_blank_def)
  have o: "skip_ws (CHR '' '' # ops) = ops" using assms(3,4) by (cases ops) (auto simp: skip_ws_def is_blank_def)
  have s: "section_switch (mov @ '' '' @ ops) = None" using assms(2) by (auto simp: section_switch_def starts_with_def)
  have n: "x64_encode_line (''    '' @ mov @ '' '' @ ops) fs out ctx = Inr (nop_fallback out, ctx)" for fs out ctx
    unfolding x64_encode_line_def w Let_def using assms(2,6) o
    by (elim insertE emptyE) (simp_all add: span_max_def char_at_def normal_mnem_def is_suffixless_gp_def)
  show ?thesis
    unfolding asm_line_def Let_def t w s using assms(1,2) n
    by (elim insertE emptyE) (simp_all add: starts_with_def span_max_def char_at_def instruction_line_def in_function_def nops_def nop_fallback_def)
qed

lemma mem_text_shape:
  assumes "0 \<le> off" "off < 2 ^ 31" "r \<in> set gp64"
  shows "mem_text off r \<noteq> []" "\<not> is_blank (hd (mem_text off r))" "length (mem_text off r) \<le> 20" "CHR 0x0A \<notin> set (mem_text off r)"
proof -
  have D: "mem_text off r = dec_of_nat (nat off) @ ''('' @ r @ '')''" using assms(1) by (simp add: mem_text_def dec_of_int_def)
  have dig: "\<And>c. c \<in> set (dec_of_nat (nat off)) \<Longrightarrow> is_dec_digit c" by (rule dec_of_nat_digits)
  have "length (dec_of_nat (nat off)) \<le> 10" by (rule dec_length) (use assms(1,2) in simp_all)
  moreover have r: "length r \<le> 4" "CHR 0x0A \<notin> set r" using assms(3) by (auto simp: gp64_def)
  ultimately show "length (mem_text off r) \<le> 20" by (simp add: D)
  show "mem_text off r \<noteq> []" by (simp add: D)
  have "is_dec_digit (hd (dec_of_nat (nat off)))" using dig dec_of_nat_nonempty by simp
  then show "\<not> is_blank (hd (mem_text off r))" by (auto simp: D is_dec_digit_def is_blank_def)
  show "CHR 0x0A \<notin> set (mem_text off r)" using dig [of "CHR 0x0A"] r by (auto simp: D is_dec_digit_def)
qed

lemma pair_lines:
  assumes "0 \<le> off" "off < 2 ^ 31" "src \<in> set gp64" "dest \<in> set gp64" "in_function st"
    "(mov, t) \<in> {(''movl'', ''%r11d''), (''movw'', ''%r11w''), (''movb'', ''%r11b'')}"
  shows "asm_line (move_line mov (mem_text off src) t) st = Inr (nops 1 st)"
    "asm_line (move_line mov t (mem_text off dest)) st = Inr (nops 1 st)"
proof -
  have t: "t \<in> {''%r11d'', ''%r11w'', ''%r11b''}" and m: "mov \<in> {''movl'', ''movw'', ''movb''}" using assms(6) by auto
  have tt: "length t = 5" "\<not> is_blank (hd t)" "t \<noteq> []" using t by (auto simp: is_blank_def)
  have e: "encode_insn mov p out = Some (nop_fallback out)"
    if "parse_two p = (a, b, rest)" "(op_type a, op_type b) \<in> {(OT_MEM_BASE, OT_REG64), (OT_REG64, OT_MEM_BASE)}" for p a b rest out
    using m encode_moves move_not_encoded [OF that] by auto
  obtain a b r where l: "parse_two (mem_text off src @ '', '' @ t) = (a, b, r)" "op_type a = OT_MEM_BASE" "op_type b = OT_REG64"
    by (rule parse_two_load [OF assms(1-3) t])
  obtain a' b' r' where s: "parse_two (t @ '', '' @ mem_text off dest) = (a', b', r')" "op_type a' = OT_REG64" "op_type b' = OT_MEM_BASE"
    by (rule parse_two_store [OF assms(1,2,4) t])
  show "asm_line (move_line mov (mem_text off src) t) st = Inr (nops 1 st)"
    unfolding move_line_def using mem_text_shape [OF assms(1-3)] tt e [OF l(1)] l(2,3)
    by (intro move_asm_line [OF assms(5) m]) auto
  show "asm_line (move_line mov t (mem_text off dest)) st = Inr (nops 1 st)"
    unfolding move_line_def using mem_text_shape [OF assms(1,2,4)] tt e [OF s(1)] s(2,3)
    by (intro move_asm_line [OF assms(5) m]) auto
qed

lemma nops_nops: "nops a (nops b st) = nops (b + a) st" "in_function (nops a st) = in_function st"
  by (simp_all add: nops_def emit_def in_function_def replicate_add)

lemma nops_0: "nops 0 st = st"
  by (simp add: nops_def emit_def)

lemma asm_lines_line: "CHR 0x0A \<notin> set l \<Longrightarrow> asm_lines (l @ CHR 0x0A # s) = l # asm_lines s"
  by (induction l) auto

text \<open>The lines of a text after a newline follow the lines before it.\<close>

definition assemble :: "string \<Rightarrow> asm_state \<Rightarrow> asm_error + asm_state" where
  "assemble s st = fold_err asm_line (asm_lines s) st"

lemma pair_assembled:
  assumes "0 \<le> off" "off < 2 ^ 31" "src \<in> set gp64" "dest \<in> set gp64" "in_function st"
    "(mov, t) \<in> {(''movl'', ''%r11d''), (''movw'', ''%r11w''), (''movb'', ''%r11b'')}"
  shows "assemble (move_pair mov t src dest off @ s) st = assemble s (nops 2 st)"
proof -
  have nl: "CHR 0x0A \<notin> set (move_line mov (mem_text off src) t)" "CHR 0x0A \<notin> set (move_line mov t (mem_text off dest))"
    using mem_text_shape(4) [OF assms(1-3)] mem_text_shape(4) [OF assms(1,2,4)] assms(6) by (auto simp: move_line_def)
  have i: "in_function (nops 1 st)" using assms(5) by (simp add: nops_nops)
  show ?thesis
    unfolding assemble_def move_pair_def using asm_lines_line [OF nl(1)] asm_lines_line [OF nl(2)]
      pair_lines(1) [OF assms(1-5,6)] pair_lines(2) [OF assms(1-4) i assms(6)]
    by (simp add: nops_nops numeral_2_eq_2)
qed


definition whole_lines :: "string \<Rightarrow> bool" where
  "whole_lines a \<longleftrightarrow> a = [] \<or> last a = CHR 0x0A"

lemma asm_lines_nonempty: "asm_lines s \<noteq> []"
  by (induction s) (auto split: list.split)

lemma asm_lines_whole: "whole_lines a \<Longrightarrow> asm_lines a = butlast (asm_lines a) @ [[]] \<and> asm_lines (a @ s) = butlast (asm_lines a) @ asm_lines s"
proof (induction a)
  case (Cons c a)
  show ?case
  proof (cases "c = CHR 0x0A")
    case True
    with Cons asm_lines_nonempty [of a] show ?thesis by (cases "a = []") (auto simp: whole_lines_def)
  next
    case False
    with Cons.prems have a: "a \<noteq> []" "whole_lines a" by (auto simp: whole_lines_def split: if_splits)
    obtain l ls where l: "asm_lines a = l # ls" using asm_lines_nonempty [of a] by (cases "asm_lines a") auto
    have "ls \<noteq> []"
    proof
      assume "ls = []"
      with Cons.IH [OF a(2)] l have "asm_lines a = [[]]" by simp
      with a(1) asm_lines_nonempty show False by (cases a) (auto split: if_splits list.splits)
    qed
    with Cons.IH [OF a(2)] l False show ?thesis by (cases "asm_lines (a @ s)") auto
  qed
qed (simp add: whole_lines_def)

lemma assemble_append: "whole_lines a \<Longrightarrow> assemble (a @ s) st = bnd (assemble a st) (assemble s)"
proof -
  assume a: "whole_lines a"
  define ls where "ls = butlast (asm_lines a)"
  have l: "asm_lines a = ls @ [[]]" "asm_lines (a @ s) = ls @ asm_lines s"
    using asm_lines_whole [OF a, of s] by (simp_all add: ls_def)
  have e: "asm_line [] st = Inr st" for st by (simp add: asm_line_def Let_def skip_ws_def)
  have "assemble a st = fold_err asm_line ls st"
    unfolding assemble_def l(1) by (cases "fold_err asm_line ls st") (simp_all add: fold_err_append e)
  then show ?thesis by (cases "fold_err asm_line ls st") (simp_all add: assemble_def l(2) fold_err_append)
qed

lemma word_line_stays:
  assumes "in_function st" "asm_line (''    movq '' @ ops) st = Inr st'"
  shows "in_function st'"
proof -
  have t: "take 1023 (''    movq '' @ ops) = ''    movq '' @ take 1014 ops" by simp
  have w: "skip_ws (''    movq '' @ take 1014 ops) = ''movq '' @ take 1014 ops" by (simp add: skip_ws_def is_blank_def)
  have s: "section_switch (''movq '' @ take 1014 ops) = None" by (simp add: section_switch_def starts_with_def)
  have "instruction_line (''    movq '' @ take 1014 ops) st = Inr st'"
    using assms(2) unfolding asm_line_def Let_def t w s by (simp add: starts_with_def span_max_def char_at_def)
  with assms(1) show ?thesis by (auto simp: instruction_line_def in_function_def)
qed

lemma words_stay:
  "0 \<le> off \<Longrightarrow> 0 \<le> sz \<Longrightarrow> off + sz < 2 ^ 31 \<Longrightarrow> src \<in> set gp64 \<Longrightarrow> dest \<in> set gp64 \<Longrightarrow> in_function st \<Longrightarrow>
   assemble (fst (copy_words src dest off sz)) st = Inr st' \<Longrightarrow> in_function st'"
proof (induction src dest off sz arbitrary: st rule: copy_words.induct)
  case (1 src dest off sz)
  show ?case
  proof (cases "sz \<ge> 8")
    case True
    let ?a = "move_line ''movq'' (mem_text off src) ''%r11''" and ?b = "move_line ''movq'' ''%r11'' (mem_text off dest)"
    let ?s = "fst (copy_words src dest (off + 8) (sz - 8))"
    have o: "off < 2 ^ 31" using 1(3,4) True by simp
    have nl: "CHR 0x0A \<notin> set ?a" "CHR 0x0A \<notin> set ?b"
      using mem_text_shape(4) [OF 1(2) o 1(5)] mem_text_shape(4) [OF 1(2) o 1(6)] by (auto simp: move_line_def)
    have "fst (copy_words src dest off sz) = ?a @ CHR 0x0A # ?b @ CHR 0x0A # ?s"
      using True by (subst copy_words.simps) (simp add: case_prod_unfold Let_def move_pair_def)
    with 1(8) nl have "fold_err asm_line (?a # ?b # asm_lines ?s) st = Inr st'"
      by (simp add: assemble_def asm_lines_line)
    then obtain s1 s2 where s: "asm_line ?a st = Inr s1" "asm_line ?b s1 = Inr s2" "assemble ?s s2 = Inr st'"
      by (auto simp: assemble_def)
    have "in_function s1" by (rule word_line_stays [OF 1(7)]) (use s(1) in \<open>simp add: move_line_def\<close>)
    then have "in_function s2" by (rule word_line_stays) (use s(2) in \<open>simp add: move_line_def\<close>)
    then show ?thesis using 1(1) [OF True _ _ _ 1(5,6) _ s(3)] 1(2-4) True by simp
  next
    case False
    then have "fst (copy_words src dest off sz) = []" by (subst copy_words.simps) simp
    then show ?thesis using 1(7,8) by (simp add: assemble_def asm_line_def Let_def skip_ws_def)
  qed
qed

lemma whole_words: "whole_lines (fst (copy_words src dest off sz))"
proof (induction src dest off sz rule: copy_words.induct)
  case (1 src dest off sz)
  show ?case
  proof (cases "sz \<ge> 8")
    case True
    with 1 have "whole_lines (fst (copy_words src dest (off + 8) (sz - 8)))" by simp
    with True show ?thesis by (subst copy_words.simps) (auto simp: case_prod_unfold Let_def move_pair_def whole_lines_def)
  next
    case False
    then show ?thesis by (subst copy_words.simps) (simp add: whole_lines_def)
  qed
qed

text \<open>The pairs of moves for a rest of \<open>r\<close> bytes: one of four bytes, of two and of one, as far as they occur in it.\<close>

definition rest_moves :: "int \<Rightarrow> nat" where
  "rest_moves r = nat (r div 4 + r div 2 mod 2 + r mod 2)"

lemma tail_assembled:
  assumes "0 \<le> off" "off < 2 ^ 31 - 8" "0 \<le> r" "r < 8" "src \<in> set gp64" "dest \<in> set gp64" "in_function st"
  shows "assemble (copy_tail src dest off r) st = Inr (nops (2 * rest_moves r) st)"
proof -
  have p: "assemble (move_pair mov t src dest (off + d) @ s) (nops n st) = assemble s (nops (n + 2) st)"
    if "(mov, t) \<in> {(''movl'', ''%r11d''), (''movw'', ''%r11w''), (''movb'', ''%r11b'')}" "0 \<le> d" "d < 8" for mov t d s n
    using pair_assembled [of "off + d" src dest "nops n st" mov t s] that assms by (simp add: nops_nops)
  have e: "assemble [] st = Inr st" for st by (simp add: assemble_def asm_line_def Let_def skip_ws_def)
  have two: "Suc (Suc 0) = 2" by simp
  consider "r = 0" | "r = 1" | "r = 2" | "r = 3" | "r = 4" | "r = 5" | "r = 6" | "r = 7" using assms(3,4) by linarith
  then show ?thesis
  proof cases
    case 1
    then show ?thesis by (simp add: copy_tail_def e rest_moves_def nops_0 two)
  next
    case 2
    then show ?thesis using p [of "''movb''" "''%r11b''" 0 "[]" 0] by (simp add: copy_tail_def e rest_moves_def nops_0 two)
  next
    case 3
    then show ?thesis using p [of "''movw''" "''%r11w''" 0 "[]" 0] by (simp add: copy_tail_def e rest_moves_def nops_0 two)
  next
    case 4
    then show ?thesis using p [of "''movw''" "''%r11w''" 0 _ 0] p [of "''movb''" "''%r11b''" 2 "[]" 2]
      by (simp add: copy_tail_def e rest_moves_def nops_0 two)
  next
    case 5
    then show ?thesis using p [of "''movl''" "''%r11d''" 0 "[]" 0] by (simp add: copy_tail_def e rest_moves_def nops_0 two)
  next
    case 6
    then show ?thesis using p [of "''movl''" "''%r11d''" 0 _ 0] p [of "''movb''" "''%r11b''" 4 "[]" 2]
      by (simp add: copy_tail_def e rest_moves_def nops_0 two)
  next
    case 7
    then show ?thesis using p [of "''movl''" "''%r11d''" 0 _ 0] p [of "''movw''" "''%r11w''" 4 "[]" 2]
      by (simp add: copy_tail_def e rest_moves_def nops_0 two)
  next
    case 8
    then show ?thesis using p [of "''movl''" "''%r11d''" 0 _ 0] p [of "''movw''" "''%r11w''" 4 _ 2] p [of "''movb''" "''%r11b''" 6 "[]" 4]
      by (simp add: copy_tail_def e rest_moves_def nops_0 two add.commute)
  qed
qed

text \<open>C37: The internal assembler loses the end of every structure copy whose size is not a multiple of
  eight: for each size and each pair of registers, the text the x86-64 back end emits for the copy is
  accepted without a diagnostic and assembled to the code of the copy of the whole words alone, followed
  by two nops for each move of four, two or one bytes that the rest needs, because %r11d, %r11w and
  %r11b are not the operands that the handlers of movl, movw and movb know.\<close>

theorem block_copy_tail_lost:
  assumes "0 \<le> sz" "sz < 2 ^ 31 - 8" "src \<in> set gp64" "dest \<in> set gp64" "as_sec st = SEC_TEXT" "as_in_fn st"
  shows "assemble (x86_64_emit_block_copy src dest sz) st =
     bnd (assemble (x86_64_emit_block_copy src dest (sz - sz mod 8)) st) (\<lambda>st1. Inr (nops (2 * rest_moves (sz mod 8)) st1))"
proof -
  have z: "(sz - sz mod 8) mod 8 = 0" "0 \<le> sz - sz mod 8" "sz - sz mod 8 \<le> sz" using assms(1) by presburger+
  let ?w = "fst (copy_words src dest 0 (sz - sz mod 8))"
  have "snd (copy_words src dest 0 (sz - sz mod 8)) = (sz - sz mod 8, 0)"
    using copy_words_rest [OF z(2), of src dest 0] z(1) by simp
  then obtain t where t: "copy_words src dest 0 (sz - sz mod 8) = (t, sz - sz mod 8, 0)" by (metis prod.collapse)
  have w: "x86_64_emit_block_copy src dest (sz - sz mod 8) = ?w"
    unfolding x86_64_emit_block_copy_def t by (simp add: copy_part_def)
  have i: "in_function st" using assms(5,6) by (simp add: in_function_def)
  have t: "assemble (copy_tail src dest (sz - sz mod 8) (sz mod 8)) st1 = Inr (nops (2 * rest_moves (sz mod 8)) st1)"
    if "assemble ?w st = Inr st1" for st1
    by (rule tail_assembled) (use z assms words_stay [OF _ z(2) _ assms(3,4) i that] in simp_all)
  show ?thesis
    unfolding block_copy_split [OF assms(1)] w assemble_append [OF whole_words]
    using t by (cases "assemble ?w st") simp_all
qed


definition demo_text_state :: asm_state where
  "demo_text_state = asm_start\<lparr>as_sec := SEC_TEXT, as_in_fn := True\<rparr>"

lemma words_accepted:
  "(case assemble (x86_64_emit_block_copy ''%rax'' ''%r10'' 8) demo_text_state of Inl _ \<Rightarrow> False | Inr _ \<Rightarrow> True)"
  by code_simp

text \<open>The last four of twelve bytes become two nops.\<close>

theorem block_copy_tail_lost_witness:
  "\<exists>st1. assemble (x86_64_emit_block_copy ''%rax'' ''%r10'' 8) demo_text_state = Inr st1
     \<and> assemble (x86_64_emit_block_copy ''%rax'' ''%r10'' 12) demo_text_state = Inr (nops 2 st1)"
  using block_copy_tail_lost [of 12 "''%rax''" "''%r10''" demo_text_state] words_accepted
  by (cases "assemble (x86_64_emit_block_copy ''%rax'' ''%r10'' 8) demo_text_state")
    (simp_all add: gp64_def demo_text_state_def rest_moves_def)

end
