(* ===== verification/Rt_Mem.thy ===== *)
theory Rt_Mem
  imports Le_Bytes
begin

text \<open>
  The memory and string functions of the freestanding runtime library,
  \<^verbatim>\<open>src/runtime/runtime.c\<close>.  Memory maps addresses to bytes; an access to an address that is not
  mapped is an error.  The \<^verbatim>\<open>for\<close> loops over a count are folds over the indices; the loops that
  look for a terminator are partial functions, since nothing bounds them.  A pointer result is an
  address, the null pointer \<^term>\<open>None\<close>.
\<close>

subsection \<open>Memory\<close>

type_synonym heap = "nat \<Rightarrow> u8 option"

datatype rt_error = Bad_Access nat | Signed_Overflow | Divide_By_Zero

definition load :: "heap \<Rightarrow> nat \<Rightarrow> rt_error + u8" where
  "load h a = (case h a of None \<Rightarrow> Inl (Bad_Access a) | Some b \<Rightarrow> Inr b)"

definition store :: "nat \<Rightarrow> u8 \<Rightarrow> heap \<Rightarrow> rt_error + heap" where
  "store a b h = (if h a = None then Inl (Bad_Access a) else Inr (h(a \<mapsto> b)))"

subsection \<open>Blocks of memory\<close>

definition copy_byte :: "nat \<Rightarrow> nat \<Rightarrow> nat \<Rightarrow> heap \<Rightarrow> rt_error + heap" where
  "copy_byte d s i h = bnd (load h (s + i)) (\<lambda>b. store (d + i) b h)"

definition memcpy :: "nat \<Rightarrow> nat \<Rightarrow> nat \<Rightarrow> heap \<Rightarrow> rt_error + (nat \<times> heap)" where
  "memcpy dst src n h = bnd (fold_err (copy_byte dst src) [0..<n] h) (\<lambda>h'. Inr (dst, h'))"

definition memmove :: "nat \<Rightarrow> nat \<Rightarrow> nat \<Rightarrow> heap \<Rightarrow> rt_error + (nat \<times> heap)" where
  "memmove dst src n h =
     bnd (if dst < src then fold_err (copy_byte dst src) [0..<n] h
          else fold_err (copy_byte dst src) (rev [0..<n]) h)
       (\<lambda>h'. Inr (dst, h'))"

definition memset :: "nat \<Rightarrow> int \<Rightarrow> nat \<Rightarrow> heap \<Rightarrow> rt_error + (nat \<times> heap)" where
  "memset dst c n h = bnd (fold_err (\<lambda>i. store (dst + i) (word_of_int c)) [0..<n] h) (\<lambda>h'. Inr (dst, h'))"

fun memcmp_from :: "heap \<Rightarrow> nat \<Rightarrow> nat \<Rightarrow> nat list \<Rightarrow> rt_error + int" where
  "memcmp_from h a b [] = Inr 0"
| "memcmp_from h a b (i # js) =
     bnd (load h (a + i)) (\<lambda>x. bnd (load h (b + i)) (\<lambda>y.
       if x \<noteq> y then Inr (uint x - uint y) else memcmp_from h a b js))"

definition memcmp :: "heap \<Rightarrow> nat \<Rightarrow> nat \<Rightarrow> nat \<Rightarrow> rt_error + int" where
  "memcmp h a b n = memcmp_from h a b [0..<n]"

subsection \<open>Reading strings\<close>

partial_function (option) strlen_from :: "heap \<Rightarrow> nat \<Rightarrow> nat \<Rightarrow> (rt_error + nat) option" where
  "strlen_from h s len =
     (case load h (s + len) of Inl e \<Rightarrow> Some (Inl e)
      | Inr b \<Rightarrow> if b \<noteq> 0 then strlen_from h s (len + 1) else Some (Inr len))"

declare strlen_from.simps [code]

definition strlen :: "heap \<Rightarrow> nat \<Rightarrow> (rt_error + nat) option" where
  "strlen h s = strlen_from h s 0"

partial_function (option) strcmp :: "heap \<Rightarrow> nat \<Rightarrow> nat \<Rightarrow> (rt_error + int) option" where
  "strcmp h a b =
     (case bnd (load h a) (\<lambda>x. bnd (load h b) (\<lambda>y. Inr (x, y))) of Inl e \<Rightarrow> Some (Inl e)
      | Inr (x, y) \<Rightarrow> if x \<noteq> 0 \<and> x = y then strcmp h (a + 1) (b + 1) else Some (Inr (uint x - uint y)))"

declare strcmp.simps [code]

fun strncmp_from :: "heap \<Rightarrow> nat \<Rightarrow> nat \<Rightarrow> nat list \<Rightarrow> rt_error + int" where
  "strncmp_from h a b [] = Inr 0"
| "strncmp_from h a b (i # js) =
     bnd (load h (a + i)) (\<lambda>x. bnd (load h (b + i)) (\<lambda>y.
       if x \<noteq> y then Inr (uint x - uint y) else if x = 0 then Inr 0 else strncmp_from h a b js))"

definition strncmp :: "heap \<Rightarrow> nat \<Rightarrow> nat \<Rightarrow> nat \<Rightarrow> rt_error + int" where
  "strncmp h a b n = strncmp_from h a b [0..<n]"

definition null_or :: "int \<Rightarrow> nat \<Rightarrow> nat option \<Rightarrow> nat option" where
  "null_or c s p = (if c = 0 then Some s else p)"

partial_function (option) strchr :: "heap \<Rightarrow> nat \<Rightarrow> int \<Rightarrow> (rt_error + nat option) option" where
  "strchr h s c =
     (case load h s of Inl e \<Rightarrow> Some (Inl e)
      | Inr b \<Rightarrow> if b \<noteq> 0 then (if b = word_of_int c then Some (Inr (Some s)) else strchr h (s + 1) c)
                 else Some (Inr (null_or c s None)))"

declare strchr.simps [code]

partial_function (option) strrchr_from :: "heap \<Rightarrow> nat \<Rightarrow> int \<Rightarrow> nat option \<Rightarrow> (rt_error + nat option) option" where
  "strrchr_from h s c seen =
     (case load h s of Inl e \<Rightarrow> Some (Inl e)
      | Inr b \<Rightarrow> if b \<noteq> 0 then strrchr_from h (s + 1) c (if b = word_of_int c then Some s else seen)
                 else Some (Inr (null_or c s seen)))"

declare strrchr_from.simps [code]

definition strrchr :: "heap \<Rightarrow> nat \<Rightarrow> int \<Rightarrow> (rt_error + nat option) option" where
  "strrchr h s c = strrchr_from h s c None"

text \<open>The inner loop of \<^verbatim>\<open>strstr\<close> and the test behind it: whether the loop reaches the end of the needle.\<close>

partial_function (option) matches_at :: "heap \<Rightarrow> nat \<Rightarrow> nat \<Rightarrow> (rt_error + bool) option" where
  "matches_at h p n =
     (case bnd (load h p) (\<lambda>x. bnd (load h n) (\<lambda>y. Inr (x, y))) of Inl e \<Rightarrow> Some (Inl e)
      | Inr (x, y) \<Rightarrow> if x \<noteq> 0 \<and> y \<noteq> 0 \<and> x = y then matches_at h (p + 1) (n + 1) else Some (Inr (y = 0)))"

declare matches_at.simps [code]

partial_function (option) strstr_from :: "heap \<Rightarrow> nat \<Rightarrow> nat \<Rightarrow> (rt_error + nat option) option" where
  "strstr_from h hay needle =
     (case load h hay of Inl e \<Rightarrow> Some (Inl e)
      | Inr b \<Rightarrow> if b = 0 then Some (Inr None)
                 else (case matches_at h hay needle of None \<Rightarrow> None
                       | Some (Inl e) \<Rightarrow> Some (Inl e)
                       | Some (Inr found) \<Rightarrow> if found then Some (Inr (Some hay)) else strstr_from h (hay + 1) needle))"

declare strstr_from.simps [code]

definition strstr :: "heap \<Rightarrow> nat \<Rightarrow> nat \<Rightarrow> (rt_error + nat option) option" where
  "strstr h hay needle =
     (case load h needle of Inl e \<Rightarrow> Some (Inl e)
      | Inr b \<Rightarrow> if b = 0 then Some (Inr (Some hay)) else strstr_from h hay needle)"

subsection \<open>Writing strings\<close>

text \<open>\<^verbatim>\<open>while ((*d++ = *src++));\<close>\<close>

partial_function (option) copy_string :: "nat \<Rightarrow> nat \<Rightarrow> heap \<Rightarrow> (rt_error + heap) option" where
  "copy_string d src h =
     (case bnd (load h src) (\<lambda>b. bnd (store d b h) (\<lambda>h'. Inr (b, h'))) of Inl e \<Rightarrow> Some (Inl e)
      | Inr (b, h') \<Rightarrow> if b \<noteq> 0 then copy_string (d + 1) (src + 1) h' else Some (Inr h'))"

declare copy_string.simps [code]

definition strcpy :: "nat \<Rightarrow> nat \<Rightarrow> heap \<Rightarrow> (rt_error + (nat \<times> heap)) option" where
  "strcpy dst src h = map_option (\<lambda>r. bnd r (\<lambda>h'. Inr (dst, h'))) (copy_string dst src h)"

text \<open>The first loop of \<^verbatim>\<open>strncpy\<close> and \<^verbatim>\<open>strncat\<close>: up to \<open>n\<close> bytes that are not zero, and how many.\<close>

fun copy_upto :: "nat \<Rightarrow> nat \<Rightarrow> nat \<Rightarrow> nat \<Rightarrow> heap \<Rightarrow> rt_error + (nat \<times> heap)" where
  "copy_upto dst src i 0 h = Inr (i, h)"
| "copy_upto dst src i (Suc n) h =
     bnd (load h (src + i)) (\<lambda>b.
       if b = 0 then Inr (i, h)
       else bnd (store (dst + i) b h) (copy_upto dst src (i + 1) n))"

definition strncpy :: "nat \<Rightarrow> nat \<Rightarrow> nat \<Rightarrow> heap \<Rightarrow> rt_error + (nat \<times> heap)" where
  "strncpy dst src n h =
     bnd (copy_upto dst src 0 n h) (\<lambda>(i, h').
     bnd (fold_err (\<lambda>j. store (dst + j) 0) [i..<n] h') (\<lambda>h''. Inr (dst, h'')))"

definition strcat :: "nat \<Rightarrow> nat \<Rightarrow> heap \<Rightarrow> (rt_error + (nat \<times> heap)) option" where
  "strcat dst src h =
     (case strlen h dst of None \<Rightarrow> None | Some (Inl e) \<Rightarrow> Some (Inl e)
      | Some (Inr len) \<Rightarrow> map_option (\<lambda>r. bnd r (\<lambda>h'. Inr (dst, h'))) (copy_string (dst + len) src h))"

definition strncat :: "nat \<Rightarrow> nat \<Rightarrow> nat \<Rightarrow> heap \<Rightarrow> (rt_error + (nat \<times> heap)) option" where
  "strncat dst src n h =
     (case strlen h dst of None \<Rightarrow> None | Some (Inl e) \<Rightarrow> Some (Inl e)
      | Some (Inr len) \<Rightarrow>
          Some (bnd (copy_upto (dst + len) src 0 n h) (\<lambda>(i, h').
                bnd (store (dst + len + i) 0 h') (\<lambda>h''. Inr (dst, h'')))))"

end
