(* ===== verification/Rt_Mem_Props.thy ===== *)
theory Rt_Mem_Props
  imports Rt_Mem
begin

text \<open>
  What the memory and string functions of the runtime promise: \<^verbatim>\<open>memmove\<close> moves overlapping blocks,
  the comparisons order byte strings lexicographically, the searches find the first or the last
  occurrence, the copies write the string and nothing else.
\<close>

subsection \<open>What memory holds\<close>

definition mapped :: "heap \<Rightarrow> nat \<Rightarrow> nat \<Rightarrow> bool" where
  "mapped h a n \<longleftrightarrow> list_all (\<lambda>x. h x \<noteq> None) [a..<a + n]"

fun holds :: "heap \<Rightarrow> nat \<Rightarrow> u8 list \<Rightarrow> bool" where
  "holds h a [] \<longleftrightarrow> True"
| "holds h a (b # bs) \<longleftrightarrow> h a = Some b \<and> holds h (a + 1) bs"

definition cstr_at :: "heap \<Rightarrow> nat \<Rightarrow> u8 list \<Rightarrow> bool" where
  "cstr_at h a s \<longleftrightarrow> 0 \<notin> set s \<and> holds h a (s @ [0])"

text \<open>Memory after \<open>n\<close> bytes have been moved, and after bytes have been written.\<close>

definition moved :: "nat \<Rightarrow> nat \<Rightarrow> nat \<Rightarrow> heap \<Rightarrow> heap" where
  "moved d s n h = (\<lambda>x. if d \<le> x \<and> x < d + n then h (s + (x - d)) else h x)"

fun put_bytes :: "nat \<Rightarrow> u8 list \<Rightarrow> heap \<Rightarrow> heap" where
  "put_bytes a [] h = h"
| "put_bytes a (b # bs) h = put_bytes (a + 1) bs (h(a \<mapsto> b))"

lemma mappedD: "mapped h a n \<Longrightarrow> i < n \<Longrightarrow> h (a + i) \<noteq> None"
  by (simp add: mapped_def list_all_iff)

lemma mapped_Suc: "mapped h a (Suc n) \<longleftrightarrow> h a \<noteq> None \<and> mapped h (a + 1) n"
  by (simp add: mapped_def upt_conv_Cons del: upt_Suc)

lemma load_Some: "h a = Some b \<Longrightarrow> load h a = Inr b"
  by (simp add: load_def)

lemma store_mapped: "h a \<noteq> None \<Longrightarrow> store a b h = Inr (h(a \<mapsto> b))"
  by (simp add: store_def)

lemma cstr_at_simps [simp]:
  "cstr_at h a [] \<longleftrightarrow> h a = Some 0"
  "cstr_at h a (b # s) \<longleftrightarrow> b \<noteq> 0 \<and> h a = Some b \<and> cstr_at h (a + 1) s"
  by (auto simp: cstr_at_def)

subsection \<open>Blocks\<close>

lemma copy_up_moves:
  assumes "d < s" "mapped h s n" "mapped h d n"
  shows "fold_err (copy_byte d s) [0..<n] h = Inr (moved d s n h)"
  using assms(2,3)
proof (induction n)
  case 0
  then show ?case by (auto simp: moved_def fun_eq_iff)
next
  case (Suc n)
  have m: "mapped h s n" "mapped h d n" using Suc.prems by (simp_all add: mapped_def)
  have "moved d s n h (s + n) = h (s + n)" "moved d s n h (d + n) = h (d + n)"
    using assms(1) by (simp_all add: moved_def)
  moreover obtain b where "h (s + n) = Some b" using mappedD [OF Suc.prems(1), of n] by auto
  moreover have "h (d + n) \<noteq> None" using mappedD [OF Suc.prems(2), of n] by simp
  moreover have "(moved d s n h)(d + n \<mapsto> b) = moved d s (Suc n) h" if "h (s + n) = Some b" for b
    using that by (auto simp: moved_def fun_eq_iff less_Suc_eq)
  ultimately show ?case
    using Suc.IH [OF m] by (simp add: fold_err_append copy_byte_def load_Some store_mapped)
qed

definition half_moved :: "nat \<Rightarrow> nat \<Rightarrow> nat \<Rightarrow> nat \<Rightarrow> heap \<Rightarrow> heap" where
  "half_moved d s k n h = (\<lambda>x. if d + k \<le> x \<and> x < d + n then h (s + (x - d)) else h x)"

lemma copy_down_moves:
  assumes "s \<le> d" "mapped h s n" "mapped h d n" "k \<le> n"
  shows "fold_err (copy_byte d s) (rev [0..<k]) (half_moved d s k n h) = Inr (moved d s n h)"
  using assms(4)
proof (induction k)
  case 0
  then show ?case by (simp add: moved_def half_moved_def)
next
  case (Suc k)
  let ?h = "half_moved d s (Suc k) n h"
  have "?h (s + k) = h (s + k)" "?h (d + k) = h (d + k)" using assms(1) by (simp_all add: half_moved_def)
  moreover obtain b where b: "h (s + k) = Some b" using mappedD [OF assms(2), of k] Suc.prems by auto
  moreover have "h (d + k) \<noteq> None" using mappedD [OF assms(3), of k] Suc.prems by simp
  moreover have "?h(d + k \<mapsto> b) = half_moved d s k n h"
    using b Suc.prems by (auto simp: half_moved_def fun_eq_iff)
  ultimately show ?case using Suc.IH Suc.prems by (simp add: copy_byte_def load_Some store_mapped)
qed

text \<open>C28: memmove moves any n mapped bytes, also when the two blocks overlap: afterwards the
  destination holds what the source held before, and no other byte has changed.\<close>

theorem memmove_moves:
  assumes "mapped h src n" "mapped h dst n"
  shows "memmove dst src n h = Inr (dst, moved dst src n h)"
proof -
  have "half_moved dst src n n h = h" by (auto simp: half_moved_def fun_eq_iff)
  then show ?thesis
    using copy_up_moves [OF _ assms] copy_down_moves [OF _ assms order_refl] by (simp add: memmove_def not_less)
qed

definition demo_heap :: heap where
  "demo_heap = put_bytes 16 [97, 98, 99, 97, 98, 100, 0] (put_bytes 32 [97, 98, 100, 0] (\<lambda>_. None))"

theorem memmove_moves_witness:
  "memmove 18 16 4 demo_heap = Inr (18, moved 18 16 4 demo_heap) \<and> moved 18 16 4 demo_heap 20 = Some 99"
proof -
  have "mapped demo_heap 16 4" "mapped demo_heap 18 4" by code_simp+
  from memmove_moves [OF this] have m: "memmove 18 16 4 demo_heap = Inr (18, moved 18 16 4 demo_heap)" .
  have "moved 18 16 4 demo_heap 20 = Some 99" by code_simp
  with m show ?thesis ..
qed

subsection \<open>Comparisons\<close>

text \<open>The difference of two byte strings at the first place where they differ.\<close>

fun byte_diff :: "u8 list \<Rightarrow> u8 list \<Rightarrow> int" where
  "byte_diff [] [] = 0"
| "byte_diff [] (y # ys) = - uint y"
| "byte_diff (x # xs) [] = uint x"
| "byte_diff (x # xs) (y # ys) = (if x = y then byte_diff xs ys else uint x - uint y)"

lemma byte_diff_order:
  "0 \<notin> set s \<Longrightarrow> 0 \<notin> set t \<Longrightarrow> (byte_diff s t < 0 \<longleftrightarrow> ord_class.lexordp s t) \<and> (byte_diff s t = 0 \<longleftrightarrow> s = t)"
proof (induction s t rule: byte_diff.induct)
  case (2 y ys)
  then have "0 < uint y" by (auto simp: order.strict_iff_order word_uint_eq_iff)
  then show ?case by simp
next
  case (3 x xs)
  then have "0 < uint x" by (auto simp: order.strict_iff_order word_uint_eq_iff)
  then show ?case by simp
next
  case (4 x xs y ys)
  show ?case
  proof (cases "x = y")
    case False
    then have "uint x \<noteq> uint y" by (simp add: word_uint_eq_iff)
    then show ?thesis using False by (auto simp: word_less_def)
  qed (use 4 in simp)
qed simp

lemma strcmp_diff: "cstr_at h a s \<Longrightarrow> cstr_at h b t \<Longrightarrow> strcmp h a b = Some (Inr (byte_diff s t))"
proof (induction s t arbitrary: a b rule: byte_diff.induct)
  case (4 x xs y ys)
  then show ?case by (subst strcmp.simps) (auto simp: load_Some)
qed (subst strcmp.simps, simp add: load_Some)+

lemma strncmp_diff:
  "cstr_at h (a + i) s \<Longrightarrow> cstr_at h (b + i) t \<Longrightarrow> strncmp_from h a b [i..<i + n] = Inr (byte_diff (take n s) (take n t))"
proof (induction n arbitrary: i s t)
  case (Suc n)
  have u: "[i..<i + Suc n] = i # [Suc i..<Suc i + n]" by (simp add: upt_conv_Cons del: upt_Suc)
  show ?case unfolding u using Suc.prems Suc.IH [of "Suc i" "tl s" "tl t"]
    by (cases s; cases t) (auto simp: load_Some simp del: upt_Suc)
qed simp

text \<open>strcmp and strncmp order strings as unsigned bytes, lexicographically: the result is
  negative when the first string (its first n bytes) comes first, and zero when they are equal.\<close>

lemma strcmp_orders:
  assumes "cstr_at h a s" "cstr_at h b t"
  shows "\<exists>r q. strcmp h a b = Some (Inr r) \<and> (r < 0 \<longleftrightarrow> ord_class.lexordp s t) \<and> (r = 0 \<longleftrightarrow> s = t)
    \<and> strncmp h a b n = Inr q \<and> (q < 0 \<longleftrightarrow> ord_class.lexordp (take n s) (take n t)) \<and> (q = 0 \<longleftrightarrow> take n s = take n t)"
proof -
  have "0 \<notin> set s" "0 \<notin> set t" using assms by (simp_all add: cstr_at_def)
  then have "0 \<notin> set (take n s)" "0 \<notin> set (take n t)" by (meson in_set_takeD)+
  then show ?thesis
    using byte_diff_order [OF \<open>0 \<notin> set s\<close> \<open>0 \<notin> set t\<close>] byte_diff_order [of "take n s" "take n t"]
      strcmp_diff [OF assms] strncmp_diff [of h a 0 s b t n] assms by (auto simp: strncmp_def)
qed

lemma demo_strings: "cstr_at demo_heap 16 [97, 98, 99, 97, 98, 100]" "cstr_at demo_heap 32 [97, 98, 100]"
  by code_simp+

lemma strcmp_orders_witness:
  "\<exists>r. strcmp demo_heap 16 32 = Some (Inr r) \<and> r < 0 \<and> strncmp demo_heap 16 32 2 = Inr 0"
proof -
  have "ord_class.lexordp [97, 98, 99, 97, 98, 100 :: u8] [97, 98, 100]" by code_simp
  then show ?thesis using strcmp_orders [OF demo_strings, of 2] by auto
qed

subsection \<open>Searches\<close>

lemma find_map: "find P (map f xs) = map_option f (find (\<lambda>x. P (f x)) xs)"
  by (induction xs) simp_all

lemma find_append: "find P (xs @ ys) = (case find P xs of None \<Rightarrow> find P ys | Some x \<Rightarrow> Some x)"
  by (induction xs) simp_all

lemma find_upt_Suc: "find P [0..<Suc n] = (if P 0 then Some 0 else map_option Suc (find (\<lambda>i. P (Suc i)) [0..<n]))"
proof -
  have "[0..<Suc n] = 0 # map Suc [0..<n]" by (simp add: upt_conv_Cons map_Suc_upt del: upt_Suc)
  then show ?thesis by (simp add: find_map)
qed

lemma matches_at_prefix:
  "cstr_at h p s \<Longrightarrow> cstr_at h q t \<Longrightarrow> matches_at h p q = Some (Inr (take (length t) s = t))"
proof (induction s arbitrary: p q t)
  case Nil
  then show ?case by (subst matches_at.simps) (cases t; simp add: load_Some)
next
  case (Cons x s)
  show ?case
  proof (cases t)
    case Nil
    then show ?thesis using Cons.prems by (subst matches_at.simps) (simp add: load_Some)
  next
    case (Cons y t')
    then have "matches_at h (p + 1) (q + 1) = Some (Inr (take (length t') s = t'))"
      using Cons.IH [of "p + 1" "q + 1" t'] Cons.prems by simp
    then show ?thesis using Cons Cons.prems by (subst matches_at.simps) (simp add: load_Some)
  qed
qed

lemma strstr_from_finds:
  "cstr_at h p s \<Longrightarrow> cstr_at h q t \<Longrightarrow>
   strstr_from h p q = Some (Inr (map_option ((+) p) (find (\<lambda>i. take (length t) (drop i s) = t) [0..<length s])))"
proof (induction s arbitrary: p)
  case Nil
  then show ?case by (subst strstr_from.simps) (simp add: load_Some)
next
  case (Cons x s)
  have "strstr_from h (p + 1) q =
      Some (Inr (map_option ((+) (p + 1)) (find (\<lambda>i. take (length t) (drop i s) = t) [0..<length s])))"
    using Cons by simp
  moreover have "(+) (p + 1) = (\<lambda>i. p + Suc i)" by auto
  ultimately show ?case
    using matches_at_prefix [OF Cons.prems] Cons.prems(1)
    by (subst strstr_from.simps) (simp add: load_Some find_upt_Suc option.map_comp comp_def del: upt_Suc)
qed

text \<open>strstr returns the address of the first place where the needle occurs in the haystack,
  the haystack itself for an empty needle, and the null pointer when there is none.\<close>

lemma strstr_finds_first:
  assumes "cstr_at h hay s" "cstr_at h needle t"
  shows "strstr h hay needle = Some (Inr (map_option ((+) hay) (find (\<lambda>i. take (length t) (drop i s) = t) [0..<Suc (length s)])))"
proof (cases t)
  case Nil
  then show ?thesis using assms by (simp add: strstr_def load_Some find_upt_Suc del: upt_Suc)
next
  case (Cons y t')
  have "find P [0..<Suc n] = find P [0..<n]" if "\<not> P n" for P and n :: nat
    using that by (simp add: find_append split: option.splits)
  moreover have "strstr h hay needle = strstr_from h hay needle" using Cons assms(2) by (simp add: strstr_def load_Some)
  ultimately show ?thesis using strstr_from_finds [OF assms] Cons by (simp del: upt_Suc)
qed

lemma strstr_finds_first_witness: "strstr demo_heap 16 32 = Some (Inr (Some 19))"
proof -
  have "find (\<lambda>i. take (length [97, 98, 100 :: u8]) (drop i [97, 98, 99, 97, 98, 100 :: u8]) = [97, 98, 100])
      [0..<Suc (length [97, 98, 99, 97, 98, 100 :: u8])] = Some 3" by code_simp
  then show ?thesis unfolding strstr_finds_first [OF demo_strings] by simp
qed

lemma strlen_from_length: "cstr_at h (a + k) s \<Longrightarrow> strlen_from h a k = Some (Inr (k + length s))"
proof (induction s arbitrary: k)
  case Nil
  then show ?case by (subst strlen_from.simps) (simp add: load_Some)
next
  case (Cons b s)
  then show ?case using Cons.IH [of "k + 1"] by (subst strlen_from.simps) (simp add: load_Some)
qed

lemma strlen_length: "cstr_at h a s \<Longrightarrow> strlen h a = Some (Inr (length s))"
  using strlen_from_length [of h a 0 s] by (simp add: strlen_def)

subsection \<open>Copies\<close>

lemma holds_update: "x < a \<or> a + length bs \<le> x \<Longrightarrow> holds (h(x \<mapsto> b)) a bs \<longleftrightarrow> holds h a bs"
  by (induction bs arbitrary: a) auto

lemma cstr_at_update: "x < a \<or> a + length s < x \<Longrightarrow> cstr_at (h(x \<mapsto> b)) a s \<longleftrightarrow> cstr_at h a s"
  using holds_update [of x a "s @ [0]" h b] by (auto simp: cstr_at_def)

lemma mapped_update: "mapped h a n \<Longrightarrow> mapped (h(x \<mapsto> b)) a n"
  by (auto simp: mapped_def list_all_iff)

lemma put_bytes_other: "x < a \<or> a + length bs \<le> x \<Longrightarrow> put_bytes a bs h x = h x"
  by (induction bs arbitrary: a h) auto

lemma holds_put_bytes: "holds (put_bytes a bs h) a bs"
  by (induction bs arbitrary: a h) (auto simp: put_bytes_other)

lemma holds_append: "holds h a (xs @ ys) \<longleftrightarrow> holds h a xs \<and> holds h (a + length xs) ys"
  by (induction xs arbitrary: a) auto

lemma holds_cong: "(\<And>x. a \<le> x \<Longrightarrow> x < a + length bs \<Longrightarrow> h x = h' x) \<Longrightarrow> holds h a bs \<longleftrightarrow> holds h' a bs"
proof (induction bs arbitrary: a)
  case (Cons b bs)
  then show ?case using Cons.IH [of "a + 1"] by simp
qed simp

lemma copy_string_copies:
  "cstr_at h p s \<Longrightarrow> mapped h d (Suc (length s)) \<Longrightarrow> d + length s < p \<or> p + length s < d \<Longrightarrow>
   copy_string d p h = Some (Inr (put_bytes d (s @ [0]) h))"
proof (induction s arbitrary: d p h)
  case Nil
  then show ?case by (subst copy_string.simps) (simp add: load_Some store_mapped mapped_Suc)
next
  case (Cons b s)
  have "cstr_at (h(d \<mapsto> b)) (p + 1) s" using Cons.prems by (subst cstr_at_update) auto
  moreover have "mapped h (d + 1) (Suc (length s))" using Cons.prems(2) mapped_Suc [of h d "Suc (length s)"] by simp
  then have "mapped (h(d \<mapsto> b)) (d + 1) (Suc (length s))" by (rule mapped_update)
  ultimately have "copy_string (d + 1) (p + 1) (h(d \<mapsto> b)) = Some (Inr (put_bytes (d + 1) (s @ [0]) (h(d \<mapsto> b))))"
    by (rule Cons.IH) (use Cons.prems(3) in auto)
  then show ?case using Cons.prems by (subst copy_string.simps) (simp add: load_Some store_mapped mapped_Suc)
qed

text \<open>Strcat appends: with a destination string, room behind it and a source that does not
  overlap the bytes written, the destination holds the two strings one after the other, and only
  the bytes from the old terminator to the new one are written.\<close>

lemma strcat_appends:
  assumes "cstr_at h dst t" "cstr_at h src s" "mapped h (dst + length t) (Suc (length s))"
    and "dst + length t + length s < src \<or> src + length s < dst + length t"
  shows "strcat dst src h = Some (Inr (dst, put_bytes (dst + length t) (s @ [0]) h))
    \<and> cstr_at (put_bytes (dst + length t) (s @ [0]) h) dst (t @ s)"
proof
  show "strcat dst src h = Some (Inr (dst, put_bytes (dst + length t) (s @ [0]) h))"
    using strlen_length [OF assms(1)] copy_string_copies [OF assms(2-4)] by (simp add: strcat_def)
  have "holds (put_bytes (dst + length t) (s @ [0]) h) dst t \<longleftrightarrow> holds h dst t"
    by (rule holds_cong) (simp add: put_bytes_other)
  then show "cstr_at (put_bytes (dst + length t) (s @ [0]) h) dst (t @ s)"
    using assms(1,2) holds_put_bytes [of "dst + length t" "s @ [0]" h]
    by (simp add: cstr_at_def holds_append)
qed

lemma strcat_appends_witness:
  "cstr_at (put_bytes 35 [97, 98, 99, 97, 98, 100, 0] (put_bytes 35 (replicate 10 0) demo_heap)) 32
     ([97, 98, 100] @ [97, 98, 99, 97, 98, 100])"
proof -
  let ?h = "put_bytes 35 (replicate 10 0) demo_heap"
  have "cstr_at ?h 32 [97, 98, 100]" "cstr_at ?h 16 [97, 98, 99, 97, 98, 100]" "mapped ?h (32 + length [97, 98, 100 :: u8])
      (Suc (length [97, 98, 99, 97, 98, 100 :: u8]))" by code_simp+
  from strcat_appends [OF this] show ?thesis by simp
qed

end
