(* ===== verification/Rt_Format.thy ===== *)
theory Rt_Format
  imports Prelude_B1
begin

text \<open>
  Numbers as text in the runtime library, \<^verbatim>\<open>src/runtime/runtime.c\<close>: \<^verbatim>\<open>write_num\<close>,
  \<^verbatim>\<open>snprintf\<close>, \<^verbatim>\<open>sprintf\<close>, \<^verbatim>\<open>atol\<close> and \<^verbatim>\<open>atoi\<close>; and the 64-bit division of
  \<^verbatim>\<open>src/runtime/divdi3.c\<close>.

  The buffer is the array it points into, as long as the array really is; a write outside it is an
  error.  Format strings and string arguments are the characters in front of their terminator and
  do not overlap the buffer.  The arguments are eight-byte slots or strings.
\<close>

datatype fmt_error = Out_Of_Buffer nat | Past_Format | No_Argument | Negate_Overflow | Long_Overflow | Zero_Division

datatype va_arg = Va_Long u64 | Va_String "string option"

definition put :: "nat \<Rightarrow> char \<Rightarrow> string \<Rightarrow> fmt_error + string" where
  "put pos c buf = (if pos < length buf then Inr (buf[pos := c]) else Inl (Out_Of_Buffer pos))"

text \<open>A run of writes \<^verbatim>\<open>buf[pos++] = c\<close>.\<close>

fun put_all :: "nat \<Rightarrow> string \<Rightarrow> string \<Rightarrow> fmt_error + (nat \<times> string)" where
  "put_all pos [] buf = Inr (pos, buf)"
| "put_all pos (c # cs) buf = bnd (put pos c buf) (put_all (pos + 1) cs)"

subsection \<open>Numbers\<close>

definition digit_of :: "nat \<Rightarrow> char" where
  "digit_of d = (if d < 10 then char_of (48 + d) else char_of (97 + d - 10))"

text \<open>The array \<^verbatim>\<open>tmp\<close>, least significant digit first.\<close>

fun tmp_digits :: "nat \<Rightarrow> nat \<Rightarrow> string" where
  "tmp_digits base val =
     (if val = 0 \<or> base < 2 then [] else digit_of (val mod base) # tmp_digits base (val div base))"

declare tmp_digits.simps [simp del]

definition write_num :: "u64 \<Rightarrow> nat \<Rightarrow> nat \<Rightarrow> string \<Rightarrow> fmt_error + (nat \<times> string)" where
  "write_num val base pos buf =
     (if val = 0 then put_all pos [CHR ''0''] buf else put_all pos (rev (tmp_digits base (unat val))) buf)"

subsection \<open>Formatted output\<close>

text \<open>Whether there is room for one more character: \<^verbatim>\<open>snprintf\<close> compares with \<^verbatim>\<open>size - 1\<close>,
  \<^verbatim>\<open>sprintf\<close> does not ask.\<close>

definition room :: "nat option \<Rightarrow> nat \<Rightarrow> bool" where
  "room lim pos = (case lim of None \<Rightarrow> True | Some l \<Rightarrow> pos < l)"

fun put_string :: "nat option \<Rightarrow> nat \<Rightarrow> string \<Rightarrow> string \<Rightarrow> fmt_error + (nat \<times> string)" where
  "put_string lim pos [] buf = Inr (pos, buf)"
| "put_string lim pos (c # cs) buf =
     (if room lim pos then bnd (put pos c buf) (put_string lim (pos + 1) cs) else Inr (pos, buf))"

definition skip_spec :: "string \<Rightarrow> string" where
  "skip_spec f =
     (let f = dropWhile (\<lambda>c. c \<in> set ''-+ 0#'') f; f = dropWhile is_dec_digit f;
          f = (if f \<noteq> [] \<and> hd f = CHR ''l'' then tl f else f)
      in if f \<noteq> [] \<and> hd f = CHR ''z'' then tl f else f)"

fun take_long :: "va_arg list \<Rightarrow> fmt_error + (u64 \<times> va_arg list)" where
  "take_long (Va_Long v # args) = Inr (v, args)"
| "take_long args = Inl No_Argument"

fun take_string :: "va_arg list \<Rightarrow> fmt_error + (string option \<times> va_arg list)" where
  "take_string (Va_String s # args) = Inr (s, args)"
| "take_string args = Inl No_Argument"

definition print_signed :: "nat option \<Rightarrow> u64 \<Rightarrow> nat \<Rightarrow> string \<Rightarrow> fmt_error + (nat \<times> string)" where
  "print_signed lim val pos buf =
     (if sint val < 0 \<and> room lim pos then
        bnd (put pos (CHR ''-'') buf) (\<lambda>buf1.
          if sint val = - (2 ^ 63) then Inl Negate_Overflow else write_num (- val) 10 (pos + 1) buf1)
      else write_num val 10 pos buf)"

definition conversion :: "nat option \<Rightarrow> char \<Rightarrow> va_arg list \<Rightarrow> nat \<Rightarrow> string \<Rightarrow> fmt_error + (va_arg list \<times> nat \<times> string)" where
  "conversion lim k args pos buf =
     (if k = CHR ''d'' \<or> k = CHR ''i'' then
        bnd (take_long args) (\<lambda>(v, args). bnd (print_signed lim v pos buf) (\<lambda>r. Inr (args, r)))
      else if k = CHR ''u'' then
        bnd (take_long args) (\<lambda>(v, args). bnd (write_num v 10 pos buf) (\<lambda>r. Inr (args, r)))
      else if k = CHR ''x'' then
        bnd (take_long args) (\<lambda>(v, args). bnd (write_num v 16 pos buf) (\<lambda>r. Inr (args, r)))
      else if k = CHR ''s'' then
        bnd (take_string args) (\<lambda>(s, args).
        bnd (put_string lim pos (case s of None \<Rightarrow> ''(null)'' | Some t \<Rightarrow> t) buf) (\<lambda>r. Inr (args, r)))
      else if k = CHR ''p'' then
        bnd (take_long args) (\<lambda>(v, args).
        bnd (put_all pos ''0x'' buf) (\<lambda>(pos, buf). bnd (write_num v 16 pos buf) (\<lambda>r. Inr (args, r))))
      else if k = CHR ''c'' then
        bnd (take_long args) (\<lambda>(v, args). bnd (put_string lim pos [char_of (unat v)] buf) (\<lambda>r. Inr (args, r)))
      else bnd (put_string lim pos [CHR ''%'', k] buf) (\<lambda>r. Inr (args, r)))"

text \<open>The loop over the format.  A format that ends inside a conversion is read past its
  terminator.\<close>

lemma length_skip_spec: "length (skip_spec f) \<le> length f"
proof -
  have "length (dropWhile is_dec_digit (dropWhile P f)) \<le> length f" for P
    using length_dropWhile_le [of is_dec_digit "dropWhile P f"] length_dropWhile_le [of P f] by simp
  then show ?thesis by (auto simp: skip_spec_def Let_def intro: le_trans [rotated] diff_le_self)
qed

function format_loop :: "nat option \<Rightarrow> string \<Rightarrow> va_arg list \<Rightarrow> nat \<Rightarrow> string \<Rightarrow> fmt_error + (nat \<times> string)" where
  "format_loop lim f args pos buf =
     (if f = [] \<or> \<not> room lim pos then Inr (pos, buf)
      else if hd f \<noteq> CHR ''%'' then bnd (put pos (hd f) buf) (format_loop lim (tl f) args (pos + 1))
      else if tl f \<noteq> [] \<and> hd (tl f) = CHR ''%'' then
        bnd (put pos (CHR ''%'') buf) (format_loop lim (tl (tl f)) args (pos + 1))
      else (case skip_spec (tl f) of
          [] \<Rightarrow> bnd (conversion lim (CHR 0x00) args pos buf) (\<lambda>_. Inl Past_Format)
        | k # rest \<Rightarrow> bnd (conversion lim k args pos buf) (\<lambda>(args, pos, buf). format_loop lim rest args pos buf)))"
  by pat_completeness auto
termination
proof (relation "measure (\<lambda>(lim, f, args, pos, buf). length f)", goal_cases)
  case (4 lim f args pos buf k rest)
  then show ?case using length_skip_spec [of "tl f"] by (cases f) auto
qed auto

declare format_loop.simps [simp del]

definition snprintf :: "string \<Rightarrow> u64 \<Rightarrow> string \<Rightarrow> va_arg list \<Rightarrow> fmt_error + (nat \<times> string)" where
  "snprintf buf sz fmt args =
     bnd (format_loop (Some (unat (sz - 1))) fmt args 0 buf) (\<lambda>(pos, buf).
       if sz > 0 then
         bnd (put (if pos < unat sz then pos else unat (sz - 1)) (CHR 0x00) buf) (\<lambda>buf. Inr (pos, buf))
       else Inr (pos, buf))"

definition sprintf :: "string \<Rightarrow> string \<Rightarrow> va_arg list \<Rightarrow> fmt_error + (nat \<times> string)" where
  "sprintf buf fmt args =
     bnd (format_loop None fmt args 0 buf) (\<lambda>(pos, buf). bnd (put pos (CHR 0x00) buf) (\<lambda>buf. Inr (pos, buf)))"

subsection \<open>Reading numbers\<close>

definition c_long_step :: "char \<Rightarrow> int \<Rightarrow> fmt_error + int" where
  "c_long_step c result =
     (let r = result * 10 + (int (of_char c) - 48) in if r < 2 ^ 63 then Inr r else Inl Long_Overflow)"

definition atol :: "string \<Rightarrow> fmt_error + int" where
  "atol s =
     (let s = dropWhile (\<lambda>c. c \<in> set [CHR '' '', CHR 0x09, CHR 0x0A]) s;
          (neg, s) = (case s of [] \<Rightarrow> (False, []) | c # cs \<Rightarrow>
             if c = CHR ''-'' then (True, cs) else if c = CHR ''+'' then (False, cs) else (False, s))
      in bnd (fold_err c_long_step (takeWhile is_dec_digit s) 0) (\<lambda>r. Inr (if neg then - r else r)))"

definition atoi :: "string \<Rightarrow> fmt_error + int" where
  "atoi s = bnd (atol s) (\<lambda>r. Inr (sint (word_of_int r :: u32)))"

subsection \<open>Division\<close>

definition abs_di :: "u64 \<Rightarrow> fmt_error + u64" where
  "abs_di a = (if sint a < 0 then (if sint a = - (2 ^ 63) then Inl Negate_Overflow else Inr (- a)) else Inr a)"

definition divdi3 :: "u64 \<Rightarrow> u64 \<Rightarrow> fmt_error + u64" where
  "divdi3 a b =
     bnd (abs_di a) (\<lambda>ua. bnd (abs_di b) (\<lambda>ub.
       if ub = 0 then Inl Zero_Division
       else let q = ua div ub in Inr (if (sint a < 0) \<noteq> (sint b < 0) then - q else q)))"

definition moddi3 :: "u64 \<Rightarrow> u64 \<Rightarrow> fmt_error + u64" where
  "moddi3 a b =
     bnd (abs_di a) (\<lambda>ua. bnd (abs_di b) (\<lambda>ub.
       if ub = 0 then Inl Zero_Division
       else let r = ua mod ub in Inr (if sint a < 0 then - r else r)))"

definition udivdi3 :: "u64 \<Rightarrow> u64 \<Rightarrow> fmt_error + u64" where
  "udivdi3 a b = (if b = 0 then Inl Zero_Division else Inr (a div b))"

definition umoddi3 :: "u64 \<Rightarrow> u64 \<Rightarrow> fmt_error + u64" where
  "umoddi3 a b = (if b = 0 then Inl Zero_Division else Inr (a mod b))"

end
