(* ===== verification/Rt_Format_Props.thy ===== *)
theory Rt_Format_Props
  imports Rt_Format "HOL-Library.Signed_Division"
begin

text \<open>
  Formatted output prints what its format says as long as it fits, reading a printed number gives
  it back, a number that does not fit is written past the end of the buffer, and the software
  division truncates towards zero.
\<close>

subsection \<open>Writing into the buffer\<close>

definition overwrite :: "nat \<Rightarrow> string \<Rightarrow> string \<Rightarrow> string" where
  "overwrite pos cs buf = take pos buf @ cs @ drop (pos + length cs) buf"

lemma length_overwrite [simp]: "pos + length cs \<le> length buf \<Longrightarrow> length (overwrite pos cs buf) = length buf"
  by (simp add: overwrite_def)

lemma overwrite_Nil [simp]: "overwrite pos [] buf = buf"
  by (simp add: overwrite_def)

lemma overwrite_one: "pos < length buf \<Longrightarrow> buf[pos := c] = overwrite pos [c] buf"
  by (simp add: overwrite_def upd_conv_take_nth_drop)

lemma overwrite_append:
  "pos + length cs \<le> length buf \<Longrightarrow> overwrite (pos + length cs) ds (overwrite pos cs buf) = overwrite pos (cs @ ds) buf"
  by (simp add: overwrite_def ac_simps)

lemma overwrite_Cons:
  "pos < length buf \<Longrightarrow> overwrite (Suc pos) ds (buf[pos := c]) = overwrite pos (c # ds) buf"
  using overwrite_append [of pos "[c]" buf ds] by (simp add: overwrite_one)

lemma put_all_fits: "pos + length cs \<le> length buf \<Longrightarrow> put_all pos cs buf = Inr (pos + length cs, overwrite pos cs buf)"
  by (induction cs arbitrary: pos buf) (auto simp: put_def overwrite_Cons)

lemma put_all_overruns:
  "pos \<le> length buf \<Longrightarrow> length buf < pos + length cs \<Longrightarrow> put_all pos cs buf = Inl (Out_Of_Buffer (length buf))"
proof (induction cs arbitrary: pos buf)
  case (Cons c cs)
  show ?case
  proof (cases "pos < length buf")
    case True
    then show ?thesis using Cons.IH [of "pos + 1" "buf[pos := c]"] Cons.prems by (simp add: put_def)
  qed (use Cons.prems in \<open>simp add: put_def\<close>)
qed simp

lemma put_string_fits:
  "pos + length cs \<le> l \<Longrightarrow> l \<le> length buf \<Longrightarrow>
   put_string (Some l) pos cs buf = Inr (pos + length cs, overwrite pos cs buf)"
  by (induction cs arbitrary: pos buf) (auto simp: put_def overwrite_Cons room_def)

subsection \<open>Digits\<close>

fun hex_of_nat :: "nat \<Rightarrow> string" where
  "hex_of_nat n = (if n < 16 then [digit_of n] else hex_of_nat (n div 16) @ [digit_of (n mod 16)])"

declare hex_of_nat.simps [simp del]

lemma dec_digits: "0 < n \<Longrightarrow> rev (tmp_digits 10 n) = dec_of_nat n"
proof (induction n rule: dec_of_nat.induct)
  case (1 n)
  have d: "digit_of (n mod 10) = digit_char (n mod 10)" by (simp add: digit_of_def digit_char_def)
  show ?case
  proof (cases "n < 10")
    case True
    then show ?thesis
      using 1 d by (subst tmp_digits.simps, subst tmp_digits.simps, subst dec_of_nat.simps) simp
  next
    case False
    then show ?thesis using 1 d by (subst tmp_digits.simps, subst dec_of_nat.simps) simp
  qed
qed

lemma hex_digits: "0 < n \<Longrightarrow> rev (tmp_digits 16 n) = hex_of_nat n"
proof (induction n rule: hex_of_nat.induct)
  case (1 n)
  show ?case
  proof (cases "n < 16")
    case True
    then show ?thesis using 1 by (subst tmp_digits.simps, subst tmp_digits.simps, subst hex_of_nat.simps) simp
  next
    case False
    then show ?thesis using 1 by (subst tmp_digits.simps, subst hex_of_nat.simps) simp
  qed
qed

lemma number_text:
  "(if v = 0 then [CHR ''0''] else rev (tmp_digits 10 (unat v))) = dec_of_nat (unat (v :: u64))"
  "(if v = 0 then [CHR ''0''] else rev (tmp_digits 16 (unat v))) = hex_of_nat (unat v)"
proof -
  have z: "dec_of_nat 0 = ''0''" by code_simp
  have zh: "hex_of_nat 0 = ''0''" by code_simp
  have "v \<noteq> 0 \<Longrightarrow> 0 < unat v" by (simp add: unat_gt_0)
  then show "(if v = 0 then [CHR ''0''] else rev (tmp_digits 10 (unat v))) = dec_of_nat (unat v)"
    "(if v = 0 then [CHR ''0''] else rev (tmp_digits 16 (unat v))) = hex_of_nat (unat v)"
    using dec_digits [of "unat v"] hex_digits [of "unat v"] z zh by auto
qed

lemma write_num_text:
  "write_num v 10 pos buf = put_all pos (dec_of_nat (unat v)) buf"
  "write_num v 16 pos buf = put_all pos (hex_of_nat (unat v)) buf"
  unfolding write_num_def number_text [symmetric] by (simp_all split: if_splits)

subsection \<open>Formats\<close>

text \<open>A format as a list of pieces: how each is written in the format string, the argument it takes
  and the text it prints.\<close>

datatype piece = Lit char | Percent | Signed int | Unsigned nat | Hex nat | Text string

fun fmt_of :: "piece \<Rightarrow> string" where
  "fmt_of (Lit c) = [c]"
| "fmt_of Percent = ''%%''"
| "fmt_of (Signed i) = ''%ld''"
| "fmt_of (Unsigned n) = ''%lu''"
| "fmt_of (Hex n) = ''%lx''"
| "fmt_of (Text s) = ''%s''"

fun args_of :: "piece \<Rightarrow> va_arg list" where
  "args_of (Signed i) = [Va_Long (word_of_int i)]"
| "args_of (Unsigned n) = [Va_Long (of_nat n)]"
| "args_of (Hex n) = [Va_Long (of_nat n)]"
| "args_of (Text s) = [Va_String (Some s)]"
| "args_of p = []"

fun text_of :: "piece \<Rightarrow> string" where
  "text_of (Lit c) = [c]"
| "text_of Percent = ''%''"
| "text_of (Signed i) = dec_of_int i"
| "text_of (Unsigned n) = dec_of_nat n"
| "text_of (Hex n) = hex_of_nat n"
| "text_of (Text s) = s"

fun piece_ok :: "piece \<Rightarrow> bool" where
  "piece_ok (Lit c) \<longleftrightarrow> c \<noteq> CHR ''%'' \<and> c \<noteq> CHR 0x00"
| "piece_ok (Signed i) \<longleftrightarrow> - (2 ^ 63) < i \<and> i < 2 ^ 63"
| "piece_ok (Unsigned n) \<longleftrightarrow> n < 2 ^ 64"
| "piece_ok (Hex n) \<longleftrightarrow> n < 2 ^ 64"
| "piece_ok (Text s) \<longleftrightarrow> CHR 0x00 \<notin> set s"
| "piece_ok Percent \<longleftrightarrow> True"

lemma sint_long: "- (2 ^ 63) \<le> i \<Longrightarrow> i < 2 ^ 63 \<Longrightarrow> sint (word_of_int i :: u64) = i"
  by (simp add: sint_sbintrunc' signed_take_bit_int_eq_self)

lemma unat_long: "0 \<le> i \<Longrightarrow> i < 2 ^ 63 \<Longrightarrow> unat (word_of_int i :: u64) = nat i"
  by (simp only: unsigned_of_int take_bit_int_def) simp

lemma print_signed_text:
  assumes "- (2 ^ 63) < i" "i < 2 ^ 63" "pos < l" "pos + length (dec_of_int i) \<le> length buf"
  shows "print_signed (Some l) (word_of_int i) pos buf
    = Inr (pos + length (dec_of_int i), overwrite pos (dec_of_int i) buf)"
proof (cases "i < 0")
  case True
  have s: "sint (word_of_int i :: u64) = i" using assms by (simp add: sint_long)
  have "unat (word_of_int (- i) :: u64) = nat (- i)" using True assms by (intro unat_long) simp_all
  then have "unat (- word_of_int i :: u64) = nat (- i)" by simp
  then show ?thesis
    using True assms s
    by (simp add: print_signed_def room_def put_def write_num_text dec_of_int_def put_all_fits overwrite_Cons)
next
  case False
  have s: "sint (word_of_int i :: u64) = i" using assms by (simp add: sint_long)
  have "unat (word_of_int i :: u64) = nat i" using False assms by (intro unat_long) simp_all
  then show ?thesis
    using False assms s by (simp add: print_signed_def write_num_text dec_of_int_def put_all_fits)
qed

lemma skip_specs:
  "skip_spec (CHR ''l'' # CHR ''d'' # f) = CHR ''d'' # f" "skip_spec (CHR ''l'' # CHR ''u'' # f) = CHR ''u'' # f"
  "skip_spec (CHR ''l'' # CHR ''x'' # f) = CHR ''x'' # f" "skip_spec (CHR ''s'' # f) = CHR ''s'' # f"
  by (simp_all add: skip_spec_def is_dec_digit_def)

lemma format_piece:
  assumes "piece_ok p" "pos + length (text_of p) \<le> l" "l \<le> length buf" "pos < l"
  shows "format_loop (Some l) (fmt_of p @ f) (args_of p @ args) pos buf
    = format_loop (Some l) f args (pos + length (text_of p)) (overwrite pos (text_of p) buf)"
proof -
  have room: "room (Some l) pos" using assms(4) by (simp add: room_def)
  have u: "unat (of_nat n :: u64) = n" if "n < 2 ^ 64" for n using that by (simp add: unat_of_nat)
  show ?thesis
  proof (cases p)
    case (Lit c)
    then show ?thesis using assms room by (subst format_loop.simps) (simp add: put_def overwrite_one)
  next
    case Percent
    then show ?thesis using assms room by (subst format_loop.simps) (simp add: put_def overwrite_one)
  next
    case (Signed i)
    then show ?thesis
      using assms room print_signed_text [of i pos l buf]
      by (subst format_loop.simps) (simp add: skip_specs conversion_def)
  next
    case (Unsigned n)
    then show ?thesis
      using assms room u by (subst format_loop.simps) (simp add: skip_specs conversion_def write_num_text put_all_fits)
  next
    case (Hex n)
    then show ?thesis
      using assms room u by (subst format_loop.simps) (simp add: skip_specs conversion_def write_num_text put_all_fits)
  next
    case (Text s)
    then show ?thesis
      using assms room by (subst format_loop.simps) (simp add: skip_specs conversion_def put_string_fits)
  qed
qed

lemma format_pieces:
  "list_all piece_ok ps \<Longrightarrow> pos + length (concat (map text_of ps)) \<le> l \<Longrightarrow> l \<le> length buf \<Longrightarrow>
   format_loop (Some l) (concat (map fmt_of ps)) (concat (map args_of ps)) pos buf
     = Inr (pos + length (concat (map text_of ps)), overwrite pos (concat (map text_of ps)) buf)"
proof (induction ps arbitrary: pos buf)
  case Nil
  then show ?case by (subst format_loop.simps) simp
next
  case (Cons p ps)
  show ?case
  proof (cases "pos < l")
    case True
    have "format_loop (Some l) (concat (map fmt_of ps)) (concat (map args_of ps)) (pos + length (text_of p)) (overwrite pos (text_of p) buf)
        = Inr (pos + length (text_of p) + length (concat (map text_of ps)),
            overwrite (pos + length (text_of p)) (concat (map text_of ps)) (overwrite pos (text_of p) buf))"
      using Cons.prems by (intro Cons.IH) simp_all
    then show ?thesis
      using format_piece [of p pos l buf] True Cons.prems by (simp add: overwrite_append add.assoc)
  next
    case False
    then have "length (concat (map text_of (p # ps))) = 0" using Cons.prems(2) by linarith
    then have "concat (map text_of (p # ps)) = []" by (simp only: length_0_conv)
    then show ?thesis using False by (subst format_loop.simps) (simp only: room_def option.case, simp)
  qed
qed

text \<open>C29: snprintf prints what its format says: when the text of the literal characters, decimal and
  hexadecimal numbers and strings fits into the size given and the size into the buffer, the buffer
  starts with exactly that text and a terminator, the rest of it is unchanged, and the result is
  the length of the text.\<close>

theorem snprintf_prints:
  assumes "list_all piece_ok ps" "length (concat (map text_of ps)) < unat sz" "unat sz \<le> length buf"
  shows "snprintf buf sz (concat (map fmt_of ps)) (concat (map args_of ps))
    = Inr (length (concat (map text_of ps)), overwrite 0 (concat (map text_of ps) @ [CHR 0x00]) buf)"
proof -
  let ?t = "concat (map text_of ps)"
  have "unat (sz - 1) = unat sz - 1" using assms(2) by (intro unat_minus_one) auto
  then have f: "format_loop (Some (unat (sz - 1))) (concat (map fmt_of ps)) (concat (map args_of ps)) 0 buf = Inr (length ?t, overwrite 0 ?t buf)"
    using format_pieces [OF assms(1), of 0 "unat (sz - 1)" buf] assms(2,3) by simp
  have "0 < sz" using assms(2) by (auto simp: word_gt_0)
  moreover have "(overwrite 0 ?t buf)[length ?t := CHR 0x00] = overwrite 0 (?t @ [CHR 0x00]) buf"
    using assms overwrite_append [of 0 ?t buf "[CHR 0x00]"] by (subst overwrite_one) auto
  ultimately show ?thesis using f assms by (simp add: snprintf_def put_def)
qed

definition demo_pieces :: "piece list" where
  "demo_pieces = [Lit (CHR ''a''), Lit (CHR ''=''), Signed (- 42), Percent, Text ''ok'', Hex 255]"

theorem snprintf_prints_witness:
  "snprintf (replicate 16 (CHR ''?'')) 16 ''a=%ld%%%s%lx'' [Va_Long (- 42), Va_String (Some ''ok''), Va_Long 255]
     = Inr (10, ''a=-42%okff'' @ [CHR 0x00] @ ''?????'')"
proof -
  have ok: "list_all piece_ok demo_pieces" by (simp add: demo_pieces_def)
  have demo: "concat (map text_of demo_pieces) = ''a=-42%okff''"
    "concat (map fmt_of demo_pieces) = ''a=%ld%%%s%lx''"
    "concat (map args_of demo_pieces) = [Va_Long (- 42), Va_String (Some ''ok''), Va_Long 255]" by code_simp+
  have out: "overwrite 0 (''a=-42%okff'' @ [CHR 0x00]) (replicate 16 (CHR ''?'')) = ''a=-42%okff'' @ [CHR 0x00] @ ''?????''"
    "length ''a=-42%okff'' = 10" "length (replicate 16 (CHR ''?'')) = 16" by code_simp+
  show ?thesis
    using snprintf_prints [OF ok, unfolded demo out(2), of 16 "replicate 16 (CHR ''?'')", unfolded out(1,3)]
    by simp
qed

subsection \<open>Reading numbers back\<close>

lemma digit_value: "is_dec_digit c \<Longrightarrow> int (of_char c) - 48 = int (digit_val c)"
  by (simp add: is_dec_digit_def digit_val_def)

lemma read_digits:
  "list_all is_dec_digit cs \<Longrightarrow> foldl (\<lambda>n c. n * 10 + digit_val c) n cs < 2 ^ 63 \<Longrightarrow>
   fold_err c_long_step cs (int n) = Inr (int (foldl (\<lambda>n c. n * 10 + digit_val c) n cs))"
proof (induction cs arbitrary: n)
  case (Cons c cs)
  have mono: "m \<le> foldl (\<lambda>n c. n * 10 + digit_val c) m cs" for m
  proof (induction cs arbitrary: m)
    case (Cons a cs)
    have "m \<le> m * 10 + digit_val a" by simp
    also have "\<dots> \<le> foldl (\<lambda>n c. n * 10 + digit_val c) (m * 10 + digit_val a) cs" by (rule Cons)
    finally show ?case by simp
  qed simp
  have "n * 10 + digit_val c < 2 ^ 63" using mono [of "n * 10 + digit_val c"] Cons.prems(2) by simp
  then have "int (n * 10 + digit_val c) < int (2 ^ 63)" by (simp only: of_nat_less_iff)
  then have "int n * 10 + int (digit_val c) < 2 ^ 63" by simp
  then have "c_long_step c (int n) = Inr (int (n * 10 + digit_val c))"
    using Cons.prems(1) digit_value [of c] by (simp add: c_long_step_def Let_def algebra_simps)
  then show ?case using Cons.IH [of "n * 10 + digit_val c"] Cons.prems by simp
qed simp

lemma read_decimal:
  assumes "n < 2 ^ 63" "r = [] \<or> \<not> is_dec_digit (hd r)"
  shows "fold_err c_long_step (takeWhile is_dec_digit (dec_of_nat n @ r)) 0 = Inr (int n)"
proof -
  have d: "list_all is_dec_digit (dec_of_nat n)" by (auto simp: list_all_iff dest: dec_of_nat_digits)
  then have "takeWhile is_dec_digit (dec_of_nat n @ r) = dec_of_nat n"
    using assms(2) by (cases r) (auto simp: list_all_iff takeWhile_append)
  then show ?thesis using read_digits [OF d, of 0] nat_of_dec_of_nat [of n] assms(1) by (simp add: nat_of_dec_def)
qed

lemma atol_dec_of_int:
  assumes "- (2 ^ 63) < i" "i < 2 ^ 63" "r = [] \<or> \<not> is_dec_digit (hd r)"
  shows "atol (dec_of_int i @ r) = Inr i"
proof (cases "i < 0")
  case True
  have "nat (- i) < 2 ^ 63" using assms True by (simp add: nat_less_iff)
  then show ?thesis using True read_decimal [OF _ assms(3), of "nat (- i)"] by (simp add: atol_def dec_of_int_def)
next
  case False
  obtain c cs where d: "dec_of_nat (nat i) = c # cs" by (cases "dec_of_nat (nat i)") auto
  then have c: "is_dec_digit c" using dec_of_nat_digits [of c "nat i"] by simp
  then have "c \<notin> set [CHR '' '', CHR 0x09, CHR 0x0A, CHR ''-'', CHR ''+'']" by (auto simp: is_dec_digit_def)
  moreover have "nat i < 2 ^ 63" using assms False by (simp add: nat_less_iff)
  ultimately show ?thesis
    using False read_decimal [OF _ assms(3), of "nat i"] d by (simp add: atol_def dec_of_int_def)
qed

text \<open>Reading a printed number gives it back: atol of the text that snprintf leaves in the buffer
  for a long returns the argument, for every long but the smallest, whose negation overflows.\<close>

lemma print_read_long:
  assumes "- (2 ^ 63) < i" "i < 2 ^ 63" "length (dec_of_int i) < unat sz" "unat sz \<le> length buf"
  shows "\<exists>n buf'. snprintf buf sz ''%ld'' [Va_Long (word_of_int i)] = Inr (n, buf')
    \<and> atol (takeWhile (\<lambda>c. c \<noteq> CHR 0x00) buf') = Inr i"
proof -
  have "CHR 0x00 \<notin> set (dec_of_int i)"
    by (auto simp: dec_of_int_def dest: dec_of_nat_digits simp: is_dec_digit_def)
  then have "takeWhile (\<lambda>c. c \<noteq> CHR 0x00) (overwrite 0 (dec_of_int i @ [CHR 0x00]) buf) = dec_of_int i"
    by (simp add: overwrite_def takeWhile_append)
  then show ?thesis
    using snprintf_prints [of "[Signed i]" sz buf] atol_dec_of_int [OF assms(1,2), of "[]"] assms by simp
qed

lemma print_read_long_witness:
  "\<exists>n buf'. snprintf (replicate 8 (CHR ''?'')) 8 ''%ld'' [Va_Long (- 120)] = Inr (n, buf')
    \<and> atol (takeWhile (\<lambda>c. c \<noteq> CHR 0x00) buf') = Inr (- 120)"
proof -
  have "dec_of_int (- 120) = ''-120''" by code_simp
  then show ?thesis using print_read_long [of "- 120" 8 "replicate 8 (CHR ''?'')"] by simp
qed

text \<open>C38: snprintf does not respect its size for numbers: one with more digits than the buffer has
  bytes is written past its end, and with size 0, where nothing may be written, the first
  character already is.\<close>

theorem snprintf_overruns:
  assumes "1 < unat sz" "length buf = unat sz" "unat sz < length (dec_of_nat n)" "n < 2 ^ 63" "c \<noteq> CHR ''%''"
  shows "snprintf buf sz ''%d'' [Va_Long (of_nat n)] = Inl (Out_Of_Buffer (unat sz)) \<and> snprintf [] 0 (c # f) args = Inl (Out_Of_Buffer 0)"
proof
  have "unat (sz - 1) = unat sz - 1" using assms(1) by (intro unat_minus_one) auto
  then have r: "room (Some (unat (sz - 1))) 0" using assms(1) by (simp add: room_def)
  have "sint (of_nat n :: u64) = int n" using sint_long [of "int n"] assms(4) by simp
  moreover have "unat (of_nat n :: u64) = n" using assms(4) by (simp add: unat_of_nat)
  ultimately have "print_signed lim (of_nat n) 0 buf = Inl (Out_Of_Buffer (unat sz))" for lim
    using put_all_overruns [of 0 buf "dec_of_nat n"] assms(2,3) by (simp add: print_signed_def write_num_text)
  moreover have "skip_spec ''d'' = ''d''" by (simp add: skip_spec_def is_dec_digit_def)
  ultimately show "snprintf buf sz ''%d'' [Va_Long (of_nat n)] = Inl (Out_Of_Buffer (unat sz))"
    unfolding snprintf_def using r by (subst format_loop.simps) (simp add: conversion_def)
  have "room (Some (unat (0 - 1 :: u64))) 0" by (simp add: room_def unat_gt_0)
  then show "snprintf [] 0 (c # f) args = Inl (Out_Of_Buffer 0)"
    unfolding snprintf_def using assms(5) by (subst format_loop.simps) (simp add: put_def)
qed

theorem snprintf_overruns_witness:
  "snprintf ''??'' 2 ''%d'' [Va_Long 123] = Inl (Out_Of_Buffer 2) \<and> snprintf [] 0 ''ab'' [] = Inl (Out_Of_Buffer 0)"
proof -
  have "dec_of_nat 123 = ''123''" by code_simp
  then show ?thesis using snprintf_overruns [of 2 "''??''" 123 "CHR ''a''" "''b''" "[]"] by simp
qed

subsection \<open>Division\<close>

lemma sint_range: "- (2 ^ 63) \<le> sint (a :: u64)" "sint (a :: u64) < 2 ^ 63"
  using sint_ge [of a] sint_lt [of a] by simp_all

lemma abs_di_value:
  assumes "sint a \<noteq> - (2 ^ 63)"
  shows "abs_di a = Inr (word_of_int \<bar>sint a\<bar>)" "uint (word_of_int \<bar>sint a\<bar> :: u64) = \<bar>sint a\<bar>"
proof -
  have w: "word_of_int (sint a) = a" by simp
  show "abs_di a = Inr (word_of_int \<bar>sint a\<bar>)"
    using assms w by (simp add: abs_di_def abs_if)
  have "0 \<le> \<bar>sint a\<bar>" "\<bar>sint a\<bar> < 2 ^ 64" using sint_range [of a] by auto
  then show "uint (word_of_int \<bar>sint a\<bar> :: u64) = \<bar>sint a\<bar>"
    by (simp only: uint_word_of_int) simp
qed

text \<open>The software division of 64-bit integers truncates towards zero and its remainder has the
  sign of the dividend, for all operands but zero divisors and the smallest number, whose negation
  the code leaves undefined.\<close>

lemma divdi3_truncates:
  assumes "sint a \<noteq> - (2 ^ 63)" "sint b \<noteq> - (2 ^ 63)" "b \<noteq> 0"
  shows "divdi3 a b = Inr (word_of_int (sint a sdiv sint b)) \<and> moddi3 a b = Inr (word_of_int (sint a smod sint b))"
proof -
  let ?a = "\<bar>sint a\<bar>" and ?b = "\<bar>sint b\<bar>"
  note a = abs_di_value [OF assms(1)] and b = abs_di_value [OF assms(2)]
  have b0: "sint b \<noteq> 0" using assms(3) by (simp add: signed_eq_0_iff)
  then have nz: "(word_of_int ?b :: u64) \<noteq> 0" using b(2) by (auto simp: word_uint_eq_iff)
  have q: "(word_of_int ?a :: u64) div word_of_int ?b = word_of_int (?a div ?b)"
    "(word_of_int ?a :: u64) mod word_of_int ?b = word_of_int (?a mod ?b)"
    by (simp_all only: word_div_def word_mod_def a(2) b(2))
  have "sint a sdiv sint b = (if (sint a < 0) \<noteq> (sint b < 0) then - (?a div ?b) else ?a div ?b)"
    using b0 by (auto simp: signed_divide_int_def sgn_if)
  moreover have "sint a smod sint b = (if sint a < 0 then - (?a mod ?b) else ?a mod ?b)"
    using b0 by (auto simp: signed_modulo_int_def signed_divide_int_def sgn_if minus_div_mult_eq_mod [symmetric] algebra_simps)
  ultimately show ?thesis
    unfolding divdi3_def moddi3_def a(1) b(1) bnd_simps Let_def q using nz by auto
qed

lemma divdi3_truncates_witness: "divdi3 (- 7) 2 = Inr (- 3) \<and> moddi3 (- 7) 2 = Inr (- 1)"
  using divdi3_truncates [of "- 7" 2] by (simp add: signed_modulo_int_def signed_divide_int_def)

end
