(* ===== verification/Name_Table.thy ===== *)
theory Name_Table
  imports Main
begin

text \<open>
  A table of names searched from its start, in both directions: \<^verbatim>\<open>op_table\<close> of \<^verbatim>\<open>ast.c\<close> and
  \<^verbatim>\<open>ir_op_table\<close> of \<^verbatim>\<open>ir.c\<close>.
\<close>

lemma find_fst: "distinct (map fst xs) \<Longrightarrow> (a, b) \<in> set xs \<Longrightarrow> find (\<lambda>e. fst e = a) xs = Some (a, b)"
  by (induction xs) (auto simp: image_iff)

lemma find_snd: "distinct (map snd xs) \<Longrightarrow> (a, b) \<in> set xs \<Longrightarrow> find (\<lambda>e. snd e = b) xs = Some (a, b)"
  by (induction xs) (auto simp: image_iff)

locale name_table =
  fixes tab :: "(string \<times> 'k) list"
    and kind :: "string \<Rightarrow> 'k"
    and name :: "'k \<Rightarrow> string"
    and no_kind :: 'k
    and no_name :: string
  assumes names_distinct: "distinct (map fst tab)"
    and kinds_distinct: "distinct (map snd tab)"
    and kind_search: "kind s = (case find (\<lambda>e. fst e = s) tab of Some e \<Rightarrow> snd e | None \<Rightarrow> no_kind)"
    and name_search: "name k = (case find (\<lambda>e. snd e = k) tab of Some e \<Rightarrow> fst e | None \<Rightarrow> no_name)"
begin

lemma entry: "(s, k) \<in> set tab \<Longrightarrow> kind s = k \<and> name k = s"
  by (simp add: kind_search name_search find_fst [OF names_distinct] find_snd [OF kinds_distinct])

lemma kind_name: "k \<in> snd ` set tab \<Longrightarrow> kind (name k) = k"
  using entry by force

lemma name_kind: "s \<in> fst ` set tab \<Longrightarrow> name (kind s) = s"
  using entry by force

end

end
