(* ===== verification/Ast.thy ===== *)
theory Ast
  imports Lexer Dyn_Array Name_Table
begin

text \<open>
  The syntax tree, \<^verbatim>\<open>src/src/ast.h\<close> and \<^verbatim>\<open>src/src/ast.c\<close>: kinds of nodes and the table of their
  names, arrays of tokens and of nodes, and the node itself.

  The members of \<^verbatim>\<open>struct Node\<close> that are not pointers to nodes form the record \<^verbatim>\<open>node_info\<close>, and flags
  are booleans.  The pointers to nodes are the subtrees of the datatype \<^verbatim>\<open>node\<close>, where \<^term>\<open>None\<close> is the
  null pointer; the parser builds trees, and nothing that is modelled writes to a node that another
  one points to.  A double is the word of its bits.  \<^verbatim>\<open>is_void\<close>, which only function nodes have,
  is left out.
\<close>

datatype (plugins only: size) op_kind =
    OP_NUM | OP_FNUM | OP_STR | OP_CHAR | OP_VAR | OP_UNARY_MINUS | OP_UNARY_TILDE | OP_UNARY_NOT |
    OP_UNARY_ADDR | OP_UNARY_DEREF | OP_PREFIX_INC | OP_PREFIX_DEC | OP_POSTFIX_INC | OP_POSTFIX_DEC |
    OP_ADD | OP_SUB | OP_MUL | OP_DIV | OP_MOD | OP_EQ | OP_NE | OP_LT | OP_GT | OP_LE | OP_GE | OP_BAND |
    OP_BOR | OP_BXOR | OP_SHL | OP_SHR | OP_LAND | OP_LOR | OP_COMMA | OP_TERNARY | OP_ASSIGN |
    OP_STORE_INDEX | OP_CAST | OP_BOOL_CAST | OP_CALL | OP_RETURN | OP_FUNC | OP_IF | OP_WHILE |
    OP_DO_WHILE | OP_FOR | OP_BREAK | OP_CONTINUE | OP_SWITCH | OP_CASE | OP_DEFAULT | OP_GOTO |
    OP_LABEL_STMT | OP_DECL | OP_ARRAY_DECL | OP_EXPR | OP_BLOCK | OP_EMPTY | OP_INDEX | OP_MEMBER |
    OP_MEMBER_PTR | OP_ASM | OP_COMPLEX_REAL | OP_COMPLEX_IMAG | OP_COMPOUND_LITERAL | OP_INIT_ITEM |
    OP_SIZEOF | OP_VA_START | OP_VA_ARG | OP_VA_COPY | OP_COUNT

definition op_table :: "(string \<times> op_kind) list" where
  "op_table =
     [(''num'', OP_NUM), (''fnum'', OP_FNUM), (''str'', OP_STR), (''char'', OP_CHAR), (''var'', OP_VAR),
      (''unary_-'', OP_UNARY_MINUS), (''unary_~'', OP_UNARY_TILDE), (''unary_!'', OP_UNARY_NOT),
      (''unary_&'', OP_UNARY_ADDR), (''unary_*'', OP_UNARY_DEREF), (''prefix_++'', OP_PREFIX_INC),
      (''prefix_--'', OP_PREFIX_DEC), (''postfix_++'', OP_POSTFIX_INC), (''postfix_--'', OP_POSTFIX_DEC),
      (''+'', OP_ADD), (''-'', OP_SUB), (''*'', OP_MUL), (''/'', OP_DIV), (''%'', OP_MOD), (''=='', OP_EQ),
      (''!='', OP_NE), (''<'', OP_LT), (''>'', OP_GT), (''<='', OP_LE), (''>='', OP_GE), (''&'', OP_BAND),
      (''|'', OP_BOR), (''^'', OP_BXOR), (''<<'', OP_SHL), (''>>'', OP_SHR), (''&&'', OP_LAND),
      (''||'', OP_LOR), ('','', OP_COMMA), (''?'', OP_TERNARY), (''assign'', OP_ASSIGN),
      (''store_index'', OP_STORE_INDEX), (''cast'', OP_CAST), (''bool_cast'', OP_BOOL_CAST),
      (''call'', OP_CALL), (''return'', OP_RETURN), (''func'', OP_FUNC), (''if'', OP_IF),
      (''while'', OP_WHILE), (''do_while'', OP_DO_WHILE), (''for'', OP_FOR), (''break'', OP_BREAK),
      (''continue'', OP_CONTINUE), (''switch'', OP_SWITCH), (''case'', OP_CASE), (''default'', OP_DEFAULT),
      (''goto'', OP_GOTO), (''label_stmt'', OP_LABEL_STMT), (''decl'', OP_DECL),
      (''array_decl'', OP_ARRAY_DECL), (''expr'', OP_EXPR), (''block'', OP_BLOCK), (''empty'', OP_EMPTY),
      (''index'', OP_INDEX), (''member'', OP_MEMBER), (''member_ptr'', OP_MEMBER_PTR), (''asm'', OP_ASM),
      (''complex_real'', OP_COMPLEX_REAL), (''complex_imag'', OP_COMPLEX_IMAG),
      (''compound_literal'', OP_COMPOUND_LITERAL), (''init_item'', OP_INIT_ITEM), (''sizeof'', OP_SIZEOF),
      (''va_start'', OP_VA_START), (''va_arg'', OP_VA_ARG), (''va_copy'', OP_VA_COPY)]"

definition str_to_op :: "string option \<Rightarrow> op_kind" where
  "str_to_op s_ptr = (case s_ptr of None \<Rightarrow> OP_COUNT
     | Some s \<Rightarrow> (case find (\<lambda>m. fst m = s) op_table of Some m \<Rightarrow> snd m | None \<Rightarrow> OP_COUNT))"

definition op_to_str :: "op_kind \<Rightarrow> string" where
  "op_to_str op = (case find (\<lambda>m. snd m = op) op_table of Some m \<Rightarrow> fst m | None \<Rightarrow> ''?'')"

subsection \<open>Nodes\<close>

record node_info =
  n_op :: string
  n_op_enum :: op_kind
  n_name :: string
  n_value :: int
  n_is_static :: bool
  n_is_weak :: bool
  n_params :: "string list"
  n_param_aggregate_sizes :: "int list"
  n_param_aggregate_float_classes :: "int list"
  n_param_floats :: "int list"
  n_aggregate_size :: int
  n_aggregate_float_class :: int
  n_is_imaginary :: bool
  n_type_tag :: string
  n_array_dims :: "int list"
  n_elem_size :: int
  n_pointee_size :: int
  n_pointee_unsigned :: bool
  n_pointee_unsigned_known :: bool
  n_pointee_const :: bool
  n_is_unsigned :: bool
  n_is_const :: bool
  n_compare_unsigned :: bool
  n_type_size :: int
  n_is_bool :: bool
  n_is_float :: bool
  n_is_complex :: bool
  n_section_name :: string
  n_is_wide :: bool
  n_fvalue :: "64 word"
  n_bit_offset :: int
  n_bit_width :: int
  n_alignment :: int
  n_line :: int
  n_col :: int

datatype node =
  Node (nd: node_info) (lhs: "node option") (rhs: "node option") (body: "node list") (vla_dim: "node option")

subsection \<open>Arrays of tokens and of nodes\<close>

definition token_array_init :: "token dyn_array" where
  "token_array_init = \<lparr>arr_data = [], arr_count = 0, arr_capacity = 0\<rparr>"

definition token_array_push :: "token dyn_array \<Rightarrow> token \<Rightarrow> token dyn_array" where
  "token_array_push = array_push"

definition token_array_free :: "token dyn_array \<Rightarrow> token dyn_array" where
  "token_array_free arr = arr\<lparr>arr_data := [], arr_count := 0, arr_capacity := 0\<rparr>"

definition node_array_init :: "node dyn_array" where
  "node_array_init = \<lparr>arr_data = [], arr_count = 0, arr_capacity = 0\<rparr>"

definition node_array_push :: "node dyn_array \<Rightarrow> node \<Rightarrow> node dyn_array" where
  "node_array_push = array_push"

definition node_array_free :: "node dyn_array \<Rightarrow> node dyn_array" where
  "node_array_free arr = arr\<lparr>arr_data := [], arr_count := 0, arr_capacity := 0\<rparr>"

subsection \<open>The names of the kinds\<close>

lemma op_table_distinct: "distinct (map fst op_table)" "distinct (map snd op_table)"
  by (simp_all add: op_table_def)

interpretation ast_ops: name_table op_table "\<lambda>s. str_to_op (Some s)" op_to_str OP_COUNT "''?''"
  by unfold_locales (simp_all only: op_table_distinct str_to_op_def op_to_str_def option.case)

text \<open>Every kind but \<^verbatim>\<open>OP_COUNT\<close> has a name of its own; the name given to \<^verbatim>\<open>OP_COUNT\<close> is that of the
  conditional operator.\<close>

lemma op_names_complete: "op \<noteq> OP_COUNT \<Longrightarrow> op \<in> snd ` set op_table"
  unfolding op_table_def list.set image_insert snd_conv image_empty insert_iff
  by (cases op) (simp_all only: simp_thms)

lemma op_names_roundtrip: "op \<noteq> OP_COUNT \<Longrightarrow> str_to_op (Some (op_to_str op)) = op"
  by (rule ast_ops.kind_name [OF op_names_complete])

lemma op_count_is_ternary: "str_to_op (Some (op_to_str OP_COUNT)) = OP_TERNARY"
  by (simp add: str_to_op_def op_to_str_def op_table_def)

end
