(* ===== verification/Parse_State.thy ===== *)
theory Parse_State
  imports Ast
begin

unbundle bit_operations_syntax

text \<open>
  The state of the parser, \<^verbatim>\<open>ParserState\<close> of \<^verbatim>\<open>src/src/parser.h\<close>, and what all of \<^verbatim>\<open>src/src/parser.c\<close> uses
  of it: tokens, diagnostics, scopes, new nodes, the check of redeclared objects and the classes of
  structures passed in registers.

  Hash maps are partial functions.  The tables of \<^verbatim>\<open>ir.c\<close> that the parser fills and reads are the
  record \<^verbatim>\<open>ir_vars\<close>.  The stack of scopes is a list, innermost first.  A diagnostic ends the
  compiler and is a value of \<^verbatim>\<open>parse_error\<close>, as is arithmetic that C leaves undefined.
\<close>

datatype parse_error = Parse_Error int int string | Parse_Undefined | Parse_Fuel

record ir_vars =
  ir_local_array_base_sizes :: "string \<rightharpoonup> int"
  ir_global_array_base_sizes :: "string \<rightharpoonup> int"
  ir_local_var_elem_scales :: "string \<rightharpoonup> int"
  ir_global_var_elem_scales :: "string \<rightharpoonup> int"
  ir_local_var_is_pointer :: "string \<rightharpoonup> int"
  ir_global_var_is_pointer :: "string \<rightharpoonup> int"
  ir_struct_float_aggregate_classes :: "string \<rightharpoonup> int"

record global_decl =
  gd_size :: int
  gd_elem_size :: int
  gd_array :: int
  gd_incomplete_array :: int
  gd_pointer :: int
  gd_float :: int
  gd_tag :: string

record parser_state =
  ps_tokens :: "token list"
  ps_pos :: nat
  ps_target_scale :: int
  ps_ld_size :: int
  ps_current_func_name :: "string option"
  ps_scopes :: "(string \<rightharpoonup> string) list"
  ps_unsigned_vars :: "string \<rightharpoonup> int"
  ps_bool_vars :: "string \<rightharpoonup> int"
  ps_const_vars :: "string \<rightharpoonup> int"
  ps_value_sizes :: "string \<rightharpoonup> int"
  ps_var_struct_tags :: "string \<rightharpoonup> string"
  ps_global_decls :: "string \<rightharpoonup> global_decl"
  ps_global_enums :: "string \<rightharpoonup> int"
  ps_constexpr_vars :: "string \<rightharpoonup> int"
  ps_global_struct_sizes :: "string \<rightharpoonup> int"
  ps_global_struct_alignments :: "string \<rightharpoonup> int"
  ps_global_struct_field_tags :: "string \<rightharpoonup> string"
  ps_global_struct_field_sizes_by_tag :: "string \<rightharpoonup> int"
  ps_global_struct_float_aggregate_classes :: "string \<rightharpoonup> int"
  ps_ir :: ir_vars

subsection \<open>Tokens and diagnostics\<close>

definition peek :: "parser_state \<Rightarrow> string" where
  "peek p = (if ps_pos p < length (ps_tokens p) then tk_text (ps_tokens p ! ps_pos p) else '''')"

text \<open>The position of the next token, (1, 1) at the end.\<close>

definition tok_pos :: "parser_state \<Rightarrow> int \<times> int" where
  "tok_pos p =
     (if ps_pos p < length (ps_tokens p) then
        (tk_line (ps_tokens p ! ps_pos p), tk_col (ps_tokens p ! ps_pos p))
      else (1, 1))"

definition parser_error :: "parser_state \<Rightarrow> string \<Rightarrow> parse_error + 'a" where
  "parser_error p msg = Inl (Parse_Error (fst (tok_pos p)) (snd (tok_pos p)) msg)"

definition diagnostics_error :: "int \<times> int \<Rightarrow> string \<Rightarrow> parse_error + 'a" where
  "diagnostics_error at msg = Inl (Parse_Error (fst at) (snd at) msg)"

definition quoted :: "string \<Rightarrow> string" where
  "quoted t = CHR 0x27 # t @ [CHR 0x27]"

definition take_tok :: "parser_state \<Rightarrow> string option \<Rightarrow> parse_error + (string \<times> parser_state)" where
  "take_tok p want =
     (let t = peek p
      in case want of
           Some w \<Rightarrow>
             if t \<noteq> w then parser_error p (take 255 (''expected '' @ quoted w @ '' but got '' @ quoted t))
             else Inr (t, p\<lparr>ps_pos := ps_pos p + 1\<rparr>)
         | None \<Rightarrow> Inr (t, p\<lparr>ps_pos := ps_pos p + 1\<rparr>))"

subsection \<open>Scopes\<close>

definition parser_enter_scope :: "parser_state \<Rightarrow> parser_state" where
  "parser_enter_scope p = p\<lparr>ps_scopes := Map.empty # ps_scopes p\<rparr>"

definition parser_exit_scope :: "parser_state \<Rightarrow> parser_state" where
  "parser_exit_scope p = p\<lparr>ps_scopes := tl (ps_scopes p)\<rparr>"

fun resolve_in :: "(string \<rightharpoonup> string) list \<Rightarrow> string \<Rightarrow> string" where
  "resolve_in [] name = name"
| "resolve_in (scope # outer) name = (case scope name of Some u \<Rightarrow> u | None \<Rightarrow> resolve_in outer name)"

definition resolve_name :: "parser_state \<Rightarrow> string \<Rightarrow> string" where
  "resolve_name p name = resolve_in (ps_scopes p) name"

subsection \<open>New nodes\<close>

definition create_info :: "string \<Rightarrow> int \<times> int \<Rightarrow> node_info" where
  "create_info op at =
     \<lparr>n_op = op, n_op_enum = str_to_op (Some op), n_name = '''', n_value = 0, n_is_static = False,
      n_is_weak = False, n_params = [], n_param_aggregate_sizes = [],
      n_param_aggregate_float_classes = [], n_param_floats = [], n_aggregate_size = 0,
      n_aggregate_float_class = 0, n_is_imaginary = False, n_type_tag = '''', n_array_dims = [],
      n_elem_size = 0, n_pointee_size = 0, n_pointee_unsigned = False,
      n_pointee_unsigned_known = False, n_pointee_const = False, n_is_unsigned = False,
      n_is_const = False, n_compare_unsigned = False, n_type_size = 8, n_is_bool = False,
      n_is_float = False, n_is_complex = False, n_section_name = '''', n_is_wide = False,
      n_fvalue = 0, n_bit_offset = 0, n_bit_width = 0, n_alignment = 0, n_line = fst at, n_col = snd at\<rparr>"

definition create_node :: "string \<Rightarrow> int \<times> int \<Rightarrow> node" where
  "create_node op at = Node (create_info op at) None None [] None"

definition pointer_pointee_const_key :: "parser_state \<Rightarrow> string \<Rightarrow> string" where
  "pointer_pointee_const_key p name =
     (case ps_current_func_name p of
        Some f \<Rightarrow> if f \<noteq> '''' then take 511 (f @ ''$'' @ name) else name
      | None \<Rightarrow> name)"

text \<open>The key of a local variable in the tables of \<^verbatim>\<open>ir.c\<close>.\<close>

definition local_key :: "parser_state \<Rightarrow> string \<Rightarrow> string" where
  "local_key p name = take 511 ((case ps_current_func_name p of Some f \<Rightarrow> f | None \<Rightarrow> '''') @ ''$'' @ name)"

definition or_zero :: "int option \<Rightarrow> int" where
  "or_zero e = (case e of Some v \<Rightarrow> v | None \<Rightarrow> 0)"

definition ir_get_global_array_base_size :: "parser_state \<Rightarrow> string \<Rightarrow> int" where
  "ir_get_global_array_base_size p name = or_zero (ir_global_array_base_sizes (ps_ir p) name)"

definition ir_get_local_array_base_size :: "parser_state \<Rightarrow> string \<Rightarrow> int" where
  "ir_get_local_array_base_size p name = or_zero (ir_local_array_base_sizes (ps_ir p) name)"

definition ir_get_local_var_elem_scale :: "parser_state \<Rightarrow> string \<Rightarrow> int" where
  "ir_get_local_var_elem_scale p name = or_zero (ir_local_var_elem_scales (ps_ir p) name)"

definition ir_get_global_var_elem_scale :: "parser_state \<Rightarrow> string \<Rightarrow> int" where
  "ir_get_global_var_elem_scale p name = or_zero (ir_global_var_elem_scales (ps_ir p) name)"

subsection \<open>Redeclared global objects\<close>

definition check_global_decl_compat ::
  "parser_state \<Rightarrow> string \<Rightarrow> int \<Rightarrow> int \<Rightarrow> int \<Rightarrow> int \<Rightarrow> int \<Rightarrow> int \<Rightarrow> string option \<Rightarrow> int \<times> int
     \<Rightarrow> parse_error + parser_state" where
  "check_global_decl_compat p name is_array is_incomplete sz elem_size is_pointer is_float struct_tag at =
     (let tag = (case struct_tag of Some t \<Rightarrow> t | None \<Rightarrow> ''''); isz = sint (word_of_int sz :: 32 word)
      in case ps_global_decls p name of
           None \<Rightarrow> Inr (p\<lparr>ps_global_decls := (ps_global_decls p)(name \<mapsto>
             \<lparr>gd_size = isz, gd_elem_size = elem_size, gd_array = is_array, gd_incomplete_array = is_incomplete,
              gd_pointer = is_pointer, gd_float = is_float, gd_tag = tag\<rparr>)\<rparr>)
         | Some d \<Rightarrow>
           (let completes = gd_array d \<noteq> 0 \<and> is_array \<noteq> 0 \<and> gd_incomplete_array d \<noteq> 0
            in if gd_size d \<noteq> isz \<and> \<not> completes \<or> gd_elem_size d \<noteq> elem_size \<or> gd_array d \<noteq> is_array
                 \<or> gd_pointer d \<noteq> is_pointer \<or> gd_float d \<noteq> is_float \<or> gd_tag d \<noteq> tag
               then diagnostics_error at ''incompatible redeclaration of global object''
               else Inr (if completes \<and> is_incomplete = 0 then
                   p\<lparr>ps_global_decls := (ps_global_decls p)(name \<mapsto> d\<lparr>gd_size := isz, gd_incomplete_array := 0\<rparr>)\<rparr>
                 else p)))"

subsection \<open>Structures passed in registers\<close>

text \<open>The classes of the two eightbytes of a structure: the accumulators \<^verbatim>\<open>eb_int\<close> and \<^verbatim>\<open>eb_sse\<close>, and
  \<^verbatim>\<open>sysv_ok\<close>.\<close>

record sysv_acc =
  eb_int :: "bool list"
  eb_sse :: "bool list"
  sysv_ok :: bool

definition sysv_mark :: "bool \<Rightarrow> bool \<Rightarrow> nat \<Rightarrow> sysv_acc \<Rightarrow> sysv_acc" where
  "sysv_mark is_float is_long_double ebi acc =
     (if ebi < 2 then
        if is_float \<and> \<not> is_long_double then acc\<lparr>eb_sse := (eb_sse acc)[ebi := True]\<rparr>
        else acc\<lparr>eb_int := (eb_int acc)[ebi := True]\<rparr>
      else acc)"

definition sysv_fold_field :: "nat \<Rightarrow> int \<Rightarrow> bool \<Rightarrow> bool \<Rightarrow> sysv_acc \<Rightarrow> sysv_acc" where
  "sysv_fold_field off width is_float is_long_double acc =
     (if width \<le> 0 then acc
      else if int off + width > 16 then acc\<lparr>sysv_ok := False\<rparr>
      else fold (sysv_mark is_float is_long_double) [off div 8..<Suc ((off + nat width - 1) div 8)] acc)"

definition sysv_class :: "bool \<Rightarrow> bool \<Rightarrow> int" where
  "sysv_class is_int is_sse = (if is_int then 1 else if is_sse then 2 else 0)"

definition sysv_mixed_class :: "sysv_acc \<Rightarrow> int" where
  "sysv_mixed_class acc =
     (if \<not> sysv_ok acc then 0
      else let c0 = sysv_class (eb_int acc ! 0) (eb_sse acc ! 0); c1 = sysv_class (eb_int acc ! 1) (eb_sse acc ! 1)
        in if c0 = 1 \<and> c1 = 2 \<or> c0 = 2 \<and> c1 = 1 then 0x10000 OR c0 OR push_bit 4 c1 else 0)"

definition parser_set_struct_float_aggregate_class ::
  "parser_state \<Rightarrow> string option \<Rightarrow> bool \<Rightarrow> int \<Rightarrow> int \<Rightarrow> int \<Rightarrow> parser_state" where
  "parser_set_struct_float_aggregate_class p tag_ptr hfa_valid hfa_count hfa_elem_size sysv_mixed =
     (case tag_ptr of None \<Rightarrow> p
      | Some tag \<Rightarrow>
        if tag = '''' then p
        else let cls = (if hfa_valid \<and> hfa_count > 0 then push_bit 8 hfa_count OR hfa_elem_size else 0);
                 cls = (if cls = 0 \<and> sysv_mixed \<noteq> 0 then sysv_mixed else cls)
          in p\<lparr>ps_global_struct_float_aggregate_classes := (ps_global_struct_float_aggregate_classes p)(tag \<mapsto> cls),
               ps_ir := (ps_ir p)\<lparr>ir_struct_float_aggregate_classes := (ir_struct_float_aggregate_classes (ps_ir p))(tag \<mapsto> cls)\<rparr>\<rparr>)"

end
