(* ===== verification/Parse_Expr.thy ===== *)
theory Parse_Expr
  imports Parse_State
begin

text \<open>
  The parser of expressions, \<^verbatim>\<open>term\<close> to \<^verbatim>\<open>comma_expr\<close> of \<^verbatim>\<open>src/src/parser.c\<close>: the binary operators with
  the conversions of their operands, the conditional operator, assignments and the comma.

  Casts, prefix operators and everything below them are the function \<^verbatim>\<open>unary\<close>, which is an argument
  of the definitions.  Every loop and every nested call of \<^verbatim>\<open>expr\<close> takes one unit of fuel;
  running out is the value \<^term>\<open>Parse_Fuel\<close>.
\<close>

type_synonym operand_parser = "parser_state \<Rightarrow> parse_error + (node \<times> parser_state)"

subsection \<open>Conversions\<close>

definition apply_integer_conversion :: "node_info \<Rightarrow> node_info" where
  "apply_integer_conversion n =
     (if n_op_enum n = OP_NUM then
        n\<lparr>n_type_size := if n_value n > 2147483647 \<or> n_value n < - 2147483648 then 8 else 4\<rparr>
      else n)"

definition promoted_is_unsigned :: "node_info \<Rightarrow> bool" where
  "promoted_is_unsigned n =
     (if n_op_enum n \<in> {OP_EQ, OP_NE, OP_LT, OP_GT, OP_LE, OP_GE, OP_LAND, OP_LOR, OP_UNARY_NOT} then False
      else n_is_unsigned n \<and> n_type_size n \<ge> 4)"

definition promoted_size :: "node_info \<Rightarrow> int" where
  "promoted_size n = (if n_type_size n < 4 then 4 else n_type_size n)"

definition bool_normalize :: "node \<Rightarrow> node" where
  "bool_normalize node =
     (let at = (n_line (nd node), n_col (nd node))
      in Node ((create_info ''!='' at)\<lparr>n_type_size := 4\<rparr>) (Some node)
           (Some (Node ((create_info ''num'' at)\<lparr>n_value := 0\<rparr>) None None [] None)) [] None)"

text \<open>The result type of two converted operands: size and signedness.\<close>

definition arith_type :: "node_info \<Rightarrow> node_info \<Rightarrow> int \<times> bool" where
  "arith_type l r =
     (let ls = promoted_size l; rs = promoted_size r; lu = promoted_is_unsigned l; ru = promoted_is_unsigned r
      in if ls = rs then (ls, lu \<or> ru) else if ls > rs then (ls, lu) else (rs, ru))"

definition float_type :: "node_info \<Rightarrow> node_info \<Rightarrow> node_info \<Rightarrow> node_info" where
  "float_type l r parent =
     (if n_is_float l \<or> n_is_float r then
        let fs = (if n_is_float l then n_type_size l else 0);
            fs = (if n_is_float r \<and> n_type_size r > fs then n_type_size r else fs)
        in parent\<lparr>n_is_float := True, n_type_size := if fs \<noteq> 0 then fs else 8, n_is_unsigned := False\<rparr>
      else parent)"

definition complex_size :: "node_info \<Rightarrow> node_info \<Rightarrow> node_info \<Rightarrow> node_info" where
  "complex_size l r parent =
     (if n_is_complex parent then
        let l_comp = (if n_is_complex l then n_type_size l div 2 else n_type_size l);
            r_comp = (if n_is_complex r then n_type_size r div 2 else n_type_size r);
            comp = (if l_comp > r_comp then l_comp else r_comp)
        in parent\<lparr>n_type_size := (if comp < 4 then 4 else comp) * 2\<rparr>
      else parent)"

definition arith_info :: "int \<times> int \<Rightarrow> string \<Rightarrow> node_info \<Rightarrow> node_info \<Rightarrow> node_info" where
  "arith_info at op l r =
     float_type l r ((create_info op at)\<lparr>n_type_size := fst (arith_type l r), n_is_unsigned := snd (arith_type l r)\<rparr>)"

definition binary_node :: "node_info \<Rightarrow> node \<Rightarrow> node \<Rightarrow> node" where
  "binary_node i l r = Node i (Some l) (Some r) [] None"

definition term_node :: "int \<times> int \<Rightarrow> string \<Rightarrow> node \<Rightarrow> node \<Rightarrow> node" where
  "term_node at op l r =
     (let i = arith_info at op (nd l) (nd r); c = n_is_complex (nd l) \<or> n_is_complex (nd r);
          i = i\<lparr>n_is_complex := c, n_is_imaginary := n_is_imaginary (nd l) \<noteq> n_is_imaginary (nd r) \<and> \<not> c\<rparr>
      in binary_node (complex_size (nd l) (nd r) i) l r)"

definition add_node :: "int \<times> int \<Rightarrow> string \<Rightarrow> node \<Rightarrow> node \<Rightarrow> node" where
  "add_node at op l r =
     (let i = arith_info at op (nd l) (nd r);
          c = n_is_complex (nd l) \<or> n_is_complex (nd r) \<or> n_is_imaginary (nd l) \<noteq> n_is_imaginary (nd r);
          i = i\<lparr>n_is_complex := c, n_is_imaginary := (n_is_imaginary (nd l) \<or> n_is_imaginary (nd r)) \<and> \<not> c\<rparr>
      in binary_node (complex_size (nd l) (nd r) i) l r)"

definition shift_node :: "int \<times> int \<Rightarrow> string \<Rightarrow> node \<Rightarrow> node \<Rightarrow> node" where
  "shift_node at op l r =
     binary_node ((create_info op at)\<lparr>n_type_size := n_type_size (nd l), n_is_unsigned := n_is_unsigned (nd l)\<rparr>) l r"

definition compare_node :: "int \<times> int \<Rightarrow> string \<Rightarrow> node \<Rightarrow> node \<Rightarrow> node" where
  "compare_node at op l r =
     (let lu = promoted_is_unsigned (nd l); ru = promoted_is_unsigned (nd r)
      in binary_node ((create_info op at)\<lparr>n_type_size := 4, n_compare_unsigned :=
           (if promoted_size (nd l) = promoted_size (nd r) then lu \<or> ru
            else lu \<and> n_type_size (nd l) > n_type_size (nd r) \<or> ru \<and> n_type_size (nd r) > n_type_size (nd l))\<rparr>) l r)"

definition bitwise_node :: "int \<times> int \<Rightarrow> string \<Rightarrow> node \<Rightarrow> node \<Rightarrow> node" where
  "bitwise_node at op l r =
     (let ls = promoted_size (nd l); rs = promoted_size (nd r);
          lu = promoted_is_unsigned (nd l); ru = promoted_is_unsigned (nd r)
      in binary_node ((create_info op at)\<lparr>n_type_size := if ls > rs then ls else rs,
           n_is_unsigned := if ls = rs then lu \<or> ru else if ls > rs then lu else ru\<rparr>) l r)"

definition logical_node :: "int \<times> int \<Rightarrow> string \<Rightarrow> node \<Rightarrow> node \<Rightarrow> node" where
  "logical_node at op l r =
     binary_node ((create_info op at)\<lparr>n_type_size := 4\<rparr>) (bool_normalize l) (bool_normalize r)"

subsection \<open>Binary operators\<close>

text \<open>The loop that every level has: as long as an operator of the level comes next, take it, parse
  an operand of the next level and make a node of the two.\<close>

fun binary_loop :: "nat \<Rightarrow> string list \<Rightarrow> (string \<Rightarrow> node \<Rightarrow> node \<Rightarrow> node) \<Rightarrow> operand_parser \<Rightarrow> node \<Rightarrow> operand_parser" where
  "binary_loop fuel ops mk sub n p =
     (if peek p \<notin> set ops then Inr (n, p)
      else case fuel of 0 \<Rightarrow> Inl Parse_Fuel
        | Suc k \<Rightarrow>
          bnd (take_tok p None) (\<lambda>(op, p). bnd (sub p) (\<lambda>(rhs, p). binary_loop k ops mk sub (mk op n rhs) p)))"

declare binary_loop.simps [simp del]

definition binary_level ::
  "nat \<Rightarrow> string list \<Rightarrow> (int \<times> int \<Rightarrow> string \<Rightarrow> node \<Rightarrow> node \<Rightarrow> node) \<Rightarrow> operand_parser \<Rightarrow> operand_parser" where
  "binary_level fuel ops mk sub p =
     bnd (sub p) (\<lambda>(n, p'). binary_loop fuel ops (mk (tok_pos p)) sub n p')"

definition parse_term :: "operand_parser \<Rightarrow> nat \<Rightarrow> operand_parser" where
  "parse_term unary fuel = binary_level fuel [''*'', ''/'', ''%''] term_node unary"

definition parse_add :: "operand_parser \<Rightarrow> nat \<Rightarrow> operand_parser" where
  "parse_add unary fuel = binary_level fuel [''+'', ''-''] add_node (parse_term unary fuel)"

definition parse_shift :: "operand_parser \<Rightarrow> nat \<Rightarrow> operand_parser" where
  "parse_shift unary fuel = binary_level fuel [''<<'', ''>>''] shift_node (parse_add unary fuel)"

definition relational :: "operand_parser \<Rightarrow> nat \<Rightarrow> operand_parser" where
  "relational unary fuel = binary_level fuel [''<'', ''>'', ''<='', ''>=''] compare_node (parse_shift unary fuel)"

definition equality :: "operand_parser \<Rightarrow> nat \<Rightarrow> operand_parser" where
  "equality unary fuel = binary_level fuel [''=='', ''!=''] compare_node (relational unary fuel)"

definition bitwise_and :: "operand_parser \<Rightarrow> nat \<Rightarrow> operand_parser" where
  "bitwise_and unary fuel = binary_level fuel [''&''] bitwise_node (equality unary fuel)"

definition bitwise_xor :: "operand_parser \<Rightarrow> nat \<Rightarrow> operand_parser" where
  "bitwise_xor unary fuel = binary_level fuel [''^''] bitwise_node (bitwise_and unary fuel)"

definition bitwise_or :: "operand_parser \<Rightarrow> nat \<Rightarrow> operand_parser" where
  "bitwise_or unary fuel = binary_level fuel [''|''] bitwise_node (bitwise_xor unary fuel)"

definition logical_and :: "operand_parser \<Rightarrow> nat \<Rightarrow> operand_parser" where
  "logical_and unary fuel = binary_level fuel [''&&''] logical_node (bitwise_or unary fuel)"

definition logical_or :: "operand_parser \<Rightarrow> nat \<Rightarrow> operand_parser" where
  "logical_or unary fuel = binary_level fuel [''||''] logical_node (logical_and unary fuel)"

subsection \<open>Conditional operator, assignment and comma\<close>

definition ternary_node :: "int \<times> int \<Rightarrow> node \<Rightarrow> node \<Rightarrow> node \<Rightarrow> node" where
  "ternary_node at cond t e =
     (let ls = promoted_size (nd t); rs = promoted_size (nd e);
          lu = n_type_size (nd t) \<ge> 4 \<and> n_is_unsigned (nd t); ru = n_type_size (nd e) \<ge> 4 \<and> n_is_unsigned (nd e)
      in Node ((create_info ''?'' at)\<lparr>n_type_size := if ls > rs then ls else rs,
             n_is_unsigned := if ls = rs then lu \<or> ru else if ls > rs then lu else ru\<rparr>)
           (Some cond) None [t, e] None)"

definition is_assignment_operator :: "string \<Rightarrow> bool" where
  "is_assignment_operator t \<longleftrightarrow>
     t \<in> set [''='', ''+='', ''-='', ''*='', ''/='', ''%='', ''&='', ''^='', ''|='', ''<<='', ''>>='']"

definition compound_rhs :: "int \<times> int \<Rightarrow> string \<Rightarrow> node \<Rightarrow> node \<Rightarrow> node" where
  "compound_rhs at op cond val =
     (if op = ''='' then val
      else let bin_op = (if length op > 1 \<and> op ! (length op - 1) = CHR ''='' then take (length op - 1) op else take 1 op)
        in binary_node (apply_integer_conversion (create_info bin_op at)) cond val)"

definition pointer_assignment :: "int \<times> int \<Rightarrow> node_info \<Rightarrow> node_info \<Rightarrow> parse_error + unit" where
  "pointer_assignment at cond val =
     (if n_pointee_size cond > 0 then
        if n_pointee_size val > 0 \<and> n_pointee_size cond \<noteq> n_pointee_size val \<and> n_pointee_size cond \<noteq> 8
           \<and> n_pointee_size val \<noteq> 8
        then diagnostics_error at ''incompatible pointer assignment''
        else if n_op_enum val = OP_NUM \<and> n_value val \<noteq> 0
        then diagnostics_error at ''integer is not a null pointer constant''
        else if \<not> n_pointee_const cond \<and> n_op_enum val = OP_UNARY_ADDR \<and> n_pointee_const val
        then diagnostics_error at (''assignment discards '' @ quoted ''const'' @ '' qualifier from pointer target type'')
        else Inr ()
      else Inr ())"

text \<open>The members an assignment takes over from its left side.\<close>

definition assigned_info :: "node_info \<Rightarrow> node_info \<Rightarrow> node_info" where
  "assigned_info c i = i\<lparr>n_type_size := n_type_size c, n_elem_size := n_elem_size c,
     n_pointee_size := n_pointee_size c, n_pointee_unsigned := n_pointee_unsigned c,
     n_pointee_unsigned_known := n_pointee_unsigned_known c, n_pointee_const := n_pointee_const c,
     n_is_const := n_is_const c, n_aggregate_size := if n_pointee_size c > 0 then 0 else n_aggregate_size c,
     n_type_tag := n_type_tag c, n_is_unsigned := n_is_unsigned c, n_is_bool := n_is_bool c,
     n_is_float := n_is_float c, n_is_complex := n_is_complex c\<rparr>"

definition is_set :: "int option \<Rightarrow> bool" where
  "is_set e \<longleftrightarrow> or_zero e \<noteq> 0"

definition assign_node :: "parser_state \<Rightarrow> int \<times> int \<Rightarrow> string \<Rightarrow> node \<Rightarrow> node \<Rightarrow> parse_error + node" where
  "assign_node p at op cond val0 =
     (let val = compound_rhs at op cond val0; c = nd cond
      in bnd (if op = ''='' then pointer_assignment at c (nd val) else Inr ()) (\<lambda>_.
         if n_op_enum c = OP_VAR then
           if is_set (ps_const_vars p (pointer_pointee_const_key p (n_name c))) then
             diagnostics_error at ''assignment of read-only (const-qualified) variable''
           else Inr (Node (assigned_info c ((create_info ''assign'' at)\<lparr>n_name := n_name c\<rparr>))
             (Some (if is_set (ps_bool_vars p (n_name c)) then bool_normalize val else val)) None [] None)
         else if (n_op_enum c = OP_UNARY_DEREF \<or> n_op_enum c = OP_INDEX) \<and> n_is_const c then
           diagnostics_error at ''assignment through pointer to const-qualified type''
         else Inr (binary_node (assigned_info c (create_info ''store_index'' at)) cond val)))"

fun expr :: "operand_parser \<Rightarrow> nat \<Rightarrow> operand_parser" where
  "expr unary fuel p =
     bnd (logical_or unary fuel p) (\<lambda>(cond, p1).
       if peek p1 = ''?'' then
         (case fuel of 0 \<Rightarrow> Inl Parse_Fuel
          | Suc k \<Rightarrow>
            bnd (take_tok p1 (Some ''?'')) (\<lambda>(_, p2). bnd (expr unary k p2) (\<lambda>(t, p3).
            bnd (take_tok p3 (Some '':'')) (\<lambda>(_, p4). bnd (expr unary k p4) (\<lambda>(e, p5).
              Inr (ternary_node (tok_pos p) cond t e, p5))))))
       else if is_assignment_operator (peek p1) then
         (case fuel of 0 \<Rightarrow> Inl Parse_Fuel
          | Suc k \<Rightarrow>
            bnd (take_tok p1 None) (\<lambda>(op, p2). bnd (expr unary k p2) (\<lambda>(rhs, p3).
            bnd (assign_node p3 (tok_pos p) op cond rhs) (\<lambda>n. Inr (n, p3)))))
       else Inr (cond, p1))"

declare expr.simps [simp del]

definition comma_node :: "int \<times> int \<Rightarrow> string \<Rightarrow> node \<Rightarrow> node \<Rightarrow> node" where
  "comma_node at op l r =
     (let i = nd r
      in binary_node ((create_info op at)\<lparr>n_type_size := n_type_size i, n_elem_size := n_elem_size i,
           n_pointee_size := n_pointee_size i, n_pointee_unsigned := n_pointee_unsigned i,
           n_pointee_unsigned_known := n_pointee_unsigned_known i, n_aggregate_size := n_aggregate_size i,
           n_aggregate_float_class := n_aggregate_float_class i, n_type_tag := n_type_tag i,
           n_is_unsigned := n_is_unsigned i, n_is_bool := n_is_bool i, n_is_float := n_is_float i\<rparr>) l r)"

definition comma_expr :: "operand_parser \<Rightarrow> nat \<Rightarrow> operand_parser" where
  "comma_expr unary fuel = binary_level fuel ['',''] comma_node (expr unary fuel)"

fun is_lvalue_node :: "node \<Rightarrow> bool" where
  "is_lvalue_node (Node i l r b v) =
     (if n_op_enum i = OP_VAR \<or> n_op_enum i = OP_INDEX \<or> n_op_enum i = OP_UNARY_DEREF then True
      else if n_op_enum i = OP_CAST then (case l of None \<Rightarrow> False | Some m \<Rightarrow> is_lvalue_node m)
      else if n_op_enum i = OP_COMMA then (case r of None \<Rightarrow> False | Some m \<Rightarrow> is_lvalue_node m)
      else False)"

subsection \<open>Literals\<close>

definition char_at :: "string \<Rightarrow> nat \<Rightarrow> char" where
  "char_at t i = (if i < length t then t ! i else CHR 0x00)"

definition signed_char :: "char \<Rightarrow> int" where
  "signed_char c = sint (of_char c :: 8 word)"

text \<open>A character constant: its code, or that of one of the escapes.\<close>

definition char_value :: "string \<Rightarrow> int" where
  "char_value t =
     (if char_at t 1 = CHR 0x5C then
        let c = char_at t 2
        in if c = CHR ''n'' then 10 else if c = CHR ''t'' then 9 else if c = CHR ''r'' then 13
           else if c = CHR ''v'' then 11 else if c = CHR ''f'' then 12 else if c = CHR ''a'' then 7
           else if c = CHR ''b'' then 8 else if c = CHR ''0'' then 0 else if c = CHR 0x5C then 92
           else if c = CHR 0x27 then 39 else signed_char c
      else signed_char (char_at t 1))"

definition char_literal :: "int \<times> int \<Rightarrow> string \<Rightarrow> node" where
  "char_literal at t = Node ((create_info ''num'' at)\<lparr>n_value := char_value t, n_type_size := 4\<rparr>) None None [] None"

text \<open>\<^verbatim>\<open>strtoull\<close> in base 10 and 16 on a text that starts with a digit, and its conversion to \<^verbatim>\<open>long\<close>.\<close>

definition digit_value :: "char \<Rightarrow> nat" where
  "digit_value c = (let n = of_char c in if n \<ge> 97 then n - 87 else if n \<ge> 65 then n - 55 else n - 48)"

definition is_hex_digit :: "char \<Rightarrow> bool" where
  "is_hex_digit c \<longleftrightarrow> is_dec_digit c \<or> c \<in> set ''abcdefABCDEF''"

definition strtoull :: "string \<Rightarrow> bool \<Rightarrow> int" where
  "strtoull t is_hex =
     (let ds = (if is_hex then takeWhile is_hex_digit (drop 2 t) else takeWhile is_dec_digit t);
          v = foldl (\<lambda>v c. v * (if is_hex then 16 else 10) + int (digit_value c)) 0 ds
      in sint (word_of_int (if v < 2 ^ 64 then v else 2 ^ 64 - 1) :: 64 word))"

definition apply_integer_literal_conversion :: "node_info \<Rightarrow> string \<Rightarrow> bool \<Rightarrow> node_info" where
  "apply_integer_literal_conversion n literal is_hex =
     (let n = apply_integer_conversion n;
          n = (if list_ex (\<lambda>c. c = CHR ''l'' \<or> c = CHR ''L'') literal then n\<lparr>n_type_size := 8\<rparr> else n)
      in if list_ex (\<lambda>c. c = CHR ''u'' \<or> c = CHR ''U'') literal then n\<lparr>n_is_unsigned := True\<rparr>
         else if is_hex \<and> n_type_size n = 8 \<and> n_value n < 0 then n\<lparr>n_is_unsigned := True\<rparr>
         else if is_hex \<and> n_value n > 2147483647 \<and> n_value n \<le> 4294967295
         then n\<lparr>n_type_size := 4, n_is_unsigned := True\<rparr> else n)"

definition is_hex_text :: "string \<Rightarrow> bool" where
  "is_hex_text t \<longleftrightarrow> take 2 t = ''0x'' \<or> take 2 t = ''0X''"

definition is_fp_text :: "string \<Rightarrow> bool" where
  "is_fp_text t =
     (if \<not> is_hex_text t then list_ex (\<lambda>c. c \<in> set ''.eEfF'') t else list_ex (\<lambda>c. c \<in> set ''.pP'') t)"

definition float_literal :: "(string \<Rightarrow> 64 word) \<Rightarrow> parser_state \<Rightarrow> int \<times> int \<Rightarrow> string \<Rightarrow> node" where
  "float_literal strtod p at t =
     (let len = length t; imag = len > 0 \<and> char_at t (len - 1) \<in> {CHR ''i'', CHR ''I''};
          sfx = char_at t (if imag \<and> len > 1 then len - 2 else len - 1);
          sz = (if sfx = CHR ''f'' \<or> sfx = CHR ''F'' then 4
                else if sfx = CHR ''l'' \<or> sfx = CHR ''L'' then ps_ld_size p else 8)
      in Node ((create_info ''fnum'' at)\<lparr>n_fvalue := strtod t, n_is_float := True, n_is_imaginary := imag,
           n_is_complex := False, n_type_size := sz\<rparr>) None None [] None)"

definition integer_literal :: "int \<times> int \<Rightarrow> string \<Rightarrow> node" where
  "integer_literal at t =
     Node (apply_integer_literal_conversion
       ((create_info ''num'' at)\<lparr>n_value := strtoull t (is_hex_text t)\<rparr>) t (is_hex_text t)) None None [] None"

definition number_literal :: "(string \<Rightarrow> 64 word) \<Rightarrow> parser_state \<Rightarrow> int \<times> int \<Rightarrow> string \<Rightarrow> node" where
  "number_literal strtod p at t = (if is_fp_text t then float_literal strtod p at t else integer_literal at t)"

end
