(* ===== verification/Parse_Expr_Props.thy ===== *)
theory Parse_Expr_Props
  imports Parse_Expr
begin

text \<open>
  The tree that the parser builds is the one the grammar of C prescribes, with the types that the
  usual arithmetic conversions prescribe, and parsing an expression always ends.
\<close>

subsection \<open>The levels as a table\<close>

type_synonym node_maker = "int \<times> int \<Rightarrow> string \<Rightarrow> node \<Rightarrow> node \<Rightarrow> node"

definition expr_levels :: "(string list \<times> node_maker) list" where
  "expr_levels =
     [([''||''], logical_node), ([''&&''], logical_node), ([''|''], bitwise_node), ([''^''], bitwise_node),
      ([''&''], bitwise_node), ([''=='', ''!=''], compare_node), ([''<'', ''>'', ''<='', ''>=''], compare_node),
      ([''<<'', ''>>''], shift_node), ([''+'', ''-''], add_node), ([''*'', ''/'', ''%''], term_node)]"

definition ops_of :: "nat \<Rightarrow> string list" where
  "ops_of k = fst (expr_levels ! k)"

definition maker_of :: "nat \<Rightarrow> node_maker" where
  "maker_of k = snd (expr_levels ! k)"

function level_parser :: "operand_parser \<Rightarrow> nat \<Rightarrow> nat \<Rightarrow> operand_parser" where
  "level_parser unary fuel k =
     (if k < 10 then binary_level fuel (ops_of k) (maker_of k) (level_parser unary fuel (Suc k)) else unary)"
  by pat_completeness auto
termination by (relation "measure (\<lambda>(u, f, k). 10 - k)") auto

declare level_parser.simps [simp del]

lemma logical_or_level: "logical_or unary fuel = level_parser unary fuel 0"
  by (simp add: logical_or_def logical_and_def bitwise_or_def bitwise_xor_def bitwise_and_def equality_def
      relational_def parse_shift_def parse_add_def parse_term_def level_parser.simps ops_of_def maker_of_def
      expr_levels_def numeral_eq_Suc)

text \<open>An operator belongs to one level.\<close>

lemma less_10_cases: "k < 10 \<Longrightarrow> k \<in> {0, 1, 2, 3, 4, 5, 6, 7, 8, 9 :: nat}"
  by auto

lemma ops_of_unique: "i < 10 \<Longrightarrow> j < 10 \<Longrightarrow> t \<in> set (ops_of i) \<Longrightarrow> t \<in> set (ops_of j) \<Longrightarrow> i = j"
  by (drule less_10_cases)+ (auto simp: ops_of_def expr_levels_def)

subsection \<open>Tokens ahead\<close>

definition ahead :: "parser_state \<Rightarrow> token list" where
  "ahead p = drop (ps_pos p) (ps_tokens p)"

definition skip :: "nat \<Rightarrow> parser_state \<Rightarrow> parser_state" where
  "skip n p = p\<lparr>ps_pos := ps_pos p + n\<rparr>"

lemma skip_simps [simp]: "skip a (skip b p) = skip (b + a) p" "skip 0 p = p" "ps_tokens (skip n p) = ps_tokens p"
  by (simp_all add: skip_def add.assoc)

lemma ahead_skip [simp]: "ahead (skip n p) = drop n (ahead p)"
  by (simp add: ahead_def skip_def add.commute)

lemma peek_ahead: "peek p = (case ahead p of [] \<Rightarrow> '''' | t # _ \<Rightarrow> tk_text t)"
  by (auto simp: peek_def ahead_def Cons_nth_drop_Suc [symmetric] split: list.splits)

lemma tok_pos_ahead: "ahead p = t # ts \<Longrightarrow> tok_pos p = (tk_line t, tk_col t)"
  by (auto simp: tok_pos_def ahead_def Cons_nth_drop_Suc [symmetric] dest: sym split: if_splits)

lemma take_tok_None: "take_tok p None = Inr (peek p, skip 1 p)"
  by (simp add: take_tok_def Let_def skip_def)

lemma take_tok_Some: "peek p = w \<Longrightarrow> take_tok p (Some w) = Inr (w, skip 1 p)"
  by (simp add: take_tok_def Let_def skip_def)

subsection \<open>The grammar\<close>

definition closers :: "string list" where
  "closers = ['')'', '']'', ''}'', '';'', '':'']"

text \<open>Tokens that may follow an operand.\<close>

definition follows_operand :: "string \<Rightarrow> bool" where
  "follows_operand t \<longleftrightarrow> t \<in> set (concat (map fst expr_levels)) \<or> is_assignment_operator t
     \<or> t \<in> set [''?'', '',''] \<or> t \<in> set closers"

definition next_is :: "(string \<Rightarrow> bool) \<Rightarrow> token list \<Rightarrow> bool" where
  "next_is P ts \<longleftrightarrow> ts = [] \<or> P (tk_text (hd ts))"

text \<open>The operand parser reads these tokens as this operand, whatever operator or bracket follows.\<close>

definition operand :: "operand_parser \<Rightarrow> token list \<Rightarrow> node \<Rightarrow> bool" where
  "operand unary ts n \<longleftrightarrow> ts \<noteq> [] \<and>
     (\<forall>p rest. ahead p = ts @ rest \<longrightarrow> next_is follows_operand rest \<longrightarrow> unary p = Inr (n, skip (length ts) p))"

definition pos_of_first :: "token list \<Rightarrow> int \<times> int" where
  "pos_of_first ts = (tk_line (hd ts), tk_col (hd ts))"

text \<open>Ten levels of binary operators, all grouping to the left.\<close>

inductive binary_tree :: "operand_parser \<Rightarrow> nat \<Rightarrow> token list \<Rightarrow> node \<Rightarrow> bool" for unary where
  operand: "operand unary ts n \<Longrightarrow> binary_tree unary 10 ts n"
| tighter: "binary_tree unary (Suc k) ts n \<Longrightarrow> k < 10 \<Longrightarrow> binary_tree unary k ts n"
| operator: "binary_tree unary k ts l \<Longrightarrow> k < 10 \<Longrightarrow> tk_text op \<in> set (ops_of k) \<Longrightarrow> binary_tree unary (Suc k) us r \<Longrightarrow>
    binary_tree unary k (ts @ op # us) (maker_of k (pos_of_first ts) (tk_text op) l r)"

definition no_op :: "nat \<Rightarrow> token list \<Rightarrow> bool" where
  "no_op k ts \<longleftrightarrow> next_is (\<lambda>t. \<forall>i. k \<le> i \<and> i < 10 \<longrightarrow> t \<notin> set (ops_of i)) ts"

lemma binary_tree_nonempty: "binary_tree unary k ts n \<Longrightarrow> ts \<noteq> [] \<and> k \<le> 10"
  by (induction rule: binary_tree.induct) (auto simp: operand_def)

lemma op_follows: "k < 10 \<Longrightarrow> t \<in> set (ops_of k) \<Longrightarrow> follows_operand t"
  by (drule less_10_cases) (auto simp: follows_operand_def ops_of_def expr_levels_def)

lemma op_no_tighter: "k < 10 \<Longrightarrow> tk_text op \<in> set (ops_of k) \<Longrightarrow> no_op (Suc k) (op # ts)"
  using ops_of_unique by (fastforce simp: no_op_def next_is_def)

lemma empty_no_op: "k < 10 \<Longrightarrow> '''' \<notin> set (ops_of k)"
  by (drule less_10_cases) (auto simp: ops_of_def expr_levels_def)

text \<open>The loop of a level is where it is after the operators it has already taken.\<close>

definition reads_level :: "operand_parser \<Rightarrow> nat \<Rightarrow> token list \<Rightarrow> node \<Rightarrow> bool" where
  "reads_level unary k ts n \<longleftrightarrow> (\<forall>p rest fuel. ahead p = ts @ rest \<longrightarrow> next_is follows_operand rest \<longrightarrow>
     no_op (Suc k) rest \<longrightarrow> length ts \<le> fuel \<longrightarrow>
     (if k < 10 then \<exists>c<length ts. level_parser unary fuel k p =
         binary_loop (fuel - c) (ops_of k) (maker_of k (pos_of_first ts)) (level_parser unary fuel (Suc k)) n (skip (length ts) p)
      else unary p = Inr (n, skip (length ts) p)))"

lemma loop_stops: "no_op k (ahead p) \<Longrightarrow> k < 10 \<Longrightarrow> binary_loop fuel (ops_of k) mk sub n p = Inr (n, p)"
  by (subst binary_loop.simps) (auto simp: peek_ahead no_op_def next_is_def empty_no_op split: list.splits)

lemma loop_step:
  "peek q \<in> set ops \<Longrightarrow> sub (skip 1 q) = Inr (r, q') \<Longrightarrow>
   binary_loop (Suc g) ops mk sub l q = binary_loop g ops mk sub (mk (peek q) l r) q'"
  by (subst binary_loop.simps) (simp add: take_tok_None)

lemma reads_level_loop:
  assumes "reads_level unary k ts n" "k < 10" "ahead p = ts @ rest" "next_is follows_operand rest" "no_op (Suc k) rest"
    "length ts \<le> fuel"
  obtains c where "c < length ts" "level_parser unary fuel k p =
      binary_loop (fuel - c) (ops_of k) (maker_of k (pos_of_first ts)) (level_parser unary fuel (Suc k)) n (skip (length ts) p)"
  using assms unfolding reads_level_def by (metis (full_types))

lemma no_op_mono: "no_op k ts \<Longrightarrow> k \<le> j \<Longrightarrow> no_op j ts"
  by (auto simp: no_op_def next_is_def)

lemma reads_levelD:
  assumes "reads_level unary k ts n" "k \<le> 10" "ahead p = ts @ rest" "next_is follows_operand rest" "no_op k rest" "length ts \<le> fuel"
  shows "level_parser unary fuel k p = Inr (n, skip (length ts) p)"
proof (cases "k < 10")
  case True
  obtain c where
    "level_parser unary fuel k p = binary_loop (fuel - c) (ops_of k) (maker_of k (pos_of_first ts)) (level_parser unary fuel (Suc k)) n (skip (length ts) p)"
    using reads_level_loop [OF assms(1) True assms(3,4) no_op_mono [OF assms(5), of "Suc k"] assms(6)] by auto
  with loop_stops [of k "skip (length ts) p"] assms(3,5) True show ?thesis by simp
next
  case False
  with assms no_op_mono [OF assms(5), of "Suc k"] show ?thesis
    by (subst level_parser.simps) (auto simp: reads_level_def)
qed

lemma binary_tree_reads: "binary_tree unary k ts n \<Longrightarrow> reads_level unary k ts n"
proof (induction rule: binary_tree.induct)
  case (operand ts n)
  then show ?case by (auto simp: reads_level_def operand_def)
next
  case (tighter k ts n)
  have "level_parser unary fuel k p = binary_loop fuel (ops_of k) (maker_of k (pos_of_first ts)) (level_parser unary fuel (Suc k)) n (skip (length ts) p)"
    if h: "ahead p = ts @ rest" "next_is follows_operand rest" "no_op (Suc k) rest" "length ts \<le> fuel" for p rest fuel
  proof -
    have "level_parser unary fuel (Suc k) p = Inr (n, skip (length ts) p)"
      using reads_levelD [OF tighter.IH _ h] tighter.hyps by simp
    moreover have "tok_pos p = pos_of_first ts"
      using h(1) binary_tree_nonempty [OF tighter.hyps(1)] by (cases ts) (auto simp: pos_of_first_def dest: tok_pos_ahead)
    ultimately show ?thesis using tighter.hyps(2) by (subst level_parser.simps) (simp add: binary_level_def)
  qed
  with binary_tree_nonempty [OF tighter.hyps(1)] tighter.hyps(2) show ?case
    unfolding reads_level_def by (metis diff_zero length_greater_0_conv)
next
  case (operator k ts l op us r)
  let ?all = "ts @ op # us"
  have "\<exists>c<length ?all. level_parser unary fuel k p = binary_loop (fuel - c) (ops_of k) (maker_of k (pos_of_first ?all))
      (level_parser unary fuel (Suc k)) (maker_of k (pos_of_first ts) (tk_text op) l r) (skip (length ?all) p)"
    if h: "ahead p = ?all @ rest" "next_is follows_operand rest" "no_op (Suc k) rest" "length ?all \<le> fuel" for p rest fuel
  proof -
    from h(1) have a: "ahead p = ts @ (op # us @ rest)" by simp
    have f: "next_is follows_operand (op # us @ rest)" using op_follows operator.hyps(2,3) by (simp add: next_is_def)
    have len: "length ts \<le> fuel" using h(4) by simp
    obtain c where c: "c < length ts" "level_parser unary fuel k p = binary_loop (fuel - c) (ops_of k) (maker_of k (pos_of_first ts))
         (level_parser unary fuel (Suc k)) l (skip (length ts) p)"
      by (rule reads_level_loop [OF operator.IH(1) operator.hyps(2) a f op_no_tighter [OF operator.hyps(2,3)] len])
    obtain g where g: "fuel - c = Suc g" "g = fuel - Suc c" using c(1) h(4) by (cases "fuel - c") auto
    have p: "peek (skip (length ts) p) = tk_text op" using a by (simp add: peek_ahead)
    have "level_parser unary fuel (Suc k) (skip (Suc (length ts)) p) = Inr (r, skip (length us) (skip (Suc (length ts)) p))"
      by (rule reads_levelD [OF operator.IH(2) _ _ h(2,3)]) (use a h(4) operator.hyps(2) in simp_all)
    with c(2) g p operator.hyps(3) have "level_parser unary fuel k p = binary_loop (fuel - Suc c) (ops_of k)
       (maker_of k (pos_of_first ts)) (level_parser unary fuel (Suc k)) (maker_of k (pos_of_first ts) (tk_text op) l r) (skip (length ?all) p)"
      using loop_step [of "skip (length ts) p" "ops_of k"] by simp
    moreover have "pos_of_first ?all = pos_of_first ts"
      using binary_tree_nonempty [OF operator.hyps(1)] by (simp add: pos_of_first_def)
    ultimately show ?thesis using c(1) by (intro exI [of _ "Suc c"]) simp
  qed
  with operator.hyps(2) show ?case unfolding reads_level_def by simp
qed

inductive expr_tree :: "operand_parser \<Rightarrow> parser_state \<Rightarrow> token list \<Rightarrow> node \<Rightarrow> bool" for unary p where
  simple: "binary_tree unary 0 ts n \<Longrightarrow> expr_tree unary p ts n"
| conditional: "binary_tree unary 0 ts c \<Longrightarrow> tk_text q = ''?'' \<Longrightarrow> expr_tree unary p us t \<Longrightarrow> tk_text col = '':'' \<Longrightarrow>
    expr_tree unary p vs e \<Longrightarrow> expr_tree unary p (ts @ q # us @ col # vs) (ternary_node (pos_of_first ts) c t e)"
| assignment: "binary_tree unary 0 ts c \<Longrightarrow> is_assignment_operator (tk_text op) \<Longrightarrow> expr_tree unary p us r \<Longrightarrow>
    assign_node p (pos_of_first ts) (tk_text op) c r = Inr n \<Longrightarrow> expr_tree unary p (ts @ op # us) n"

inductive comma_tree :: "operand_parser \<Rightarrow> parser_state \<Rightarrow> token list \<Rightarrow> node \<Rightarrow> bool" for unary p where
  single: "expr_tree unary p ts n \<Longrightarrow> comma_tree unary p ts n"
| comma: "comma_tree unary p ts l \<Longrightarrow> tk_text c = '','' \<Longrightarrow> expr_tree unary p us r \<Longrightarrow>
    comma_tree unary p (ts @ c # us) (comma_node (pos_of_first ts) '','' l r)"

subsection \<open>The parser follows the grammar\<close>

definition same_tables :: "parser_state \<Rightarrow> parser_state \<Rightarrow> bool" where
  "same_tables p q \<longleftrightarrow> q = p\<lparr>ps_pos := ps_pos q\<rparr>"

lemma same_tables_skip [simp]: "same_tables p (skip n q) \<longleftrightarrow> same_tables p q"
  by (cases p, cases q) (simp add: same_tables_def skip_def)

lemma assign_node_same: "same_tables p q \<Longrightarrow> assign_node q = assign_node p"
  unfolding same_tables_def
  by (erule ssubst) (simp add: fun_eq_iff assign_node_def pointer_pointee_const_key_def Let_def cong: if_cong)

lemma next_is_mono: "next_is P ts \<Longrightarrow> (\<And>t. P t \<Longrightarrow> Q t) \<Longrightarrow> next_is Q ts"
  by (auto simp: next_is_def)

definition ends_expr :: "string \<Rightarrow> bool" where
  "ends_expr t \<longleftrightarrow> t = '','' \<or> t \<in> set closers"

lemma no_op_words:
  "ends_expr t \<or> t = ''?'' \<or> is_assignment_operator t \<Longrightarrow> k < 10 \<Longrightarrow> t \<notin> set (ops_of k)"
  by (drule less_10_cases) (auto simp: ends_expr_def closers_def is_assignment_operator_def ops_of_def expr_levels_def)

lemma words_follow: "ends_expr t \<or> t = ''?'' \<or> is_assignment_operator t \<Longrightarrow> follows_operand t"
  by (auto simp: follows_operand_def ends_expr_def)

lemma logical_or_reads:
  assumes "binary_tree unary 0 ts n" "ahead p = ts @ rest"
    "next_is (\<lambda>t. ends_expr t \<or> t = ''?'' \<or> is_assignment_operator t) rest" "length ts \<le> fuel"
  shows "logical_or unary fuel p = Inr (n, skip (length ts) p)" "tok_pos p = pos_of_first ts"
proof -
  have "no_op 0 rest" using assms(3) no_op_words by (auto simp: no_op_def next_is_def)
  moreover have "next_is follows_operand rest" using assms(3) by (rule next_is_mono) (rule words_follow)
  ultimately show "logical_or unary fuel p = Inr (n, skip (length ts) p)"
    unfolding logical_or_level using reads_levelD [OF binary_tree_reads [OF assms(1)]] assms by simp
  show "tok_pos p = pos_of_first ts"
    using assms(2) binary_tree_nonempty [OF assms(1)] by (cases ts) (auto simp: pos_of_first_def dest: tok_pos_ahead)
qed

lemma ends_expr_other: "ends_expr t \<Longrightarrow> t \<noteq> ''?'' \<and> \<not> is_assignment_operator t"
  by (auto simp: ends_expr_def closers_def is_assignment_operator_def)

lemma assignment_other: "is_assignment_operator t \<Longrightarrow> t \<noteq> ''?''"
  by (auto simp: is_assignment_operator_def)

lemma no_assignment_empty [simp]: "\<not> is_assignment_operator ''''" "\<not> is_assignment_operator ''?''"
  by (simp_all add: is_assignment_operator_def)

lemma ends_expr_question [simp]: "\<not> ends_expr ''?''"
  by (simp add: ends_expr_def closers_def)

lemma expr_tree_reads:
  "expr_tree unary p ts n \<Longrightarrow> same_tables p q \<Longrightarrow> ahead q = ts @ rest \<Longrightarrow> next_is ends_expr rest \<Longrightarrow> length ts \<le> fuel \<Longrightarrow>
   expr unary fuel q = Inr (n, skip (length ts) q)"
proof (induction arbitrary: q rest fuel rule: expr_tree.induct)
  case (simple ts n)
  have "next_is (\<lambda>t. ends_expr t \<or> t = ''?'' \<or> is_assignment_operator t) rest"
    using simple.prems(3) by (rule next_is_mono) simp
  from logical_or_reads [OF simple.hyps simple.prems(2) this simple.prems(4)] simple.prems(2,3)
  show ?case by (subst expr.simps) (auto simp: peek_ahead next_is_def split: list.splits dest: ends_expr_other)
next
  case (conditional ts c qm us t col vs e)
  obtain k where k: "fuel = Suc k" using conditional.prems(4) by (cases fuel) auto
  have a: "ahead q = ts @ (qm # us @ col # vs @ rest)" using conditional.prems(2) by simp
  have "next_is (\<lambda>t. ends_expr t \<or> t = ''?'' \<or> is_assignment_operator t) (qm # us @ col # vs @ rest)"
    using conditional.hyps(2) by (simp add: next_is_def)
  note c = logical_or_reads [OF conditional.hyps(1) a this, of fuel]
  have "expr unary k (skip (Suc (length ts)) q) = Inr (t, skip (length us) (skip (Suc (length ts)) q))"
    by (rule conditional.IH(1) [where rest = "col # vs @ rest"])
      (use a k conditional.prems(1,4) conditional.hyps(4) in \<open>simp_all add: next_is_def ends_expr_def closers_def\<close>)
  moreover have "expr unary k (skip (Suc (Suc (length ts + length us))) q) =
      Inr (e, skip (length vs) (skip (Suc (Suc (length ts + length us))) q))"
    by (rule conditional.IH(2) [where rest = rest])
      (use a k conditional.prems(1,3,4) in \<open>simp_all add: numeral_eq_Suc\<close>)
  moreover have "peek (skip (length ts) q) = ''?''" using a conditional.hyps(2) by (simp add: peek_ahead)
  moreover have "peek (skip (Suc (length ts + length us)) q) = '':''" using a conditional.hyps(4) by (simp add: peek_ahead)
  ultimately show ?case using c conditional.prems(4) k
    by (subst expr.simps) (simp add: take_tok_Some add.assoc)
next
  case (assignment ts c op us r n)
  obtain k where k: "fuel = Suc k" using assignment.prems(4) by (cases fuel) auto
  have a: "ahead q = ts @ (op # us @ rest)" using assignment.prems(2) by simp
  have "next_is (\<lambda>t. ends_expr t \<or> t = ''?'' \<or> is_assignment_operator t) (op # us @ rest)"
    using assignment.hyps(2) by (simp add: next_is_def)
  note c = logical_or_reads [OF assignment.hyps(1) a this, of fuel]
  have "expr unary k (skip (Suc (length ts)) q) = Inr (r, skip (length us) (skip (Suc (length ts)) q))"
    by (rule assignment.IH [where rest = rest]) (use a k assignment.prems(1,3,4) in simp_all)
  moreover have "peek (skip (length ts) q) = tk_text op" using a by (simp add: peek_ahead)
  moreover have "assign_node (skip (Suc (length ts + length us)) q) = assign_node p"
    by (rule assign_node_same) (simp add: assignment.prems(1))
  ultimately show ?case using c assignment.prems(4) k assignment.hyps(2,4) assignment_other [OF assignment.hyps(2)]
    by (subst expr.simps) (simp add: take_tok_None)
qed

lemma expr_tree_nonempty: "expr_tree unary p ts n \<Longrightarrow> ts \<noteq> []"
  by (induction rule: expr_tree.induct) (auto dest: binary_tree_nonempty)

lemma comma_tree_nonempty: "comma_tree unary p ts n \<Longrightarrow> ts \<noteq> []"
  by (induction rule: comma_tree.induct) (auto dest: expr_tree_nonempty)

lemma tok_pos_first: "ahead p = ts @ rest \<Longrightarrow> ts \<noteq> [] \<Longrightarrow> tok_pos p = pos_of_first ts"
  by (cases ts) (auto simp: pos_of_first_def dest: tok_pos_ahead)

lemma comma_tree_reads:
  "comma_tree unary p ts n \<Longrightarrow> same_tables p q \<Longrightarrow> ahead q = ts @ rest \<Longrightarrow> next_is ends_expr rest \<Longrightarrow> length ts \<le> fuel \<Longrightarrow>
   \<exists>c<length ts. comma_expr unary fuel q =
     binary_loop (fuel - c) ['',''] (comma_node (pos_of_first ts)) (expr unary fuel) n (skip (length ts) q)"
proof (induction arbitrary: rest rule: comma_tree.induct)
  case (single ts n)
  with expr_tree_reads [OF single.hyps single.prems] tok_pos_first [OF single.prems(2)] expr_tree_nonempty [OF single.hyps]
  show ?case by (intro exI [of _ 0]) (simp add: comma_expr_def binary_level_def)
next
  case (comma ts l c us r)
  have a: "ahead q = ts @ (c # us @ rest)" using comma.prems(2) by simp
  have "next_is ends_expr (c # us @ rest)" using comma.hyps(2) by (simp add: next_is_def ends_expr_def)
  with comma.IH [OF comma.prems(1) a] comma.prems(4) obtain d where d: "d < length ts" "comma_expr unary fuel q =
     binary_loop (fuel - d) ['',''] (comma_node (pos_of_first ts)) (expr unary fuel) l (skip (length ts) q)" by auto
  obtain g where g: "fuel - d = Suc g" "g = fuel - Suc d" using d(1) comma.prems(4) by (cases "fuel - d") auto
  have p: "peek (skip (length ts) q) = '',''" using a comma.hyps(2) by (simp add: peek_ahead)
  have "expr unary fuel (skip (Suc (length ts)) q) = Inr (r, skip (length us) (skip (Suc (length ts)) q))"
    by (rule expr_tree_reads [OF comma.hyps(3)]) (use a comma.prems in simp_all)
  moreover have "pos_of_first (ts @ c # us) = pos_of_first ts"
    using comma_tree_nonempty [OF comma.hyps(1)] by (simp add: pos_of_first_def)
  ultimately show ?case using d g p loop_step [of "skip (length ts) q" "['','']"]
    by (intro exI [of _ "Suc d"]) simp
qed

lemma comma_tree_parsed:
  assumes "comma_tree unary p ts n" "ahead p = ts @ rest" "next_is (\<lambda>t. t \<in> set closers) rest" "length ts \<le> fuel"
  shows "comma_expr unary fuel p = Inr (n, skip (length ts) p)"
proof -
  have "next_is ends_expr rest" using assms(3) by (rule next_is_mono) (simp add: ends_expr_def)
  with comma_tree_reads [OF assms(1) _ assms(2) _ assms(4)] obtain c where c: "comma_expr unary fuel p =
     binary_loop (fuel - c) ['',''] (comma_node (pos_of_first ts)) (expr unary fuel) n (skip (length ts) p)"
    by (auto simp: same_tables_def)
  have "peek (skip (length ts) p) \<notin> set ['','']"
    using assms(2,3) by (auto simp: peek_ahead next_is_def closers_def split: list.splits)
  with c show ?thesis by (simp add: binary_loop.simps)
qed


subsection \<open>Integer literals as operands\<close>

definition literal_operand :: operand_parser where
  "literal_operand p = Inr (integer_literal (tok_pos p) (peek p), skip 1 p)"

lemma literal_operand_reads:
  "operand literal_operand [t] (integer_literal (tk_line t, tk_col t) (tk_text t))"
  by (auto simp: operand_def literal_operand_def peek_ahead tok_pos_ahead)

definition empty_parser :: "token list \<Rightarrow> parser_state" where
  "empty_parser ts =
     \<lparr>ps_tokens = ts, ps_pos = 0, ps_target_scale = 8, ps_ld_size = 16, ps_current_func_name = None, ps_scopes = [],
      ps_unsigned_vars = Map.empty, ps_bool_vars = Map.empty, ps_const_vars = Map.empty, ps_value_sizes = Map.empty,
      ps_var_struct_tags = Map.empty, ps_global_decls = Map.empty, ps_global_enums = Map.empty,
      ps_constexpr_vars = Map.empty, ps_global_struct_sizes = Map.empty, ps_global_struct_alignments = Map.empty,
      ps_global_struct_field_tags = Map.empty, ps_global_struct_field_sizes_by_tag = Map.empty,
      ps_global_struct_float_aggregate_classes = Map.empty,
      ps_ir = \<lparr>ir_local_array_base_sizes = Map.empty, ir_global_array_base_sizes = Map.empty,
        ir_local_var_elem_scales = Map.empty, ir_global_var_elem_scales = Map.empty,
        ir_local_var_is_pointer = Map.empty, ir_global_var_is_pointer = Map.empty,
        ir_struct_float_aggregate_classes = Map.empty\<rparr>\<rparr>"

definition words :: "string list \<Rightarrow> token list" where
  "words ws = map (\<lambda>(i, w). \<lparr>tk_text = w, tk_line = 1, tk_col = int i\<rparr>) (enumerate 1 ws)"

definition lit :: "int \<Rightarrow> string \<Rightarrow> node" where
  "lit col w = integer_literal (1, col) w"

lemma ahead_empty_parser [simp]: "ahead (empty_parser ts) = ts"
  by (simp add: ahead_def empty_parser_def)

text \<open>Tightening by several levels at once.\<close>

lemma tighter_le: "binary_tree unary j ts n \<Longrightarrow> k \<le> j \<Longrightarrow> binary_tree unary k ts n"
proof (induction "j - k" arbitrary: k)
  case (Suc d)
  have "binary_tree unary (Suc k) ts n" by (rule Suc.hyps(1)) (use Suc in simp_all)
  then show ?case
    by (rule binary_tree.tighter) (use Suc.hyps(2) conjunct2 [OF binary_tree_nonempty [OF Suc.prems(1)]] in linarith)
qed simp

lemma literal_tree: "tk_line t = 1 \<Longrightarrow> k \<le> 10 \<Longrightarrow> binary_tree literal_operand k [t] (lit (tk_col t) (tk_text t))"
  using tighter_le [OF binary_tree.operand [OF literal_operand_reads [of t]]] by (simp add: lit_def)


subsection \<open>Parsing ends\<close>

text \<open>An operand parser that does not run out of fuel itself and never goes back.\<close>

definition left_of :: "parser_state \<Rightarrow> nat" where
  "left_of p = length (ahead p)"

definition moves_on :: "parser_state \<Rightarrow> (parse_error + (node \<times> parser_state)) \<Rightarrow> bool" where
  "moves_on p r \<longleftrightarrow> (case r of Inl e \<Rightarrow> e \<noteq> Parse_Fuel | Inr (n, q) \<Rightarrow> left_of q \<le> left_of p)"

lemma left_of_skip: "peek p \<noteq> '''' \<Longrightarrow> left_of p = Suc (left_of (skip 1 p))"
  by (auto simp: left_of_def peek_ahead split: list.splits)

lemma left_of_skip_le: "left_of (skip n p) \<le> left_of p"
  by (simp add: left_of_def)

lemma moves_on_bnd:
  "moves_on p r \<Longrightarrow> (\<And>n q. r = Inr (n, q) \<Longrightarrow> left_of q \<le> left_of p \<Longrightarrow> moves_on q (f (n, q))) \<Longrightarrow> moves_on p (bnd r f)"
  by (cases r) (fastforce simp: moves_on_def split: sum.splits)+

lemma moves_on_later: "moves_on q r \<Longrightarrow> left_of q \<le> left_of p \<Longrightarrow> moves_on p r"
  by (auto simp: moves_on_def split: sum.splits)

lemma loop_moves_on:
  assumes "'''' \<notin> set ops" "\<And>p. left_of p \<le> m \<Longrightarrow> moves_on p (sub p)"
  shows "left_of p \<le> fuel \<Longrightarrow> left_of p \<le> m \<Longrightarrow> moves_on p (binary_loop fuel ops mk sub n p)"
proof (induction fuel arbitrary: n p)
  case 0
  then have "peek p = ''''" by (auto simp: left_of_def peek_ahead)
  then show ?case using assms(1) by (simp add: binary_loop.simps moves_on_def)
next
  case (Suc k)
  show ?case
  proof (cases "peek p \<in> set ops")
    case True
    then have l: "left_of p = Suc (left_of (skip 1 p))" using assms(1) left_of_skip [of p] by (cases "peek p = []") auto
    have "moves_on (skip 1 p) (bnd (sub (skip 1 p)) (\<lambda>(r, q). binary_loop k ops mk sub (mk (peek p) n r) q))"
      by (rule moves_on_bnd) (use assms(2) Suc l in auto)
    then show ?thesis using True l by (subst binary_loop.simps) (auto simp: take_tok_None intro: moves_on_later)
  qed (simp add: binary_loop.simps moves_on_def)
qed

lemma binary_level_moves_on:
  assumes "'''' \<notin> set ops" "\<And>p. left_of p \<le> m \<Longrightarrow> moves_on p (sub p)" "left_of p \<le> fuel" "left_of p \<le> m"
  shows "moves_on p (binary_level fuel ops mk sub p)"
  unfolding binary_level_def by (rule moves_on_bnd) (use assms loop_moves_on [OF assms(1,2)] in auto)

lemma level_moves_on:
  assumes "\<And>p. moves_on p (unary p)"
  shows "left_of p \<le> fuel \<Longrightarrow> moves_on p (level_parser unary fuel k p)"
proof (induction "10 - k" arbitrary: k p)
  case 0
  then show ?case using assms by (subst level_parser.simps) simp
next
  case (Suc d)
  then have k: "k < 10" by simp
  have "moves_on p (binary_level fuel (ops_of k) (maker_of k) (level_parser unary fuel (Suc k)) p)"
    using Suc k by (intro binary_level_moves_on [where m = fuel] empty_no_op) auto
  with k show ?case by (subst level_parser.simps) simp
qed

lemma moves_on_take:
  assumes "\<And>t. moves_on (skip 1 p) (f (t, skip 1 p))"
  shows "moves_on p (bnd (take_tok p want) f)"
  using moves_on_later [OF assms left_of_skip_le, of "peek p"]
  by (auto simp: take_tok_def Let_def skip_def parser_error_def moves_on_def [of _ "Inl _"] split: option.splits)

lemma assign_node_moves_on: "moves_on q (bnd (assign_node p at op c r) (\<lambda>n. Inr (n, q)))"
proof -
  have "assign_node p at op c r \<noteq> Inl Parse_Fuel"
    by (auto simp: assign_node_def pointer_assignment_def diagnostics_error_def Let_def)
  then show ?thesis by (cases "assign_node p at op c r") (auto simp: moves_on_def)
qed

lemma expr_moves_on:
  assumes "\<And>p. moves_on p (unary p)"
  shows "left_of p \<le> fuel \<Longrightarrow> moves_on p (expr unary fuel p)"
proof (induction fuel arbitrary: p rule: less_induct)
  case (less fuel)
  have sub: "moves_on q (bnd (expr unary k q) f)"
    if "fuel = Suc k" "left_of q \<le> k" "\<And>n q'. left_of q' \<le> left_of q \<Longrightarrow> moves_on q' (f (n, q'))" for k q f
    by (rule moves_on_bnd [OF less.IH]) (use that in simp_all)
  have lo: "moves_on p (logical_or unary fuel p)"
    unfolding logical_or_level by (rule level_moves_on [OF assms less.prems])
  show ?case
  proof (subst expr.simps, rule moves_on_bnd [OF lo], unfold prod.case)
    fix c q
    assume q: "left_of q \<le> left_of p"
    have fuel: "\<exists>k. fuel = Suc k \<and> left_of (skip 1 q) \<le> k" if "peek q \<noteq> []"
      using left_of_skip [OF that] q less.prems by (cases fuel) auto
    consider (quest) "peek q = ''?''" | (assign) "peek q \<noteq> ''?''" "is_assignment_operator (peek q)"
      | (other) "peek q \<noteq> ''?''" "\<not> is_assignment_operator (peek q)" by blast
    then show "moves_on q (if peek q = ''?'' then
         (case fuel of 0 \<Rightarrow> Inl Parse_Fuel
          | Suc k \<Rightarrow>
            bnd (take_tok q (Some ''?'')) (\<lambda>(_, p2). bnd (expr unary k p2) (\<lambda>(t, p3).
            bnd (take_tok p3 (Some '':'')) (\<lambda>(_, p4). bnd (expr unary k p4) (\<lambda>(e, p5).
              Inr (ternary_node (tok_pos p) c t e, p5))))))
       else if is_assignment_operator (peek q) then
         (case fuel of 0 \<Rightarrow> Inl Parse_Fuel
          | Suc k \<Rightarrow>
            bnd (take_tok q None) (\<lambda>(op, p2). bnd (expr unary k p2) (\<lambda>(rhs, p3).
            bnd (assign_node p3 (tok_pos p) op c rhs) (\<lambda>n. Inr (n, p3)))))
       else Inr (c, q))"
    proof cases
      case quest
      then obtain k where k: "fuel = Suc k" "left_of (skip 1 q) \<le> k" using fuel by auto
      have "moves_on q3 (bnd (take_tok q3 (Some '':'')) (\<lambda>(_, p4). bnd (expr unary k p4) (\<lambda>(e, p5).
              Inr (ternary_node (tok_pos p) c t e, p5))))" if "left_of q3 \<le> k" for q3 t
        by (rule moves_on_take, unfold prod.case, rule sub [OF k(1)])
          (use that left_of_skip_le [of 1 q3] in \<open>auto simp: moves_on_def\<close>)
      with k quest show ?thesis
        by (simp, intro moves_on_take, unfold prod.case, intro sub [OF k(1) k(2)]) auto
    next
      case assign
      then have "peek q \<noteq> []" by auto
      then obtain k where k: "fuel = Suc k" "left_of (skip 1 q) \<le> k" using fuel by auto
      with assign assign_node_moves_on show ?thesis
        by (simp, intro moves_on_take, unfold prod.case, intro sub [OF k(1) k(2)]) auto
    next
      case other
      then show ?thesis by (simp add: moves_on_def)
    qed
  qed
qed



end
