(* ===== verification/Parse_Conv.thy ===== *)
theory Parse_Conv
  imports Parse_Expr
begin

text \<open>
  The types the parser gives to arithmetic are those of the usual arithmetic conversions, and where
  they are not.
\<close>

subsection \<open>The conversions of the standard\<close>

text \<open>An integer type: its size in bytes and whether it is unsigned.\<close>

type_synonym c_type = "int \<times> bool"

definition c_min :: "c_type \<Rightarrow> int" where
  "c_min t = (if snd t then 0 else - (2 ^ nat (8 * fst t - 1)))"

definition c_max :: "c_type \<Rightarrow> int" where
  "c_max t = (if snd t then 2 ^ nat (8 * fst t) - 1 else 2 ^ nat (8 * fst t - 1) - 1)"

definition represents :: "c_type \<Rightarrow> c_type \<Rightarrow> bool" where
  "represents t u \<longleftrightarrow> c_min t \<le> c_min u \<and> c_max u \<le> c_max t"

text \<open>Integer promotions (6.3.1.1) and the common type of two operands (6.3.1.8).\<close>

definition promote :: "c_type \<Rightarrow> c_type" where
  "promote t = (if fst t \<le> 4 then if represents (4, False) t then (4, False) else (4, True) else t)"

definition common_type :: "c_type \<Rightarrow> c_type \<Rightarrow> c_type" where
  "common_type l r =
     (let l = promote l; r = promote r; u = (if snd l then l else r); s = (if snd l then r else l)
      in if l = r then l
         else if snd l = snd r then if fst l \<ge> fst r then l else r
         else if fst u \<ge> fst s then u
         else if represents s u then s else (fst s, True))"

definition standard_type :: "c_type \<Rightarrow> bool" where
  "standard_type t \<longleftrightarrow> fst t \<in> {1, 2, 4, 8}"

definition type_of :: "node \<Rightarrow> c_type" where
  "type_of n = (n_type_size (nd n), n_is_unsigned (nd n))"

definition int_operand :: "node \<Rightarrow> bool" where
  "int_operand n \<longleftrightarrow> standard_type (type_of n) \<and> \<not> n_is_float (nd n) \<and> \<not> n_is_complex (nd n) \<and> \<not> n_is_imaginary (nd n)
     \<and> (n_op_enum (nd n) \<in> {OP_EQ, OP_NE, OP_LT, OP_GT, OP_LE, OP_GE, OP_LAND, OP_LOR, OP_UNARY_NOT} \<longrightarrow> \<not> n_is_unsigned (nd n))"

subsection \<open>What the parser computes\<close>

lemma range_facts:
  "represents (4, False) (1, u)" "represents (4, False) (2, u)" "represents (4, False) (4, u) \<longleftrightarrow> \<not> u"
  "represents (8, False) (4, u)"
  by (simp_all add: represents_def c_min_def c_max_def)

lemma promote_std: "standard_type t \<Longrightarrow> promote t = (if fst t < 4 then 4 else fst t, snd t \<and> 4 \<le> fst t)"
  by (cases t) (auto simp: standard_type_def promote_def range_facts)

lemma promoted_unsigned: "int_operand n \<Longrightarrow> promoted_is_unsigned (nd n) \<longleftrightarrow> n_is_unsigned (nd n) \<and> 4 \<le> n_type_size (nd n)"
  unfolding int_operand_def promoted_is_unsigned_def by (metis (full_types))

lemma int_operand_size: "int_operand n \<Longrightarrow> n_type_size (nd n) \<in> {1, 2, 4, 8}"
  by (simp only: int_operand_def standard_type_def type_of_def fst_conv)

lemma promoted_type:
  assumes "int_operand n"
  shows "promote (type_of n) = (promoted_size (nd n), promoted_is_unsigned (nd n))"
  using promote_std [of "type_of n"] assms promoted_unsigned [OF assms]
  by (simp only: int_operand_def promoted_size_def type_of_def fst_conv snd_conv)

lemma promoted_cases:
  assumes "int_operand n"
  shows "promoted_size (nd n) = 4 \<or> promoted_size (nd n) = 8"
  using int_operand_size [OF assms] by (auto simp: promoted_size_def)

lemma arith_type_common:
  assumes "int_operand l" "int_operand r"
  shows "arith_type (nd l) (nd r) = common_type (type_of l) (type_of r)"
  using promoted_cases [OF assms(1)] promoted_cases [OF assms(2)]
  by (auto simp: arith_type_def common_type_def Let_def promoted_type [OF assms(1)]
      promoted_type [OF assms(2)] range_facts)

lemma compare_arith:
  assumes "int_operand l" "int_operand r"
  shows "n_compare_unsigned (nd (compare_node at op l r)) = snd (arith_type (nd l) (nd r))"
  using int_operand_size [OF assms(1)] int_operand_size [OF assms(2)]
  by (auto simp: arith_type_def compare_node_def binary_node_def Let_def promoted_size_def
      promoted_unsigned [OF assms(1)] promoted_unsigned [OF assms(2)])

lemma arith_info_type:
  assumes "int_operand l" "int_operand r"
  shows "arith_info at op (nd l) (nd r) =
    (create_info op at)\<lparr>n_type_size := fst (common_type (type_of l) (type_of r)), n_is_unsigned := snd (common_type (type_of l) (type_of r))\<rparr>"
  using assms by (simp add: arith_info_def arith_type_common float_type_def int_operand_def)

text \<open>C14: The usual arithmetic conversions: for operands of integer types of one, two, four or eight
  bytes, the nodes of the additive, multiplicative and bitwise operators have the common type of
  the C standard -- promotion to int or unsigned int, then the common type of the promoted
  operands -- and the comparisons compare in this type.\<close>

theorem conversions_usual:
  assumes "int_operand l" "int_operand r"
  shows "type_of (term_node at op l r) = common_type (type_of l) (type_of r)
    \<and> type_of (add_node at op l r) = common_type (type_of l) (type_of r)
    \<and> type_of (bitwise_node at op l r) = common_type (type_of l) (type_of r)
    \<and> n_compare_unsigned (nd (compare_node at op l r)) = snd (common_type (type_of l) (type_of r))"
proof (intro conjI)
  have c: "n_is_complex (nd l) = False" "n_is_complex (nd r) = False" "n_is_imaginary (nd l) = False"
    "n_is_imaginary (nd r) = False" using assms by (simp_all add: int_operand_def)
  show "type_of (term_node at op l r) = common_type (type_of l) (type_of r)"
    by (simp add: term_node_def binary_node_def arith_info_type [OF assms] type_of_def complex_size_def c)
  show "type_of (add_node at op l r) = common_type (type_of l) (type_of r)"
    by (simp add: add_node_def binary_node_def arith_info_type [OF assms] type_of_def complex_size_def c)
  have "type_of (bitwise_node at op l r) = arith_type (nd l) (nd r)"
    by (auto simp: bitwise_node_def binary_node_def type_of_def Let_def arith_type_def)
  then show "type_of (bitwise_node at op l r) = common_type (type_of l) (type_of r)"
    by (simp add: arith_type_common [OF assms])
  show "n_compare_unsigned (nd (compare_node at op l r)) = snd (common_type (type_of l) (type_of r))"
    by (simp add: compare_arith [OF assms] arith_type_common [OF assms])
qed

definition int_leaf :: "int \<Rightarrow> bool \<Rightarrow> node" where
  "int_leaf sz u = Node ((create_info ''var'' (1, 1))\<lparr>n_type_size := sz, n_is_unsigned := u\<rparr>) None None [] None"

lemma int_leaf_operand: "sz \<in> {1, 2, 4, 8} \<Longrightarrow> int_operand (int_leaf sz u)"
proof -
  have "str_to_op (Some ''var'') = OP_VAR" by (simp add: str_to_op_def op_table_def)
  then show "sz \<in> {1, 2, 4, 8} \<Longrightarrow> int_operand (int_leaf sz u)"
    by (auto simp: int_operand_def int_leaf_def standard_type_def type_of_def create_info_def)
qed

text \<open>Two unsigned shorts are added as ints, an unsigned int and a long as longs, and an int and an
  unsigned int are compared as unsigned ints.\<close>

theorem conversions_usual_witness:
  "type_of (add_node (1, 1) ''+'' (int_leaf 2 True) (int_leaf 2 True)) = (4, False)
   \<and> type_of (term_node (1, 1) ''*'' (int_leaf 4 True) (int_leaf 8 False)) = (8, False)
   \<and> n_compare_unsigned (nd (compare_node (1, 1) ''<'' (int_leaf 4 False) (int_leaf 4 True)))"
proof -
  have c: "common_type (type_of (int_leaf 2 True)) (type_of (int_leaf 2 True)) = (4, False)"
    "common_type (type_of (int_leaf 4 True)) (type_of (int_leaf 8 False)) = (8, False)"
    "common_type (type_of (int_leaf 4 False)) (type_of (int_leaf 4 True)) = (4, True)"
    by (simp_all add: type_of_def int_leaf_def common_type_def promote_def range_facts)
  show ?thesis
    using conversions_usual [OF int_leaf_operand int_leaf_operand, of 2 2 "(1, 1)" "''+''" True True]
      conversions_usual [OF int_leaf_operand int_leaf_operand, of 4 8 "(1, 1)" "''*''" True False]
      conversions_usual [OF int_leaf_operand int_leaf_operand, of 4 4 "(1, 1)" "''<''" False True]
    by (simp add: c)
qed

text \<open>A shift has the type of its left operand; the standard promotes it first, so that a shifted char
  is an int.\<close>

lemma shift_not_promoted:
  "type_of (shift_node at op l r) = type_of l"
  "promote (1, u) = (4, False)" "promote (2, u) = (4, False)"
  by (simp_all add: type_of_def shift_node_def binary_node_def promote_def range_facts)

subsection \<open>Literals\<close>

definition number_of :: "int \<Rightarrow> string \<Rightarrow> int" where
  "number_of base ds = foldl (\<lambda>v c. v * base + int (digit_value c)) 0 ds"

text \<open>The types the standard gives to decimal constants without a suffix and to hexadecimal ones.\<close>

definition decimal_type :: "int \<Rightarrow> c_type" where
  "decimal_type v = (if v \<le> c_max (4, False) then (4, False) else (8, False))"

definition hex_type :: "int \<Rightarrow> c_type" where
  "hex_type v = (if v \<le> c_max (4, False) then (4, False) else if v \<le> c_max (4, True) then (4, True)
     else if v \<le> c_max (8, False) then (8, False) else (8, True))"

lemma dec_not_special:
  assumes "is_dec_digit c"
  shows "c \<noteq> CHR ''x''" "c \<noteq> CHR ''X''" "c \<noteq> CHR ''l''" "c \<noteq> CHR ''L''" "c \<noteq> CHR ''u''" "c \<noteq> CHR ''U''"
  using assms by (auto simp: is_dec_digit_def)

lemma hex_not_special:
  assumes "is_hex_digit c"
  shows "c \<noteq> CHR ''l''" "c \<noteq> CHR ''L''" "c \<noteq> CHR ''u''" "c \<noteq> CHR ''U''"
  using assms by (auto simp: is_dec_digit_def is_hex_digit_def)

lemma number_of_nonneg: "0 \<le> base \<Longrightarrow> 0 \<le> number_of base ds"
proof -
  have "0 \<le> base \<Longrightarrow> 0 \<le> v \<Longrightarrow> 0 \<le> foldl (\<lambda>v c. v * base + int (digit_value c)) v ds" for v
    by (induction ds arbitrary: v) auto
  then show "0 \<le> base \<Longrightarrow> ?thesis" by (simp add: number_of_def)
qed

lemma takeWhile_list_all: "list_all P xs \<Longrightarrow> takeWhile P xs = xs"
  by (induction xs) auto

lemma sint_of_unsigned:
  assumes "0 \<le> v" "v < 2 ^ 64"
  shows "sint (word_of_int v :: 64 word) = (if v < 2 ^ 63 then v else v - 2 ^ 64)"
proof -
  have s: "sint (word_of_int i :: 64 word) = i" if "- (2 ^ 63) \<le> i" "i < 2 ^ 63" for i
  proof -
    have "sint (word_of_int i :: 64 word) = signed_take_bit 63 i" by (simp add: sint_sbintrunc')
    also have "\<dots> = i" using that by (intro signed_take_bit_int_eq_self) simp_all
    finally show ?thesis .
  qed
  have e: "word_of_int (v - 2 ^ 64) = (word_of_int v :: 64 word)"
    by (simp add: word_of_int_eq_iff take_bit_eq_mod)
  show ?thesis
  proof (cases "v < 2 ^ 63")
    case True
    with s [of v] assms(1) show ?thesis by simp
  next
    case False
    then have "- (2 ^ 63) \<le> v - 2 ^ 64" "v - 2 ^ 64 < 2 ^ 63" using assms by simp_all
    from s [OF this] False show ?thesis unfolding e by simp
  qed
qed

lemma strtoull_digits:
  assumes "number_of (if hex then 16 else 10) ds < 2 ^ 64" "list_all (if hex then is_hex_digit else is_dec_digit) ds"
    "length pre = (if hex then 2 else 0)"
  shows "strtoull (pre @ ds) hex = sint (word_of_int (number_of (if hex then 16 else 10) ds) :: 64 word)"
  using assms by (cases hex) (simp_all add: strtoull_def number_of_def Let_def takeWhile_list_all)

lemma num_kind: "str_to_op (Some ''num'') = OP_NUM"
  by (simp add: str_to_op_def op_table_def)

lemma integer_literal_info:
  assumes "list_all (\<lambda>c. c \<noteq> CHR ''l'' \<and> c \<noteq> CHR ''L'' \<and> c \<noteq> CHR ''u'' \<and> c \<noteq> CHR ''U'') t"
  defines "v \<equiv> strtoull t (is_hex_text t)"
  shows "n_value (nd (integer_literal at t)) = v"
    and "type_of (integer_literal at t) =
      (if is_hex_text t \<and> 2147483647 < v \<and> v \<le> 4294967295 then (4, True)
       else if v > 2147483647 \<or> v < - 2147483648 then (8, is_hex_text t \<and> v < 0) else (4, False))"
proof -
  have e: "\<not> list_ex (\<lambda>c. c = CHR ''l'' \<or> c = CHR ''L'') t" "\<not> list_ex (\<lambda>c. c = CHR ''u'' \<or> c = CHR ''U'') t"
    using assms(1) by (auto simp: list_all_iff list_ex_iff)
  show "n_value (nd (integer_literal at t)) = v"
    using e by (simp add: integer_literal_def apply_integer_literal_conversion_def apply_integer_conversion_def
        Let_def create_info_def num_kind v_def)
  show "type_of (integer_literal at t) =
      (if is_hex_text t \<and> 2147483647 < v \<and> v \<le> 4294967295 then (4, True)
       else if v > 2147483647 \<or> v < - 2147483648 then (8, is_hex_text t \<and> v < 0) else (4, False))"
    using e by (auto simp: integer_literal_def apply_integer_literal_conversion_def apply_integer_conversion_def
        Let_def create_info_def num_kind v_def [symmetric] type_of_def)
qed

lemma dec_literal:
  assumes "list_all is_dec_digit ds"
  shows "\<not> is_hex_text ds" "list_all (\<lambda>c. c \<noteq> CHR ''l'' \<and> c \<noteq> CHR ''L'' \<and> c \<noteq> CHR ''u'' \<and> c \<noteq> CHR ''U'') ds"
proof -
  have "\<not> is_dec_digit (CHR ''x'')" "\<not> is_dec_digit (CHR ''X'')" by (simp_all add: is_dec_digit_def)
  moreover have "c \<in> set ds" if "c \<in> set (take 2 ds)" for c using that by (rule in_set_takeD)
  ultimately show "\<not> is_hex_text ds"
    using assms by (fastforce simp: is_hex_text_def list_all_iff)
  show "list_all (\<lambda>c. c \<noteq> CHR ''l'' \<and> c \<noteq> CHR ''L'' \<and> c \<noteq> CHR ''u'' \<and> c \<noteq> CHR ''U'') ds"
    using assms dec_not_special by (auto simp: list_all_iff)
qed

lemma hex_literal:
  assumes "list_all is_hex_digit hs"
  shows "is_hex_text (''0x'' @ hs)" "list_all (\<lambda>c. c \<noteq> CHR ''l'' \<and> c \<noteq> CHR ''L'' \<and> c \<noteq> CHR ''u'' \<and> c \<noteq> CHR ''U'') (''0x'' @ hs)"
  using assms hex_not_special by (auto simp: is_hex_text_def list_all_iff)

text \<open>C25: An integer literal has the value and the type the standard gives it: a decimal one below 2 to
  the 63 is an int if its value is one and a long otherwise, a hexadecimal one below 2 to the 64 less 2
  to the 31 has the first of int, unsigned int, long and unsigned long that holds its value.\<close>

theorem literals_typed:
  assumes "list_all is_dec_digit ds" "number_of 10 ds < 2 ^ 63"
    and "list_all is_hex_digit hs" "number_of 16 hs < 2 ^ 64 - 2 ^ 31"
  shows "n_value (nd (integer_literal at ds)) = number_of 10 ds \<and> type_of (integer_literal at ds) = decimal_type (number_of 10 ds)
    \<and> (word_of_int (n_value (nd (integer_literal at (''0x'' @ hs)))) :: 64 word) = word_of_int (number_of 16 hs)
    \<and> type_of (integer_literal at (''0x'' @ hs)) = hex_type (number_of 16 hs)"
proof -
  let ?d = "number_of 10 ds" and ?h = "number_of 16 hs"
  have d: "strtoull ds (is_hex_text ds) = ?d"
    using strtoull_digits [of False ds "[]"] sint_of_unsigned [of ?d] number_of_nonneg [of 10 ds] assms(1,2) dec_literal [OF assms(1)]
    by simp
  have h: "strtoull (''0x'' @ hs) (is_hex_text (''0x'' @ hs)) = (if ?h < 2 ^ 63 then ?h else ?h - 2 ^ 64)"
    using strtoull_digits [of True hs "''0x''"] sint_of_unsigned [of ?h] number_of_nonneg [of 16 hs] assms(3,4) hex_literal [OF assms(3)]
    by simp
  show ?thesis
    unfolding integer_literal_info(1) [OF dec_literal(2) [OF assms(1)]] integer_literal_info(2) [OF dec_literal(2) [OF assms(1)]]
      integer_literal_info(1) [OF hex_literal(2) [OF assms(3)]] integer_literal_info(2) [OF hex_literal(2) [OF assms(3)]] d h
    using dec_literal(1) [OF assms(1)] hex_literal(1) [OF assms(3)] number_of_nonneg [of 10 ds] number_of_nonneg [of 16 hs] assms(2,4)
    by (auto simp: decimal_type_def hex_type_def c_max_def word_of_int_eq_iff take_bit_eq_mod)
qed

theorem literals_typed_witness:
  "type_of (integer_literal (1, 1) ''2147483648'') = (8, False)
   \<and> type_of (integer_literal (1, 1) ''0x80000000'') = (4, True)"
proof -
  have "list_all is_dec_digit ''2147483648''" "list_all is_hex_digit ''80000000''"
    by (simp_all add: is_dec_digit_def is_hex_digit_def)
  moreover have n: "number_of 10 ''2147483648'' = 2147483648" "number_of 16 ''80000000'' = 2147483648"
    by (simp_all add: number_of_def digit_value_def)
  ultimately show ?thesis
    using literals_typed [of "''2147483648''" "''80000000''" "(1, 1)"]
    by (simp add: n decimal_type_def hex_type_def c_max_def)
qed

text \<open>C40: Literals that are misread: a leading zero does not make a literal octal, it is read in base
  ten; and a hexadecimal literal within 2 to the 31 of 2 to the 64 becomes a negative number of
  type int instead of an unsigned long, so that 0xFFFFFFFFFFFFFFFF is -1.\<close>

theorem literals_misread:
  assumes "list_all is_dec_digit ds" "number_of 10 ds < 2 ^ 63"
    and "list_all is_hex_digit hs" "2 ^ 64 - 2 ^ 31 \<le> number_of 16 hs" "number_of 16 hs < 2 ^ 64"
  shows "n_value (nd (integer_literal at (''0'' @ ds))) = number_of 10 ds
    \<and> n_value (nd (integer_literal at (''0x'' @ hs))) = number_of 16 hs - 2 ^ 64
    \<and> type_of (integer_literal at (''0x'' @ hs)) = (4, False)"
proof -
  let ?h = "number_of 16 hs"
  have d0: "list_all is_dec_digit (''0'' @ ds)" using assms(1) by (simp add: is_dec_digit_def)
  have n: "number_of 10 (''0'' @ ds) = number_of 10 ds" by (simp add: number_of_def digit_value_def)
  have d: "strtoull (''0'' @ ds) (is_hex_text (''0'' @ ds)) = number_of 10 ds"
    using strtoull_digits [of False "''0'' @ ds" "[]"] sint_of_unsigned [of "number_of 10 ds"] number_of_nonneg [of 10 ds]
      assms(2) d0 n dec_literal [OF d0] by simp
  have h: "strtoull (''0x'' @ hs) (is_hex_text (''0x'' @ hs)) = ?h - 2 ^ 64"
    using strtoull_digits [of True hs "''0x''"] sint_of_unsigned [of ?h] number_of_nonneg [of 16 hs] assms(3-5) hex_literal [OF assms(3)]
    by simp
  show ?thesis
    unfolding integer_literal_info(1) [OF dec_literal(2) [OF d0]]
      integer_literal_info(1) [OF hex_literal(2) [OF assms(3)]] integer_literal_info(2) [OF hex_literal(2) [OF assms(3)]] d h
    using assms(4,5) by auto
qed

theorem literals_misread_witness:
  "n_value (nd (integer_literal (1, 1) ''0644'')) = 644
   \<and> n_value (nd (integer_literal (1, 1) ''0xFFFFFFFFFFFFFFFF'')) = - 1
   \<and> type_of (integer_literal (1, 1) ''0xFFFFFFFFFFFFFFFF'') = (4, False)"
proof -
  have "list_all is_dec_digit ''644''" "list_all is_hex_digit ''FFFFFFFFFFFFFFFF''"
    by (simp_all add: is_dec_digit_def is_hex_digit_def)
  moreover have n: "number_of 10 ''644'' = 644" "number_of 16 ''FFFFFFFFFFFFFFFF'' = 2 ^ 64 - 1"
    by (simp_all add: number_of_def digit_value_def)
  ultimately show ?thesis
    using literals_misread [of "''644''" "''FFFFFFFFFFFFFFFF''" "(1, 1)"] by (simp add: n)
qed

text \<open>The suffix L does not survive in a hexadecimal literal between 2 to the 31 and 2 to the 32.\<close>

lemma hex_long_suffix_lost: "type_of (integer_literal at ''0xFFFFFFFFL'') = (4, True)"
  by (simp add: type_of_def integer_literal_def apply_integer_literal_conversion_def apply_integer_conversion_def
      create_info_def num_kind is_hex_text_def strtoull_def is_hex_digit_def is_dec_digit_def digit_value_def
      sint_of_unsigned)

end
