(* ===== verification/Parse_Const.thy ===== *)
theory Parse_Const
  imports Parse_Expr "HOL-Library.Signed_Division"
begin

text \<open>
  What the parser computes of expressions: constants, sizes, alignments, addresses in initializers,
  and the types \<^verbatim>\<open>_Generic\<close> selects by; lines 212 to 560 of \<^verbatim>\<open>src/src/parser.c\<close>.

  Values are C \<^verbatim>\<open>long\<close>s; arithmetic that overflows them, and a null pointer that is followed, is
  \<^term>\<open>Parse_Undefined\<close>.  Where C leaves the order of two operands open, the left one comes first.
\<close>

definition checked_long :: "int \<Rightarrow> parse_error + int" where
  "checked_long v = (if - (2 ^ 63) \<le> v \<and> v < 2 ^ 63 then Inr v else Inl Parse_Undefined)"

definition truth :: "bool \<Rightarrow> int" where
  "truth b = (if b then 1 else 0)"

subsection \<open>Sizes\<close>

fun infer_struct_tag :: "parser_state \<Rightarrow> node \<Rightarrow> string" where
  "infer_struct_tag p (Node i l r b v) =
     (if n_op_enum i = OP_VAR then (case ps_var_struct_tags p (n_name i) of Some t \<Rightarrow> t | None \<Rightarrow> '''')
      else if n_op_enum i = OP_INDEX \<and> n_type_tag i \<noteq> '''' then n_type_tag i
      else if n_op_enum i = OP_UNARY_DEREF then (case l of Some m \<Rightarrow> infer_struct_tag p m | None \<Rightarrow> '''')
      else '''')"

definition struct_tag_of :: "parser_state \<Rightarrow> node option \<Rightarrow> string" where
  "struct_tag_of p n = (case n of Some m \<Rightarrow> infer_struct_tag p m | None \<Rightarrow> '''')"

definition first_positive :: "int list \<Rightarrow> int \<Rightarrow> int" where
  "first_positive vs d = (case find (\<lambda>v. v > 0) vs of Some v \<Rightarrow> v | None \<Rightarrow> d)"

definition is_kind :: "op_kind \<Rightarrow> node option \<Rightarrow> bool" where
  "is_kind k n = (case n of Some m \<Rightarrow> n_op_enum (nd m) = k | None \<Rightarrow> False)"

definition sizeof_index :: "parser_state \<Rightarrow> node_info \<Rightarrow> node option \<Rightarrow> int" where
  "sizeof_index p i l =
     (if n_elem_size i > 0 then n_elem_size i
      else if is_kind OP_VAR l then
        let name = n_name (nd (the l))
        in first_positive [ir_get_local_array_base_size p (local_key p name), ir_get_global_array_base_size p name]
             (ps_target_scale p)
      else ps_target_scale p)"

definition sizeof_deref :: "parser_state \<Rightarrow> node option \<Rightarrow> int" where
  "sizeof_deref p l =
     (if l \<noteq> None \<and> n_pointee_size (nd (the l)) > 0 then n_pointee_size (nd (the l))
      else let tag = struct_tag_of p l
        in case (if tag \<noteq> '''' then ps_global_struct_sizes p tag else None) of
             Some sz \<Rightarrow> sz
           | None \<Rightarrow>
             (let base = (if is_kind OP_INDEX l then lhs (the l) else l)
              in if is_kind OP_VAR base then
                   let name = n_name (nd (the base))
                   in first_positive [ir_get_local_var_elem_scale p (local_key p name),
                        ir_get_global_var_elem_scale p name] (ps_target_scale p)
                 else ps_target_scale p))"

definition sizeof_member :: "parser_state \<Rightarrow> node_info \<Rightarrow> node option \<Rightarrow> int" where
  "sizeof_member p i l =
     (let tag = struct_tag_of p l;
          tag = (if n_op_enum i = OP_MEMBER_PTR \<and> tag \<noteq> '''' then
                   (case ps_global_struct_field_tags p tag of Some t \<Rightarrow> t | None \<Rightarrow> tag) else tag)
      in case (if tag \<noteq> '''' then ps_global_struct_field_sizes_by_tag p (take 255 (tag @ ''.'' @ n_name i)) else None) of
           Some sz \<Rightarrow> sz
         | None \<Rightarrow> ps_target_scale p)"

fun sizeof_expr :: "parser_state \<Rightarrow> node \<Rightarrow> int" where
  "sizeof_expr p (Node i l r b v) =
     (let k = n_op_enum i
      in if k = OP_NUM then 8
         else if k = OP_CHAR then 1
         else if k = OP_VAR then (case ps_value_sizes p (n_name i) of Some sz \<Rightarrow> sz | None \<Rightarrow> ps_target_scale p)
         else if k = OP_INDEX then sizeof_index p i l
         else if k = OP_CAST then n_type_size i
         else if k = OP_UNARY_DEREF then sizeof_deref p l
         else if k = OP_MEMBER \<or> k = OP_MEMBER_PTR then sizeof_member p i l
         else if n_type_size i > 0 \<and> n_type_size i < ps_target_scale p * 4 then n_type_size i
         else ps_target_scale p)"

definition by_size :: "int \<Rightarrow> int" where
  "by_size sz = (if sz \<ge> 8 then 8 else if sz = 4 then 4 else if sz = 2 then 2 else 1)"

definition alignof_type :: "parser_state \<Rightarrow> int \<Rightarrow> string option \<Rightarrow> int \<Rightarrow> int" where
  "alignof_type p base_size struct_tag stars =
     (if stars > 0 then ps_target_scale p
      else case struct_tag of
          Some tag \<Rightarrow>
            if tag \<noteq> '''' then
              (case ps_global_struct_alignments p tag of Some a \<Rightarrow> a | None \<Rightarrow> ps_target_scale p)
            else by_size base_size
        | None \<Rightarrow> by_size base_size)"

definition alignof_expr :: "parser_state \<Rightarrow> node \<Rightarrow> int" where
  "alignof_expr p n = by_size (sizeof_expr p n)"

subsection \<open>Constants\<close>

definition node_width :: "parser_state \<Rightarrow> node_info \<Rightarrow> int" where
  "node_width p i = (if n_type_size i > 0 then n_type_size i * 8 else ps_target_scale p * 8)"

definition checked_const_integer :: "parser_state \<Rightarrow> node_info \<Rightarrow> int \<Rightarrow> parse_error + int" where
  "checked_const_integer p i v =
     (if n_is_unsigned i then Inr v
      else let w = node_width p i
        in if w < 64 \<and> (v < - (2 ^ nat (w - 1)) \<or> v > 2 ^ nat (w - 1) - 1)
           then parser_error p ''signed overflow in constant expression'' else Inr v)"

fun const_expr_has_runtime_var :: "parser_state \<Rightarrow> node \<Rightarrow> bool" where
  "const_expr_has_runtime_var p (Node i l r b v) =
     (if n_op_enum i = OP_VAR then ps_global_enums p (n_name i) = None \<and> ps_constexpr_vars p (n_name i) = None
      else (case l of Some m \<Rightarrow> const_expr_has_runtime_var p m | None \<Rightarrow> False)
        \<or> (case r of Some m \<Rightarrow> const_expr_has_runtime_var p m | None \<Rightarrow> False)
        \<or> list_ex (const_expr_has_runtime_var p) b)"

definition shift_const :: "parser_state \<Rightarrow> op_kind \<Rightarrow> node_info \<Rightarrow> int \<Rightarrow> (parse_error + int) \<Rightarrow> parse_error + int" where
  "shift_const p k li s value =
     (if s < 0 \<or> s \<ge> node_width p li then parser_error p ''invalid shift count in constant expression''
      else bnd value (\<lambda>a.
        if s > 63 then Inl Parse_Undefined
        else if k = OP_SHL then if a < 0 then Inl Parse_Undefined else checked_long (a * 2 ^ nat s)
        else Inr (a div 2 ^ nat s)))"

definition div_const :: "parser_state \<Rightarrow> node_info \<Rightarrow> (parse_error + int) \<Rightarrow> int \<Rightarrow> parse_error + int" where
  "div_const p i value d =
     (if d = 0 then parser_error p ''division by zero in constant expression''
      else bnd value (\<lambda>a.
        if \<not> n_is_unsigned i \<and> a = - 2147483648 \<and> d = - 1
        then parser_error p ''signed overflow in constant expression'' else checked_long (a sdiv d)))"

text \<open>The operators that evaluate both operands and cannot fail.\<close>

definition plain_op :: "op_kind \<Rightarrow> (int \<Rightarrow> int \<Rightarrow> int) option" where
  "plain_op k =
     (if k = OP_EQ then Some (\<lambda>a b. truth (a = b)) else if k = OP_NE then Some (\<lambda>a b. truth (a \<noteq> b))
      else if k = OP_LT then Some (\<lambda>a b. truth (a < b)) else if k = OP_GT then Some (\<lambda>a b. truth (a > b))
      else if k = OP_LE then Some (\<lambda>a b. truth (a \<le> b)) else if k = OP_GE then Some (\<lambda>a b. truth (a \<ge> b))
      else if k = OP_BAND then Some (\<lambda>a b. a AND b) else if k = OP_BOR then Some (\<lambda>a b. a OR b)
      else if k = OP_BXOR then Some (\<lambda>a b. a XOR b) else None)"

fun eval_const :: "parser_state \<Rightarrow> node \<Rightarrow> parse_error + int" where
  "eval_const p (Node i l r b v) =
     (let k = n_op_enum i;
          lv = (case l of Some m \<Rightarrow> eval_const p m | None \<Rightarrow> Inl Parse_Undefined);
          rv = (case r of Some m \<Rightarrow> eval_const p m | None \<Rightarrow> Inl Parse_Undefined);
          arith = (\<lambda>f. bnd lv (\<lambda>a. bnd rv (\<lambda>c. bnd (checked_long (f a c)) (checked_const_integer p i))))
      in if k = OP_NUM then Inr (n_value i)
         else if k = OP_CHAR then Inr (n_value i)
         else if k = OP_FNUM then Inr (sint (n_fvalue i))
         else if k = OP_CAST then lv
         else if k = OP_UNARY_ADDR then Inr 0
         else if k = OP_UNARY_MINUS then bnd lv (\<lambda>a. checked_long (- a))
         else if k = OP_UNARY_TILDE then bnd lv (\<lambda>a. Inr (NOT a))
         else if k = OP_UNARY_NOT then bnd lv (\<lambda>a. Inr (truth (a = 0)))
         else if k = OP_ADD then arith (+)
         else if k = OP_SUB then
           if r \<noteq> None then arith (-)
           else bnd lv (\<lambda>a. bnd (checked_long (- a)) (checked_const_integer p i))
         else if k = OP_MUL then arith (*)
         else if k = OP_DIV then bnd rv (div_const p i lv)
         else if plain_op k \<noteq> None then bnd lv (\<lambda>a. bnd rv (\<lambda>c. Inr (the (plain_op k) a c)))
         else if k = OP_LAND then bnd lv (\<lambda>a. if a = 0 then Inr 0 else bnd rv (\<lambda>c. Inr (truth (c \<noteq> 0))))
         else if k = OP_LOR then bnd lv (\<lambda>a. if a \<noteq> 0 then Inr 1 else bnd rv (\<lambda>c. Inr (truth (c \<noteq> 0))))
         else if k = OP_SHL \<or> k = OP_SHR then
           (case l of None \<Rightarrow> Inl Parse_Undefined
            | Some m \<Rightarrow> bnd rv (\<lambda>s. shift_const p k (nd m) s lv))
         else if k = OP_TERNARY then
           bnd lv (\<lambda>c. case b of
               t # e # rest \<Rightarrow> (if c \<noteq> 0 then eval_const p t else eval_const p e)
             | _ \<Rightarrow> parser_error p ''invalid conditional constant expression'')
         else if k = OP_SIZEOF then
           (case l of None \<Rightarrow> Inl Parse_Undefined | Some m \<Rightarrow> Inr (sizeof_expr p m))
         else if k = OP_VAR then
           if n_name i = '';'' \<or> n_name i = ''}'' then Inr 0
           else (case ps_global_enums p (n_name i) of Some e \<Rightarrow> Inr e
             | None \<Rightarrow> parser_error p ''non-constant variable in constant expression'')
         else parser_error p ''invalid constant expression'')"

declare eval_const.simps [simp del]

subsection \<open>Addresses in initializers\<close>

definition index_scale :: "parser_state \<Rightarrow> node_info \<Rightarrow> node option \<Rightarrow> int" where
  "index_scale p i l =
     (if n_name i = ''byte_offset'' then 1
      else if n_elem_size i > 0 then n_elem_size i
      else if n_type_size i > 0 then n_type_size i
      else if is_kind OP_VAR l then
        let name = n_name (nd (the l)); base = ir_get_local_array_base_size p (local_key p name);
            base = (if base = 0 then ir_get_global_array_base_size p name else base)
        in if base > 0 then base else 1
      else 1)"

fun node_address_ref :: "parser_state \<Rightarrow> node \<Rightarrow> parse_error + (string \<times> int) option" where
  "node_address_ref p (Node i l r b v) =
     (let k = n_op_enum i;
          inner = (case l of Some m \<Rightarrow> node_address_ref p m | None \<Rightarrow> Inr None)
      in if k = OP_CAST \<or> k = OP_UNARY_ADDR then inner
         else if k = OP_VAR then Inr (Some (n_name i, 0))
         else if k = OP_INDEX then
           bnd inner (\<lambda>a. case a of None \<Rightarrow> Inr None
             | Some (base, off) \<Rightarrow>
               bnd (case r of Some m \<Rightarrow> eval_const p m | None \<Rightarrow> Inl Parse_Undefined) (\<lambda>idx.
               bnd (checked_long (idx * index_scale p i l)) (\<lambda>d.
               bnd (checked_long (off + d)) (\<lambda>off. Inr (Some (base, off))))))
         else if k = OP_COMPOUND_LITERAL \<and> n_name i \<noteq> '''' then Inr (Some (n_name i, 0))
         else Inr None)"

definition format_address_ref :: "parser_state \<Rightarrow> node \<Rightarrow> nat \<Rightarrow> parse_error + string option" where
  "format_address_ref p node buf_size =
     bnd (node_address_ref p node) (\<lambda>a. case a of None \<Rightarrow> Inr None
       | Some (base, off) \<Rightarrow>
         if base = '''' then Inr None
         else Inr (Some (take (buf_size - 1)
           (if off = 0 then base else if off > 0 then base @ ''+'' @ dec_of_int off else base @ dec_of_int off))))"

subsection \<open>Types for generic selection\<close>

record expr_type =
  et_size :: int
  et_unsigned :: bool
  et_pointer :: bool
  et_tag :: string
  et_elem_size :: int

definition int_type :: expr_type where
  "int_type = \<lparr>et_size = 4, et_unsigned = False, et_pointer = False, et_tag = '''', et_elem_size = 0\<rparr>"

definition var_type :: "parser_state \<Rightarrow> string \<Rightarrow> expr_type" where
  "var_type p name =
     (let t = int_type\<lparr>et_size := (case ps_value_sizes p name of Some sz \<Rightarrow> sz | None \<Rightarrow> ps_target_scale p),
                et_unsigned := is_set (ps_unsigned_vars p name),
                et_tag := (case ps_var_struct_tags p name of Some tag \<Rightarrow> tag | None \<Rightarrow> '''')\<rparr>;
          key = local_key p name
      in if is_set (ir_local_var_is_pointer (ps_ir p) key) then
           t\<lparr>et_pointer := True, et_elem_size := ir_get_local_var_elem_scale p key\<rparr>
         else if is_set (ir_global_var_is_pointer (ps_ir p) name) then
           t\<lparr>et_pointer := True, et_elem_size := ir_get_global_var_elem_scale p name\<rparr>
         else t)"

definition get_expr_type_info :: "parser_state \<Rightarrow> node option \<Rightarrow> expr_type" where
  "get_expr_type_info p node =
     (case node of None \<Rightarrow> int_type
      | Some n \<Rightarrow>
        (let i = nd n; k = n_op_enum i
         in if k = OP_NUM then
              int_type\<lparr>et_size := if n_type_size i \<noteq> 0 then n_type_size i else 4, et_unsigned := n_is_unsigned i\<rparr>
            else if k = OP_STR then
              int_type\<lparr>et_size := ps_target_scale p, et_unsigned := True, et_pointer := True, et_elem_size := 1\<rparr>
            else if k = OP_VAR then var_type p (n_name i)
            else if k = OP_CAST then int_type\<lparr>et_size := n_type_size i, et_unsigned := n_is_unsigned i\<rparr>
            else if k = OP_UNARY_DEREF then
              (let tag = struct_tag_of p (lhs n)
               in if tag = '''' then int_type
                  else int_type\<lparr>et_tag := tag,
                    et_size := (case ps_global_struct_sizes p tag of Some sz \<Rightarrow> sz | None \<Rightarrow> 4)\<rparr>)
            else if k = OP_INDEX then
              int_type\<lparr>et_size := if n_type_size i \<noteq> 0 then n_type_size i else ps_target_scale p,
                et_tag := n_type_tag i\<rparr>
            else int_type))"

definition match_generic_type :: "expr_type \<Rightarrow> expr_type \<Rightarrow> bool" where
  "match_generic_type ctrl assoc =
     (if et_pointer ctrl \<noteq> et_pointer assoc then False
      else if et_pointer ctrl then
        if et_tag ctrl \<noteq> '''' \<or> et_tag assoc \<noteq> '''' then et_tag ctrl = et_tag assoc
        else et_elem_size ctrl = et_elem_size assoc
      else if et_size ctrl \<noteq> et_size assoc then False
      else if et_unsigned ctrl \<noteq> et_unsigned assoc then False
      else et_tag ctrl = et_tag assoc)"

end
