(* ===== verification/Parse_Const_Props.thy ===== *)
theory Parse_Const_Props
  imports Parse_Const Parse_Expr_Props Parse_Conv
begin

text \<open>
  Constant expressions of type int have the value C gives them, and what C does not allow in them is
  diagnosed; from the tokens to the value; and what the evaluator gets wrong.
\<close>

subsection \<open>The value of an int expression\<close>

definition fits :: "int \<Rightarrow> bool" where
  "fits v \<longleftrightarrow> - (2 ^ 31) \<le> v \<and> v < 2 ^ 31"

definition fit :: "int \<Rightarrow> int option" where
  "fit v = (if fits v then Some v else None)"

text \<open>Binary operators on ints; \<^term>\<open>None\<close> is a constraint violation: overflow, division by zero, a
  shift count that is negative or not less than the width, a left shift of a negative number.\<close>

definition int_op :: "op_kind \<Rightarrow> int \<Rightarrow> int \<Rightarrow> int option" where
  "int_op k a b =
     (if k = OP_ADD then fit (a + b)
      else if k = OP_SUB then fit (a - b)
      else if k = OP_MUL then fit (a * b)
      else if k = OP_DIV then if b = 0 then None else fit (a sdiv b)
      else if k = OP_SHL then if 0 \<le> b \<and> b < 32 \<and> 0 \<le> a then fit (a * 2 ^ nat b) else None
      else if k = OP_SHR then if 0 \<le> b \<and> b < 32 then Some (a div 2 ^ nat b) else None
      else if k = OP_EQ then Some (truth (a = b)) else if k = OP_NE then Some (truth (a \<noteq> b))
      else if k = OP_LT then Some (truth (a < b)) else if k = OP_GT then Some (truth (a > b))
      else if k = OP_LE then Some (truth (a \<le> b)) else if k = OP_GE then Some (truth (a \<ge> b))
      else if k = OP_BAND then Some (a AND b) else if k = OP_BOR then Some (a OR b)
      else if k = OP_BXOR then Some (a XOR b) else None)"

definition unary_op :: "op_kind \<Rightarrow> int \<Rightarrow> int option" where
  "unary_op k a = (if k = OP_UNARY_MINUS then fit (- a) else if k = OP_UNARY_TILDE then Some (NOT a) else Some (truth (a = 0)))"

definition unary_kinds :: "op_kind list" where
  "unary_kinds = [OP_UNARY_MINUS, OP_UNARY_TILDE, OP_UNARY_NOT]"

definition int_kinds :: "op_kind list" where
  "int_kinds = [OP_ADD, OP_SUB, OP_MUL, OP_DIV, OP_SHL, OP_SHR, OP_EQ, OP_NE, OP_LT, OP_GT, OP_LE, OP_GE,
     OP_BAND, OP_BOR, OP_BXOR]"

fun int_value :: "node \<Rightarrow> int option" where
  "int_value (Node i l r b v) =
     (let k = n_op_enum i;
          lv = (case l of Some m \<Rightarrow> int_value m | None \<Rightarrow> None);
          rv = (case r of Some m \<Rightarrow> int_value m | None \<Rightarrow> None)
      in if k = OP_NUM then Some (n_value i)
         else if k \<in> set unary_kinds then Option.bind lv (unary_op k)
         else if k = OP_LAND then
           Option.bind lv (\<lambda>a. if a = 0 then Some 0 else map_option (\<lambda>c. truth (c \<noteq> 0)) rv)
         else if k = OP_LOR then
           Option.bind lv (\<lambda>a. if a \<noteq> 0 then Some 1 else map_option (\<lambda>c. truth (c \<noteq> 0)) rv)
         else if k = OP_TERNARY then
           (case b of [t, e] \<Rightarrow> Option.bind lv (\<lambda>c. if c \<noteq> 0 then int_value t else int_value e) | _ \<Rightarrow> None)
         else if k \<in> set int_kinds then Option.bind lv (\<lambda>a. Option.bind rv (int_op k a))
         else None)"

text \<open>A tree over int literals whose nodes have the type int.\<close>

fun int_tree :: "node \<Rightarrow> bool" where
  "int_tree (Node i l r b v) =
     (let k = n_op_enum i;
          lt = (case l of Some m \<Rightarrow> int_tree m | None \<Rightarrow> False);
          rt = (case r of Some m \<Rightarrow> int_tree m | None \<Rightarrow> False)
      in if k = OP_NUM then fits (n_value i)
         else if k \<in> set unary_kinds then lt
         else if k = OP_LAND \<or> k = OP_LOR then lt \<and> rt
         else if k = OP_TERNARY then lt \<and> (case b of [t, e] \<Rightarrow> int_tree t \<and> int_tree e | _ \<Rightarrow> False)
         else if k \<in> set int_kinds then
           lt \<and> rt \<and> n_type_size i = 4 \<and> \<not> n_is_unsigned i \<and> n_type_size (nd (the l)) = 4
         else False)"

text \<open>The two operators whose overflow the evaluator does not check.\<close>

fun unchecked_free :: "node \<Rightarrow> bool" where
  "unchecked_free (Node i l r b v) =
     (n_op_enum i \<noteq> OP_UNARY_MINUS \<and> n_op_enum i \<noteq> OP_SHL
      \<and> (case l of Some m \<Rightarrow> unchecked_free m | None \<Rightarrow> True)
      \<and> (case r of Some m \<Rightarrow> unchecked_free m | None \<Rightarrow> True) \<and> list_all unchecked_free b)"

subsection \<open>The evaluator computes it\<close>

definition diagnosed :: "parse_error + int \<Rightarrow> bool" where
  "diagnosed r \<longleftrightarrow> (case r of Inl (Parse_Error _ _ _) \<Rightarrow> True | _ \<Rightarrow> False)"

definition agrees :: "bool \<Rightarrow> (parse_error + int) \<Rightarrow> int option \<Rightarrow> bool" where
  "agrees strict r ov \<longleftrightarrow> (case ov of Some x \<Rightarrow> r = Inr x \<and> fits x | None \<Rightarrow> strict \<longrightarrow> diagnosed r)"

lemma agrees_cases:
  assumes "agrees strict r ov"
  obtains (ok) x where "ov = Some x" "r = Inr x" "fits x" | (bad) "ov = None" "strict \<Longrightarrow> diagnosed r"
  using assms by (cases ov) (auto simp: agrees_def)

lemma diagnosed_bnd: "diagnosed r \<Longrightarrow> diagnosed (bnd r f)"
  by (cases r) (auto simp: diagnosed_def)

lemma agrees_bind:
  assumes "agrees strict r ov" "\<And>x. fits x \<Longrightarrow> agrees strict (f x) (g x)"
  shows "agrees strict (bnd r f) (Option.bind ov g)"
  using assms(1)
proof (cases rule: agrees_cases)
  case (ok x)
  then show ?thesis using assms(2) by simp
next
  case bad
  then show ?thesis using diagnosed_bnd by (auto simp: agrees_def)
qed

lemma small_consts: "fits 0" "fits 1"
  by (simp_all add: fits_def)

lemma fits_truth: "fits (truth b)"
  by (simp add: fits_def truth_def)

lemma agrees_weaken: "agrees s r ov \<Longrightarrow> (t \<Longrightarrow> s) \<Longrightarrow> agrees t r ov"
  by (auto simp: agrees_def split: option.splits)

lemma agrees_fit:
  assumes "n_type_size i = 4" "\<not> n_is_unsigned i" "- (2 ^ 63) \<le> v" "v < 2 ^ 63"
  shows "agrees s (bnd (checked_long v) (checked_const_integer p i)) (fit v)"
  using assms
  by (auto simp: agrees_def fit_def checked_long_def checked_const_integer_def node_width_def fits_def
      parser_error_def diagnosed_def)

lemma fits_arith:
  assumes "fits a" "fits b"
  shows "- (2 ^ 63) \<le> a + b \<and> a + b < 2 ^ 63" "- (2 ^ 63) \<le> a - b \<and> a - b < 2 ^ 63" "- (2 ^ 63) \<le> a * b \<and> a * b < 2 ^ 63"
proof -
  show "- (2 ^ 63) \<le> a + b \<and> a + b < 2 ^ 63" "- (2 ^ 63) \<le> a - b \<and> a - b < 2 ^ 63"
    using assms by (simp_all add: fits_def)
  have "\<bar>a\<bar> \<le> 2 ^ 31" "\<bar>b\<bar> \<le> 2 ^ 31" using assms by (auto simp: fits_def abs_le_iff)
  then have "\<bar>a\<bar> * \<bar>b\<bar> \<le> 2 ^ 31 * 2 ^ 31" by (intro mult_mono) auto
  then have "\<bar>a * b\<bar> \<le> 2 ^ 62" by (simp add: abs_mult)
  then show "- (2 ^ 63) \<le> a * b \<and> a * b < 2 ^ 63" by (simp add: abs_le_iff)
qed

lemma sdiv_fits:
  assumes "fits a" "fits b" "b \<noteq> 0"
  shows "fits (a sdiv b) \<longleftrightarrow> \<not> (a = - 2147483648 \<and> b = - 1)" "- (2 ^ 63) \<le> a sdiv b \<and> a sdiv b < 2 ^ 63"
proof -
  have d: "a sdiv b = sgn a * sgn b * (\<bar>a\<bar> div \<bar>b\<bar>)" by (simp add: signed_divide_int_def sgn_mult)
  have a: "\<bar>a\<bar> \<le> 2 ^ 31" using assms(1) by (auto simp: fits_def abs_le_iff)
  have q: "0 \<le> \<bar>a\<bar> div \<bar>b\<bar>" "\<bar>a\<bar> div \<bar>b\<bar> \<le> \<bar>a\<bar>"
    using assms(3) zdiv_mono2 [of "\<bar>a\<bar>" 1 "\<bar>b\<bar>"] by (simp_all add: pos_imp_zdiv_nonneg_iff)
  have "\<bar>a sdiv b\<bar> \<le> \<bar>a\<bar> div \<bar>b\<bar>"
    unfolding d abs_mult using q(1) by (auto simp: abs_sgn_eq)
  then have bound: "\<bar>a sdiv b\<bar> \<le> \<bar>a\<bar> div \<bar>b\<bar>" "\<bar>a sdiv b\<bar> \<le> 2 ^ 31" using q(2) a by linarith+
  then show "- (2 ^ 63) \<le> a sdiv b \<and> a sdiv b < 2 ^ 63" by (auto simp: abs_le_iff)
  show "fits (a sdiv b) \<longleftrightarrow> \<not> (a = - 2147483648 \<and> b = - 1)"
  proof (cases "\<bar>b\<bar> = 1")
    case True
    then consider "b = 1" | "b = - 1" by linarith
    then show ?thesis
    proof cases
      case 1
      then show ?thesis using assms(1) by (simp add: d mult_sgn_abs)
    next
      case 2
      then have "a sdiv b = - a" by (simp add: d)
      with 2 assms(1) show ?thesis by (auto simp: fits_def)
    qed
  next
    case False
    then have "\<bar>a\<bar> div \<bar>b\<bar> \<le> \<bar>a\<bar> div 2" using assms(3) by (intro zdiv_mono2) linarith+
    moreover have "\<bar>a\<bar> div 2 \<le> 2 ^ 31 div 2" using a by (rule zdiv_mono1) simp
    ultimately have "\<bar>a sdiv b\<bar> \<le> 2 ^ 30" using bound(1) by simp
    with False show ?thesis by (auto simp: fits_def abs_le_iff)
  qed
qed

lemma diagnosed_error [simp]: "diagnosed (parser_error p msg)"
  by (simp add: diagnosed_def parser_error_def)

lemma agrees_swapped:
  assumes "agrees s lv la" "agrees s rv ra"
    and "\<And>a b. fits a \<Longrightarrow> fits b \<Longrightarrow> agrees s (F (Inr a) b) (g a b)"
    and "\<And>b. fits b \<Longrightarrow> diagnosed lv \<Longrightarrow> diagnosed (F lv b)"
  shows "agrees s (bnd rv (F lv)) (Option.bind la (\<lambda>a. Option.bind ra (g a)))"
  using assms(2)
proof (cases rule: agrees_cases)
  case (ok b)
  from assms(1) show ?thesis
  proof (cases rule: agrees_cases)
    case (ok a)
    with assms(3) \<open>rv = Inr b\<close> \<open>ra = Some b\<close> \<open>fits b\<close> show ?thesis by simp
  next
    case bad
    with assms(4) \<open>rv = Inr b\<close> \<open>fits b\<close> show ?thesis by (auto simp: agrees_def)
  qed
next
  case bad
  then have "Option.bind la (\<lambda>a. Option.bind ra (g a)) = None" by (cases la) simp_all
  with bad show ?thesis using diagnosed_bnd by (auto simp: agrees_def)
qed

lemma agrees_div:
  assumes "fits a" "fits b" "\<not> n_is_unsigned i"
  shows "agrees s (div_const p i (Inr a) b) (int_op OP_DIV a b)"
  using assms sdiv_fits [OF assms(1,2)]
  by (auto simp: div_const_def int_op_def agrees_def fit_def checked_long_def parser_error_def diagnosed_def)

lemma div_diagnosed: "diagnosed lv \<Longrightarrow> diagnosed (div_const p i lv b)"
  by (simp add: div_const_def diagnosed_bnd)

lemma fits_shift:
  assumes "fits a" "0 \<le> b" "b < 32"
  shows "fits (a div 2 ^ nat b)"
proof (cases "0 \<le> a")
  case True
  then show ?thesis
    using assms(1) zdiv_mono2 [of a 1 "2 ^ nat b"] pos_imp_zdiv_nonneg_iff [of "2 ^ nat b" a] by (simp add: fits_def)
next
  case False
  then show ?thesis
    using assms(1) zdiv_mono2_neg [of a 1 "2 ^ nat b"] div_neg_pos_less0 [of a "2 ^ nat b"] by (simp add: fits_def)
qed

lemma agrees_shift:
  assumes "fits a" "fits b" "n_type_size li = 4"
  shows "agrees s (shift_const p OP_SHR li b (Inr a)) (int_op OP_SHR a b)"
    and "agrees False (shift_const p OP_SHL li b (Inr a)) (int_op OP_SHL a b)"
  using assms fits_shift [OF assms(1), of b]
  by (auto simp: shift_const_def int_op_def agrees_def fit_def node_width_def parser_error_def diagnosed_def
      checked_long_def fits_def not_less)

lemma shift_diagnosed: "diagnosed lv \<Longrightarrow> diagnosed (shift_const p k li b lv)"
  by (simp add: shift_const_def diagnosed_bnd)

lemma fits_bits:
  assumes "fits a" "fits b"
  shows "fits (a AND b)" "fits (a OR b)" "fits (a XOR b)" "fits (NOT a)"
proof -
  have iff: "fits v \<longleftrightarrow> signed_take_bit 31 v = v" for v
    by (simp add: fits_def signed_take_bit_int_eq_self_iff)
  have "signed_take_bit 31 (a AND b) = signed_take_bit 31 a AND signed_take_bit 31 b"
    "signed_take_bit 31 (a OR b) = signed_take_bit 31 a OR signed_take_bit 31 b"
    "signed_take_bit 31 (a XOR b) = signed_take_bit 31 a XOR signed_take_bit 31 b"
    "signed_take_bit 31 (NOT a) = NOT (signed_take_bit 31 a)"
    by (rule bit_eqI, simp add: bit_simps)+
  with assms show "fits (a AND b)" "fits (a OR b)" "fits (a XOR b)" "fits (NOT a)" by (simp_all add: iff)
qed

lemma fits_unary: "fits a \<Longrightarrow> agrees False (bnd (Inr a) (\<lambda>a. checked_long (- a))) (unary_op OP_UNARY_MINUS a)"
  by (auto simp: agrees_def unary_op_def fit_def checked_long_def fits_def)

lemma plain_op_fits:
  assumes "fits a" "fits b" "plain_op k = Some f"
  shows "fits (f a b)" "int_op k a b = Some (f a b)"
  using assms(3) by (auto simp: plain_op_def int_op_def fits_truth fits_bits [OF assms(1,2)] split: if_splits)

lemma int_kind_cases:
  assumes "k \<in> set int_kinds"
  obtains (arith) f :: "int \<Rightarrow> int \<Rightarrow> int" where "(k, f) \<in> {(OP_ADD, (+)), (OP_SUB, (-)), (OP_MUL, (*))}"
  | (div) "k = OP_DIV" | (shift) "k = OP_SHL \<or> k = OP_SHR" | (plain) f where "plain_op k = Some f"
proof -
  have "k \<in> {OP_ADD, OP_SUB, OP_MUL} \<or> k = OP_DIV \<or> k = OP_SHL \<or> k = OP_SHR \<or> plain_op k \<noteq> None"
    using assms by (auto simp: int_kinds_def plain_op_def)
  then show thesis using that by blast
qed

text \<open>The two functions on the kinds of nodes of an int tree.\<close>

lemma eval_arith:
  fixes f :: "int \<Rightarrow> int \<Rightarrow> int"
  assumes "(n_op_enum i, f) \<in> {(OP_ADD, (+)), (OP_SUB, (-)), (OP_MUL, (*))}"
  shows "eval_const p (Node i (Some l) (Some r) b v) =
      bnd (eval_const p l) (\<lambda>a. bnd (eval_const p r) (\<lambda>c. bnd (checked_long (f a c)) (checked_const_integer p i)))
    \<and> int_op (n_op_enum i) a c = fit (f a c)"
proof -
  consider "n_op_enum i = OP_ADD" "f = (+)" | "n_op_enum i = OP_SUB" "f = (-)" | "n_op_enum i = OP_MUL" "f = (*)"
    using assms by auto
  then show ?thesis by cases (simp_all add: eval_const.simps int_op_def)
qed

lemma eval_div: "n_op_enum i = OP_DIV \<Longrightarrow>
  eval_const p (Node i (Some l) (Some r) b v) = bnd (eval_const p r) (div_const p i (eval_const p l))"
  by (simp add: eval_const.simps)

lemma eval_shift: "n_op_enum i = k \<Longrightarrow> k = OP_SHL \<or> k = OP_SHR \<Longrightarrow>
  eval_const p (Node i (Some l) (Some r) b v) = bnd (eval_const p r) (\<lambda>s. shift_const p k (nd l) s (eval_const p l))"
  by (auto simp: eval_const.simps plain_op_def)

lemma eval_plain:
  assumes "plain_op (n_op_enum i) = Some f"
  shows "eval_const p (Node i (Some l) (Some r) b v) = bnd (eval_const p l) (\<lambda>a. bnd (eval_const p r) (\<lambda>c. Inr (f a c)))"
proof -
  have "n_op_enum i \<in> {OP_EQ, OP_NE, OP_LT, OP_GT, OP_LE, OP_GE, OP_BAND, OP_BOR, OP_BXOR}"
    using assms by (auto simp: plain_op_def split: if_splits)
  then have "eval_const p (Node i (Some l) (Some r) b v) =
      bnd (eval_const p l) (\<lambda>a. bnd (eval_const p r) (\<lambda>c. Inr (the (plain_op (n_op_enum i)) a c)))"
    unfolding insert_iff empty_iff by (elim disjE FalseE) (simp_all add: eval_const.simps plain_op_def)
  with assms show ?thesis by simp
qed

lemma int_value_binary:
  "n_op_enum i \<in> set int_kinds \<Longrightarrow>
   int_value (Node i (Some l) (Some r) b v) = Option.bind (int_value l) (\<lambda>a. Option.bind (int_value r) (int_op (n_op_enum i) a))"
  unfolding int_kinds_def list.set insert_iff empty_iff by (elim disjE FalseE) (simp_all add: unary_kinds_def int_kinds_def)

lemma agrees_binary:
  assumes k: "n_op_enum i \<in> set int_kinds" "n_type_size i = 4" "\<not> n_is_unsigned i" "n_type_size (nd l) = 4"
    and s: "s \<Longrightarrow> n_op_enum i \<noteq> OP_SHL"
    and l: "agrees s (eval_const p l) (int_value l)" and r: "agrees s (eval_const p r) (int_value r)"
  shows "agrees s (eval_const p (Node i (Some l) (Some r) b v)) (int_value (Node i (Some l) (Some r) b v))"
  using k(1)
proof (cases rule: int_kind_cases)
  case (arith f)
  note e = eval_arith [OF arith]
  have "agrees s (bnd (checked_long (f a c)) (checked_const_integer p i)) (int_op (n_op_enum i) a c)" if "fits a" "fits c" for a c
    using arith fits_arith [OF that] agrees_fit [OF k(2,3)] e [THEN conjunct2] by auto
  then show ?thesis unfolding int_value_binary [OF k(1)] e [THEN conjunct1] by (intro agrees_bind l r)
next
  case div
  show ?thesis unfolding eval_div [OF div] int_value_binary [OF k(1)] div
    by (rule agrees_swapped [OF l r]) (use agrees_div k(3) div_diagnosed in auto)
next
  case shift
  have "agrees s (shift_const p (n_op_enum i) (nd l) c (Inr a)) (int_op (n_op_enum i) a c)" if "fits a" "fits c" for a c
  proof (cases "n_op_enum i = OP_SHL")
    case True
    with s have "\<not> s" by auto
    with True show ?thesis using agrees_weaken [OF agrees_shift(2) [OF that k(4)], of s] by simp
  next
    case False
    with shift show ?thesis using agrees_shift(1) [OF that k(4)] by simp
  qed
  then show ?thesis unfolding eval_shift [OF refl shift] int_value_binary [OF k(1)]
    by (intro agrees_swapped [OF l r, of "\<lambda>lv c. shift_const p (n_op_enum i) (nd l) c lv"] shift_diagnosed)
next
  case (plain f)
  have "agrees s (Inr (f a c)) (int_op (n_op_enum i) a c)" if "fits a" "fits c" for a c
    using plain_op_fits [OF that plain] by (simp add: agrees_def)
  then show ?thesis unfolding eval_plain [OF plain] int_value_binary [OF k(1)] by (intro agrees_bind l r)
qed

lemma agrees_unary:
  assumes "n_op_enum i \<in> set unary_kinds" "s \<Longrightarrow> n_op_enum i \<noteq> OP_UNARY_MINUS" "agrees s (eval_const p m) (int_value m)"
  shows "agrees s (eval_const p (Node i (Some m) r b v)) (int_value (Node i (Some m) r b v))"
proof -
  have e: "int_value (Node i (Some m) r b v) = Option.bind (int_value m) (unary_op (n_op_enum i))"
    using assms(1) by (auto simp: unary_kinds_def)
  consider "n_op_enum i = OP_UNARY_MINUS" "\<not> s" | "n_op_enum i = OP_UNARY_TILDE" | "n_op_enum i = OP_UNARY_NOT"
    using assms(1,2) by (auto simp: unary_kinds_def)
  then show ?thesis
  proof cases
    case 1
    have "agrees s (checked_long (- a)) (unary_op OP_UNARY_MINUS a)" if "fits a" for a
      using fits_unary [OF that] 1(2) by (auto intro: agrees_weaken)
    then show ?thesis unfolding e 1(1) using 1(1) by (simp add: eval_const.simps) (intro agrees_bind assms(3))
  next
    case 2
    have "agrees s (Inr (NOT a)) (unary_op OP_UNARY_TILDE a)" if "fits a" for a
      using fits_bits(4) [OF that that] by (simp add: agrees_def unary_op_def)
    then show ?thesis unfolding e 2 using 2 by (simp add: eval_const.simps) (intro agrees_bind assms(3))
  next
    case 3
    have "agrees s (Inr (truth (a = 0))) (unary_op OP_UNARY_NOT a)" for a
      by (simp add: agrees_def unary_op_def fits_truth)
    then show ?thesis unfolding e 3 using 3 by (simp add: eval_const.simps) (intro agrees_bind assms(3))
  qed
qed

lemma agrees_logic:
  assumes "n_op_enum i = OP_LAND \<or> n_op_enum i = OP_LOR" "agrees s (eval_const p l) (int_value l)" "agrees s (eval_const p r) (int_value r)"
  shows "agrees s (eval_const p (Node i (Some l) (Some r) b v)) (int_value (Node i (Some l) (Some r) b v))"
proof -
  have t: "agrees s (bnd (eval_const p r) (\<lambda>c. Inr (truth (c \<noteq> 0)))) (map_option (\<lambda>c. truth (c \<noteq> 0)) (int_value r))"
    unfolding map_conv_bind_option using agrees_bind [OF assms(3), of "\<lambda>c. Inr (truth (c \<noteq> 0))"]
    by (simp add: agrees_def fits_truth)
  have "agrees s (Inr 0) (Some 0)" "agrees s (Inr 1) (Some 1)" by (simp_all add: agrees_def small_consts)
  with t assms(1) show ?thesis
    by (auto simp: eval_const.simps plain_op_def unary_kinds_def intro!: agrees_bind assms(2))
qed

lemma agrees_ternary:
  assumes "n_op_enum i = OP_TERNARY" "agrees s (eval_const p c) (int_value c)" "agrees s (eval_const p t) (int_value t)"
    "agrees s (eval_const p e) (int_value e)"
  shows "agrees s (eval_const p (Node i (Some c) r [t, e] v)) (int_value (Node i (Some c) r [t, e] v))"
  using assms by (auto simp: eval_const.simps plain_op_def unary_kinds_def intro!: agrees_bind)

lemma int_tree_agrees: "int_tree n \<Longrightarrow> agrees (unchecked_free n) (eval_const p n) (int_value n)"
proof (induction n)
  case (Node i l r b v)
  let ?n = "Node i l r b v" let ?k = "n_op_enum i" let ?s = "unchecked_free ?n"
  have L: "agrees ?s (eval_const p m) (int_value m)" if "l = Some m" "int_tree m" for m
    using Node.IH(1) [of m] that by (auto intro: agrees_weaken)
  have R: "agrees ?s (eval_const p m) (int_value m)" if "r = Some m" "int_tree m" for m
    using Node.IH(2) [of m] that by (auto intro: agrees_weaken)
  have B: "agrees ?s (eval_const p m) (int_value m)" if "m \<in> set b" "int_tree m" for m
    using Node.IH(3) [of m] that by (auto simp: list_all_iff intro: agrees_weaken)
  consider (num) "?k = OP_NUM" | (unary) "?k \<in> set unary_kinds" | (logic) "?k = OP_LAND \<or> ?k = OP_LOR"
    | (ternary) "?k = OP_TERNARY" | (binary) "?k \<in> set int_kinds"
    using Node.prems by (auto simp: Let_def split: if_splits)
  then show ?case
  proof cases
    case num
    with Node.prems show ?thesis by (simp add: eval_const.simps agrees_def)
  next
    case unary
    then have "?k \<noteq> OP_NUM" by (auto simp: unary_kinds_def)
    with unary Node.prems obtain m where m: "l = Some m" "int_tree m" by (auto split: option.splits)
    show ?thesis unfolding m(1) by (rule agrees_unary [OF unary]) (use L m in auto)
  next
    case logic
    then have "?k \<noteq> OP_NUM" "?k \<notin> set unary_kinds" by (auto simp: unary_kinds_def)
    with logic Node.prems obtain m m' where m: "l = Some m" "int_tree m" "r = Some m'" "int_tree m'"
      by (auto split: option.splits)
    show ?thesis unfolding m(1,3) by (rule agrees_logic [OF logic]) (use L R m in auto)
  next
    case ternary
    then have "?k \<noteq> OP_NUM" "?k \<notin> set unary_kinds" by (auto simp: unary_kinds_def)
    with ternary Node.prems obtain m t e where m: "l = Some m" "int_tree m" "b = [t, e]" "int_tree t" "int_tree e"
      by (auto split: option.splits list.splits)
    show ?thesis unfolding m(1,3) by (rule agrees_ternary [OF ternary]) (use L B m in auto)
  next
    case binary
    then have "?k \<noteq> OP_NUM" "?k \<notin> set unary_kinds" "?k \<noteq> OP_LAND" "?k \<noteq> OP_LOR" "?k \<noteq> OP_TERNARY"
      by (auto simp: unary_kinds_def int_kinds_def)
    with binary Node.prems obtain m m' where m: "l = Some m" "int_tree m" "r = Some m'" "int_tree m'"
      "n_type_size i = 4" "\<not> n_is_unsigned i" "n_type_size (nd m) = 4"
      by (auto split: option.splits)
    show ?thesis unfolding m(1,3) by (rule agrees_binary [OF binary m(5-7)]) (use L R m in auto)
  qed
qed


definition int_node :: "op_kind \<Rightarrow> node \<Rightarrow> node \<Rightarrow> node" where
  "int_node k l r = Node ((create_info (op_to_str k) (1, 1))\<lparr>n_type_size := 4\<rparr>) (Some l) (Some r) [] None"

definition int_lit :: "int \<Rightarrow> node" where
  "int_lit v = Node ((create_info ''num'' (1, 1))\<lparr>n_value := v, n_type_size := 4\<rparr>) None None [] None"

lemma int_lit_kind: "n_op_enum (nd (int_lit v)) = OP_NUM" "n_value (nd (int_lit v)) = v" "n_type_size (nd (int_lit v)) = 4"
  by (simp_all add: int_lit_def create_info_def num_kind)

lemma int_node_info:
  assumes "k \<noteq> OP_COUNT"
  shows "nd (int_node k l r) = (create_info (op_to_str k) (1, 1))\<lparr>n_type_size := 4\<rparr>" "n_op_enum (nd (int_node k l r)) = k"
  using op_names_roundtrip [OF assms] by (simp_all add: int_node_def create_info_def)


subsection \<open>From tokens to the value\<close>

definition plain_int :: "node \<Rightarrow> bool" where
  "plain_int n \<longleftrightarrow> type_of n = (4, False) \<and> \<not> n_is_float (nd n) \<and> \<not> n_is_complex (nd n) \<and> \<not> n_is_imaginary (nd n)"

lemma plain_int_operand: "plain_int n \<Longrightarrow> int_operand n"
  by (auto simp: plain_int_def int_operand_def standard_type_def type_of_def)

lemma common_int: "common_type (4, False) (4, False) = (4, False)"
  by (simp add: common_type_def promote_def range_facts)

lemma maker_plain:
  assumes "plain_int l" "plain_int r" "mk \<in> {term_node, add_node, shift_node, compare_node, bitwise_node}"
  shows "\<exists>i. mk at op l r = Node i (Some l) (Some r) [] None \<and> n_op_enum i = str_to_op (Some op)
    \<and> plain_int (Node i (Some l) (Some r) [] None)"
proof -
  have t: "type_of l = (4, False)" "type_of r = (4, False)" "int_operand l" "int_operand r"
    using assms(1,2) plain_int_operand by (auto simp: plain_int_def)
  have f: "n_type_size (nd l) = 4" "n_type_size (nd r) = 4" "\<not> n_is_unsigned (nd l)" "\<not> n_is_unsigned (nd r)"
    "\<not> n_is_complex (nd l)" "\<not> n_is_complex (nd r)" "\<not> n_is_imaginary (nd l)" "\<not> n_is_imaginary (nd r)"
    using assms(1,2) by (auto simp: plain_int_def type_of_def)
  have a: "arith_info at op (nd l) (nd r) = (create_info op at)\<lparr>n_type_size := 4, n_is_unsigned := False\<rparr>"
    using arith_info_type [OF t(3,4)] by (simp add: t(1,2) common_int)
  show ?thesis
    using assms(3) f by (auto simp: term_node_def add_node_def shift_node_def compare_node_def bitwise_node_def a binary_node_def
        complex_size_def plain_int_def type_of_def create_info_def promoted_size_def promoted_unsigned [OF t(3)]
        promoted_unsigned [OF t(4)] Let_def)
qed

text \<open>The kinds of the binary operators, and the nodes made for them.\<close>

lemma op_kinds:
  "map (\<lambda>op. str_to_op (Some op)) [''|'', ''^'', ''&'', ''=='', ''!='', ''<'', ''>'', ''<='', ''>='', ''<<'', ''>>'', ''+'', ''-'', ''*'', ''/'']
   = [OP_BOR, OP_BXOR, OP_BAND, OP_EQ, OP_NE, OP_LT, OP_GT, OP_LE, OP_GE, OP_SHL, OP_SHR, OP_ADD, OP_SUB, OP_MUL, OP_DIV]"
  "str_to_op (Some ''||'') = OP_LOR" "str_to_op (Some ''&&'') = OP_LAND" "str_to_op (Some ''%'') = OP_MOD"
  by (simp_all add: str_to_op_def op_table_def)

definition int_binary :: "string \<Rightarrow> int \<Rightarrow> int \<Rightarrow> int option" where
  "int_binary op a b =
     (if op = ''&&'' then Some (truth (a \<noteq> 0 \<and> b \<noteq> 0)) else if op = ''||'' then Some (truth (a \<noteq> 0 \<or> b \<noteq> 0))
      else int_op (str_to_op (Some op)) a b)"

definition int_const :: "node \<Rightarrow> int \<Rightarrow> bool" where
  "int_const n v \<longleftrightarrow> plain_int n \<and> int_tree n \<and> int_value n = Some v"

lemma kind_int: "op \<in> set (ops_of k) \<Longrightarrow> 2 \<le> k \<Longrightarrow> k < 10 \<Longrightarrow> op \<noteq> ''%'' \<Longrightarrow> str_to_op (Some op) \<in> set int_kinds"
  using op_kinds(1) by (drule_tac k = k in less_10_cases) (auto simp: ops_of_def expr_levels_def int_kinds_def)

lemma maker_cases: "2 \<le> k \<Longrightarrow> k < 10 \<Longrightarrow> maker_of k \<in> {term_node, add_node, shift_node, compare_node, bitwise_node}"
  by (drule_tac k = k in less_10_cases) (auto simp: maker_of_def expr_levels_def)

lemma binary_const:
  assumes "int_const l a" "int_const r b" "2 \<le> k" "k < 10" "op \<in> set (ops_of k)" "int_op (str_to_op (Some op)) a b = Some c"
  shows "int_const (maker_of k at op l r) c"
proof -
  have "int_op OP_MOD a b = None" by (simp add: int_op_def)
  with assms(6) op_kinds(4) have "op \<noteq> ''%''" by auto
  with kind_int [OF assms(5,3,4)] have k: "str_to_op (Some op) \<in> set int_kinds" by simp
  have p: "plain_int l" "plain_int r" using assms(1,2) by (simp_all add: int_const_def)
  from maker_plain [OF p maker_cases [OF assms(3,4)], of at op] obtain i where
    i: "maker_of k at op l r = Node i (Some l) (Some r) [] None" "n_op_enum i = str_to_op (Some op)"
      "plain_int (Node i (Some l) (Some r) [] None)" by blast
  have "n_type_size i = 4" "\<not> n_is_unsigned i" "n_type_size (nd l) = 4"
    using i(3) p(1) by (simp_all add: plain_int_def type_of_def)
  then have "int_tree (Node i (Some l) (Some r) [] None)"
    using k assms(1,2) i(2) by (auto simp: int_const_def int_kinds_def unary_kinds_def)
  moreover have "int_value (Node i (Some l) (Some r) [] None) = Some c"
    using int_value_binary [of i l r "[]" None] k i(2) assms(1,2,6) by (simp add: int_const_def)
  ultimately show ?thesis using i by (simp add: int_const_def)
qed

lemma bool_normalize_const:
  assumes "int_const n a"
  shows "int_tree (bool_normalize n)" "int_value (bool_normalize n) = Some (truth (a \<noteq> 0))"
proof -
  define at where "at = (n_line (nd n), n_col (nd n))"
  define i where "i = (create_info ''!='' at)\<lparr>n_type_size := 4\<rparr>"
  define z where "z = Node ((create_info ''num'' at)\<lparr>n_value := 0\<rparr>) None None [] None"
  have e: "bool_normalize n = Node i (Some n) (Some z) [] None"
    by (simp add: bool_normalize_def Let_def at_def i_def z_def)
  have k: "n_op_enum i = OP_NE" "n_type_size i = 4" "\<not> n_is_unsigned i"
    using op_kinds(1) by (simp_all add: i_def create_info_def)
  have z: "int_tree z" "int_value z = Some 0" by (simp_all add: z_def create_info_def num_kind fits_def)
  have "n_type_size (nd n) = 4" using assms by (simp add: int_const_def plain_int_def type_of_def)
  then show "int_tree (bool_normalize n)"
    unfolding e using k z(1) assms by (simp add: int_const_def int_kinds_def unary_kinds_def)
  show "int_value (bool_normalize n) = Some (truth (a \<noteq> 0))"
    unfolding e using k z(2) assms by (simp add: int_const_def int_kinds_def unary_kinds_def int_op_def)
qed

lemma logical_const:
  assumes "int_const l a" "int_const r b" "op = ''&&'' \<or> op = ''||''"
  shows "int_const (logical_node at op l r) (the (int_binary op a b))"
proof -
  have k: "str_to_op (Some op) = (if op = ''&&'' then OP_LAND else OP_LOR)" using assms(3) op_kinds by auto
  show ?thesis
    using assms(3) bool_normalize_const [OF assms(1)] bool_normalize_const [OF assms(2)] k
    by (auto simp: logical_node_def binary_node_def int_const_def plain_int_def type_of_def create_info_def unary_kinds_def
        int_binary_def truth_def)
qed

text \<open>The value the grammar of C gives to the tokens of an int constant expression.\<close>

inductive int_denotes :: "operand_parser \<Rightarrow> nat \<Rightarrow> token list \<Rightarrow> int \<Rightarrow> bool" for unary where
  leaf: "operand unary ts n \<Longrightarrow> int_const n v \<Longrightarrow> int_denotes unary 10 ts v"
| tighter: "int_denotes unary (Suc k) ts v \<Longrightarrow> k < 10 \<Longrightarrow> int_denotes unary k ts v"
| operator: "int_denotes unary k ts a \<Longrightarrow> k < 10 \<Longrightarrow> tk_text op \<in> set (ops_of k) \<Longrightarrow> int_denotes unary (Suc k) us b \<Longrightarrow>
    int_binary (tk_text op) a b = Some c \<Longrightarrow> int_denotes unary k (ts @ op # us) c"

lemma int_denotes_lower: "int_denotes unary j ts v \<Longrightarrow> j \<le> 10 \<Longrightarrow> int_denotes unary (j - d) ts v"
proof (induction d)
  case (Suc d)
  then show ?case
    using int_denotes.tighter [of unary "j - Suc d" ts v] by (cases "d < j") (auto simp: Suc_diff_Suc)
qed simp

lemma int_denotes_tree: "int_denotes unary k ts v \<Longrightarrow> \<exists>n. binary_tree unary k ts n \<and> int_const n v"
proof (induction rule: int_denotes.induct)
  case (leaf ts n v)
  then show ?case using binary_tree.operand by blast
next
  case (tighter k ts v)
  then show ?case using binary_tree.tighter by blast
next
  case (operator k ts a op us b c)
  then obtain l r where t: "binary_tree unary k ts l" "int_const l a" "binary_tree unary (Suc k) us r" "int_const r b" by blast
  have "int_const (maker_of k (pos_of_first ts) (tk_text op) l r) c"
  proof (cases "k < 2")
    case True
    then have "maker_of k = logical_node" "tk_text op = ''&&'' \<or> tk_text op = ''||''"
      using operator.hyps(3) by (auto simp: maker_of_def ops_of_def expr_levels_def less_2_cases_iff)
    then show ?thesis using logical_const [OF t(2,4), of "tk_text op"] operator.hyps(5) by simp
  next
    case False
    then have "tk_text op \<noteq> ''&&''" "tk_text op \<noteq> ''||''"
      using operator.hyps(2,3) ops_of_unique [of k 0 "tk_text op"] ops_of_unique [of k 1 "tk_text op"]
      by (auto simp: ops_of_def expr_levels_def)
    then show ?thesis
      using binary_const [OF t(2,4) _ operator.hyps(2,3)] False operator.hyps(5) by (simp add: int_binary_def)
  qed
  with binary_tree.operator [OF t(1) operator.hyps(2,3) t(3)] show ?case by blast
qed


lemma digit_literal:
  assumes "w \<in> {''2'', ''3'', ''4'', ''8''}"
  shows "int_const (lit i w) (number_of 10 w)"
proof -
  have d: "list_all is_dec_digit w" "0 \<le> number_of 10 w" "number_of 10 w < 10"
    using assms by (auto simp: is_dec_digit_def number_of_def digit_value_def)
  have v: "strtoull w (is_hex_text w) = number_of 10 w"
    using strtoull_digits [of False w "[]"] sint_of_unsigned [of "number_of 10 w"] d dec_literal [OF d(1)] by simp
  obtain j where j: "lit i w = Node j None None [] None" "n_op_enum j = OP_NUM" "\<not> n_is_float j" "\<not> n_is_complex j" "\<not> n_is_imaginary j"
    by (simp add: lit_def integer_literal_def apply_integer_literal_conversion_def apply_integer_conversion_def Let_def
        create_info_def num_kind)
  have "n_value j = number_of 10 w" "type_of (lit i w) = (4, False)"
    using integer_literal_info [OF dec_literal(2) [OF d(1)], of "(1, i)"] dec_literal(1) [OF d(1)] d(2,3) v j(1)
    by (simp_all add: lit_def)
  with j d(2,3) show ?thesis by (simp add: int_const_def plain_int_def fits_def)
qed


subsection \<open>What the evaluator gets wrong\<close>

text \<open>The remainder is missing from the evaluator.\<close>

lemma modulo_rejected: "eval_const p (term_node at ''%'' l r) = parser_error p ''invalid constant expression''"
proof -
  have "n_op_enum (nd (term_node at ''%'' l r)) = OP_MOD"
    using op_kinds(4) by (simp add: term_node_def binary_node_def arith_info_def float_type_def complex_size_def Let_def create_info_def)
  moreover obtain i where "term_node at ''%'' l r = Node i (Some l) (Some r) [] None"
    by (simp add: term_node_def binary_node_def Let_def)
  ultimately show ?thesis by (simp add: eval_const.simps plain_op_def)
qed

text \<open>C39: Unsigned comparisons are evaluated as signed ones: for a negative int on the left and an unsigned
  int below 2 to the 31 on the right the parser marks the comparison as unsigned, where C converts
  the left side to a value that is greater, and the evaluator still answers that it is less.\<close>

theorem unsigned_comparison_signed:
  assumes "eval_const p l = Inr a" "eval_const p r = Inr b" "- (2 ^ 31) \<le> a" "a < 0" "0 \<le> b" "b < 2 ^ 31"
    and "type_of l = (4, False)" "type_of r = (4, True)" "n_op_enum (nd r) = OP_NUM"
  shows "n_compare_unsigned (nd (compare_node at ''<'' l r)) \<and> b < a mod 2 ^ 32
    \<and> eval_const p (compare_node at ''<'' l r) = Inr 1"
proof (intro conjI)
  show "n_compare_unsigned (nd (compare_node at ''<'' l r))"
    using assms(7-9) by (simp add: compare_node_def binary_node_def promoted_size_def promoted_is_unsigned_def type_of_def Let_def)
  have "a mod 2 ^ 32 = (a + 2 ^ 32) mod 2 ^ 32" by simp
  also have "\<dots> = a + 2 ^ 32" using assms(3,4) by (intro mod_pos_pos_trivial) simp_all
  finally show "b < a mod 2 ^ 32" using assms(3,6) by simp
  have k: "n_op_enum (nd (compare_node at ''<'' l r)) = OP_LT"
    using op_kinds(1) by (simp add: compare_node_def binary_node_def create_info_def Let_def)
  obtain i where i: "compare_node at ''<'' l r = Node i (Some l) (Some r) [] None"
    by (simp add: compare_node_def binary_node_def Let_def)
  from k have "plain_op (n_op_enum i) = Some (\<lambda>a b. truth (a < b))" by (simp add: i plain_op_def)
  with assms(1,2,4,5) show "eval_const p (compare_node at ''<'' l r) = Inr 1"
    by (simp add: i eval_plain truth_def)
qed

theorem unsigned_comparison_signed_witness:
  "eval_const (empty_parser []) (compare_node (1, 1) ''<'' (int_lit (- 1)) (integer_literal (1, 3) ''0u'')) = Inr 1"
proof -
  have z: "integer_literal (1, 3) ''0u'' = Node ((create_info ''num'' (1, 3))\<lparr>n_type_size := 4, n_is_unsigned := True\<rparr>) None None [] None"
    by (simp add: integer_literal_def apply_integer_literal_conversion_def apply_integer_conversion_def create_info_def num_kind
        is_hex_text_def strtoull_def is_dec_digit_def digit_value_def)
  have "eval_const (empty_parser []) (int_lit (- 1)) = Inr (- 1)"
    "eval_const (empty_parser []) (integer_literal (1, 3) ''0u'') = Inr 0"
    unfolding z by (simp_all add: int_lit_def eval_const.simps create_info_def num_kind)
  moreover have "type_of (int_lit (- 1)) = (4, False)" "type_of (integer_literal (1, 3) ''0u'') = (4, True)"
    "n_op_enum (nd (integer_literal (1, 3) ''0u'')) = OP_NUM"
    unfolding z by (simp_all add: int_lit_def type_of_def create_info_def num_kind)
  ultimately show ?thesis
    using unsigned_comparison_signed [of "empty_parser []" "int_lit (- 1)" "- 1" "integer_literal (1, 3) ''0u''" 0 "(1, 1)"] by simp
qed

end
