(* ===== verification/Parse_Sysv.thy ===== *)
theory Parse_Sysv
  imports Parse_State
begin

text \<open>
  The classification of structures passed in registers against the rules of the System V ABI: the
  parser recognises exactly the structures of one integer and one floating-point eightbyte.
\<close>

text \<open>A field: its offset and width in bytes, whether it is floating-point and whether a long double.\<close>

type_synonym sysv_field = "nat \<times> nat \<times> bool \<times> bool"

definition fold_fields :: "sysv_field list \<Rightarrow> sysv_acc" where
  "fold_fields fs = fold (\<lambda>(off, w, flt, ld). sysv_fold_field off (int w) flt ld) fs
     \<lparr>eb_int = [False, False], eb_sse = [False, False], sysv_ok = True\<rparr>"

text \<open>The rules: every field gives its class to the eightbytes it overlaps, a long double counts as integer
  for this purpose, an integer class wins over a floating-point one, and an eightbyte without
  fields has no class.\<close>

datatype eb_class = No_Class | Integer_Class | Sse_Class

definition overlaps :: "nat \<Rightarrow> sysv_field \<Rightarrow> bool" where
  "overlaps e f = (case f of (off, w, _) \<Rightarrow> off < 8 * e + 8 \<and> 8 * e < off + w)"

definition class_of :: "sysv_field \<Rightarrow> eb_class" where
  "class_of f = (case f of (_, _, flt, ld) \<Rightarrow> if flt \<and> \<not> ld then Sse_Class else Integer_Class)"

fun merge :: "eb_class \<Rightarrow> eb_class \<Rightarrow> eb_class" where
  "merge No_Class c = c"
| "merge c No_Class = c"
| "merge Integer_Class c = Integer_Class"
| "merge c Integer_Class = Integer_Class"
| "merge c d = Sse_Class"

definition eightbyte_class :: "sysv_field list \<Rightarrow> nat \<Rightarrow> eb_class" where
  "eightbyte_class fs e = foldr merge (map class_of (filter (overlaps e) fs)) No_Class"

definition class_code :: "eb_class \<Rightarrow> int" where
  "class_code c = (case c of No_Class \<Rightarrow> 0 | Integer_Class \<Rightarrow> 1 | Sse_Class \<Rightarrow> 2)"

lemma merge_simps:
  "merge c d = No_Class \<longleftrightarrow> c = No_Class \<and> d = No_Class"
  "merge c d = Integer_Class \<longleftrightarrow> c = Integer_Class \<or> d = Integer_Class"
  by (cases c; cases d; simp)+

lemma eightbyte_class_iff:
  "eightbyte_class fs e = Integer_Class \<longleftrightarrow> list_ex (\<lambda>f. overlaps e f \<and> class_of f = Integer_Class) fs"
  "eightbyte_class fs e = No_Class \<longleftrightarrow> \<not> list_ex (overlaps e) fs"
proof -
  have "class_of f \<noteq> No_Class" for f by (cases f) (simp add: class_of_def)
  then show "eightbyte_class fs e = Integer_Class \<longleftrightarrow> list_ex (\<lambda>f. overlaps e f \<and> class_of f = Integer_Class) fs"
    "eightbyte_class fs e = No_Class \<longleftrightarrow> \<not> list_ex (overlaps e) fs"
    by (induction fs) (auto simp: eightbyte_class_def merge_simps)
qed

definition acc_ok :: "sysv_acc \<Rightarrow> (nat \<Rightarrow> bool) \<Rightarrow> (nat \<Rightarrow> bool) \<Rightarrow> bool" where
  "acc_ok acc I S \<longleftrightarrow> length (eb_int acc) = 2 \<and> length (eb_sse acc) = 2
     \<and> eb_int acc ! 0 = I 0 \<and> eb_int acc ! 1 = I 1 \<and> eb_sse acc ! 0 = S 0 \<and> eb_sse acc ! 1 = S 1"

lemma fold_field_ok:
  assumes "acc_ok acc I S" "0 < w" "off + w \<le> 16"
  shows "acc_ok (sysv_fold_field off (int w) flt ld acc)
      (\<lambda>e. I e \<or> overlaps e (off, w, flt, ld) \<and> class_of (off, w, flt, ld) = Integer_Class)
      (\<lambda>e. S e \<or> overlaps e (off, w, flt, ld) \<and> class_of (off, w, flt, ld) = Sse_Class)
    \<and> sysv_ok (sysv_fold_field off (int w) flt ld acc) = sysv_ok acc"
proof -
  obtain a b c d where l: "eb_int acc = [a, b]" "eb_sse acc = [c, d]"
    using assms(1) by (auto simp: acc_ok_def numeral_2_eq_2 length_Suc_conv)
  have m: "a = I 0" "b = I 1" "c = S 0" "d = S 1" using assms(1) l by (simp_all add: acc_ok_def)
  have cls: "class_of (off, w, flt, ld) = (if flt \<and> \<not> ld then Sse_Class else Integer_Class)" by (simp add: class_of_def)
  consider "off + w \<le> 8" | "off < 8" "8 < off + w" | "8 \<le> off" using assms by linarith
  then show ?thesis
  proof cases
    case 1
    then have "[off div 8..<Suc ((off + w - 1) div 8)] = [0]" using assms(2) by simp
    with 1 assms(2,3) l m show ?thesis
      by (simp add: sysv_fold_field_def sysv_mark_def acc_ok_def overlaps_def cls)
  next
    case 2
    then have "off div 8 = 0" "(off + w - 1) div 8 = 1" using assms(3) by simp_all
    then have "[off div 8..<Suc ((off + w - 1) div 8)] = [0, 1]" by simp
    with 2 assms(2,3) l m show ?thesis
      by (simp add: sysv_fold_field_def sysv_mark_def acc_ok_def overlaps_def cls)
  next
    case 3
    then have "off div 8 = 1" "(off + w - 1) div 8 = 1" using assms(2,3) by simp_all
    then have "[off div 8..<Suc ((off + w - 1) div 8)] = [1]" by simp
    with 3 assms(2,3) l m show ?thesis
      by (simp add: sysv_fold_field_def sysv_mark_def acc_ok_def overlaps_def cls)
  qed
qed

lemma fold_fields_ok:
  "list_all (\<lambda>(off, w, _). 0 < w \<and> off + w \<le> 16) fs \<Longrightarrow> acc_ok acc I S \<Longrightarrow> sysv_ok acc \<Longrightarrow>
   sysv_ok (fold (\<lambda>(off, w, flt, ld). sysv_fold_field off (int w) flt ld) fs acc)
   \<and> acc_ok (fold (\<lambda>(off, w, flt, ld). sysv_fold_field off (int w) flt ld) fs acc)
      (\<lambda>e. I e \<or> list_ex (\<lambda>f. overlaps e f \<and> class_of f = Integer_Class) fs)
      (\<lambda>e. S e \<or> list_ex (\<lambda>f. overlaps e f \<and> class_of f = Sse_Class) fs)"
proof (induction fs arbitrary: acc I S)
  case (Cons f fs)
  obtain off w flt ld where f: "f = (off, w, flt, ld)" by (cases f) auto
  from fold_field_ok [OF Cons.prems(2), of w off flt ld] Cons.prems(1) f
  have s: "acc_ok (sysv_fold_field off (int w) flt ld acc) (\<lambda>e. I e \<or> overlaps e f \<and> class_of f = Integer_Class)
      (\<lambda>e. S e \<or> overlaps e f \<and> class_of f = Sse_Class)" "sysv_ok (sysv_fold_field off (int w) flt ld acc)"
    using Cons.prems(3) by auto
  from Cons.IH [OF _ s] Cons.prems(1) f show ?case by (simp add: disj_assoc)
qed simp

lemma fold_fields_memory:
  "\<not> sysv_ok acc \<Longrightarrow> \<not> sysv_ok (fold (\<lambda>(off, w, flt, ld). sysv_fold_field off (int w) flt ld) fs acc)"
proof (induction fs arbitrary: acc)
  case (Cons f fs)
  obtain off w flt ld where f: "f = (off, w, flt, ld)" by (cases f) auto
  have mark: "sysv_ok (fold (sysv_mark b c) es a) = sysv_ok a" for b c es a
    by (induction es arbitrary: a) (auto simp: sysv_mark_def)
  have "\<not> sysv_ok (sysv_fold_field off (int w) flt ld acc)"
    using Cons.prems by (simp add: sysv_fold_field_def mark)
  with Cons.IH f show ?case by simp
qed simp

lemma fold_fields_too_big:
  "\<not> list_all (\<lambda>(off, w, _). off + w \<le> 16) fs \<Longrightarrow> list_all (\<lambda>(off, w, _). 0 < w) fs \<Longrightarrow>
   \<not> sysv_ok (fold (\<lambda>(off, w, flt, ld). sysv_fold_field off (int w) flt ld) fs acc)"
proof (induction fs arbitrary: acc)
  case (Cons f fs)
  obtain off w flt ld where f: "f = (off, w, flt, ld)" by (cases f) auto
  show ?case
  proof (cases "off + w \<le> 16")
    case True
    with Cons f show ?thesis by simp
  next
    case False
    then have "\<not> sysv_ok (sysv_fold_field off (int w) flt ld acc)"
      using Cons.prems(2) f by (simp add: sysv_fold_field_def)
    from fold_fields_memory [OF this] f show ?thesis by simp
  qed
qed simp

lemma eightbyte_sse:
  "eightbyte_class fs e = Sse_Class \<longleftrightarrow> \<not> list_ex (\<lambda>f. overlaps e f \<and> class_of f = Integer_Class) fs
     \<and> list_ex (\<lambda>f. overlaps e f \<and> class_of f = Sse_Class) fs"
proof -
  have c: "class_of f = Sse_Class \<or> class_of f = Integer_Class" for f by (cases f) (simp add: class_of_def)
  have "eightbyte_class fs e = Sse_Class \<longleftrightarrow> eightbyte_class fs e \<noteq> Integer_Class \<and> eightbyte_class fs e \<noteq> No_Class"
    by (cases "eightbyte_class fs e") simp_all
  then show ?thesis unfolding eightbyte_class_iff list_ex_iff using c by metis
qed

text \<open>C24: Structures passed in registers: for fields of positive width the parser's class of a structure is
  that of the System V rules -- every field gives its class to the eightbytes it overlaps, integer
  wins over floating-point -- encoded as the flag and the two classes when the structure fits
  sixteen bytes and has one integer and one floating-point eightbyte, and 0 otherwise.\<close>

theorem sysv_classes:
  assumes "list_all (\<lambda>(off, w, _). 0 < w) fs"
  shows "sysv_mixed_class (fold_fields fs) =
    (let a = eightbyte_class fs 0; b = eightbyte_class fs 1
     in if list_all (\<lambda>(off, w, _). off + w \<le> 16) fs \<and> (a = Integer_Class \<and> b = Sse_Class \<or> a = Sse_Class \<and> b = Integer_Class)
        then 2 ^ 16 + class_code a + 16 * class_code b else 0)"
proof (cases "list_all (\<lambda>(off, w, _). off + w \<le> 16) fs")
  case True
  with assms have fs: "list_all (\<lambda>(off, w, _). 0 < w \<and> off + w \<le> 16) fs" by (auto simp: list_all_iff)
  have "acc_ok \<lparr>eb_int = [False, False], eb_sse = [False, False], sysv_ok = True\<rparr> (\<lambda>_. False) (\<lambda>_. False)"
    by (simp add: acc_ok_def)
  from fold_fields_ok [OF fs this]
  have s: "sysv_ok (fold_fields fs)" and a: "acc_ok (fold_fields fs)
      (\<lambda>e. list_ex (\<lambda>f. overlaps e f \<and> class_of f = Integer_Class) fs) (\<lambda>e. list_ex (\<lambda>f. overlaps e f \<and> class_of f = Sse_Class) fs)"
    by (simp_all add: fold_fields_def)
  have c: "sysv_class (eb_int (fold_fields fs) ! e) (eb_sse (fold_fields fs) ! e) = class_code (eightbyte_class fs e)"
    if "e = 0 \<or> e = 1" for e
    using a that eightbyte_class_iff(1) [of fs e] eightbyte_sse [of fs e]
    by (cases "eightbyte_class fs e") (auto simp: acc_ok_def sysv_class_def class_code_def)
  have n: "(0x10000 :: int) OR 1 OR push_bit 4 2 = 2 ^ 16 + 1 + 32" "(0x10000 :: int) OR 2 OR push_bit 4 1 = 2 ^ 16 + 2 + 16"
    by simp_all
  show ?thesis
    using True s n by (cases "eightbyte_class fs 0"; cases "eightbyte_class fs 1")
      (simp_all add: sysv_mixed_class_def c class_code_def)
next
  case False
  from fold_fields_too_big [OF this assms] have "\<not> sysv_ok (fold_fields fs)" by (simp add: fold_fields_def)
  then have "sysv_mixed_class (fold_fields fs) = 0" by (simp add: sysv_mixed_class_def)
  with False show ?thesis by (simp add: Let_def)
qed

text \<open>A structure of an int, a float and a double: the first eightbyte is an integer one.\<close>

theorem sysv_classes_witness:
  "sysv_mixed_class (fold_fields [(0, 4, False, False), (4, 4, True, False), (8, 8, True, False)]) = 0x10021"
  using sysv_classes [of "[(0, 4, False, False), (4, 4, True, False), (8, 8, True, False)]"]
  by (simp add: eightbyte_class_def overlaps_def class_of_def class_code_def)

end
