(* ===== verification/Ir_Code.thy ===== *)
theory Ir_Code
  imports Dyn_Array Hash_Map Name_Table
begin

text \<open>
  The intermediate representation, \<^verbatim>\<open>src/src/ir.h\<close> and \<^verbatim>\<open>src/src/ir.c\<close>: operations and the table of
  their names, instructions, functions, the pool of operand strings and \<^verbatim>\<open>ir_push\<close>, through which
  the lowering emits every instruction.  The pool is an array of strings with a hash map from
  strings to indices over it.  The constants of the enumeration \<^verbatim>\<open>IrOp\<close> are integers, as in C.
\<close>

type_synonym ir_op = int

abbreviation (input) IR_NOP :: ir_op where "IR_NOP \<equiv> 0"
abbreviation (input) IR_TRAP :: ir_op where "IR_TRAP \<equiv> 1"
abbreviation (input) IR_ATOMIC_LOAD :: ir_op where "IR_ATOMIC_LOAD \<equiv> 2"
abbreviation (input) IR_ATOMIC_STORE :: ir_op where "IR_ATOMIC_STORE \<equiv> 3"
abbreviation (input) IR_ATOMIC_ADD :: ir_op where "IR_ATOMIC_ADD \<equiv> 4"
abbreviation (input) IR_ATOMIC_FETCH_ADD :: ir_op where "IR_ATOMIC_FETCH_ADD \<equiv> 5"
abbreviation (input) IR_ATOMIC_EXCHANGE :: ir_op where "IR_ATOMIC_EXCHANGE \<equiv> 6"
abbreviation (input) IR_ATOMIC_CAS :: ir_op where "IR_ATOMIC_CAS \<equiv> 7"
abbreviation (input) IR_FRAME_ADDR :: ir_op where "IR_FRAME_ADDR \<equiv> 8"
abbreviation (input) IR_CLZ :: ir_op where "IR_CLZ \<equiv> 9"
abbreviation (input) IR_CTZ :: ir_op where "IR_CTZ \<equiv> 10"
abbreviation (input) IR_POPCOUNT :: ir_op where "IR_POPCOUNT \<equiv> 11"
abbreviation (input) IR_ADD_OVERFLOW :: ir_op where "IR_ADD_OVERFLOW \<equiv> 12"
abbreviation (input) IR_NOT :: ir_op where "IR_NOT \<equiv> 13"
abbreviation (input) IR_NOTEQ :: ir_op where "IR_NOTEQ \<equiv> 14"
abbreviation (input) IR_NOTEQ64 :: ir_op where "IR_NOTEQ64 \<equiv> 15"
abbreviation (input) IR_MOD :: ir_op where "IR_MOD \<equiv> 16"
abbreviation (input) IR_MOD64 :: ir_op where "IR_MOD64 \<equiv> 17"
abbreviation (input) IR_AND :: ir_op where "IR_AND \<equiv> 18"
abbreviation (input) IR_AND64 :: ir_op where "IR_AND64 \<equiv> 19"
abbreviation (input) IR_MUL :: ir_op where "IR_MUL \<equiv> 20"
abbreviation (input) IR_MUL64 :: ir_op where "IR_MUL64 \<equiv> 21"
abbreviation (input) IR_ADD :: ir_op where "IR_ADD \<equiv> 22"
abbreviation (input) IR_ADD64 :: ir_op where "IR_ADD64 \<equiv> 23"
abbreviation (input) IR_SUB :: ir_op where "IR_SUB \<equiv> 24"
abbreviation (input) IR_SUB64 :: ir_op where "IR_SUB64 \<equiv> 25"
abbreviation (input) IR_DIV :: ir_op where "IR_DIV \<equiv> 26"
abbreviation (input) IR_DIV64 :: ir_op where "IR_DIV64 \<equiv> 27"
abbreviation (input) IR_LT :: ir_op where "IR_LT \<equiv> 28"
abbreviation (input) IR_LT64 :: ir_op where "IR_LT64 \<equiv> 29"
abbreviation (input) IR_LTLT :: ir_op where "IR_LTLT \<equiv> 30"
abbreviation (input) IR_LTLT64 :: ir_op where "IR_LTLT64 \<equiv> 31"
abbreviation (input) IR_LTEQ :: ir_op where "IR_LTEQ \<equiv> 32"
abbreviation (input) IR_LTEQ64 :: ir_op where "IR_LTEQ64 \<equiv> 33"
abbreviation (input) IR_EQEQ :: ir_op where "IR_EQEQ \<equiv> 34"
abbreviation (input) IR_EQEQ64 :: ir_op where "IR_EQEQ64 \<equiv> 35"
abbreviation (input) IR_GT :: ir_op where "IR_GT \<equiv> 36"
abbreviation (input) IR_GT64 :: ir_op where "IR_GT64 \<equiv> 37"
abbreviation (input) IR_GTEQ :: ir_op where "IR_GTEQ \<equiv> 38"
abbreviation (input) IR_GTEQ64 :: ir_op where "IR_GTEQ64 \<equiv> 39"
abbreviation (input) IR_GTGT :: ir_op where "IR_GTGT \<equiv> 40"
abbreviation (input) IR_GTGT64 :: ir_op where "IR_GTGT64 \<equiv> 41"
abbreviation (input) IR_XOR :: ir_op where "IR_XOR \<equiv> 42"
abbreviation (input) IR_XOR64 :: ir_op where "IR_XOR64 \<equiv> 43"
abbreviation (input) IR_ADDR :: ir_op where "IR_ADDR \<equiv> 44"
abbreviation (input) IR_ASM :: ir_op where "IR_ASM \<equiv> 45"
abbreviation (input) IR_CALL :: ir_op where "IR_CALL \<equiv> 46"
abbreviation (input) IR_CAST :: ir_op where "IR_CAST \<equiv> 47"
abbreviation (input) IR_CONST :: ir_op where "IR_CONST \<equiv> 48"
abbreviation (input) IR_CONST64 :: ir_op where "IR_CONST64 \<equiv> 49"
abbreviation (input) IR_COPY :: ir_op where "IR_COPY \<equiv> 50"
abbreviation (input) IR_D2F :: ir_op where "IR_D2F \<equiv> 51"
abbreviation (input) IR_DUP :: ir_op where "IR_DUP \<equiv> 52"
abbreviation (input) IR_EXTRACT_BITS :: ir_op where "IR_EXTRACT_BITS \<equiv> 53"
abbreviation (input) IR_FNOTEQ :: ir_op where "IR_FNOTEQ \<equiv> 54"
abbreviation (input) IR_F2I :: ir_op where "IR_F2I \<equiv> 55"
abbreviation (input) IR_FLT :: ir_op where "IR_FLT \<equiv> 56"
abbreviation (input) IR_FLTEQ :: ir_op where "IR_FLTEQ \<equiv> 57"
abbreviation (input) IR_FEQEQ :: ir_op where "IR_FEQEQ \<equiv> 58"
abbreviation (input) IR_FGT :: ir_op where "IR_FGT \<equiv> 59"
abbreviation (input) IR_FGTEQ :: ir_op where "IR_FGTEQ \<equiv> 60"
abbreviation (input) IR_FADD :: ir_op where "IR_FADD \<equiv> 61"
abbreviation (input) IR_FCONST :: ir_op where "IR_FCONST \<equiv> 62"
abbreviation (input) IR_FDIV :: ir_op where "IR_FDIV \<equiv> 63"
abbreviation (input) IR_FGLOAD :: ir_op where "IR_FGLOAD \<equiv> 64"
abbreviation (input) IR_FGSTORE :: ir_op where "IR_FGSTORE \<equiv> 65"
abbreviation (input) IR_FLOAD4 :: ir_op where "IR_FLOAD4 \<equiv> 66"
abbreviation (input) IR_FLOAD8 :: ir_op where "IR_FLOAD8 \<equiv> 67"
abbreviation (input) IR_FLOAD_ADDR4 :: ir_op where "IR_FLOAD_ADDR4 \<equiv> 68"
abbreviation (input) IR_FLOAD_ADDR8 :: ir_op where "IR_FLOAD_ADDR8 \<equiv> 69"
abbreviation (input) IR_FMUL :: ir_op where "IR_FMUL \<equiv> 70"
abbreviation (input) IR_FNEG :: ir_op where "IR_FNEG \<equiv> 71"
abbreviation (input) IR_FRET :: ir_op where "IR_FRET \<equiv> 72"
abbreviation (input) IR_FSTORE4 :: ir_op where "IR_FSTORE4 \<equiv> 73"
abbreviation (input) IR_FSTORE8 :: ir_op where "IR_FSTORE8 \<equiv> 74"
abbreviation (input) IR_FSTORE_ADDR4 :: ir_op where "IR_FSTORE_ADDR4 \<equiv> 75"
abbreviation (input) IR_FSTORE_ADDR8 :: ir_op where "IR_FSTORE_ADDR8 \<equiv> 76"
abbreviation (input) IR_FSUB :: ir_op where "IR_FSUB \<equiv> 77"
abbreviation (input) IR_LDCONST :: ir_op where "IR_LDCONST \<equiv> 78"
abbreviation (input) IR_LDADD :: ir_op where "IR_LDADD \<equiv> 79"
abbreviation (input) IR_LDSUB :: ir_op where "IR_LDSUB \<equiv> 80"
abbreviation (input) IR_LDMUL :: ir_op where "IR_LDMUL \<equiv> 81"
abbreviation (input) IR_LDDIV :: ir_op where "IR_LDDIV \<equiv> 82"
abbreviation (input) IR_LDNEG :: ir_op where "IR_LDNEG \<equiv> 83"
abbreviation (input) IR_LDLT :: ir_op where "IR_LDLT \<equiv> 84"
abbreviation (input) IR_LDGT :: ir_op where "IR_LDGT \<equiv> 85"
abbreviation (input) IR_LDLTEQ :: ir_op where "IR_LDLTEQ \<equiv> 86"
abbreviation (input) IR_LDGTEQ :: ir_op where "IR_LDGTEQ \<equiv> 87"
abbreviation (input) IR_LDEQEQ :: ir_op where "IR_LDEQEQ \<equiv> 88"
abbreviation (input) IR_LDNOTEQ :: ir_op where "IR_LDNOTEQ \<equiv> 89"
abbreviation (input) IR_LDLOAD :: ir_op where "IR_LDLOAD \<equiv> 90"
abbreviation (input) IR_LDSTORE :: ir_op where "IR_LDSTORE \<equiv> 91"
abbreviation (input) IR_LDGLOAD :: ir_op where "IR_LDGLOAD \<equiv> 92"
abbreviation (input) IR_LDGSTORE :: ir_op where "IR_LDGSTORE \<equiv> 93"
abbreviation (input) IR_I2LD :: ir_op where "IR_I2LD \<equiv> 94"
abbreviation (input) IR_LD2I :: ir_op where "IR_LD2I \<equiv> 95"
abbreviation (input) IR_D2LD :: ir_op where "IR_D2LD \<equiv> 96"
abbreviation (input) IR_LD2D :: ir_op where "IR_LD2D \<equiv> 97"
abbreviation (input) IR_LDRET :: ir_op where "IR_LDRET \<equiv> 98"
abbreviation (input) IR_GADDR :: ir_op where "IR_GADDR \<equiv> 99"
abbreviation (input) IR_GLOAD :: ir_op where "IR_GLOAD \<equiv> 100"
abbreviation (input) IR_GLOAD64 :: ir_op where "IR_GLOAD64 \<equiv> 101"
abbreviation (input) IR_GSTORE :: ir_op where "IR_GSTORE \<equiv> 102"
abbreviation (input) IR_GSTORE64 :: ir_op where "IR_GSTORE64 \<equiv> 103"
abbreviation (input) IR_I2F :: ir_op where "IR_I2F \<equiv> 104"
abbreviation (input) IR_ICALL :: ir_op where "IR_ICALL \<equiv> 105"
abbreviation (input) IR_INDEX :: ir_op where "IR_INDEX \<equiv> 106"
abbreviation (input) IR_INSERT_BITS :: ir_op where "IR_INSERT_BITS \<equiv> 107"
abbreviation (input) IR_JMP :: ir_op where "IR_JMP \<equiv> 108"
abbreviation (input) IR_JZ :: ir_op where "IR_JZ \<equiv> 109"
abbreviation (input) IR_JZ64 :: ir_op where "IR_JZ64 \<equiv> 110"
abbreviation (input) IR_LABEL :: ir_op where "IR_LABEL \<equiv> 111"
abbreviation (input) IR_LOAD :: ir_op where "IR_LOAD \<equiv> 112"
abbreviation (input) IR_LOAD64 :: ir_op where "IR_LOAD64 \<equiv> 113"
abbreviation (input) IR_LOAD_ADDR :: ir_op where "IR_LOAD_ADDR \<equiv> 114"
abbreviation (input) IR_NEG :: ir_op where "IR_NEG \<equiv> 115"
abbreviation (input) IR_NEG64 :: ir_op where "IR_NEG64 \<equiv> 116"
abbreviation (input) IR_POP :: ir_op where "IR_POP \<equiv> 117"
abbreviation (input) IR_POP64 :: ir_op where "IR_POP64 \<equiv> 118"
abbreviation (input) IR_RET :: ir_op where "IR_RET \<equiv> 119"
abbreviation (input) IR_RET64 :: ir_op where "IR_RET64 \<equiv> 120"
abbreviation (input) IR_RET_AGG :: ir_op where "IR_RET_AGG \<equiv> 121"
abbreviation (input) IR_SEXT64 :: ir_op where "IR_SEXT64 \<equiv> 122"
abbreviation (input) IR_SEXT_BITS :: ir_op where "IR_SEXT_BITS \<equiv> 123"
abbreviation (input) IR_STORE :: ir_op where "IR_STORE \<equiv> 124"
abbreviation (input) IR_STORE64 :: ir_op where "IR_STORE64 \<equiv> 125"
abbreviation (input) IR_STORE_AGG :: ir_op where "IR_STORE_AGG \<equiv> 126"
abbreviation (input) IR_STORE_INDEX :: ir_op where "IR_STORE_INDEX \<equiv> 127"
abbreviation (input) IR_STORE_INDEX_KEEP :: ir_op where "IR_STORE_INDEX_KEEP \<equiv> 128"
abbreviation (input) IR_STR :: ir_op where "IR_STR \<equiv> 129"
abbreviation (input) IR_TRUNC32 :: ir_op where "IR_TRUNC32 \<equiv> 130"
abbreviation (input) IR_UMOD :: ir_op where "IR_UMOD \<equiv> 131"
abbreviation (input) IR_UMOD64 :: ir_op where "IR_UMOD64 \<equiv> 132"
abbreviation (input) IR_UDIV :: ir_op where "IR_UDIV \<equiv> 133"
abbreviation (input) IR_UDIV64 :: ir_op where "IR_UDIV64 \<equiv> 134"
abbreviation (input) IR_ULT :: ir_op where "IR_ULT \<equiv> 135"
abbreviation (input) IR_ULT64 :: ir_op where "IR_ULT64 \<equiv> 136"
abbreviation (input) IR_ULTEQ :: ir_op where "IR_ULTEQ \<equiv> 137"
abbreviation (input) IR_ULTEQ64 :: ir_op where "IR_ULTEQ64 \<equiv> 138"
abbreviation (input) IR_UGT :: ir_op where "IR_UGT \<equiv> 139"
abbreviation (input) IR_UGT64 :: ir_op where "IR_UGT64 \<equiv> 140"
abbreviation (input) IR_UGTEQ :: ir_op where "IR_UGTEQ \<equiv> 141"
abbreviation (input) IR_UGTEQ64 :: ir_op where "IR_UGTEQ64 \<equiv> 142"
abbreviation (input) IR_UGTGT :: ir_op where "IR_UGTGT \<equiv> 143"
abbreviation (input) IR_UGTGT64 :: ir_op where "IR_UGTGT64 \<equiv> 144"
abbreviation (input) IR_UCAST :: ir_op where "IR_UCAST \<equiv> 145"
abbreviation (input) IR_VA_START :: ir_op where "IR_VA_START \<equiv> 146"
abbreviation (input) IR_VLA_ALLOC :: ir_op where "IR_VLA_ALLOC \<equiv> 147"
abbreviation (input) IR_ZEXT64 :: ir_op where "IR_ZEXT64 \<equiv> 148"
abbreviation (input) IR_OR :: ir_op where "IR_OR \<equiv> 149"
abbreviation (input) IR_OR64 :: ir_op where "IR_OR64 \<equiv> 150"
abbreviation (input) IR_TILDE :: ir_op where "IR_TILDE \<equiv> 151"
abbreviation (input) IR_TILDE64 :: ir_op where "IR_TILDE64 \<equiv> 152"

definition ir_op_table :: "(string \<times> ir_op) list" where
  "ir_op_table =
     [(''trap'', IR_TRAP), (''atomic_load'', IR_ATOMIC_LOAD), (''atomic_store'', IR_ATOMIC_STORE),
      (''atomic_add'', IR_ATOMIC_ADD), (''atomic_fetch_add'', IR_ATOMIC_FETCH_ADD),
      (''atomic_exchange'', IR_ATOMIC_EXCHANGE), (''atomic_cas'', IR_ATOMIC_CAS),
      (''frame_addr'', IR_FRAME_ADDR), (''clz'', IR_CLZ), (''ctz'', IR_CTZ), (''popcount'', IR_POPCOUNT),
      (''add_overflow'', IR_ADD_OVERFLOW), (''!'', IR_NOT), (''!='', IR_NOTEQ), (''!=64'', IR_NOTEQ64),
      (''%'', IR_MOD), (''%64'', IR_MOD64), (''&'', IR_AND), (''&64'', IR_AND64), (''*'', IR_MUL),
      (''*64'', IR_MUL64), (''+'', IR_ADD), (''+64'', IR_ADD64), (''-'', IR_SUB), (''-64'', IR_SUB64),
      (''/'', IR_DIV), (''/64'', IR_DIV64), (''<'', IR_LT), (''<64'', IR_LT64), (''<<'', IR_LTLT),
      (''<<64'', IR_LTLT64), (''<='', IR_LTEQ), (''<=64'', IR_LTEQ64), (''=='', IR_EQEQ),
      (''==64'', IR_EQEQ64), (''>'', IR_GT), (''>64'', IR_GT64), (''>='', IR_GTEQ), (''>=64'', IR_GTEQ64),
      (''>>'', IR_GTGT), (''>>64'', IR_GTGT64), (''^'', IR_XOR), (''^64'', IR_XOR64), (''addr'', IR_ADDR),
      (''asm'', IR_ASM), (''call'', IR_CALL), (''cast'', IR_CAST), (''const'', IR_CONST),
      (''const64'', IR_CONST64), (''copy'', IR_COPY), (''d2f'', IR_D2F), (''dup'', IR_DUP),
      (''extract_bits'', IR_EXTRACT_BITS), (''f!='', IR_FNOTEQ), (''f2i'', IR_F2I), (''f<'', IR_FLT),
      (''f<='', IR_FLTEQ), (''f=='', IR_FEQEQ), (''f>'', IR_FGT), (''f>='', IR_FGTEQ), (''fadd'', IR_FADD),
      (''fconst'', IR_FCONST), (''fdiv'', IR_FDIV), (''fgload'', IR_FGLOAD), (''fgstore'', IR_FGSTORE),
      (''fload4'', IR_FLOAD4), (''fload8'', IR_FLOAD8), (''fload_addr4'', IR_FLOAD_ADDR4),
      (''fload_addr8'', IR_FLOAD_ADDR8), (''fmul'', IR_FMUL), (''fneg'', IR_FNEG), (''fret'', IR_FRET),
      (''fstore4'', IR_FSTORE4), (''fstore8'', IR_FSTORE8), (''fstore_addr4'', IR_FSTORE_ADDR4),
      (''fstore_addr8'', IR_FSTORE_ADDR8), (''fsub'', IR_FSUB), (''ldconst'', IR_LDCONST),
      (''ldadd'', IR_LDADD), (''ldsub'', IR_LDSUB), (''ldmul'', IR_LDMUL), (''lddiv'', IR_LDDIV),
      (''ldneg'', IR_LDNEG), (''ld<'', IR_LDLT), (''ld>'', IR_LDGT), (''ld<='', IR_LDLTEQ),
      (''ld>='', IR_LDGTEQ), (''ld=='', IR_LDEQEQ), (''ld!='', IR_LDNOTEQ), (''ldload'', IR_LDLOAD),
      (''ldstore'', IR_LDSTORE), (''ldgload'', IR_LDGLOAD), (''ldgstore'', IR_LDGSTORE),
      (''i2ld'', IR_I2LD), (''ld2i'', IR_LD2I), (''d2ld'', IR_D2LD), (''ld2d'', IR_LD2D),
      (''ldret'', IR_LDRET), (''gaddr'', IR_GADDR), (''gload'', IR_GLOAD), (''gload64'', IR_GLOAD64),
      (''gstore'', IR_GSTORE), (''gstore64'', IR_GSTORE64), (''i2f'', IR_I2F), (''icall'', IR_ICALL),
      (''index'', IR_INDEX), (''insert_bits'', IR_INSERT_BITS), (''jmp'', IR_JMP), (''jz'', IR_JZ),
      (''jz64'', IR_JZ64), (''label'', IR_LABEL), (''load'', IR_LOAD), (''load64'', IR_LOAD64),
      (''load_addr'', IR_LOAD_ADDR), (''neg'', IR_NEG), (''neg64'', IR_NEG64), (''pop'', IR_POP),
      (''pop64'', IR_POP64), (''ret'', IR_RET), (''ret64'', IR_RET64), (''ret_agg'', IR_RET_AGG),
      (''sext64'', IR_SEXT64), (''sext_bits'', IR_SEXT_BITS), (''store'', IR_STORE),
      (''store64'', IR_STORE64), (''store_agg'', IR_STORE_AGG), (''store_index'', IR_STORE_INDEX),
      (''store_index_keep'', IR_STORE_INDEX_KEEP), (''str'', IR_STR), (''trunc32'', IR_TRUNC32),
      (''u%'', IR_UMOD), (''u%64'', IR_UMOD64), (''u/'', IR_UDIV), (''u/64'', IR_UDIV64), (''u<'', IR_ULT),
      (''u<64'', IR_ULT64), (''u<='', IR_ULTEQ), (''u<=64'', IR_ULTEQ64), (''u>'', IR_UGT),
      (''u>64'', IR_UGT64), (''u>='', IR_UGTEQ), (''u>=64'', IR_UGTEQ64), (''u>>'', IR_UGTGT),
      (''u>>64'', IR_UGTGT64), (''ucast'', IR_UCAST), (''va_start'', IR_VA_START),
      (''vla_alloc'', IR_VLA_ALLOC), (''zext64'', IR_ZEXT64), (''|'', IR_OR), (''|64'', IR_OR64),
      (''~'', IR_TILDE), (''~64'', IR_TILDE64)]"

definition ir_op_to_string :: "ir_op \<Rightarrow> string" where
  "ir_op_to_string op = (case find (\<lambda>e. snd e = op) ir_op_table of Some e \<Rightarrow> fst e | None \<Rightarrow> ''?'')"

definition ir_string_to_op :: "string \<Rightarrow> ir_op" where
  "ir_string_to_op op = (case find (\<lambda>e. fst e = op) ir_op_table of Some e \<Rightarrow> snd e | None \<Rightarrow> IR_NOP)"

subsection \<open>Instructions and functions\<close>

record ir_inst =
  inst_op :: ir_op
  inst_arg :: int
  inst_value :: int
  inst_line :: int
  inst_col :: int

definition ir_inst_array_init :: "ir_inst dyn_array" where
  "ir_inst_array_init = \<lparr>arr_data = [], arr_count = 0, arr_capacity = 0\<rparr>"

definition ir_inst_array_push :: "ir_inst dyn_array \<Rightarrow> ir_inst \<Rightarrow> ir_inst dyn_array" where
  "ir_inst_array_push = array_push"

record ir_function =
  fn_name :: string
  fn_params :: "string dyn_array"
  fn_param_aggregate_sizes :: "int dyn_array"
  fn_param_aggregate_float_classes :: "int dyn_array"
  fn_code :: "ir_inst dyn_array"
  fn_locals :: "unit hash_map"
  fn_strings :: "(string \<times> string) dyn_array"
  fn_has_call :: int
  fn_label_id :: int
  fn_is_static :: int
  fn_is_weak :: int
  fn_section_name :: string
  fn_return_aggregate_size :: int
  fn_return_aggregate_float_class :: int
  fn_max_align :: int

subsection \<open>Operand strings\<close>

record ir_pool =
  ir_arg_pool :: "string dyn_array"
  ir_arg_index :: "unit hash_map"
  ir_arg_pool_ready :: bool

definition ir_arg_pool_reset :: "ir_pool \<Rightarrow> hm_fault + ir_pool" where
  "ir_arg_pool_reset pool =
     bnd (hashmap_put (hashmap_init 256) '''' () 0) (\<lambda>ix.
       Inr (pool\<lparr>ir_arg_pool := string_array_push string_array_init '''', ir_arg_index := ix,
         ir_arg_pool_ready := True\<rparr>))"

definition ir_intern_arg :: "ir_pool \<Rightarrow> string option \<Rightarrow> hm_fault + (ir_pool \<times> int)" where
  "ir_intern_arg pool arg =
     (let s = (case arg of None \<Rightarrow> '''' | Some s \<Rightarrow> s)
      in bnd (if ir_arg_pool_ready pool then Inr pool else ir_arg_pool_reset pool) (\<lambda>pool.
         bnd (hashmap_get (ir_arg_index pool) s) (\<lambda>e. case e of
             Some (_, i) \<Rightarrow> Inr (pool, i)
           | None \<Rightarrow>
             (let idx = int (arr_count (ir_arg_pool pool))
              in bnd (hashmap_put (ir_arg_index pool) s () idx) (\<lambda>ix.
                 Inr (pool\<lparr>ir_arg_pool := string_array_push (ir_arg_pool pool) s, ir_arg_index := ix\<rparr>, idx))))))"

text \<open>\<^term>\<open>None\<close> stands for a read outside the pool or of a cell never written.\<close>

definition ir_arg_str :: "ir_pool \<Rightarrow> int \<Rightarrow> string option" where
  "ir_arg_str pool i =
     (if 0 \<le> i \<and> nat i < length (arr_data (ir_arg_pool pool)) then arr_data (ir_arg_pool pool) ! nat i else None)"

subsection \<open>Emitting an instruction\<close>

record ir_emit =
  em_fn :: ir_function
  em_pool :: ir_pool
  ir_current_line :: int
  ir_current_col :: int

definition ir_push :: "ir_emit \<Rightarrow> string \<Rightarrow> string option \<Rightarrow> int \<Rightarrow> hm_fault + ir_emit" where
  "ir_push st op arg value =
     bnd (ir_intern_arg (em_pool st) arg) (\<lambda>(pool, a).
       let inst = \<lparr>inst_op = ir_string_to_op op, inst_arg = a, inst_value = value,
                   inst_line = ir_current_line st, inst_col = ir_current_col st\<rparr>
       in Inr (st\<lparr>em_pool := pool,
            em_fn := (em_fn st)\<lparr>fn_code := ir_inst_array_push (fn_code (em_fn st)) inst\<rparr>\<rparr>))"

end
