(* ===== verification/Ir_Opt.thy ===== *)
theory Ir_Opt
  imports Ir_Code
begin

text \<open>
  The optimiser, \<^verbatim>\<open>src/src/ir_opt.c\<close>: the instructions behind an unconditional jump, a return or a
  trap are left out up to the next label.  The function pointer is not null.
\<close>

definition ends_block :: "ir_inst \<Rightarrow> bool" where
  "ends_block i \<longleftrightarrow> inst_op i = IR_RET \<or> inst_op i = IR_RET64 \<or> inst_op i = IR_JMP \<or> inst_op i = IR_TRAP"

definition dce_step :: "ir_inst \<Rightarrow> bool \<times> ir_inst dyn_array \<Rightarrow> bool \<times> ir_inst dyn_array" where
  "dce_step i = (\<lambda>(unreachable, new_code).
     let unreachable = (if inst_op i = IR_LABEL then False else unreachable)
     in if unreachable then (unreachable, new_code)
        else (ends_block i, ir_inst_array_push new_code i))"

definition ir_optimize_function :: "ir_function \<Rightarrow> ir_function" where
  "ir_optimize_function fn =
     (if arr_count (fn_code fn) = 0 then fn
      else fn\<lparr>fn_code := snd (fold dce_step (array_items (fn_code fn)) (False, ir_inst_array_init))\<rparr>)"

definition ir_optimize_module :: "ir_function dyn_array \<Rightarrow> ir_function dyn_array" where
  "ir_optimize_module functions =
     functions\<lparr>arr_data := map (map_option ir_optimize_function) (take (arr_count functions) (arr_data functions))
       @ drop (arr_count functions) (arr_data functions)\<rparr>"

end
