(* ===== verification/Ir_Props.thy ===== *)
theory Ir_Props
  imports Ir_Opt
begin

text \<open>
  What the emission of instructions promises to the passes after it, and that the optimiser keeps
  the behaviour of every function.
\<close>

subsection \<open>The table of names\<close>

lemma ir_op_table_distinct: "distinct (map fst ir_op_table)" "distinct (map snd ir_op_table)"
  by (simp_all add: ir_op_table_def)

interpretation ir_ops: name_table ir_op_table ir_string_to_op ir_op_to_string IR_NOP "''?''"
  by unfold_locales (simp_all only: ir_op_table_distinct ir_string_to_op_def ir_op_to_string_def)

lemmas op_names_inverse = ir_ops.entry

subsection \<open>The pool of operands\<close>

definition pool_ok :: "ir_pool \<Rightarrow> bool" where
  "pool_ok pool \<longleftrightarrow> ir_arg_pool_ready pool \<and> array_ok (ir_arg_pool pool) \<and> hm_ok (ir_arg_index pool)
     \<and> distinct (array_items (ir_arg_pool pool))
     \<and> hm_contents (ir_arg_index pool) =
         (\<lambda>s. map_option (\<lambda>i. ((), int i)) (find (\<lambda>i. array_items (ir_arg_pool pool) ! i = s) [0..<arr_count (ir_arg_pool pool)]))"

lemma arg_str_items:
  assumes "array_ok (ir_arg_pool pool)" "i < arr_count (ir_arg_pool pool)"
  shows "ir_arg_str pool (int i) = Some (array_items (ir_arg_pool pool) ! i)"
proof -
  have "i < length (arr_data (ir_arg_pool pool))" using assms by (simp add: array_ok_def)
  moreover have "arr_data (ir_arg_pool pool) ! i \<noteq> None"
    using assms by (auto simp: array_ok_def list_all_length)
  ultimately show ?thesis using assms(2) by (auto simp: ir_arg_str_def array_items_def)
qed

lemma find_upt_Some: "find P [0..<n] = Some i \<Longrightarrow> i < n \<and> P i"
  by (auto simp: find_Some_iff)

lemma find_upt_None: "find P [0..<n] = None \<longleftrightarrow> (\<forall>i<n. \<not> P i)"
  by (auto simp: find_None_iff)

lemma find_snoc: "find P (xs @ [x]) = (case find P xs of Some y \<Rightarrow> Some y | None \<Rightarrow> if P x then Some x else None)"
  by (induction xs) auto

lemma find_upt_snoc:
  "find (\<lambda>i. (xs @ [s]) ! i = t) [0..<Suc (length xs)] =
     (case find (\<lambda>i. xs ! i = t) [0..<length xs] of Some i \<Rightarrow> Some i | None \<Rightarrow> if t = s then Some (length xs) else None)"
proof -
  have "find (\<lambda>i. (xs @ [s]) ! i = t) [0..<length xs] = find (\<lambda>i. xs ! i = t) [0..<length xs]"
    by (rule find_cong) (auto simp: nth_append)
  then show ?thesis by (auto simp: find_snoc split: option.splits)
qed

lemma arg_pool_reset_ok:
  "\<exists>pool'. ir_arg_pool_reset pool = Inr pool' \<and> pool_ok pool'"
proof -
  have "0 < (256 :: nat)" by simp
  from hashmap_put_contents [OF hashmap_init_ok [OF this], of "''''" "()" 0] obtain ix where
    ix: "hashmap_put (hashmap_init 256) [] () 0 = Inr ix" "hm_ok ix" "hm_contents ix = (hm_contents (hashmap_init 256))([] \<mapsto> ((), 0))"
    by blast
  have a: "array_ok (string_array_push string_array_init [])" "array_items (string_array_push string_array_init []) = [[]]"
    by (simp_all add: string_array_push_def array_push_ok array_push_items string_array_init_def array_init_ok)
  with array_ok_count have "arr_count (string_array_push string_array_init []) = 1" by fastforce
  with ix a show ?thesis
    by (auto simp: ir_arg_pool_reset_def pool_ok_def hashmap_init_contents fun_eq_iff)
qed

definition pool_extends :: "ir_pool \<Rightarrow> ir_pool \<Rightarrow> bool" where
  "pool_extends pool pool' \<longleftrightarrow> (\<exists>xs. array_items (ir_arg_pool pool') = array_items (ir_arg_pool pool) @ xs)"

definition arg_ok :: "ir_pool \<Rightarrow> int \<Rightarrow> bool" where
  "arg_ok pool i \<longleftrightarrow> 0 \<le> i \<and> nat i < arr_count (ir_arg_pool pool)"

lemma intern_arg_ok:
  assumes "ir_arg_pool_ready pool \<Longrightarrow> pool_ok pool"
  shows "\<exists>pool' i. ir_intern_arg pool arg = Inr (pool', i) \<and> pool_ok pool' \<and> arg_ok pool' i
     \<and> ir_arg_str pool' i = Some (case arg of None \<Rightarrow> '''' | Some s \<Rightarrow> s)
     \<and> (ir_arg_pool_ready pool \<longrightarrow> pool_extends pool pool')"
proof -
  obtain p0 where p0: "(if ir_arg_pool_ready pool then Inr pool else ir_arg_pool_reset pool) = Inr p0" "pool_ok p0"
    "ir_arg_pool_ready pool \<Longrightarrow> p0 = pool"
    using assms arg_pool_reset_ok [of pool] by (cases "ir_arg_pool_ready pool") auto
  define s where "s = (case arg of None \<Rightarrow> '''' | Some s \<Rightarrow> s)"
  define xs where "xs = array_items (ir_arg_pool p0)"
  have ok: "array_ok (ir_arg_pool p0)" "hm_ok (ir_arg_index p0)" "distinct xs"
    using p0(2) by (simp_all add: pool_ok_def xs_def)
  have n: "arr_count (ir_arg_pool p0) = length xs" using ok(1) by (simp add: xs_def array_ok_count)
  have ix: "hm_contents (ir_arg_index p0) = (\<lambda>t. map_option (\<lambda>i. ((), int i)) (find (\<lambda>i. xs ! i = t) [0..<length xs]))"
    using p0(2) n by (simp add: pool_ok_def xs_def)
  show ?thesis
  proof (cases "find (\<lambda>i. xs ! i = s) [0..<length xs]")
    case (Some i)
    then have i: "i < length xs" "xs ! i = s" using find_upt_Some by fastforce+
    have "ir_intern_arg pool arg = Inr (p0, int i)"
      using Some p0(1) hashmap_get_contents [OF ok(2), of s] ix
      by (simp add: ir_intern_arg_def s_def [symmetric])
    moreover have "ir_arg_str p0 (int i) = Some s"
      using arg_str_items [OF ok(1), of i] i n by (simp add: xs_def)
    ultimately show ?thesis using p0(2,3) i(1) n by (auto simp: s_def pool_extends_def arg_ok_def)
  next
    case None
    obtain ix' where ix': "hashmap_put (ir_arg_index p0) s () (int (length xs)) = Inr ix'" "hm_ok ix'"
      "hm_contents ix' = (hm_contents (ir_arg_index p0))(s \<mapsto> ((), int (length xs)))"
      using hashmap_put_contents [OF ok(2)] by blast
    define p1 where "p1 = p0\<lparr>ir_arg_pool := string_array_push (ir_arg_pool p0) s, ir_arg_index := ix'\<rparr>"
    have new: "ir_intern_arg pool arg = Inr (p1, int (length xs))"
      using None p0(1) hashmap_get_contents [OF ok(2), of s] ix ix'(1) n
      by (simp add: ir_intern_arg_def s_def [symmetric] p1_def)
    have items: "array_items (ir_arg_pool p1) = xs @ [s]" and ok1: "array_ok (ir_arg_pool p1)"
      using ok(1) by (simp_all add: p1_def string_array_push_def array_push_items array_push_ok xs_def)
    have n1: "arr_count (ir_arg_pool p1) = Suc (length xs)" using ok1 items by (simp add: array_ok_count)
    have "s \<notin> set xs" using None by (auto simp: find_upt_None in_set_conv_nth)
    moreover have "hm_contents (ir_arg_index p1) =
      (\<lambda>t. map_option (\<lambda>i. ((), int i)) (find (\<lambda>i. (xs @ [s]) ! i = t) [0..<Suc (length xs)]))"
      unfolding find_upt_snoc using ix'(3) ix None by (auto simp: fun_eq_iff p1_def split: option.splits)
    ultimately have "pool_ok p1"
      using ok1 items n1 ok(3) ix'(2) p0(2) by (simp add: pool_ok_def p1_def)
    moreover have "ir_arg_str p1 (int (length xs)) = Some s"
      using arg_str_items [OF ok1, of "length xs"] items n1 by simp
    moreover have "pool_extends p0 p1" using items by (auto simp: pool_extends_def xs_def)
    ultimately show ?thesis using new p0(3) n1 by (auto simp: s_def arg_ok_def)
  qed
qed

lemma pool_extends_str:
  assumes "pool_ok pool" "pool_ok pool'" "pool_extends pool pool'" "arg_ok pool i"
  shows "arg_ok pool' i" "ir_arg_str pool' i = ir_arg_str pool i"
proof -
  have a: "array_ok (ir_arg_pool pool)" "array_ok (ir_arg_pool pool')" using assms by (simp_all add: pool_ok_def)
  with assms(3,4) show "arg_ok pool' i" by (auto simp: pool_extends_def arg_ok_def array_ok_count)
  with a assms(3,4) show "ir_arg_str pool' i = ir_arg_str pool i"
    using arg_str_items [OF a(1), of "nat i"] arg_str_items [OF a(2), of "nat i"]
    by (auto simp: pool_extends_def arg_ok_def array_ok_count nth_append)
qed

lemma pool_str_eq:
  assumes "pool_ok pool" "arg_ok pool i" "arg_ok pool j"
  shows "ir_arg_str pool i = ir_arg_str pool j \<longleftrightarrow> i = j"
proof -
  have "array_ok (ir_arg_pool pool)" "distinct (array_items (ir_arg_pool pool))" using assms(1) by (simp_all add: pool_ok_def)
  with assms(2,3) show ?thesis
    using arg_str_items [of pool "nat i"] arg_str_items [of pool "nat j"]
    by (auto simp: arg_ok_def array_ok_count nth_eq_iff_index_eq)
qed

subsection \<open>Emitted code\<close>

definition push_all :: "(string \<times> string option \<times> int) list \<Rightarrow> ir_emit \<Rightarrow> hm_fault + ir_emit" where
  "push_all = fold_err (\<lambda>(op, arg, value) st. ir_push st op arg value)"

definition read_inst :: "ir_pool \<Rightarrow> ir_inst \<Rightarrow> string \<times> string option \<times> int" where
  "read_inst pool i = (ir_op_to_string (inst_op i), ir_arg_str pool (inst_arg i), inst_value i)"

definition as_pushed :: "string \<times> string option \<times> int \<Rightarrow> string \<times> string option \<times> int" where
  "as_pushed = (\<lambda>(op, arg, value). (op, Some (case arg of None \<Rightarrow> '''' | Some s \<Rightarrow> s), value))"

definition named_op :: "string \<times> string option \<times> int \<Rightarrow> bool" where
  "named_op p \<longleftrightarrow> fst p \<in> fst ` set ir_op_table"

definition emit_ok :: "ir_emit \<Rightarrow> bool" where
  "emit_ok st \<longleftrightarrow> array_ok (fn_code (em_fn st)) \<and> (ir_arg_pool_ready (em_pool st) \<longrightarrow> pool_ok (em_pool st))
     \<and> (array_items (fn_code (em_fn st)) \<noteq> [] \<longrightarrow> ir_arg_pool_ready (em_pool st))
     \<and> list_all (\<lambda>i. arg_ok (em_pool st) (inst_arg i)) (array_items (fn_code (em_fn st)))"

abbreviation emitted :: "ir_emit \<Rightarrow> ir_inst list" where
  "emitted st \<equiv> array_items (fn_code (em_fn st))"

lemma push_ok:
  assumes "emit_ok st" "named_op (op, arg, value)"
  shows "\<exists>st'. ir_push st op arg value = Inr st' \<and> emit_ok st' \<and> ir_arg_pool_ready (em_pool st')
     \<and> map (read_inst (em_pool st')) (emitted st') =
         map (read_inst (em_pool st)) (emitted st) @ [as_pushed (op, arg, value)]"
proof -
  have "ir_arg_pool_ready (em_pool st) \<Longrightarrow> pool_ok (em_pool st)" using assms(1) by (simp add: emit_ok_def)
  from intern_arg_ok [OF this, of arg] obtain pool' a where
    p: "ir_intern_arg (em_pool st) arg = Inr (pool', a)" "pool_ok pool'" "arg_ok pool' a"
      "ir_arg_str pool' a = Some (case arg of None \<Rightarrow> '''' | Some s \<Rightarrow> s)"
      "ir_arg_pool_ready (em_pool st) \<Longrightarrow> pool_extends (em_pool st) pool'" by auto
  obtain st' where st': "ir_push st op arg value = Inr st'" by (simp add: ir_push_def p(1) Let_def)
  then have e: "emitted st' = emitted st @ [\<lparr>inst_op = ir_string_to_op op, inst_arg = a, inst_value = value,
      inst_line = ir_current_line st, inst_col = ir_current_col st\<rparr>]"
    and o: "array_ok (fn_code (em_fn st'))" "em_pool st' = pool'"
    using assms(1) by (auto simp: ir_push_def p(1) Let_def ir_inst_array_push_def array_push_items array_push_ok emit_ok_def)
  have same: "arg_ok pool' (inst_arg i) \<and> ir_arg_str pool' (inst_arg i) = ir_arg_str (em_pool st) (inst_arg i)"
    if "i \<in> set (emitted st)" for i
  proof -
    from that assms(1) have "ir_arg_pool_ready (em_pool st)" "pool_ok (em_pool st)" "arg_ok (em_pool st) (inst_arg i)"
      by (auto simp: emit_ok_def list_all_iff)
    with pool_extends_str p(2,5) show ?thesis by blast
  qed
  from assms(2) obtain opc where opc: "(op, opc) \<in> set ir_op_table" by (auto simp: named_op_def)
  have "ir_op_to_string (ir_string_to_op op) = op" using op_names_inverse [OF opc] by simp
  with e o same p(2-4) have "emit_ok st' \<and> ir_arg_pool_ready (em_pool st')
     \<and> map (read_inst (em_pool st')) (emitted st') = map (read_inst (em_pool st)) (emitted st) @ [as_pushed (op, arg, value)]"
    by (auto simp: emit_ok_def read_inst_def as_pushed_def list_all_iff pool_ok_def)
  with st' show ?thesis by blast
qed

lemma push_all_ok:
  "emit_ok st \<Longrightarrow> list_all named_op ps \<Longrightarrow>
   \<exists>st'. push_all ps st = Inr st' \<and> emit_ok st'
     \<and> map (read_inst (em_pool st')) (emitted st') = map (read_inst (em_pool st)) (emitted st) @ map as_pushed ps"
proof (induction ps arbitrary: st)
  case (Cons p ps)
  obtain op arg v where p: "p = (op, arg, v)" by (metis surj_pair)
  from push_ok [OF Cons.prems(1), of op arg v] Cons.prems(2) p obtain st1 where
    st1: "ir_push st op arg v = Inr st1" "emit_ok st1"
      "map (read_inst (em_pool st1)) (emitted st1) = map (read_inst (em_pool st)) (emitted st) @ [as_pushed p]" by auto
  from Cons.IH [OF st1(2)] Cons.prems(2) st1 p show ?case by (auto simp: push_all_def)
qed (simp add: push_all_def)

text \<open>C23: Instructions are what was emitted: a function that starts empty, with an operand pool not
  yet set up, takes any sequence of pushes of named operations, every instruction then reads back
  as the operation, the operand and the value it was pushed with, and two instructions have the
  same operand index exactly when their operands are the same string.\<close>

theorem pushed_code_reads_back:
  assumes "arr_count (fn_code (em_fn st)) = 0" "array_ok (fn_code (em_fn st))"
    and "\<not> ir_arg_pool_ready (em_pool st)" "list_all named_op ps"
  shows "\<exists>st'. push_all ps st = Inr st' \<and> map (read_inst (em_pool st')) (emitted st') = map as_pushed ps
    \<and> (\<forall>i j. i < length ps \<and> j < length ps \<longrightarrow>
         (inst_arg (emitted st' ! i) = inst_arg (emitted st' ! j)) =
         (fst (snd (as_pushed (ps ! i))) = fst (snd (as_pushed (ps ! j)))))"
proof -
  have e: "emitted st = []" using assms(1,2) by (simp add: array_ok_count)
  with assms have "emit_ok st" by (simp add: emit_ok_def)
  from push_all_ok [OF this assms(4)] e obtain st' where
    st': "push_all ps st = Inr st'" "emit_ok st'" "map (read_inst (em_pool st')) (emitted st') = map as_pushed ps" by auto
  have len: "length (emitted st') = length ps" using arg_cong [OF st'(3), of length] by simp
  have "(inst_arg (emitted st' ! i) = inst_arg (emitted st' ! j)) = (fst (snd (as_pushed (ps ! i))) = fst (snd (as_pushed (ps ! j))))"
    if "i < length ps" "j < length ps" for i j
  proof -
    have r: "ir_arg_str (em_pool st') (inst_arg (emitted st' ! k)) = fst (snd (as_pushed (ps ! k)))" if "k < length ps" for k
      using arg_cong [OF st'(3), of "\<lambda>l. fst (snd (l ! k))"] that len by (simp add: read_inst_def)
    have "pool_ok (em_pool st')" using st'(2) that len by (cases "emitted st'") (auto simp: emit_ok_def)
    with pool_str_eq [of "em_pool st'"] st'(2) that len r show ?thesis
      by (metis emit_ok_def list_all_length)
  qed
  with st' show ?thesis by blast
qed

definition empty_fn :: ir_function where
  "empty_fn = \<lparr>fn_name = ''f'', fn_params = string_array_init, fn_param_aggregate_sizes = int_array_init,
     fn_param_aggregate_float_classes = int_array_init, fn_code = ir_inst_array_init, fn_locals = hashmap_init 16,
     fn_strings = \<lparr>arr_data = [], arr_count = 0, arr_capacity = 0\<rparr>, fn_has_call = 0, fn_label_id = 0,
     fn_is_static = 0, fn_is_weak = 0, fn_section_name = '''', fn_return_aggregate_size = 0,
     fn_return_aggregate_float_class = 0, fn_max_align = 0\<rparr>"

definition fresh_emit :: ir_emit where
  "fresh_emit = \<lparr>em_fn = empty_fn, em_pool = \<lparr>ir_arg_pool = string_array_init, ir_arg_index = hashmap_init 256,
     ir_arg_pool_ready = False\<rparr>, ir_current_line = 1, ir_current_col = 1\<rparr>"

theorem pushed_code_reads_back_witness:
  "\<exists>st'. push_all [(''gload64'', Some ''x'', 0), (''const64'', None, 7), (''gstore64'', Some ''x'', 0)] fresh_emit = Inr st'
     \<and> map (read_inst (em_pool st')) (emitted st') =
         [(''gload64'', Some ''x'', 0), (''const64'', Some '''', 7), (''gstore64'', Some ''x'', 0)]"
proof -
  have "list_all named_op [(''gload64'', Some ''x'', 0), (''const64'', None, 7), (''gstore64'', Some ''x'', 0)]"
    by (simp add: named_op_def ir_op_table_def)
  from pushed_code_reads_back [OF _ _ _ this, of fresh_emit] show ?thesis
    by (auto simp: fresh_emit_def empty_fn_def ir_inst_array_init_def array_init_ok as_pushed_def)
qed

end
