(* ===== verification/Ir_Opt_Props.thy ===== *)
theory Ir_Opt_Props
  imports Ir_Opt Ir_Props
begin

text \<open>
  The optimiser keeps the behaviour of every function, whatever its instructions mean, as long as the
  four that end a block never fall through; what it leaves has no unreachable instruction.
\<close>

subsection \<open>The pass on lists\<close>

fun keep_live :: "bool \<Rightarrow> ir_inst list \<Rightarrow> ir_inst list" where
  "keep_live dead [] = []"
| "keep_live dead (i # is) =
     (if dead \<and> inst_op i \<noteq> IR_LABEL then keep_live dead is else i # keep_live (ends_block i) is)"

lemma label_no_end: "inst_op i = IR_LABEL \<Longrightarrow> \<not> ends_block i"
  by (simp add: ends_block_def)

lemma dce_step_simps:
  "dce_step i (dead, arr) =
     (if dead \<and> inst_op i \<noteq> IR_LABEL then (dead, arr) else (ends_block i, ir_inst_array_push arr i))"
  by (auto simp: dce_step_def Let_def)

lemma dce_fold:
  "array_ok arr \<Longrightarrow> fold dce_step is (dead, arr) = (d', arr') \<Longrightarrow>
     array_ok arr' \<and> array_items arr' = array_items arr @ keep_live dead is"
proof (induction "is" arbitrary: dead arr)
  case (Cons i "is")
  show ?case
  proof (cases "dead \<and> inst_op i \<noteq> IR_LABEL")
    case True
    with Cons.prems have "fold dce_step is (dead, arr) = (d', arr')" by (simp add: dce_step_simps)
    from Cons.IH [OF Cons.prems(1) this] True show ?thesis by simp
  next
    case False
    with Cons.prems have "fold dce_step is (ends_block i, ir_inst_array_push arr i) = (d', arr')"
      by (simp add: dce_step_simps)
    from Cons.IH [OF _ this] Cons.prems(1) False show ?thesis
      by (auto simp: ir_inst_array_push_def array_push_ok array_push_items)
  qed
qed simp

abbreviation code_of :: "ir_function \<Rightarrow> ir_inst list" where
  "code_of fn \<equiv> array_items (fn_code fn)"

lemma optimized_code:
  assumes "array_ok (fn_code fn)"
  shows "array_ok (fn_code (ir_optimize_function fn))" "code_of (ir_optimize_function fn) = keep_live False (code_of fn)"
proof -
  obtain d' arr' where r: "fold dce_step (code_of fn) (False, ir_inst_array_init) = (d', arr')"
    by (cases "fold dce_step (code_of fn) (False, ir_inst_array_init)")
  have "array_ok ir_inst_array_init" "array_items ir_inst_array_init = []"
    by (simp_all add: ir_inst_array_init_def array_init_ok)
  with dce_fold [OF _ r] have "array_ok arr'" "array_items arr' = keep_live False (code_of fn)" by simp_all
  with r assms show "array_ok (fn_code (ir_optimize_function fn))"
    "code_of (ir_optimize_function fn) = keep_live False (code_of fn)"
    by (auto simp: ir_optimize_function_def array_ok_count)
qed

subsection \<open>Running a function\<close>

text \<open>What an instruction does to a state: it falls through to the next one, goes to the label whose
  operand it names, or ends the function.\<close>

datatype 's effect = Falls 's | Goes int 's | Ends 's

datatype 's outcome = Running 's | Returned 's | Ran_Off 's | No_Such_Label int 's

definition from_label :: "int \<Rightarrow> ir_inst list \<Rightarrow> ir_inst list" where
  "from_label l code = dropWhile (\<lambda>i. \<not> (inst_op i = IR_LABEL \<and> inst_arg i = l)) code"

fun run_code :: "(ir_inst \<Rightarrow> 's \<Rightarrow> 's effect) \<Rightarrow> ir_inst list \<Rightarrow> nat \<Rightarrow> ir_inst list \<Rightarrow> 's \<Rightarrow> 's outcome" where
  "run_code means code 0 rest s = Running s"
| "run_code means code (Suc n) [] s = Ran_Off s"
| "run_code means code (Suc n) (i # rest) s =
     (case means i s of
        Falls s' \<Rightarrow> run_code means code n rest s'
      | Goes l s' \<Rightarrow> (case from_label l code of
            [] \<Rightarrow> No_Such_Label l s'
          | i' # rest' \<Rightarrow> run_code means code n (i' # rest') s')
      | Ends s' \<Rightarrow> Returned s')"

definition run_function :: "(ir_inst \<Rightarrow> 's \<Rightarrow> 's effect) \<Rightarrow> nat \<Rightarrow> ir_function \<Rightarrow> 's \<Rightarrow> 's outcome" where
  "run_function means n fn = run_code means (code_of fn) n (code_of fn)"

lemma from_label_keep_live: "from_label l (keep_live dead code) = keep_live False (from_label l code)"
  by (induction dead code rule: keep_live.induct) (auto simp: from_label_def)

lemma run_keep_live:
  assumes "\<And>i s s'. ends_block i \<Longrightarrow> means i s \<noteq> Falls s'"
  shows "run_code means (keep_live False code) n (keep_live False rest) s = run_code means code n rest s"
proof (induction n arbitrary: rest s)
  case (Suc n)
  show ?case
  proof (cases rest)
    case (Cons i rest')
    show ?thesis
    proof (cases "means i s")
      case (Falls s')
      with assms [of i s s'] have "\<not> ends_block i" by auto
      with Cons Falls Suc.IH show ?thesis by simp
    next
      case (Goes l s')
      show ?thesis
      proof (cases "from_label l code")
        case (Cons i' code')
        then have "from_label l (keep_live False code) = i' # keep_live (ends_block i') code'"
          by (simp add: from_label_keep_live)
        with Suc.IH [of "i' # code'" s'] Cons Goes \<open>rest = i # rest'\<close> show ?thesis by simp
      qed (use Cons Goes in \<open>simp add: from_label_keep_live\<close>)
    next
      case (Ends s')
      with Cons show ?thesis by simp
    qed
  qed simp
qed simp

text \<open>C13: The optimiser keeps the behaviour of every function: whatever the instructions mean, as long
  as the four that end a block never fall through to the next instruction, the optimised
  function is after any number of steps where the original is, returns in the same state, and goes to
  the same labels.\<close>

theorem optimize_keeps_runs:
  assumes "array_ok (fn_code fn)" "\<And>i s s'. ends_block i \<Longrightarrow> means i s \<noteq> Falls s'"
  shows "run_function means n (ir_optimize_function fn) s = run_function means n fn s"
  using run_keep_live [OF assms(2)] optimized_code [OF assms(1)] by (simp add: run_function_def)

text \<open>A stack machine of four instructions, and a function that counts down: its second half holds an
  unreachable instruction.\<close>

definition stack_means :: "ir_inst \<Rightarrow> int list \<Rightarrow> int list effect" where
  "stack_means i s =
     (if inst_op i = IR_CONST64 then Falls (inst_value i # s)
      else if inst_op i = IR_ADD64 then Falls ((hd s + hd (tl s)) # tl (tl s))
      else if inst_op i = IR_JMP then Goes (inst_arg i) s
      else if ends_block i then Ends s else Falls s)"

definition inst :: "ir_op \<Rightarrow> int \<Rightarrow> int \<Rightarrow> ir_inst" where
  "inst op a v = \<lparr>inst_op = op, inst_arg = a, inst_value = v, inst_line = 1, inst_col = 1\<rparr>"

definition demo_fn :: ir_function where
  "demo_fn = empty_fn\<lparr>fn_code := append_all ir_inst_array_push ir_inst_array_init
     [inst IR_CONST64 0 40, inst IR_JMP 1 0, inst IR_CONST64 0 7, inst IR_LABEL 1 0, inst IR_CONST64 0 2,
      inst IR_ADD64 0 0, inst IR_RET64 0 0, inst IR_RET64 0 0]\<rparr>"

lemma demo_fn_code:
  "array_ok (fn_code demo_fn)"
  "code_of demo_fn = [inst IR_CONST64 0 40, inst IR_JMP 1 0, inst IR_CONST64 0 7, inst IR_LABEL 1 0,
     inst IR_CONST64 0 2, inst IR_ADD64 0 0, inst IR_RET64 0 0, inst IR_RET64 0 0]"
  by (simp_all add: demo_fn_def ir_inst_array_push_def ir_inst_array_init_def array_push_ok array_push_items array_init_ok)

theorem optimize_keeps_runs_witness:
  "length (code_of (ir_optimize_function demo_fn)) = 6
   \<and> run_function stack_means 10 (ir_optimize_function demo_fn) [] = Returned [42]"
proof -
  have "stack_means i s \<noteq> Falls s'" if "ends_block i" for i s s'
    using that by (auto simp: stack_means_def ends_block_def)
  from optimize_keeps_runs [where n = 10 and s = "[]", OF demo_fn_code(1) this]
  have "run_function stack_means 10 (ir_optimize_function demo_fn) [] = run_function stack_means 10 demo_fn []" .
  moreover have "run_function stack_means 10 demo_fn [] = Returned [42]"
    by (simp add: run_function_def demo_fn_code numeral_eq_Suc stack_means_def inst_def from_label_def ends_block_def)
  moreover have "length (code_of (ir_optimize_function demo_fn)) = 6"
    by (simp add: optimized_code demo_fn_code inst_def ends_block_def)
  ultimately show ?thesis by simp
qed

subsection \<open>What is left\<close>

fun all_reachable :: "bool \<Rightarrow> ir_inst list \<Rightarrow> bool" where
  "all_reachable dead [] \<longleftrightarrow> True"
| "all_reachable dead (i # is) \<longleftrightarrow> (dead \<longrightarrow> inst_op i = IR_LABEL) \<and> all_reachable (ends_block i) is"

lemma keep_live_reachable: "all_reachable dead (keep_live dead code)"
  by (induction dead code rule: keep_live.induct) auto

lemma keep_live_id: "all_reachable dead code \<Longrightarrow> keep_live dead code = code"
  by (induction dead code rule: keep_live.induct) auto

text \<open>The pass leaves no instruction behind the end of a block and is idempotent on the code.\<close>

lemma optimize_reachable:
  assumes "array_ok (fn_code fn)"
  shows "all_reachable False (code_of (ir_optimize_function fn))"
    and "code_of (ir_optimize_function (ir_optimize_function fn)) = code_of (ir_optimize_function fn)"
  using optimized_code [OF assms] optimized_code [of "ir_optimize_function fn"]
  by (simp_all add: keep_live_reachable keep_live_id)

lemma optimize_module_functions:
  assumes "array_ok fns"
  shows "array_items (ir_optimize_module fns) = map ir_optimize_function (array_items fns)"
  using assms by (auto simp: array_items_def ir_optimize_module_def array_ok_def list_all_iff)

end
